(* ===== verification/Prelude.thy ===== *)
theory Prelude
  imports Main "HOL-Library.Char_ord" "HOL-Library.List_Lexorder"
begin

text \<open>
  What the component theories share: the model of Rust's \<open>Result\<close> and of the \<open>?\<close>
  operator, the operations of \<open>str\<close> and \<open>[u8]\<close> that the sources call, and the
  decimal printing and parsing of unsigned integers.

  A byte is a HOL \<open>char\<close> (eight bits) and a byte string is a \<open>char list\<close>, so byte
  literals are written as HOL strings. A Rust \<open>str\<close> is such a list that passes
  \<open>utf8_valid\<close> (the check of \<open>std::str::from_utf8\<close>). Every separator the sources
  split at is an ASCII byte, which never occurs inside a longer UTF-8 sequence, so
  splitting the bytes is splitting the characters.
\<close>

named_theorems res_simps \<open>how a \<open>?\<close> chain succeeds\<close>
named_theorems str_simps \<open>evaluation of the string operations on concatenations\<close>

type_synonym byte = char
type_synonym bytes = "char list"
type_synonym str = "char list"

abbreviation LF :: char where "LF \<equiv> CHR 0x0A"
abbreviation CR :: char where "CR \<equiv> CHR 0x0D"
abbreviation TAB :: char where "TAB \<equiv> CHR 0x09"
abbreviation NUL :: char where "NUL \<equiv> CHR 0x00"

section \<open>Results\<close>

abbreviation Ok :: "'a \<Rightarrow> 'e + 'a" where "Ok \<equiv> Inr"
abbreviation Err :: "'e \<Rightarrow> 'e + 'a" where "Err \<equiv> Inl"

text \<open>The operator \<open>?\<close>: go on with the value, or return the error at once.\<close>

definition bind_res :: "'e + 'a \<Rightarrow> ('a \<Rightarrow> 'e + 'b) \<Rightarrow> 'e + 'b" where
  "bind_res r f = (case r of Inl e \<Rightarrow> Inl e | Inr x \<Rightarrow> f x)"

definition ok_or :: "'e \<Rightarrow> 'a option \<Rightarrow> 'e + 'a" where
  "ok_or e r = (case r of None \<Rightarrow> Inl e | Some x \<Rightarrow> Inr x)"

definition map_err :: "('e \<Rightarrow> 'f) \<Rightarrow> 'e + 'a \<Rightarrow> 'f + 'a" where
  "map_err g r = (case r of Inl e \<Rightarrow> Inl (g e) | Inr x \<Rightarrow> Inr x)"

text \<open>A loop whose body may return early with an error, over a list.\<close>

fun try_fold :: "('s \<Rightarrow> 'a \<Rightarrow> 'e + 's) \<Rightarrow> 's \<Rightarrow> 'a list \<Rightarrow> 'e + 's" where
  "try_fold f s [] = Inr s"
| "try_fold f s (x # xs) = bind_res (f s x) (\<lambda>s'. try_fold f s' xs)"

fun try_map :: "('a \<Rightarrow> 'e + 'b) \<Rightarrow> 'a list \<Rightarrow> 'e + 'b list" where
  "try_map f [] = Inr []"
| "try_map f (x # xs) = bind_res (f x) (\<lambda>y. bind_res (try_map f xs) (\<lambda>ys. Inr (y # ys)))"

lemma bind_res_simps [simp]:
  "bind_res (Inl e) f = Inl e" "bind_res (Inr x) f = f x"
  by (simp_all add: bind_res_def)

lemma ok_or_simps [simp]:
  "ok_or e None = Inl e" "ok_or e (Some x) = Inr x"
  by (simp_all add: ok_or_def)

lemma map_err_simps [simp]:
  "map_err g (Inl e) = Inl (g e)" "map_err g (Inr x) = Inr x"
  by (simp_all add: map_err_def)

lemma bind_res_eq_Inr [res_simps]:
  "bind_res r f = Inr y \<longleftrightarrow> (\<exists>x. r = Inr x \<and> f x = Inr y)"
  by (cases r) simp_all

lemma ok_or_eq_Inr [res_simps]: "ok_or e r = Inr x \<longleftrightarrow> r = Some x"
  by (cases r) simp_all

lemma map_err_eq_Inr [res_simps]: "map_err g r = Inr x \<longleftrightarrow> r = Inr x"
  by (cases r) simp_all

lemma bind_res_eq_Inl [res_simps]:
  "bind_res r f = Inl e \<longleftrightarrow> r = Inl e \<or> (\<exists>x. r = Inr x \<and> f x = Inl e)"
  by (cases r) simp_all

lemma bind_res_cong [fundef_cong]:
  "r = r' \<Longrightarrow> (\<And>x. r' = Inr x \<Longrightarrow> f x = f' x) \<Longrightarrow> bind_res r f = bind_res r' f'"
  by (cases r') simp_all

lemma try_fold_append:
  "try_fold f s (xs @ ys) = bind_res (try_fold f s xs) (\<lambda>s'. try_fold f s' ys)"
proof (induction xs arbitrary: s)
  case (Cons x xs)
  then show ?case by (cases "f s x") simp_all
qed simp

text \<open>Loop invariant rule for a loop that ran to its end.\<close>

lemma try_fold_invariant:
  assumes "try_fold f s xs = Inr t" "P s"
    and "\<And>s x s'. x \<in> set xs \<Longrightarrow> P s \<Longrightarrow> f s x = Inr s' \<Longrightarrow> P s'"
  shows "P t"
  using assms
proof (induction xs arbitrary: s)
  case (Cons x xs)
  then obtain s' where "f s x = Inr s'" "try_fold f s' xs = Inr t" by (auto simp: res_simps)
  moreover have "P s'" using Cons.prems(2,3) calculation by (meson list.set_intros(1))
  ultimately show ?case using Cons.IH Cons.prems(3) by (meson list.set_intros(2))
qed simp

lemma try_fold_map_Ok:
  "(\<And>s x. x \<in> set xs \<Longrightarrow> f s (g x) = Inr (h s x)) \<Longrightarrow> try_fold f s (map g xs) = Inr (foldl h s xs)"
  by (induction xs arbitrary: s) simp_all

lemma try_map_eq_Inr:
  "try_map f xs = Inr ys \<longleftrightarrow> list_all2 (\<lambda>x y. f x = Inr y) xs ys"
  by (induction xs arbitrary: ys) (auto simp: res_simps list_all2_Cons1)

lemma try_map_all_Inr:
  "(\<And>x. x \<in> set xs \<Longrightarrow> f (g x) = Inr (h x)) \<Longrightarrow> try_map f (map g xs) = Inr (map h xs)"
  by (induction xs) simp_all

lemma try_map_cong [fundef_cong]:
  "xs = ys \<Longrightarrow> (\<And>x. x \<in> set ys \<Longrightarrow> f x = g x) \<Longrightarrow> try_map f xs = try_map g ys"
  by (induction ys arbitrary: xs) auto

section \<open>Splitting strings\<close>

text \<open>\<open>str::split_once\<close>: the parts before and after the first occurrence.\<close>

fun split_once :: "char \<Rightarrow> str \<Rightarrow> (str \<times> str) option" where
  "split_once c [] = None"
| "split_once c (x # xs) =
     (if x = c then Some ([], xs) else map_option (\<lambda>(a, b). (x # a, b)) (split_once c xs))"

text \<open>\<open>str::rsplit_once\<close>: around the last occurrence.\<close>

definition rsplit_once :: "char \<Rightarrow> str \<Rightarrow> (str \<times> str) option" where
  "rsplit_once c s = map_option (\<lambda>(a, b). (rev b, rev a)) (split_once c (rev s))"

text \<open>\<open>str::split(c)\<close>: always at least one piece.\<close>

fun split_on :: "char \<Rightarrow> str \<Rightarrow> str list" where
  "split_on c [] = [[]]"
| "split_on c (x # xs) =
     (if x = c then [] # split_on c xs
      else case split_on c xs of [] \<Rightarrow> [[x]] | y # ys \<Rightarrow> (x # y) # ys)"

text \<open>\<open>str::split_inclusive(c)\<close>: each piece keeps its terminator; no piece for an empty rest.\<close>

fun split_inclusive :: "char \<Rightarrow> str \<Rightarrow> str list" where
  "split_inclusive c [] = []"
| "split_inclusive c (x # xs) =
     (if x = c then [x] # split_inclusive c xs
      else case split_inclusive c xs of [] \<Rightarrow> [[x]] | y # ys \<Rightarrow> (x # y) # ys)"

definition strip_prefix :: "str \<Rightarrow> str \<Rightarrow> str option" where
  "strip_prefix p s = (if take (length p) s = p then Some (drop (length p) s) else None)"

definition strip_suffix :: "str \<Rightarrow> str \<Rightarrow> str option" where
  "strip_suffix p s = map_option rev (strip_prefix (rev p) (rev s))"

definition starts_with :: "str \<Rightarrow> str \<Rightarrow> bool" where
  "starts_with p s \<longleftrightarrow> take (length p) s = p"

definition ends_with :: "str \<Rightarrow> str \<Rightarrow> bool" where
  "ends_with p s \<longleftrightarrow> starts_with (rev p) (rev s)"

text \<open>\<open>str::contains(&str)\<close>.\<close>

fun contains_str :: "str \<Rightarrow> str \<Rightarrow> bool" where
  "contains_str p [] \<longleftrightarrow> p = []"
| "contains_str p (x # xs) \<longleftrightarrow> starts_with p (x # xs) \<or> contains_str p xs"

definition trim_start_matches :: "char \<Rightarrow> str \<Rightarrow> str" where
  "trim_start_matches c s = dropWhile (\<lambda>x. x = c) s"

definition trim_end_matches :: "char \<Rightarrow> str \<Rightarrow> str" where
  "trim_end_matches c s = rev (dropWhile (\<lambda>x. x = c) (rev s))"

definition trim_matches :: "char \<Rightarrow> str \<Rightarrow> str" where
  "trim_matches c s = trim_end_matches c (trim_start_matches c s)"

text \<open>
  \<open>str::lines\<close>: \<open>split_inclusive\<close> at the line feed, each piece without its
  \<open>"\n"\<close> and, only then, without one carriage return before it.
\<close>

definition chop_cr :: "str \<Rightarrow> str" where
  "chop_cr l = (case strip_suffix [CR] l of None \<Rightarrow> l | Some l' \<Rightarrow> l')"

definition chop_eol :: "str \<Rightarrow> str" where
  "chop_eol l = (case strip_suffix [LF] l of None \<Rightarrow> l | Some l' \<Rightarrow> chop_cr l')"

definition str_lines :: "str \<Rightarrow> str list" where
  "str_lines s = map chop_eol (split_inclusive LF s)"

definition str_join :: "str \<Rightarrow> str list \<Rightarrow> str" where
  "str_join sep xs = (case xs of [] \<Rightarrow> [] | y # ys \<Rightarrow> y @ concat (map (\<lambda>z. sep @ z) ys))"

lemma split_once_append [str_simps]:
  "c \<notin> set a \<Longrightarrow> split_once c (a @ c # b) = Some (a, b)"
  by (induction a) auto

lemma split_once_None_iff: "split_once c s = None \<longleftrightarrow> c \<notin> set s"
  by (induction s) auto

lemma split_once_SomeD:
  "split_once c s = Some (a, b) \<Longrightarrow> s = a @ c # b \<and> c \<notin> set a"
  by (induction s arbitrary: a b) (auto split: if_splits)

lemma rsplit_once_append [str_simps]:
  "c \<notin> set b \<Longrightarrow> rsplit_once c (a @ c # b) = Some (a, b)"
  using split_once_append [of c "rev b" "rev a"] by (simp add: rsplit_once_def)

lemma rsplit_once_None_iff: "rsplit_once c s = None \<longleftrightarrow> c \<notin> set s"
  using split_once_None_iff [of c "rev s"] by (auto simp: rsplit_once_def)

lemma rsplit_once_SomeD:
  assumes "rsplit_once c s = Some (a, b)"
  shows "s = a @ c # b \<and> c \<notin> set b"
proof -
  from assms have "split_once c (rev s) = Some (rev b, rev a)"
    by (auto simp: rsplit_once_def)
  then have "rev s = rev b @ c # rev a \<and> c \<notin> set (rev b)" by (rule split_once_SomeD)
  then have "rev (rev s) = a @ c # b \<and> c \<notin> set b"
    by (metis append.assoc append_Cons append_Nil rev.simps(2) rev_append rev_rev_ident set_rev)
  then show ?thesis by simp
qed

lemma split_on_not_Nil [simp]: "split_on c s \<noteq> []"
  by (cases s) (auto split: list.splits)

lemma split_on_append [str_simps]:
  "c \<notin> set a \<Longrightarrow> split_on c (a @ c # b) = a # split_on c b"
  by (induction a) (auto split: list.splits)

lemma split_on_notin [str_simps]: "c \<notin> set a \<Longrightarrow> split_on c a = [a]"
  by (induction a) auto

lemma split_on_pieces: "p \<in> set (split_on c s) \<Longrightarrow> c \<notin> set p"
  by (induction s arbitrary: p) (auto split: if_splits list.splits)

lemma split_on_append_sep: "split_on c (a @ c # b) = split_on c a @ split_on c b"
  by (induction a) (auto split: list.splits)

lemma split_on_join: "s = hd (split_on c s) @ concat (map (\<lambda>p. c # p) (tl (split_on c s)))"
  by (induction s) (auto split: list.splits)

lemma trim_matches_id: "s = [] \<or> hd s \<noteq> c \<and> last s \<noteq> c \<Longrightarrow> trim_matches c s = s"
proof -
  assume s: "s = [] \<or> hd s \<noteq> c \<and> last s \<noteq> c"
  then have "dropWhile (\<lambda>x. x = c) s = s" by (cases s) auto
  moreover have "dropWhile (\<lambda>x. x = c) (rev s) = rev s" using s by (cases s rule: rev_cases) auto
  ultimately show ?thesis by (simp add: trim_matches_def trim_start_matches_def trim_end_matches_def)
qed

lemma split_inclusive_append [str_simps]:
  "c \<notin> set a \<Longrightarrow> split_inclusive c (a @ c # b) = (a @ [c]) # split_inclusive c b"
  by (induction a) auto

lemma split_inclusive_notin:
  "c \<notin> set a \<Longrightarrow> split_inclusive c a = (if a = [] then [] else [a])"
  by (induction a) auto

lemma strip_prefix_append [str_simps]: "strip_prefix p (p @ s) = Some s"
  by (simp add: strip_prefix_def)

lemma strip_prefix_SomeD: "strip_prefix p s = Some r \<Longrightarrow> s = p @ r"
  by (auto simp: strip_prefix_def split: if_splits) (metis append_take_drop_id)

lemma strip_prefix_eq_Some: "strip_prefix p s = Some r \<longleftrightarrow> s = p @ r"
  using strip_prefix_SomeD strip_prefix_append by blast

lemma strip_suffix_append [str_simps]: "strip_suffix p (s @ p) = Some s"
  by (simp add: strip_suffix_def strip_prefix_append)

lemma strip_suffix_SomeD: "strip_suffix p s = Some r \<Longrightarrow> s = r @ p"
  by (auto simp: strip_suffix_def dest!: strip_prefix_SomeD)
    (metis rev_append rev_rev_ident)

lemma starts_with_append [simp]: "starts_with p (p @ s)"
  by (simp add: starts_with_def)

lemma starts_with_iff: "starts_with p s \<longleftrightarrow> (\<exists>r. s = p @ r)"
  by (auto simp: starts_with_def) (metis append_take_drop_id)

lemma contains_str_iff: "contains_str p s \<longleftrightarrow> (\<exists>a b. s = a @ p @ b)"
proof (induction s)
  case (Cons x xs)
  have "(\<exists>a b. x # xs = a @ p @ b) \<longleftrightarrow> (\<exists>b. x # xs = p @ b) \<or> (\<exists>a b. xs = a @ p @ b)"
    by (metis append_Cons append_Nil list.exhaust list.inject)
  then show ?case using Cons by (simp add: starts_with_iff)
qed simp

lemma split_on_pieces_infix:
  "p \<in> set (split_on c s) \<Longrightarrow> \<exists>a b. s = a @ p @ b"
proof -
  have "(\<exists>b. s = hd (split_on c s) @ b) \<and> (\<forall>p \<in> set (split_on c s). \<exists>a b. s = a @ p @ b)"
  proof (induction s)
    case (Cons x xs)
    then show ?case
    proof (cases "split_on c xs")
      case (Cons y ys)
      then obtain b where b: "xs = y @ b" using Cons.IH by auto
      have "\<exists>a b. x # xs = a @ p @ b" if "p \<in> set (y # ys)" for p
        using that Cons Cons.IH by (metis append_Cons)
      moreover have "\<exists>a b'. x # xs = a @ (x # y) @ b'" using b by (metis append_Cons append_Nil)
      ultimately show ?thesis using Cons b by auto
    qed simp
  qed simp
  then show "p \<in> set (split_on c s) \<Longrightarrow> ?thesis" by blast
qed

lemma chop_cr_id: "(l = [] \<or> last l \<noteq> CR) \<Longrightarrow> chop_cr l = l"
  by (auto simp: chop_cr_def split: option.splits dest!: strip_suffix_SomeD)

lemma chop_eol_LF [str_simps]: "chop_eol (l @ [LF]) = chop_cr l"
  by (simp add: chop_eol_def strip_suffix_append)

lemma str_lines_Nil [simp]: "str_lines [] = []"
  by (simp add: str_lines_def)

lemma str_lines_append [str_simps]:
  "LF \<notin> set a \<Longrightarrow> str_lines (a @ LF # b) = chop_cr a # str_lines b"
  by (simp add: str_lines_def split_inclusive_append chop_eol_LF)

text \<open>The lines of a text written line by line are the lines written.\<close>

lemma str_lines_concat:
  "\<forall>x \<in> set xs. LF \<notin> set (f x) \<Longrightarrow>
   str_lines (concat (map (\<lambda>x. f x @ [LF]) xs)) = map (\<lambda>x. chop_cr (f x)) xs"
  by (induction xs) (simp_all add: str_lines_append)

lemma chop_cr_append: "b \<noteq> [] \<Longrightarrow> last b \<noteq> CR \<Longrightarrow> chop_cr (a @ b) = a @ b"
  by (rule chop_cr_id) simp

lemma trim_end_matches_id: "(s = [] \<or> last s \<noteq> c) \<Longrightarrow> trim_end_matches c s = s"
  by (cases s rule: rev_cases) (auto simp: trim_end_matches_def)

lemma trim_end_matches_snoc [simp]: "trim_end_matches c (s @ [c]) = trim_end_matches c s"
  by (simp add: trim_end_matches_def)

lemma trim_end_matches_idem [simp]:
  "trim_end_matches c (trim_end_matches c s) = trim_end_matches c s"
  by (simp add: trim_end_matches_def)

lemma trim_end_matches_set: "set (trim_end_matches c s) \<subseteq> set s"
  by (auto simp: trim_end_matches_def dest!: set_dropWhileD)

lemma trim_start_matches_set: "set (trim_start_matches c s) \<subseteq> set s"
  by (auto simp: trim_start_matches_def dest!: set_dropWhileD)

end
