(* ===== verification/Text.thy ===== *)
theory Text
  imports Prelude
begin

text \<open>
  Text: the UTF-8 check of \<open>std::str::from_utf8\<close>, the Unicode \<open>trim\<close> of \<open>str\<close>, and
  the decimal printing (\<open>Display\<close>) and parsing (\<open>FromStr\<close>) of integers. The
  round trip of the decimals and the stability of the UTF-8 check under
  concatenation carry the codecs of the later theories.
\<close>

abbreviation byte_val :: "char \<Rightarrow> nat" where "byte_val \<equiv> of_char"

section \<open>UTF-8\<close>

text \<open>
  The ranges that the continuation bytes of a sequence must lie in, given its first
  byte (table 3-7 of the Unicode standard, which \<open>from_utf8\<close> implements).
\<close>

definition utf8_head :: "char \<Rightarrow> (nat \<times> nat) list option" where
  "utf8_head c = (let v = byte_val c in
     if v \<le> 0x7F then Some []
     else if 0xC2 \<le> v \<and> v \<le> 0xDF then Some [(0x80, 0xBF)]
     else if v = 0xE0 then Some [(0xA0, 0xBF), (0x80, 0xBF)]
     else if v = 0xED then Some [(0x80, 0x9F), (0x80, 0xBF)]
     else if 0xE1 \<le> v \<and> v \<le> 0xEF then Some [(0x80, 0xBF), (0x80, 0xBF)]
     else if v = 0xF0 then Some [(0x90, 0xBF), (0x80, 0xBF), (0x80, 0xBF)]
     else if 0xF1 \<le> v \<and> v \<le> 0xF3 then Some [(0x80, 0xBF), (0x80, 0xBF), (0x80, 0xBF)]
     else if v = 0xF4 then Some [(0x80, 0x8F), (0x80, 0xBF), (0x80, 0xBF)]
     else None)"

fun utf8_run :: "(nat \<times> nat) list \<Rightarrow> bytes \<Rightarrow> bool" where
  "utf8_run rs [] \<longleftrightarrow> rs = []"
| "utf8_run ((lo, hi) # rs) (c # cs) \<longleftrightarrow>
     lo \<le> byte_val c \<and> byte_val c \<le> hi \<and> utf8_run rs cs"
| "utf8_run [] (c # cs) \<longleftrightarrow>
     (case utf8_head c of None \<Rightarrow> False | Some rs \<Rightarrow> utf8_run rs cs)"

definition utf8_valid :: "bytes \<Rightarrow> bool" where
  "utf8_valid bs \<longleftrightarrow> utf8_run [] bs"

definition is_ascii :: "char \<Rightarrow> bool" where
  "is_ascii c \<longleftrightarrow> byte_val c \<le> 0x7F"

lemma is_ascii_literals [simp]:
  "is_ascii LF" "is_ascii CR" "is_ascii TAB" "is_ascii NUL" "is_ascii (CHR '' '')"
  by (simp_all add: is_ascii_def)

lemma utf8_run_append: "utf8_run rs xs \<Longrightarrow> utf8_run rs (xs @ ys) \<longleftrightarrow> utf8_run [] ys"
  by (induction rs xs rule: utf8_run.induct) (auto split: option.splits)

lemma utf8_valid_Nil [simp]: "utf8_valid []"
  by (simp add: utf8_valid_def)

lemma utf8_valid_append: "utf8_valid xs \<Longrightarrow> utf8_valid (xs @ ys) \<longleftrightarrow> utf8_valid ys"
  by (simp add: utf8_valid_def utf8_run_append)

lemma utf8_head_ascii: "is_ascii c \<Longrightarrow> utf8_head c = Some []"
  by (simp add: utf8_head_def is_ascii_def Let_def)

lemma utf8_valid_Cons_ascii [simp]: "is_ascii c \<Longrightarrow> utf8_valid (c # cs) \<longleftrightarrow> utf8_valid cs"
  by (simp add: utf8_valid_def utf8_head_ascii)

lemma utf8_valid_ascii: "\<forall>c \<in> set s. is_ascii c \<Longrightarrow> utf8_valid s"
  by (induction s) simp_all

lemma utf8_valid_concat: "\<forall>s \<in> set ss. utf8_valid s \<Longrightarrow> utf8_valid (concat ss)"
  by (induction ss) (simp_all add: utf8_valid_append)

lemma utf8_head_not_ascii:
  assumes "\<not> is_ascii c" "utf8_head c = Some rs"
  shows "\<forall>(lo, hi) \<in> set rs. 0x80 \<le> lo"
  using assms by (auto simp: utf8_head_def is_ascii_def Let_def split: if_splits)

text \<open>An ASCII byte ends whatever sequence is open, so a valid text splits at it.\<close>

lemma utf8_run_split_ascii:
  assumes "utf8_run rs (xs @ c # ys)" "is_ascii c" "\<forall>(lo, hi) \<in> set rs. 0x80 \<le> lo"
  shows "utf8_run rs xs \<and> utf8_run [] ys"
  using assms
proof (induction rs xs rule: utf8_run.induct)
  case (1 rs)
  then show ?case by (cases rs) (auto simp: is_ascii_def utf8_head_ascii)
next
  case (3 d cs)
  then obtain rs where rs: "utf8_head d = Some rs" "utf8_run rs (cs @ c # ys)"
    by (auto split: option.splits)
  have "\<forall>(lo, hi) \<in> set rs. 0x80 \<le> lo"
    using rs(1) utf8_head_not_ascii [of d rs] utf8_head_ascii [of d] by (cases "is_ascii d") auto
  with 3 rs show ?case by auto
qed auto

lemma utf8_valid_split:
  "utf8_valid (xs @ c # ys) \<Longrightarrow> is_ascii c \<Longrightarrow> utf8_valid xs \<and> utf8_valid ys"
  using utf8_run_split_ascii [of "[]" xs c ys] by (simp add: utf8_valid_def)

lemma split_inclusive_valid:
  "utf8_valid s \<Longrightarrow> p \<in> set (split_inclusive LF s) \<Longrightarrow> utf8_valid p"
proof (induction "length s" arbitrary: s rule: less_induct)
  case less
  show ?case
  proof (cases "split_once LF s")
    case None
    then have "LF \<notin> set s" by (simp add: split_once_None_iff)
    then show ?thesis using less.prems by (simp add: split_inclusive_notin split: if_splits)
  next
    case (Some ab)
    obtain a b where ab: "ab = (a, b)" by force
    then have s: "s = a @ LF # b" "LF \<notin> set a" using split_once_SomeD [of LF s a b] Some by auto
    then have "utf8_valid a" "utf8_valid b" using less.prems(1) utf8_valid_split [of a LF b] by auto
    then show ?thesis
      using less.hyps [of b] less.prems(2) s by (auto simp: split_inclusive_append utf8_valid_append)
  qed
qed

lemma utf8_valid_snoc: "utf8_valid (l @ [c]) \<Longrightarrow> is_ascii c \<Longrightarrow> utf8_valid l"
  using utf8_valid_split [of l c "[]"] by simp

lemma chop_cr_valid: "utf8_valid l \<Longrightarrow> utf8_valid (chop_cr l)"
  by (auto simp: chop_cr_def split: option.splits dest!: strip_suffix_SomeD dest: utf8_valid_snoc)

lemma chop_eol_valid: "utf8_valid l \<Longrightarrow> utf8_valid (chop_eol l)"
  by (auto simp: chop_eol_def split: option.splits dest!: strip_suffix_SomeD dest: utf8_valid_snoc
      intro: chop_cr_valid)

lemma str_lines_valid: "utf8_valid s \<Longrightarrow> l \<in> set (str_lines s) \<Longrightarrow> utf8_valid l"
  by (auto simp: str_lines_def intro: chop_eol_valid split_inclusive_valid)

section \<open>Trimming\<close>

text \<open>\<open>str::trim\<close> removes the characters with the Unicode property White_Space.\<close>

definition ws1 :: "char \<Rightarrow> bool" where
  "ws1 a \<longleftrightarrow> (0x09 \<le> byte_val a \<and> byte_val a \<le> 0x0D) \<or> byte_val a = 0x20"

definition ws2 :: "char \<Rightarrow> char \<Rightarrow> bool" where
  "ws2 a b \<longleftrightarrow> byte_val a = 0xC2 \<and> (byte_val b = 0x85 \<or> byte_val b = 0xA0)"

definition ws3 :: "char \<Rightarrow> char \<Rightarrow> char \<Rightarrow> bool" where
  "ws3 a b c \<longleftrightarrow> (let x = byte_val a; y = byte_val b; z = byte_val c in
     (x = 0xE1 \<and> y = 0x9A \<and> z = 0x80) \<or>
     (x = 0xE2 \<and> y = 0x80 \<and> ((0x80 \<le> z \<and> z \<le> 0x8A) \<or> z = 0xA8 \<or> z = 0xA9 \<or> z = 0xAF)) \<or>
     (x = 0xE2 \<and> y = 0x81 \<and> z = 0x9F) \<or>
     (x = 0xE3 \<and> y = 0x80 \<and> z = 0x80))"

fun trim_start :: "str \<Rightarrow> str" where
  "trim_start [] = []"
| "trim_start (a # xs) =
     (if ws1 a then trim_start xs
      else case xs of [] \<Rightarrow> a # xs
        | b # ys \<Rightarrow> if ws2 a b then trim_start ys
            else case ys of [] \<Rightarrow> a # xs
              | c # zs \<Rightarrow> if ws3 a b c then trim_start zs else a # xs)"

text \<open>The same from the end, on the reversed string.\<close>

fun trim_start_rev :: "str \<Rightarrow> str" where
  "trim_start_rev [] = []"
| "trim_start_rev (a # xs) =
     (if ws1 a then trim_start_rev xs
      else case xs of [] \<Rightarrow> a # xs
        | b # ys \<Rightarrow> if ws2 b a then trim_start_rev ys
            else case ys of [] \<Rightarrow> a # xs
              | c # zs \<Rightarrow> if ws3 c b a then trim_start_rev zs else a # xs)"

definition trim_end :: "str \<Rightarrow> str" where
  "trim_end s = rev (trim_start_rev (rev s))"

definition trim :: "str \<Rightarrow> str" where
  "trim s = trim_end (trim_start s)"

lemma trim_start_Cons_ascii: "is_ascii a \<Longrightarrow> \<not> ws1 a \<Longrightarrow> trim_start (a # xs) = a # xs"
  by (auto simp: is_ascii_def ws2_def ws3_def split: list.splits)

lemma trim_end_snoc_ascii: "is_ascii a \<Longrightarrow> \<not> ws1 a \<Longrightarrow> trim_end (xs @ [a]) = xs @ [a]"
  by (auto simp: trim_end_def is_ascii_def ws2_def ws3_def Let_def split: list.splits)

text \<open>A non-empty text of non-blank ASCII bytes is its own trim.\<close>

lemma trim_ascii_id:
  assumes "\<forall>c \<in> set s. is_ascii c \<and> \<not> ws1 c"
  shows "trim s = s"
proof (cases s)
  case (Cons a xs)
  with assms have "trim_start s = s" using trim_start_Cons_ascii by simp
  moreover obtain ys b where s: "s = ys @ [b]" using Cons by (metis list.distinct(1) rev_exhaust)
  ultimately show ?thesis using assms trim_end_snoc_ascii [of b ys] by (simp add: trim_def)
qed (simp add: trim_def trim_end_def)

section \<open>Case\<close>

definition ascii_lower :: "char \<Rightarrow> char" where
  "ascii_lower c = (let v = byte_val c in if 0x41 \<le> v \<and> v \<le> 0x5A then char_of (v + 32) else c)"

definition to_ascii_lowercase :: "str \<Rightarrow> str" where
  "to_ascii_lowercase s = map ascii_lower s"

lemma ascii_lower_idem [simp]: "ascii_lower (ascii_lower c) = ascii_lower c"
  by (simp add: ascii_lower_def Let_def)

section \<open>Decimal integers\<close>

definition digit_char :: "nat \<Rightarrow> char" where
  "digit_char d = char_of (48 + d)"

definition digit_val :: "char \<Rightarrow> nat option" where
  "digit_val c = (let v = byte_val c in if 48 \<le> v \<and> v \<le> 57 then Some (v - 48) else None)"

fun show_nat :: "nat \<Rightarrow> str" where
  "show_nat n = (if n < 10 then [digit_char n] else show_nat (n div 10) @ [digit_char (n mod 10)])"

declare show_nat.simps [simp del]

definition show_int :: "int \<Rightarrow> str" where
  "show_int i = (if i < 0 then CHR ''-'' # show_nat (nat (- i)) else show_nat (nat i))"

text \<open>
  \<open>u64::from_str\<close> and its siblings: a checked multiply and add per digit, so that a
  value above the type's maximum is an error as soon as it is passed.
\<close>

fun parse_digits :: "nat \<Rightarrow> nat \<Rightarrow> str \<Rightarrow> nat option" where
  "parse_digits mx acc [] = Some acc"
| "parse_digits mx acc (c # cs) =
     (case digit_val c of None \<Rightarrow> None
      | Some d \<Rightarrow> if acc * 10 + d \<le> mx then parse_digits mx (acc * 10 + d) cs else None)"

definition parse_uint :: "nat \<Rightarrow> str \<Rightarrow> nat option" where
  "parse_uint mx s =
     (case s of [] \<Rightarrow> None
      | c # cs \<Rightarrow> if c = CHR ''+'' then (if cs = [] then None else parse_digits mx 0 cs)
                 else parse_digits mx 0 s)"

definition parse_sint :: "nat \<Rightarrow> str \<Rightarrow> int option" where
  "parse_sint w s =
     (case s of [] \<Rightarrow> None
      | c # cs \<Rightarrow>
          if c = CHR ''-'' then
            (if cs = [] then None else map_option (\<lambda>n. - int n) (parse_digits (2 ^ (w - 1)) 0 cs))
          else map_option int (parse_uint (2 ^ (w - 1) - 1) s))"

definition U64_MAX :: nat where "U64_MAX = 2 ^ 64 - 1"

definition U32_MAX :: nat where "U32_MAX = 2 ^ 32 - 1"

lemma digit_val_digit_char [simp]: "d < 10 \<Longrightarrow> digit_val (digit_char d) = Some d"
  by (simp add: digit_val_def digit_char_def Let_def)

lemma is_ascii_digit_char [simp]: "d < 10 \<Longrightarrow> is_ascii (digit_char d)"
  by (simp add: is_ascii_def digit_char_def)

lemma byte_val_digit_char: "d < 10 \<Longrightarrow> byte_val (digit_char d) = 48 + d"
  by (simp add: digit_char_def)

lemma show_nat_not_Nil [simp]: "show_nat n \<noteq> []"
  by (subst show_nat.simps) simp

lemma show_nat_digits: "c \<in> set (show_nat n) \<Longrightarrow> \<exists>d < 10. c = digit_char d"
proof (induction n rule: show_nat.induct)
  case (1 n)
  then show ?case
    by (subst (asm) (2) show_nat.simps) (auto split: if_splits intro: exI [of _ "n mod 10"])
qed

lemma show_nat_bytes: "c \<in> set (show_nat n) \<Longrightarrow> 48 \<le> byte_val c \<and> byte_val c \<le> 57"
  using show_nat_digits [of c n] by (auto simp: byte_val_digit_char)

lemma show_nat_notin: "byte_val c < 48 \<or> 57 < byte_val c \<Longrightarrow> c \<notin> set (show_nat n)"
  using show_nat_bytes [of c n] by fastforce

lemma show_nat_ascii: "c \<in> set (show_nat n) \<Longrightarrow> is_ascii c"
  using show_nat_bytes [of c n] by (simp add: is_ascii_def)

lemma parse_digits_append:
  "parse_digits mx acc (xs @ ys) =
     (case parse_digits mx acc xs of None \<Rightarrow> None | Some a \<Rightarrow> parse_digits mx a ys)"
  by (induction xs arbitrary: acc) (auto split: option.splits)

lemma parse_digits_show_nat:
  "parse_digits mx 0 (show_nat n) = (if n \<le> mx then Some n else None)"
proof (induction n rule: show_nat.induct)
  case (1 n)
  show ?case
  proof (cases "n < 10")
    case True
    then show ?thesis by (subst show_nat.simps) simp
  next
    case False
    with 1 have IH: "parse_digits mx 0 (show_nat (n div 10)) = (if n div 10 \<le> mx then Some (n div 10) else None)"
      by simp
    have "parse_digits mx 0 (show_nat n) =
        parse_digits mx 0 (show_nat (n div 10) @ [digit_char (n mod 10)])"
      using False by (subst show_nat.simps) simp
    also have "\<dots> = (if n \<le> mx then Some n else None)"
      using IH by (auto simp: parse_digits_append)
    finally show ?thesis .
  qed
qed

lemma parse_uint_show_nat: "parse_uint mx (show_nat n) = (if n \<le> mx then Some n else None)"
proof -
  obtain c cs where c: "show_nat n = c # cs" by (cases "show_nat n") auto
  have "CHR ''+'' \<notin> set (show_nat n)" by (rule show_nat_notin) simp
  with c have "c \<noteq> CHR ''+''" by auto
  with c have "parse_uint mx (show_nat n) = parse_digits mx 0 (show_nat n)"
    by (simp add: parse_uint_def)
  then show ?thesis by (simp add: parse_digits_show_nat)
qed

lemma show_nat_inj: "show_nat m = show_nat n \<Longrightarrow> m = n"
  by (metis max.cobounded1 max.cobounded2 option.inject parse_uint_show_nat)

lemma parse_digits_le: "parse_digits mx acc s = Some n \<Longrightarrow> acc \<le> mx \<Longrightarrow> n \<le> mx"
  by (induction s arbitrary: acc) (auto split: option.splits if_splits)

lemma parse_uint_le: "parse_uint mx s = Some n \<Longrightarrow> n \<le> mx"
  by (auto simp: parse_uint_def simp del: parse_digits.simps
      split: list.splits if_splits dest: parse_digits_le)

lemma parse_sint_show_int:
  assumes "- (2 ^ (w - 1)) \<le> i" "i < 2 ^ (w - 1)"
  shows "parse_sint w (show_int i) = Some i"
proof (cases "i < 0")
  case True
  have "nat (- i) \<le> 2 ^ (w - 1)" using assms True by (simp add: nat_le_iff)
  then show ?thesis using True
    by (simp add: parse_sint_def show_int_def parse_digits_show_nat)
next
  case False
  obtain c cs where c: "show_nat (nat i) = c # cs" by (cases "show_nat (nat i)") auto
  have "CHR ''-'' \<notin> set (show_nat (nat i))" by (rule show_nat_notin) simp
  with c have "c \<noteq> CHR ''-''" by auto
  moreover have "nat i \<le> 2 ^ (w - 1) - 1"
    using assms False by (simp add: nat_less_iff le_diff_conv2 Suc_leI flip: of_nat_less_iff)
  ultimately show ?thesis using False c parse_uint_show_nat [of "2 ^ (w - 1) - 1" "nat i"]
    by (simp add: parse_sint_def show_int_def)
qed

end
