(* ===== verification/Codec.thy ===== *)
theory Codec
  imports Prelude
begin

text \<open>
  The contract of a wire format: a decoder that inverts the encoder on the values the
  encoder is meant for. An encoder that seals what it writes may fail
  (\<open>fallible_codec\<close>). Each component that owns a format interprets \<open>codec\<close> (or
  \<open>total_codec\<close>, when its decoder only returns such values), and draws from it that
  two different values never share an encoding, which is what makes a hash of the
  encoding a name of the value.
\<close>

locale fallible_codec =
  fixes enc :: "'a \<Rightarrow> 'f + 'b"
    and dec :: "'b \<Rightarrow> 'e + 'a"
    and ok :: "'a \<Rightarrow> bool"
  assumes dec_enc: "ok x \<Longrightarrow> \<exists>y. enc x = Inr y \<and> dec y = Inr x"
begin

lemma enc_eq_iff: "ok x \<Longrightarrow> ok y \<Longrightarrow> enc x = enc y \<longleftrightarrow> x = y"
  by (metis dec_enc sum.inject(2))

lemma enc_inj_on: "inj_on enc {x. ok x}"
  by (rule inj_onI) (metis enc_eq_iff mem_Collect_eq)

lemma dec_of_enc: "ok x \<Longrightarrow> enc x = Inr y \<Longrightarrow> dec y = Inr x"
  using dec_enc by fastforce

lemma enc_total: "ok x \<Longrightarrow> \<exists>y. enc x = Inr y"
  using dec_enc by blast

end

locale codec =
  fixes enc :: "'a \<Rightarrow> 'b"
    and dec :: "'b \<Rightarrow> 'e + 'a"
    and ok :: "'a \<Rightarrow> bool"
  assumes dec_enc: "ok x \<Longrightarrow> dec (enc x) = Inr x"
begin

lemma enc_eq_iff: "ok x \<Longrightarrow> ok y \<Longrightarrow> enc x = enc y \<longleftrightarrow> x = y"
  by (metis dec_enc sum.inject(2))

lemma dec_enc_iff: "ok x \<Longrightarrow> dec (enc x) = Inr y \<longleftrightarrow> y = x"
  by (auto simp: dec_enc)

lemma try_map_dec_enc: "\<forall>x \<in> set xs. ok x \<Longrightarrow> try_map dec (map enc xs) = Inr xs"
  using try_map_all_Inr [of xs dec enc id] by (simp add: dec_enc)

end

text \<open>An encoder that cannot fail is a special case.\<close>

sublocale codec \<subseteq> fallible: fallible_codec "\<lambda>x. Inr (enc x)" dec ok
  by unfold_locales (simp add: dec_enc)

locale total_codec = codec +
  assumes dec_ok: "dec y = Inr x \<Longrightarrow> ok x"
begin

text \<open>Re-encoding what was decoded is a normal form: it decodes to the same value.\<close>

lemma dec_reencode: "dec y = Inr x \<Longrightarrow> dec (enc x) = Inr x"
  by (simp add: dec_enc dec_ok)

lemma reencode_idem: "dec y = Inr x \<Longrightarrow> dec (enc x) = Inr x' \<Longrightarrow> enc x' = enc x"
  by (simp add: dec_reencode)

end

section \<open>Slices cut into pieces\<close>

text \<open>\<open>slice::chunks(n)\<close>; the sources call it with a positive \<open>n\<close> only.\<close>

function chunks_of :: "nat \<Rightarrow> 'a list \<Rightarrow> 'a list list" where
  "chunks_of n xs = (if xs = [] \<or> n = 0 then [] else take n xs # chunks_of n (drop n xs))"
  by auto
termination by (relation "measure (\<lambda>(n, xs). length xs)") auto

declare chunks_of.simps [simp del]

lemma chunks_of_Nil [simp]: "chunks_of n [] = []"
  by (simp add: chunks_of.simps)

lemma concat_chunks_of: "0 < n \<Longrightarrow> concat (chunks_of n xs) = xs"
proof (induction n xs rule: chunks_of.induct)
  case (1 n xs)
  then show ?case by (subst chunks_of.simps) simp
qed

lemma chunks_of_length:
  "0 < n \<Longrightarrow> c \<in> set (chunks_of n xs) \<Longrightarrow> c \<noteq> [] \<and> length c \<le> n"
proof (induction n xs rule: chunks_of.induct)
  case (1 n xs)
  then show ?case by (subst (asm) (2) chunks_of.simps) (auto split: if_splits)
qed

lemma chunks_of_two [simp]: "chunks_of 2 (a # b # xs) = [a, b] # chunks_of 2 xs"
  by (subst chunks_of.simps) (simp add: numeral_2_eq_2)

end
