(* ===== verification/Omp_Error.thy ===== *)
theory Omp_Error
  imports Prelude
begin

text \<open>
  \<open>crates/omp-core/src/error.rs\<close>: the error type every fallible operation returns, the
  stable error codes, and their wire names and HTTP statuses.

  An error value carries the literal text of its message. Values that the sources
  print with \<open>Debug\<close> or that come from another crate's error are left out of the text;
  nothing in the program reads a message back.
\<close>

datatype error_code =
    CNotFound | CSchemaValidationFailed | CIngestValidationFailed | CProbeFailed
  | CConflict | CInvalidPath | CUnauthorized | CQuotaExceeded | CEncryptionModeMismatch
  | CInternal

fun code_as_str :: "error_code \<Rightarrow> str" where
  "code_as_str CNotFound = ''not_found''"
| "code_as_str CSchemaValidationFailed = ''schema_validation_failed''"
| "code_as_str CIngestValidationFailed = ''ingest_validation_failed''"
| "code_as_str CProbeFailed = ''probe_failed''"
| "code_as_str CConflict = ''conflict''"
| "code_as_str CInvalidPath = ''invalid_path''"
| "code_as_str CUnauthorized = ''unauthorized''"
| "code_as_str CQuotaExceeded = ''quota_exceeded''"
| "code_as_str CEncryptionModeMismatch = ''encryption_mode_mismatch''"
| "code_as_str CInternal = ''internal''"

fun http_status :: "error_code \<Rightarrow> nat" where
  "http_status CNotFound = 404"
| "http_status CSchemaValidationFailed = 400"
| "http_status CIngestValidationFailed = 400"
| "http_status CProbeFailed = 400"
| "http_status CConflict = 409"
| "http_status CInvalidPath = 400"
| "http_status CUnauthorized = 401"
| "http_status CQuotaExceeded = 429"
| "http_status CEncryptionModeMismatch = 409"
| "http_status CInternal = 500"

datatype omp_error =
    NotFound str
  | SchemaValidation str
  | IngestValidation str
  | ProbeFailed str str
  | Conflict str
  | InvalidPath str
  | Unauthorized str
  | QuotaExceeded str
  | EncryptionModeMismatch str
  | Io str str
  | Corrupt str
  | Internal str

fun code :: "omp_error \<Rightarrow> error_code" where
  "code (NotFound _) = CNotFound"
| "code (SchemaValidation _) = CSchemaValidationFailed"
| "code (IngestValidation _) = CIngestValidationFailed"
| "code (ProbeFailed _ _) = CProbeFailed"
| "code (Conflict _) = CConflict"
| "code (InvalidPath _) = CInvalidPath"
| "code (Unauthorized _) = CUnauthorized"
| "code (QuotaExceeded _) = CQuotaExceeded"
| "code (EncryptionModeMismatch _) = CEncryptionModeMismatch"
| "code (Io _ _) = CInternal"
| "code (Corrupt _) = CInternal"
| "code (Internal _) = CInternal"

type_synonym 'a result = "omp_error + 'a"

text \<open>The codes are told apart by their wire names.\<close>

lemma code_as_str_inj: "code_as_str c = code_as_str d \<Longrightarrow> c = d"
  by (cases c; cases d) simp_all

text \<open>Only the server's own failures are 5xx; every other code is a client error.\<close>

lemma http_status_class: "500 \<le> http_status (code e) \<longleftrightarrow> code e = CInternal"
  by (cases e) simp_all

end
