(* ===== verification/Toml_Data.thy ===== *)
theory Toml_Data
  imports Prelude "HOL-Library.Word"
begin

text \<open>
  The values that pass between the program and the crate \<open>toml_edit\<close>: scalar and inline
  values, and the items of a table. A table is the list of its entries in the order the
  crate iterates over them. A float is the 64-bit pattern of an IEEE double.
\<close>

unbundle bit_operations_syntax

type_synonym f64 = "64 word"

definition is_finite :: "f64 \<Rightarrow> bool" where
  "is_finite x \<longleftrightarrow> drop_bit 52 x AND 0x7FF \<noteq> 0x7FF"

datatype tvalue =
    TString str
  | TInteger int
  | TFloat f64
  | TBoolean bool
  | TDatetime str
  | TArray "tvalue list"
  | TInlineTable "(str \<times> tvalue) list"

datatype titem =
    INone
  | IValue tvalue
  | ITable "(str \<times> titem) list"
  | IArrayOfTables "(str \<times> titem) list list"

type_synonym toml_table = "(str \<times> titem) list"

definition item_as_str :: "titem \<Rightarrow> str option" where
  "item_as_str i = (case i of IValue (TString s) \<Rightarrow> Some s | _ \<Rightarrow> None)"

end
