(* ===== verification/External.thy ===== *)
theory External
  imports Toml_Data
begin

text \<open>
  The crates the program calls and whose code is not part of it: SHA-256 (\<open>sha2\<close>),
  zlib (\<open>flate2\<close>), ChaCha20-Poly1305, HKDF-SHA-256, Argon2id, X25519 and the TOML
  parser and printer (\<open>toml_edit\<close>, \<open>toml\<close>), base 64, with the reading and
  printing of floats and the Unicode lower-case tables of the standard library. They are fields of one record that the definitions take as an argument. What the program
  relies on is stated as named predicates over the record, each a documented property
  of the primitive. That SHA-256 does not collide is never assumed of the function as
  a whole, which would be false: theorems that need it assume it of the finitely many
  objects that the store at hand has been given.
\<close>

record ext =
  sha256 :: "bytes \<Rightarrow> bytes"
  zlib_encode :: "bytes \<Rightarrow> str + bytes"
  zlib_decode :: "bytes \<Rightarrow> str + bytes"
  chacha_encrypt :: "bytes \<Rightarrow> bytes \<Rightarrow> bytes \<Rightarrow> bytes \<Rightarrow> str + bytes"
  chacha_decrypt :: "bytes \<Rightarrow> bytes \<Rightarrow> bytes \<Rightarrow> bytes \<Rightarrow> str + bytes"
  hkdf_expand :: "bytes \<Rightarrow> bytes \<Rightarrow> nat \<Rightarrow> str + bytes"
  argon2id :: "nat \<Rightarrow> nat \<Rightarrow> nat \<Rightarrow> nat \<Rightarrow> bytes \<Rightarrow> bytes \<Rightarrow> str + bytes"
  x25519_public :: "bytes \<Rightarrow> bytes"
  x25519_dh :: "bytes \<Rightarrow> bytes \<Rightarrow> bytes"
  toml_parse :: "str \<Rightarrow> str + toml_table"
  toml_show :: "toml_table \<Rightarrow> str"
  datetime_parse :: "str \<Rightarrow> str option"
  show_f64 :: "f64 \<Rightarrow> str"
  to_lowercase :: "str \<Rightarrow> str"
  parse_f64 :: "str \<Rightarrow> f64 option"
  b64_encode :: "bytes \<Rightarrow> str"
  b64_decode :: "str \<Rightarrow> str + bytes"

definition sha_ok :: "ext \<Rightarrow> bool" where
  "sha_ok E \<longleftrightarrow> (\<forall>b. length (sha256 E b) = 32)"

text \<open>Writing to memory, the encoder does not fail, and the decoder inverts it.\<close>

definition zlib_ok :: "ext \<Rightarrow> bool" where
  "zlib_ok E \<longleftrightarrow> (\<forall>b. \<exists>z. zlib_encode E b = Inr z \<and> zlib_decode E z = Inr b)"

text \<open>
  Key, nonce, associated data and message, in this order. A message up to the limit of
  the cipher's 32-bit block counter is encrypted, the ciphertext is longer by the
  16-byte tag, and decrypting it under the same key, nonce and associated data gives
  the message back.
\<close>

definition AEAD_MAX :: nat where "AEAD_MAX = 2 ^ 38 - 64"

definition aead_ok :: "ext \<Rightarrow> bool" where
  "aead_ok E \<longleftrightarrow> (\<forall>key nonce aad msg.
     length key = 32 \<longrightarrow> length nonce = 12 \<longrightarrow> length msg \<le> AEAD_MAX \<longrightarrow>
     (\<exists>ct. chacha_encrypt E key nonce aad msg = Inr ct \<and> length ct = length msg + 16 \<and>
           chacha_decrypt E key nonce aad ct = Inr msg))"

text \<open>Input key material, info and output length; up to 255 blocks of output are given.\<close>

definition hkdf_ok :: "ext \<Rightarrow> bool" where
  "hkdf_ok E \<longleftrightarrow> (\<forall>ikm info n. n \<le> 255 * 32 \<longrightarrow>
     (\<exists>out. hkdf_expand E ikm info n = Inr out \<and> length out = n))"

text \<open>Memory, time, parallelism, output length, passphrase and salt.\<close>

definition argon_ok :: "ext \<Rightarrow> bool" where
  "argon_ok E \<longleftrightarrow> (\<forall>m t p n pass salt. length salt \<ge> 8 \<longrightarrow>
     (\<forall>out. argon2id E m t p n pass salt = Inr out \<longrightarrow> length out = n))"

text \<open>The Diffie-Hellman law.\<close>

definition x25519_ok :: "ext \<Rightarrow> bool" where
  "x25519_ok E \<longleftrightarrow> (\<forall>a. length (x25519_public E a) = 32) \<and>
     (\<forall>a b. x25519_dh E a (x25519_public E b) = x25519_dh E b (x25519_public E a))"

text \<open>The URL-safe alphabet without padding.\<close>

definition b64_ok :: "ext \<Rightarrow> bool" where
  "b64_ok E \<longleftrightarrow> (\<forall>b. b64_decode E (b64_encode E b) = Inr b)"

text \<open>A concrete instance on which the laws hold, for the witnesses.\<close>

definition pad_to :: "nat \<Rightarrow> bytes \<Rightarrow> bytes" where
  "pad_to n b = take n b @ replicate (n - length b) NUL"

definition toy_ext :: ext where
  "toy_ext = \<lparr> sha256 = (\<lambda>b. pad_to 32 (rev b)),
               zlib_encode = (\<lambda>b. Inr (CHR ''z'' # b)),
               zlib_decode = (\<lambda>z. case z of c # b \<Rightarrow> (if c = CHR ''z'' then Inr b else Inl ''header'')
                                 | [] \<Rightarrow> Inl ''eof''),
               chacha_encrypt = (\<lambda>key nonce aad msg. Inr (rev msg @ pad_to 16 (key @ aad))),
               chacha_decrypt = (\<lambda>key nonce aad ct.
                 (let n = length ct - 16; msg = rev (take n ct) in
                  if drop n ct = pad_to 16 (key @ aad) then Inr msg else Inl ''tag'')),
               hkdf_expand = (\<lambda>ikm info n. Inr (pad_to n (rev info @ ikm))),
               argon2id = (\<lambda>m t p n pass salt. Inr (pad_to n (pass @ salt))),
               x25519_public = (\<lambda>a. pad_to 32 a),
               x25519_dh = (\<lambda>a p. if pad_to 32 a < p then pad_to 32 a @ p else p @ pad_to 32 a),
               toml_parse = (\<lambda>s. if s = [] then Inr [] else Inl ''unsupported''),
               toml_show = (\<lambda>t. []),
               datetime_parse = (\<lambda>s. None),
               show_f64 = (\<lambda>x. ''0.5''),
               to_lowercase = (\<lambda>s. s),
               parse_f64 = (\<lambda>s. None),
               b64_encode = (\<lambda>b. b),
               b64_decode = (\<lambda>s. Inr s) \<rparr>"

lemma length_pad_to [simp]: "length (pad_to n b) = n"
  by (auto simp: pad_to_def)

lemma pad_to_idem: "length a = n \<Longrightarrow> pad_to n a = a"
  by (simp add: pad_to_def)

lemma sha_okD: "sha_ok E \<Longrightarrow> length (sha256 E b) = 32"
  by (simp add: sha_ok_def)

lemma toy_sha_ok [simp]: "sha_ok toy_ext"
  by (simp add: sha_ok_def toy_ext_def)

lemma toy_zlib_ok [simp]: "zlib_ok toy_ext"
  by (simp add: zlib_ok_def toy_ext_def)

lemma toy_aead_ok [simp]: "aead_ok toy_ext"
  by (simp add: aead_ok_def toy_ext_def Let_def)

lemma toy_hkdf_ok [simp]: "hkdf_ok toy_ext"
  by (simp add: hkdf_ok_def toy_ext_def)

lemma toy_argon_ok [simp]: "argon_ok toy_ext"
  by (simp add: argon_ok_def toy_ext_def)

lemma toy_b64_ok [simp]: "b64_ok toy_ext"
  by (simp add: b64_ok_def toy_ext_def)

lemma toy_x25519_ok [simp]: "x25519_ok toy_ext"
  by (auto simp: x25519_ok_def toy_ext_def not_less)

end
