(* ===== verification/Omp_Hash.thy ===== *)
theory Omp_Hash
  imports Text Codec Omp_Error External
begin

text \<open>
  \<open>crates/omp-core/src/hash.rs\<close> and \<open>hex.rs\<close>: the 32-byte object name, its hexadecimal
  form and the general hexadecimal codec.
\<close>

unbundle bit_operations_syntax

datatype hash = Hash (hash_bytes: bytes)

text \<open>The Rust type holds \<open>[u8; 32]\<close>.\<close>

definition hash_wf :: "hash \<Rightarrow> bool" where
  "hash_wf h \<longleftrightarrow> length (hash_bytes h) = 32"

definition hash_of_bytes :: "ext \<Rightarrow> bytes \<Rightarrow> hash" where
  "hash_of_bytes E bs = Hash (sha256 E bs)"

definition hex_char :: "nat \<Rightarrow> char" where
  "hex_char d = (if d < 10 then char_of (48 + d) else char_of (87 + d))"

text \<open>The format \<open>{:02x}\<close> of a byte.\<close>

definition hex_byte :: "char \<Rightarrow> str" where
  "hex_byte b = [hex_char (byte_val b div 16), hex_char (byte_val b mod 16)]"

definition hex_encode :: "bytes \<Rightarrow> str" where
  "hex_encode bs = concat (map hex_byte bs)"

definition hash_hex :: "hash \<Rightarrow> str" where
  "hash_hex h = concat (map hex_byte (hash_bytes h))"

definition hash_short :: "hash \<Rightarrow> str" where
  "hash_short h = take 12 (hash_hex h)"

definition nibble :: "char \<Rightarrow> nat result" where
  "nibble c = (let v = byte_val c in
     if 0x30 \<le> v \<and> v \<le> 0x39 then Ok (v - 0x30)
     else if 0x61 \<le> v \<and> v \<le> 0x66 then Ok (v - 0x61 + 10)
     else if 0x41 \<le> v \<and> v \<le> 0x46 then Ok (v - 0x41 + 10)
     else Err (Corrupt ''invalid hex char''))"

definition hex_decode :: "str \<Rightarrow> bytes result" where
  "hex_decode s =
     (if length s mod 2 \<noteq> 0 then Err (Corrupt ''hex string has odd length'')
      else try_map (\<lambda>pair. bind_res (nibble (pair ! 0)) (\<lambda>hi.
             bind_res (nibble (pair ! 1)) (\<lambda>lo.
             Ok (char_of (push_bit 4 hi OR lo))))) (chunks_of 2 s))"

datatype hash_parse_error = WrongLength nat | InvalidChar char

definition hex_digit :: "char \<Rightarrow> hash_parse_error + nat" where
  "hex_digit c = (let v = byte_val c in
     if 0x30 \<le> v \<and> v \<le> 0x39 then Ok (v - 0x30)
     else if 0x61 \<le> v \<and> v \<le> 0x66 then Ok (v - 0x61 + 10)
     else if 0x41 \<le> v \<and> v \<le> 0x46 then Ok (v - 0x41 + 10)
     else Err (InvalidChar c))"

definition hash_from_str :: "str \<Rightarrow> hash_parse_error + hash" where
  "hash_from_str s =
     (if length s \<noteq> 64 then Err (WrongLength (length s))
      else bind_res (try_map (\<lambda>chunk. bind_res (hex_digit (chunk ! 0)) (\<lambda>hi.
             bind_res (hex_digit (chunk ! 1)) (\<lambda>lo.
             Ok (char_of (push_bit 4 hi OR lo))))) (chunks_of 2 s)) (\<lambda>out. Ok (Hash out)))"

definition sha256_hex :: "ext \<Rightarrow> bytes \<Rightarrow> str" where
  "sha256_hex E bs = hex_encode (sha256 E bs)"

section \<open>The digits\<close>

lemma or_nibbles: "hi < 16 \<Longrightarrow> lo < 16 \<Longrightarrow> push_bit 4 hi OR lo = hi * 16 + (lo::nat)"
proof -
  assume "lo < 16"
  then have "lo < 2 ^ 4" by simp
  then have "take_bit 4 lo = lo" by (simp only: take_bit_nat_eq_self_iff)
  then have "push_bit 4 hi + lo = push_bit 4 hi OR lo"
    by (intro disjunctive_add) (metis bit_push_bit_iff bit_take_bit_iff linorder_not_le)
  then show ?thesis by (simp add: push_bit_eq_mult)
qed

lemma byte_val_lt [simp]: "byte_val c < 256"
  using of_char_of [where 'a = nat, of "byte_val c"] mod_less_divisor [of 256 "byte_val c"]
  by simp

lemma byte_val_hex_char:
  "d < 16 \<Longrightarrow> byte_val (hex_char d) = (if d < 10 then 48 + d else 87 + d)"
  by (simp add: hex_char_def)

lemma nibble_hex_char [simp]: "d < 16 \<Longrightarrow> nibble (hex_char d) = Ok d"
  by (auto simp: nibble_def byte_val_hex_char Let_def)

lemma hex_digit_hex_char [simp]: "d < 16 \<Longrightarrow> hex_digit (hex_char d) = Ok d"
  by (auto simp: hex_digit_def byte_val_hex_char Let_def)

lemma byte_val_div_16 [simp]: "byte_val b div 16 < 16"
  using byte_val_lt [of b] by linarith

lemma hex_byte_join:
  "char_of (push_bit 4 (byte_val b div 16) OR (byte_val b mod 16)) = (b :: char)"
proof -
  have "byte_val b div 16 < 16" using byte_val_lt [of b] by linarith
  then have "push_bit 4 (byte_val b div 16) OR (byte_val b mod 16) = byte_val b"
    by (subst or_nibbles) simp_all
  then show ?thesis by simp
qed

lemma hex_chars_range:
  "c \<in> set (hex_encode bs) \<Longrightarrow>
     (0x30 \<le> byte_val c \<and> byte_val c \<le> 0x39) \<or> (0x61 \<le> byte_val c \<and> byte_val c \<le> 0x66)"
proof -
  assume "c \<in> set (hex_encode bs)"
  then obtain b where "c = hex_char (byte_val b div 16) \<or> c = hex_char (byte_val b mod 16)"
    by (auto simp: hex_encode_def hex_byte_def)
  moreover have "byte_val b div 16 < 16" "byte_val b mod 16 < 16" by simp_all
  ultimately obtain d where "d < 16" "c = hex_char d" by blast
  then show ?thesis by (simp add: byte_val_hex_char)
qed

lemma hash_hex_eq: "hash_hex h = hex_encode (hash_bytes h)"
  by (simp add: hash_hex_def hex_encode_def)

lemma length_hex_encode [simp]: "length (hex_encode bs) = 2 * length bs"
  by (induction bs) (simp_all add: hex_encode_def hex_byte_def)

lemma hex_encode_eq_Nil [simp]: "hex_encode bs = [] \<longleftrightarrow> bs = []"
  using length_hex_encode [of bs] by (metis length_0_conv mult_eq_0_iff zero_neq_numeral)

lemma length_hash_hex: "hash_wf h \<Longrightarrow> length (hash_hex h) = 64"
  by (simp add: hash_hex_eq hash_wf_def)

lemma hex_ascii: "c \<in> set (hex_encode bs) \<Longrightarrow> is_ascii c"
  using hex_chars_range [of c bs] by (auto simp: is_ascii_def)

lemma hex_notin: "byte_val c < 0x30 \<or> 0x66 < byte_val c \<or> (0x39 < byte_val c \<and> byte_val c < 0x61)
   \<Longrightarrow> c \<notin> set (hex_encode bs)"
  using hex_chars_range [of c bs] by fastforce

lemma hash_hex_notin: "byte_val c < 0x30 \<or> 0x66 < byte_val c \<Longrightarrow> c \<notin> set (hash_hex h)"
  using hex_notin [of c "hash_bytes h"] by (auto simp: hash_hex_eq)

lemma hash_hex_not_Nil: "hash_wf h \<Longrightarrow> hash_hex h \<noteq> []"
  using length_hash_hex [of h] by auto

section \<open>Round trips\<close>

lemma chunks_of_hex: "chunks_of 2 (hex_encode bs) = map hex_byte bs"
  by (induction bs) (simp_all add: hex_encode_def hex_byte_def)

lemma hex_decode_encode: "hex_decode (hex_encode bs) = Ok bs"
proof -
  have "try_map (\<lambda>pair. bind_res (nibble (pair ! 0)) (\<lambda>hi.
             bind_res (nibble (pair ! 1)) (\<lambda>lo.
             Ok (char_of (push_bit 4 hi OR lo))))) (map hex_byte bs) = Ok (map id bs)"
    by (rule try_map_all_Inr) (simp add: hex_byte_def hex_byte_join)
  then show ?thesis by (simp add: hex_decode_def chunks_of_hex)
qed

lemma hash_from_str_hex: "hash_wf h \<Longrightarrow> hash_from_str (hash_hex h) = Ok h"
proof -
  assume "hash_wf h"
  moreover have "try_map (\<lambda>pair. bind_res (hex_digit (pair ! 0)) (\<lambda>hi.
             bind_res (hex_digit (pair ! 1)) (\<lambda>lo.
             Ok (char_of (push_bit 4 hi OR lo))))) (map hex_byte (hash_bytes h))
      = (Ok (map id (hash_bytes h)) :: hash_parse_error + _)"
    by (rule try_map_all_Inr) (simp add: hex_byte_def hex_byte_join)
  ultimately show ?thesis
    by (simp add: hash_from_str_def length_hash_hex)
      (simp add: hash_hex_eq chunks_of_hex)
qed

lemma length_chunks_of_2: "length (chunks_of 2 xs) = (length xs + 1) div 2"
proof (induction "2::nat" xs rule: chunks_of.induct)
  case (1 xs)
  show ?case
  proof (cases xs)
    case (Cons a ys)
    then show ?thesis using 1 by (subst chunks_of.simps) (cases ys; simp)
  qed simp
qed

lemma hash_from_str_wf: "hash_from_str s = Ok h \<Longrightarrow> hash_wf h"
  by (auto simp: hash_from_str_def hash_wf_def res_simps try_map_eq_Inr length_chunks_of_2
      split: if_splits dest: list_all2_lengthD)

interpretation hex: codec hex_encode hex_decode "\<lambda>_. True"
  by unfold_locales (rule hex_decode_encode)

interpretation hash_text: total_codec hash_hex hash_from_str hash_wf
  by unfold_locales (simp_all add: hash_from_str_hex hash_from_str_wf)

lemma hash_of_bytes_wf [simp]: "sha_ok E \<Longrightarrow> hash_wf (hash_of_bytes E bs)"
  by (simp add: hash_wf_def hash_of_bytes_def sha_okD)

end
