(* ===== verification/Omp_Object.thy ===== *)
theory Omp_Object
  imports Omp_Hash
begin

text \<open>
  \<open>crates/omp-core/src/object.rs\<close>: the seven object types, the framing
  \<open>"<type> <size>\0<content>"\<close> whose SHA-256 names an object, and its compressed form.
  A framed object determines its type and its content (\<open>frame_codec\<close>), so an object
  name determines both as long as SHA-256 does not collide.
\<close>

datatype object_type = Blob | Tree | Manifest | Commit | Chunks | Share | Audit

fun type_as_str :: "object_type \<Rightarrow> str" where
  "type_as_str Blob = ''blob''"
| "type_as_str Tree = ''tree''"
| "type_as_str Manifest = ''manifest''"
| "type_as_str Commit = ''commit''"
| "type_as_str Chunks = ''chunks''"
| "type_as_str Share = ''share''"
| "type_as_str Audit = ''audit''"

definition type_parse :: "str \<Rightarrow> object_type result" where
  "type_parse s =
     (if s = ''blob'' then Ok Blob
      else if s = ''tree'' then Ok Tree
      else if s = ''manifest'' then Ok Manifest
      else if s = ''commit'' then Ok Commit
      else if s = ''chunks'' then Ok Chunks
      else if s = ''share'' then Ok Share
      else if s = ''audit'' then Ok Audit
      else Err (Corrupt (''unknown object type: '' @ s)))"

definition frame :: "object_type \<Rightarrow> bytes \<Rightarrow> bytes" where
  "frame t content = type_as_str t @ '' '' @ show_nat (length content) @ [NUL] @ content"

definition hash_of :: "ext \<Rightarrow> object_type \<Rightarrow> bytes \<Rightarrow> hash" where
  "hash_of E t content = hash_of_bytes E (frame t content)"

definition compress_framed :: "ext \<Rightarrow> bytes \<Rightarrow> bytes result" where
  "compress_framed E framed = map_err (\<lambda>e. Internal (''zlib encode: '' @ e)) (zlib_encode E framed)"

definition decompress :: "ext \<Rightarrow> bytes \<Rightarrow> bytes result" where
  "decompress E raw = map_err (\<lambda>e. Corrupt (''zlib decode: '' @ e)) (zlib_decode E raw)"

text \<open>\<open>usize\<close> is 64 bits wide.\<close>

definition parse_framed :: "bytes \<Rightarrow> (object_type \<times> bytes) result" where
  "parse_framed framed =
     bind_res (ok_or (Corrupt ''framed object missing NUL'') (split_once NUL framed))
       (\<lambda>(header, content).
     if \<not> utf8_valid header then Err (Corrupt ''framed object header is not UTF-8'')
     else bind_res (ok_or (Corrupt ''framed object header lacks space'') (split_once (CHR '' '') header))
       (\<lambda>(type_str, size_str).
     bind_res (ok_or (Corrupt ''framed object bad size'') (parse_uint U64_MAX size_str))
       (\<lambda>declared.
     bind_res (type_parse type_str) (\<lambda>t.
     if length content \<noteq> declared then Err (Corrupt ''framed object size mismatch'')
     else Ok (t, content)))))"

lemma type_parse_as_str [simp]: "type_parse (type_as_str t) = Ok t"
  by (cases t) (simp_all add: type_parse_def)

lemma type_parse_SomeD: "type_parse s = Ok t \<Longrightarrow> s = type_as_str t"
  by (auto simp: type_parse_def split: if_splits)

lemma type_str_letters: "c \<in> set (type_as_str t) \<Longrightarrow> 97 \<le> byte_val c \<and> byte_val c \<le> 122"
  by (cases t) auto

lemma type_str_notin: "byte_val c < 97 \<Longrightarrow> c \<notin> set (type_as_str t)"
  using type_str_letters [of c t] by auto

lemma type_str_ascii: "c \<in> set (type_as_str t) \<Longrightarrow> is_ascii c"
  using type_str_letters [of c t] by (simp add: is_ascii_def)

lemma type_as_str_inj: "type_as_str t = type_as_str u \<Longrightarrow> t = u"
  by (metis type_parse_as_str sum.inject(2))

lemma frame_header_valid: "utf8_valid (type_as_str t @ '' '' @ show_nat n)"
  by (rule utf8_valid_ascii) (auto simp: type_str_ascii show_nat_ascii)

lemma parse_framed_frame:
  assumes "length content \<le> U64_MAX"
  shows "parse_framed (frame t content) = Ok (t, content)"
proof -
  let ?h = "type_as_str t @ '' '' @ show_nat (length content)"
  have "NUL \<notin> set ?h" by (simp add: type_str_notin show_nat_notin)
  then have 1: "split_once NUL (frame t content) = Some (?h, content)"
    using split_once_append [of NUL ?h content] by (simp add: frame_def)
  have 2: "split_once (CHR '' '') ?h = Some (type_as_str t, show_nat (length content))"
    by (simp add: split_once_append type_str_notin)
  show ?thesis
    using assms by (simp add: parse_framed_def 1 2 frame_header_valid parse_uint_show_nat del: append_Cons)
qed

interpretation frame_codec: codec "\<lambda>(t, c). frame t c" parse_framed "\<lambda>(t, c). length c \<le> U64_MAX"
  by unfold_locales (auto simp: parse_framed_frame)

lemma frame_inj:
  "length c \<le> U64_MAX \<Longrightarrow> length d \<le> U64_MAX \<Longrightarrow> frame t c = frame u d \<longleftrightarrow> t = u \<and> c = d"
  using frame_codec.enc_eq_iff [of "(t, c)" "(u, d)"] by auto

text \<open>A decoded frame never shows more bytes than were declared: the size is checked.\<close>

lemma parse_framed_OkD:
  assumes "parse_framed f = Ok (t, c)"
  obtains size_str where
    "f = type_as_str t @ '' '' @ size_str @ [NUL] @ c" "parse_uint U64_MAX size_str = Some (length c)"
proof -
  from assms obtain h ts ss where
    "split_once NUL f = Some (h, c)" "split_once (CHR '' '') h = Some (ts, ss)"
    "parse_uint U64_MAX ss = Some (length c)" "type_parse ts = Ok t"
    by (auto simp: parse_framed_def res_simps split: if_splits)
  then have "f = h @ NUL # c" "h = ts @ CHR '' '' # ss" "ts = type_as_str t"
    by (auto dest!: split_once_SomeD type_parse_SomeD)
  with \<open>parse_uint U64_MAX ss = Some (length c)\<close> show thesis by (intro that [of ss]) simp_all
qed

lemma decompress_compress:
  "zlib_ok E \<Longrightarrow> \<exists>z. compress_framed E f = Ok z \<and> decompress E z = Ok f"
  by (auto simp: compress_framed_def decompress_def zlib_ok_def dest: spec [of _ f])

section \<open>Properties\<close>

text \<open>
  An object name stands for one object: two objects whose framings SHA-256 tells
  apart have the same name only if they have the same type and the same content.
\<close>

lemma hash_of_injective:
  assumes "inj_on (sha256 E) {frame t c, frame u d}" "length c \<le> U64_MAX" "length d \<le> U64_MAX"
    and "hash_of E t c = hash_of E u d"
  shows "t = u \<and> c = d"
proof -
  have "sha256 E (frame t c) = sha256 E (frame u d)"
    using assms(4) by (simp add: hash_of_def hash_of_bytes_def)
  then have "frame t c = frame u d" using assms(1) by (auto dest: inj_onD)
  then show ?thesis using frame_inj assms(2,3) by blast
qed

text \<open>
  The frame parser accepts nothing but a type name, a space, the decimal length of
  what follows the NUL, the NUL and that many bytes: no trailing bytes, no short
  content, no unknown type.
\<close>

lemma parse_framed_sound:
  assumes "parse_framed f = Ok (t, c)"
  shows "\<exists>size_str. f = type_as_str t @ '' '' @ size_str @ [NUL] @ c \<and>
                    parse_uint U64_MAX size_str = Some (length c)"
  by (rule parse_framed_OkD [OF assms]) blast

end
