(* ===== verification/Omp_Chunks.thy ===== *)
theory Omp_Chunks
  imports Omp_Object "HOL-Library.Word"
begin

text \<open>
  \<open>crates/omp-core/src/chunks.rs\<close>: the body of a \<open>chunks\<close> object, an ordered list of
  chunk names and lengths. Lengths are \<open>u64\<close> values, kept as 64-bit words.
\<close>

record chunk_entry =
  chunk_hash :: hash
  chunk_length :: "64 word"

type_synonym chunks_body = "chunk_entry list"

definition chunk_line :: "chunk_entry \<Rightarrow> str" where
  "chunk_line e = hash_hex (chunk_hash e) @ '' '' @ show_nat (unat (chunk_length e)) @ [LF]"

definition chunks_serialize :: "chunks_body \<Rightarrow> bytes" where
  "chunks_serialize es = concat (map chunk_line es)"

definition parse_chunk_line :: "str \<Rightarrow> chunk_entry result" where
  "parse_chunk_line line =
     bind_res (ok_or (Corrupt ''chunks body line missing space separator'') (split_once (CHR '' '') line))
       (\<lambda>(hash_part, len_part).
     bind_res (map_err (\<lambda>_. Corrupt ''chunks body line'') (hash_from_str hash_part)) (\<lambda>h.
     bind_res (ok_or (Corrupt ''chunks body line: bad length'') (parse_uint U64_MAX len_part)) (\<lambda>n.
     Ok \<lparr>chunk_hash = h, chunk_length = of_nat n\<rparr>)))"

definition chunks_parse :: "bytes \<Rightarrow> chunks_body result" where
  "chunks_parse bs =
     (if \<not> utf8_valid bs then Err (Corrupt ''chunks body is not UTF-8'')
      else try_fold (\<lambda>entries line. if line = [] then Ok entries
                       else bind_res (parse_chunk_line line) (\<lambda>e. Ok (entries @ [e])))
             [] (split_on LF bs))"

text \<open>\<open>iter().sum()\<close> over \<open>u64\<close>: the release build wraps.\<close>

definition total_length :: "chunks_body \<Rightarrow> 64 word" where
  "total_length es = sum_list (map chunk_length es)"

definition chunks_wf :: "chunks_body \<Rightarrow> bool" where
  "chunks_wf es \<longleftrightarrow> (\<forall>e \<in> set es. hash_wf (chunk_hash e))"

lemma chunk_line_text:
  obtains l where "chunk_line e = l @ [LF]" "LF \<notin> set l" "l \<noteq> []" "utf8_valid l"
    "l = hash_hex (chunk_hash e) @ '' '' @ show_nat (unat (chunk_length e))"
proof -
  let ?l = "hash_hex (chunk_hash e) @ '' '' @ show_nat (unat (chunk_length e))"
  have "utf8_valid ?l"
    by (rule utf8_valid_ascii) (auto simp: hash_hex_eq hex_ascii show_nat_ascii)
  moreover have "LF \<notin> set ?l" by (simp add: hash_hex_notin show_nat_notin)
  ultimately show thesis by (intro that [of ?l]) (simp_all add: chunk_line_def)
qed

lemma parse_chunk_line_text:
  assumes "hash_wf (chunk_hash e)"
  shows "parse_chunk_line (hash_hex (chunk_hash e) @ '' '' @ show_nat (unat (chunk_length e))) = Ok e"
proof -
  have "unat (chunk_length e) \<le> U64_MAX"
    using unsigned_less [of "chunk_length e", where 'a = nat] by (simp add: U64_MAX_def)
  then show ?thesis
    using assms by (simp add: parse_chunk_line_def split_once_append hash_hex_notin
        hash_from_str_hex parse_uint_show_nat)
qed

lemma chunk_line_valid [simp]: "utf8_valid (chunk_line e)"
  by (rule chunk_line_text [of e]) (metis utf8_valid_append utf8_valid_Cons_ascii utf8_valid_Nil is_ascii_literals(1))

lemma chunks_serialize_valid: "utf8_valid (chunks_serialize es)"
  by (simp add: chunks_serialize_def utf8_valid_concat)

lemma chunks_parse_serialize_aux:
  "chunks_wf es \<Longrightarrow>
   try_fold (\<lambda>entries line. if line = [] then Ok entries
               else bind_res (parse_chunk_line line) (\<lambda>e. Ok (entries @ [e])))
     acc (split_on LF (chunks_serialize es)) = Ok (acc @ es)"
proof (induction es arbitrary: acc)
  case (Cons e es)
  obtain l where l: "chunk_line e = l @ [LF]" "LF \<notin> set l" "l \<noteq> []"
    "l = hash_hex (chunk_hash e) @ '' '' @ show_nat (unat (chunk_length e))"
    by (rule chunk_line_text)
  have "parse_chunk_line l = Ok e"
    using Cons.prems parse_chunk_line_text [of e] by (simp add: l(4) chunks_wf_def)
  then show ?case
    using Cons l(1,2,3) by (simp add: chunks_serialize_def chunks_wf_def split_on_append)
qed (simp add: chunks_serialize_def)

lemma chunks_parse_serialize: "chunks_wf es \<Longrightarrow> chunks_parse (chunks_serialize es) = Ok es"
  using chunks_parse_serialize_aux [of es "[]"]
  by (simp add: chunks_parse_def chunks_serialize_valid)

lemma parse_chunk_line_wf: "parse_chunk_line l = Ok e \<Longrightarrow> hash_wf (chunk_hash e)"
  by (auto simp: parse_chunk_line_def res_simps dest: hash_from_str_wf)

lemma chunks_parse_wf:
  assumes "chunks_parse bs = Ok es"
  shows "chunks_wf es"
proof (rule try_fold_invariant [where P = chunks_wf])
  show "try_fold (\<lambda>entries line. if line = [] then Ok entries
           else bind_res (parse_chunk_line line) (\<lambda>e. Ok (entries @ [e]))) [] (split_on LF bs) = Ok es"
    using assms by (simp add: chunks_parse_def split: if_splits)
qed (auto simp: chunks_wf_def res_simps split: if_splits dest: parse_chunk_line_wf)

interpretation chunks_codec: total_codec chunks_serialize chunks_parse chunks_wf
  by unfold_locales (simp_all add: chunks_parse_serialize chunks_parse_wf)

text \<open>While the true sum fits in 64 bits, the wrapping sum is the true sum.\<close>

lemma total_length_unat:
  "sum_list (map (\<lambda>e. unat (chunk_length e)) es) < 2 ^ 64 \<Longrightarrow>
   unat (total_length es) = sum_list (map (\<lambda>e. unat (chunk_length e)) es)"
proof (induction es)
  case (Cons e es)
  then have IH: "unat (total_length es) = sum_list (map (\<lambda>e. unat (chunk_length e)) es)" by simp
  have "total_length (e # es) = chunk_length e + total_length es" by (simp add: total_length_def)
  moreover have "unat (chunk_length e) + unat (total_length es) < 2 ^ LENGTH(64)"
    using Cons.prems IH by simp
  then have "unat (chunk_length e + total_length es) = unat (chunk_length e) + unat (total_length es)"
    by (simp only: unat_add_lem)
  ultimately show ?case using IH by simp
qed (simp add: total_length_def)

section \<open>Properties\<close>

text \<open>
  The list of chunks is read back as written, in order, with the lengths as
  64-bit values.
\<close>

lemma chunks_round_trip:
  assumes "chunks_wf es"
  shows "chunks_parse (chunks_serialize es) = Ok es"
  using assms by (rule chunks_codec.dec_enc)

text \<open>
  The parser is laxer than its comment says: blank lines anywhere, a plus sign and
  leading zeros are accepted, so different bodies decode to the same list.
\<close>

lemma chunks_parse_lax:
  "chunks_parse ([LF, LF] @ hash_hex (Hash (replicate 32 NUL)) @ '' +007'' @ [LF, LF]) =
     chunks_parse (hash_hex (Hash (replicate 32 NUL)) @ '' 7'' @ [LF])"
proof -
  let ?h = "Hash (replicate 32 NUL)"
  have wf: "hash_wf ?h" by (simp add: hash_wf_def)
  have LF: "LF \<notin> set (hash_hex ?h @ x)" if "LF \<notin> set x" for x
    using that by (simp add: hash_hex_notin)
  have valid: "utf8_valid (hash_hex ?h @ x)" if "\<forall>c \<in> set x. is_ascii c" for x
    by (rule utf8_valid_ascii) (use that in \<open>auto simp: hash_hex_eq hex_ascii\<close>)
  have sp: "CHR '' '' \<notin> set (hash_hex ?h)" by (simp add: hash_hex_notin)
  have "split_on LF ([LF, LF] @ hash_hex ?h @ '' +007'' @ [LF, LF]) = [[], [], hash_hex ?h @ '' +007'', [], []]"
    using split_on_append [OF LF [of "'' +007''"], of "[LF]"] by simp
  moreover have "split_on LF (hash_hex ?h @ '' 7'' @ [LF]) = [hash_hex ?h @ '' 7'', []]"
    using split_on_append [OF LF [of "'' 7''"], of "[]"] by simp
  moreover have "parse_uint U64_MAX ''+007'' = Some 7" "parse_uint U64_MAX ''7'' = Some 7"
    by (simp_all add: parse_uint_def digit_val_def U64_MAX_def)
  moreover have "utf8_valid ([LF, LF] @ hash_hex ?h @ '' +007'' @ [LF, LF])" "utf8_valid (hash_hex ?h @ '' 7'' @ [LF])"
    using valid [of "'' +007'' @ [LF, LF]"] valid [of "'' 7'' @ [LF]"] by (simp_all add: is_ascii_def)
  ultimately show ?thesis
    using wf sp by (simp add: chunks_parse_def parse_chunk_line_def split_once_append hash_from_str_hex)
qed

end
