(* ===== verification/Omp_Store.thy ===== *)
theory Omp_Store
  imports Omp_Object "HOL-Library.Sublist"
begin

text \<open>
  \<open>crates/omp-core/src/store/mod.rs\<close> and \<open>store/disk.rs\<close>: the object store on disk.

  The state is the content of \<open>.omp/\<close>: its files and its directories, by the components
  of their paths. Objects, references and \<open>HEAD\<close> are files of the same tree, as on disk,
  so that a file in the place of a directory is an error here as it is there. Failures
  of the device, limits of the operating system and the temporary files of an atomic
  write, which are gone when the operation ends, are not modelled. The field \<open>puts\<close> has
  no counterpart in the program: it lists the framed objects ever stored, newest first,
  and states what the store promises.

  The interface that the rest of the program relies on is the locale \<open>object_store\<close>;
  the disk store interprets it at the end of this theory.
\<close>

section \<open>Operations that read and change the disk\<close>

record disk =
  files :: "str list \<Rightarrow> bytes option"
  dirs :: "str list set"
  puts :: "bytes list"

type_synonym 'a op = "disk \<Rightarrow> 'a result \<times> disk"

definition ret :: "'a \<Rightarrow> 'a op" where
  "ret x s = (Ok x, s)"

definition raise :: "omp_error \<Rightarrow> 'a op" where
  "raise e s = (Err e, s)"

definition lift_res :: "'a result \<Rightarrow> 'a op" where
  "lift_res r s = (r, s)"

definition bind_op :: "'a op \<Rightarrow> ('a \<Rightarrow> 'b op) \<Rightarrow> 'b op" where
  "bind_op m f s = (case m s of (Inl e, s') \<Rightarrow> (Err e, s') | (Inr x, s') \<Rightarrow> f x s')"

text \<open>An operation that only reads.\<close>

definition reads :: "(disk \<Rightarrow> 'a result) \<Rightarrow> 'a op" where
  "reads r s = (r s, s)"

lemma op_simps [simp]:
  "ret x s = (Ok x, s)" "raise e s = (Err e, s)" "lift_res r s = (r, s)" "reads q s = (q s, s)"
  by (simp_all add: ret_def raise_def lift_res_def reads_def)

lemma bind_op_Ok [simp]: "m s = (Ok x, s') \<Longrightarrow> bind_op m f s = f x s'"
  by (simp add: bind_op_def)

lemma bind_op_Err [simp]: "m s = (Err e, s') \<Longrightarrow> bind_op m f s = (Err e, s')"
  by (simp add: bind_op_def)

lemma bind_op_eq_Ok:
  "bind_op m f s = (Ok y, s'') \<longleftrightarrow> (\<exists>x s'. m s = (Ok x, s') \<and> f x s' = (Ok y, s''))"
  by (auto simp: bind_op_def split: prod.splits sum.splits)

section \<open>The file system\<close>

definition path_exists :: "disk \<Rightarrow> str list \<Rightarrow> bool" where
  "path_exists s p \<longleftrightarrow> files s p \<noteq> None \<or> p \<in> dirs s"

text \<open>\<open>fs::create_dir_all\<close>.\<close>

definition create_dir :: "str list \<Rightarrow> unit op" where
  "create_dir p s =
     (if list_ex (\<lambda>q. files s q \<noteq> None) (prefixes p) then (Err (Io ''create_dir'' ''not a directory''), s)
      else (Ok (), s\<lparr>dirs := dirs s \<union> set (prefixes p)\<rparr>))"

text \<open>Write a temporary file beside the target, then rename it over the target.\<close>

definition write_atomic :: "str list \<Rightarrow> bytes \<Rightarrow> unit op" where
  "write_atomic p bs s =
     (if butlast p \<notin> dirs s then (Err (Io ''write_atomic'' ''no such directory''), s)
      else if p \<in> dirs s then (Err (Io ''write_atomic'' ''is a directory''), s)
      else (Ok (), s\<lparr>files := (files s)(p \<mapsto> bs)\<rparr>))"

text \<open>
  Opening a file: a directory at its place, or a file among its parents, is an error
  other than \<open>NotFound\<close>; \<open>None\<close> stands for \<open>ErrorKind::NotFound\<close>.
\<close>

definition read_file :: "disk \<Rightarrow> str list \<Rightarrow> bytes option result" where
  "read_file s p =
     (if p \<in> dirs s then Err (Io ''read'' ''is a directory'')
      else if list_ex (\<lambda>q. files s q \<noteq> None) (prefixes (butlast p)) then Err (Io ''read'' ''not a directory'')
      else Ok (files s p))"

section \<open>The disk store\<close>

definition disk_open :: "disk \<Rightarrow> unit result" where
  "disk_open s = (if [] \<in> dirs s then Ok () else Err (NotFound ''.omp/ not found''))"

definition disk_init :: "unit op" where
  "disk_init =
     bind_op (create_dir []) (\<lambda>_.
     bind_op (create_dir [''objects'']) (\<lambda>_.
     bind_op (create_dir [''refs'']) (\<lambda>_.
     bind_op (create_dir [''refs'', ''heads'']) (\<lambda>_ s.
     if \<not> path_exists s [''HEAD''] then write_atomic [''HEAD''] (''ref: refs/heads/main'' @ [LF]) s
     else (Ok (), s)))))"

definition object_path :: "hash \<Rightarrow> str list" where
  "object_path h = [''objects'', take 2 (hash_hex h), drop 2 (hash_hex h)]"

text \<open>
  The components of a path, without the empty ones and \<open>.\<close>, and \<open>Path::join\<close>: an absolute
  path takes the place of the directory it is joined to. Places are absolute.
\<close>

definition path_parts :: "str \<Rightarrow> str list" where
  "path_parts name = filter (\<lambda>p. p \<noteq> [] \<and> p \<noteq> ''.'') (split_on (CHR ''/'') name)"

definition path_join :: "str list \<Rightarrow> str \<Rightarrow> str list" where
  "path_join base name = (if starts_with ''/'' name then path_parts name else base @ path_parts name)"

definition ref_place :: "str list \<Rightarrow> str \<Rightarrow> str list result" where
  "ref_place root name =
     (if contains_str ''..'' name \<or> starts_with ''/'' name \<or> name = []
      then Err (InvalidPath ''ref name'')
      else Ok (path_join root name))"

text \<open>The disk holds what lies below the root of the store, so its own root is the empty path.\<close>

definition ref_path :: "str \<Rightarrow> str list result" where
  "ref_path name = ref_place [] name"

text \<open>Ghost step: remember a framed object that the store has taken.\<close>

definition note_put :: "bytes \<Rightarrow> unit op" where
  "note_put framed s = (Ok (), s\<lparr>puts := framed # puts s\<rparr>)"

definition disk_put :: "ext \<Rightarrow> str \<Rightarrow> bytes \<Rightarrow> hash op" where
  "disk_put E ty content =
     bind_op (lift_res (type_parse ty)) (\<lambda>t.
     let framed = frame t content;
         h = hash_of_bytes E framed;
         path = object_path h in
     (\<lambda>s. if path_exists s path then bind_op (note_put framed) (\<lambda>_. ret h) s
          else bind_op (create_dir (butlast path)) (\<lambda>_.
               bind_op (lift_res (compress_framed E framed)) (\<lambda>compressed.
               bind_op (write_atomic path compressed) (\<lambda>_.
               bind_op (note_put framed) (\<lambda>_. ret h)))) s))"

text \<open>
  \<open>put_stream\<close>: the reader yields the pieces \<open>reads\<close>; the header and each piece go to
  the hasher and to the encoder as they come. SHA-256 and the encoder are fed
  incrementally, which is the same as feeding them the concatenation.
\<close>

definition disk_put_stream :: "ext \<Rightarrow> str \<Rightarrow> bytes list \<Rightarrow> nat \<Rightarrow> hash op" where
  "disk_put_stream E ty pieces known_size =
     bind_op (lift_res (type_parse ty)) (\<lambda>t.
     let header = type_as_str t @ '' '' @ show_nat known_size @ [NUL] in
     bind_op (create_dir [''objects'', ''tmp'']) (\<lambda>_.
     let (hashed, total) = foldl (\<lambda>(acc, n) piece. (acc @ piece, n + length piece)) (header, 0) pieces in
     if total \<noteq> known_size then raise (Internal ''put_stream: declared size != actual'')
     else bind_op (lift_res (map_err (\<lambda>e. Io ''put_stream'' e) (zlib_encode E hashed))) (\<lambda>compressed.
     let h = Hash (sha256 E hashed);
         path = object_path h in
     (\<lambda>s. if path_exists s path then bind_op (note_put hashed) (\<lambda>_. ret h) s
          else bind_op (create_dir (butlast path)) (\<lambda>_.
               bind_op (write_atomic path compressed) (\<lambda>_.
               bind_op (note_put hashed) (\<lambda>_. ret h))) s))))"

definition disk_get :: "ext \<Rightarrow> disk \<Rightarrow> hash \<Rightarrow> (str \<times> bytes) option result" where
  "disk_get E s h =
     (let path = object_path h in
      if \<not> path_exists s path then Ok None
      else bind_res (read_file s path) (\<lambda>r.
           bind_res (ok_or (Io ''read'' ''not found'') r) (\<lambda>raw.
           bind_res (decompress E raw) (\<lambda>framed.
           bind_res (parse_framed framed) (\<lambda>(t, content).
           Ok (Some (type_as_str t, content)))))))"

definition disk_has :: "disk \<Rightarrow> hash \<Rightarrow> bool result" where
  "disk_has s h = Ok (path_exists s (object_path h))"

text \<open>\<open>fs::read_to_string\<close> fails on text that is not UTF-8.\<close>

definition read_to_string :: "disk \<Rightarrow> str list \<Rightarrow> str option result" where
  "read_to_string s p =
     bind_res (read_file s p) (\<lambda>r. case r of None \<Rightarrow> Ok None
       | Some bs \<Rightarrow> if utf8_valid bs then Ok (Some bs) else Err (Io ''read'' ''stream did not contain valid UTF-8''))"

definition read_ref :: "disk \<Rightarrow> str \<Rightarrow> hash option result" where
  "read_ref s name =
     bind_res (ref_path name) (\<lambda>path.
     bind_res (read_to_string s path) (\<lambda>r. case r of
       None \<Rightarrow> Ok None
     | Some txt \<Rightarrow> bind_res (map_err (\<lambda>_. Corrupt (''ref '' @ name)) (hash_from_str (trim txt)))
                    (\<lambda>h. Ok (Some h))))"

definition write_ref :: "str \<Rightarrow> hash \<Rightarrow> unit op" where
  "write_ref name commit =
     bind_op (lift_res (ref_path name)) (\<lambda>path.
     bind_op (create_dir (butlast path)) (\<lambda>_.
     write_atomic path (hash_hex commit @ [LF])))"

definition delete_ref :: "str \<Rightarrow> unit op" where
  "delete_ref name =
     bind_op (lift_res (ref_path name)) (\<lambda>path.
     bind_op (reads (\<lambda>s. read_file s path)) (\<lambda>_ s.
     (Ok (), s\<lparr>files := (files s)(path := None)\<rparr>)))"

definition read_head :: "disk \<Rightarrow> str result" where
  "read_head s =
     bind_res (read_to_string s [''HEAD'']) (\<lambda>r.
     bind_res (ok_or (Io ''HEAD'' ''not found'') r) (\<lambda>txt. Ok (trim txt)))"

definition write_head :: "str \<Rightarrow> unit op" where
  "write_head value = write_atomic [''HEAD''] (if ends_with [LF] value then value else value @ [LF])"

definition empty_disk :: disk where
  "empty_disk = \<lparr>files = (\<lambda>_. None), dirs = {}, puts = []\<rparr>"

section \<open>Invariants\<close>

text \<open>Directories are closed under parents, and no path is both a file and a directory.\<close>

definition fs_ok :: "disk \<Rightarrow> bool" where
  "fs_ok s \<longleftrightarrow>
     (\<forall>p \<in> dirs s. files s p = None) \<and>
     (\<forall>p q. p \<in> dirs s \<longrightarrow> prefix q p \<longrightarrow> q \<in> dirs s) \<and>
     files s [] = None \<and> (\<forall>p. files s p \<noteq> None \<longrightarrow> butlast p \<in> dirs s)"

text \<open>
  The files below \<open>objects/\<close> are exactly the objects ever stored, each under its name
  and in its compressed form.
\<close>

definition objects_ok :: "ext \<Rightarrow> disk \<Rightarrow> bool" where
  "objects_ok E s \<longleftrightarrow>
     (\<forall>p z. files s p = Some z \<longrightarrow> take 1 p = [''objects''] \<longrightarrow>
        (\<exists>f \<in> set (puts s). p = object_path (hash_of_bytes E f) \<and> zlib_decode E z = Inr f)) \<and>
     (\<forall>f \<in> set (puts s). files s (object_path (hash_of_bytes E f)) \<noteq> None \<and>
        (\<exists>t c. f = frame t c)) \<and>
     (\<forall>p \<in> dirs s. take 1 p = [''objects''] \<longrightarrow> length p \<le> 2)"

definition disk_ok :: "ext \<Rightarrow> disk \<Rightarrow> bool" where
  "disk_ok E s \<longleftrightarrow> fs_ok s \<and> objects_ok E s \<and>
     [] \<in> dirs s \<and> [''objects''] \<in> dirs s \<and> [''refs''] \<in> dirs s \<and> [''refs'', ''heads''] \<in> dirs s"

text \<open>
  No two of the objects stored so far have the same SHA-256, and each is a byte vector
  of the machine, whose length is a \<open>usize\<close>. The theorems assume it of the last state
  they mention; it then holds of the earlier ones.
\<close>

definition collision_free :: "ext \<Rightarrow> disk \<Rightarrow> bool" where
  "collision_free E s \<longleftrightarrow>
     inj_on (sha256 E) (set (puts s)) \<and> (\<forall>f \<in> set (puts s). length f \<le> U64_MAX)"

text \<open>A later state of the same store.\<close>

definition extends :: "disk \<Rightarrow> disk \<Rightarrow> bool" where
  "extends s s' \<longleftrightarrow> suffix (puts s) (puts s')"

lemma extends_refl [simp]: "extends s s"
  by (simp add: extends_def)

lemma extends_trans: "extends s t \<Longrightarrow> extends t u \<Longrightarrow> extends s u"
  unfolding extends_def by (rule suffix_order.trans)

lemma extends_puts: "extends s s' \<Longrightarrow> set (puts s) \<subseteq> set (puts s')"
  by (auto simp: extends_def suffix_def)

lemma collision_free_mono: "extends s s' \<Longrightarrow> collision_free E s' \<Longrightarrow> collision_free E s"
  using extends_puts [of s s'] by (auto simp: collision_free_def elim: inj_on_subset)

section \<open>The file system keeps its shape\<close>

lemma create_dir_fs_ok: "fs_ok s \<Longrightarrow> create_dir p s = (r, s') \<Longrightarrow> fs_ok s'"
  by (auto simp: create_dir_def fs_ok_def list_ex_iff split: if_splits)

lemma write_atomic_fs_ok: "fs_ok s \<Longrightarrow> p \<noteq> [] \<Longrightarrow> write_atomic p bs s = (r, s') \<Longrightarrow> fs_ok s'"
  by (auto simp: write_atomic_def fs_ok_def split: if_splits)

lemma prefixes_dirs: "fs_ok s \<Longrightarrow> p \<in> dirs s \<Longrightarrow> q \<in> set (prefixes p) \<Longrightarrow> files s q = None"
  by (auto simp: fs_ok_def)

section \<open>Object files\<close>

lemma object_path_inj:
  assumes "hash_wf h" "hash_wf k" "object_path h = object_path k"
  shows "h = k"
proof -
  have "hash_hex h = hash_hex k"
    using assms(3) by (metis append_take_drop_id list.inject object_path_def)
  then show ?thesis using assms(1,2) hash_text.enc_eq_iff by blast
qed

lemma object_path_shape [simp]:
  "length (object_path h) = 3" "take 1 (object_path h) = [''objects'']" "object_path h \<noteq> []"
  by (simp_all add: object_path_def)

lemma object_path_not_dir: "objects_ok E s \<Longrightarrow> object_path h \<notin> dirs s"
proof
  assume "objects_ok E s" "object_path h \<in> dirs s"
  then have "length (object_path h) \<le> 2" unfolding objects_ok_def by (meson object_path_shape(2))
  then show False by simp
qed

lemma object_parent_free:
  assumes "disk_ok E s"
  shows "list_ex (\<lambda>q. files s q \<noteq> None) (prefixes (butlast (object_path h))) = False"
proof -
  let ?d = "[''objects'', take 2 (hash_hex h)]"
  have "files s [] = None" "files s [''objects''] = None"
    using assms by (auto simp: disk_ok_def fs_ok_def)
  moreover have "files s ?d = None"
  proof (rule ccontr)
    assume "files s ?d \<noteq> None"
    then obtain f where "?d = object_path (hash_of_bytes E f)"
      using assms by (fastforce simp: disk_ok_def objects_ok_def)
    then show False by (simp add: object_path_def)
  qed
  ultimately show ?thesis by (simp add: object_path_def)
qed

lemma path_exists_object:
  "disk_ok E s \<Longrightarrow> path_exists s (object_path h) \<longleftrightarrow> files s (object_path h) \<noteq> None"
  using object_path_not_dir [of E s h] by (auto simp: path_exists_def disk_ok_def)

lemma hash_of_bytes_eq_iff:
  "hash_of_bytes E f = hash_of_bytes E g \<longleftrightarrow> sha256 E f = sha256 E g"
  by (simp add: hash_of_bytes_def)

text \<open>What the store holds under a name is what was stored under it.\<close>

lemma object_file:
  assumes "disk_ok E s" "sha_ok E" "collision_free E s" "f \<in> set (puts s)"
  obtains z where "files s (object_path (hash_of_bytes E f)) = Some z" "zlib_decode E z = Inr f"
proof -
  let ?p = "object_path (hash_of_bytes E f)"
  obtain z where z: "files s ?p = Some z" using assms by (auto simp: disk_ok_def objects_ok_def)
  then obtain g where g: "g \<in> set (puts s)" "?p = object_path (hash_of_bytes E g)" "zlib_decode E z = Inr g"
    using assms(1) unfolding disk_ok_def objects_ok_def by (metis object_path_shape(2))
  have "sha256 E f = sha256 E g"
    using object_path_inj [OF _ _ g(2)] assms(2) by (simp add: hash_of_bytes_eq_iff)
  then have "g = f" using assms(3,4) g(1) by (auto simp: collision_free_def dest: inj_onD)
  with z g(3) show thesis by (intro that [of z]) simp_all
qed

lemma stored_length: "collision_free E s \<Longrightarrow> frame t c \<in> set (puts s) \<Longrightarrow> length c \<le> U64_MAX"
  by (fastforce simp: collision_free_def frame_def)

lemma disk_get_stored:
  assumes "disk_ok E s" "sha_ok E" "collision_free E s" "frame t c \<in> set (puts s)"
  shows "disk_get E s (hash_of E t c) = Ok (Some (type_as_str t, c))"
proof -
  obtain z where z: "files s (object_path (hash_of E t c)) = Some z" "zlib_decode E z = Inr (frame t c)"
    using object_file [OF assms(1-4)] unfolding hash_of_def by metis
  have "object_path (hash_of E t c) \<notin> dirs s"
    using assms(1) object_path_not_dir by (auto simp: disk_ok_def)
  then show ?thesis
    using z stored_length [OF assms(3,4)] object_parent_free [OF assms(1), of "hash_of E t c"]
    by (simp add: disk_get_def path_exists_def read_file_def decompress_def parse_framed_frame)
qed

lemma disk_get_absent:
  assumes "disk_ok E s" "sha_ok E" "hash_wf h" "\<forall>f \<in> set (puts s). hash_of_bytes E f \<noteq> h"
  shows "disk_get E s h = Ok None"
proof -
  have "files s (object_path h) = None"
  proof (rule ccontr)
    assume "files s (object_path h) \<noteq> None"
    then obtain f where f: "f \<in> set (puts s)" "object_path h = object_path (hash_of_bytes E f)"
      using assms(1) unfolding disk_ok_def objects_ok_def by (metis object_path_shape(2) not_None_eq)
    then have "h = hash_of_bytes E f"
      using object_path_inj [of h "hash_of_bytes E f"] assms(2,3) by simp
    with f(1) assms(4) show False by blast
  qed
  then show ?thesis using assms(1) by (simp add: disk_get_def path_exists_object Let_def)
qed

text \<open>The abstract store: a map from names to objects.\<close>

definition abs_objects :: "ext \<Rightarrow> disk \<Rightarrow> hash \<Rightarrow> (str \<times> bytes) option" where
  "abs_objects E s h =
     (case find (\<lambda>f. hash_of_bytes E f = h) (puts s) of None \<Rightarrow> None
      | Some f \<Rightarrow> (case parse_framed f of Inl _ \<Rightarrow> None | Inr (t, c) \<Rightarrow> Some (type_as_str t, c)))"

lemma puts_frames: "disk_ok E s \<Longrightarrow> f \<in> set (puts s) \<Longrightarrow> \<exists>t c. f = frame t c"
  by (auto simp: disk_ok_def objects_ok_def)

lemma disk_get_abs:
  assumes "disk_ok E s" "sha_ok E" "collision_free E s" "hash_wf h"
  shows "disk_get E s h = Ok (abs_objects E s h)"
proof (cases "find (\<lambda>f. hash_of_bytes E f = h) (puts s)")
  case None
  then have "\<forall>f \<in> set (puts s). hash_of_bytes E f \<noteq> h" by (simp add: find_None_iff)
  then show ?thesis using disk_get_absent [OF assms(1,2,4)] None by (simp add: abs_objects_def)
next
  case (Some f)
  then have f: "f \<in> set (puts s)" "hash_of_bytes E f = h" by (auto simp: find_Some_iff)
  then obtain t c where "f = frame t c" using puts_frames [OF assms(1)] by blast
  then show ?thesis using disk_get_stored [OF assms(1-3), of t c] stored_length [OF assms(3)] f Some
    by (simp add: abs_objects_def parse_framed_frame hash_of_def)
qed

section \<open>Storing an object\<close>

lemma disk_put_new:
  assumes "disk_ok E s" "zlib_ok E" "files s (object_path (hash_of E t c)) = None"
  obtains z where
    "disk_put E (type_as_str t) c s =
       (Ok (hash_of E t c), s\<lparr>dirs := dirs s \<union> set (prefixes (butlast (object_path (hash_of E t c)))),
          files := (files s)(object_path (hash_of E t c) \<mapsto> z), puts := frame t c # puts s\<rparr>)"
    "zlib_decode E z = Inr (frame t c)"
proof -
  let ?p = "object_path (hash_of E t c)"
  obtain z where z: "zlib_encode E (frame t c) = Inr z" "zlib_decode E z = Inr (frame t c)"
    using assms(2) by (auto simp: zlib_ok_def)
  have cd: "create_dir (butlast ?p) s = (Ok (), s\<lparr>dirs := dirs s \<union> set (prefixes (butlast ?p))\<rparr>)"
    using object_parent_free [OF assms(1)] by (simp add: create_dir_def)
  have nd: "?p \<notin> dirs s" using assms(1) object_path_not_dir by (auto simp: disk_ok_def)
  have "?p \<notin> set (prefixes (butlast ?p))" by (simp add: object_path_def)
  moreover have "butlast ?p \<in> set (prefixes (butlast ?p))" by simp
  ultimately have "write_atomic ?p z (s\<lparr>dirs := dirs s \<union> set (prefixes (butlast ?p))\<rparr>) =
      (Ok (), s\<lparr>dirs := dirs s \<union> set (prefixes (butlast ?p)), files := (files s)(?p \<mapsto> z)\<rparr>)"
    using nd by (simp add: write_atomic_def)
  moreover have "\<not> path_exists s ?p" using assms(1,3) by (simp add: path_exists_object)
  ultimately show thesis
    using z cd that [of z]
    by (simp add: disk_put_def bind_op_def Let_def hash_of_def [symmetric] compress_framed_def note_put_def)
qed

lemma disk_put_files:
  assumes "disk_ok E s" "zlib_encode E (frame t c) = Inr z" "files s (object_path (hash_of E t c)) = None"
  shows "files (snd (disk_put E (type_as_str t) c s)) = (files s)(object_path (hash_of E t c) \<mapsto> z)"
proof -
  let ?p = "object_path (hash_of E t c)"
  have "?p \<notin> dirs s" using assms(1) object_path_not_dir by (auto simp: disk_ok_def)
  moreover have "?p \<notin> set (prefixes (butlast ?p))" "butlast ?p \<in> set (prefixes (butlast ?p))"
    by (simp_all add: object_path_def)
  ultimately show ?thesis
    using assms object_parent_free [OF assms(1), of "hash_of E t c"] path_exists_object [OF assms(1), of "hash_of E t c"]
    by (simp add: disk_put_def bind_op_def Let_def hash_of_def [symmetric] compress_framed_def note_put_def
        create_dir_def write_atomic_def)
qed

lemma disk_put_dup:
  assumes "disk_ok E s" "files s (object_path (hash_of E t c)) \<noteq> None"
  shows "disk_put E (type_as_str t) c s = (Ok (hash_of E t c), s\<lparr>puts := frame t c # puts s\<rparr>)"
  using assms by (simp add: disk_put_def bind_op_def Let_def hash_of_def [symmetric] path_exists_object note_put_def)

lemma put_new_fs_ok:
  assumes "fs_ok s" "list_ex (\<lambda>q. files s q \<noteq> None) (prefixes (butlast p)) = False"
    and "p \<noteq> []" "p \<notin> dirs s" "p \<notin> set (prefixes (butlast p))"
  shows "fs_ok (s\<lparr>dirs := dirs s \<union> set (prefixes (butlast p)), files := (files s)(p \<mapsto> z), puts := ps\<rparr>)"
  using assms by (auto simp: fs_ok_def list_ex_iff)

lemma disk_put_ok:
  assumes "disk_ok E s" "sha_ok E" "zlib_ok E"
  shows "\<exists>s'. disk_put E (type_as_str t) c s = (Ok (hash_of E t c), s') \<and> disk_ok E s' \<and>
              puts s' = frame t c # puts s"
proof (cases "files s (object_path (hash_of E t c)) = None")
  case True
  let ?p = "object_path (hash_of E t c)"
  obtain z where z: "disk_put E (type_as_str t) c s =
       (Ok (hash_of E t c), s\<lparr>dirs := dirs s \<union> set (prefixes (butlast ?p)),
          files := (files s)(?p \<mapsto> z), puts := frame t c # puts s\<rparr>)"
    "zlib_decode E z = Inr (frame t c)" by (rule disk_put_new [OF assms(1,3) True])
  let ?s = "s\<lparr>dirs := dirs s \<union> set (prefixes (butlast ?p)), files := (files s)(?p \<mapsto> z), puts := frame t c # puts s\<rparr>"
  have "fs_ok ?s"
    using assms(1) object_parent_free [OF assms(1)] object_path_not_dir [of E s "hash_of E t c"]
    by (intro put_new_fs_ok) (auto simp: disk_ok_def object_path_def)
  moreover have "objects_ok E ?s"
    using assms(1) z(2)
    by (auto simp: disk_ok_def objects_ok_def hash_of_def [symmetric])
      (auto simp: object_path_def dest: prefix_length_le)
  ultimately show ?thesis using z(1) assms(1) by (auto simp: disk_ok_def)
next
  case False
  have "disk_ok E (s\<lparr>puts := frame t c # puts s\<rparr>)"
    using assms(1) False by (auto simp: disk_ok_def fs_ok_def objects_ok_def hash_of_def)
  then show ?thesis using disk_put_dup [OF assms(1) False] by simp
qed

lemma disk_put_bad_type: "type_parse ty = Err e \<Longrightarrow> disk_put E ty c s = (Err e, s)"
  by (simp add: disk_put_def)


section \<open>Streaming\<close>

lemma stream_fold:
  "foldl (\<lambda>(acc, n) piece. (acc @ piece, n + length piece)) (a, k) ps =
     (a @ concat ps, k + length (concat ps))"
  by (induction ps arbitrary: a k) simp_all

lemma frame_header: "type_as_str t @ '' '' @ show_nat (length c) @ [NUL] @ c = frame t c"
  by (simp add: frame_def)

lemma tmp_dir_ok:
  assumes "disk_ok E s"
  shows "\<exists>s'. create_dir [''objects'', ''tmp''] s = (Ok (), s') \<and> disk_ok E s' \<and>
              files s' = files s \<and> puts s' = puts s"
proof -
  have "files s [''objects'', ''tmp''] = None"
  proof (rule ccontr)
    assume "files s [''objects'', ''tmp''] \<noteq> None"
    then obtain f where "[''objects'', ''tmp''] = object_path (hash_of_bytes E f)"
      using assms by (fastforce simp: disk_ok_def objects_ok_def)
    then show False by (simp add: object_path_def)
  qed
  then have cd: "create_dir [''objects'', ''tmp''] s =
      (Ok (), s\<lparr>dirs := dirs s \<union> set (prefixes [''objects'', ''tmp''])\<rparr>)" (is "_ = (_, ?s)")
    using assms by (simp add: create_dir_def disk_ok_def fs_ok_def)
  moreover have "fs_ok ?s" using create_dir_fs_ok [OF _ cd] assms by (simp add: disk_ok_def)
  moreover have "objects_ok E ?s"
    using assms by (auto simp: disk_ok_def objects_ok_def)
  ultimately show ?thesis using assms by (auto simp: disk_ok_def)
qed

text \<open>
  Streaming an object in pieces leaves the store as \<open>put\<close> of the whole would, but for
  the directory of the temporary file.
\<close>

lemma disk_put_stream_eq:
  assumes "disk_ok E s" "zlib_ok E" "known_size = length (concat pieces)"
    and "create_dir [''objects'', ''tmp''] s = (Ok (), s')" "disk_ok E s'"
  shows "disk_put_stream E (type_as_str t) pieces known_size s = disk_put E (type_as_str t) (concat pieces) s'"
proof -
  let ?c = "concat pieces"
  obtain z where z: "zlib_encode E (frame t ?c) = Inr z" using assms(2) by (auto simp: zlib_ok_def)
  have "disk_put_stream E (type_as_str t) pieces known_size s =
    (if path_exists s' (object_path (hash_of E t ?c)) then bind_op (note_put (frame t ?c)) (\<lambda>_. ret (hash_of E t ?c)) s'
     else bind_op (create_dir (butlast (object_path (hash_of E t ?c)))) (\<lambda>_.
          bind_op (write_atomic (object_path (hash_of E t ?c)) z) (\<lambda>_.
          bind_op (note_put (frame t ?c)) (\<lambda>_. ret (hash_of E t ?c)))) s')"
    using assms(3,4) z
    by (simp add: disk_put_stream_def Let_def stream_fold frame_header [of t ?c, simplified]
        bind_op_def hash_of_def hash_of_bytes_def)
  also have "\<dots> = disk_put E (type_as_str t) ?c s'"
    using z by (simp add: disk_put_def Let_def bind_op_def compress_framed_def hash_of_def split: prod.splits sum.splits)
  finally show ?thesis .
qed

lemma disk_put_stream_ok:
  assumes "disk_ok E s" "sha_ok E" "zlib_ok E"
  shows "\<exists>s'. disk_put_stream E (type_as_str t) pieces (length (concat pieces)) s =
                (Ok (hash_of E t (concat pieces)), s') \<and>
              disk_ok E s' \<and> puts s' = frame t (concat pieces) # puts s"
proof -
  obtain s1 where s1: "create_dir [''objects'', ''tmp''] s = (Ok (), s1)" "disk_ok E s1" "puts s1 = puts s"
    using tmp_dir_ok [OF assms(1)] by blast
  show ?thesis
    using disk_put_ok [OF s1(2) assms(2,3), of t "concat pieces"]
      disk_put_stream_eq [OF assms(1,3) refl s1(1,2), of t] s1(3) by simp
qed

section \<open>References\<close>

lemma disk_ok_objects_change:
  assumes "disk_ok E s" "fs_ok s'" "puts s' = puts s" "dirs s \<subseteq> dirs s'"
    and "\<And>p. take 1 p = [''objects''] \<Longrightarrow> files s' p = files s p"
    and "\<And>p. take 1 p = [''objects''] \<Longrightarrow> p \<in> dirs s' \<Longrightarrow> p \<in> dirs s"
  shows "disk_ok E s'"
proof -
  have obj: "files s' (object_path h) = files s (object_path h)" for h
    using assms(5) object_path_shape(2) by blast
  have "objects_ok E s" using assms(1) by (simp add: disk_ok_def)
  then have "objects_ok E s'"
    unfolding objects_ok_def assms(3) obj using assms(5,6) by (intro conjI allI impI ballI) simp_all
  then show ?thesis using assms(1,2,4) by (auto simp: disk_ok_def)
qed

lemma prefix_take_1: "prefix q p \<Longrightarrow> take 1 q = [x] \<Longrightarrow> take 1 p = [x]"
  by (cases q; cases p) auto

lemma write_ref_ok:
  assumes "disk_ok E s" "ref_path name = Ok p" "p \<noteq> []" "take 1 p \<noteq> [''objects'']"
    and "write_ref name h s = (Ok (), s')"
  shows "disk_ok E s'" "files s' = (files s)(p \<mapsto> hash_hex h @ [LF])"
    "dirs s' = dirs s \<union> set (prefixes (butlast p))" "puts s' = puts s" "p \<notin> dirs s'"
proof -
  obtain s1 where s1: "create_dir (butlast p) s = (Ok (), s1)" "write_atomic p (hash_hex h @ [LF]) s1 = (Ok (), s')"
    using assms(2,5) by (auto simp: write_ref_def bind_op_eq_Ok)
  have fs: "fs_ok s'"
    using assms(1,3) s1 create_dir_fs_ok write_atomic_fs_ok by (metis disk_ok_def)
  show eqs: "files s' = (files s)(p \<mapsto> hash_hex h @ [LF])"
    "dirs s' = dirs s \<union> set (prefixes (butlast p))" "puts s' = puts s" "p \<notin> dirs s'"
    using s1 by (auto simp: create_dir_def write_atomic_def split: if_splits)
  have nobj: "take 1 q \<noteq> [''objects'']" if "prefix q (butlast p)" for q
    using that prefix_take_1 [of q p "''objects''"] assms(4) prefix_order.trans prefixeq_butlast by blast
  show "disk_ok E s'"
    using assms(4) nobj by (intro disk_ok_objects_change [OF assms(1) fs]) (auto simp: eqs)
qed

lemma trim_hash_line: "hash_wf h \<Longrightarrow> trim (hash_hex h @ [LF]) = hash_hex h"
proof -
  assume "hash_wf h"
  then obtain a xs where axs: "hash_hex h = a # xs" using hash_hex_not_Nil by (cases "hash_hex h") auto
  have ok: "is_ascii c \<and> \<not> ws1 c" if "c \<in> set (hash_hex h)" for c
    using that hex_chars_range [of c "hash_bytes h"] by (auto simp: hash_hex_eq is_ascii_def ws1_def)
  have "trim_start (hash_hex h @ [LF]) = hash_hex h @ [LF]"
    using ok [of a] axs trim_start_Cons_ascii [of a "xs @ [LF]"] by simp
  moreover have "trim_end (hash_hex h @ [LF]) = trim_end (hash_hex h)"
    by (simp add: trim_end_def ws1_def)
  moreover have "trim_start (hash_hex h) = hash_hex h"
    using ok [of a] axs trim_start_Cons_ascii [of a xs] by simp
  ultimately show ?thesis using trim_ascii_id [of "hash_hex h"] ok by (simp add: trim_def)
qed

lemma fs_ok_parents_not_files:
  assumes "fs_ok s" "butlast p \<in> dirs s"
  shows "list_ex (\<lambda>q. files s q \<noteq> None) (prefixes (butlast p)) = False"
  using assms by (auto simp: list_ex_iff fs_ok_def)

lemma hash_line_valid: "utf8_valid (hash_hex h @ [LF])"
  by (rule utf8_valid_ascii) (auto simp: hash_hex_eq hex_ascii)

lemma read_ref_written:
  assumes "fs_ok s" "ref_path name = Ok p" "hash_wf h" "p \<notin> dirs s" "butlast p \<in> dirs s"
    and "files s p = Some (hash_hex h @ [LF])"
  shows "read_ref s name = Ok (Some h)"
  using assms fs_ok_parents_not_files [OF assms(1,5)]
  by (simp add: read_ref_def read_to_string_def read_file_def hash_line_valid trim_hash_line hash_from_str_hex)

text \<open>Reading a reference depends only on the files and directories along its path.\<close>

lemma read_ref_wf: "read_ref s name = Ok (Some h) \<Longrightarrow> hash_wf h"
  by (auto simp: read_ref_def res_simps split: option.splits dest: hash_from_str_wf)

lemma read_ref_cong:
  assumes "ref_path name = Ok p" "files s' p = files s p" "p \<in> dirs s' \<longleftrightarrow> p \<in> dirs s"
    and "\<And>q. prefix q (butlast p) \<Longrightarrow> files s' q = files s q"
  shows "read_ref s' name = read_ref s name"
proof -
  have "list_ex (\<lambda>q. files s' q \<noteq> None) (prefixes (butlast p)) = list_ex (\<lambda>q. files s q \<noteq> None) (prefixes (butlast p))"
    using assms(4) by (simp add: list_ex_iff)
  then show ?thesis using assms by (simp add: read_ref_def read_to_string_def read_file_def)
qed

lemma read_ref_other:
  assumes "disk_ok E s" "ref_path name = Ok p" "p \<noteq> []" "take 1 p \<noteq> [''objects'']"
    and "write_ref name h s = (Ok (), s')"
    and "ref_path m = Ok q" "\<not> prefix p q" "\<not> prefix q p"
  shows "read_ref s' m = read_ref s m"
proof (rule read_ref_cong [OF assms(6)])
  note w = write_ref_ok [OF assms(1-5)]
  show "files s' q = files s q" using w(2) assms(7) by auto
  show "q \<in> dirs s' \<longleftrightarrow> q \<in> dirs s"
    using w(3) assms(8) prefix_order.trans [OF _ prefixeq_butlast [of p]] by auto
  fix r assume "prefix r (butlast q)"
  then have "prefix r q" using prefix_order.trans prefixeq_butlast by blast
  then show "files s' r = files s r" using w(2) assms(7) by auto
qed

text \<open>The full name of a branch.\<close>

definition branch_ref :: "str \<Rightarrow> str" where
  "branch_ref b = ''refs/heads/'' @ b"

text \<open>A branch name without a slash is one file of \<open>refs/heads/\<close>.\<close>

definition branch_name :: "str \<Rightarrow> bool" where
  "branch_name b \<longleftrightarrow> b \<noteq> [] \<and> CHR ''/'' \<notin> set b \<and> \<not> contains_str ''..'' b \<and> b \<noteq> ''.''"

lemma ref_path_branch:
  assumes "branch_name b"
  shows "ref_path (branch_ref b) = Ok [''refs'', ''heads'', b]"
proof -
  have "\<not> contains_str ''..'' (''refs/heads/'' @ b)"
    using assms by (cases b) (auto simp: branch_name_def starts_with_def)
  moreover have "split_on (CHR ''/'') (''refs/heads/'' @ b) = [''refs'', ''heads'', b]"
    using assms by (simp add: branch_name_def split_on_notin)
  ultimately show ?thesis using assms by (simp add: ref_path_def ref_place_def path_join_def path_parts_def branch_ref_def branch_name_def starts_with_def)
qed

lemma write_branch_total:
  assumes "disk_ok E s" "branch_name b" "[''refs'', ''heads'', b] \<notin> dirs s"
  shows "\<exists>s'. write_ref (branch_ref b) h s = (Ok (), s')"
proof -
  have "files s [] = None" "files s [''refs''] = None" "files s [''refs'', ''heads''] = None"
    using assms(1) by (auto simp: disk_ok_def fs_ok_def)
  then show ?thesis
    using assms by (simp add: write_ref_def ref_path_branch bind_op_def create_dir_def write_atomic_def)
qed

lemma branch_written_read:
  assumes "disk_ok E s" "branch_name b" "hash_wf h" "write_ref (branch_ref b) h s = (Ok (), s')"
  shows "read_ref s' (branch_ref b) = Ok (Some h)"
proof -
  let ?p = "[''refs'', ''heads'', b]"
  have p: "ref_path (branch_ref b) = Ok ?p" using assms(2) by (rule ref_path_branch)
  have p': "?p \<noteq> []" "take 1 ?p \<noteq> [''objects'']" by simp_all
  note w = write_ref_ok [OF assms(1) p p' assms(4)]
  show ?thesis
  proof (rule read_ref_written [OF _ p assms(3) w(5)])
    show "fs_ok s'" "butlast ?p \<in> dirs s'" using w(1) by (simp_all add: disk_ok_def)
    show "files s' ?p = Some (hash_hex h @ [LF])" by (simp add: w(2))
  qed
qed

section \<open>The interface\<close>

text \<open>
  What the layers above rely on: storing succeeds and answers a name, the name answers
  the object, and a later state of the store still answers what an earlier one did.
\<close>

locale object_store =
  fixes put :: "'t \<Rightarrow> 'c \<Rightarrow> 's \<Rightarrow> ('e + 'h) \<times> 's"
    and get :: "'s \<Rightarrow> 'h \<Rightarrow> 'e + ('t \<times> 'c) option"
    and inv :: "'s \<Rightarrow> bool"
    and storable :: "'t \<Rightarrow> 'c \<Rightarrow> bool"
    and unambiguous :: "'s \<Rightarrow> bool"
    and later :: "'s \<Rightarrow> 's \<Rightarrow> bool"
  assumes put_total: "inv s \<Longrightarrow> storable t c \<Longrightarrow> \<exists>h s'. put t c s = (Inr h, s') \<and> inv s' \<and> later s s'"
    and get_put: "inv s \<Longrightarrow> storable t c \<Longrightarrow> put t c s = (Inr h, s') \<Longrightarrow> unambiguous s' \<Longrightarrow> get s' h = Inr (Some (t, c))"
    and get_later: "inv s \<Longrightarrow> inv s' \<Longrightarrow> later s s' \<Longrightarrow> unambiguous s' \<Longrightarrow> get s h = Inr (Some x) \<Longrightarrow> get s' h = Inr (Some x)"
    and later_refl: "later s s"
    and later_trans: "later s s' \<Longrightarrow> later s' s'' \<Longrightarrow> later s s''"
    and unambiguous_earlier: "later s s' \<Longrightarrow> unambiguous s' \<Longrightarrow> unambiguous s"
begin

text \<open>Different objects never answer to one name.\<close>

lemma put_names_differ:
  assumes "inv s" "storable t c" "storable t' c'" "put t c s = (Inr h, s1)" "inv s1"
    and "put t' c' s1 = (Inr h, s2)" "inv s2" "later s1 s2" "unambiguous s2"
  shows "(t, c) = (t', c')"
proof -
  have "get s1 h = Inr (Some (t, c))"
    using assms get_put unambiguous_earlier by blast
  then have "get s2 h = Inr (Some (t, c))" using assms get_later by blast
  moreover have "get s2 h = Inr (Some (t', c'))" using assms get_put by blast
  ultimately show ?thesis by simp
qed

fun put_all :: "('t \<times> 'c) list \<Rightarrow> 's \<Rightarrow> ('e + 'h list) \<times> 's" where
  "put_all [] s = (Inr [], s)"
| "put_all ((t, c) # tcs) s =
     (case put t c s of (Inl e, s') \<Rightarrow> (Inl e, s')
      | (Inr h, s') \<Rightarrow> (case put_all tcs s' of (Inl e, s'') \<Rightarrow> (Inl e, s'') | (Inr hs, s'') \<Rightarrow> (Inr (h # hs), s'')))"

text \<open>A batch of objects: every one of them can be read back when all are stored.\<close>

lemma put_all_total:
  "inv s \<Longrightarrow> \<forall>(t, c) \<in> set tcs. storable t c \<Longrightarrow>
   \<exists>hs s'. put_all tcs s = (Inr hs, s') \<and> inv s' \<and> later s s' \<and>
     (unambiguous s' \<longrightarrow> list_all2 (\<lambda>h tc. get s' h = Inr (Some tc)) hs tcs)"
proof (induction tcs arbitrary: s)
  case Nil
  then show ?case by (simp add: later_refl)
next
  case (Cons tc tcs)
  obtain t c where tc: "tc = (t, c)" by force
  obtain h s1 where s1: "put t c s = (Inr h, s1)" "inv s1" "later s s1"
    using put_total Cons.prems tc by fastforce
  obtain hs s2 where s2: "put_all tcs s1 = (Inr hs, s2)" "inv s2" "later s1 s2"
    "unambiguous s2 \<longrightarrow> list_all2 (\<lambda>h tc. get s2 h = Inr (Some tc)) hs tcs"
    using Cons.IH [OF s1(2)] Cons.prems(2) by auto
  have "get s2 h = Inr (Some (t, c))" if "unambiguous s2"
    using that get_later [OF s1(2) s2(2,3)] get_put [OF Cons.prems(1) _ s1(1)] unambiguous_earlier [OF s2(3)]
      Cons.prems(2) tc by auto
  then show ?case using s1 s2 tc later_trans by auto
qed

end

definition disk_storable :: "str \<Rightarrow> bytes \<Rightarrow> bool" where
  "disk_storable ty c \<longleftrightarrow> (\<exists>t. ty = type_as_str t)"

definition store_env :: "ext \<Rightarrow> bool" where
  "store_env E \<longleftrightarrow> sha_ok E \<and> zlib_ok E"

lemma store_envD: "store_env E \<Longrightarrow> sha_ok E" "store_env E \<Longrightarrow> zlib_ok E"
  by (simp_all add: store_env_def)

lemma extends_put: "puts s' = f # puts s \<Longrightarrow> extends s s'"
  by (simp add: extends_def suffix_def)

text \<open>Whatever happens, nothing that was stored is forgotten.\<close>

lemma bind_op_extends:
  assumes "bind_op m f s = (r, s'')" "\<And>r s'. m s = (r, s') \<Longrightarrow> extends s s'"
    and "\<And>x s' r s''. m s = (Ok x, s') \<Longrightarrow> f x s' = (r, s'') \<Longrightarrow> extends s' s''"
  shows "extends s s''"
proof (cases "m s")
  case (Pair a s')
  then show ?thesis
    using assms extends_trans by (cases a) (auto simp: bind_op_def)
qed

lemma extends_puts_eq: "puts s' = puts s \<Longrightarrow> extends s s'"
  by (simp add: extends_def)

lemma disk_put_extends: "disk_put E ty c s = (r, s') \<Longrightarrow> extends s s'"
  by (auto simp: disk_put_def bind_op_def Let_def create_dir_def write_atomic_def note_put_def extends_def
      suffix_def split: prod.splits sum.splits if_splits)

text \<open>Storing an object touches nothing outside \<open>objects/\<close>, moving a reference nothing inside.\<close>

lemma disk_put_outside:
  assumes "disk_put E ty c s = (r, s')" "take 1 p \<noteq> [''objects'']" "p \<noteq> []"
  shows "files s' p = files s p" "p \<in> dirs s' \<longleftrightarrow> p \<in> dirs s"
proof -
  have "take 1 q = [''objects'']" if "prefix q (butlast (object_path h))" "q \<noteq> []" for q h
    using that by (cases q) (auto simp: object_path_def)
  moreover have "take 1 (object_path h) = [''objects'']" for h by (simp add: object_path_def)
  ultimately show "files s' p = files s p" "p \<in> dirs s' \<longleftrightarrow> p \<in> dirs s"
    using assms
    by (auto simp: disk_put_def bind_op_def Let_def create_dir_def write_atomic_def note_put_def
        split: prod.splits sum.splits if_splits)
qed

lemma write_ref_get:
  assumes "disk_ok E s" "ref_path name = Ok p" "p \<noteq> []" "take 1 p \<noteq> [''objects'']" "write_ref name h s = (Ok (), s')"
  shows "disk_get E s' k = disk_get E s k"
proof -
  note w = write_ref_ok [OF assms]
  have "p \<noteq> object_path k" using assms(4) by (auto simp: object_path_def)
  then have f: "files s' (object_path k) = files s (object_path k)" by (simp add: w(2))
  have nd: "object_path k \<notin> dirs s" "object_path k \<notin> dirs s'"
    using object_path_not_dir assms(1) w(1) by (auto simp: disk_ok_def)
  have "list_ex (\<lambda>q. files t q \<noteq> None) (prefixes (butlast (object_path k))) = False" if "disk_ok E t" for t
    using object_parent_free [OF that] .
  then show ?thesis using f nd assms(1) w(1)
    by (simp add: disk_get_def read_file_def path_exists_def Let_def)
qed

lemma disk_get_later:
  assumes "disk_ok E s" "disk_ok E s'" "sha_ok E" "collision_free E s'" "extends s s'"
    and "disk_get E s h = Ok (Some x)"
  shows "disk_get E s' h = Ok (Some x)"
proof -
  have "files s (object_path h) \<noteq> None"
    using assms(1,6) by (auto simp: disk_get_def path_exists_object Let_def split: if_splits)
  then obtain f z where f: "f \<in> set (puts s)" "object_path h = object_path (hash_of_bytes E f)"
      "files s (object_path h) = Some z" "zlib_decode E z = Inr f"
    using assms(1) unfolding disk_ok_def objects_ok_def by (metis object_path_shape(2) not_None_eq)
  obtain t c where tc: "f = frame t c" using puts_frames [OF assms(1) f(1)] by blast
  have get_h: "disk_get E s'' h = disk_get E s'' (hash_of_bytes E f)" for s''
    using f(2) by (simp add: disk_get_def)
  have "disk_get E s' (hash_of E t c) = Ok (Some (type_as_str t, c))"
    using disk_get_stored [OF assms(2,3,4)] f(1) tc extends_puts [OF assms(5)] by auto
  moreover have "disk_get E s (hash_of E t c) = Ok (Some (type_as_str t, c))"
    using disk_get_stored [OF assms(1,3)] f(1) tc collision_free_mono [OF assms(5,4)] by auto
  ultimately show ?thesis using assms(6) get_h tc by (simp add: hash_of_def)
qed

interpretation disk: object_store "disk_put E" "disk_get E" "\<lambda>s. disk_ok E s \<and> store_env E"
    disk_storable "collision_free E" extends
  for E
proof (unfold_locales, goal_cases)
  case (1 s t c)
  then obtain u where "t = type_as_str u" by (auto simp: disk_storable_def)
  then show ?case using 1 disk_put_ok [of E s u c] extends_put by (fastforce simp: store_env_def)
next
  case (2 s t c h s')
  then obtain u where u: "t = type_as_str u" by (auto simp: disk_storable_def)
  then obtain s1 where "disk_put E t c s = (Ok (hash_of E u c), s1)" "disk_ok E s1" "puts s1 = frame u c # puts s"
    using 2 disk_put_ok [of E s u c] by (auto simp: store_env_def)
  then show ?case using 2 u disk_get_stored [of E s1 u c] by (simp add: store_env_def)
next
  case (3 s s' h x)
  then show ?case using disk_get_later store_envD by blast
qed (use extends_trans collision_free_mono extends_refl in blast)+

section \<open>The first state\<close>

lemma disk_init_empty:
  "\<exists>s. disk_init empty_disk = (Ok (), s) \<and> disk_ok E s \<and> puts s = [] \<and> read_head s = Ok ''ref: refs/heads/main''"
proof -
  define s0 where "s0 = snd (disk_init empty_disk)"
  have s0: "disk_init empty_disk = (Ok (), s0)"
    "files s0 = [[''HEAD''] \<mapsto> ''ref: refs/heads/main'' @ [LF]]" "puts s0 = []"
    "dirs s0 = {[], [''objects''], [''refs''], [''refs'', ''heads'']}"
    by (auto simp: s0_def disk_init_def bind_op_def create_dir_def write_atomic_def path_exists_def empty_disk_def)
  have "fs_ok s0" using s0 by (auto simp: fs_ok_def prefix_Cons)
  moreover have "objects_ok E s0" using s0 by (auto simp: objects_ok_def)
  moreover have "read_head s0 = Ok ''ref: refs/heads/main''"
    using s0 by (simp add: read_head_def read_to_string_def read_file_def utf8_valid_ascii is_ascii_def
        trim_def trim_end_def ws1_def ws2_def ws3_def Let_def)
  ultimately show ?thesis using s0 by (auto simp: disk_ok_def)
qed

section \<open>Properties\<close>

definition fresh_disk :: disk where
  "fresh_disk = snd (disk_init empty_disk)"

lemma fresh_disk_ok [simp]: "disk_ok E fresh_disk" "puts fresh_disk = []"
  using disk_init_empty [of E] by (auto simp: fresh_disk_def)

lemma toy_store_env [simp]: "store_env toy_ext"
  by (simp add: store_env_def)

text \<open>
  C6. The store is a map from names to objects. Storing an object succeeds, answers the
  SHA-256 of its framing, binds that name to the type and content given, and changes the
  answer for no other name. It keeps the invariant of the disk.
\<close>

theorem store_refines_map:
  assumes "disk_ok E s" "store_env E" "disk_put E (type_as_str t) c s = (r, s')" "collision_free E s'"
  shows "r = Ok (hash_of E t c) \<and> disk_ok E s' \<and>
    (\<forall>h. hash_wf h \<longrightarrow>
       disk_get E s' h = (if h = hash_of E t c then Ok (Some (type_as_str t, c)) else disk_get E s h))"
proof -
  note env = store_envD [OF assms(2)]
  obtain s1 where s1: "disk_put E (type_as_str t) c s = (Ok (hash_of E t c), s1)" "disk_ok E s1"
      "puts s1 = frame t c # puts s"
    using disk_put_ok [OF assms(1) env] by blast
  have s': "s' = s1" "r = Ok (hash_of E t c)" using s1(1) assms(3) by auto
  have cf: "collision_free E s" using collision_free_mono [OF extends_put [OF s1(3)]] assms(4) s' by simp
  have len: "length c \<le> U64_MAX" using stored_length [OF assms(4), of t c] s1(3) s' by simp
  have "disk_get E s1 h = (if h = hash_of E t c then Ok (Some (type_as_str t, c)) else disk_get E s h)"
    if "hash_wf h" for h
    using disk_get_abs [OF s1(2) env(1) _ that] disk_get_abs [OF assms(1) env(1) cf that] assms(4) s' s1(3) len
    by (auto simp: abs_objects_def hash_of_def parse_framed_frame)
  then show ?thesis using s' s1(2) by simp
qed

theorem store_refines_map_witness:
  "disk_get toy_ext (snd (disk_put toy_ext ''blob'' ''hi'' fresh_disk)) (hash_of toy_ext Blob ''hi'') =
     Ok (Some (''blob'', ''hi''))"
proof -
  obtain s' where s': "disk_put toy_ext (type_as_str Blob) ''hi'' fresh_disk = (Ok (hash_of toy_ext Blob ''hi''), s')"
      "puts s' = frame Blob ''hi'' # puts fresh_disk"
    using disk_put_ok [of toy_ext fresh_disk Blob "''hi''"] by auto
  have "collision_free toy_ext s'"
    using s'(2) by (simp add: collision_free_def frame_def show_nat.simps U64_MAX_def)
  from store_refines_map [OF fresh_disk_ok(1) toy_store_env s'(1) this] s'(1) show ?thesis
    by (simp add: hash_of_def)
qed

text \<open>
  Streaming an object in pieces is the same as storing it whole: the same name is
  answered and the same files result. A declared size that the pieces do not add up to
  is an error that leaves every file as it was.
\<close>

lemma put_stream_equals_put:
  assumes "disk_ok E s" "store_env E"
  shows "(\<exists>s1 s2. disk_put_stream E (type_as_str t) pieces (length (concat pieces)) s = (Ok (hash_of E t (concat pieces)), s1) \<and>
            disk_put E (type_as_str t) (concat pieces) s = (Ok (hash_of E t (concat pieces)), s2) \<and>
            files s1 = files s2 \<and> puts s1 = puts s2 \<and> disk_ok E s1) \<and>
         (\<forall>n. n \<noteq> length (concat pieces) \<longrightarrow>
            (\<exists>s1. disk_put_stream E (type_as_str t) pieces n s = (Err (Internal ''put_stream: declared size != actual''), s1) \<and>
                  files s1 = files s \<and> puts s1 = puts s))"
proof
  note env = store_envD [OF assms(2)]
  let ?c = "concat pieces"
  obtain s0 where s0: "create_dir [''objects'', ''tmp''] s = (Ok (), s0)" "disk_ok E s0" "files s0 = files s" "puts s0 = puts s"
    using tmp_dir_ok [OF assms(1)] by blast
  have files_put: "files (snd (disk_put E (type_as_str t) ?c s0)) = files (snd (disk_put E (type_as_str t) ?c s))"
  proof (cases "files s (object_path (hash_of E t ?c)) = None")
    case True
    obtain z where z: "zlib_encode E (frame t ?c) = Inr z" using env(2) by (auto simp: zlib_ok_def)
    then show ?thesis
      using disk_put_files [OF assms(1) z] disk_put_files [OF s0(2) z] s0(3) True by simp
  next
    case False
    then show ?thesis using disk_put_dup [OF assms(1) False] disk_put_dup [OF s0(2)] s0(3) by simp
  qed
  obtain s1 where s1: "disk_put E (type_as_str t) ?c s0 = (Ok (hash_of E t ?c), s1)" "disk_ok E s1" "puts s1 = frame t ?c # puts s0"
    using disk_put_ok [OF s0(2) env] by blast
  obtain s2 where s2: "disk_put E (type_as_str t) ?c s = (Ok (hash_of E t ?c), s2)" "puts s2 = frame t ?c # puts s"
    using disk_put_ok [OF assms(1) env] by blast
  have "disk_put_stream E (type_as_str t) pieces (length ?c) s = (Ok (hash_of E t ?c), s1)"
    using disk_put_stream_eq [OF assms(1) env(2) refl s0(1,2)] s1(1) by simp
  then show "\<exists>s1 s2. disk_put_stream E (type_as_str t) pieces (length ?c) s = (Ok (hash_of E t ?c), s1) \<and>
            disk_put E (type_as_str t) ?c s = (Ok (hash_of E t ?c), s2) \<and>
            files s1 = files s2 \<and> puts s1 = puts s2 \<and> disk_ok E s1"
    using s1 s2 s0(4) files_put by auto
  show "\<forall>n. n \<noteq> length ?c \<longrightarrow>
      (\<exists>s1. disk_put_stream E (type_as_str t) pieces n s = (Err (Internal ''put_stream: declared size != actual''), s1) \<and>
            files s1 = files s \<and> puts s1 = puts s)"
    using s0 by (auto simp: disk_put_stream_def Let_def stream_fold bind_op_def)
qed

text \<open>
  A branch that was moved is read at its new commit; every other branch, \<open>HEAD\<close> and
  every object read as before.
\<close>

lemma branch_write_read:
  assumes "disk_ok E s" "branch_name b" "hash_wf h" "write_ref (branch_ref b) h s = (Ok (), s')"
  shows "read_ref s' (branch_ref b) = Ok (Some h) \<and> disk_ok E s' \<and>
    (\<forall>b'. branch_name b' \<and> b' \<noteq> b \<longrightarrow> read_ref s' (branch_ref b') = read_ref s (branch_ref b')) \<and>
    read_head s' = read_head s \<and> (\<forall>k. disk_get E s' k = disk_get E s k)"
proof -
  let ?p = "[''refs'', ''heads'', b]"
  have p: "ref_path (branch_ref b) = Ok ?p" using assms(2) by (rule ref_path_branch)
  have p': "?p \<noteq> []" "take 1 ?p \<noteq> [''objects'']" by simp_all
  note w = write_ref_ok [OF assms(1) p p' assms(4)]
  have dirs: "dirs s' = dirs s" using w(3) assms(1) by (auto simp: disk_ok_def)
  have "read_ref s' (branch_ref b) = Ok (Some h)" using assms by (rule branch_written_read)
  moreover have "read_ref s' (branch_ref b') = read_ref s (branch_ref b')" if "branch_name b'" "b' \<noteq> b" for b'
    using read_ref_other [OF assms(1) p p' assms(4) ref_path_branch [OF that(1)]] that(2) by simp
  moreover have "read_file s' q = read_file s q" if "q \<noteq> ?p" "\<not> prefix ?p q" for q
    using that w(2) dirs prefix_order.trans [OF _ prefixeq_butlast [of q]]
    by (auto simp: read_file_def list_ex_iff)
  then have "read_file s' [''HEAD''] = read_file s [''HEAD'']"
    "read_file s' (object_path k) = read_file s (object_path k)" for k
    by (auto simp: object_path_def)
  moreover have "path_exists s' (object_path k) = path_exists s (object_path k)" for k
    using w(2) dirs by (auto simp: path_exists_def object_path_def)
  ultimately show ?thesis
    using w(1) by (simp add: read_head_def read_to_string_def disk_get_def Let_def)
qed

text \<open>
  C29. No reference name reaches outside \<open>.omp/\<close>. Wherever the root of the store lies, a name
  that is accepted names a place at or below it, whose components are proper names (not empty, no
  \<open>.\<close>, no \<open>..\<close>, no slash), and it is the place that the operations use. A name with \<open>..\<close> in it,
  an absolute one and the empty one are errors of every operation and change nothing.
\<close>

theorem ref_names_confined:
  "(case ref_place root name of
      Inr place \<Rightarrow> \<exists>p. place = root @ p \<and> ref_path name = Ok p \<and>
        list_all (\<lambda>c. c \<noteq> [] \<and> c \<noteq> ''.'' \<and> c \<noteq> ''..'' \<and> CHR ''/'' \<notin> set c) p
    | Inl e \<Rightarrow> e = InvalidPath ''ref name'' \<and> (contains_str ''..'' name \<or> starts_with ''/'' name \<or> name = []) \<and>
               read_ref s name = Err e \<and> write_ref name h s = (Err e, s) \<and> delete_ref name s = (Err e, s))"
proof (cases "ref_place root name")
  case (Inl e)
  then show ?thesis
    by (auto simp: read_ref_def write_ref_def delete_ref_def bind_op_def ref_path_def ref_place_def split: if_splits)
next
  case (Inr place)
  let ?p = "path_parts name"
  have p: "place = root @ ?p" "ref_path name = Ok ?p" "\<not> contains_str ''..'' name"
    using Inr by (auto simp: ref_place_def ref_path_def path_join_def split: if_splits)
  have dots: "c \<noteq> ''..''" if "c \<in> set (split_on (CHR ''/'') name)" for c
  proof
    assume "c = ''..''"
    with split_on_pieces_infix [OF that] have "contains_str ''..'' name" unfolding contains_str_iff by blast
    with p(3) show False ..
  qed
  have "c \<noteq> [] \<and> c \<noteq> ''.'' \<and> c \<noteq> ''..'' \<and> CHR ''/'' \<notin> set c" if "c \<in> set ?p" for c
  proof -
    have "c \<in> set (split_on (CHR ''/'') name)" "c \<noteq> []" "c \<noteq> ''.''" using that by (auto simp: path_parts_def)
    then show ?thesis using dots split_on_pieces by blast
  qed
  then show ?thesis using Inr p(1,2) by (simp add: list_all_iff)
qed

end
