(* ===== verification/Omp_Crypto.thy ===== *)
theory Omp_Crypto
  imports Omp_Hash "HOL-Library.Word"
begin

text \<open>
  \<open>crates/omp-crypto\<close> (\<open>aead.rs\<close>, \<open>chunk_nonce.rs\<close>, \<open>kdf.rs\<close>, \<open>identity.rs\<close>,
  \<open>error.rs\<close>) and \<open>crates/omp-core/src/keys.rs\<close>: the sealed-blob wire format, the key
  hierarchy of a tenant and the wrapping of a content key to a recipient. The
  primitives are fields of \<open>ext\<close>; bytes the code draws from the operating system's
  generator are arguments. Fixed-size arrays are lists whose length is a hypothesis.
\<close>

datatype crypto_error =
    CryptoArgon2 str | CryptoHkdf str | CryptoAead str | CryptoWrap str | CryptoInvalid str

section \<open>Sealed blobs\<close>

definition ALG_CHACHA20_POLY1305 :: char where "ALG_CHACHA20_POLY1305 = CHR 0x01"
definition TAG_SIZE :: nat where "TAG_SIZE = 16"
definition NONCE_SIZE :: nat where "NONCE_SIZE = 12"

definition seal :: "ext \<Rightarrow> bytes \<Rightarrow> bytes \<Rightarrow> bytes \<Rightarrow> bytes \<Rightarrow> crypto_error + bytes" where
  "seal E key nonce aad plaintext =
     bind_res (map_err (\<lambda>e. CryptoAead (''encrypt: '' @ e)) (chacha_encrypt E key nonce aad plaintext))
       (\<lambda>ct. Ok ([ALG_CHACHA20_POLY1305] @ nonce @ ct))"

definition open_sealed :: "ext \<Rightarrow> bytes \<Rightarrow> bytes \<Rightarrow> bytes \<Rightarrow> crypto_error + bytes" where
  "open_sealed E key aad sealed =
     (if length sealed < 1 + NONCE_SIZE + TAG_SIZE then Err (CryptoInvalid ''sealed blob too short'')
      else if sealed ! 0 \<noteq> ALG_CHACHA20_POLY1305 then Err (CryptoInvalid ''unknown algorithm tag'')
      else map_err (\<lambda>e. CryptoAead (''decrypt: '' @ e))
             (chacha_decrypt E key (take NONCE_SIZE (drop 1 sealed)) aad (drop (1 + NONCE_SIZE) sealed)))"

text \<open>The big-endian bytes of a \<open>u32\<close>.\<close>

definition to_be_bytes :: "32 word \<Rightarrow> bytes" where
  "to_be_bytes w = map (\<lambda>k. char_of (unat w div 2 ^ k)) [24, 16, 8, 0]"

definition chunk_info :: "32 word \<Rightarrow> bytes" where
  "chunk_info chunk_index = ''chunk'' @ to_be_bytes chunk_index"

definition nonce_for_chunk :: "ext \<Rightarrow> bytes \<Rightarrow> 32 word \<Rightarrow> crypto_error + bytes" where
  "nonce_for_chunk E content_key chunk_index =
     map_err CryptoHkdf (hkdf_expand E content_key (chunk_info chunk_index) NONCE_SIZE)"

section \<open>Key derivation\<close>

definition argon2id_root :: "ext \<Rightarrow> bytes \<Rightarrow> bytes \<Rightarrow> crypto_error + bytes" where
  "argon2id_root E passphrase tenant_salt =
     (if tenant_salt = [] then Err (CryptoInvalid ''tenant_salt is empty'')
      else if length tenant_salt < 8 then Err (CryptoInvalid ''tenant_salt too short'')
      else map_err CryptoArgon2 (argon2id E (64 * 1024) 3 1 32 passphrase tenant_salt))"

definition hkdf_subkey :: "ext \<Rightarrow> bytes \<Rightarrow> bytes \<Rightarrow> crypto_error + bytes" where
  "hkdf_subkey E root info = map_err CryptoHkdf (hkdf_expand E root info 32)"

definition hkdf_bytes :: "ext \<Rightarrow> bytes \<Rightarrow> bytes \<Rightarrow> nat \<Rightarrow> crypto_error + bytes" where
  "hkdf_bytes E input_key info n = map_err CryptoHkdf (hkdf_expand E input_key info n)"

definition derive_nonce :: "ext \<Rightarrow> bytes \<Rightarrow> bytes \<Rightarrow> bytes \<Rightarrow> bytes result" where
  "derive_nonce E key label data =
     map_err (\<lambda>_. Internal ''hkdf derive_nonce'') (hkdf_bytes E key (label @ data) 12)"

section \<open>Recipients\<close>

definition ALG_X25519 :: char where "ALG_X25519 = CHR 0x02"

definition wrap_info :: "bytes \<Rightarrow> bytes \<Rightarrow> bytes" where
  "wrap_info eph_pub recipient_pub = ''omp-share'' @ eph_pub @ recipient_pub"

text \<open>The first argument after \<open>ext\<close> is the fresh ephemeral secret.\<close>

definition wrap_to_recipient :: "ext \<Rightarrow> bytes \<Rightarrow> bytes \<Rightarrow> bytes \<Rightarrow> crypto_error + bytes" where
  "wrap_to_recipient E eph_secret content_key recipient_pub =
     (let eph_pub = x25519_public E eph_secret;
          shared = x25519_dh E eph_secret recipient_pub in
      bind_res (map_err CryptoHkdf (hkdf_expand E shared (wrap_info eph_pub recipient_pub) 32)) (\<lambda>wrap_key.
      bind_res (seal E wrap_key (replicate NONCE_SIZE NUL) ''omp-share-wrap'' content_key) (\<lambda>sealed.
      Ok ([ALG_X25519] @ eph_pub @ sealed))))"

definition unwrap_from_stanza :: "ext \<Rightarrow> bytes \<Rightarrow> bytes \<Rightarrow> crypto_error + bytes" where
  "unwrap_from_stanza E wrapped recipient_priv =
     (if length wrapped < 1 + 32 then Err (CryptoInvalid ''wrapped-key blob too short'')
      else if wrapped ! 0 \<noteq> ALG_X25519 then Err (CryptoInvalid ''unknown wrap alg tag'')
      else let eph_pub = take 32 (drop 1 wrapped);
               sealed = drop 33 wrapped;
               shared = x25519_dh E recipient_priv eph_pub;
               recipient_pub = x25519_public E recipient_priv in
        bind_res (map_err CryptoHkdf (hkdf_expand E shared (wrap_info eph_pub recipient_pub) 32)) (\<lambda>wrap_key.
        bind_res (open_sealed E wrap_key ''omp-share-wrap'' sealed) (\<lambda>plain.
        if length plain \<noteq> 32 then Err (CryptoWrap ''unwrapped key wrong length'')
        else Ok plain)))"

section \<open>The keys of a tenant\<close>

record tenant_identity =
  priv_key :: bytes
  pub_key :: bytes

record tenant_keys =
  root_key :: bytes
  data_key :: bytes
  manifest_key :: bytes
  path_key :: bytes
  commit_key :: bytes
  share_unwrap_key :: bytes
  identity_wrap_key :: bytes
  identity :: "tenant_identity option"

definition tenant_salt :: "str \<Rightarrow> bytes" where
  "tenant_salt tenant = ''omp-tenant:'' @ tenant"

definition unlock :: "ext \<Rightarrow> bytes \<Rightarrow> str \<Rightarrow> tenant_keys result" where
  "unlock E passphrase tenant =
     bind_res (map_err (\<lambda>_. Internal ''argon2id'') (argon2id_root E passphrase (tenant_salt tenant))) (\<lambda>root.
     bind_res (map_err (\<lambda>_. Internal ''hkdf data'') (hkdf_subkey E root ''omp/data'')) (\<lambda>dk.
     bind_res (map_err (\<lambda>_. Internal ''hkdf manifest'') (hkdf_subkey E root ''omp/manifest'')) (\<lambda>mk.
     bind_res (map_err (\<lambda>_. Internal ''hkdf path'') (hkdf_subkey E root ''omp/path'')) (\<lambda>pk.
     bind_res (map_err (\<lambda>_. Internal ''hkdf commit'') (hkdf_subkey E root ''omp/commit'')) (\<lambda>ck.
     bind_res (map_err (\<lambda>_. Internal ''hkdf share'') (hkdf_subkey E root ''omp/share'')) (\<lambda>sk.
     bind_res (map_err (\<lambda>_. Internal ''hkdf identity'') (hkdf_subkey E root ''omp/identity'')) (\<lambda>ik.
     Ok \<lparr>root_key = root, data_key = dk, manifest_key = mk, path_key = pk, commit_key = ck,
         share_unwrap_key = sk, identity_wrap_key = ik, identity = None\<rparr>)))))))"

definition set_identity :: "bytes \<Rightarrow> bytes \<Rightarrow> tenant_keys \<Rightarrow> tenant_keys" where
  "set_identity priv pub ks = ks\<lparr>identity := Some \<lparr>priv_key = priv, pub_key = pub\<rparr>\<rparr>"

text \<open>\<open>generate_identity\<close>, given the 32 random bytes of the secret.\<close>

definition generate_identity :: "ext \<Rightarrow> bytes \<Rightarrow> tenant_keys \<Rightarrow> bytes \<times> tenant_keys" where
  "generate_identity E sk ks = (x25519_public E sk, set_identity sk (x25519_public E sk) ks)"

definition seal_identity_private :: "ext \<Rightarrow> bytes \<Rightarrow> tenant_keys \<Rightarrow> bytes result" where
  "seal_identity_private E nonce ks =
     bind_res (ok_or (Internal ''no identity attached to keys'') (identity ks)) (\<lambda>i.
     map_err (\<lambda>_. Internal ''seal identity'')
       (seal E (identity_wrap_key ks) nonce ''omp-identity-wrap'' (priv_key i)))"

definition unseal_and_attach_identity :: "ext \<Rightarrow> bytes \<Rightarrow> tenant_keys \<Rightarrow> tenant_keys result" where
  "unseal_and_attach_identity E sealed ks =
     bind_res (map_err (\<lambda>_. Unauthorized ''unable to unseal identity private key (wrong passphrase?)'')
        (open_sealed E (identity_wrap_key ks) ''omp-identity-wrap'' sealed)) (\<lambda>priv.
     if length priv \<noteq> 32 then Err (Corrupt ''sealed identity: wrong length'')
     else Ok (set_identity priv (x25519_public E priv) ks))"

lemmas size_consts = TAG_SIZE_def NONCE_SIZE_def

section \<open>Round trips\<close>

lemma aead_okE:
  assumes "aead_ok E" "length key = 32" "length nonce = 12" "length msg \<le> AEAD_MAX"
  obtains ct where "chacha_encrypt E key nonce aad msg = Inr ct" "length ct = length msg + 16"
    "chacha_decrypt E key nonce aad ct = Inr msg"
  using assms unfolding aead_ok_def by blast

lemma open_seal:
  assumes "aead_ok E" "length key = 32" "length nonce = 12" "length msg \<le> AEAD_MAX"
  shows "\<exists>s. seal E key nonce aad msg = Ok s \<and> length s = length msg + 29 \<and>
             open_sealed E key aad s = Ok msg"
proof -
  from assms obtain ct where ct: "chacha_encrypt E key nonce aad msg = Inr ct"
    "length ct = length msg + 16" "chacha_decrypt E key nonce aad ct = Inr msg"
    by (rule aead_okE)
  then show ?thesis using assms(3)
    by (simp add: seal_def open_sealed_def size_consts)
qed

lemma hkdf_okD:
  "hkdf_ok E \<Longrightarrow> n \<le> 255 * 32 \<Longrightarrow> \<exists>out. hkdf_expand E ikm info n = Inr out \<and> length out = n"
  unfolding hkdf_ok_def by blast

lemma derive_nonce_Ok:
  assumes "hkdf_ok E"
  obtains n where "derive_nonce E key label data = Ok n" "length n = 12"
proof -
  obtain n where "hkdf_expand E key (label @ data) 12 = Inr n" "length n = 12"
    using hkdf_okD [OF assms, of 12 key "label @ data"] by auto
  then show thesis by (intro that [of n]) (simp_all add: derive_nonce_def hkdf_bytes_def)
qed

interpretation sealed_blob: fallible_codec "seal E key nonce aad" "open_sealed E key aad"
    "\<lambda>msg. aead_ok E \<and> length key = 32 \<and> length nonce = 12 \<and> length msg \<le> AEAD_MAX"
  for E key nonce aad
  by unfold_locales (use open_seal in blast)

text \<open>The recipient of a wrapped key recovers it with the matching private key.\<close>

lemma unwrap_wrap:
  assumes "aead_ok E" "hkdf_ok E" "x25519_ok E" "length content_key = 32"
  shows "\<exists>w. wrap_to_recipient E eph content_key (x25519_public E priv) = Ok w \<and>
             length w = 94 \<and> unwrap_from_stanza E w priv = Ok content_key"
proof -
  let ?ep = "x25519_public E eph" and ?rp = "x25519_public E priv"
  have ep: "length ?ep = 32" and dh: "x25519_dh E priv ?ep = x25519_dh E eph ?rp"
    using assms(3) by (auto simp: x25519_ok_def)
  obtain wk where wk: "hkdf_expand E (x25519_dh E eph ?rp) (wrap_info ?ep ?rp) 32 = Inr wk" "length wk = 32"
       using hkdf_okD [OF assms(2), of 32 "x25519_dh E eph ?rp" "wrap_info ?ep ?rp"] by auto
  obtain s where s: "seal E wk (replicate NONCE_SIZE NUL) ''omp-share-wrap'' content_key = Ok s"
      "length s = 61" "open_sealed E wk ''omp-share-wrap'' s = Ok content_key"
    using open_seal [OF assms(1) wk(2), of "replicate NONCE_SIZE NUL" content_key "''omp-share-wrap''"] assms(4)
    by (auto simp: size_consts AEAD_MAX_def)
  show ?thesis
    using ep wk s dh assms(4) by (simp add: wrap_to_recipient_def unwrap_from_stanza_def Let_def)
qed

text \<open>Two chunk indices never feed the same text to HKDF.\<close>

lemma char_of_eq_mod: "char_of m = (char_of n :: char) \<Longrightarrow> m mod 256 = n mod (256::nat)"
  by (metis of_char_of)

lemma to_be_bytes_inj:
  assumes "to_be_bytes v = to_be_bytes w"
  shows "v = w"
proof -
  define m n where "m = unat v" and "n = unat w"
  have lt: "m < 2 ^ 32" "n < 2 ^ 32"
    using unsigned_less [of v, where 'a = nat] unsigned_less [of w, where 'a = nat]
    by (simp_all add: m_def n_def)
  have "char_of (m div 2 ^ 24) = (char_of (n div 2 ^ 24) :: char)"
    "char_of (m div 2 ^ 16) = (char_of (n div 2 ^ 16) :: char)"
    "char_of (m div 2 ^ 8) = (char_of (n div 2 ^ 8) :: char)"
    "char_of (m div 2 ^ 0) = (char_of (n div 2 ^ 0) :: char)"
    using assms unfolding to_be_bytes_def m_def n_def list.map list.inject by blast+
  note this [THEN char_of_eq_mod]
  then have eqs: "m div 256 div 256 div 256 mod 256 = n div 256 div 256 div 256 mod 256"
    "m div 256 div 256 mod 256 = n div 256 div 256 mod 256" "m div 256 mod 256 = n div 256 mod 256"
    "m mod 256 = n mod 256"
    by (simp_all flip: div_mult2_eq)
  have "m div 256 div 256 div 256 < 256" "n div 256 div 256 div 256 < 256"
    using lt by (simp_all flip: div_mult2_eq add: less_mult_imp_div_less)
  with eqs have "m div 256 div 256 div 256 = n div 256 div 256 div 256" by simp
  with eqs have "m div 256 div 256 = n div 256 div 256" by (metis div_mult_mod_eq)
  with eqs have "m div 256 = n div 256" by (metis div_mult_mod_eq)
  with eqs have "m = n" by (metis div_mult_mod_eq)
  then show ?thesis by (simp add: m_def n_def word_eq_iff_unsigned [where 'a = nat])
qed

lemma chunk_info_inj: "chunk_info i = chunk_info j \<longleftrightarrow> i = j"
  by (auto simp: chunk_info_def dest: to_be_bytes_inj)

lemma unlock_sizes:
  assumes "unlock E pass tenant = Ok ks" "hkdf_ok E"
  shows "length (path_key ks) = 32 \<and> length (commit_key ks) = 32 \<and> length (data_key ks) = 32 \<and>
         length (manifest_key ks) = 32 \<and> length (identity_wrap_key ks) = 32"
proof -
  have sub: "length out = 32" if "hkdf_expand E ikm info 32 = Inr out" for ikm info out
    using hkdf_okD [OF assms(2), of 32 ikm info] that by auto
  show ?thesis using assms(1)
    by (auto simp: unlock_def hkdf_subkey_def res_simps intro!: sub)
qed

text \<open>The salt is never rejected: its fixed prefix is already long enough for Argon2.\<close>

lemma tenant_salt_long: "8 \<le> length (tenant_salt tenant)"
  by (simp add: tenant_salt_def)

lemma identity_round_trip:
  assumes "aead_ok E" "length (identity_wrap_key ks) = 32" "length nonce = 12"
    and "identity ks = Some i" "length (priv_key i) = 32" "pub_key i = x25519_public E (priv_key i)"
  shows "\<exists>s. seal_identity_private E nonce ks = Ok s \<and>
             unseal_and_attach_identity E s (ks\<lparr>identity := None\<rparr>) = Ok ks"
proof -
  obtain s where "seal E (identity_wrap_key ks) nonce ''omp-identity-wrap'' (priv_key i) = Ok s"
      "open_sealed E (identity_wrap_key ks) ''omp-identity-wrap'' s = Ok (priv_key i)"
    using open_seal [OF assms(1-3), of "priv_key i"] assms(5) by (auto simp: AEAD_MAX_def)
  moreover have "set_identity (priv_key i) (x25519_public E (priv_key i)) (ks\<lparr>identity := None\<rparr>) = ks"
    using assms(4,6) by (cases ks; cases i) (simp add: set_identity_def)
  ultimately show ?thesis
    using assms(4,5) by (simp add: seal_identity_private_def unseal_and_attach_identity_def)
qed

section \<open>Properties\<close>

text \<open>
  A content key wrapped to a recipient's public key is recovered with the matching
  private key, whatever ephemeral secret was drawn. The wrapped form is 94 bytes long.
\<close>

lemma wrap_unwrap_round_trip:
  assumes "aead_ok E" "hkdf_ok E" "x25519_ok E" "length content_key = 32"
  shows "\<exists>w. wrap_to_recipient E eph content_key (x25519_public E priv) = Ok w \<and>
             length w = 94 \<and> unwrap_from_stanza E w priv = Ok content_key"
  using assms by (rule unwrap_wrap)

end
