(* ===== verification/Omp_Commit.thy ===== *)
theory Omp_Commit
  imports Omp_Object Omp_Crypto
begin

text \<open>
  \<open>crates/omp-core/src/commit.rs\<close>: the commit object. The headers (tree, parents, author)
  are text lines; the message follows after an empty line, in plain text or sealed under
  the tenant's commit key. A commit decodes to itself up to trailing line feeds of the
  message, provided the author's fields can be told apart again (\<open>author_ok\<close>) and a
  plain message does not look like a sealed one.
\<close>

section \<open>Model\<close>

record author =
  author_name :: str
  author_email :: str
  author_timestamp :: str

definition author_format :: "author \<Rightarrow> str" where
  "author_format a = author_name a @ '' <'' @ author_email a @ ''> '' @ author_timestamp a"

text \<open>\<open>str::rfind\<close> of a character.\<close>

definition rfind :: "char \<Rightarrow> str \<Rightarrow> nat option" where
  "rfind c s = map_option (\<lambda>(a, b). length a) (rsplit_once c s)"

definition author_parse :: "str \<Rightarrow> author result" where
  "author_parse s0 =
     (let s = trim s0 in
      bind_res (ok_or (Corrupt ''commit author: missing timestamp'') (rsplit_once (CHR '' '') s)) (\<lambda>(rest0, ts).
      let rest = trim_end rest0 in
      bind_res (ok_or (Corrupt ''commit author: missing <'') (rfind (CHR ''<'') rest)) (\<lambda>email_start.
      bind_res (ok_or (Corrupt ''commit author: missing >'') (rfind (CHR ''>'') rest)) (\<lambda>email_end.
      if email_end < email_start then Err (Corrupt ''commit author: unbalanced <>'')
      else Ok \<lparr>author_name = trim_end (take email_start rest),
               author_email = drop (email_start + 1) (take email_end rest),
               author_timestamp = ts\<rparr>))))"

record commit =
  commit_tree :: hash
  commit_parents :: "hash list"
  commit_author :: author
  commit_message :: str

definition ENCRYPTED_MESSAGE_PREFIX :: str where
  "ENCRYPTED_MESSAGE_PREFIX = ''!encrypted-message v1 ''"

definition COMMIT_MSG_AAD :: bytes where "COMMIT_MSG_AAD = ''omp-commit-message''"

definition commit_headers :: "commit \<Rightarrow> str list" where
  "commit_headers c =
     (''tree '' @ hash_hex (commit_tree c)) #
     map (\<lambda>p. ''parent '' @ hash_hex p) (commit_parents c) @
     [''author '' @ author_format (commit_author c)]"

definition serialize_with_commit_key :: "ext \<Rightarrow> bytes option \<Rightarrow> commit \<Rightarrow> bytes result" where
  "serialize_with_commit_key E ck c =
     (let out = concat (map (\<lambda>l. l @ [LF]) (commit_headers c)) @ [LF];
          msg = trim_end_matches LF (commit_message c) in
      case ck of
        None \<Rightarrow> Ok (out @ msg @ [LF])
      | Some key \<Rightarrow>
          bind_res (derive_nonce E key ''commit-msg'' msg) (\<lambda>nonce.
          bind_res (map_err (\<lambda>_. Internal ''seal commit message'') (seal E key nonce COMMIT_MSG_AAD msg)) (\<lambda>sealed.
          Ok (out @ ENCRYPTED_MESSAGE_PREFIX @ hex_encode sealed @ [LF]))))"

record headers =
  h_tree :: "hash option"
  h_parents :: "hash list"
  h_author :: "author option"

definition no_headers :: headers where
  "no_headers = \<lparr>h_tree = None, h_parents = [], h_author = None\<rparr>"

text \<open>One header line that is not empty; \<open>unknown\<close> is what an unknown line gives.\<close>

definition header_line :: "headers result \<Rightarrow> headers \<Rightarrow> str \<Rightarrow> headers result" where
  "header_line unknown hs l =
     (case strip_prefix ''tree '' l of
        Some rest \<Rightarrow> bind_res (map_err (\<lambda>_. Corrupt ''commit tree'') (hash_from_str rest))
                       (\<lambda>h. Ok (hs\<lparr>h_tree := Some h\<rparr>))
      | None \<Rightarrow> (case strip_prefix ''parent '' l of
        Some rest \<Rightarrow> bind_res (map_err (\<lambda>_. Corrupt ''commit parent'') (hash_from_str rest))
                       (\<lambda>h. Ok (hs\<lparr>h_parents := h_parents hs @ [h]\<rparr>))
      | None \<Rightarrow> (case strip_prefix ''author '' l of
        Some rest \<Rightarrow> bind_res (author_parse rest) (\<lambda>a. Ok (hs\<lparr>h_author := Some a\<rparr>))
      | None \<Rightarrow> unknown)))"

text \<open>The loop over the header lines: the headers and the number of bytes consumed.\<close>

fun header_loop :: "str list \<Rightarrow> nat \<Rightarrow> headers \<Rightarrow> (headers \<times> nat) result" where
  "header_loop [] consumed hs = Ok (hs, consumed)"
| "header_loop (line # lines) consumed hs =
     (let l = trim_end_matches LF line in
      if l = [] then Ok (hs, consumed + length line)
      else bind_res (header_line (Err (Corrupt ''commit: unknown header line'')) hs l)
             (header_loop lines (consumed + length line)))"

definition open_message :: "ext \<Rightarrow> bytes option \<Rightarrow> str \<Rightarrow> str result" where
  "open_message E ck hex_sealed =
     bind_res (ok_or (Unauthorized ''commit message is encrypted but no commit_key supplied'') ck) (\<lambda>key.
     bind_res (hex_decode hex_sealed) (\<lambda>sealed.
     bind_res (map_err (\<lambda>_. Unauthorized ''commit message did not open (wrong commit_key or tampered)'')
        (open_sealed E key COMMIT_MSG_AAD sealed)) (\<lambda>opened.
     if utf8_valid opened then Ok opened else Err (Corrupt ''decrypted commit message is not UTF-8''))))"

definition commit_of_headers :: "headers \<Rightarrow> str \<Rightarrow> commit result" where
  "commit_of_headers hs message =
     bind_res (ok_or (Corrupt ''commit: missing tree'') (h_tree hs)) (\<lambda>t.
     bind_res (ok_or (Corrupt ''commit: missing author'') (h_author hs)) (\<lambda>a.
     Ok \<lparr>commit_tree = t, commit_parents = h_parents hs, commit_author = a, commit_message = message\<rparr>))"

definition parse_with_commit_key :: "ext \<Rightarrow> bytes option \<Rightarrow> bytes \<Rightarrow> commit result" where
  "parse_with_commit_key E ck s =
     (if \<not> utf8_valid s then Err (Corrupt ''commit is not UTF-8'')
      else bind_res (header_loop (split_inclusive LF s) 0 no_headers) (\<lambda>(hs, consumed).
      let body = trim_end_matches LF (drop consumed s) in
      bind_res (case strip_prefix ENCRYPTED_MESSAGE_PREFIX body of
                  Some hex_sealed \<Rightarrow> open_message E ck hex_sealed
                | None \<Rightarrow> Ok body) (\<lambda>message.
      commit_of_headers hs message)))"

definition commit_parse :: "ext \<Rightarrow> bytes \<Rightarrow> commit result" where
  "commit_parse E bs = parse_with_commit_key E None bs"

section \<open>Authors\<close>

definition author_ok :: "author \<Rightarrow> bool" where
  "author_ok a \<longleftrightarrow>
     utf8_valid (author_format a) \<and> LF \<notin> set (author_format a) \<and>
     trim_start (author_name a) = author_name a \<and> trim_end (author_name a) = author_name a \<and>
     CHR ''<'' \<notin> set (author_email a) \<and>
     author_timestamp a \<noteq> [] \<and> CHR '' '' \<notin> set (author_timestamp a) \<and>
     trim_end (author_timestamp a) = author_timestamp a"

text \<open>A string that \<open>trim\<close> leaves alone does not start with a blank of one, two or three bytes.\<close>

lemma trim_start_length: "length (trim_start x) \<le> length x"
proof (induction x rule: length_induct)
  case (1 x)
  show ?case
  proof (cases x)
    case (Cons a xs)
    have "length (trim_start ys) \<le> n" if "length ys \<le> length xs" "length ys \<le> n" for ys n
      using 1 Cons that by (metis le_imp_less_Suc length_Cons order.trans)
    then show ?thesis unfolding Cons by (simp split: list.split)
  qed simp
qed

lemma trim_start_rev_length: "length (trim_start_rev x) \<le> length x"
proof (induction x rule: length_induct)
  case (1 x)
  show ?case
  proof (cases x)
    case (Cons a xs)
    have "length (trim_start_rev ys) \<le> n" if "length ys \<le> length xs" "length ys \<le> n" for ys n
      using 1 Cons that by (metis le_imp_less_Suc length_Cons order.trans)
    then show ?thesis unfolding Cons by (simp split: list.split)
  qed simp
qed


lemma trim_start_id_head:
  assumes "trim_start (a # xs) = a # xs"
  shows "\<not> ws1 a" "xs = b # ys \<Longrightarrow> \<not> ws2 a b" "xs = b # c # zs \<Longrightarrow> \<not> ws3 a b c"
proof -
  show w1: "\<not> ws1 a" using assms trim_start_length [of xs] by auto
  show w2: "\<not> ws2 a b" if "xs = b # ys" for b ys
    using assms trim_start_length [of ys] w1 that by auto
  show "\<not> ws3 a b c" if "xs = b # c # zs"
    using assms trim_start_length [of zs] w1 w2 [OF that] that by auto
qed

lemma trim_start_rev_id_head:
  assumes "trim_start_rev (a # xs) = a # xs"
  shows "\<not> ws1 a" "xs = b # ys \<Longrightarrow> \<not> ws2 b a" "xs = b # c # zs \<Longrightarrow> \<not> ws3 c b a"
proof -
  show w1: "\<not> ws1 a" using assms trim_start_rev_length [of xs] by auto
  show w2: "\<not> ws2 b a" if "xs = b # ys" for b ys
    using assms trim_start_rev_length [of ys] w1 that by auto
  show "\<not> ws3 c b a" if "xs = b # c # zs"
    using assms trim_start_rev_length [of zs] w1 w2 [OF that] that by auto
qed

lemma space_not_ws: "\<not> ws2 a (CHR '' '')" "\<not> ws3 a (CHR '' '') d" "\<not> ws3 a b (CHR '' '')"
  "\<not> ws2 (CHR '' '') a" "\<not> ws3 (CHR '' '') a b"
  by (auto simp: ws2_def ws3_def)

lemma trim_start_append_space:
  assumes "trim_start s = s" "s \<noteq> []"
  shows "trim_start (s @ CHR '' '' # t) = s @ CHR '' '' # t"
proof -
  obtain a xs where s: "s = a # xs" using assms(2) by (cases s) auto
  note h = trim_start_id_head [OF assms(1) [unfolded s]]
  show ?thesis
    using h unfolding s
    by (cases xs; cases "tl xs") (simp_all add: space_not_ws split: list.split)
qed

lemma trim_end_append_space:
  assumes "trim_end s = s" "s \<noteq> []"
  shows "trim_end (t @ CHR '' '' # s) = t @ CHR '' '' # s"
proof -
  obtain a xs where s: "rev s = a # xs" using assms(2) by (cases "rev s") auto
  have "trim_start_rev (a # xs) = a # xs" using assms(1) s by (metis rev_rev_ident trim_end_def)
  note h = trim_start_rev_id_head [OF this]
  have "trim_start_rev (rev s @ CHR '' '' # rev t) = rev s @ CHR '' '' # rev t"
    using h unfolding s by (cases xs; cases "tl xs") (simp_all add: space_not_ws split: list.split)
  then have "trim_end (t @ CHR '' '' # s) = rev (rev s @ CHR '' '' # rev t)" by (simp add: trim_end_def)
  then show ?thesis by simp
qed


lemma author_parse_format:
  assumes "author_ok a"
  shows "author_parse (author_format a) = Ok a"
proof -
  let ?n = "author_name a" and ?m = "author_email a" and ?ts = "author_timestamp a"
  note ok = assms [unfolded author_ok_def]
  let ?rest = "(if ?n = [] then [] else ?n @ '' '') @ ''<'' @ ?m @ ''>''"
  have fmt: "author_format a = ?n @ CHR '' '' # (''<'' @ ?m @ ''>'') @ CHR '' '' # ?ts"
    by (simp add: author_format_def)
  have "trim_start (author_format a) = ?rest @ CHR '' '' # ?ts"
  proof (cases "?n = []")
    case True
    then show ?thesis by (simp add: fmt ws1_def ws2_def ws3_def split: list.split)
  next
    case False
    then show ?thesis using trim_start_append_space [of ?n] ok unfolding fmt by simp
  qed
  moreover have "trim_end (?rest @ CHR '' '' # ?ts) = ?rest @ CHR '' '' # ?ts"
    using trim_end_append_space ok by blast
  ultimately have trimmed: "trim (author_format a) = ?rest @ CHR '' '' # ?ts" by (simp add: trim_def)
  have split: "rsplit_once (CHR '' '') (?rest @ CHR '' '' # ?ts) = Some (?rest, ?ts)"
    using ok by (intro rsplit_once_append) simp
  have rest: "trim_end ?rest = ?rest"
    using trim_end_snoc_ascii [of "CHR ''>''" "(if ?n = [] then [] else ?n @ '' '') @ ''<'' @ ?m"]
    by (simp add: is_ascii_def ws1_def)
  let ?pre = "if ?n = [] then [] else ?n @ '' ''"
  have lt: "rfind (CHR ''<'') ?rest = Some (length ?pre)"
    using rsplit_once_append [of "CHR ''<''" "?m @ ''>''" ?pre] ok by (simp add: rfind_def)
  have gt: "rfind (CHR ''>'') ?rest = Some (length ?pre + 1 + length ?m)"
    using rsplit_once_append [of "CHR ''>''" "[]" "?pre @ ''<'' @ ?m"] by (simp add: rfind_def)
  have name: "trim_end ?pre = ?n"
    using ok by (auto simp: trim_end_def ws1_def)
  have take: "take (length ?pre) ?rest = ?pre" by simp
  have email: "drop (length ?pre + 1) (take (length ?pre + 1 + length ?m) ?rest) = ?m"
    by (simp add: drop_take)
  have "author_parse (author_format a) =
     Ok \<lparr>author_name = ?n, author_email = ?m, author_timestamp = ?ts\<rparr>"
    unfolding author_parse_def Let_def trimmed split rest lt gt ok_or_simps bind_res_simps prod.case take name email
    using rest lt gt take name email by simp
  then show ?thesis by (cases a) simp
qed

section \<open>The round trip\<close>

definition commit_wf :: "commit \<Rightarrow> bool" where
  "commit_wf c \<longleftrightarrow> hash_wf (commit_tree c) \<and> (\<forall>p \<in> set (commit_parents c). hash_wf p) \<and>
     author_ok (commit_author c) \<and> utf8_valid (commit_message c)"

text \<open>A plain message that does not look sealed; a sealed one within the cipher's limit.\<close>

definition message_fits :: "bytes option \<Rightarrow> commit \<Rightarrow> bool" where
  "message_fits ck c \<longleftrightarrow>
     (let msg = trim_end_matches LF (commit_message c) in
      case ck of None \<Rightarrow> \<not> starts_with ENCRYPTED_MESSAGE_PREFIX msg | Some _ \<Rightarrow> length msg \<le> AEAD_MAX)"

definition commit_key_ok :: "ext \<Rightarrow> bytes option \<Rightarrow> bool" where
  "commit_key_ok E ck \<longleftrightarrow> (case ck of None \<Rightarrow> True | Some key \<Rightarrow> length key = 32 \<and> aead_ok E \<and> hkdf_ok E)"

text \<open>What is left of a commit when its message is written: trailing line feeds go.\<close>

definition commit_norm :: "commit \<Rightarrow> commit" where
  "commit_norm c = c\<lparr>commit_message := trim_end_matches LF (commit_message c)\<rparr>"

lemma header_line_tree [simp]:
  "hash_wf h \<Longrightarrow> header_line u hs (''tree '' @ hash_hex h) = Ok (hs\<lparr>h_tree := Some h\<rparr>)"
  using strip_prefix_append [of "''tree ''" "hash_hex h"] by (simp add: header_line_def hash_from_str_hex)

lemma header_line_parent [simp]:
  "hash_wf h \<Longrightarrow> header_line u hs (''parent '' @ hash_hex h) = Ok (hs\<lparr>h_parents := h_parents hs @ [h]\<rparr>)"
  using strip_prefix_append [of "''parent ''" "hash_hex h"]
  by (simp add: header_line_def hash_from_str_hex strip_prefix_def)

lemma header_line_author [simp]:
  "author_ok a \<Longrightarrow> header_line u hs (''author '' @ author_format a) = Ok (hs\<lparr>h_author := Some a\<rparr>)"
  using strip_prefix_append [of "''author ''" "author_format a"]
  by (simp add: header_line_def author_parse_format strip_prefix_def)

text \<open>The header loop over written lines, up to the empty one.\<close>

lemma header_loop_lines:
  assumes "\<forall>l \<in> set ls. l \<noteq> [] \<and> LF \<notin> set l"
  shows "header_loop (map (\<lambda>l. l @ [LF]) ls @ [LF] # rest) n hs =
     bind_res (try_fold (header_line (Err (Corrupt ''commit: unknown header line''))) hs ls)
       (\<lambda>hs'. Ok (hs', n + length (concat (map (\<lambda>l. l @ [LF]) ls)) + 1))"
  using assms
proof (induction ls arbitrary: n hs)
  case (Cons l ls)
  have "trim_end_matches LF (l @ [LF]) = l"
    using Cons.prems by (simp add: trim_end_matches_id last_in_set) (metis last_in_set trim_end_matches_id)
  then show ?case
    using Cons by (cases "header_line (Err (Corrupt ''commit: unknown header line'')) hs l")
      (simp_all add: add.assoc)
qed (simp add: trim_end_matches_def)


lemma split_inclusive_lines:
  "\<forall>l \<in> set ls. LF \<notin> set l \<Longrightarrow>
   split_inclusive LF (concat (map (\<lambda>l. l @ [LF]) ls) @ b) = map (\<lambda>l. l @ [LF]) ls @ split_inclusive LF b"
  by (induction ls) (simp_all add: split_inclusive_append)

lemma parents_fold:
  "\<forall>p \<in> set ps. hash_wf p \<Longrightarrow>
   try_fold (header_line u) hs (map (\<lambda>p. ''parent '' @ hash_hex p) ps) = Ok (hs\<lparr>h_parents := h_parents hs @ ps\<rparr>)"
  by (induction ps arbitrary: hs) (simp_all del: append_Cons append_Nil)

lemma headers_fold:
  assumes "commit_wf c"
  shows "try_fold (header_line u) no_headers (commit_headers c) =
     Ok \<lparr>h_tree = Some (commit_tree c), h_parents = commit_parents c, h_author = Some (commit_author c)\<rparr>"
  using assms unfolding commit_headers_def commit_wf_def
  by (simp add: try_fold_append parents_fold no_headers_def del: append_Cons append_Nil)

lemma header_texts:
  assumes "commit_wf c" "l \<in> set (commit_headers c)"
  shows "l \<noteq> []" "LF \<notin> set l" "utf8_valid l"
proof -
  have hex: "utf8_valid (hash_hex h)" for h by (rule utf8_valid_ascii) (simp add: hash_hex_eq hex_ascii)
  show "l \<noteq> []" "LF \<notin> set l" "utf8_valid l"
    using assms hex
    by (auto simp: commit_headers_def commit_wf_def author_ok_def hash_hex_notin is_ascii_def)
qed

lemma commit_parse_body:
  assumes "commit_wf c" "utf8_valid b"
  shows "parse_with_commit_key E ck (concat (map (\<lambda>l. l @ [LF]) (commit_headers c)) @ LF # b) =
     bind_res (case strip_prefix ENCRYPTED_MESSAGE_PREFIX (trim_end_matches LF b) of
                  Some hex_sealed \<Rightarrow> open_message E ck hex_sealed
                | None \<Rightarrow> Ok (trim_end_matches LF b)) (\<lambda>message. Ok (c\<lparr>commit_message := message\<rparr>))"
proof -
  let ?h = "concat (map (\<lambda>l. l @ [LF]) (commit_headers c))"
  have lines: "\<forall>l \<in> set (commit_headers c). l \<noteq> [] \<and> LF \<notin> set l"
    using header_texts [OF assms(1)] by blast
  have "utf8_valid ?h"
    using header_texts(3) [OF assms(1)] by (intro utf8_valid_concat) (auto simp: utf8_valid_append)
  then have valid: "utf8_valid (?h @ LF # b)" using assms(2) by (simp add: utf8_valid_append)
  have "split_inclusive LF (?h @ LF # b) = map (\<lambda>l. l @ [LF]) (commit_headers c) @ [LF] # split_inclusive LF b"
    using lines split_inclusive_lines [of "commit_headers c" "LF # b"] by simp
  then have hl: "header_loop (split_inclusive LF (?h @ LF # b)) 0 no_headers =
     Ok (\<lparr>h_tree = Some (commit_tree c), h_parents = commit_parents c, h_author = Some (commit_author c)\<rparr>,
         length ?h + 1)"
    using header_loop_lines [OF lines] headers_fold [OF assms(1)] by simp
  have "drop (length ?h + 1) (?h @ LF # b) = b" by simp
  moreover have "commit_of_headers \<lparr>h_tree = Some (commit_tree c), h_parents = commit_parents c,
       h_author = Some (commit_author c)\<rparr> = (\<lambda>m. Ok (c\<lparr>commit_message := m\<rparr>))"
    by (cases c) (simp add: commit_of_headers_def fun_eq_iff)
  ultimately show ?thesis
    unfolding parse_with_commit_key_def hl by (simp only: valid not_True_eq_False if_False bind_res_simps prod.case Let_def)
qed

lemma trim_message_valid: "utf8_valid m \<Longrightarrow> utf8_valid (trim_end_matches LF m)"
proof (induction m rule: rev_induct)
  case (snoc x m)
  show ?case
  proof (cases "x = LF")
    case True
    then show ?thesis using snoc utf8_valid_split [of m LF "[]"] by simp
  next
    case False
    then show ?thesis using snoc.prems by (simp add: trim_end_matches_id)
  qed
qed (simp add: trim_end_matches_def)

lemma commit_round_trip_plain:
  assumes "commit_wf c" "message_fits None c"
  shows "\<exists>b. serialize_with_commit_key E None c = Ok b \<and> parse_with_commit_key E ck b = Ok (commit_norm c)"
proof -
  let ?m = "trim_end_matches LF (commit_message c)"
  have "utf8_valid (?m @ [LF])"
    using assms(1) trim_message_valid by (auto simp: commit_wf_def utf8_valid_append)
  moreover have "strip_prefix ENCRYPTED_MESSAGE_PREFIX ?m = None"
    using assms(2) by (simp add: message_fits_def strip_prefix_def starts_with_def)
  ultimately show ?thesis
    using commit_parse_body [OF assms(1), of "?m @ [LF]" E ck]
    by (simp add: serialize_with_commit_key_def commit_norm_def)
qed

lemma commit_round_trip_sealed:
  assumes "commit_wf c" "message_fits (Some key) c" "commit_key_ok E (Some key)"
  shows "\<exists>b. serialize_with_commit_key E (Some key) c = Ok b \<and> parse_with_commit_key E (Some key) b = Ok (commit_norm c)"
proof -
  let ?m = "trim_end_matches LF (commit_message c)"
  have k: "length key = 32" "aead_ok E" "hkdf_ok E" using assms(3) by (simp_all add: commit_key_ok_def)
  obtain n where n: "derive_nonce E key ''commit-msg'' ?m = Ok n" "length n = 12"
    by (rule derive_nonce_Ok [OF k(3)])
  obtain s where s: "seal E key n COMMIT_MSG_AAD ?m = Ok s" "open_sealed E key COMMIT_MSG_AAD s = Ok ?m" "s \<noteq> []"
    using open_seal [OF k(2,1) n(2), of ?m COMMIT_MSG_AAD] assms(2) by (fastforce simp: message_fits_def)
  let ?b = "ENCRYPTED_MESSAGE_PREFIX @ hex_encode s"
  have "LF \<notin> set (hex_encode s)" by (rule hex_notin) simp
  moreover have "last (hex_encode s) \<in> set (hex_encode s)" using s(3) by simp
  ultimately have "last (hex_encode s) \<noteq> LF" by metis
  then have "last ?b \<noteq> LF" using s(3) by simp
  then have trim: "trim_end_matches LF (?b @ [LF]) = ?b"
    unfolding trim_end_matches_snoc by (intro trim_end_matches_id disjI2)
  have "utf8_valid ENCRYPTED_MESSAGE_PREFIX"
    by (simp add: ENCRYPTED_MESSAGE_PREFIX_def utf8_valid_ascii is_ascii_def)
  moreover have "utf8_valid (hex_encode s)" by (rule utf8_valid_ascii) (simp add: hex_ascii)
  ultimately have "utf8_valid (?b @ [LF])" by (simp add: utf8_valid_append)
  then have "parse_with_commit_key E (Some key) (concat (map (\<lambda>l. l @ [LF]) (commit_headers c)) @ LF # ?b @ [LF]) =
      Ok (commit_norm c)"
    using commit_parse_body [OF assms(1), of "?b @ [LF]" E "Some key"] trim s(2) assms(1) trim_message_valid
    by (auto simp: strip_prefix_append open_message_def hex_decode_encode commit_norm_def commit_wf_def)
  then show ?thesis using n(1) s(1) by (simp add: serialize_with_commit_key_def)
qed

lemma commit_round_trip:
  assumes "commit_wf c" "message_fits ck c" "commit_key_ok E ck"
  shows "\<exists>b. serialize_with_commit_key E ck c = Ok b \<and> parse_with_commit_key E ck b = Ok (commit_norm c)"
  using assms commit_round_trip_plain commit_round_trip_sealed by (cases ck) blast+

interpretation commit_codec: fallible_codec "serialize_with_commit_key E ck" "parse_with_commit_key E ck"
    "\<lambda>c. commit_wf c \<and> message_fits ck c \<and> commit_key_ok E ck \<and> commit_norm c = c"
  for E ck
  by unfold_locales (metis commit_round_trip)

section \<open>Properties\<close>

text \<open>
  C28. A commit is read back as written, plain or sealed, up to the line feeds at the
  end of its message: tree, parents in order, all three fields of the author, and the
  message.
\<close>

theorem commit_survives_storage:
  assumes "commit_wf c" "message_fits ck c" "commit_key_ok E ck"
  shows "\<exists>b. serialize_with_commit_key E ck c = Ok b \<and> parse_with_commit_key E ck b = Ok (commit_norm c)"
  using assms by (rule commit_round_trip)

definition sample_commit :: commit where
  "sample_commit = \<lparr>commit_tree = Hash (replicate 32 (CHR 0x01)), commit_parents = [Hash (replicate 32 (CHR 0x02))],
     commit_author = \<lparr>author_name = ''Ada L'', author_email = ''a@b.c'', author_timestamp = ''2024-01-01T00:00:00Z''\<rparr>,
     commit_message = ''first'' @ [LF, LF]\<rparr>"

lemma sample_commit_wf: "commit_wf sample_commit"
  by (simp add: commit_wf_def sample_commit_def hash_wf_def author_ok_def author_format_def trim_end_def
      ws1_def ws2_def ws3_def is_ascii_def utf8_valid_ascii)

theorem commit_survives_storage_witness:
  "\<exists>b. serialize_with_commit_key toy_ext None sample_commit = Ok b \<and>
       parse_with_commit_key toy_ext None b = Ok (sample_commit\<lparr>commit_message := ''first''\<rparr>)"
proof -
  have msg: "trim_end_matches LF (commit_message sample_commit) = ''first''"
    by (simp add: sample_commit_def trim_end_matches_def)
  then have "message_fits None sample_commit"
    by (simp add: message_fits_def starts_with_def ENCRYPTED_MESSAGE_PREFIX_def)
  from commit_survives_storage [OF sample_commit_wf this, of toy_ext] msg show ?thesis
    by (simp add: commit_key_ok_def commit_norm_def)
qed

text \<open>
  A plain message that begins with the marker of sealed ones is stored, and then no
  reader without a key can read the commit: it is taken for a sealed one.
\<close>

lemma marker_message_locks_commit:
  assumes "commit_wf c" "commit_message c = ENCRYPTED_MESSAGE_PREFIX @ ''x''"
  shows "\<exists>b. serialize_with_commit_key E None c = Ok b \<and>
     commit_parse E b = Err (Unauthorized ''commit message is encrypted but no commit_key supplied'')"
proof -
  let ?m = "ENCRYPTED_MESSAGE_PREFIX @ ''x''"
  have trim: "trim_end_matches LF ?m = ?m" "trim_end_matches LF (?m @ [LF]) = ?m"
    unfolding trim_end_matches_snoc by (rule trim_end_matches_id, simp)+
  have "utf8_valid (?m @ [LF])"
    by (simp add: ENCRYPTED_MESSAGE_PREFIX_def utf8_valid_ascii is_ascii_def)
  then have "commit_parse E (concat (map (\<lambda>l. l @ [LF]) (commit_headers c)) @ LF # ?m @ [LF]) =
      Err (Unauthorized ''commit message is encrypted but no commit_key supplied'')"
    unfolding commit_parse_def using commit_parse_body [OF assms(1), of "?m @ [LF]" E None] trim
    by (simp add: strip_prefix_append open_message_def)
  then show ?thesis using trim by (simp add: serialize_with_commit_key_def assms(2))
qed

end
