(* ===== verification/Omp_Refs.thy ===== *)
theory Omp_Refs
  imports Omp_Store Omp_Commit
begin

text \<open>
  \<open>crates/omp-core/src/refs.rs\<close>: \<open>HEAD\<close>, the current branch, reference expressions and the
  history of a commit. The functions take the store as a trait object; here it is the
  record of the three reading methods they call, of which \<open>disk_reader\<close> is the disk store.

  The history lists exactly the ancestors (\<open>log_lists_ancestors\<close>), depth first and not
  breadth first (\<open>log_parent_before_child\<close>); a branch name resolves to the commit that was
  last written to it (\<open>branch_resolves\<close>).
\<close>

section \<open>Model\<close>

record object_reader =
  get_obj :: "hash \<Rightarrow> (str \<times> bytes) option result"
  get_ref :: "str \<Rightarrow> hash option result"
  get_head :: "str result"

definition disk_reader :: "ext \<Rightarrow> disk \<Rightarrow> object_reader" where
  "disk_reader E s = \<lparr>get_obj = disk_get E s, get_ref = read_ref s, get_head = read_head s\<rparr>"

datatype head = HeadBranch str | HeadDetached hash

definition parse_head :: "str \<Rightarrow> head result" where
  "parse_head raw =
     (let s = trim raw in
      case strip_prefix ''ref: '' s of
        Some name \<Rightarrow> Ok (HeadBranch (trim name))
      | None \<Rightarrow> bind_res (map_err (\<lambda>_. Corrupt ''HEAD'') (hash_from_str s)) (\<lambda>h. Ok (HeadDetached h)))"

definition current_branch :: "object_reader \<Rightarrow> str option result" where
  "current_branch r =
     bind_res (get_head r) (\<lambda>raw.
     bind_res (parse_head raw) (\<lambda>hd.
     Ok (case hd of HeadBranch name \<Rightarrow> Some name | HeadDetached _ \<Rightarrow> None)))"

definition resolve_head :: "object_reader \<Rightarrow> hash option result" where
  "resolve_head r =
     bind_res (get_head r) (\<lambda>raw.
     bind_res (parse_head raw) (\<lambda>hd.
     case hd of HeadDetached h \<Rightarrow> Ok (Some h) | HeadBranch name \<Rightarrow> get_ref r name))"

definition split_ancestor :: "str \<Rightarrow> str \<times> nat" where
  "split_ancestor expr =
     (case split_once (CHR ''~'') expr of
        Some (base, tail) \<Rightarrow> (base, case parse_uint U64_MAX tail of Some n \<Rightarrow> n | None \<Rightarrow> 1)
      | None \<Rightarrow> (expr, 0))"

fun nth_ancestor :: "ext \<Rightarrow> object_reader \<Rightarrow> hash \<Rightarrow> nat \<Rightarrow> hash result" where
  "nth_ancestor E r cur 0 = Ok cur"
| "nth_ancestor E r cur (Suc n) =
     bind_res (get_obj r cur) (\<lambda>v.
     bind_res (ok_or (NotFound (''commit '' @ hash_hex cur)) v) (\<lambda>(ty, content).
     if ty \<noteq> type_as_str Commit then Err (Corrupt (''expected commit at '' @ hash_hex cur))
     else bind_res (commit_parse E content) (\<lambda>c.
       case commit_parents c of
         [] \<Rightarrow> Err (NotFound ''no further ancestors'')
       | p # _ \<Rightarrow> nth_ancestor E r p n)))"

definition resolve_ref :: "ext \<Rightarrow> object_reader \<Rightarrow> str \<Rightarrow> hash result" where
  "resolve_ref E r expr =
     (let (base, back) = split_ancestor expr in
      bind_res
        (if base = ''HEAD'' then
           bind_res (resolve_head r) (ok_or (NotFound ''HEAD has no commits''))
         else if starts_with ''refs/'' base then
           bind_res (get_ref r base) (ok_or (NotFound (''ref '' @ base)))
         else case hash_from_str base of
           Inr h \<Rightarrow> Ok h
         | Inl _ \<Rightarrow> bind_res (get_ref r (branch_ref base)) (ok_or (NotFound (''branch '' @ base))))
        (\<lambda>start. nth_ancestor E r start back))"

text \<open>
  The loop of \<open>log\<close>. The vector \<open>queue\<close> is popped at its end; the list here has that end
  first, so extending by the reversed parents is putting the parents in front.
\<close>

function log_loop ::
  "ext \<Rightarrow> object_reader \<Rightarrow> nat \<Rightarrow> hash list \<Rightarrow> hash list \<Rightarrow> (hash \<times> commit) list \<Rightarrow> (hash \<times> commit) list result"
where
  "log_loop E r max_n [] seen out = Ok out"
| "log_loop E r max_n (h # queue) seen out =
     (if length out \<ge> max_n then Ok out
      else if h \<in> set seen then log_loop E r max_n queue seen out
      else bind_res (get_obj r h) (\<lambda>v.
        case v of
          None \<Rightarrow> Ok out
        | Some (ty, content) \<Rightarrow>
            if ty \<noteq> type_as_str Commit then Ok out
            else bind_res (commit_parse E content) (\<lambda>c.
              log_loop E r max_n (commit_parents c @ queue) (h # seen) (out @ [(h, c)]))))"
  by pat_completeness auto
termination
  by (relation "measures [\<lambda>(E, r, m, q, seen, out). m - length out, \<lambda>(E, r, m, q, seen, out). length q]") auto

definition log :: "ext \<Rightarrow> object_reader \<Rightarrow> hash \<Rightarrow> nat \<Rightarrow> (hash \<times> commit) list result" where
  "log E r h max_n = log_loop E r max_n [h] [] []"

section \<open>Ancestors\<close>

definition commit_at :: "ext \<Rightarrow> object_reader \<Rightarrow> hash \<Rightarrow> commit option" where
  "commit_at E r h =
     (case get_obj r h of
        Inr (Some (ty, content)) \<Rightarrow>
          if ty = type_as_str Commit then (case commit_parse E content of Inr c \<Rightarrow> Some c | Inl _ \<Rightarrow> None)
          else None
      | _ \<Rightarrow> None)"

definition parent_rel :: "ext \<Rightarrow> object_reader \<Rightarrow> (hash \<times> hash) set" where
  "parent_rel E r = {(h, p). \<exists>c. commit_at E r h = Some c \<and> p \<in> set (commit_parents c)}"

definition ancestors :: "ext \<Rightarrow> object_reader \<Rightarrow> hash \<Rightarrow> hash set" where
  "ancestors E r h = (parent_rel E r)\<^sup>* `` {h}"

lemma commit_at_SomeE:
  assumes "commit_at E r h = Some c"
  obtains content where "get_obj r h = Ok (Some (type_as_str Commit, content))" "commit_parse E content = Ok c"
  using assms by (auto simp: commit_at_def split: sum.splits option.splits if_splits)

lemma log_loop_step:
  assumes "commit_at E r h = Some c" "length out < max_n" "h \<notin> set seen"
  shows "log_loop E r max_n (h # queue) seen out =
         log_loop E r max_n (commit_parents c @ queue) (h # seen) (out @ [(h, c)])"
  using assms(1)
proof (rule commit_at_SomeE)
  fix content
  assume "get_obj r h = Ok (Some (type_as_str Commit, content))" "commit_parse E content = Ok c"
  then show ?thesis using assms(2,3) by simp
qed

lemma ancestors_parents:
  "h \<in> ancestors E r a \<Longrightarrow> commit_at E r h = Some c \<Longrightarrow> set (commit_parents c) \<subseteq> ancestors E r a"
  by (auto simp: ancestors_def parent_rel_def intro: rtrancl_into_rtrancl)

text \<open>What the loop keeps, with the seen commits being those listed.\<close>

definition log_inv :: "ext \<Rightarrow> object_reader \<Rightarrow> hash \<Rightarrow> hash list \<Rightarrow> (hash \<times> commit) list \<Rightarrow> bool" where
  "log_inv E r a queue out \<longleftrightarrow>
     distinct (map fst out) \<and> set queue \<subseteq> ancestors E r a \<and>
     (\<forall>h c. (h, c) \<in> set out \<longrightarrow> h \<in> ancestors E r a \<and> commit_at E r h = Some c) \<and>
     (\<forall>h c. (h, c) \<in> set out \<longrightarrow> set (commit_parents c) \<subseteq> fst ` set out \<union> set queue) \<and>
     a \<in> fst ` set out \<union> set queue"

lemma log_invD:
  assumes "log_inv E r a queue out"
  shows "distinct (map fst out)" "set queue \<subseteq> ancestors E r a"
    "(h, c) \<in> set out \<Longrightarrow> h \<in> ancestors E r a" "(h, c) \<in> set out \<Longrightarrow> commit_at E r h = Some c"
    "(h, c) \<in> set out \<Longrightarrow> set (commit_parents c) \<subseteq> fst ` set out \<union> set queue"
    "a \<in> fst ` set out \<union> set queue"
  using assms unfolding log_inv_def by simp_all

lemma log_inv_skip:
  assumes "log_inv E r a (h # queue) out" "h \<in> fst ` set out"
  shows "log_inv E r a queue out"
proof -
  have "fst ` set out \<union> set (h # queue) = fst ` set out \<union> set queue" using assms(2) by auto
  then show ?thesis using assms(1) unfolding log_inv_def by simp
qed

lemma log_inv_step:
  assumes "log_inv E r a (h # queue) out" "h \<notin> fst ` set out" "commit_at E r h = Some c"
  shows "log_inv E r a (commit_parents c @ queue) (out @ [(h, c)])"
proof -
  have h: "h \<in> ancestors E r a" using log_invD(2) [OF assms(1)] by simp
  let ?K = "fst ` set (out @ [(h, c)]) \<union> set (commit_parents c @ queue)"
  have K: "fst ` set out \<union> set (h # queue) \<subseteq> ?K" "set (commit_parents c) \<subseteq> ?K" by auto
  show ?thesis
    unfolding log_inv_def
  proof (intro conjI allI impI)
    show "distinct (map fst (out @ [(h, c)]))" using log_invD(1) [OF assms(1)] assms(2) by auto
    show "set (commit_parents c @ queue) \<subseteq> ancestors E r a"
      using log_invD(2) [OF assms(1)] ancestors_parents [OF h assms(3)] by auto
    show "a \<in> ?K" using log_invD(6) [OF assms(1)] K(1) by blast
    fix k d assume "(k, d) \<in> set (out @ [(h, c)])"
    then consider "(k, d) \<in> set out" | "k = h" "d = c" by auto
    then show "k \<in> ancestors E r a" "commit_at E r k = Some d" "set (commit_parents d) \<subseteq> ?K"
      using log_invD(3-5) [OF assms(1), of k d] h assms(3) K by (cases; blast)+
  qed
qed

lemma log_inv_complete:
  assumes "log_inv E r a [] out"
  shows "fst ` set out = ancestors E r a"
proof
  show "fst ` set out \<subseteq> ancestors E r a" using assms by (auto simp: log_inv_def)
  have "h \<in> fst ` set out" if "(a, h) \<in> (parent_rel E r)\<^sup>*" for h
    using that
  proof induction
    case base
    then show ?case using assms by (simp add: log_inv_def)
  next
    case (step y z)
    then obtain c where c: "(y, c) \<in> set out" by auto
    then have "set (commit_parents c) \<subseteq> fst ` set out" "commit_at E r y = Some c"
      using log_invD(4,5) [OF assms c] by simp_all
    with step(2) show ?case by (auto simp: parent_rel_def)
  qed
  then show "ancestors E r a \<subseteq> fst ` set out" by (auto simp: ancestors_def)
qed

lemma log_loop_spec:
  assumes "\<forall>h \<in> ancestors E r a. commit_at E r h \<noteq> None"
    and "log_inv E r a queue out" "set seen = fst ` set out" "length out \<le> max_n"
  shows "\<exists>res queue'. log_loop E r max_n queue seen out = Ok res \<and> log_inv E r a queue' res \<and>
           length res \<le> max_n \<and> (length res < max_n \<longrightarrow> queue' = [])"
  using assms
proof (induction E r max_n queue seen out rule: log_loop.induct)
  case (2 E r max_n h queue seen out)
  consider (full) "length out \<ge> max_n" | (seen) "length out < max_n" "h \<in> set seen"
    | (new) "length out < max_n" "h \<notin> set seen" by linarith
  then show ?case
  proof cases
    case full
    then have "log_loop E r max_n (h # queue) seen out = Ok out" by simp
    then show ?thesis using 2(4,6) full by (intro exI [of _ out] exI [of _ "h # queue"]) simp_all
  next
    case seen
    have "h \<in> fst ` set out" using seen(2) 2(5) by simp
    note inv = log_inv_skip [OF 2(4) this]
    have "\<exists>res queue'. log_loop E r max_n queue seen out = Ok res \<and> log_inv E r a queue' res \<and>
        length res \<le> max_n \<and> (length res < max_n \<longrightarrow> queue' = [])"
      by (rule 2(1) [OF _ seen(2) 2(3) inv 2(5,6)]) (use seen(1) in simp)
    then show ?thesis using seen by simp
  next
    case new
    have "h \<in> ancestors E r a" using 2(4) by (simp add: log_inv_def)
    then obtain c where c: "commit_at E r h = Some c" using 2(3) by blast
    then obtain content where g: "get_obj r h = Ok (Some (type_as_str Commit, content))"
      "commit_parse E content = Ok c" by (rule commit_at_SomeE)
    have "h \<notin> fst ` set out" using new 2(5) by simp
    then have inv: "log_inv E r a (commit_parents c @ queue) (out @ [(h, c)])"
      using log_inv_step 2(4) c by blast
    have "\<exists>res queue'. log_loop E r max_n (commit_parents c @ queue) (h # seen) (out @ [(h, c)]) = Ok res \<and>
        log_inv E r a queue' res \<and> length res \<le> max_n \<and> (length res < max_n \<longrightarrow> queue' = [])"
      by (rule 2(2) [OF _ _ g(1) refl refl _ g(2) 2(3) inv]) (use new 2(5) in auto)
    then show ?thesis using log_loop_step [OF c new] by simp
  qed
qed auto

section \<open>Properties\<close>

text \<open>
  C32. When every ancestor of a commit can be read, the history of the commit is returned,
  lists no commit twice and at most the number asked for, each with its parsed contents,
  and lists all ancestors unless the limit was reached.
\<close>

theorem log_lists_ancestors:
  assumes "\<forall>h \<in> ancestors E r a. commit_at E r h \<noteq> None"
  shows "\<exists>out. log E r a max_n = Ok out \<and> distinct (map fst out) \<and> length out \<le> max_n \<and>
           (\<forall>(h, c) \<in> set out. h \<in> ancestors E r a \<and> commit_at E r h = Some c) \<and>
           (length out < max_n \<longrightarrow> fst ` set out = ancestors E r a)"
proof -
  have "log_inv E r a [a] []" by (simp add: log_inv_def ancestors_def)
  then obtain out q where "log E r a max_n = Ok out" "log_inv E r a q out" "length out \<le> max_n"
    "length out < max_n \<longrightarrow> q = []"
    using log_loop_spec [OF assms, of "[a]" "[]" "[]" max_n] by (auto simp: log_def)
  note out = this
  then have "length out < max_n \<longrightarrow> fst ` set out = ancestors E r a"
    using log_inv_complete by blast
  then show ?thesis using out(1,3) log_invD(1,3,4) [OF out(2)] by blast
qed

lemma log_loop_seen: "length out < max_n \<Longrightarrow> h \<in> set seen \<Longrightarrow> log_loop E r max_n (h # queue) seen out = log_loop E r max_n queue seen out"
  by simp

text \<open>A history of four commits, the two middle ones with a common parent.\<close>

definition plain_commit :: "hash list \<Rightarrow> commit" where
  "plain_commit ps = \<lparr>commit_tree = Hash (replicate 32 NUL), commit_parents = ps,
     commit_author = commit_author sample_commit, commit_message = ''m''\<rparr>"

definition hx :: "char \<Rightarrow> hash" where "hx c = Hash (replicate 32 c)"

definition diamond :: "char \<Rightarrow> commit option" where
  "diamond = [CHR ''m'' \<mapsto> plain_commit [hx (CHR ''a''), hx (CHR ''b'')], CHR ''a'' \<mapsto> plain_commit [hx (CHR ''c'')],
              CHR ''b'' \<mapsto> plain_commit [hx (CHR ''c'')], CHR ''c'' \<mapsto> plain_commit []]"

definition diamond_reader :: object_reader where
  "diamond_reader = \<lparr>
     get_obj = (\<lambda>h. Ok (case diamond (hd (hash_bytes h)) of
                         None \<Rightarrow> None
                       | Some c \<Rightarrow> (case serialize_with_commit_key toy_ext None c of
                                     Inr bs \<Rightarrow> Some (type_as_str Commit, bs) | Inl _ \<Rightarrow> None))),
     get_ref = (\<lambda>_. Ok None), get_head = Ok ''ref: refs/heads/main''\<rparr>"

lemma hx_wf [simp]: "hash_wf (hx c)"
  by (simp add: hx_def hash_wf_def)

lemma hx_eq [simp]: "hx c = hx d \<longleftrightarrow> c = d"
  by (auto simp: hx_def)

lemma plain_commit_parse:
  assumes "\<forall>p \<in> set ps. hash_wf p"
  shows "\<exists>bs. serialize_with_commit_key toy_ext None (plain_commit ps) = Ok bs \<and>
              commit_parse toy_ext bs = Ok (plain_commit ps)"
proof -
  have "commit_wf (plain_commit ps)"
    using assms sample_commit_wf
    by (simp add: commit_wf_def plain_commit_def hash_wf_def is_ascii_def utf8_valid_ascii)
  moreover have "message_fits None (plain_commit ps)" "commit_norm (plain_commit ps) = plain_commit ps"
    by (simp_all add: message_fits_def commit_norm_def plain_commit_def trim_end_matches_def
        ENCRYPTED_MESSAGE_PREFIX_def starts_with_def)
  ultimately show ?thesis
    using commit_round_trip [of "plain_commit ps" None toy_ext] by (simp add: commit_parse_def commit_key_ok_def)
qed

lemma diamond_commit_at:
  "diamond c = Some (plain_commit ps) \<Longrightarrow> \<forall>p \<in> set ps. hash_wf p \<Longrightarrow>
   commit_at toy_ext diamond_reader (hx c) = Some (plain_commit ps)"
  using plain_commit_parse [of ps]
  by (auto simp: commit_at_def diamond_reader_def hx_def)

lemma diamond_commits:
  "commit_at toy_ext diamond_reader (hx (CHR ''m'')) = Some (plain_commit [hx (CHR ''a''), hx (CHR ''b'')])"
  "commit_at toy_ext diamond_reader (hx (CHR ''a'')) = Some (plain_commit [hx (CHR ''c'')])"
  "commit_at toy_ext diamond_reader (hx (CHR ''b'')) = Some (plain_commit [hx (CHR ''c'')])"
  "commit_at toy_ext diamond_reader (hx (CHR ''c'')) = Some (plain_commit [])"
  by (rule diamond_commit_at; simp add: diamond_def)+

lemma plain_commit_parents [simp]: "commit_parents (plain_commit ps) = ps"
  by (simp add: plain_commit_def)

lemma diamond_ancestors:
  "ancestors toy_ext diamond_reader (hx (CHR ''m'')) \<subseteq> hx ` {CHR ''m'', CHR ''a'', CHR ''b'', CHR ''c''}"
proof -
  have "h \<in> hx ` {CHR ''m'', CHR ''a'', CHR ''b'', CHR ''c''}"
    if "(hx (CHR ''m''), h) \<in> (parent_rel toy_ext diamond_reader)\<^sup>*" for h
    using that by induction (auto simp: parent_rel_def diamond_commits)
  then show ?thesis by (auto simp: ancestors_def)
qed

theorem log_lists_ancestors_witness:
  "\<exists>out. log toy_ext diamond_reader (hx (CHR ''m'')) 10 = Ok out \<and> distinct (map fst out) \<and> length out \<le> 10"
proof -
  have "\<forall>h \<in> ancestors toy_ext diamond_reader (hx (CHR ''m'')). commit_at toy_ext diamond_reader h \<noteq> None"
    using diamond_ancestors by (auto simp: diamond_commits)
  from log_lists_ancestors [OF this, of 10] show ?thesis by blast
qed

text \<open>
  The history is not in the documented order: on a merge whose two sides have a common
  parent, depth-first order lists that parent before the second side, which is its child.
\<close>

lemma log_parent_before_child:
  assumes "distinct [m, a, b, c]" "4 \<le> max_n"
    and "commit_at E r m = Some cm" "commit_parents cm = [a, b]"
    and "commit_at E r a = Some ca" "commit_parents ca = [c]"
    and "commit_at E r b = Some cb" "commit_parents cb = [c]"
    and "commit_at E r c = Some cc" "commit_parents cc = []"
  shows "log E r m max_n = Ok [(m, cm), (a, ca), (c, cc), (b, cb)]"
proof -
  have "log E r m max_n = log_loop E r max_n [a, b] [m] [(m, cm)]"
    using assms(1,2,4) by (simp add: log_def log_loop_step [OF assms(3)] del: log_loop.simps(2))
  also have "\<dots> = log_loop E r max_n [c, b] [a, m] [(m, cm), (a, ca)]"
    using assms(1,2,6) by (subst log_loop_step [OF assms(5)]) auto
  also have "\<dots> = log_loop E r max_n [b] [c, a, m] [(m, cm), (a, ca), (c, cc)]"
    using assms(1,2,10) by (subst log_loop_step [OF assms(9)]) auto
  also have "\<dots> = log_loop E r max_n [c] [b, c, a, m] [(m, cm), (a, ca), (c, cc), (b, cb)]"
    using assms(1,2,8) by (subst log_loop_step [OF assms(7)]) auto
  also have "\<dots> = Ok [(m, cm), (a, ca), (c, cc), (b, cb)]" by simp
  finally show ?thesis .
qed

lemma resolve_hash:
  assumes "hash_wf k"
  shows "resolve_ref E r (hash_hex k) = Ok k"
proof -
  have "CHR ''~'' \<notin> set (hash_hex k)" by (rule hash_hex_notin) simp
  then have "split_ancestor (hash_hex k) = (hash_hex k, 0)" by (simp add: split_ancestor_def split_once_None_iff [THEN iffD2])
  moreover have "CHR ''r'' \<notin> set (hash_hex k)" "hash_hex k \<noteq> ''HEAD''"
    using length_hash_hex [OF assms] hash_hex_notin [of "CHR ''r''" k] by auto
  moreover from this have "\<not> starts_with ''refs/'' (hash_hex k)" by (auto simp: starts_with_iff)
  ultimately show ?thesis using assms by (simp add: resolve_ref_def hash_from_str_hex)
qed

text \<open>
  A branch name that is neither \<open>HEAD\<close>, nor a hash, nor an ancestor expression
  resolves, once the branch was moved to a commit, to that commit; with \<open>~n\<close> after it, to
  its \<open>n\<close>-th first-parent ancestor. A name that is a hash is never looked up as a branch.
\<close>

lemma branch_resolves:
  assumes "disk_ok E s" "branch_name b" "hash_wf h" "write_ref (branch_ref b) h s = (Ok (), s')"
    and "b \<noteq> ''HEAD''" "CHR ''~'' \<notin> set b" "\<not> starts_with ''refs/'' b" "hash_from_str b = Err e"
    and "n \<le> U64_MAX" "hash_wf k"
  shows "resolve_ref E (disk_reader E s') b = Ok h \<and>
         resolve_ref E (disk_reader E s') (b @ ''~'' @ show_nat n) = nth_ancestor E (disk_reader E s') h n \<and>
         resolve_ref E (disk_reader E s') (hash_hex k) = Ok k"
proof -
  have "read_ref s' (branch_ref b) = Ok (Some h)" by (rule branch_written_read [OF assms(1-4)])
  then have ref: "get_ref (disk_reader E s') (branch_ref b) = Ok (Some h)" by (simp add: disk_reader_def)
  have "split_once (CHR ''~'') b = None" using assms(6) by (simp add: split_once_None_iff)
  then have "split_ancestor b = (b, 0)" by (simp add: split_ancestor_def)
  moreover have "split_ancestor (b @ CHR ''~'' # show_nat n) = (b, n)"
    using assms(6,9) by (simp add: split_ancestor_def split_once_append parse_uint_show_nat)
  ultimately show ?thesis
    using ref assms(5,7,8) resolve_hash [OF assms(10)] by (simp add: resolve_ref_def)
qed

text \<open>
  Whatever follows a \<open>~\<close> and is not a number counts as one step back, a second \<open>~\<close>
  included, so \<open>HEAD~1~1\<close> is the parent of \<open>HEAD\<close> and not its grandparent.
\<close>

lemma ancestor_suffix_lax:
  "split_ancestor ''HEAD~1~1'' = (''HEAD'', 1) \<and> split_ancestor ''HEAD~x'' = (''HEAD'', 1) \<and>
   split_ancestor ''HEAD~'' = (''HEAD'', 1) \<and> split_ancestor ''HEAD~+2'' = (''HEAD'', 2)"
  by (simp add: split_ancestor_def parse_uint_def digit_val_def U64_MAX_def)

end
