(* ===== verification/Ordered_Map.thy ===== *)
theory Ordered_Map
  imports Prelude
begin

text \<open>
  \<open>std::collections::BTreeMap\<close>. The sources keep directory entries, manifest fields,
  schema fields and cursors in it because its iteration order, the order of the keys,
  fixes the bytes they hash. The interface is the locale \<open>ordered_map\<close>: what \<open>get\<close>
  returns after each operation, and that a map is determined by its lookups
  (canonicity). The model is an association list with strictly increasing keys; it
  interprets the locale below.
\<close>

section \<open>The interface\<close>

locale ordered_map =
  fixes empty :: 'm
    and get :: "'m \<Rightarrow> 'k \<Rightarrow> 'v option"
    and ins :: "'k \<Rightarrow> 'v \<Rightarrow> 'm \<Rightarrow> 'm"
    and rem :: "'k \<Rightarrow> 'm \<Rightarrow> 'm"
    and inv :: "'m \<Rightarrow> bool"
  assumes inv_empty: "inv empty"
    and inv_ins: "inv m \<Longrightarrow> inv (ins k v m)"
    and inv_rem: "inv m \<Longrightarrow> inv (rem k m)"
    and get_empty: "get empty k = None"
    and get_ins: "inv m \<Longrightarrow> get (ins k v m) = (get m)(k \<mapsto> v)"
    and get_rem: "inv m \<Longrightarrow> get (rem k m) = (get m)(k := None)"
    and canonical: "inv m \<Longrightarrow> inv m' \<Longrightarrow> get m = get m' \<Longrightarrow> m = m'"
begin

lemma ins_overwrite: "inv m \<Longrightarrow> ins k v (ins k w m) = ins k v m"
  by (rule canonical) (simp_all add: inv_ins get_ins)

lemma ins_commute: "inv m \<Longrightarrow> k \<noteq> l \<Longrightarrow> ins k v (ins l w m) = ins l w (ins k v m)"
  by (rule canonical) (simp_all add: inv_ins get_ins fun_upd_twist)

lemma rem_ins: "inv m \<Longrightarrow> rem k (ins k v m) = rem k m"
  by (rule canonical) (simp_all add: inv_ins inv_rem get_ins get_rem)

lemma ins_rem: "inv m \<Longrightarrow> ins k v (rem k m) = ins k v m"
  by (rule canonical) (simp_all add: inv_ins inv_rem get_ins get_rem)

lemma rem_absent: "inv m \<Longrightarrow> get m k = None \<Longrightarrow> rem k m = m"
  by (rule canonical) (simp_all add: inv_rem get_rem fun_upd_idem)

lemma ins_same: "inv m \<Longrightarrow> get m k = Some v \<Longrightarrow> ins k v m = m"
  by (rule canonical) (simp_all add: inv_ins get_ins fun_upd_idem)

lemma rem_ins_other: "inv m \<Longrightarrow> k \<noteq> l \<Longrightarrow> rem k (ins l w m) = ins l w (rem k m)"
  by (rule canonical) (simp_all add: inv_ins inv_rem get_ins get_rem fun_upd_twist)

text \<open>Inserting a list of entries one by one, the way \<open>collect\<close> and the parsers do.\<close>

lemma inv_fold_ins: "inv m \<Longrightarrow> inv (foldl (\<lambda>m (k, v). ins k v m) m kvs)"
  by (induction kvs arbitrary: m) (auto simp: inv_ins)

lemma get_fold_ins:
  "inv m \<Longrightarrow> get (foldl (\<lambda>m (k, v). ins k v m) m kvs) = get m ++ map_of (rev kvs)"
  by (induction kvs arbitrary: m) (auto simp: inv_ins get_ins map_add_upd_left fun_eq_iff
      map_add_def split: option.splits)

text \<open>Two insertion orders of entries with distinct keys give the same map.\<close>

lemma fold_ins_permute:
  assumes "inv m" "distinct (map fst kvs)" "distinct (map fst kvs')" "set kvs = set kvs'"
  shows "foldl (\<lambda>m (k, v). ins k v m) m kvs = foldl (\<lambda>m (k, v). ins k v m) m kvs'"
proof (rule canonical)
  have "map_of (rev kvs) = map_of (rev kvs')"
    using assms by (intro map_of_eqI) (auto simp: rev_map [symmetric] image_iff
        map_of_eq_Some_iff)
  then show "get (foldl (\<lambda>m (k, v). ins k v m) m kvs) = get (foldl (\<lambda>m (k, v). ins k v m) m kvs')"
    using assms(1) by (simp add: get_fold_ins)
qed (simp_all add: inv_fold_ins assms)

end

section \<open>The implementation\<close>

type_synonym ('k, 'v) btree = "('k \<times> 'v) list"

fun bt_insert :: "'k::linorder \<Rightarrow> 'v \<Rightarrow> ('k, 'v) btree \<Rightarrow> ('k, 'v) btree" where
  "bt_insert k v [] = [(k, v)]"
| "bt_insert k v ((l, w) # m) =
     (if k < l then (k, v) # (l, w) # m
      else if k = l then (k, v) # m
      else (l, w) # bt_insert k v m)"

fun bt_remove :: "'k::linorder \<Rightarrow> ('k, 'v) btree \<Rightarrow> ('k, 'v) btree" where
  "bt_remove k [] = []"
| "bt_remove k ((l, w) # m) = (if k = l then m else (l, w) # bt_remove k m)"

definition bt_get :: "('k, 'v) btree \<Rightarrow> 'k \<Rightarrow> 'v option" where
  "bt_get m k = map_of m k"

definition bt_inv :: "('k::linorder, 'v) btree \<Rightarrow> bool" where
  "bt_inv m \<longleftrightarrow> sorted_wrt (<) (map fst m)"

definition bt_of_list :: "('k::linorder \<times> 'v) list \<Rightarrow> ('k, 'v) btree" where
  "bt_of_list kvs = foldl (\<lambda>m (k, v). bt_insert k v m) [] kvs"

lemma bt_keys_insert: "fst ` set (bt_insert k v m) = insert k (fst ` set m)"
  by (induction k v m rule: bt_insert.induct) auto

lemma bt_set_insert: "set (bt_insert k v m) \<subseteq> insert (k, v) (set m)"
  by (induction k v m rule: bt_insert.induct) auto

lemma bt_set_remove: "set (bt_remove k m) \<subseteq> set m"
  by (induction k m rule: bt_remove.induct) auto

lemma bt_inv_Nil [simp]: "bt_inv []"
  by (simp add: bt_inv_def)

lemma bt_inv_Cons [simp]:
  "bt_inv (kv # m) \<longleftrightarrow> (\<forall>l \<in> fst ` set m. fst kv < l) \<and> bt_inv m"
  by (auto simp: bt_inv_def)

lemma bt_inv_insert [simp]: "bt_inv m \<Longrightarrow> bt_inv (bt_insert k v m)"
  by (induction k v m rule: bt_insert.induct)
    (fastforce simp: bt_keys_insert simp del: image_iff)+

lemma bt_inv_remove [simp]: "bt_inv m \<Longrightarrow> bt_inv (bt_remove k m)"
  by (induction k m rule: bt_remove.induct) (use bt_set_remove in fastforce)+

lemma bt_get_notin: "\<forall>l \<in> fst ` set m. k < l \<Longrightarrow> map_of m (k::'k::linorder) = None"
  by (auto simp: map_of_eq_None_iff)

lemma bt_get_insert [simp]: "bt_get (bt_insert k v m) = (bt_get m)(k \<mapsto> v)"
  by (induction k v m rule: bt_insert.induct) (auto simp: bt_get_def fun_eq_iff)

lemma bt_get_remove: "bt_inv m \<Longrightarrow> bt_get (bt_remove k m) = (bt_get m)(k := None)"
  by (induction k m rule: bt_remove.induct)
    (auto simp: bt_get_def fun_eq_iff bt_get_notin)

lemma bt_get_Nil [simp]: "bt_get [] k = None"
  by (simp add: bt_get_def)

lemma bt_inv_distinct: "bt_inv m \<Longrightarrow> distinct (map fst m)"
  by (auto simp: bt_inv_def dest: strict_sorted_imp_sorted simp flip: strict_sorted_iff)
    (simp add: strict_sorted_iff)

lemma bt_get_iff: "bt_inv m \<Longrightarrow> bt_get m k = Some v \<longleftrightarrow> (k, v) \<in> set m"
  by (simp add: bt_get_def bt_inv_distinct map_of_eq_Some_iff)

lemma bt_canonical:
  assumes "bt_inv m" "bt_inv m'" "bt_get m = bt_get m'"
  shows "m = m'"
proof (rule map_sorted_distinct_set_unique)
  show "inj_on fst (set m \<union> set m')"
    using assms by (intro inj_onI) (metis Un_iff bt_get_iff option.inject prod.collapse)
  show "set m = set m'" using assms by (auto simp flip: bt_get_iff)
qed (use assms in \<open>simp_all add: bt_inv_def strict_sorted_iff\<close>)

interpretation bt: ordered_map "[]" bt_get bt_insert bt_remove bt_inv
  by unfold_locales (simp_all add: bt_get_remove bt_canonical fun_eq_iff)

lemma bt_inv_of_list [simp]: "bt_inv (bt_of_list kvs)"
  by (simp add: bt_of_list_def bt.inv_fold_ins)

lemma bt_get_of_list: "bt_get (bt_of_list kvs) = map_of (rev kvs)"
  by (simp add: bt_of_list_def bt.get_fold_ins map_add_def fun_eq_iff split: option.splits)

lemma map_of_rev_distinct: "distinct (map fst m) \<Longrightarrow> map_of (rev m) = map_of m"
  by (intro map_of_eqI) (auto simp: map_of_eq_Some_iff simp flip: rev_map)

text \<open>Rebuilding a map from its own entries gives the map back.\<close>

lemma bt_of_list_id: "bt_inv m \<Longrightarrow> bt_of_list m = m"
  by (rule bt_canonical)
    (simp_all add: bt_get_of_list fun_eq_iff bt_get_def bt_inv_distinct map_of_rev_distinct)

lemma bt_of_list_perm:
  "distinct (map fst kvs) \<Longrightarrow> distinct (map fst kvs') \<Longrightarrow> set kvs = set kvs'
     \<Longrightarrow> bt_of_list kvs = bt_of_list kvs'"
  unfolding bt_of_list_def by (rule bt.fold_ins_permute) simp_all

text \<open>Appending an entry with the largest key is inserting it.\<close>

lemma bt_insert_snoc: "\<forall>l \<in> fst ` set m. l < k \<Longrightarrow> bt_insert k v m = m @ [(k, v)]"
  by (induction k v m rule: bt_insert.induct) auto

end
