(* ===== verification/Omp_Toml.thy ===== *)
theory Omp_Toml
  imports Omp_Error External Text "HOL-Library.Multiset"
begin

text \<open>
  \<open>crates/omp-core/src/toml_canonical.rs\<close>: the canonical TOML writer, the form in which
  manifests, envelopes and shares are hashed. The parser is the crate's; the writer is
  the program's own.

  The text depends on the tables only up to the order of their keys
  (\<open>canonical_order_irrelevant\<close>) and strings are written so that a TOML reader gets them
  back (\<open>quote_string_round_trip\<close>). Table headers are written without quoting the keys,
  which makes two different documents share one text (\<open>header_keys_ambiguous\<close>).
\<close>

section \<open>Model\<close>

abbreviation DQ :: char where "DQ \<equiv> CHR 0x22"
abbreviation BSL :: char where "BSL \<equiv> CHR 0x5C"

definition upper_hex_digit :: "nat \<Rightarrow> char" where
  "upper_hex_digit n = (if n < 10 then char_of (48 + n) else char_of (55 + n))"

definition quote_char :: "char \<Rightarrow> str" where
  "quote_char c =
     (if c = DQ then [BSL, DQ]
      else if c = BSL then [BSL, BSL]
      else if c = LF then [BSL, CHR ''n'']
      else if c = CR then [BSL, CHR ''r'']
      else if c = TAB then [BSL, CHR ''t'']
      else if c = CHR 0x08 then [BSL, CHR ''b'']
      else if c = CHR 0x0C then [BSL, CHR ''f'']
      else if byte_val c < 0x20 then
        [BSL, CHR ''u'', CHR ''0'', CHR ''0'', upper_hex_digit (byte_val c div 16), upper_hex_digit (byte_val c mod 16)]
      else [c])"

definition quote_string :: "str \<Rightarrow> str" where
  "quote_string s = DQ # concat (map quote_char s) @ [DQ]"

definition is_ascii_alphanumeric :: "char \<Rightarrow> bool" where
  "is_ascii_alphanumeric c \<longleftrightarrow>
     48 \<le> byte_val c \<and> byte_val c \<le> 57 \<or> 65 \<le> byte_val c \<and> byte_val c \<le> 90 \<or>
     97 \<le> byte_val c \<and> byte_val c \<le> 122"

definition quote_key :: "str \<Rightarrow> str" where
  "quote_key k =
     (if k \<noteq> [] \<and> list_all (\<lambda>b. is_ascii_alphanumeric b \<or> b = CHR ''_'' \<or> b = CHR ''-'') k
      then k else quote_string k)"

definition f64_is_zero :: "f64 \<Rightarrow> bool" where
  "f64_is_zero x \<longleftrightarrow> x AND 0x7FFFFFFFFFFFFFFF = 0"

definition format_float :: "ext \<Rightarrow> f64 \<Rightarrow> str" where
  "format_float E x =
     (if f64_is_zero x then ''0.0''
      else let s = show_f64 E x in
        if CHR ''.'' \<in> set s \<or> CHR ''e'' \<in> set s \<or> CHR ''E'' \<in> set s \<or>
           contains_str ''inf'' s \<or> contains_str ''NaN'' s
        then s else s @ ''.0'')"

function emit_value :: "ext \<Rightarrow> tvalue \<Rightarrow> str result" where
  "emit_value E (TString s) = Ok (quote_string s)"
| "emit_value E (TInteger i) = Ok (show_int i)"
| "emit_value E (TFloat x) =
     (if \<not> is_finite x then Err (SchemaValidation ''non-finite float rejected by canonical TOML'')
      else Ok (format_float E x))"
| "emit_value E (TBoolean b) = Ok (if b then ''true'' else ''false'')"
| "emit_value E (TDatetime dt) = Ok dt"
| "emit_value E (TArray arr) =
     bind_res (try_map (\<lambda>v. emit_value E v) arr) (\<lambda>ss. Ok (''['' @ str_join '', '' ss @ '']''))"
| "emit_value E (TInlineTable tbl) =
     bind_res (try_map (\<lambda>kv. bind_res (emit_value E (snd kv)) (\<lambda>s. Ok (quote_key (fst kv) @ '' = '' @ s)))
                (sort_key fst tbl)) (\<lambda>ss. Ok (CHR 0x7B # str_join '', '' ss @ [CHR 0x7D]))"
  by pat_completeness auto

lemma size_in_list: "x \<in> set xs \<Longrightarrow> n \<le> f x \<Longrightarrow> n \<le> size_list f xs"
  by (rule size_list_estimation')

termination emit_value
proof (relation "measure (size \<circ> snd)")
  fix E :: ext and arr :: "tvalue list" and v
  assume "v \<in> set arr"
  then show "((E, v), E, TArray arr) \<in> measure (size \<circ> snd)"
    using size_in_list [of v arr "size v" size] by (simp add: less_Suc_eq_le)
next
  fix E :: ext and tbl :: "(str \<times> tvalue) list" and kv
  assume "kv \<in> set (sort_key fst tbl)"
  then have "size (snd kv) \<le> size_list (size_prod (\<lambda>_. 0) size) tbl"
    by (intro size_in_list [of kv]) (simp_all add: size_prod_simp split_beta)
  then show "((E, snd kv), E, TInlineTable tbl) \<in> measure (size \<circ> snd)"
    by (simp add: less_Suc_eq_le)
qed simp

definition emit_pair :: "ext \<Rightarrow> str \<Rightarrow> titem \<Rightarrow> str result" where
  "emit_pair E key item =
     (case item of
        IValue v \<Rightarrow> bind_res (emit_value E v) (\<lambda>s. Ok (quote_key key @ '' = '' @ s @ [LF]))
      | _ \<Rightarrow> Ok (quote_key key @ '' = ''))"

definition is_inline :: "titem \<Rightarrow> bool" where
  "is_inline item \<longleftrightarrow> (case item of IValue _ \<Rightarrow> True | _ \<Rightarrow> False)"

definition is_subtable :: "titem \<Rightarrow> bool" where
  "is_subtable item \<longleftrightarrow> (case item of ITable _ \<Rightarrow> True | IArrayOfTables _ \<Rightarrow> True | _ \<Rightarrow> False)"

definition has_any_inline :: "toml_table \<Rightarrow> bool" where
  "has_any_inline tbl \<longleftrightarrow> list_ex (\<lambda>(k, v). is_inline v) tbl"

definition has_subtables :: "toml_table \<Rightarrow> bool" where
  "has_subtables tbl \<longleftrightarrow> list_ex (\<lambda>(k, v). is_subtable v) tbl"

definition join_path :: "str list \<Rightarrow> str \<Rightarrow> str" where
  "join_path base tail = str_join ''.'' (base @ [tail])"

text \<open>The first pass of \<open>emit_table\<close> and of \<open>emit_table_body\<close> over the sorted keys.\<close>

fun emit_pairs :: "ext \<Rightarrow> (str \<times> titem) list \<Rightarrow> str result" where
  "emit_pairs E [] = Ok []"
| "emit_pairs E ((k, item) # kis) =
     bind_res (if is_inline item then emit_pair E k item else Ok []) (\<lambda>s.
     bind_res (emit_pairs E kis) (\<lambda>rest. Ok (s @ rest)))"

text \<open>
  \<open>emit_table\<close>, \<open>emit_table_body\<close>, their second passes over the sorted keys and the loop
  over an array of tables. The flag \<open>sep\<close> stands for \<open>emitted_header || !first_subtable\<close>.
\<close>

function emit_table :: "ext \<Rightarrow> toml_table \<Rightarrow> str list \<Rightarrow> str result"
and emit_subs :: "ext \<Rightarrow> (str \<times> titem) list \<Rightarrow> str list \<Rightarrow> bool \<Rightarrow> str result"
and emit_array :: "ext \<Rightarrow> toml_table list \<Rightarrow> str list \<Rightarrow> str \<Rightarrow> bool \<Rightarrow> str result"
and emit_table_body :: "ext \<Rightarrow> toml_table \<Rightarrow> str list \<Rightarrow> str result"
where
  "emit_table E tbl path =
     (let header = (path \<noteq> [] \<and> (has_any_inline tbl \<or> \<not> has_subtables tbl)) in
      bind_res (emit_pairs E (sort_key fst tbl)) (\<lambda>pairs.
      bind_res (emit_subs E (sort_key fst tbl) path header) (\<lambda>subs.
      Ok ((if header then ''['' @ str_join ''.'' path @ '']'' @ [LF] else []) @ pairs @ subs))))"
| "emit_subs E [] path sep = Ok []"
| "emit_subs E ((k, item) # kis) path sep =
     (case item of
        ITable sub \<Rightarrow>
          bind_res (emit_table E sub (path @ [k])) (\<lambda>s.
          bind_res (emit_subs E kis path True) (\<lambda>rest.
          Ok ((if sep then [LF] else []) @ s @ rest)))
      | IArrayOfTables arr \<Rightarrow>
          bind_res (emit_array E arr path k sep) (\<lambda>s.
          bind_res (emit_subs E kis path (sep \<or> arr \<noteq> [])) (\<lambda>rest. Ok (s @ rest)))
      | _ \<Rightarrow> emit_subs E kis path sep)"
| "emit_array E [] path k sep = Ok []"
| "emit_array E (t # ts) path k sep =
     bind_res (emit_table_body E t (path @ [k])) (\<lambda>s.
     bind_res (emit_array E ts path k True) (\<lambda>rest.
     Ok ((if sep then [LF] else []) @ ''[['' @ join_path path k @ '']]'' @ [LF] @ s @ rest)))"
| "emit_table_body E tbl path =
     bind_res (emit_pairs E (sort_key fst tbl)) (\<lambda>pairs.
     bind_res (emit_subs E (sort_key fst tbl) path True) (\<lambda>subs. Ok (pairs @ subs)))"
  by pat_completeness auto

abbreviation entry_size :: "str \<times> titem \<Rightarrow> nat" where
  "entry_size \<equiv> size_prod (\<lambda>_. 0) size"

lemma size_list_mset: "mset xs = mset ys \<Longrightarrow> size_list f xs = size_list f ys"
proof -
  have eq: "size_list f xs = sum_list (map f xs) + length xs" for f and xs :: "'a list"
    by (induction xs) simp_all
  assume "mset xs = mset ys"
  then have "sum_list (map f xs) = sum_list (map f ys)" "length xs = length ys"
    by (metis mset_map sum_mset_sum_list, metis size_mset)
  then show ?thesis by (simp add: eq)
qed

lemma size_sort_key: "size_list f (sort_key g xs) = size_list f xs"
  by (rule size_list_mset) simp

fun emit_measure where
  "emit_measure (Inl (Inl (E, tbl, path))) = 2 * size_list entry_size tbl + 1"
| "emit_measure (Inl (Inr (E, kis, path, sep))) = 2 * size_list entry_size kis"
| "emit_measure (Inr (Inl (E, arr, path, k, sep))) = 2 * size_list (size_list entry_size) arr"
| "emit_measure (Inr (Inr (E, tbl, path))) = 2 * size_list entry_size tbl + 1"

termination emit_table
  by (relation "measure emit_measure") (auto simp: size_sort_key)

definition canonicalize :: "ext \<Rightarrow> str \<Rightarrow> str result" where
  "canonicalize E input =
     bind_res (map_err (\<lambda>e. SchemaValidation (''invalid TOML: '' @ e)) (toml_parse E input)) (\<lambda>doc.
     emit_table E doc [])"

definition is_canonical :: "ext \<Rightarrow> str \<Rightarrow> bool result" where
  "is_canonical E s = bind_res (canonicalize E s) (\<lambda>t. Ok (t = s))"

section \<open>Strings can be read back\<close>

text \<open>
  What the TOML specification makes of the inside of a basic string, for the escapes the
  writer uses; a raw line feed or quote is not allowed.
\<close>

definition upper_hex_val :: "char \<Rightarrow> nat option" where
  "upper_hex_val c =
     (let v = byte_val c in
      if 48 \<le> v \<and> v \<le> 57 then Some (v - 48)
      else if 65 \<le> v \<and> v \<le> 70 then Some (v - 55) else None)"

definition unescape_simple :: "char \<Rightarrow> char option" where
  "unescape_simple c = map_of [(DQ, DQ), (BSL, BSL), (CHR ''n'', LF), (CHR ''r'', CR),
     (CHR ''t'', TAB), (CHR ''b'', CHR 0x08), (CHR ''f'', CHR 0x0C)] c"

fun read_basic :: "str \<Rightarrow> (str \<times> str) option" where
  "read_basic [] = None"
| "read_basic (c # r) =
     (if c = DQ then Some ([], r)
      else if c = BSL then
        (case r of
           [] \<Rightarrow> None
         | e # r1 \<Rightarrow>
           (case unescape_simple e of
              Some x \<Rightarrow> map_option (\<lambda>(s, t). (x # s, t)) (read_basic r1)
            | None \<Rightarrow>
              (case r1 of
                 z1 # z2 # h # l # r2 \<Rightarrow>
                   (case (upper_hex_val h, upper_hex_val l) of
                      (Some a, Some b) \<Rightarrow>
                        if e = CHR ''u'' \<and> z1 = CHR ''0'' \<and> z2 = CHR ''0''
                        then map_option (\<lambda>(s, t). (char_of (16 * a + b) # s, t)) (read_basic r2) else None
                    | _ \<Rightarrow> None)
               | _ \<Rightarrow> None)))
      else if byte_val c < 0x20 then None
      else map_option (\<lambda>(s, t). (c # s, t)) (read_basic r))"

lemma upper_hex_val_digit: "d < 16 \<Longrightarrow> upper_hex_val (upper_hex_digit d) = Some d"
  by (simp add: upper_hex_val_def upper_hex_digit_def Let_def)

lemma read_basic_quote_char:
  "read_basic (quote_char c @ r) = map_option (\<lambda>(s, t). (c # s, t)) (read_basic r)"
  by (auto simp: quote_char_def unescape_simple_def upper_hex_val_digit)

lemma read_basic_quote:
  "read_basic (concat (map quote_char s) @ DQ # r) = Some (s, r)"
  by (induction s) (simp_all add: read_basic_quote_char)

lemma quote_char_printable: "x \<in> set (quote_char c) \<Longrightarrow> \<not> byte_val x < 0x20"
  by (auto simp: quote_char_def upper_hex_digit_def split: if_splits)

section \<open>The order of keys does not matter\<close>

text \<open>A table with the keys of every table in it put in order.\<close>

function norm_value :: "tvalue \<Rightarrow> tvalue" where
  "norm_value (TArray arr) = TArray (map (\<lambda>v. norm_value v) arr)"
| "norm_value (TInlineTable tbl) = TInlineTable (map (\<lambda>kv. (fst kv, norm_value (snd kv))) (sort_key fst tbl))"
| "norm_value (TString s) = TString s"
| "norm_value (TInteger i) = TInteger i"
| "norm_value (TFloat x) = TFloat x"
| "norm_value (TBoolean b) = TBoolean b"
| "norm_value (TDatetime d) = TDatetime d"
  by pat_completeness auto

lemma size_snd_in_list: "kv \<in> set tbl \<Longrightarrow> size (snd kv) \<le> size_list (size_prod (\<lambda>_. 0) size) tbl"
  by (intro size_in_list [of kv]) (simp_all add: size_prod_simp split_beta)

termination norm_value
  by (relation "measure size")
    (auto simp: less_Suc_eq_le intro: size_in_list [OF _ order_refl] size_snd_in_list simp del: size_list_estimation)

function norm_item :: "titem \<Rightarrow> titem" where
  "norm_item INone = INone"
| "norm_item (IValue v) = IValue (norm_value v)"
| "norm_item (ITable tbl) = ITable (map (\<lambda>ki. (fst ki, norm_item (snd ki))) (sort_key fst tbl))"
| "norm_item (IArrayOfTables ts) =
     IArrayOfTables (map (\<lambda>t. map (\<lambda>ki. (fst ki, norm_item (snd ki))) (sort_key fst t)) ts)"
  by pat_completeness auto

termination norm_item
proof (relation "measure size")
  fix ts :: "toml_table list" and t ki
  assume "t \<in> set ts" "ki \<in> set (sort_key fst t)"
  then have "size (snd ki) \<le> size_list entry_size t" by (simp add: size_snd_in_list)
  then have "size (snd ki) \<le> size_list (size_list entry_size) ts"
    by (rule size_in_list [OF \<open>t \<in> set ts\<close>])
  then show "(snd ki, IArrayOfTables ts) \<in> measure size" by (simp add: less_Suc_eq_le)
qed (auto simp: less_Suc_eq_le intro: size_snd_in_list)

definition norm_table :: "toml_table \<Rightarrow> toml_table" where
  "norm_table tbl = map (\<lambda>ki. (fst ki, norm_item (snd ki))) (sort_key fst tbl)"

lemma sort_key_sorted: "sorted (map f xs) \<Longrightarrow> sort_key f xs = xs"
  by (induction xs) (simp_all add: insort_is_Cons)

lemma sort_norm:
  "sort_key fst (map (\<lambda>kv. (fst kv, f (snd kv))) (sort_key fst t)) = map (\<lambda>kv. (fst kv, f (snd kv))) (sort_key fst t)"
  by (rule sort_key_sorted) (simp add: comp_def)

lemma try_map_map: "try_map f (map g xs) = try_map (\<lambda>x. f (g x)) xs"
  by (induction xs) simp_all

lemma emit_value_norm [simp]: "emit_value E (norm_value v) = emit_value E v"
proof (induction v rule: norm_value.induct)
  case (1 arr)
  then have "try_map (\<lambda>v. emit_value E (norm_value v)) arr = try_map (emit_value E) arr"
    by (intro try_map_cong) simp_all
  then show ?case by (simp add: try_map_map)
next
  case (2 tbl)
  let ?f = "\<lambda>g kv. bind_res (emit_value E (g (snd kv))) (\<lambda>s. Ok (quote_key (fst kv) @ '' = '' @ s))"
  have "try_map (?f norm_value) (sort_key fst tbl) = try_map (?f (\<lambda>v. v)) (sort_key fst tbl)"
    using 2 by (intro try_map_cong) simp_all
  then show ?case by (simp add: try_map_map sort_norm)
qed simp_all

abbreviation norm_entry :: "str \<times> titem \<Rightarrow> str \<times> titem" where
  "norm_entry \<equiv> \<lambda>ki. (fst ki, norm_item (snd ki))"

lemma norm_item_kind [simp]:
  "is_inline (norm_item i) \<longleftrightarrow> is_inline i" "is_subtable (norm_item i) \<longleftrightarrow> is_subtable i"
  by (cases i; simp add: is_inline_def is_subtable_def)+

lemma emit_pairs_norm [simp]: "emit_pairs E (map norm_entry kis) = emit_pairs E kis"
proof (induction kis)
  case (Cons ki kis)
  then show ?case by (cases ki; cases "snd ki") (simp_all add: is_inline_def emit_pair_def)
qed simp

lemma norm_table_kinds [simp]:
  "has_any_inline (norm_table t) = has_any_inline t" "has_subtables (norm_table t) = has_subtables t"
  by (auto simp: has_any_inline_def has_subtables_def list_ex_iff norm_table_def split_beta)

lemma sort_norm_table [simp]: "sort_key fst (norm_table t) = map norm_entry (sort_key fst t)"
  by (simp add: norm_table_def sort_norm)

lemma norm_item_tables:
  "norm_item (ITable t) = ITable (norm_table t)"
  "norm_item (IArrayOfTables ts) = IArrayOfTables (map norm_table ts)"
  by (simp_all add: norm_table_def)

lemma emit_norm:
  "emit_table E (norm_table tbl) path = emit_table E tbl path"
  "emit_subs E (map norm_entry kis) path sep = emit_subs E kis path sep"
  "emit_array E (map norm_table ts) path k sep = emit_array E ts path k sep"
  "emit_table_body E (norm_table tbl) path = emit_table_body E tbl path"
proof (induction E tbl path and E kis path sep and E ts path k sep and E tbl path
    rule: emit_table_emit_subs_emit_array_emit_table_body.induct)
  case (3 E k item kis path sep)
  then show ?case
    by (cases item) (simp_all add: norm_item_tables del: norm_item.simps(3,4) emit_table.simps emit_table_body.simps cong: bind_res_cong)
qed (simp_all add: Let_def cong: bind_res_cong)

lemma norm_table_perm:
  assumes "mset t = mset t'" "distinct (map fst t)"
  shows "norm_table t = norm_table t'"
proof -
  have "sort_key fst t = sort_key fst t'"
    using assms sort_key_inj_key_eq [of t "sort_key fst t'" fst]
    by (simp add: distinct_map)
  then show ?thesis by (simp add: norm_table_def)
qed

section \<open>Properties\<close>

text \<open>
  The canonical text depends on the parsed document only up to the order of the keys
  of its tables, at every depth: two texts whose documents differ only in that order have
  the same canonical form, so the same hash.
\<close>

lemma canonical_order_irrelevant:
  assumes "toml_parse E a = Ok d" "toml_parse E b = Ok d'" "norm_table d = norm_table d'"
  shows "canonicalize E a = canonicalize E b"
proof -
  have "emit_table E d [] = emit_table E d' []"
    using assms(3) emit_norm(1) [of E d "[]"] emit_norm(1) [of E d' "[]"] by metis
  then show ?thesis using assms(1,2) by (simp add: canonicalize_def del: emit_table.simps)
qed

text \<open>
  A quoted string is one line without control characters, and reading it back as a
  TOML basic string gives the string that was written.
\<close>

lemma quote_string_round_trip:
  "hd (quote_string s) = DQ \<and> read_basic (tl (quote_string s) @ rest) = Some (s, rest) \<and>
   list_all (\<lambda>c. \<not> byte_val c < 0x20) (quote_string s)"
  using quote_char_printable
  by (auto simp: quote_string_def read_basic_quote list_all_iff)

text \<open>
  The keys in a table header are written without quotes: the documents
  \<open>["a.b"]\<close> and \<open>[a.b]\<close> differ (one table with a dotted name, two nested tables), yet have
  the same canonical text.
\<close>

lemma header_keys_ambiguous:
  "emit_table E [(''a.b'', ITable [])] [] = Ok (''[a.b]'' @ [LF]) \<and>
   emit_table E [(''a'', ITable [(''b'', ITable [])])] [] = Ok (''[a.b]'' @ [LF]) \<and>
   norm_table [(''a.b'', ITable [])] \<noteq> norm_table [(''a'', ITable [(''b'', ITable [])])]"
  by (simp add: has_any_inline_def has_subtables_def is_inline_def is_subtable_def str_join_def norm_table_def)

end
