(* ===== verification/Omp_Manifest.thy ===== *)
theory Omp_Manifest
  imports Omp_Hash Ordered_Map Omp_Toml
begin

text \<open>
  \<open>crates/omp-core/src/manifest.rs\<close>: the description of one user file and its TOML form.
  The document that is handed to the TOML printer determines the manifest
  (\<open>manifest_doc_round_trip\<close>).
\<close>

section \<open>Model\<close>

datatype field_value =
    FNull
  | FString str
  | FInt int
  | FFloat f64
  | FBool bool
  | FDatetime str
  | FList "field_value list"
  | FObject "(str \<times> field_value) list"

definition is_null :: "field_value \<Rightarrow> bool" where
  "is_null v \<longleftrightarrow> v = FNull"

record manifest =
  m_source_hash :: hash
  m_file_type :: str
  m_schema_hash :: hash
  m_ingested_at :: str
  m_ingester_version :: str
  m_probe_hashes :: "(str, hash) btree"
  m_fields :: "(str, field_value) btree"

text \<open>
  \<open>field_value_to_item\<close>, with its two loops. A result \<open>None\<close> is a null, which is not
  written; every other value is one TOML value.
\<close>

fun to_item :: "ext \<Rightarrow> field_value \<Rightarrow> tvalue option result"
and to_array :: "ext \<Rightarrow> field_value list \<Rightarrow> tvalue list result"
and to_inline :: "ext \<Rightarrow> (str \<times> field_value) list \<Rightarrow> (str \<times> tvalue) list result"
where
  "to_item E FNull = Ok None"
| "to_item E (FString s) = Ok (Some (TString s))"
| "to_item E (FInt i) = Ok (Some (TInteger i))"
| "to_item E (FFloat f) =
     (if \<not> is_finite f then Err (IngestValidation ''non-finite float in field'') else Ok (Some (TFloat f)))"
| "to_item E (FBool b) = Ok (Some (TBoolean b))"
| "to_item E (FDatetime s) =
     (case datetime_parse E s of Some dt \<Rightarrow> Ok (Some (TDatetime dt)) | None \<Rightarrow> Ok (Some (TString s)))"
| "to_item E (FList items) = bind_res (to_array E items) (\<lambda>arr. Ok (Some (TArray arr)))"
| "to_item E (FObject m) = bind_res (to_inline E m) (\<lambda>t. Ok (Some (TInlineTable t)))"
| "to_array E [] = Ok []"
| "to_array E (v # vs) =
     bind_res (to_item E v) (\<lambda>r. case r of
       Some x \<Rightarrow> bind_res (to_array E vs) (\<lambda>xs. Ok (x # xs))
     | None \<Rightarrow> Err (IngestValidation ''list element must be a scalar''))"
| "to_inline E [] = Ok []"
| "to_inline E ((k, v) # kvs) =
     bind_res (to_item E v) (\<lambda>r. case r of
       Some x \<Rightarrow> bind_res (to_inline E kvs) (\<lambda>xs. Ok ((k, x) # xs))
     | None \<Rightarrow> Err (IngestValidation (''object field '' @ k @ '' must be a scalar'')))"

fun from_value :: "tvalue \<Rightarrow> field_value" and from_inline :: "(str \<times> tvalue) list \<Rightarrow> (str, field_value) btree \<Rightarrow> (str, field_value) btree"
  and from_array :: "tvalue list \<Rightarrow> field_value list"
where
  "from_value (TString s) = FString s"
| "from_value (TInteger i) = FInt i"
| "from_value (TFloat f) = FFloat f"
| "from_value (TBoolean b) = FBool b"
| "from_value (TDatetime s) = FDatetime s"
| "from_value (TArray vs) = FList (from_array vs)"
| "from_value (TInlineTable kvs) = FObject (from_inline kvs [])"
| "from_inline [] acc = acc"
| "from_inline ((k, v) # kvs) acc = from_inline kvs (bt_insert k (from_value v) acc)"
| "from_array [] = []"
| "from_array (v # vs) = from_value v # from_array vs"

fun from_item :: "titem \<Rightarrow> field_value"
and from_table :: "(str \<times> titem) list \<Rightarrow> (str, field_value) btree \<Rightarrow> (str, field_value) btree"
and from_tables :: "(str \<times> titem) list list \<Rightarrow> field_value list"
where
  "from_item INone = FNull"
| "from_item (IValue v) = from_value v"
| "from_item (ITable t) = FObject (from_table t [])"
| "from_item (IArrayOfTables ts) = FList (from_tables ts)"
| "from_table [] acc = acc"
| "from_table ((k, i) # kis) acc = from_table kis (bt_insert k (from_item i) acc)"
| "from_tables [] = []"
| "from_tables (t # ts) = FObject (from_table t []) # from_tables ts"

text \<open>The two loops of \<open>Manifest::serialize\<close>; nulls are left out.\<close>

fun fields_table :: "ext \<Rightarrow> (str \<times> field_value) list \<Rightarrow> toml_table result" where
  "fields_table E [] = Ok []"
| "fields_table E ((name, v) # fs) =
     bind_res (to_item E v) (\<lambda>r.
     bind_res (fields_table E fs) (\<lambda>rest.
     Ok (case r of Some x \<Rightarrow> (name, IValue x) # rest | None \<Rightarrow> rest)))"

definition manifest_to_doc :: "ext \<Rightarrow> manifest \<Rightarrow> toml_table result" where
  "manifest_to_doc E m =
     bind_res (fields_table E (m_fields m)) (\<lambda>fields.
     Ok [(''source_hash'', IValue (TString (hash_hex (m_source_hash m)))),
         (''file_type'', IValue (TString (m_file_type m))),
         (''schema_hash'', IValue (TString (hash_hex (m_schema_hash m)))),
         (''ingested_at'', IValue (TString (m_ingested_at m))),
         (''ingester_version'', IValue (TString (m_ingester_version m))),
         (''probe_hashes'', ITable (map (\<lambda>(n, h). (n, IValue (TString (hash_hex h)))) (m_probe_hashes m))),
         (''fields'', ITable fields)])"

definition manifest_serialize :: "ext \<Rightarrow> manifest \<Rightarrow> bytes result" where
  "manifest_serialize E m =
     bind_res (manifest_to_doc E m) (\<lambda>doc. canonicalize E (toml_show E doc))"

definition read_string :: "toml_table \<Rightarrow> str \<Rightarrow> str result" where
  "read_string doc key =
     ok_or (Corrupt (''manifest missing string '' @ key))
       (case map_of doc key of None \<Rightarrow> None | Some i \<Rightarrow> item_as_str i)"

definition read_hash_str :: "toml_table \<Rightarrow> str \<Rightarrow> hash result" where
  "read_hash_str doc key =
     bind_res (read_string doc key) (\<lambda>s.
     map_err (\<lambda>_. Corrupt (''manifest '' @ key)) (hash_from_str s))"

definition probe_hashes_of :: "toml_table \<Rightarrow> (str, hash) btree result" where
  "probe_hashes_of t =
     try_fold (\<lambda>acc (k, i).
       bind_res (ok_or (Corrupt (''probe_hashes['' @ k @ ''] not a string'')) (item_as_str i)) (\<lambda>s.
       bind_res (map_err (\<lambda>_. Corrupt (''probe_hashes['' @ k @ '']'')) (hash_from_str s)) (\<lambda>h.
       Ok (bt_insert k h acc)))) [] t"

definition manifest_of_doc :: "toml_table \<Rightarrow> manifest result" where
  "manifest_of_doc doc =
     bind_res (read_hash_str doc ''source_hash'') (\<lambda>source_hash.
     bind_res (read_string doc ''file_type'') (\<lambda>file_type.
     bind_res (read_hash_str doc ''schema_hash'') (\<lambda>schema_hash.
     bind_res (read_string doc ''ingested_at'') (\<lambda>ingested_at.
     bind_res (read_string doc ''ingester_version'') (\<lambda>ingester_version.
     bind_res (case map_of doc ''probe_hashes'' of Some (ITable t) \<Rightarrow> probe_hashes_of t | _ \<Rightarrow> Ok []) (\<lambda>probe_hashes.
     let fields = (case map_of doc ''fields'' of Some (ITable t) \<Rightarrow> from_table t [] | _ \<Rightarrow> []) in
     Ok \<lparr>m_source_hash = source_hash, m_file_type = file_type, m_schema_hash = schema_hash,
         m_ingested_at = ingested_at, m_ingester_version = ingester_version,
         m_probe_hashes = probe_hashes, m_fields = fields\<rparr>))))))"

definition manifest_parse :: "ext \<Rightarrow> bytes \<Rightarrow> manifest result" where
  "manifest_parse E bs =
     (if \<not> utf8_valid bs then Err (Corrupt ''manifest is not UTF-8'')
      else bind_res (map_err (\<lambda>e. Corrupt (''manifest TOML: '' @ e)) (toml_parse E bs)) manifest_of_doc)"

section \<open>The document determines the manifest\<close>

text \<open>A value that a manifest can carry: no null, finite floats, dates in their normal form.\<close>

fun value_ok :: "ext \<Rightarrow> field_value \<Rightarrow> bool"
and values_ok :: "ext \<Rightarrow> field_value list \<Rightarrow> bool"
and entries_ok :: "ext \<Rightarrow> (str \<times> field_value) list \<Rightarrow> bool"
where
  "value_ok E FNull \<longleftrightarrow> False"
| "value_ok E (FString s) \<longleftrightarrow> True"
| "value_ok E (FInt i) \<longleftrightarrow> True"
| "value_ok E (FFloat f) \<longleftrightarrow> is_finite f"
| "value_ok E (FBool b) \<longleftrightarrow> True"
| "value_ok E (FDatetime s) \<longleftrightarrow> datetime_parse E s = Some s"
| "value_ok E (FList vs) \<longleftrightarrow> values_ok E vs"
| "value_ok E (FObject m) \<longleftrightarrow> bt_inv m \<and> entries_ok E m"
| "values_ok E [] \<longleftrightarrow> True"
| "values_ok E (v # vs) \<longleftrightarrow> value_ok E v \<and> values_ok E vs"
| "entries_ok E [] \<longleftrightarrow> True"
| "entries_ok E ((k, v) # kvs) \<longleftrightarrow> value_ok E v \<and> entries_ok E kvs"

lemma from_inline_append:
  "bt_inv (acc @ kvs) \<Longrightarrow> list_all2 (\<lambda>(k, x) (k', v). k = k' \<and> from_value x = v) xs kvs \<Longrightarrow>
   from_inline xs acc = acc @ kvs"
proof (induction kvs arbitrary: acc xs)
  case (Cons kv kvs)
  obtain k v where kv: "kv = (k, v)" by force
  from Cons.prems(2) kv obtain x xs' where xs: "xs = (k, x) # xs'" "from_value x = v"
    "list_all2 (\<lambda>(k, x) (k', v). k = k' \<and> from_value x = v) xs' kvs"
    by (auto simp: list_all2_Cons2)
  have "\<forall>l \<in> fst ` set acc. l < k"
    using Cons.prems(1) kv by (auto simp: bt_inv_def sorted_wrt_append)
  then have "bt_insert k v acc = acc @ [(k, v)]" by (rule bt_insert_snoc)
  then show ?case using Cons.IH [of "acc @ [(k, v)]" xs'] Cons.prems(1) kv xs by simp
qed simp

lemma from_table_append:
  "bt_inv (acc @ kvs) \<Longrightarrow> list_all2 (\<lambda>(k, i) (k', v). k = k' \<and> from_item i = v) xs kvs \<Longrightarrow>
   from_table xs acc = acc @ kvs"
proof (induction kvs arbitrary: acc xs)
  case (Cons kv kvs)
  obtain k v where kv: "kv = (k, v)" by force
  from Cons.prems(2) kv obtain x xs' where xs: "xs = (k, x) # xs'" "from_item x = v"
    "list_all2 (\<lambda>(k, i) (k', v). k = k' \<and> from_item i = v) xs' kvs"
    by (auto simp: list_all2_Cons2)
  have "\<forall>l \<in> fst ` set acc. l < k"
    using Cons.prems(1) kv by (auto simp: bt_inv_def sorted_wrt_append)
  then have "bt_insert k v acc = acc @ [(k, v)]" by (rule bt_insert_snoc)
  then show ?case using Cons.IH [of "acc @ [(k, v)]" xs'] Cons.prems(1) kv xs by simp
qed simp

lemma to_item_from_value:
  "value_ok E v \<Longrightarrow> \<exists>x. to_item E v = Ok (Some x) \<and> from_value x = v"
  "values_ok E vs \<Longrightarrow> \<exists>xs. to_array E vs = Ok xs \<and> from_array xs = vs"
  "entries_ok E kvs \<Longrightarrow> \<exists>xs. to_inline E kvs = Ok xs \<and>
     list_all2 (\<lambda>(k, x) (k', v). k = k' \<and> from_value x = v) xs kvs"
proof (induction v and vs and kvs rule: value_ok_values_ok_entries_ok.induct)
  case (8 E m)
  then obtain xs where xs: "to_inline E m = Ok xs"
    "list_all2 (\<lambda>(k, x) (k', v). k = k' \<and> from_value x = v) xs m" by auto
  then have "from_inline xs [] = m" using from_inline_append [of "[]" m xs] 8 by simp
  then show ?case using xs(1) by simp
qed auto

lemma fields_table_from:
  assumes "entries_ok E fs" "bt_inv fs"
  shows "\<exists>t. fields_table E fs = Ok t \<and> from_table t [] = fs"
proof -
  have "\<exists>t. fields_table E fs = Ok t \<and> list_all2 (\<lambda>(k, i) (k', v). k = k' \<and> from_item i = v) t fs"
    using assms(1)
  proof (induction fs)
    case (Cons kv fs)
    obtain k v where kv: "kv = (k, v)" by force
    then obtain x t where "to_item E v = Ok (Some x)" "from_value x = v" "fields_table E fs = Ok t"
      "list_all2 (\<lambda>(k, i) (k', v). k = k' \<and> from_item i = v) t fs"
      using Cons to_item_from_value(1) [of E v] by auto
    then show ?case using kv by simp
  qed simp
  then show ?thesis using from_table_append [of "[]" fs] assms(2) by auto
qed

lemma probe_hashes_of_map:
  assumes "bt_inv m" "\<forall>(n, h) \<in> set m. hash_wf h"
  shows "probe_hashes_of (map (\<lambda>(n, h). (n, IValue (TString (hash_hex h)))) m) = Ok m"
proof -
  have "probe_hashes_of (map (\<lambda>(n, h). (n, IValue (TString (hash_hex h)))) m) =
      Ok (foldl (\<lambda>acc (n, h). bt_insert n h acc) [] m)"
    unfolding probe_hashes_of_def
    using assms(2) by (intro try_fold_map_Ok) (auto simp: item_as_str_def hash_from_str_hex)
  then show ?thesis using bt_of_list_id [OF assms(1)] by (simp add: bt_of_list_def)
qed

definition manifest_ok :: "ext \<Rightarrow> manifest \<Rightarrow> bool" where
  "manifest_ok E m \<longleftrightarrow> hash_wf (m_source_hash m) \<and> hash_wf (m_schema_hash m) \<and>
     bt_inv (m_probe_hashes m) \<and> (\<forall>(n, h) \<in> set (m_probe_hashes m). hash_wf h) \<and>
     bt_inv (m_fields m) \<and> entries_ok E (m_fields m)"

lemma manifest_of_to_doc:
  assumes "manifest_ok E m"
  shows "\<exists>doc. manifest_to_doc E m = Ok doc \<and> manifest_of_doc doc = Ok m"
proof -
  obtain t where t: "fields_table E (m_fields m) = Ok t" "from_table t [] = m_fields m"
    using fields_table_from [of E "m_fields m"] assms by (auto simp: manifest_ok_def)
  then show ?thesis
    using assms probe_hashes_of_map [of "m_probe_hashes m"]
    by (simp add: manifest_to_doc_def manifest_of_doc_def read_hash_str_def read_string_def item_as_str_def
        manifest_ok_def hash_from_str_hex)
qed

interpretation manifest_codec: fallible_codec "manifest_to_doc E" manifest_of_doc "manifest_ok E"
  for E
  by unfold_locales (rule manifest_of_to_doc)

section \<open>Properties\<close>

text \<open>
  The TOML document of a manifest determines the manifest: every header, every probe
  hash and every field value, nested lists and objects included, is read back as it was.
\<close>

lemma manifest_doc_round_trip:
  assumes "manifest_ok E m"
  shows "\<exists>doc. manifest_to_doc E m = Ok doc \<and> manifest_of_doc doc = Ok m"
  using assms by (rule manifest_codec.dec_enc)

definition sample_manifest :: manifest where
  "sample_manifest = \<lparr>m_source_hash = Hash (replicate 32 (CHR 0x01)), m_file_type = ''text'',
     m_schema_hash = Hash (replicate 32 (CHR 0x02)), m_ingested_at = ''2024-01-01T00:00:00Z'',
     m_ingester_version = ''0.1.0'', m_probe_hashes = [(''file.size'', Hash (replicate 32 (CHR 0x03)))],
     m_fields = [(''tags'', FList [FString ''a'', FObject [(''n'', FInt 1)]]), (''title'', FString ''t'')]\<rparr>"

text \<open>
  Nulls do not survive: a null field is not written, so the field is absent when the
  manifest is read again; a null inside a list or an object is an error.
\<close>

lemma manifest_nulls:
  "fields_table E ((name, FNull) # fs) = fields_table E fs \<and>
   to_item E (FList [FNull]) = Err (IngestValidation ''list element must be a scalar'')"
  by (cases "fields_table E fs") simp_all

end
