(* ===== verification/Omp_Share.thy ===== *)
theory Omp_Share
  imports Omp_Manifest Omp_Crypto
begin

text \<open>
  \<open>crates/omp-core/src/tenant.rs\<close>, \<open>encrypted_manifest.rs\<close> and \<open>share.rs\<close>: tenant
  names, the envelope that hides a manifest and the key of its file, and the object that
  grants the key to other tenants. Random nonces are arguments.

  The keys that sealed an envelope open it (\<open>envelope_open_seal\<close>).
\<close>

section \<open>Tenant names\<close>

definition is_ascii_lowercase :: "char \<Rightarrow> bool" where
  "is_ascii_lowercase c \<longleftrightarrow> 97 \<le> byte_val c \<and> byte_val c \<le> 122"

definition is_ascii_digit :: "char \<Rightarrow> bool" where
  "is_ascii_digit c \<longleftrightarrow> 48 \<le> byte_val c \<and> byte_val c \<le> 57"

definition tenant_char :: "char \<Rightarrow> bool" where
  "tenant_char c \<longleftrightarrow> is_ascii_lowercase c \<or> is_ascii_digit c \<or> c = CHR ''_'' \<or> c = CHR ''-''"

definition tenant_new :: "str \<Rightarrow> str result" where
  "tenant_new s =
     (if s = [] \<or> length s > 64 then Err (InvalidPath ''tenant id must be 1..=64 chars'')
      else if \<not> list_all tenant_char s then Err (InvalidPath ''tenant id has invalid character'')
      else Ok s)"

definition tenant_local :: str where "tenant_local = ''_local''"

section \<open>Envelopes\<close>

definition AAD_MANIFEST :: bytes where "AAD_MANIFEST = ''omp-encrypted-manifest''"
definition AAD_CONTENT_KEY_WRAP :: bytes where "AAD_CONTENT_KEY_WRAP = ''omp-content-key-wrap''"
definition ENVELOPE_ALG :: str where "ENVELOPE_ALG = ''chacha20poly1305''"

record envelope =
  env_alg :: str
  wrapped_content_key :: str
  sealed_body :: str

text \<open>The serialization that the derive macro gives the struct, and its inverse.\<close>

definition envelope_to_doc :: "envelope \<Rightarrow> toml_table" where
  "envelope_to_doc v =
     [(''alg'', IValue (TString (env_alg v))),
      (''wrapped_content_key'', IValue (TString (wrapped_content_key v))),
      (''sealed_body'', IValue (TString (sealed_body v)))]"

definition get_str :: "toml_table \<Rightarrow> str \<Rightarrow> str option" where
  "get_str doc key = (case map_of doc key of None \<Rightarrow> None | Some i \<Rightarrow> item_as_str i)"

definition envelope_of_doc :: "toml_table \<Rightarrow> envelope option" where
  "envelope_of_doc doc =
     (case (get_str doc ''alg'', get_str doc ''wrapped_content_key'', get_str doc ''sealed_body'') of
        (Some a, Some w, Some b) \<Rightarrow> Some \<lparr>env_alg = a, wrapped_content_key = w, sealed_body = b\<rparr>
      | _ \<Rightarrow> None)"

definition seal_envelope ::
  "ext \<Rightarrow> bytes \<Rightarrow> bytes \<Rightarrow> bytes \<Rightarrow> bytes \<Rightarrow> bytes \<Rightarrow> bytes \<Rightarrow> envelope result" where
  "seal_envelope E wrap_nonce body_nonce body_bytes content_key mkey dkey =
     bind_res (map_err (\<lambda>_. Internal ''wrap content key'')
        (seal E dkey wrap_nonce AAD_CONTENT_KEY_WRAP content_key)) (\<lambda>wrapped.
     bind_res (map_err (\<lambda>_. Internal ''seal manifest body'')
        (seal E mkey body_nonce AAD_MANIFEST body_bytes)) (\<lambda>sealed.
     Ok \<lparr>env_alg = ENVELOPE_ALG, wrapped_content_key = hex_encode wrapped, sealed_body = hex_encode sealed\<rparr>))"

definition envelope_seal ::
  "ext \<Rightarrow> bytes \<Rightarrow> bytes \<Rightarrow> manifest \<Rightarrow> bytes \<Rightarrow> bytes \<Rightarrow> bytes \<Rightarrow> bytes result" where
  "envelope_seal E wrap_nonce body_nonce m content_key mkey dkey =
     bind_res (manifest_serialize E m) (\<lambda>body_bytes.
     bind_res (seal_envelope E wrap_nonce body_nonce body_bytes content_key mkey dkey) (\<lambda>env.
     canonicalize E (toml_show E (envelope_to_doc env))))"

definition envelope_parse :: "ext \<Rightarrow> bytes \<Rightarrow> envelope result" where
  "envelope_parse E bs =
     (if \<not> utf8_valid bs then Err (Corrupt ''envelope is not UTF-8'')
      else bind_res (map_err (\<lambda>e. Corrupt (''envelope TOML: '' @ e)) (toml_parse E bs)) (\<lambda>doc.
        bind_res (ok_or (Corrupt ''envelope TOML: missing field'') (envelope_of_doc doc)) (\<lambda>env.
        if env_alg env \<noteq> ENVELOPE_ALG then Err (Corrupt ''envelope alg not supported'') else Ok env)))"

definition envelope_open :: "ext \<Rightarrow> envelope \<Rightarrow> bytes \<Rightarrow> bytes \<Rightarrow> (manifest \<times> bytes) result" where
  "envelope_open E env mkey dkey =
     bind_res (hex_decode (wrapped_content_key env)) (\<lambda>wrapped.
     bind_res (map_err (\<lambda>_. Unauthorized ''unable to unwrap content key (wrong key or tampered envelope)'')
        (open_sealed E dkey AAD_CONTENT_KEY_WRAP wrapped)) (\<lambda>content_key.
     if length content_key \<noteq> 32 then Err (Corrupt ''wrapped content key has wrong length'')
     else
     bind_res (hex_decode (sealed_body env)) (\<lambda>sealed.
     bind_res (map_err (\<lambda>_. Unauthorized ''unable to open manifest body (wrong key or tampered envelope)'')
        (open_sealed E mkey AAD_MANIFEST sealed)) (\<lambda>body_bytes.
     bind_res (manifest_parse E body_bytes) (\<lambda>m.
     Ok (m, content_key))))))"

section \<open>Shares\<close>

definition SHARE_ALG :: str where "SHARE_ALG = ''x25519+chacha20poly1305''"

record recipient =
  rc_tenant :: str
  rc_wrapped_key :: str
  rc_alg :: str

record share_body =
  for_hash :: hash
  granted_by :: str
  granted_at :: str
  recipients :: "recipient list"

definition recipient_to_table :: "recipient \<Rightarrow> toml_table" where
  "recipient_to_table r =
     [(''tenant'', IValue (TString (rc_tenant r))), (''wrapped_key'', IValue (TString (rc_wrapped_key r))),
      (''alg'', IValue (TString (rc_alg r)))]"

text \<open>An empty list of recipients is written as an empty array, others as tables.\<close>

definition share_to_doc :: "share_body \<Rightarrow> toml_table" where
  "share_to_doc b =
     [(''for_hash'', IValue (TString (hash_hex (for_hash b)))), (''granted_by'', IValue (TString (granted_by b))),
      (''granted_at'', IValue (TString (granted_at b))),
      (''recipients'', if recipients b = [] then IValue (TArray [])
                       else IArrayOfTables (map recipient_to_table (recipients b)))]"

definition share_serialize :: "ext \<Rightarrow> share_body \<Rightarrow> bytes result" where
  "share_serialize E b = canonicalize E (toml_show E (share_to_doc b))"

definition recipient_of_table :: "toml_table \<Rightarrow> recipient option" where
  "recipient_of_table t =
     (case (get_str t ''tenant'', get_str t ''wrapped_key'', get_str t ''alg'') of
        (Some a, Some w, Some g) \<Rightarrow> Some \<lparr>rc_tenant = a, rc_wrapped_key = w, rc_alg = g\<rparr>
      | _ \<Rightarrow> None)"

definition recipients_of_item :: "titem \<Rightarrow> recipient list option" where
  "recipients_of_item i =
     (case i of
        IArrayOfTables ts \<Rightarrow> those (map recipient_of_table ts)
      | IValue (TArray vs) \<Rightarrow>
          those (map (\<lambda>v. case v of TInlineTable kvs \<Rightarrow> recipient_of_table (map (\<lambda>(k, x). (k, IValue x)) kvs)
                                  | _ \<Rightarrow> None) vs)
      | _ \<Rightarrow> None)"

definition share_of_doc :: "toml_table \<Rightarrow> share_body option" where
  "share_of_doc doc =
     (case (get_str doc ''for_hash'', get_str doc ''granted_by'', get_str doc ''granted_at'',
            map_of doc ''recipients'') of
        (Some h, Some b, Some a, Some r) \<Rightarrow>
          (case (hash_from_str h, recipients_of_item r) of
             (Inr fh, Some rs) \<Rightarrow> Some \<lparr>for_hash = fh, granted_by = b, granted_at = a, recipients = rs\<rparr>
           | _ \<Rightarrow> None)
      | _ \<Rightarrow> None)"

definition share_parse :: "ext \<Rightarrow> bytes \<Rightarrow> share_body result" where
  "share_parse E bs =
     (if \<not> utf8_valid bs then Err (Corrupt ''share body is not UTF-8'')
      else bind_res (map_err (\<lambda>e. Corrupt (''share body: '' @ e)) (toml_parse E bs)) (\<lambda>doc.
        ok_or (Corrupt ''share body: invalid'') (share_of_doc doc)))"

definition recipient_for :: "share_body \<Rightarrow> str \<Rightarrow> recipient option" where
  "recipient_for b tenant = find (\<lambda>r. rc_tenant r = tenant) (recipients b)"

section \<open>Round trips\<close>

lemma those_recipients: "those (map recipient_of_table (map recipient_to_table rs)) = Some rs"
  by (induction rs) (simp_all add: recipient_of_table_def recipient_to_table_def get_str_def item_as_str_def)

lemma share_of_to_doc: "hash_wf (for_hash b) \<Longrightarrow> share_of_doc (share_to_doc b) = Some b"
  using those_recipients [of "recipients b"]
  by (simp add: share_of_doc_def share_to_doc_def get_str_def item_as_str_def hash_from_str_hex
      recipients_of_item_def)

lemma envelope_of_to_doc: "envelope_of_doc (envelope_to_doc v) = Some v"
  by (simp add: envelope_of_doc_def envelope_to_doc_def get_str_def item_as_str_def)

interpretation share_codec: codec share_to_doc "\<lambda>d. ok_or (Corrupt ''share body: invalid'') (share_of_doc d)"
  "\<lambda>b. hash_wf (for_hash b)"
  by unfold_locales (simp add: share_of_to_doc)

section \<open>Properties\<close>

text \<open>
  An envelope sealed with a tenant's keys carries the fixed algorithm name and is
  opened with the same keys: the content key comes back, and the manifest is what the
  parser makes of the bytes that were sealed.
\<close>

lemma envelope_open_seal:
  assumes "aead_ok E" "length mkey = 32" "length dkey = 32" "length content_key = 32"
    and "length wrap_nonce = 12" "length body_nonce = 12" "length body \<le> AEAD_MAX"
  shows "\<exists>env. seal_envelope E wrap_nonce body_nonce body content_key mkey dkey = Ok env \<and>
           env_alg env = ENVELOPE_ALG \<and>
           envelope_open E env mkey dkey = bind_res (manifest_parse E body) (\<lambda>m. Ok (m, content_key))"
proof -
  obtain w where "seal E dkey wrap_nonce AAD_CONTENT_KEY_WRAP content_key = Ok w"
    "open_sealed E dkey AAD_CONTENT_KEY_WRAP w = Ok content_key"
    using open_seal [OF assms(1,3,5), of content_key] assms(4) by (auto simp: AEAD_MAX_def)
  moreover obtain s where "seal E mkey body_nonce AAD_MANIFEST body = Ok s"
    "open_sealed E mkey AAD_MANIFEST s = Ok body"
    using open_seal [OF assms(1,2,6,7)] by blast
  ultimately show ?thesis
    using assms(4) by (simp add: seal_envelope_def envelope_open_def hex_decode_encode)
qed

text \<open>
  The document of a share determines it, and a tenant finds its own wrapped key in it:
  the first entry under its name.
\<close>

lemma share_doc_round_trip:
  assumes "hash_wf (for_hash b)"
  shows "share_of_doc (share_to_doc b) = Some b \<and>
         (\<forall>t r. recipient_for b t = Some r \<longrightarrow> r \<in> set (recipients b) \<and> rc_tenant r = t)"
proof (intro conjI allI impI)
  fix t r assume "recipient_for b t = Some r"
  then show "r \<in> set (recipients b)" "rc_tenant r = t"
    by (auto simp: recipient_for_def find_Some_iff)
qed (use assms share_of_to_doc in simp)

end
