(* ===== verification/Omp_Tree.thy ===== *)
theory Omp_Tree
  imports Omp_Object Omp_Crypto Ordered_Map
begin

text \<open>
  \<open>crates/omp-core/src/tree.rs\<close>: a directory object, an ordered map from names to
  (mode, hash) entries, in its plaintext form and in the form whose names are sealed
  under the tenant's path key. Both forms decode to the tree they encode; for the
  plaintext form this needs names without line feeds, which \<open>validate_name\<close> does not
  check (\<open>tree_newline_forges_entry\<close>).
\<close>

datatype mode = MBlob | MManifest | MTree

fun mode_as_str :: "mode \<Rightarrow> str" where
  "mode_as_str MBlob = ''blob''"
| "mode_as_str MManifest = ''manifest''"
| "mode_as_str MTree = ''tree''"

definition mode_parse :: "str \<Rightarrow> mode result" where
  "mode_parse s =
     (if s = ''blob'' then Ok MBlob
      else if s = ''manifest'' then Ok MManifest
      else if s = ''tree'' then Ok MTree
      else Err (Corrupt (''unknown tree mode: '' @ s)))"

record entry =
  entry_mode :: mode
  entry_hash :: hash

type_synonym tree = "(str, entry) btree"

definition validate_name :: "str \<Rightarrow> unit result" where
  "validate_name name =
     (if name = [] then Err (InvalidPath ''empty tree entry name'')
      else if CHR ''/'' \<in> set name \<or> NUL \<in> set name \<or> name = ''.'' \<or> name = ''..''
      then Err (InvalidPath ''invalid tree entry name'')
      else Ok ())"

definition tree_insert :: "str \<Rightarrow> entry \<Rightarrow> tree \<Rightarrow> tree result" where
  "tree_insert name e t = bind_res (validate_name name) (\<lambda>_. Ok (bt_insert name e t))"

definition tree_remove :: "str \<Rightarrow> tree \<Rightarrow> entry option \<times> tree" where
  "tree_remove name t = (bt_get t name, bt_remove name t)"

text \<open>One entry of the body, given the text of its name field.\<close>

definition tree_line :: "entry \<Rightarrow> str \<Rightarrow> str" where
  "tree_line e name_field =
     mode_as_str (entry_mode e) @ '' '' @ hash_hex (entry_hash e) @ [TAB] @ name_field"

definition tree_serialize :: "tree \<Rightarrow> bytes" where
  "tree_serialize t = concat (map (\<lambda>(name, e). tree_line e name @ [LF]) t)"

definition ENCRYPTED_TREE_MARKER :: str where "ENCRYPTED_TREE_MARKER = ''!encrypted-path v1''"
definition TREE_NAME_AAD :: bytes where "TREE_NAME_AAD = ''omp-tree-name''"

definition seal_name :: "ext \<Rightarrow> bytes \<Rightarrow> str \<Rightarrow> bytes result" where
  "seal_name E key name =
     bind_res (derive_nonce E key ''tree-name'' name) (\<lambda>nonce.
     map_err (\<lambda>_. Internal ''seal tree name'') (seal E key nonce TREE_NAME_AAD name))"

definition tree_serialize_with_path_key :: "ext \<Rightarrow> bytes option \<Rightarrow> tree \<Rightarrow> bytes result" where
  "tree_serialize_with_path_key E pk t =
     (case pk of None \<Rightarrow> Ok (tree_serialize t)
      | Some key \<Rightarrow>
          try_fold (\<lambda>out (name, e). bind_res (seal_name E key name) (\<lambda>sealed.
                      Ok (out @ tree_line e (hex_encode sealed) @ [LF])))
            (ENCRYPTED_TREE_MARKER @ [LF]) t)"

definition open_name :: "ext \<Rightarrow> bytes \<Rightarrow> str \<Rightarrow> str result" where
  "open_name E key name_field =
     bind_res (hex_decode name_field) (\<lambda>sealed.
     bind_res (map_err (\<lambda>_. Unauthorized ''sealed name did not open (wrong path_key or tampered)'')
        (open_sealed E key TREE_NAME_AAD sealed)) (\<lambda>opened.
     if utf8_valid opened then Ok opened else Err (Corrupt ''decrypted name is not UTF-8'')))"

text \<open>The body of the parser's loop; \<open>enc\<close> is the key when the marker was seen.\<close>

definition tree_parse_line :: "ext \<Rightarrow> bytes option \<Rightarrow> tree \<Rightarrow> str \<Rightarrow> tree result" where
  "tree_parse_line E enc out line =
     (if line = [] then Ok out
      else bind_res (ok_or (Corrupt ''tree line: missing tab'') (split_once TAB line))
        (\<lambda>(meta, name_field).
      bind_res (ok_or (Corrupt ''tree line: missing space'') (split_once (CHR '' '') meta))
        (\<lambda>(mode_s, hash_s).
      bind_res (mode_parse mode_s) (\<lambda>m.
      bind_res (map_err (\<lambda>_. Corrupt ''tree line: bad hash'') (hash_from_str hash_s)) (\<lambda>h.
      bind_res (case enc of Some key \<Rightarrow> open_name E key name_field | None \<Rightarrow> Ok name_field) (\<lambda>name.
      bind_res (validate_name name) (\<lambda>_.
      Ok (bt_insert name \<lparr>entry_mode = m, entry_hash = h\<rparr> out))))))))"

definition tree_parse_with_path_key :: "ext \<Rightarrow> bytes option \<Rightarrow> bytes \<Rightarrow> tree result" where
  "tree_parse_with_path_key E pk bs =
     (if \<not> utf8_valid bs then Err (Corrupt ''tree is not UTF-8'')
      else case str_lines bs of
        [] \<Rightarrow> Ok []
      | first # rest \<Rightarrow>
          if first = ENCRYPTED_TREE_MARKER then
            (case pk of
               None \<Rightarrow> Err (Unauthorized ''tree has encrypted names but no path_key supplied'')
             | Some key \<Rightarrow> try_fold (tree_parse_line E (Some key)) [] rest)
          else try_fold (tree_parse_line E None) [] (first # rest))"

definition tree_parse :: "ext \<Rightarrow> bytes \<Rightarrow> tree result" where
  "tree_parse E bs = tree_parse_with_path_key E None bs"

section \<open>Well-formed trees\<close>

definition name_ok :: "str \<Rightarrow> bool" where
  "name_ok name \<longleftrightarrow> validate_name name = Ok () \<and> utf8_valid name"

definition tree_wf :: "tree \<Rightarrow> bool" where
  "tree_wf t \<longleftrightarrow> bt_inv t \<and> (\<forall>(name, e) \<in> set t. name_ok name \<and> hash_wf (entry_hash e))"

text \<open>What a name needs beyond that for the form it is written in.\<close>

definition plain_name :: "str \<Rightarrow> bool" where
  "plain_name name \<longleftrightarrow> LF \<notin> set name \<and> last name \<noteq> CR"

definition name_fits :: "bytes option \<Rightarrow> str \<Rightarrow> bool" where
  "name_fits pk name \<longleftrightarrow>
     name_ok name \<and> (case pk of None \<Rightarrow> plain_name name | Some _ \<Rightarrow> length name \<le> AEAD_MAX)"

definition tree_fits :: "bytes option \<Rightarrow> tree \<Rightarrow> bool" where
  "tree_fits pk t \<longleftrightarrow>
     bt_inv t \<and> (\<forall>(name, e) \<in> set t. name_fits pk name \<and> hash_wf (entry_hash e))"

text \<open>What the sealed form needs of the key and the primitives.\<close>

definition key_ok :: "ext \<Rightarrow> bytes option \<Rightarrow> bool" where
  "key_ok E pk \<longleftrightarrow>
     (case pk of None \<Rightarrow> True | Some key \<Rightarrow> length key = 32 \<and> aead_ok E \<and> hkdf_ok E)"

lemma key_ok_None [simp]: "key_ok E None"
  by (simp add: key_ok_def)

lemma validate_name_Ok:
  "validate_name n = Ok u \<longleftrightarrow>
     n \<noteq> [] \<and> CHR ''/'' \<notin> set n \<and> NUL \<notin> set n \<and> n \<noteq> ''.'' \<and> n \<noteq> ''..''"
  by (simp add: validate_name_def)

lemma name_ok_not_Nil: "name_ok n \<Longrightarrow> n \<noteq> []"
  by (auto simp: name_ok_def validate_name_Ok)

lemma tree_fits_Nil [simp]: "tree_fits pk []"
  by (simp add: tree_fits_def)

lemma tree_fits_insert:
  "tree_fits pk t \<Longrightarrow> name_fits pk n \<Longrightarrow> hash_wf (entry_hash e) \<Longrightarrow> tree_fits pk (bt_insert n e t)"
  using bt_set_insert [of n e t] by (auto simp: tree_fits_def)

lemma tree_fits_remove: "tree_fits pk t \<Longrightarrow> tree_fits pk (bt_remove n t)"
  using bt_set_remove [of n t] by (auto simp: tree_fits_def)

lemma tree_insert_Ok [simp]: "name_fits pk n \<Longrightarrow> tree_insert n e t = Ok (bt_insert n e t)"
  by (simp add: name_fits_def name_ok_def tree_insert_def)

lemma tree_fits_wf: "tree_fits pk t \<Longrightarrow> tree_wf t"
  by (auto simp: tree_fits_def tree_wf_def name_fits_def)

lemma tree_fits_hash: "tree_fits pk t \<Longrightarrow> bt_get t n = Some e \<Longrightarrow> hash_wf (entry_hash e)"
  by (auto simp: tree_fits_def bt_get_def dest!: map_of_SomeD)

lemma tree_fits_name: "tree_fits pk t \<Longrightarrow> bt_get t n = Some e \<Longrightarrow> name_fits pk n"
  by (auto simp: tree_fits_def bt_get_def dest!: map_of_SomeD)

section \<open>The round trip\<close>

lemma mode_parse_as_str [simp]: "mode_parse (mode_as_str m) = Ok m"
  by (cases m) (simp_all add: mode_parse_def)

lemma mode_str_notin: "byte_val c < 97 \<Longrightarrow> c \<notin> set (mode_as_str m)"
  by (cases m) auto

lemma mode_str_ascii: "c \<in> set (mode_as_str m) \<Longrightarrow> is_ascii c"
  by (cases m) (auto simp: is_ascii_def)

lemma tree_line_valid: "utf8_valid name \<Longrightarrow> utf8_valid (tree_line e name)"
proof -
  have "utf8_valid (mode_as_str (entry_mode e) @ '' '' @ hash_hex (entry_hash e) @ [TAB])"
    by (rule utf8_valid_ascii) (auto simp: mode_str_ascii hash_hex_eq hex_ascii)
  then show "utf8_valid name \<Longrightarrow> ?thesis"
    using utf8_valid_append [of "mode_as_str (entry_mode e) @ '' '' @ hash_hex (entry_hash e) @ [TAB]" name]
    by (simp add: tree_line_def)
qed

lemma tree_line_LF: "LF \<notin> set name \<Longrightarrow> LF \<notin> set (tree_line e name)"
  by (simp add: tree_line_def mode_str_notin hash_hex_notin)

lemma tree_line_not_marker: "tree_line e name \<noteq> ENCRYPTED_TREE_MARKER"
  by (cases "entry_mode e") (simp_all add: tree_line_def ENCRYPTED_TREE_MARKER_def)

lemma chop_cr_tree_line:
  "name \<noteq> [] \<Longrightarrow> last name \<noteq> CR \<Longrightarrow> chop_cr (tree_line e name) = tree_line e name"
  by (rule chop_cr_id) (simp add: tree_line_def)

lemma tree_parse_line_text:
  assumes "hash_wf (entry_hash e)" "validate_name name = Ok ()"
    and "(case enc of Some key \<Rightarrow> open_name E key field | None \<Rightarrow> Ok field) = Ok name"
  shows "tree_parse_line E enc out (tree_line e field) = Ok (bt_insert name e out)"
proof -
  let ?meta = "mode_as_str (entry_mode e) @ '' '' @ hash_hex (entry_hash e)"
  have "TAB \<notin> set ?meta" by (simp add: mode_str_notin hash_hex_notin)
  then have 1: "split_once TAB (tree_line e field) = Some (?meta, field)"
    using split_once_append [of TAB ?meta field] by (simp add: tree_line_def)
  have 2: "split_once (CHR '' '') ?meta = Some (mode_as_str (entry_mode e), hash_hex (entry_hash e))"
    by (simp add: split_once_append mode_str_notin)
  have 3: "tree_line e field \<noteq> []" by (simp add: tree_line_def)
  have 4: "\<lparr>entry_mode = entry_mode e, entry_hash = entry_hash e\<rparr> = e" by (cases e) simp
  show ?thesis
    using assms 3 by (simp add: tree_parse_line_def 1 2 4 hash_from_str_hex del: append_Cons)
qed

lemma tree_body_parse:
  assumes "bt_inv t"
    and "\<forall>(name, e) \<in> set t. hash_wf (entry_hash e) \<and> validate_name name = Ok () \<and>
           (case enc of Some key \<Rightarrow> open_name E key (field name) | None \<Rightarrow> Ok (field name)) = Ok name"
  shows "try_fold (tree_parse_line E enc) [] (map (\<lambda>(name, e). tree_line e (field name)) t) = Ok t"
proof -
  have "try_fold (tree_parse_line E enc) [] (map (\<lambda>(name, e). tree_line e (field name)) t) =
        Ok (foldl (\<lambda>t (name, e). bt_insert name e t) [] t)"
    using assms(2) by (intro try_fold_map_Ok) (auto intro!: tree_parse_line_text)
  then show ?thesis using bt_of_list_id [OF assms(1)] by (simp add: bt_of_list_def)
qed

lemma tree_parse_serialize_plain:
  assumes "tree_fits None t"
  shows "tree_parse_with_path_key E pk (tree_serialize t) = Ok t"
proof -
  have names: "\<forall>(n, e) \<in> set t. name_ok n \<and> plain_name n \<and> hash_wf (entry_hash e)"
    using assms by (auto simp: tree_fits_def name_fits_def)
  have valid: "utf8_valid (tree_serialize t)"
    unfolding tree_serialize_def
    using names by (intro utf8_valid_concat) (auto simp: name_ok_def utf8_valid_append tree_line_valid)
  have "str_lines (tree_serialize t) = map (\<lambda>x. chop_cr (case x of (n, e) \<Rightarrow> tree_line e n)) t"
    unfolding tree_serialize_def split_def
    using names by (subst str_lines_concat) (auto simp: plain_name_def tree_line_LF split_def)
  also have "\<dots> = map (\<lambda>(n, e). tree_line e n) t"
    using names by (auto simp: plain_name_def intro!: chop_cr_tree_line dest: name_ok_not_Nil)
  finally have lines: "str_lines (tree_serialize t) = map (\<lambda>(n, e). tree_line e n) t" .
  have body: "try_fold (tree_parse_line E None) [] (map (\<lambda>(n, e). tree_line e n) t) = Ok t"
    using assms names tree_body_parse [of t "\<lambda>n. n" E None]
    by (auto simp: tree_fits_def name_ok_def)
  show ?thesis
    using valid lines body
    by (cases t) (auto simp: tree_parse_with_path_key_def tree_line_not_marker)
qed

lemma open_seal_name:
  assumes "key_ok E (Some key)" "length name \<le> AEAD_MAX" "utf8_valid name"
  obtains s where "seal_name E key name = Ok s" "s \<noteq> []" "open_name E key (hex_encode s) = Ok name"
proof -
  have k: "length key = 32" "aead_ok E" "hkdf_ok E" using assms(1) by (simp_all add: key_ok_def)
  obtain n where n: "derive_nonce E key ''tree-name'' name = Ok n" "length n = 12"
    by (rule derive_nonce_Ok [OF k(3)])
  obtain s where "seal E key n TREE_NAME_AAD name = Ok s" "length s = length name + 29"
      "open_sealed E key TREE_NAME_AAD s = Ok name"
    using open_seal [OF k(2,1) n(2) assms(2)] by blast
  then show thesis
    using n assms(3) by (intro that [of s]) (auto simp: seal_name_def open_name_def hex_decode_encode)
qed

text \<open>The name field an encrypted tree shows for a name.\<close>

definition sealed_field :: "ext \<Rightarrow> bytes \<Rightarrow> str \<Rightarrow> str" where
  "sealed_field E key name = (case seal_name E key name of Inr s \<Rightarrow> hex_encode s | Inl _ \<Rightarrow> [])"

lemma sealed_field:
  assumes "key_ok E (Some key)" "name_fits (Some key) name"
  shows "seal_name E key name = Ok s \<Longrightarrow> sealed_field E key name = hex_encode s"
    and "\<exists>s. seal_name E key name = Ok s"
    and "open_name E key (sealed_field E key name) = Ok name"
    and "sealed_field E key name \<noteq> []" and "c \<in> set (sealed_field E key name) \<Longrightarrow> is_ascii c"
    and "LF \<notin> set (sealed_field E key name)" and "CR \<notin> set (sealed_field E key name)"
proof -
  obtain s where s: "seal_name E key name = Ok s" "s \<noteq> []" "open_name E key (hex_encode s) = Ok name"
    using assms by (auto simp: name_fits_def name_ok_def elim: open_seal_name)
  have "sealed_field E key name = hex_encode s" by (simp add: sealed_field_def s)
  moreover have "hex_encode s \<noteq> []" using s(2) by simp
  ultimately show "open_name E key (sealed_field E key name) = Ok name"
    "sealed_field E key name \<noteq> []" "c \<in> set (sealed_field E key name) \<Longrightarrow> is_ascii c"
    "LF \<notin> set (sealed_field E key name)" "CR \<notin> set (sealed_field E key name)"
    "seal_name E key name = Ok s' \<Longrightarrow> sealed_field E key name = hex_encode s'" for s'
    using s by (auto simp: hex_ascii hex_notin)
qed (use assms in \<open>auto simp: name_fits_def name_ok_def elim: open_seal_name\<close>)

lemma tree_serialize_sealed:
  assumes "key_ok E (Some key)" "\<forall>(n, e) \<in> set t. name_fits (Some key) n"
  shows "tree_serialize_with_path_key E (Some key) t =
     Ok (ENCRYPTED_TREE_MARKER @ LF # concat (map (\<lambda>(n, e). tree_line e (sealed_field E key n) @ [LF]) t))"
proof -
  have "try_fold (\<lambda>out (name, e). bind_res (seal_name E key name) (\<lambda>sealed.
            Ok (out @ tree_line e (hex_encode sealed) @ [LF]))) acc t =
        Ok (acc @ concat (map (\<lambda>(n, e). tree_line e (sealed_field E key n) @ [LF]) t))" for acc
    using assms(2)
  proof (induction t arbitrary: acc)
    case (Cons x t)
    obtain n e where x: "x = (n, e)" by force
    obtain s where "seal_name E key n = Ok s" "sealed_field E key n = hex_encode s"
      using sealed_field(1,2) [OF assms(1), of n] Cons.prems x by auto
    then show ?case using Cons x by simp
  qed simp
  then show ?thesis by (simp add: tree_serialize_with_path_key_def)
qed

lemma tree_parse_serialize_sealed:
  assumes "key_ok E (Some key)" "tree_fits (Some key) t"
  shows "\<exists>b. tree_serialize_with_path_key E (Some key) t = Ok b \<and>
             tree_parse_with_path_key E (Some key) b = Ok t"
proof -
  let ?f = "sealed_field E key"
  let ?lines = "map (\<lambda>(n, e). tree_line e (?f n)) t"
  let ?body = "concat (map (\<lambda>(n, e). tree_line e (?f n) @ [LF]) t)"
  have names: "\<forall>(n, e) \<in> set t. name_fits (Some key) n \<and> hash_wf (entry_hash e)"
    using assms(2) by (auto simp: tree_fits_def)
  have ser: "tree_serialize_with_path_key E (Some key) t = Ok (ENCRYPTED_TREE_MARKER @ LF # ?body)"
    using assms(1) names by (intro tree_serialize_sealed) auto
  have "utf8_valid ?body"
    using names sealed_field(5) [OF assms(1)]
    by (intro utf8_valid_concat) (auto simp: utf8_valid_append tree_line_valid utf8_valid_ascii)
  moreover have "utf8_valid ENCRYPTED_TREE_MARKER"
    by (simp add: ENCRYPTED_TREE_MARKER_def utf8_valid_ascii is_ascii_def)
  ultimately have valid: "utf8_valid (ENCRYPTED_TREE_MARKER @ LF # ?body)"
    by (simp add: utf8_valid_append)
  have "str_lines ?body = map (\<lambda>x. chop_cr (case x of (n, e) \<Rightarrow> tree_line e (?f n))) t"
    unfolding split_def
    using names sealed_field(6) [OF assms(1)] by (subst str_lines_concat) (auto simp: tree_line_LF)
  also have "\<dots> = ?lines"
  proof (rule map_cong [OF refl])
    fix x assume "x \<in> set t"
    then obtain n e where x: "x = (n, e)" "name_fits (Some key) n" using names by auto
    have "last (?f n) \<in> set (?f n)" using sealed_field(4) [OF assms(1) x(2)] by simp
    then have "last (?f n) \<noteq> CR" using sealed_field(7) [OF assms(1) x(2)] by metis
    then show "chop_cr (case x of (n, e) \<Rightarrow> tree_line e (?f n)) = (case x of (n, e) \<Rightarrow> tree_line e (?f n))"
      using x(1) sealed_field(4) [OF assms(1) x(2)] by (simp add: chop_cr_tree_line)
  qed
  finally have "str_lines (ENCRYPTED_TREE_MARKER @ LF # ?body) = ENCRYPTED_TREE_MARKER # ?lines"
    by (subst str_lines_append) (simp_all add: ENCRYPTED_TREE_MARKER_def chop_cr_id)
  moreover have "try_fold (tree_parse_line E (Some key)) [] ?lines = Ok t"
    using assms names sealed_field(3) [OF assms(1)]
    by (intro tree_body_parse) (auto simp: tree_fits_def name_fits_def name_ok_def)
  ultimately show ?thesis using ser valid by (simp add: tree_parse_with_path_key_def)
qed

lemma tree_parse_serialize:
  assumes "key_ok E pk" "tree_fits pk t"
  shows "\<exists>b. tree_serialize_with_path_key E pk t = Ok b \<and> tree_parse_with_path_key E pk b = Ok t"
  using assms tree_parse_serialize_sealed tree_parse_serialize_plain
  by (cases pk) (auto simp: tree_serialize_with_path_key_def)

interpretation tree_codec: fallible_codec "tree_serialize_with_path_key E pk"
    "tree_parse_with_path_key E pk" "\<lambda>t. key_ok E pk \<and> tree_fits pk t"
  for E pk
  by unfold_locales (use tree_parse_serialize in blast)

interpretation plain_tree: codec tree_serialize "tree_parse_with_path_key E pk" "tree_fits None"
  for E pk
  by unfold_locales (rule tree_parse_serialize_plain)

section \<open>What the parser guarantees\<close>

lemma tree_parse_line_wf:
  assumes "tree_parse_line E enc out line = Ok t" "utf8_valid line" "tree_wf out"
  shows "tree_wf t"
proof (cases "line = []")
  case False
  with assms(1) obtain meta field ms hs m h name where *:
    "split_once TAB line = Some (meta, field)" "hash_from_str hs = Ok h"
    "(case enc of Some key \<Rightarrow> open_name E key field | None \<Rightarrow> Ok field) = Ok name"
    "validate_name name = Ok ()" "t = bt_insert name \<lparr>entry_mode = m, entry_hash = h\<rparr> out"
    by (auto simp: tree_parse_line_def res_simps)
  have "utf8_valid field"
    using split_once_SomeD [OF *(1)] assms(2) utf8_valid_split [of meta TAB field] by auto
  then have "name_ok name"
    using *(3,4) by (auto simp: name_ok_def open_name_def res_simps split: option.splits if_splits)
  then show ?thesis
    using assms(3) *(2,5) bt_set_insert [of name "\<lparr>entry_mode = m, entry_hash = h\<rparr>" out]
    by (auto simp: tree_wf_def hash_from_str_wf)
qed (use assms in \<open>simp add: tree_parse_line_def\<close>)

section \<open>Properties\<close>

text \<open>
  C27. A directory survives its round trip through the wire format, with plain names as
  with sealed ones: encoding succeeds and decoding under the same key gives the same
  map back. Plain names must have no line feed and no trailing carriage return; sealed
  names may be any name \<open>validate_name\<close> accepts, up to the limit of the cipher.
\<close>

theorem tree_round_trip:
  assumes "key_ok E pk" "tree_fits pk t"
  shows "\<exists>b. tree_serialize_with_path_key E pk t = Ok b \<and> tree_parse_with_path_key E pk b = Ok t"
  by (rule tree_codec.dec_enc) (use assms in blast)

definition sample_key :: bytes where "sample_key = replicate 32 (CHR ''k'')"
definition sample_hash :: hash where "sample_hash = Hash (replicate 32 (CHR 0xAB))"

lemma sample_hash_wf [simp]: "hash_wf sample_hash"
  by (simp add: hash_wf_def sample_hash_def)

lemma sample_key_ok [simp]: "key_ok toy_ext (Some sample_key)"
  by (simp add: key_ok_def sample_key_def)

lemma name_fits_ascii:
  assumes "n \<noteq> []" "n \<noteq> ''.''" "n \<noteq> ''..''" "\<forall>c \<in> set n. is_ascii c \<and> c \<noteq> CHR ''/'' \<and> c \<noteq> NUL \<and> c \<noteq> LF \<and> c \<noteq> CR"
    and "length n \<le> AEAD_MAX"
  shows "name_fits pk n"
proof -
  have "last n \<in> set n" using assms(1) by simp
  then have "plain_name n" using assms(4) by (auto simp: plain_name_def)
  then show ?thesis
    using assms by (auto simp: name_fits_def name_ok_def validate_name_Ok utf8_valid_ascii split: option.splits)
qed

theorem tree_round_trip_witness:
  "\<exists>b. tree_serialize_with_path_key toy_ext (Some sample_key)
          [(''a'', \<lparr>entry_mode = MBlob, entry_hash = sample_hash\<rparr>),
           (''b.md'', \<lparr>entry_mode = MManifest, entry_hash = sample_hash\<rparr>)] = Ok b \<and>
       tree_parse_with_path_key toy_ext (Some sample_key) b =
         Ok [(''a'', \<lparr>entry_mode = MBlob, entry_hash = sample_hash\<rparr>),
             (''b.md'', \<lparr>entry_mode = MManifest, entry_hash = sample_hash\<rparr>)]"
proof (rule tree_round_trip)
  show "tree_fits (Some sample_key) [(''a'', \<lparr>entry_mode = MBlob, entry_hash = sample_hash\<rparr>),
           (''b.md'', \<lparr>entry_mode = MManifest, entry_hash = sample_hash\<rparr>)]"
    by (simp add: tree_fits_def name_fits_ascii is_ascii_def AEAD_MAX_def)
qed simp

text \<open>
  The plain format does not survive a line feed in a name, although \<open>insert\<close> takes
  it: one inserted entry is read back as two, the second with a name, mode and hash
  chosen by whoever chose the name.
\<close>

lemma tree_newline_forges_entry:
  "let name = ''a'' @ [LF] @ tree_line \<lparr>entry_mode = MTree, entry_hash = sample_hash\<rparr> ''b'';
       e = \<lparr>entry_mode = MBlob, entry_hash = sample_hash\<rparr> in
   tree_insert name e [] = Ok [(name, e)] \<and>
   tree_parse E (tree_serialize [(name, e)]) =
     Ok [(''a'', e), (''b'', \<lparr>entry_mode = MTree, entry_hash = sample_hash\<rparr>)]"
proof -
  let ?e = "\<lparr>entry_mode = MBlob, entry_hash = sample_hash\<rparr>"
  let ?t = "\<lparr>entry_mode = MTree, entry_hash = sample_hash\<rparr>"
  let ?name = "''a'' @ [LF] @ tree_line ?t ''b''"
  have "validate_name ?name = Ok ()"
    by (auto simp: validate_name_Ok tree_line_def hash_hex_notin)
  moreover have "tree_serialize [(?name, ?e)] = tree_serialize [(''a'', ?e), (''b'', ?t)]"
    by (simp add: tree_serialize_def tree_line_def)
  moreover have "tree_fits None [(''a'', ?e), (''b'', ?t)]"
    by (simp add: tree_fits_def name_fits_ascii is_ascii_def AEAD_MAX_def)
  ultimately show ?thesis
    using tree_parse_serialize_plain [of "[(''a'', ?e), (''b'', ?t)]" E None]
    by (simp add: tree_insert_def tree_parse_def Let_def)
qed

text \<open>
  What the parser returns is well formed whatever the bytes: strictly ordered by
  name, every name valid UTF-8 that \<open>validate_name\<close> accepts, every hash 32 bytes.
\<close>

lemma tree_parse_well_formed:
  assumes "tree_parse_with_path_key E pk b = Ok t"
  shows "tree_wf t"
proof -
  have lines: "utf8_valid l" if "utf8_valid b" "l \<in> set (str_lines b)" for l
    using that by (rule str_lines_valid)
  have fold: "tree_wf t" if "try_fold (tree_parse_line E k) [] ls = Ok t" "\<forall>l \<in> set ls. utf8_valid l" for k ls
    using that(1) by (rule try_fold_invariant [where P = tree_wf]) (use that(2) tree_parse_line_wf in \<open>auto simp: tree_wf_def\<close>)
  have valid: "utf8_valid b" using assms by (auto simp: tree_parse_with_path_key_def split: if_splits)
  show ?thesis
  proof (cases "str_lines b")
    case Nil
    then show ?thesis using assms valid by (simp add: tree_parse_with_path_key_def tree_wf_def)
  next
    case (Cons first rest)
    then obtain k ls where "try_fold (tree_parse_line E k) [] ls = Ok t" "set ls \<subseteq> set (first # rest)"
      using assms valid
      by (auto simp: tree_parse_with_path_key_def simp del: try_fold.simps split: if_splits option.splits)
    then show ?thesis using fold lines [OF valid] Cons by (metis subsetD)
  qed
qed

end
