(* ===== verification/Omp_Gc.thy ===== *)
theory Omp_Gc
  imports Omp_Refs Omp_Share Omp_Tree Omp_Chunks
begin

text \<open>
  \<open>crates/omp-core/src/gc.rs\<close>: the walk that computes the objects to keep. Every object
  that a commit leads to is in the live set and nothing else is (\<open>gc_live_exact\<close>), and on a
  store with finitely many objects the walk ends (\<open>gc_walk_ends\<close>).

  The recursion of the code follows the contents of the store, so the model counts fuel:
  \<open>depth\<close> bounds the nesting of directories and \<open>steps\<close> the pops of the commit queue.
  Running out of it is the result \<open>OutOfFuel\<close>, which is none of the program's.
\<close>

section \<open>Walks over a graph\<close>

text \<open>
  What the pieces of the walk promise: \<open>visits ns K K'\<close> says that from the set \<open>K\<close> of
  known nodes, visiting the nodes \<open>ns\<close> led to \<open>K'\<close>, in which the successors of every new
  node are known, and to which only descendants of \<open>ns\<close> were added.
\<close>

locale graph_walk =
  fixes succs :: "'n \<Rightarrow> 'n list"
begin

definition edges :: "('n \<times> 'n) set" where
  "edges = {(m, n). n \<in> set (succs m)}"

definition visits :: "'n list \<Rightarrow> 'n set \<Rightarrow> 'n set \<Rightarrow> bool" where
  "visits ns K K' \<longleftrightarrow> K \<subseteq> K' \<and> set ns \<subseteq> K' \<and> (\<forall>m \<in> K' - K. set (succs m) \<subseteq> K') \<and>
     K' - K \<subseteq> edges\<^sup>* `` set ns"

lemma visits_Nil: "visits [] K K"
  by (simp add: visits_def)

lemma visits_known: "n \<in> K \<Longrightarrow> visits [n] K K"
  by (simp add: visits_def)

lemma visits_append:
  assumes "visits ms K K1" "visits ns K1 K2"
  shows "visits (ms @ ns) K K2"
proof -
  have "\<forall>m \<in> K2 - K. set (succs m) \<subseteq> K2" using assms unfolding visits_def by blast
  moreover have "K2 - K \<subseteq> edges\<^sup>* `` set (ms @ ns)"
  proof
    fix x assume "x \<in> K2 - K"
    then have "x \<in> K1 - K \<or> x \<in> K2 - K1" by blast
    then show "x \<in> edges\<^sup>* `` set (ms @ ns)" using assms unfolding visits_def by auto
  qed
  ultimately show ?thesis using assms unfolding visits_def by auto
qed

lemma visits_set: "visits ms K K' \<Longrightarrow> set ms = set ns \<Longrightarrow> visits ns K K'"
  by (simp add: visits_def)

lemma succs_descend: "edges\<^sup>* `` set (succs n) \<subseteq> edges\<^sup>* `` {n}"
  by (auto simp: edges_def intro: converse_rtrancl_into_rtrancl)

lemma visits_Cons:
  assumes "visits (succs n @ ns) (insert n K) K'"
  shows "visits (n # ns) K K'"
proof -
  have "set (succs n) \<subseteq> K'" "K \<subseteq> K'" "set (n # ns) \<subseteq> K'" using assms by (auto simp: visits_def)
  moreover have "K' - K \<subseteq> edges\<^sup>* `` set (n # ns)"
  proof
    fix x assume "x \<in> K' - K"
    then have "x = n \<or> x \<in> edges\<^sup>* `` set (succs n) \<or> x \<in> edges\<^sup>* `` set ns"
      using assms unfolding visits_def by auto
    then show "x \<in> edges\<^sup>* `` set (n # ns)" using succs_descend [of n] by auto
  qed
  moreover have "\<forall>m \<in> K' - K. set (succs m) \<subseteq> K'"
    using assms calculation(1) unfolding visits_def by blast
  ultimately show ?thesis unfolding visits_def by blast
qed

lemma visits_exact:
  assumes "visits ns {} K"
  shows "K = edges\<^sup>* `` set ns"
proof
  show "K \<subseteq> edges\<^sup>* `` set ns" using assms by (simp add: visits_def)
  have "y \<in> K" if "(x, y) \<in> edges\<^sup>*" "x \<in> set ns" for x y
    using that by induction (use assms in \<open>auto simp: visits_def edges_def\<close>)
  then show "edges\<^sup>* `` set ns \<subseteq> K" by blast
qed

end

section \<open>Model\<close>

record live_set =
  commits :: "hash set"
  trees :: "hash set"
  manifests :: "hash set"
  chunks_objects :: "hash set"
  blobs :: "hash set"
  shares :: "hash set"

definition live_default :: live_set where
  "live_default = \<lparr>commits = {}, trees = {}, manifests = {}, chunks_objects = {}, blobs = {}, shares = {}\<rparr>"

definition live_total :: "live_set \<Rightarrow> nat" where
  "live_total l = card (commits l) + card (trees l) + card (manifests l) + card (chunks_objects l) +
     card (blobs l) + card (shares l)"

definition live_contains :: "live_set \<Rightarrow> hash \<Rightarrow> bool" where
  "live_contains l h \<longleftrightarrow> h \<in> commits l \<or> h \<in> trees l \<or> h \<in> manifests l \<or> h \<in> chunks_objects l \<or>
     h \<in> blobs l \<or> h \<in> shares l"

datatype gc_stop = GcError omp_error | OutOfFuel

definition get_typed :: "object_reader \<Rightarrow> str \<Rightarrow> hash \<Rightarrow> bytes result" where
  "get_typed r want h =
     bind_res (get_obj r h) (\<lambda>v.
     bind_res (ok_or (NotFound (want @ '' '' @ hash_hex h)) v) (\<lambda>(ty, body).
     if ty \<noteq> want then Err (Corrupt (''expected '' @ want @ '', got '' @ ty @ '' for '' @ hash_hex h))
     else Ok body))"

text \<open>The header-only parser that takes over when a commit message is sealed.\<close>

fun gc_headers :: "str list \<Rightarrow> headers \<Rightarrow> headers result" where
  "gc_headers [] hs = Ok hs"
| "gc_headers (line # lines) hs =
     (if line = [] then Ok hs else bind_res (header_line (Ok hs) hs line) (gc_headers lines))"

definition parse_commit_headers :: "ext \<Rightarrow> bytes \<Rightarrow> commit result" where
  "parse_commit_headers E bs =
     (case parse_with_commit_key E None bs of
        Inr c \<Rightarrow> Ok c
      | Inl (Unauthorized _) \<Rightarrow>
          if \<not> utf8_valid bs then Err (Corrupt ''commit is not UTF-8'')
          else bind_res (gc_headers (str_lines bs) no_headers) (\<lambda>hs. commit_of_headers hs [])
      | Inl e \<Rightarrow> Err e)"

definition walk_source :: "object_reader \<Rightarrow> hash \<Rightarrow> live_set \<Rightarrow> live_set result" where
  "walk_source r source_hash live =
     bind_res (get_obj r source_hash) (\<lambda>v.
     bind_res (ok_or (NotFound (''source '' @ hash_hex source_hash)) v) (\<lambda>(ty, body).
     if ty = ''blob'' then Ok (live\<lparr>blobs := insert source_hash (blobs live)\<rparr>)
     else if ty = ''chunks'' then
       bind_res (chunks_parse body) (\<lambda>parsed.
       Ok (live\<lparr>chunks_objects := insert source_hash (chunks_objects live),
                blobs := blobs live \<union> set (map chunk_hash parsed)\<rparr>))
     else Err (Corrupt (''source '' @ hash_hex source_hash @ '' is unexpected type''))))"

text \<open>The manifest in a manifest object: plain, or in an envelope when there are keys.\<close>

definition read_manifest :: "ext \<Rightarrow> tenant_keys option \<Rightarrow> bytes \<Rightarrow> manifest option result" where
  "read_manifest E keys body =
     (case manifest_parse E body of
        Inr m \<Rightarrow> Ok (Some m)
      | Inl _ \<Rightarrow>
          (case keys of
             None \<Rightarrow> Ok None
           | Some k \<Rightarrow>
               bind_res (envelope_parse E body) (\<lambda>env.
               bind_res (envelope_open E env (manifest_key k) (data_key k)) (\<lambda>(m, _). Ok (Some m)))))"

definition walk_manifest ::
  "ext \<Rightarrow> object_reader \<Rightarrow> tenant_keys option \<Rightarrow> hash \<Rightarrow> live_set \<Rightarrow> live_set result" where
  "walk_manifest E r keys h live =
     (if h \<in> manifests live then Ok live
      else let live1 = live\<lparr>manifests := insert h (manifests live)\<rparr> in
      bind_res (get_typed r ''manifest'' h) (\<lambda>body.
      bind_res (read_manifest E keys body) (\<lambda>rm.
      case rm of
        None \<Rightarrow> Ok live1
      | Some m \<Rightarrow>
          walk_source r (m_source_hash m)
            (live1\<lparr>blobs := blobs live1 \<union> snd ` set (m_probe_hashes m)\<rparr>))))"

definition tree_at :: "ext \<Rightarrow> object_reader \<Rightarrow> tenant_keys option \<Rightarrow> hash \<Rightarrow> tree result" where
  "tree_at E r keys h =
     bind_res (get_typed r ''tree'' h) (\<lambda>body.
     tree_parse_with_path_key E (map_option path_key keys) body)"

fun walk_tree :: "nat \<Rightarrow> ext \<Rightarrow> object_reader \<Rightarrow> tenant_keys option \<Rightarrow> hash \<Rightarrow> live_set \<Rightarrow> gc_stop + live_set"
and walk_entry_list :: "nat \<Rightarrow> ext \<Rightarrow> object_reader \<Rightarrow> tenant_keys option \<Rightarrow> entry list \<Rightarrow> live_set \<Rightarrow> gc_stop + live_set"
where
  "walk_tree 0 E r keys h live = Err OutOfFuel"
| "walk_tree (Suc n) E r keys h live =
     (if h \<in> trees live then Ok live
      else bind_res (map_err GcError (tree_at E r keys h)) (\<lambda>t.
        walk_entry_list n E r keys (map snd t) (live\<lparr>trees := insert h (trees live)\<rparr>)))"
| "walk_entry_list n E r keys [] live = Ok live"
| "walk_entry_list n E r keys (e # es) live =
     bind_res
       (case entry_mode e of
          MTree \<Rightarrow> walk_tree n E r keys (entry_hash e) live
        | MManifest \<Rightarrow> map_err GcError (walk_manifest E r keys (entry_hash e) live)
        | MBlob \<Rightarrow> Ok (live\<lparr>blobs := insert (entry_hash e) (blobs live)\<rparr>))
       (\<lambda>live'. walk_entry_list n E r keys es live')"

text \<open>The commit loop; the end of the vector \<open>queue\<close> is the head of the list here.\<close>

fun walk_commits ::
  "nat \<Rightarrow> nat \<Rightarrow> ext \<Rightarrow> object_reader \<Rightarrow> tenant_keys option \<Rightarrow> hash list \<Rightarrow> live_set \<Rightarrow> gc_stop + live_set"
where
  "walk_commits depth steps E r keys [] live = Ok live"
| "walk_commits depth 0 E r keys (h # queue) live = Err OutOfFuel"
| "walk_commits depth (Suc n) E r keys (h # queue) live =
     (if h \<in> commits live then walk_commits depth n E r keys queue live
      else bind_res (map_err GcError (get_typed r ''commit'' h)) (\<lambda>body.
        bind_res (map_err GcError (parse_commit_headers E body)) (\<lambda>c.
        bind_res (walk_tree depth E r keys (commit_tree c)
            (live\<lparr>commits := insert h (commits live)\<rparr>)) (\<lambda>live'.
        walk_commits depth n E r keys (rev (commit_parents c) @ queue) live'))))"

definition gc_walk ::
  "nat \<Rightarrow> nat \<Rightarrow> ext \<Rightarrow> object_reader \<Rightarrow> hash list \<Rightarrow> tenant_keys option \<Rightarrow> hash list \<Rightarrow> gc_stop + live_set"
where
  "gc_walk depth steps E r roots keys also_include_shares =
     bind_res (walk_commits depth steps E r keys (rev roots) live_default) (\<lambda>live.
     Ok (live\<lparr>shares := shares live \<union> set also_include_shares\<rparr>))"

section \<open>The graph of objects\<close>

datatype node = NCommit hash | NTree hash | NManifest hash | NChunks hash | NBlob hash

definition entry_node :: "entry \<Rightarrow> node" where
  "entry_node e =
     (case entry_mode e of MTree \<Rightarrow> NTree (entry_hash e) | MManifest \<Rightarrow> NManifest (entry_hash e)
      | MBlob \<Rightarrow> NBlob (entry_hash e))"

definition source_node :: "object_reader \<Rightarrow> hash \<Rightarrow> node" where
  "source_node r h =
     (case get_obj r h of Inr (Some (ty, _)) \<Rightarrow> if ty = ''chunks'' then NChunks h else NBlob h | _ \<Rightarrow> NBlob h)"

text \<open>What an object refers to, as far as it can be read with the keys at hand.\<close>

fun refers :: "ext \<Rightarrow> object_reader \<Rightarrow> tenant_keys option \<Rightarrow> node \<Rightarrow> node list" where
  "refers E r keys (NCommit h) =
     (case bind_res (get_typed r ''commit'' h) (parse_commit_headers E) of
        Inr c \<Rightarrow> NTree (commit_tree c) # map NCommit (commit_parents c) | Inl _ \<Rightarrow> [])"
| "refers E r keys (NTree h) =
     (case tree_at E r keys h of Inr t \<Rightarrow> map entry_node (map snd t) | Inl _ \<Rightarrow> [])"
| "refers E r keys (NManifest h) =
     (case bind_res (get_typed r ''manifest'' h) (read_manifest E keys) of
        Inr (Some m) \<Rightarrow> source_node r (m_source_hash m) # map NBlob (map snd (m_probe_hashes m))
      | _ \<Rightarrow> [])"
| "refers E r keys (NChunks h) =
     (case bind_res (get_typed r ''chunks'' h) chunks_parse of
        Inr es \<Rightarrow> map NBlob (map chunk_hash es) | Inl _ \<Rightarrow> [])"
| "refers E r keys (NBlob h) = []"

interpretation gc: graph_walk "refers E r keys" for E r keys .

definition live_nodes :: "live_set \<Rightarrow> node set" where
  "live_nodes l = NCommit ` commits l \<union> NTree ` trees l \<union> NManifest ` manifests l \<union>
     NChunks ` chunks_objects l \<union> NBlob ` blobs l"

lemma live_nodes_iff [simp]:
  "NCommit h \<in> live_nodes l \<longleftrightarrow> h \<in> commits l" "NTree h \<in> live_nodes l \<longleftrightarrow> h \<in> trees l"
  "NManifest h \<in> live_nodes l \<longleftrightarrow> h \<in> manifests l" "NChunks h \<in> live_nodes l \<longleftrightarrow> h \<in> chunks_objects l"
  "NBlob h \<in> live_nodes l \<longleftrightarrow> h \<in> blobs l"
  by (auto simp: live_nodes_def)

lemma live_nodes_insert [simp]:
  "live_nodes (l\<lparr>commits := insert h (commits l)\<rparr>) = insert (NCommit h) (live_nodes l)"
  "live_nodes (l\<lparr>trees := insert h (trees l)\<rparr>) = insert (NTree h) (live_nodes l)"
  "live_nodes (l\<lparr>manifests := insert h (manifests l)\<rparr>) = insert (NManifest h) (live_nodes l)"
  "live_nodes (l\<lparr>blobs := blobs l \<union> B\<rparr>) = live_nodes l \<union> NBlob ` B"
  "live_nodes (l\<lparr>blobs := insert h (blobs l)\<rparr>) = insert (NBlob h) (live_nodes l)"
  by (auto simp: live_nodes_def)

section \<open>The walk visits the graph\<close>

lemma visits_blobs: "gc.visits E r keys (map NBlob hs) K (K \<union> NBlob ` set hs)"
proof (induction hs arbitrary: K)
  case Nil
  then show ?case by (simp add: gc.visits_Nil)
next
  case (Cons h hs)
  have "gc.visits E r keys (map NBlob hs) (insert (NBlob h) K) (K \<union> NBlob ` set (h # hs))"
    using Cons [of "insert (NBlob h) K"] by (simp add: insert_commute)
  then show ?case by (simp add: gc.visits_Cons)
qed

lemma walk_source_visits:
  assumes "walk_source r h live = Ok live'"
  shows "gc.visits E r keys [source_node r h] (live_nodes live) (live_nodes live')"
proof -
  obtain ty body where g: "get_obj r h = Ok (Some (ty, body))"
    using assms by (auto simp: walk_source_def res_simps)
  consider (blob) "ty = ''blob''" "live' = live\<lparr>blobs := insert h (blobs live)\<rparr>"
    | (chunks) es where "ty = ''chunks''" "chunks_parse body = Ok es"
        "live' = live\<lparr>chunks_objects := insert h (chunks_objects live), blobs := blobs live \<union> set (map chunk_hash es)\<rparr>"
    using assms g by (auto simp: walk_source_def res_simps split: if_splits)
  then show ?thesis
  proof cases
    case blob
    then show ?thesis using g visits_blobs [of E r keys "[h]" "live_nodes live"] by (simp add: source_node_def)
  next
    case chunks
    have "live_nodes live' = insert (NChunks h) (live_nodes live) \<union> NBlob ` set (map chunk_hash es)"
      by (auto simp: chunks live_nodes_def)
    moreover have "refers E r keys (NChunks h) = map NBlob (map chunk_hash es)"
      using chunks g by (simp add: get_typed_def)
    moreover have "source_node r h = NChunks h" using chunks(1) g by (simp add: source_node_def)
    ultimately show ?thesis
      using visits_blobs [of E r keys "map chunk_hash es" "insert (NChunks h) (live_nodes live)"]
        gc.visits_Cons [of E r keys "NChunks h" "[]"] by simp
  qed
qed

lemma walk_manifest_visits:
  assumes "walk_manifest E r keys h live = Ok live'"
  shows "gc.visits E r keys [NManifest h] (live_nodes live) (live_nodes live')"
proof (cases "h \<in> manifests live")
  case True
  then show ?thesis using assms by (simp add: walk_manifest_def gc.visits_known)
next
  case False
  then obtain body rm where b: "get_typed r ''manifest'' h = Ok body" "read_manifest E keys body = Ok rm"
    using assms by (auto simp: walk_manifest_def Let_def res_simps)
  show ?thesis
  proof (cases rm)
    case None
    then have "live_nodes live' = insert (NManifest h) (live_nodes live)" "refers E r keys (NManifest h) = []"
      using assms b False by (auto simp: walk_manifest_def Let_def)
    then show ?thesis using gc.visits_Cons [of E r keys "NManifest h" "[]"] by (simp add: gc.visits_Nil)
  next
    case (Some m)
    let ?l1 = "live\<lparr>manifests := insert h (manifests live)\<rparr>"
    let ?ps = "map snd (m_probe_hashes m)"
    let ?l2 = "?l1\<lparr>blobs := blobs ?l1 \<union> set ?ps\<rparr>"
    have "walk_source r (m_source_hash m) ?l2 = Ok live'"
      using assms b False Some by (simp add: walk_manifest_def Let_def)
    note src = walk_source_visits [OF this, of E keys]
    have "live_nodes ?l2 = live_nodes ?l1 \<union> NBlob ` set ?ps"
      by (auto simp: live_nodes_def)
    with src have "gc.visits E r keys [source_node r (m_source_hash m)] (live_nodes ?l1 \<union> NBlob ` set ?ps) (live_nodes live')"
      by (simp only:)
    from gc.visits_append [OF visits_blobs this]
    have "gc.visits E r keys (map NBlob ?ps @ [source_node r (m_source_hash m)])
        (insert (NManifest h) (live_nodes live)) (live_nodes live')" by (simp only: live_nodes_insert)
    then have "gc.visits E r keys (refers E r keys (NManifest h) @ [])
        (insert (NManifest h) (live_nodes live)) (live_nodes live')"
      by (rule gc.visits_set) (use b Some in simp)
    then show ?thesis by (rule gc.visits_Cons)
  qed
qed

lemma walk_tree_visits:
  "walk_tree n E r keys h live = Ok live' \<Longrightarrow>
     gc.visits E r keys [NTree h] (live_nodes live) (live_nodes live')"
  "walk_entry_list n E r keys es live = Ok live' \<Longrightarrow>
     gc.visits E r keys (map entry_node es) (live_nodes live) (live_nodes live')"
proof (induction n E r keys h live and n E r keys es live arbitrary: live' and live'
    rule: walk_tree_walk_entry_list.induct)
  case (2 n E r keys h live)
  show ?case
  proof (cases "h \<in> trees live")
    case True
    then show ?thesis using 2 by (simp add: gc.visits_known)
  next
    case False
    then obtain t where t: "tree_at E r keys h = Ok t"
      "walk_entry_list n E r keys (map snd t) (live\<lparr>trees := insert h (trees live)\<rparr>) = Ok live'"
      using "2.prems" by (auto simp: res_simps)
    have "gc.visits E r keys (map entry_node (map snd t)) (insert (NTree h) (live_nodes live)) (live_nodes live')"
      using "2.IH" [OF False _ t(2)] t(1) by simp
    then show ?thesis using t(1) gc.visits_Cons [of E r keys "NTree h" "[]"] by simp
  qed
next
  case (4 n E r keys e es live)
  then obtain live1 where
    l1: "(case entry_mode e of
          MTree \<Rightarrow> walk_tree n E r keys (entry_hash e) live
        | MManifest \<Rightarrow> map_err GcError (walk_manifest E r keys (entry_hash e) live)
        | MBlob \<Rightarrow> Ok (live\<lparr>blobs := insert (entry_hash e) (blobs live)\<rparr>)) = Ok live1"
    "walk_entry_list n E r keys es live1 = Ok live'" by (auto simp: res_simps)
  have "gc.visits E r keys [entry_node e] (live_nodes live) (live_nodes live1)"
  proof (cases "entry_mode e")
    case MBlob
    then show ?thesis
      using l1(1) visits_blobs [of E r keys "[entry_hash e]" "live_nodes live"] by (auto simp: entry_node_def)
  next
    case MManifest
    then show ?thesis using l1(1) walk_manifest_visits by (simp add: entry_node_def map_err_eq_Inr)
  next
    case MTree
    then show ?thesis using l1(1) "4.IH"(1) by (simp add: entry_node_def)
  qed
  from gc.visits_append [OF this "4.IH"(2) [OF l1]] show ?case by simp
qed (simp_all add: gc.visits_Nil)

lemma walk_commits_visits:
  "walk_commits depth steps E r keys queue live = Ok live' \<Longrightarrow>
     gc.visits E r keys (map NCommit queue) (live_nodes live) (live_nodes live')"
proof (induction depth steps E r keys queue live arbitrary: live' rule: walk_commits.induct)
  case (3 depth n E r keys h queue live)
  show ?case
  proof (cases "h \<in> commits live")
    case True
    then have "gc.visits E r keys (map NCommit queue) (live_nodes live) (live_nodes live')" using 3 by simp
    then show ?thesis
      using gc.visits_append [OF gc.visits_known [of "NCommit h" "live_nodes live" E r keys]] True by simp
  next
    case False
    let ?l1 = "live\<lparr>commits := insert h (commits live)\<rparr>"
    obtain body c l2 where c: "get_typed r ''commit'' h = Ok body" "parse_commit_headers E body = Ok c"
      "walk_tree depth E r keys (commit_tree c) ?l1 = Ok l2"
      "walk_commits depth n E r keys (rev (commit_parents c) @ queue) l2 = Ok live'"
      using "3.prems" False by (auto simp: res_simps)
    have "gc.visits E r keys (map NCommit (rev (commit_parents c) @ queue)) (live_nodes l2) (live_nodes live')"
      by (rule "3.IH"(2) [OF False _ _ c(3,4), of body]) (simp_all add: c(1,2))
    from gc.visits_append [OF walk_tree_visits(1) [OF c(3)] this]
    have v: "gc.visits E r keys ([NTree (commit_tree c)] @ map NCommit (rev (commit_parents c) @ queue))
        (insert (NCommit h) (live_nodes live)) (live_nodes live')" by (simp only: live_nodes_insert)
    have "gc.visits E r keys (refers E r keys (NCommit h) @ map NCommit queue)
        (insert (NCommit h) (live_nodes live)) (live_nodes live')"
      by (rule gc.visits_set [OF v]) (use c(1,2) in auto)
    then show ?thesis by (simp add: gc.visits_Cons)
  qed
qed (simp_all add: gc.visits_Nil)

section \<open>The walk ends\<close>

definition has_objects :: "object_reader \<Rightarrow> hash set \<Rightarrow> bool" where
  "has_objects r S \<longleftrightarrow> finite S \<and> (\<forall>h x. get_obj r h = Ok (Some x) \<longrightarrow> h \<in> S)"

lemma get_typed_in: "has_objects r S \<Longrightarrow> get_typed r ty h = Ok b \<Longrightarrow> h \<in> S"
  by (auto simp: has_objects_def get_typed_def res_simps)

lemma card_Diff_insert_less:
  "finite S \<Longrightarrow> h \<in> S \<Longrightarrow> h \<notin> A \<Longrightarrow> insert h A \<subseteq> B \<Longrightarrow> card (S - B) < card (S - A)"
  by (rule psubset_card_mono) auto

lemma walk_tree_grows:
  "walk_tree n E r keys h live = Ok live' \<Longrightarrow> trees live \<subseteq> trees live' \<and> commits live \<subseteq> commits live'"
  using walk_tree_visits(1) [of n E r keys h live live']
  by (auto simp: gc.visits_def dest: subsetD [of _ _ "NTree _"] subsetD [of _ _ "NCommit _"])

lemma walk_manifest_grows:
  "walk_manifest E r keys h live = Ok live' \<Longrightarrow> trees live \<subseteq> trees live'"
  using walk_manifest_visits [of E r keys h live live']
  by (auto simp: gc.visits_def dest: subsetD [of _ _ "NTree _"])

lemma walk_tree_fuel:
  "has_objects r S \<Longrightarrow> card (S - trees live) < n \<Longrightarrow> walk_tree n E r keys h live \<noteq> Err OutOfFuel"
  "has_objects r S \<Longrightarrow> card (S - trees live) < n \<Longrightarrow> walk_entry_list n E r keys es live \<noteq> Err OutOfFuel"
proof (induction n E r keys h live and n E r keys es live rule: walk_tree_walk_entry_list.induct)
  case (2 n E r keys h live)
  have "walk_entry_list n E r keys (map snd t) (live\<lparr>trees := insert h (trees live)\<rparr>) \<noteq> Err OutOfFuel"
    if new: "h \<notin> trees live" and t: "tree_at E r keys h = Ok t" for t
  proof (rule "2.IH" [OF new _ "2.prems"(1)])
    have "h \<in> S" using t get_typed_in [OF "2.prems"(1)] by (auto simp: tree_at_def res_simps)
    then have "card (S - insert h (trees live)) < card (S - trees live)"
      using "2.prems"(1) new by (intro card_Diff_insert_less) (auto simp: has_objects_def)
    then show "card (S - trees (live\<lparr>trees := insert h (trees live)\<rparr>)) < n" using "2.prems"(2) by simp
  qed (simp add: t)
  then show ?case by (cases "tree_at E r keys h") simp_all
next
  case (4 n E r keys e es live)
  let ?step = "case entry_mode e of
          MTree \<Rightarrow> walk_tree n E r keys (entry_hash e) live
        | MManifest \<Rightarrow> map_err GcError (walk_manifest E r keys (entry_hash e) live)
        | MBlob \<Rightarrow> Ok (live\<lparr>blobs := insert (entry_hash e) (blobs live)\<rparr>)"
  have "?step \<noteq> Err OutOfFuel"
    using "4.IH"(1) "4.prems" by (auto simp: map_err_def split: mode.splits sum.splits)
  moreover have "walk_entry_list n E r keys es l \<noteq> Err OutOfFuel" if "?step = Ok l" for l
  proof (rule "4.IH"(2) [OF that "4.prems"(1)])
    have "trees live \<subseteq> trees l"
      using that walk_tree_grows walk_manifest_grows
      by (cases "entry_mode e") (auto simp: map_err_eq_Inr)
    then have "card (S - trees l) \<le> card (S - trees live)"
      using "4.prems"(1) by (intro card_mono) (auto simp: has_objects_def)
    then show "card (S - trees l) < n" using "4.prems"(2) by simp
  qed
  ultimately show ?case by (cases ?step) simp_all
qed simp_all

lemma walk_commits_mono:
  "walk_commits depth n E r keys queue live \<noteq> Err OutOfFuel \<Longrightarrow> n \<le> m \<Longrightarrow>
   walk_commits depth m E r keys queue live = walk_commits depth n E r keys queue live"
proof (induction depth n E r keys queue live arbitrary: m rule: walk_commits.induct)
  case (3 depth n E r keys h queue live)
  then obtain k where k: "m = Suc k" "n \<le> k" by (cases m) auto
  show ?case
  proof (cases "h \<in> commits live")
    case True
    then show ?thesis using "3.IH"(1) [OF True _ k(2)] "3.prems"(1) by (simp add: k(1))
  next
    case False
    then show ?thesis
      using "3.IH"(2) [OF False _ _ _ _ k(2)] "3.prems"(1)
      by (simp add: k(1) cong: bind_res_cong) (auto simp: bind_res_def split: sum.splits)
  qed
qed simp_all

lemma walk_commits_fuel:
  assumes "has_objects r S" "card S < depth"
  shows "\<exists>n. walk_commits depth n E r keys queue live \<noteq> Err OutOfFuel"
proof (induction "(queue, live)" arbitrary: queue live
    rule: wf_induct [OF wf_measures [of "[\<lambda>(q, l). card (S - commits l), \<lambda>(q, l). length q]"]])
  case (1 queue live)
  have fin: "finite S" using assms(1) by (simp add: has_objects_def)
  have IH: "\<exists>n. walk_commits depth n E r keys q l \<noteq> Err OutOfFuel"
    if "card (S - commits l) < card (S - commits live) \<or>
        card (S - commits l) = card (S - commits live) \<and> length q < length queue" for q l
    using 1 that by auto
  show ?case
  proof (cases queue)
    case (Cons h q)
    show ?thesis
    proof (cases "h \<in> commits live")
      case True
      then obtain n where "walk_commits depth n E r keys q live \<noteq> Err OutOfFuel" using IH Cons by auto
      then show ?thesis using True Cons by (intro exI [of _ "Suc n"]) simp
    next
      case False
      let ?l1 = "live\<lparr>commits := insert h (commits live)\<rparr>"
      show ?thesis
      proof (cases "\<exists>body c l2. get_typed r ''commit'' h = Ok body \<and> parse_commit_headers E body = Ok c \<and>
          walk_tree depth E r keys (commit_tree c) ?l1 = Ok l2")
        case True
        then obtain body c l2 where c: "get_typed r ''commit'' h = Ok body" "parse_commit_headers E body = Ok c"
          "walk_tree depth E r keys (commit_tree c) ?l1 = Ok l2" by blast
        have "h \<in> S" using get_typed_in [OF assms(1)] c(1) by blast
        then have "card (S - commits l2) < card (S - commits live)"
          using walk_tree_grows [OF c(3)] fin False by (intro card_Diff_insert_less [of _ h]) auto
        then obtain n where "walk_commits depth n E r keys (rev (commit_parents c) @ q) l2 \<noteq> Err OutOfFuel"
          using IH by blast
        then show ?thesis using Cons False c by (intro exI [of _ "Suc n"]) simp
      next
        case none: False
        have "card (S - trees ?l1) < depth"
          using card_mono [OF fin, of "S - trees ?l1"] assms(2) by simp
        note walk_tree_fuel(1) [OF assms(1) this]
        then show ?thesis
          using Cons False none
          by (intro exI [of _ "Suc 0"]) (auto simp: bind_res_def map_err_def split: sum.splits)
      qed
    qed
  qed simp
qed

section \<open>Properties\<close>

text \<open>
  C30. When the walk succeeds, an object is in the live set exactly when a root commit leads
  to it: through parents, trees, entries, readable manifests, their sources, probes and
  chunks. Reclaiming the other objects loses nothing that a kept commit needs.
\<close>

theorem gc_live_exact:
  assumes "gc_walk depth steps E r roots keys also = Ok live"
  shows "live_nodes live = (gc.edges E r keys)\<^sup>* `` (NCommit ` set roots) \<and>
         set also \<subseteq> shares live"
proof -
  obtain l where l: "walk_commits depth steps E r keys (rev roots) live_default = Ok l"
    "live = l\<lparr>shares := shares l \<union> set also\<rparr>"
    using assms by (auto simp: gc_walk_def res_simps)
  have "gc.visits E r keys (map NCommit (rev roots)) {} (live_nodes l)"
    using walk_commits_visits [OF l(1)] by (simp add: live_nodes_def live_default_def)
  from gc.visits_exact [OF this] have "live_nodes l = (gc.edges E r keys)\<^sup>* `` (NCommit ` set roots)" by simp
  moreover have "live_nodes live = live_nodes l" by (simp add: l(2) live_nodes_def)
  ultimately show ?thesis by (simp add: l(2))
qed

definition tiny_reader :: object_reader where
  "tiny_reader = \<lparr>
     get_obj = (\<lambda>h. Ok (if h = hx NUL then Some (''tree'', [])
                       else if h = hx (CHR ''c'') then
                         (case serialize_with_commit_key toy_ext None (plain_commit []) of
                            Inr bs \<Rightarrow> Some (''commit'', bs) | Inl _ \<Rightarrow> None)
                       else None)),
     get_ref = (\<lambda>_. Ok None), get_head = Ok ''ref: refs/heads/main''\<rparr>"

lemma tiny_walk:
  "\<exists>live. gc_walk 3 5 toy_ext tiny_reader [hx (CHR ''c'')] None [] = Ok live \<and> hx NUL \<in> trees live"
proof -
  obtain bs where bs: "serialize_with_commit_key toy_ext None (plain_commit []) = Ok bs"
    "parse_with_commit_key toy_ext None bs = Ok (plain_commit [])"
    using plain_commit_parse [of "[]"] by (auto simp: commit_parse_def)
  have c: "get_typed tiny_reader ''commit'' (hx (CHR ''c'')) = Ok bs"
    by (simp add: get_typed_def tiny_reader_def bs(1))
  have t: "tree_at toy_ext tiny_reader None (hx NUL) = Ok []"
    by (simp add: tree_at_def get_typed_def tiny_reader_def tree_parse_with_path_key_def)
  have "commit_tree (plain_commit []) = hx NUL" by (simp add: plain_commit_def hx_def)
  then show ?thesis
    using bs(2) c t
    by (simp add: gc_walk_def parse_commit_headers_def live_default_def numeral_3_eq_3 eval_nat_numeral)
qed

theorem gc_live_exact_witness:
  "\<exists>live. gc_walk 3 5 toy_ext tiny_reader [hx (CHR ''c'')] None [] = Ok live \<and>
     live_nodes live = (gc.edges toy_ext tiny_reader None)\<^sup>* `` {NCommit (hx (CHR ''c''))}"
proof -
  obtain live where l: "gc_walk 3 5 toy_ext tiny_reader [hx (CHR ''c'')] None [] = Ok live"
    using tiny_walk by blast
  from gc_live_exact [OF l] l show ?thesis by simp
qed

text \<open>
  On a store with finitely many objects the walk ends: with a depth above their number
  there is a number of steps from which on the result no longer changes and is the
  program's own, a live set or one of its errors.
\<close>

lemma gc_walk_ends:
  assumes "has_objects r S" "card S < depth"
  shows "\<exists>n. gc_walk depth n E r roots keys also \<noteq> Err OutOfFuel \<and>
           (\<forall>m \<ge> n. gc_walk depth m E r roots keys also = gc_walk depth n E r roots keys also)"
proof -
  obtain n where n: "walk_commits depth n E r keys (rev roots) live_default \<noteq> Err OutOfFuel"
    using walk_commits_fuel [OF assms] by blast
  then have "gc_walk depth n E r roots keys also \<noteq> Err OutOfFuel"
    by (auto simp: gc_walk_def res_simps)
  moreover have "gc_walk depth m E r roots keys also = gc_walk depth n E r roots keys also" if "m \<ge> n" for m
    using walk_commits_mono [OF n that] by (simp add: gc_walk_def)
  ultimately show ?thesis by blast
qed

end
