(* ===== verification/Omp_Schema.thy ===== *)
theory Omp_Schema
  imports Omp_Manifest
begin

text \<open>
  \<open>crates/omp-core/src/schema.rs\<close>: field types, sources and transforms, the conversion and
  validation of a schema, the dependency order of its fields, and the matching of MIME
  patterns.

  A \<open>HashMap\<close> is the list of its entries in the order in which they happen to be iterated,
  keys distinct; the results shown do not depend on that order.
\<close>

section \<open>Types and values\<close>

datatype render_kind = RText | RHex | RImage | RMarkdown | RBinary | RNone

record render_hint =
  render_kind_of :: render_kind
  max_inline_bytes :: "nat option"

datatype field_type =
    TyString | TyInt | TyFloat | TyBool | TyDatetime
  | TyListString | TyListInt | TyListFloat | TyListBool | TyListDatetime | TyObject

fun type_str :: "field_type \<Rightarrow> str" where
  "type_str TyString = ''string''"
| "type_str TyInt = ''int''"
| "type_str TyFloat = ''float''"
| "type_str TyBool = ''bool''"
| "type_str TyDatetime = ''datetime''"
| "type_str TyListString = ''list[string]''"
| "type_str TyListInt = ''list[int]''"
| "type_str TyListFloat = ''list[float]''"
| "type_str TyListBool = ''list[bool]''"
| "type_str TyListDatetime = ''list[datetime]''"
| "type_str TyObject = ''object''"

definition field_type_parse :: "str \<Rightarrow> field_type result" where
  "field_type_parse s =
     (if s = ''string'' then Ok TyString
      else if s = ''int'' then Ok TyInt
      else if s = ''float'' then Ok TyFloat
      else if s = ''bool'' then Ok TyBool
      else if s = ''datetime'' then Ok TyDatetime
      else if s = ''list[string]'' then Ok TyListString
      else if s = ''list[int]'' then Ok TyListInt
      else if s = ''list[float]'' then Ok TyListFloat
      else if s = ''list[bool]'' then Ok TyListBool
      else if s = ''list[datetime]'' then Ok TyListDatetime
      else if s = ''object'' then Ok TyObject
      else Err (SchemaValidation ''unknown field type''))"

definition parse_nullable :: "str \<Rightarrow> (field_type \<times> bool) result" where
  "parse_nullable s =
     (case strip_suffix ''?'' s of
        Some inner \<Rightarrow> bind_res (field_type_parse inner) (\<lambda>t. Ok (t, True))
      | None \<Rightarrow> bind_res (field_type_parse s) (\<lambda>t. Ok (t, False)))"

fun accepts :: "field_type \<Rightarrow> field_value \<Rightarrow> bool" where
  "accepts _ FNull \<longleftrightarrow> True"
| "accepts TyString (FString _) \<longleftrightarrow> True"
| "accepts TyInt (FInt _) \<longleftrightarrow> True"
| "accepts TyFloat (FFloat _) \<longleftrightarrow> True"
| "accepts TyFloat (FInt _) \<longleftrightarrow> True"
| "accepts TyBool (FBool _) \<longleftrightarrow> True"
| "accepts TyDatetime (FString _) \<longleftrightarrow> True"
| "accepts TyDatetime (FDatetime _) \<longleftrightarrow> True"
| "accepts TyObject (FObject _) \<longleftrightarrow> True"
| "accepts TyListString (FList items) \<longleftrightarrow> list_all (\<lambda>i. case i of FString _ \<Rightarrow> True | _ \<Rightarrow> False) items"
| "accepts TyListInt (FList items) \<longleftrightarrow> list_all (\<lambda>i. case i of FInt _ \<Rightarrow> True | _ \<Rightarrow> False) items"
| "accepts TyListFloat (FList items) \<longleftrightarrow>
     list_all (\<lambda>i. case i of FFloat _ \<Rightarrow> True | FInt _ \<Rightarrow> True | _ \<Rightarrow> False) items"
| "accepts TyListBool (FList items) \<longleftrightarrow> list_all (\<lambda>i. case i of FBool _ \<Rightarrow> True | _ \<Rightarrow> False) items"
| "accepts TyListDatetime (FList items) \<longleftrightarrow>
     list_all (\<lambda>i. case i of FString _ \<Rightarrow> True | FDatetime _ \<Rightarrow> True | _ \<Rightarrow> False) items"
| "accepts _ _ \<longleftrightarrow> False"

datatype transform = Identity | Slugify | Lower

definition transform_parse :: "str \<Rightarrow> transform result" where
  "transform_parse s =
     (if s = ''identity'' \<or> s = [] then Ok Identity
      else if s = ''slugify'' then Ok Slugify
      else if s = ''lower'' then Ok Lower
      else Err (SchemaValidation ''unknown transform''))"

text \<open>
  The loop of \<open>slugify\<close>. It runs over characters; a character that is not ASCII is a
  run of bytes none of which is alphanumeric, and of such a run only the first byte can
  have an effect.
\<close>

fun slug_loop :: "str \<Rightarrow> str \<Rightarrow> bool \<Rightarrow> str" where
  "slug_loop [] out last_dash = out"
| "slug_loop (c # s) out last_dash =
     (if is_ascii_alphanumeric c then slug_loop s (out @ [ascii_lower c]) False
      else if \<not> last_dash \<and> out \<noteq> [] then slug_loop s (out @ ''-'') True
      else slug_loop s out last_dash)"

definition slugify :: "str \<Rightarrow> str" where
  "slugify s = (let out = slug_loop s [] False in if ends_with ''-'' out then butlast out else out)"

fun transform_apply :: "ext \<Rightarrow> transform \<Rightarrow> field_value \<Rightarrow> field_value" where
  "transform_apply E Identity v = v"
| "transform_apply E Lower (FString s) = FString (to_lowercase E s)"
| "transform_apply E Slugify (FString s) = FString (slugify s)"
| "transform_apply E _ v = v"

section \<open>Schemas\<close>

datatype source =
    SConstant field_value
  | SProbe str "(str, field_value) btree"
  | SUserProvided
  | SField str transform

datatype field =
  Field (f_name: str) (f_source: source) (f_type: field_type) (f_required: bool)
    (f_description: "str option") (f_fallback: "field option")

record schema =
  s_file_type :: str
  s_mime_patterns :: "str list"
  s_allow_extra_fields :: bool
  s_fields :: "field list"
  s_render :: "render_hint option"

record field_summary =
  fs_name :: str
  fs_type :: str
  fs_required :: bool
  fs_description :: "str option"
  fs_source :: str
  fs_probe :: "str option"

record schema_summary =
  ss_file_type :: str
  ss_mime_patterns :: "str list"
  ss_fields :: "field_summary list"

fun source_label :: "source \<Rightarrow> str \<times> str option" where
  "source_label (SConstant _) = (''constant'', None)"
| "source_label (SProbe probe _) = (''probe'', Some probe)"
| "source_label SUserProvided = (''user_provided'', None)"
| "source_label (SField _ _) = (''field'', None)"

definition summary :: "schema \<Rightarrow> schema_summary" where
  "summary s =
     \<lparr>ss_file_type = s_file_type s, ss_mime_patterns = s_mime_patterns s,
      ss_fields = map (\<lambda>f. let (src, probe) = source_label (f_source f) in
         \<lparr>fs_name = f_name f, fs_type = type_str (f_type f), fs_required = f_required f,
          fs_description = f_description f, fs_source = src, fs_probe = probe\<rparr>) (s_fields s)\<rparr>"

definition parse_render_kind :: "str \<Rightarrow> render_kind" where
  "parse_render_kind s =
     (let k = to_ascii_lowercase (trim s) in
      if k = ''text'' then RText
      else if k = ''hex'' then RHex
      else if k = ''image'' then RImage
      else if k = ''markdown'' then RMarkdown
      else if k = ''binary'' then RBinary
      else if k = ''none'' then RNone
      else RBinary)"

definition heuristic_render_kind :: "str \<Rightarrow> render_kind" where
  "heuristic_render_kind mime_pattern =
     (let lower = to_ascii_lowercase mime_pattern in
      if starts_with ''text/markdown'' lower \<or> lower = ''text/x-markdown'' then RMarkdown
      else if starts_with ''image/'' lower then RImage
      else if starts_with ''text/'' lower then RText
      else if starts_with ''application/json'' lower \<or> starts_with ''application/toml'' lower \<or>
              starts_with ''application/yaml'' lower \<or> starts_with ''application/x-yaml'' lower \<or>
              contains_str ''xml'' lower then RText
      else RBinary)"

definition effective_render :: "schema \<Rightarrow> render_hint" where
  "effective_render s =
     (case s_render s of
        Some r \<Rightarrow> r
      | None \<Rightarrow>
          \<lparr>render_kind_of = (case s_mime_patterns s of [] \<Rightarrow> RBinary | m # _ \<Rightarrow> heuristic_render_kind m),
           max_inline_bytes = None\<rparr>)"

fun validate_probe_refs_inner :: "str set \<Rightarrow> field \<Rightarrow> unit result" where
  "validate_probe_refs_inner probes (Field n src t r d fb) =
     bind_res
       (case src of
          SProbe probe _ \<Rightarrow> if probe \<notin> probes then Err (SchemaValidation ''probe not found in tree'') else Ok ()
        | _ \<Rightarrow> Ok ())
       (\<lambda>_. case fb of Some f \<Rightarrow> validate_probe_refs_inner probes f | None \<Rightarrow> Ok ())"

definition validate_probe_refs :: "schema \<Rightarrow> str set \<Rightarrow> unit result" where
  "validate_probe_refs s probes = try_fold (\<lambda>_ f. validate_probe_refs_inner probes f) () (s_fields s)"

fun check_field_refs :: "(str \<times> field) list \<Rightarrow> field \<Rightarrow> unit result" where
  "check_field_refs all (Field n src t r d fb) =
     bind_res
       (case src of
          SField from _ \<Rightarrow> if map_of all from = None then Err (SchemaValidation ''from has no matching field'') else Ok ()
        | _ \<Rightarrow> Ok ())
       (\<lambda>_. case fb of Some f \<Rightarrow> check_field_refs all f | None \<Rightarrow> Ok ())"

section \<open>Raw schemas\<close>

datatype raw_field =
  RawField (rf_source: str) (rf_type: "str option") (rf_required: "bool option")
    (rf_description: "str option") (rf_value: "titem option") (rf_probe: "str option")
    (rf_args: "(str \<times> titem) list option") (rf_from: "str option") (rf_transform: "str option")
    (rf_fallback: "raw_field option")

record raw_schema =
  rs_file_type :: str
  rs_mime_patterns :: "str list"
  rs_allow_extra_fields :: "bool option"
  rs_fields :: "(str \<times> raw_field) list"
  rs_render :: "(str \<times> nat option) option"

definition toml_value_to_field :: "titem \<Rightarrow> field_value" where
  "toml_value_to_field v = from_item v"

text \<open>The \<open>match\<close> on \<open>raw.source\<close>.\<close>

definition convert_source :: "str \<Rightarrow> raw_field \<Rightarrow> source result" where
  "convert_source name raw =
     (let src = rf_source raw in
      if src = ''constant'' then
        bind_res (ok_or (SchemaValidation (''field '' @ name @ '': `constant` needs `value`'')) (rf_value raw))
          (\<lambda>v. Ok (SConstant (toml_value_to_field v)))
      else if src = ''probe'' then
        bind_res (ok_or (SchemaValidation (''field '' @ name @ '': `probe` needs `probe`'')) (rf_probe raw))
          (\<lambda>p. Ok (SProbe p (case rf_args raw of None \<Rightarrow> []
                             | Some a \<Rightarrow> foldl (\<lambda>m (k, v). bt_insert k (toml_value_to_field v) m) [] a)))
      else if src = ''user_provided'' then Ok SUserProvided
      else if src = ''field'' then
        bind_res (ok_or (SchemaValidation (''field '' @ name @ '': `field` needs `from`'')) (rf_from raw)) (\<lambda>from.
        bind_res (transform_parse (case rf_transform raw of None \<Rightarrow> [] | Some t \<Rightarrow> t)) (\<lambda>t.
        Ok (SField from t)))
      else if src = ''fallback'' then Err (SchemaValidation (''field '' @ name @ '': `fallback` is not a valid `source`''))
      else Err (SchemaValidation (''field '' @ name @ '': unknown source'')))"

fun convert_field_with :: "str \<Rightarrow> raw_field \<Rightarrow> field_type option \<Rightarrow> field result" where
  "convert_field_with name (RawField src ty req desc val prb args from tr fb) inherited =
     bind_res (case ty of
         Some s \<Rightarrow> field_type_parse s
       | None \<Rightarrow> ok_or (SchemaValidation (''field '' @ name @ '': missing `type`'')) inherited) (\<lambda>t.
     bind_res (convert_source name (RawField src ty req desc val prb args from tr fb)) (\<lambda>source.
     bind_res (case fb of
         Some raw_fb \<Rightarrow> bind_res (convert_field_with (name @ ''.fallback'') raw_fb (Some t)) (\<lambda>f. Ok (Some f))
       | None \<Rightarrow> Ok None) (\<lambda>fallback.
     Ok (Field name source t (case req of None \<Rightarrow> False | Some b \<Rightarrow> b) desc fallback))))"

definition convert_field :: "str \<Rightarrow> raw_field \<Rightarrow> field result" where
  "convert_field name raw = convert_field_with name raw None"

section \<open>Dependency order\<close>

definition field_from :: "field \<Rightarrow> str option" where
  "field_from f = (case f_source f of SField from _ \<Rightarrow> Some from | _ \<Rightarrow> None)"

text \<open>The tables of Kahn's algorithm, for fields keyed by their names.\<close>

definition deps_of :: "(str \<times> field) list \<Rightarrow> str \<Rightarrow> str list" where
  "deps_of fs n = map fst (filter (\<lambda>(name, f). field_from f = Some n) fs)"

definition indeg_of :: "(str \<times> field) list \<Rightarrow> str \<Rightarrow> nat" where
  "indeg_of fs n = (case map_of fs n of None \<Rightarrow> 0 | Some f \<Rightarrow> if field_from f = None then 0 else 1)"

definition release :: "(str \<Rightarrow> nat) \<times> str list \<Rightarrow> str \<Rightarrow> (str \<Rightarrow> nat) \<times> str list" where
  "release st dep =
     (let (indeg, unlocked) = st; d = indeg dep - 1 in
      (indeg(dep := d), if d = 0 then unlocked @ [dep] else unlocked))"

text \<open>
  The loop, for the names only; \<open>ready\<close> is popped at its end. One round per field is
  enough, which \<open>topo_loop_done\<close> shows.
\<close>

fun topo_loop :: "nat \<Rightarrow> (str \<times> field) list \<Rightarrow> str list \<Rightarrow> (str \<Rightarrow> nat) \<Rightarrow> str list \<Rightarrow> str list" where
  "topo_loop 0 fs ready indeg out = out"
| "topo_loop (Suc k) fs ready indeg out =
     (if ready = [] then out
      else let n = last ready; rest = butlast ready; ds = deps_of fs n in
        if ds = [] then topo_loop k fs rest indeg (out @ [n])
        else let (indeg', unlocked) = foldl release (indeg, []) ds in
          topo_loop k fs (rev (sort (rest @ sort unlocked))) indeg' (out @ [n]))"

definition topo_sort :: "(str \<times> field) list \<Rightarrow> field list result" where
  "topo_sort fs =
     (case find (\<lambda>(name, f). field_from f = Some name) fs of
        Some (name, _) \<Rightarrow> Err (SchemaValidation (''field '' @ name @ '' references itself''))
      | None \<Rightarrow>
          let ready = sort (filter (\<lambda>n. indeg_of fs n = 0) (map fst fs));
              out = topo_loop (length fs) fs ready (indeg_of fs) [] in
          if length out \<noteq> length fs then Err (SchemaValidation ''schema: field dependency cycle'')
          else Ok (map (\<lambda>n. the (map_of fs n)) out))"

section \<open>Parsing a schema\<close>

definition schema_of_raw :: "raw_schema \<Rightarrow> str \<Rightarrow> schema result" where
  "schema_of_raw raw filename_stem =
     (if rs_file_type raw \<noteq> filename_stem then
        Err (SchemaValidation ''file_type does not match schema filename stem'')
      else if rs_mime_patterns raw = [] then
        Err (SchemaValidation ''schema: mime_patterns must be non-empty'')
      else
        bind_res (try_map (\<lambda>(name, rf). bind_res (convert_field name rf) (\<lambda>f. Ok (name, f))) (rs_fields raw)) (\<lambda>converted.
        bind_res (topo_sort converted) (\<lambda>ordered.
        bind_res (try_fold (\<lambda>_ f. check_field_refs converted f) () ordered) (\<lambda>_.
        Ok \<lparr>s_file_type = rs_file_type raw, s_mime_patterns = rs_mime_patterns raw,
            s_allow_extra_fields = (case rs_allow_extra_fields raw of None \<Rightarrow> False | Some b \<Rightarrow> b),
            s_fields = ordered,
            s_render = map_option (\<lambda>(k, m). \<lparr>render_kind_of = parse_render_kind k, max_inline_bytes = m\<rparr>)
                         (rs_render raw)\<rparr>))))"

text \<open>Decoding the document into the raw schema is the work of derived code, a parameter.\<close>

definition schema_parse :: "ext \<Rightarrow> (toml_table \<Rightarrow> str + raw_schema) \<Rightarrow> bytes \<Rightarrow> str \<Rightarrow> schema result" where
  "schema_parse E from_doc bs filename_stem =
     (if \<not> utf8_valid bs then Err (SchemaValidation ''schema not UTF-8'')
      else bind_res (map_err (\<lambda>e. SchemaValidation (''schema TOML: '' @ e)) (bind_res (toml_parse E bs) from_doc)) (\<lambda>raw.
        schema_of_raw raw filename_stem))"

section \<open>MIME patterns\<close>

text \<open>\<open>str::chars\<close>, each character as its bytes.\<close>

definition is_continuation :: "char \<Rightarrow> bool" where
  "is_continuation c \<longleftrightarrow> 0x80 \<le> byte_val c \<and> byte_val c < 0xC0"

fun str_chars :: "str \<Rightarrow> str list" where
  "str_chars [] = []"
| "str_chars (c # s) =
     (case str_chars s of
        (d # ds) # rest \<Rightarrow> if is_continuation d then (c # d # ds) # rest else [c] # (d # ds) # rest
      | _ \<Rightarrow> [[c]])"

text \<open>\<open>glob_inner\<close> on what is left of the pattern and of the text.\<close>

fun glob_inner :: "str list \<Rightarrow> str list \<Rightarrow> bool" where
  "glob_inner [] t \<longleftrightarrow> t = []"
| "glob_inner (c # p) t \<longleftrightarrow>
     (if c = ''*'' then list_ex (\<lambda>i. glob_inner p (drop i t)) [0..<Suc (length t)]
      else if c = ''?'' then t \<noteq> [] \<and> glob_inner p (tl t)
      else t \<noteq> [] \<and> hd t = c \<and> glob_inner p (tl t))"

definition glob_match :: "str \<Rightarrow> str \<Rightarrow> bool" where
  "glob_match pattern txt \<longleftrightarrow> glob_inner (str_chars pattern) (str_chars txt)"

definition mime_matches :: "str \<Rightarrow> str \<Rightarrow> bool" where
  "mime_matches pattern mime \<longleftrightarrow> glob_match (to_ascii_lowercase pattern) (to_ascii_lowercase mime)"

section \<open>The dependency order is correct\<close>

definition from_of :: "(str \<times> field) list \<Rightarrow> str \<Rightarrow> str option" where
  "from_of fs n = (case map_of fs n of None \<Rightarrow> None | Some f \<Rightarrow> field_from f)"

definition topo_inv :: "(str \<times> field) list \<Rightarrow> str list \<Rightarrow> (str \<Rightarrow> nat) \<Rightarrow> str list \<Rightarrow> bool" where
  "topo_inv fs ready indeg out \<longleftrightarrow>
     distinct (out @ ready) \<and>
     (\<forall>n. n \<in> set out \<union> set ready \<longleftrightarrow>
        n \<in> fst ` set fs \<and> (\<forall>m. from_of fs n = Some m \<longrightarrow> m \<in> set out)) \<and>
     (\<forall>n \<in> fst ` set fs. indeg n = (if \<exists>m. from_of fs n = Some m \<and> m \<notin> set out then 1 else 0)) \<and>
     (\<forall>a n b m. out = a @ n # b \<longrightarrow> from_of fs n = Some m \<longrightarrow> m \<in> set a)"

lemma topo_invD:
  assumes "topo_inv fs ready indeg out"
  shows "distinct (out @ ready)"
    "n \<in> set out \<union> set ready \<longleftrightarrow> n \<in> fst ` set fs \<and> (\<forall>m. from_of fs n = Some m \<longrightarrow> m \<in> set out)"
    "n \<in> fst ` set fs \<Longrightarrow> indeg n = (if \<exists>m. from_of fs n = Some m \<and> m \<notin> set out then 1 else 0)"
    "out = a @ n # b \<Longrightarrow> from_of fs n = Some m \<Longrightarrow> m \<in> set a"
  using assms unfolding topo_inv_def by blast+

lemma deps_of_iff:
  assumes "distinct (map fst fs)"
  shows "m \<in> set (deps_of fs n) \<longleftrightarrow> m \<in> fst ` set fs \<and> from_of fs m = Some n"
proof
  assume "m \<in> set (deps_of fs n)"
  then obtain f where "(m, f) \<in> set fs" "field_from f = Some n" by (auto simp: deps_of_def)
  moreover from this have "map_of fs m = Some f" using assms by simp
  ultimately show "m \<in> fst ` set fs \<and> from_of fs m = Some n" by (auto simp: from_of_def rev_image_eqI)
next
  assume "m \<in> fst ` set fs \<and> from_of fs m = Some n"
  then obtain f where "map_of fs m = Some f" "field_from f = Some n"
    by (auto simp: from_of_def split: option.splits)
  then show "m \<in> set (deps_of fs n)" by (force simp: deps_of_def dest: map_of_SomeD)
qed

lemma foldl_release:
  assumes "distinct ds" "\<forall>d \<in> set ds. indeg d = 1"
  shows "foldl release (indeg, u) ds = (\<lambda>x. if x \<in> set ds then 0 else indeg x, u @ ds)"
  using assms
proof (induction ds arbitrary: indeg u)
  case (Cons d ds)
  have "foldl release (indeg, u) (d # ds) = foldl release (indeg(d := 0), u @ [d]) ds"
    using Cons.prems by (simp add: release_def)
  also have "\<dots> = (\<lambda>x. if x \<in> set ds then 0 else (indeg(d := 0)) x, (u @ [d]) @ ds)"
    using Cons.prems by (intro Cons.IH) auto
  finally show ?case by (simp add: fun_eq_iff)
qed simp

text \<open>One round: a ready name moves to the output and what waited for it gets ready.\<close>

lemma topo_round:
  assumes "distinct (map fst fs)" "topo_inv fs ready indeg out" "ready \<noteq> []"
  obtains ready' indeg' n where
    "topo_loop (Suc k) fs ready indeg out = topo_loop k fs ready' indeg' (out @ [n])"
    "distinct ready'" "set ready' = set (butlast ready) \<union> set (deps_of fs n)" "n = last ready"
    "\<forall>x. indeg' x = (if x \<in> set (deps_of fs n) then 0 else indeg x)"
proof -
  let ?n = "last ready" let ?ds = "deps_of fs ?n"
  note inv = topo_invD [OF assms(2)]
  have n: "?n \<in> set ready" "?n \<notin> set out" using assms(3) inv(1) by auto
  have ds: "d \<notin> set out \<union> set ready" "indeg d = 1" if "d \<in> set ?ds" for d
    using that n inv(2,3) [of d] by (auto simp: deps_of_iff [OF assms(1)])
  have dist: "distinct ?ds"
    using distinct_filter [of "map fst fs"] assms(1) by (simp add: deps_of_def distinct_map_filter)
  have rel: "foldl release (indeg, []) ?ds = (\<lambda>x. if x \<in> set ?ds then 0 else indeg x, ?ds)"
    using foldl_release [OF dist, of indeg "[]"] ds(2) by simp
  have rest: "distinct (butlast ready)" "set (butlast ready) \<inter> set ?ds = {}"
    using inv(1) ds(1) by (auto simp: distinct_butlast dest: in_set_butlastD)
  show thesis
  proof (cases "?ds = []")
    case True
    then show ?thesis using assms(3) rest(1) by (intro that [of "butlast ready" indeg ?n]) simp_all
  next
    case False
    then show ?thesis
      using assms(3) rest dist rel
      by (intro that [of "rev (sort (butlast ready @ sort ?ds))" "\<lambda>x. if x \<in> set ?ds then 0 else indeg x" ?n]) (auto simp: Let_def)
  qed
qed

lemma topo_inv_step:
  assumes "distinct (map fst fs)" "topo_inv fs ready indeg out" "ready \<noteq> []" "n = last ready"
    and "distinct ready'" "set ready' = set (butlast ready) \<union> set (deps_of fs n)"
    and "\<forall>x. indeg' x = (if x \<in> set (deps_of fs n) then 0 else indeg x)"
  shows "topo_inv fs ready' indeg' (out @ [n])"
proof -
  note inv = topo_invD [OF assms(2)] and deps = deps_of_iff [OF assms(1)]
  have n: "n \<in> set ready" "n \<notin> set out" "n \<notin> set (butlast ready)" "set ready = insert n (set (butlast ready))"
    using assms(3,4) inv(1) by (cases ready rule: rev_cases; auto)+
  have fresh: "d \<notin> set out \<union> set ready" if "d \<in> set (deps_of fs n)" for d
    using that n inv(2) [of d] by (auto simp: deps)
  show ?thesis
    unfolding topo_inv_def
  proof (intro conjI allI ballI impI)
    show "distinct ((out @ [n]) @ ready')" using inv(1) n fresh assms(5,6) by (auto dest: in_set_butlastD)
    fix x
    have "x \<in> set out \<union> set ready \<or> x \<in> set (deps_of fs n) \<longleftrightarrow>
        x \<in> fst ` set fs \<and> (\<forall>m. from_of fs x = Some m \<longrightarrow> m \<in> set (out @ [n]))"
      using inv(2) [of x] by (auto simp: deps)
    then show "x \<in> set (out @ [n]) \<union> set ready' \<longleftrightarrow>
        x \<in> fst ` set fs \<and> (\<forall>m. from_of fs x = Some m \<longrightarrow> m \<in> set (out @ [n]))"
      using assms(6) n(4) by auto
  next
    fix x assume "x \<in> fst ` set fs"
    then show "indeg' x = (if \<exists>m. from_of fs x = Some m \<and> m \<notin> set (out @ [n]) then 1 else 0)"
      using inv(3) [of x] assms(7) by (auto simp: deps)
  next
    fix a x b m assume ab: "out @ [n] = a @ x # b" and m: "from_of fs x = Some m"
    show "m \<in> set a"
    proof (cases b rule: rev_cases)
      case Nil
      then have "a = out" "x = n" using ab by simp_all
      then show ?thesis using inv(2) [of n] n(1) m by auto
    next
      case (snoc b' y)
      then have "out = a @ x # b'" using ab by simp
      then show ?thesis using inv(4) m by blast
    qed
  qed
qed

lemma topo_loop_done:
  assumes "distinct (map fst fs)" "topo_inv fs ready indeg out" "length fs \<le> length out + k"
  shows "\<exists>indeg'. topo_inv fs [] indeg' (topo_loop k fs ready indeg out)"
  using assms(2,3)
proof (induction k arbitrary: ready indeg out)
  case 0
  note inv = topo_invD [OF 0(1)]
  have "set (out @ ready) \<subseteq> set (map fst fs)" using inv(2) by auto
  then have "length (out @ ready) \<le> length (map fst fs)"
    using inv(1) assms(1) by (metis card_mono distinct_card finite_set)
  then have "length ready = 0" using 0(2) by (simp only: length_append length_map)
  then have "ready = []" by simp
  then show ?case using 0(1) by auto
next
  case (Suc k)
  show ?case
  proof (cases "ready = []")
    case True
    then show ?thesis using Suc.prems(1) by auto
  next
    case False
    obtain ready' indeg' n where r:
      "topo_loop (Suc k) fs ready indeg out = topo_loop k fs ready' indeg' (out @ [n])"
      "distinct ready'" "set ready' = set (butlast ready) \<union> set (deps_of fs n)" "n = last ready"
      "\<forall>x. indeg' x = (if x \<in> set (deps_of fs n) then 0 else indeg x)"
      by (rule topo_round [OF assms(1) Suc.prems(1) False])
    have "topo_inv fs ready' indeg' (out @ [n])"
      by (rule topo_inv_step [OF assms(1) Suc.prems(1) False r(4,2,3,5)])
    then have "\<exists>i. topo_inv fs [] i (topo_loop k fs ready' indeg' (out @ [n]))"
      by (rule Suc.IH) (use Suc.prems(2) in simp)
    then show ?thesis by (simp only: r(1))
  qed
qed

definition topo_names :: "(str \<times> field) list \<Rightarrow> str list" where
  "topo_names fs = topo_loop (length fs) fs (sort (filter (\<lambda>n. indeg_of fs n = 0) (map fst fs))) (indeg_of fs) []"

lemma topo_names_inv:
  assumes "distinct (map fst fs)"
  shows "\<exists>indeg. topo_inv fs [] indeg (topo_names fs)"
  unfolding topo_names_def
proof (rule topo_loop_done [OF assms])
  have "indeg_of fs n = (if from_of fs n = None then 0 else 1)" for n
    by (auto simp: indeg_of_def from_of_def split: option.splits)
  then show "topo_inv fs (sort (filter (\<lambda>n. indeg_of fs n = 0) (map fst fs))) (indeg_of fs) []"
    using assms by (auto simp: topo_inv_def)
qed simp

lemma from_of_entry: "distinct (map fst fs) \<Longrightarrow> (n, f) \<in> set fs \<Longrightarrow> from_of fs n = field_from f"
  by (simp add: from_of_def)

text \<open>A name for every field that the ranks decrease along dependencies.\<close>

definition ranked :: "(str \<times> field) list \<Rightarrow> (str \<Rightarrow> nat) \<Rightarrow> bool" where
  "ranked fs rank \<longleftrightarrow> (\<forall>(n, f) \<in> set fs. \<forall>m. field_from f = Some m \<longrightarrow> m \<in> fst ` set fs \<and> rank m < rank n)"

lemma rankedD:
  assumes "ranked fs rank" "distinct (map fst fs)" "n \<in> fst ` set fs" "from_of fs n = Some m"
  shows "m \<in> fst ` set fs \<and> rank m < rank n"
  using assms from_of_entry [OF assms(2)] by (fastforce simp: ranked_def)

lemma topo_names_props:
  assumes "distinct (map fst fs)"
  shows "distinct (topo_names fs)" "set (topo_names fs) \<subseteq> fst ` set fs"
    "n \<in> fst ` set fs \<Longrightarrow> (\<And>m. from_of fs n = Some m \<Longrightarrow> m \<in> set (topo_names fs)) \<Longrightarrow> n \<in> set (topo_names fs)"
    "topo_names fs = a @ n # b \<Longrightarrow> from_of fs n = Some m \<Longrightarrow> m \<in> set a"
proof -
  obtain i where "topo_inv fs [] i (topo_names fs)" using topo_names_inv [OF assms] by blast
  note inv = topo_invD [OF this]
  show "distinct (topo_names fs)" "set (topo_names fs) \<subseteq> fst ` set fs" using inv(1,2) by auto
  show "n \<in> set (topo_names fs)" if "n \<in> fst ` set fs" "\<And>m. from_of fs n = Some m \<Longrightarrow> m \<in> set (topo_names fs)"
    using inv(2) [of n] that by auto
  show "topo_names fs = a @ n # b \<Longrightarrow> from_of fs n = Some m \<Longrightarrow> m \<in> set a" by (rule inv(4))
qed

lemma topo_names_complete:
  assumes "distinct (map fst fs)" "ranked fs rank"
  shows "set (topo_names fs) = fst ` set fs"
proof -
  have "n \<in> fst ` set fs \<Longrightarrow> n \<in> set (topo_names fs)" for n
  proof (induction "rank n" arbitrary: n rule: less_induct)
    case less
    then show ?case
      using topo_names_props(3) [OF assms(1) less(2)] rankedD [OF assms(2,1) less(2)] by blast
  qed
  then show ?thesis using topo_names_props(2) [OF assms(1)] by blast
qed

lemma topo_names_ranked:
  assumes "distinct (map fst fs)" "set (topo_names fs) = fst ` set fs"
  shows "ranked fs (\<lambda>n. length (takeWhile (\<lambda>x. x \<noteq> n) (topo_names fs)))"
proof -
  have "m \<in> fst ` set fs \<and> length (takeWhile (\<lambda>x. x \<noteq> m) (topo_names fs)) < length (takeWhile (\<lambda>x. x \<noteq> n) (topo_names fs))"
    if "(n, f) \<in> set fs" "field_from f = Some m" for n f m
  proof -
    have fr: "from_of fs n = Some m" using from_of_entry [OF assms(1) that(1)] that(2) by simp
    have "n \<in> set (topo_names fs)" using that(1) assms(2) by force
    then obtain a b where ab: "topo_names fs = a @ n # b" by (auto simp: in_set_conv_decomp)
    have m: "m \<in> set a" by (rule topo_names_props(4) [OF assms(1) ab fr])
    then obtain a1 a2 where a: "a = a1 @ m # a2" "m \<notin> set a1" by (meson split_list_first)
    have "n \<notin> set a" using topo_names_props(1) [OF assms(1)] ab by simp
    then have "takeWhile (\<lambda>x. x \<noteq> n) (topo_names fs) = a" using takeWhile_append2 [of a "\<lambda>x. x \<noteq> n" "n # b"] by (fastforce simp: ab)
    moreover have "takeWhile (\<lambda>x. x \<noteq> m) (topo_names fs) = a1"
      using a takeWhile_append2 [of a1 "\<lambda>x. x \<noteq> m" "m # a2 @ n # b"] by (fastforce simp: ab)
    moreover have "m \<in> fst ` set fs" using m ab assms(2) by auto
    ultimately show ?thesis using a by simp
  qed
  then show ?thesis by (auto simp: ranked_def)
qed

lemma topo_sort_Ok_iff:
  assumes "distinct (map fst fs)"
  shows "topo_sort fs = Ok out \<longleftrightarrow>
     set (topo_names fs) = fst ` set fs \<and> out = map (\<lambda>n. the (map_of fs n)) (topo_names fs)"
proof -
  have len: "length (topo_names fs) = length fs \<longleftrightarrow> set (topo_names fs) = fst ` set fs"
  proof -
    have "card (set (topo_names fs)) = length (topo_names fs)" "card (fst ` set fs) = length fs"
      using topo_names_props(1) [OF assms] distinct_card [OF assms] by (simp_all add: distinct_card)
    then show ?thesis using topo_names_props(2) [OF assms] by (metis card_subset_eq finite_imageI finite_set)
  qed
  have "\<not> (\<exists>n f. (n, f) \<in> set fs \<and> field_from f = Some n)" if "set (topo_names fs) = fst ` set fs"
    using topo_names_ranked [OF assms that] by (fastforce simp: ranked_def)
  note no_self = this
  show ?thesis
  proof (cases "find (\<lambda>(name, f). field_from f = Some name) fs")
    case None
    then have "topo_sort fs = (if length (topo_names fs) \<noteq> length fs then Err (SchemaValidation ''schema: field dependency cycle'')
        else Ok (map (\<lambda>n. the (map_of fs n)) (topo_names fs)))"
      by (simp add: topo_sort_def topo_names_def)
    then show ?thesis using len by auto
  next
    case (Some nf)
    then obtain e where "topo_sort fs = Err e" by (cases nf) (simp add: topo_sort_def)
    moreover have "set (topo_names fs) \<noteq> fst ` set fs"
      using no_self Some by (cases nf) (auto simp: find_Some_iff dest: nth_mem)
    ultimately show ?thesis by simp
  qed
qed

section \<open>Properties\<close>

text \<open>
  C31. The fields of a schema are put in an order in which every field comes after the one
  it is computed from, and none is lost or repeated. This succeeds exactly when the
  dependencies lead to fields of the schema and have no cycle.
\<close>

theorem topo_sort_spec:
  assumes "distinct (map fst fs)" "\<forall>(n, f) \<in> set fs. f_name f = n"
  shows "(\<forall>out. topo_sort fs = Ok out \<longrightarrow> mset out = mset (map snd fs) \<and>
            (\<forall>a f b m. out = a @ f # b \<and> field_from f = Some m \<longrightarrow> m \<in> f_name ` set a)) \<and>
         ((\<exists>out. topo_sort fs = Ok out) \<longleftrightarrow> (\<exists>rank. ranked fs rank))"
proof (intro conjI allI impI)
  fix out assume "topo_sort fs = Ok out"
  then have all: "set (topo_names fs) = fst ` set fs" and out: "out = map (\<lambda>n. the (map_of fs n)) (topo_names fs)"
    by (simp_all add: topo_sort_Ok_iff [OF assms(1)])
  have get: "map_of fs n = Some f" "f_name f = n" "field_from f = from_of fs n" if "(n, f) \<in> set fs" for n f
    using that assms from_of_entry [OF assms(1) that] by auto
  have "mset (topo_names fs) = mset (map fst fs)"
    using all topo_names_props(1) [OF assms(1)] assms(1) set_eq_iff_mset_eq_distinct [of "topo_names fs" "map fst fs"] by simp
  then have "mset out = mset (map (\<lambda>n. the (map_of fs n)) (map fst fs))" by (simp add: out mset_map del: map_map)
  also have "map (\<lambda>n. the (map_of fs n)) (map fst fs) = map snd fs" using get(1) by auto
  finally show "mset out = mset (map snd fs)" .
  fix a f b m assume af: "out = a @ f # b \<and> field_from f = Some m"
  then obtain na n nb where n: "topo_names fs = na @ n # nb" "a = map (\<lambda>n. the (map_of fs n)) na" "f = the (map_of fs n)"
    by (auto simp: out map_eq_append_conv map_eq_Cons_conv)
  have name: "f_name (the (map_of fs x)) = x" if "x \<in> set (topo_names fs)" for x
  proof -
    have "x \<in> fst ` set fs" using that all by simp
    then obtain h where "(x, h) \<in> set fs" by auto
    then show ?thesis using get(1,2) by simp
  qed
  have "n \<in> fst ` set fs" unfolding all [symmetric] n(1) by simp
  then obtain g where "(n, g) \<in> set fs" by auto
  then have "from_of fs n = Some m" using get(1,3) af n(3) by auto
  then have "m \<in> set na" using topo_names_props(4) [OF assms(1) n(1)] by blast
  then have "f_name (the (map_of fs m)) = m" "the (map_of fs m) \<in> set a"
    using name [of m] n(1,2) by auto
  then show "m \<in> f_name ` set a" by (metis imageI)
next
  show "(\<exists>out. topo_sort fs = Ok out) \<longleftrightarrow> (\<exists>rank. ranked fs rank)"
    unfolding topo_sort_Ok_iff [OF assms(1)]
    using topo_names_complete [OF assms(1)] topo_names_ranked [OF assms(1)] by (metis (no_types, lifting))
qed

definition sample_fields :: "(str \<times> field) list" where
  "sample_fields =
     [(''slug'', Field ''slug'' (SField ''title'' Slugify) TyString False None None),
      (''title'', Field ''title'' SUserProvided TyString False None None)]"

lemma sample_fields_ok:
  "distinct (map fst sample_fields)" "\<forall>(n, f) \<in> set sample_fields. f_name f = n"
  "ranked sample_fields (\<lambda>n. if n = ''slug'' then 1 else 0)"
  by (simp_all add: sample_fields_def ranked_def field_from_def)

theorem topo_sort_spec_witness:
  "\<exists>out. topo_sort sample_fields = Ok out \<and> mset out = mset (map snd sample_fields)"
  using topo_sort_spec [OF sample_fields_ok(1,2)] sample_fields_ok(3) by blast

text \<open>The shape of a slug: lower-case letters and digits in groups joined by single dashes.\<close>

abbreviation DASH :: char where "DASH \<equiv> CHR ''-''"

definition slug_char :: "char \<Rightarrow> bool" where
  "slug_char c \<longleftrightarrow> c = DASH \<or> 48 \<le> byte_val c \<and> byte_val c \<le> 57 \<or> 97 \<le> byte_val c \<and> byte_val c \<le> 122"

definition slug_run :: "str \<Rightarrow> bool" where
  "slug_run s \<longleftrightarrow> list_all slug_char s \<and> (s \<noteq> [] \<longrightarrow> hd s \<noteq> DASH) \<and>
     successively (\<lambda>x y. \<not> (x = DASH \<and> y = DASH)) s"

definition slug_ok :: "str \<Rightarrow> bool" where
  "slug_ok s \<longleftrightarrow> slug_run s \<and> (s \<noteq> [] \<longrightarrow> last s \<noteq> DASH)"

lemma slug_char_lower: "is_ascii_alphanumeric c \<Longrightarrow> slug_char (ascii_lower c) \<and> ascii_lower c \<noteq> DASH"
  by (cases "ascii_lower c = DASH") (auto simp: is_ascii_alphanumeric_def ascii_lower_def Let_def slug_char_def
      dest: arg_cong [where f = "of_char :: char \<Rightarrow> nat"])

lemma slug_run_snoc:
  "slug_run (s @ [c]) \<longleftrightarrow> slug_run s \<and> slug_char c \<and> (c = DASH \<longrightarrow> s \<noteq> [] \<and> last s \<noteq> DASH)"
  by (cases s rule: rev_cases) (auto simp: slug_run_def successively_append_iff hd_append split: if_splits)

lemma slug_loop_run:
  "slug_run out \<Longrightarrow> last_dash \<longleftrightarrow> out \<noteq> [] \<and> last out = DASH \<Longrightarrow> slug_run (slug_loop s out last_dash)"
proof (induction s out last_dash rule: slug_loop.induct)
  case (2 c s out last_dash)
  then show ?case using slug_char_lower [of c] by (auto simp: slug_run_snoc slug_char_def)
qed simp

lemma slugify_ok: "slug_ok (slugify s)"
proof -
  have run: "slug_run (slug_loop s [] False)" by (rule slug_loop_run) (simp_all add: slug_run_def)
  then show ?thesis
    by (cases "slug_loop s [] False" rule: rev_cases)
      (auto simp: slugify_def slug_ok_def ends_with_def starts_with_def Let_def slug_run_snoc)
qed

lemma slug_loop_id:
  "slug_run (out @ s) \<Longrightarrow> last_dash \<longleftrightarrow> out \<noteq> [] \<and> last out = DASH \<Longrightarrow> slug_loop s out last_dash = out @ s"
proof (induction s arbitrary: out last_dash)
  case (Cons c s)
  have run: "slug_run (out @ [c])"
    using Cons.prems(1) by (auto simp: slug_run_def successively_append_iff hd_append split: if_splits)
  have al: "is_ascii_alphanumeric c \<longleftrightarrow> c \<noteq> DASH" "ascii_lower c = c"
    using run by (auto simp: slug_run_snoc slug_char_def is_ascii_alphanumeric_def ascii_lower_def Let_def)
  show ?case
    using run Cons.prems Cons.IH [of "out @ [c]"] by (auto simp: al slug_run_snoc)
qed simp

lemma slugify_id: "slug_ok s \<Longrightarrow> slugify s = s"
  using slug_loop_id [of "[]" s False]
  by (cases s rule: rev_cases) (auto simp: slugify_def slug_ok_def Let_def ends_with_def starts_with_def)

text \<open>
  A slug is made of lower-case letters and digits in groups joined by single dashes,
  whatever the text it is made from, and making a slug of a slug changes nothing.
\<close>

lemma slugify_normal: "slug_ok (slugify s) \<and> slugify (slugify s) = slugify s"
  using slugify_ok slugify_id by blast

text \<open>What a pattern means: \<open>*\<close> stands for any text, \<open>?\<close> for any one character.\<close>

inductive glob_rel :: "str list \<Rightarrow> str list \<Rightarrow> bool" where
  glob_end: "glob_rel [] []"
| glob_star: "glob_rel p t \<Longrightarrow> glob_rel (''*'' # p) (u @ t)"
| glob_any: "glob_rel p t \<Longrightarrow> glob_rel (''?'' # p) (c # t)"
| glob_char: "glob_rel p t \<Longrightarrow> c \<noteq> ''*'' \<Longrightarrow> c \<noteq> ''?'' \<Longrightarrow> glob_rel (c # p) (c # t)"

inductive_simps glob_rel_simps: "glob_rel [] t" "glob_rel (c # p) t"

lemma glob_inner_iff: "glob_inner p t \<longleftrightarrow> glob_rel p t"
proof (induction p t rule: glob_inner.induct)
  case (1 t)
  then show ?case by (simp add: glob_rel_simps)
next
  case (2 c p t)
  consider "c = ''*''" | "c = ''?''" | "c \<noteq> ''*''" "c \<noteq> ''?''" by blast
  then show ?case
  proof cases
    case 1
    have "glob_rel (c # p) t \<longleftrightarrow> (\<exists>u t'. t = u @ t' \<and> glob_rel p t')"
      using 1 by (auto simp: glob_rel_simps)
    also have "\<dots> \<longleftrightarrow> (\<exists>i \<le> length t. glob_rel p (drop i t))"
    proof
      assume "\<exists>u t'. t = u @ t' \<and> glob_rel p t'"
      then obtain u t' where "t = u @ t'" "glob_rel p t'" by blast
      then show "\<exists>i \<le> length t. glob_rel p (drop i t)" by (intro exI [of _ "length u"]) simp
    qed (metis append_take_drop_id)
    also have "\<dots> \<longleftrightarrow> (\<exists>i \<in> set [0..<Suc (length t)]. glob_inner p (drop i t))"
      using 2(1) [OF 1] by (metis atLeastLessThan_iff less_Suc_eq_le set_upt zero_le)
    finally show ?thesis using 1 by (simp only: glob_inner.simps list_ex_iff if_True simp_thms)
  next
    case c: 2
    then show ?thesis using 2(2) by (cases t) (auto simp: glob_rel_simps)
  next
    case c: 3
    then show ?thesis using 2(3) by (cases t) (auto simp: glob_rel_simps)
  qed
qed

text \<open>
  The matcher decides the meaning of patterns: a MIME type matches a pattern exactly
  when, in lower case, the pattern's stars can be replaced by texts and its question
  marks by characters to give the type.
\<close>

lemma mime_matches_iff:
  "mime_matches pattern mime \<longleftrightarrow>
     glob_rel (str_chars (to_ascii_lowercase pattern)) (str_chars (to_ascii_lowercase mime))"
  by (simp add: mime_matches_def glob_match_def glob_inner_iff)

text \<open>Type names are read back.\<close>

lemma field_type_parse_type_str: "field_type_parse (type_str t) = Ok t"
  by (cases t) (simp_all add: field_type_parse_def)

interpretation type_name_codec: codec type_str field_type_parse "\<lambda>_. True"
  by unfold_locales (rule field_type_parse_type_str)

end
