(* ===== verification/Float64.thy ===== *)
theory Float64
  imports Toml_Data
begin

text \<open>
  What the sources use of \<open>f64\<close>, on the 64-bit patterns: the conversion \<open>i64 as f64\<close>, the
  comparisons, and the test \<open>(a - b).abs() < f64::EPSILON\<close>.
\<close>

fun msb_pos :: "nat \<Rightarrow> nat" where
  "msb_pos n = (if n < 2 then 0 else Suc (msb_pos (n div 2)))"

declare msb_pos.simps [simp del]

text \<open>Round to nearest, ties to even, of a positive integer to 53 significant bits.\<close>

definition f64_of_nat :: "nat \<Rightarrow> nat" where
  "f64_of_nat m =
     (if m = 0 then 0
      else let e = msb_pos m in
        if e \<le> 52 then (e + 1023) * 2 ^ 52 + (m * 2 ^ (52 - e) - 2 ^ 52)
        else let s = 2 ^ (e - 52); q = m div s; r = m mod s; half = s div 2;
                 q' = (if r > half \<or> r = half \<and> odd q then q + 1 else q) in
             (e + 1023) * 2 ^ 52 + (q' - 2 ^ 52))"

definition f64_of_int :: "int \<Rightarrow> f64" where
  "f64_of_int i = (if i < 0 then word_of_nat (2 ^ 63 + f64_of_nat (nat (- i))) else word_of_nat (f64_of_nat (nat i)))"

definition f64_exp :: "f64 \<Rightarrow> nat" where "f64_exp x = unat (drop_bit 52 x AND 0x7FF)"
definition f64_frac :: "f64 \<Rightarrow> nat" where "f64_frac x = unat (x AND 0xFFFFFFFFFFFFF)"
definition f64_neg :: "f64 \<Rightarrow> bool" where "f64_neg x \<longleftrightarrow> bit x 63"

definition f64_nan :: "f64 \<Rightarrow> bool" where
  "f64_nan x \<longleftrightarrow> f64_exp x = 0x7FF \<and> f64_frac x \<noteq> 0"

definition f64_inf :: "f64 \<Rightarrow> bool" where
  "f64_inf x \<longleftrightarrow> f64_exp x = 0x7FF \<and> f64_frac x = 0"

text \<open>The value times \<open>2\<^sup>1\<^sup>0\<^sup>7\<^sup>4\<close>, an integer; an infinity is put beyond every finite value.\<close>

definition f64_mag :: "f64 \<Rightarrow> int" where
  "f64_mag x =
     (if f64_exp x = 0x7FF then 2 ^ 2200
      else if f64_exp x = 0 then int (f64_frac x)
      else int ((2 ^ 52 + f64_frac x) * 2 ^ (f64_exp x - 1)))"

definition f64_scaled :: "f64 \<Rightarrow> int" where
  "f64_scaled x = (if f64_neg x then - f64_mag x else f64_mag x)"

definition f64_lt :: "f64 \<Rightarrow> f64 \<Rightarrow> bool" where
  "f64_lt a b \<longleftrightarrow> \<not> f64_nan a \<and> \<not> f64_nan b \<and> f64_scaled a < f64_scaled b"

definition f64_le :: "f64 \<Rightarrow> f64 \<Rightarrow> bool" where
  "f64_le a b \<longleftrightarrow> \<not> f64_nan a \<and> \<not> f64_nan b \<and> f64_scaled a \<le> f64_scaled b"

text \<open>
  \<open>EPSILON\<close> is \<open>2\<^sup>-\<^sup>5\<^sup>2\<close>. The difference is rounded before it is compared, and just below
  \<open>EPSILON\<close> the spacing is \<open>2\<^sup>-\<^sup>1\<^sup>0\<^sup>5\<close>: what is not below \<open>2\<^sup>-\<^sup>5\<^sup>2 - 2\<^sup>-\<^sup>1\<^sup>0\<^sup>6\<close> rounds up to it.
\<close>

definition f64_near :: "f64 \<Rightarrow> f64 \<Rightarrow> bool" where
  "f64_near a b \<longleftrightarrow> is_finite a \<and> is_finite b \<and> \<bar>f64_scaled a - f64_scaled b\<bar> < 2 ^ 1022 - 2 ^ 968"

text \<open>The difference is not a number.\<close>

definition f64_diff_nan :: "f64 \<Rightarrow> f64 \<Rightarrow> bool" where
  "f64_diff_nan a b \<longleftrightarrow> f64_nan a \<or> f64_nan b \<or> f64_inf a \<and> a = b"

definition f64_apart :: "f64 \<Rightarrow> f64 \<Rightarrow> bool" where
  "f64_apart a b \<longleftrightarrow> \<not> f64_diff_nan a b \<and> \<not> f64_near a b"

end
