(* ===== verification/Omp_Engine.thy ===== *)
theory Omp_Engine
  imports Omp_Schema Omp_Object Float64
begin

text \<open>
  \<open>crates/omp-core/src/engine.rs\<close>: the resolution of the fields of a schema for one file.
  Running a probe is the sandbox's work and a parameter, \<open>run\<close>; so is the JSON text of the
  arguments, \<open>args_key\<close>.

  What is stored has its declared type (\<open>ingest_types\<close>) and sharing the probe cache does
  not change the manifest (\<open>cache_transparent\<close>); a fallback that takes a user's value
  never gets it (\<open>fallback_user_value_lost\<close>).
\<close>

section \<open>Model\<close>

record streaming_builtins =
  file_sha256_hex :: str
  file_size :: nat

record ingest_input =
  i_bytes :: bytes
  i_user_fields :: "(str, field_value) btree"
  i_path :: str
  i_ingested_at :: str
  i_streaming :: "streaming_builtins option"
  i_content_length :: nat
  i_override_source_hash :: "hash option"

record probe_limits =
  memory_mb :: nat
  probe_fuel :: nat
  wall_clock_s :: nat

record probe_blob =
  pb_wasm :: bytes
  pb_framed_hash :: hash
  pb_max_input_bytes :: "nat option"

record tree_view =
  v_schema :: schema
  v_schema_blob :: bytes
  v_probes :: "str \<rightharpoonup> probe_blob"
  v_limits :: probe_limits

type_synonym probe_cache = "hash \<times> hash \<times> str \<rightharpoonup> field_value"
type_synonym probe_runner = "str \<Rightarrow> bytes \<Rightarrow> bytes \<Rightarrow> (str, field_value) btree \<Rightarrow> probe_limits \<Rightarrow> field_value result"
type_synonym args_printer = "(str, field_value) btree \<Rightarrow> str"

text \<open>\<open>StreamingBuiltins::from_bytes\<close>: the digest in hexadecimal and the length.\<close>

definition builtins_from_bytes :: "ext \<Rightarrow> bytes \<Rightarrow> streaming_builtins" where
  "builtins_from_bytes E bs = \<lparr>file_sha256_hex = hex_encode (sha256 E bs), file_size = length bs\<rparr>"

definition schema_hash :: "ext \<Rightarrow> bytes \<Rightarrow> hash" where
  "schema_hash E schema_bytes = hash_of E Blob schema_bytes"

text \<open>\<open>u64 as i64\<close>.\<close>

definition as_i64 :: "nat \<Rightarrow> int" where
  "as_i64 n = (let m = int n mod 2 ^ 64 in if m < 2 ^ 63 then m else m - 2 ^ 64)"

definition source_hash_of :: "ext \<Rightarrow> ingest_input \<Rightarrow> hash" where
  "source_hash_of E inp = (case i_override_source_hash inp of Some h \<Rightarrow> h | None \<Rightarrow> hash_of E Blob (i_bytes inp))"

definition effective_args :: "ingest_input \<Rightarrow> (str, field_value) btree \<Rightarrow> (str, field_value) btree" where
  "effective_args inp args = (if bt_get args ''path'' = None then bt_insert ''path'' (FString (i_path inp)) args else args)"

definition exceeds_cap :: "ingest_input \<Rightarrow> tree_view \<Rightarrow> probe_blob \<Rightarrow> bool" where
  "exceeds_cap inp view blob \<longleftrightarrow>
     i_content_length inp > (case pb_max_input_bytes blob of Some n \<Rightarrow> n | None \<Rightarrow> memory_mb (v_limits view) * 1024 * 1024)"

definition builtin_value :: "ingest_input \<Rightarrow> str \<Rightarrow> field_value" where
  "builtin_value inp probe =
     (case i_streaming inp of
        None \<Rightarrow> FNull
      | Some b \<Rightarrow> if probe = ''file.size'' then FInt (as_i64 (file_size b))
                  else if probe = ''file.sha256'' then FString (file_sha256_hex b)
                  else FNull)"

text \<open>The branch \<open>Source::Probe\<close>: the value, the probes that ran and the cache.\<close>

definition resolve_probe ::
  "ext \<Rightarrow> probe_runner \<Rightarrow> args_printer \<Rightarrow> ingest_input \<Rightarrow> tree_view \<Rightarrow> str \<Rightarrow> (str, field_value) btree \<Rightarrow>
   (str, hash) btree \<Rightarrow> probe_cache \<Rightarrow> (field_value \<times> (str, hash) btree \<times> probe_cache) result"
where
  "resolve_probe E run args_key inp view probe args ph cache =
     bind_res (ok_or (SchemaValidation ''probe not available in tree'') (v_probes view probe)) (\<lambda>blob.
     if exceeds_cap inp view blob \<or> i_streaming inp \<noteq> None then Ok (builtin_value inp probe, ph, cache)
     else let effective = effective_args inp args;
              key = (source_hash_of E inp, pb_framed_hash blob, args_key effective) in
       case cache key of
         Some cached \<Rightarrow> Ok (cached, bt_insert probe (pb_framed_hash blob) ph, cache)
       | None \<Rightarrow>
           bind_res (run probe (pb_wasm blob) (i_bytes inp) effective (v_limits view)) (\<lambda>v.
           Ok (v, bt_insert probe (pb_framed_hash blob) ph, cache(key \<mapsto> v))))"

definition resolve_source ::
  "ext \<Rightarrow> probe_runner \<Rightarrow> args_printer \<Rightarrow> ingest_input \<Rightarrow> tree_view \<Rightarrow> (str, field_value) btree \<Rightarrow> source \<Rightarrow> str \<Rightarrow>
   (str, hash) btree \<Rightarrow> probe_cache \<Rightarrow> (field_value \<times> (str, hash) btree \<times> probe_cache) result"
where
  "resolve_source E run args_key inp view resolved src name ph cache =
     (case src of
        SConstant v \<Rightarrow> Ok (v, ph, cache)
      | SProbe probe args \<Rightarrow> resolve_probe E run args_key inp view probe args ph cache
      | SUserProvided \<Rightarrow>
          Ok (case bt_get (i_user_fields inp) name of Some v \<Rightarrow> v | None \<Rightarrow> FNull, ph, cache)
      | SField from tr \<Rightarrow>
          Ok (transform_apply E tr (case bt_get resolved from of Some v \<Rightarrow> v | None \<Rightarrow> FNull), ph, cache))"

fun resolve_field ::
  "ext \<Rightarrow> probe_runner \<Rightarrow> args_printer \<Rightarrow> ingest_input \<Rightarrow> tree_view \<Rightarrow> (str, field_value) btree \<Rightarrow> field \<Rightarrow>
   (str, hash) btree \<Rightarrow> probe_cache \<Rightarrow> (field_value \<times> (str, hash) btree \<times> probe_cache) result"
where
  "resolve_field E run args_key inp view resolved (Field name src ty req desc fb) ph cache =
     bind_res (resolve_source E run args_key inp view resolved src name ph cache) (\<lambda>(primary, ph', cache').
     if \<not> is_null primary then Ok (primary, ph', cache')
     else case fb of
       Some f \<Rightarrow> resolve_field E run args_key inp view resolved f ph' cache'
     | None \<Rightarrow> Ok (primary, ph', cache'))"

definition normalize_value :: "field_value \<Rightarrow> field_type \<Rightarrow> field_value" where
  "normalize_value v ty =
     (case (ty, v) of
        (TyFloat, FInt i) \<Rightarrow> FFloat (f64_of_int i)
      | (TyListFloat, FList items) \<Rightarrow>
          FList (map (\<lambda>i. case i of FInt x \<Rightarrow> FFloat (f64_of_int x) | other \<Rightarrow> other) items)
      | _ \<Rightarrow> v)"

text \<open>One round of the loop over the fields.\<close>

definition ingest_field ::
  "ext \<Rightarrow> probe_runner \<Rightarrow> args_printer \<Rightarrow> ingest_input \<Rightarrow> tree_view \<Rightarrow>
   (str, field_value) btree \<times> (str, hash) btree \<times> probe_cache \<Rightarrow> field \<Rightarrow>
   ((str, field_value) btree \<times> (str, hash) btree \<times> probe_cache) result"
where
  "ingest_field E run args_key inp view st f =
     (case st of (resolved, ph, cache) \<Rightarrow>
        bind_res (resolve_field E run args_key inp view resolved f ph cache) (\<lambda>(v, ph', cache').
        if f_required f \<and> is_null v then
          Err (IngestValidation (''required field '' @ f_name f @ '' resolved to null''))
        else if \<not> accepts (f_type f) v then
          Err (IngestValidation (''field '' @ f_name f @ '': value does not match declared type''))
        else Ok (bt_insert (f_name f) (normalize_value v (f_type f)) resolved, ph', cache')))"

text \<open>The caller's fields that the schema does not declare: rejected, or added as they are.\<close>

definition add_extras :: "schema \<Rightarrow> (str, field_value) btree \<Rightarrow> (str, field_value) btree \<Rightarrow> (str, field_value) btree result" where
  "add_extras s user resolved =
     (if \<not> s_allow_extra_fields s then
        if list_all (\<lambda>(k, v). list_ex (\<lambda>f. f_name f = k) (s_fields s)) user then Ok resolved
        else Err (IngestValidation ''field is not declared in schema (and allow_extra_fields is false)'')
      else Ok (foldl (\<lambda>m (k, v). if bt_get m k = None then bt_insert k v m else m) resolved user))"

definition INGESTER_VERSION :: str where "INGESTER_VERSION = ''0.1.0''"

definition ingest_with_cache ::
  "ext \<Rightarrow> probe_runner \<Rightarrow> args_printer \<Rightarrow> ingest_input \<Rightarrow> tree_view \<Rightarrow> probe_cache \<Rightarrow> (manifest \<times> probe_cache) result"
where
  "ingest_with_cache E run args_key inp view cache =
     bind_res (try_fold (ingest_field E run args_key inp view) ([], [], cache) (s_fields (v_schema view)))
       (\<lambda>(resolved, ph, cache').
     bind_res (add_extras (v_schema view) (i_user_fields inp) resolved) (\<lambda>all_fields.
     Ok (\<lparr>m_source_hash = source_hash_of E inp, m_file_type = s_file_type (v_schema view),
          m_schema_hash = schema_hash E (v_schema_blob view), m_ingested_at = i_ingested_at inp,
          m_ingester_version = INGESTER_VERSION, m_probe_hashes = ph, m_fields = all_fields\<rparr>, cache')))"

definition ingest :: "ext \<Rightarrow> probe_runner \<Rightarrow> args_printer \<Rightarrow> ingest_input \<Rightarrow> tree_view \<Rightarrow> manifest result" where
  "ingest E run args_key inp view =
     bind_res (ingest_with_cache E run args_key inp view Map.empty) (\<lambda>(m, _). Ok m)"

definition detect_file_type :: "str option \<Rightarrow> str \<Rightarrow> (str, schema) btree \<Rightarrow> schema option" where
  "detect_file_type override_type mime schemas =
     (case override_type of
        Some t \<Rightarrow> bt_get schemas t
      | None \<Rightarrow> map_option snd (find (\<lambda>(k, s). list_ex (\<lambda>pat. mime_matches pat mime) (s_mime_patterns s)) schemas))"

section \<open>Types\<close>

text \<open>What is stored for a declared type: no integers where floats were declared.\<close>

definition no_int :: "field_value \<Rightarrow> bool" where
  "no_int v \<longleftrightarrow> (case v of FInt _ \<Rightarrow> False | _ \<Rightarrow> True)"

definition stored_as :: "field_type \<Rightarrow> field_value \<Rightarrow> bool" where
  "stored_as ty v \<longleftrightarrow> accepts ty v \<and> (ty = TyFloat \<longrightarrow> no_int v) \<and>
     (ty = TyListFloat \<longrightarrow> (case v of FList items \<Rightarrow> list_all no_int items | _ \<Rightarrow> True))"

lemma normalize_list_float:
  "list_all (\<lambda>i. case i of FFloat _ \<Rightarrow> True | FInt _ \<Rightarrow> True | _ \<Rightarrow> False) items \<Longrightarrow>
   accepts TyListFloat (normalize_value (FList items) TyListFloat) \<and>
   stored_as TyListFloat (normalize_value (FList items) TyListFloat)"
  by (auto simp: normalize_value_def stored_as_def list_all_iff no_int_def split: field_value.splits)

lemma normalize_stored: "accepts ty v \<Longrightarrow> stored_as ty (normalize_value v ty)"
  using normalize_list_float
  by (cases ty; cases v) (auto simp: normalize_value_def stored_as_def no_int_def)

lemma normalize_null [simp]: "normalize_value v ty = FNull \<longleftrightarrow> v = FNull"
  by (cases ty; cases v) (auto simp: normalize_value_def)

definition field_stored :: "field \<Rightarrow> (str, field_value) btree \<Rightarrow> bool" where
  "field_stored f m \<longleftrightarrow> (\<exists>v. bt_get m (f_name f) = Some v \<and> stored_as (f_type f) v \<and> (f_required f \<longrightarrow> v \<noteq> FNull))"

lemma ingest_field_stored:
  assumes "ingest_field E run ak inp view (r, ph, c) f = Ok (r', ph', c')"
  shows "field_stored f r' \<and> (\<forall>k. k \<noteq> f_name f \<longrightarrow> bt_get r' k = bt_get r k)"
  using assms normalize_stored
  by (auto simp: ingest_field_def res_simps field_stored_def is_null_def split: if_splits prod.splits)

lemma ingest_fold_stored:
  assumes "try_fold (ingest_field E run ak inp view) (r, ph, c) fs = Ok (r', ph', c')" "distinct (map f_name fs)"
  shows "(\<forall>f \<in> set fs. field_stored f r') \<and> (\<forall>k. k \<notin> f_name ` set fs \<longrightarrow> bt_get r' k = bt_get r k)"
  using assms
proof (induction fs arbitrary: r ph c)
  case (Cons f fs)
  obtain r1 ph1 c1 where s: "ingest_field E run ak inp view (r, ph, c) f = Ok (r1, ph1, c1)"
    "try_fold (ingest_field E run ak inp view) (r1, ph1, c1) fs = Ok (r', ph', c')"
    using Cons.prems(1) by (auto simp: res_simps)
  have f: "f_name f \<notin> f_name ` set fs" "distinct (map f_name fs)" using Cons.prems(2) by auto
  note rest = Cons.IH [OF s(2) f(2)]
  then have "bt_get r' (f_name f) = bt_get r1 (f_name f)" using f(1) by blast
  then show ?case
    using rest ingest_field_stored [OF s(1)] by (auto simp: field_stored_def)
qed simp

lemma extras_keep:
  "bt_get m k = Some v \<Longrightarrow>
   bt_get (foldl (\<lambda>m (k, v). if bt_get m k = None then bt_insert k v m else m) m user) k = Some v"
  by (induction user arbitrary: m) (auto split: prod.splits)

lemma ingest_OkE:
  assumes "ingest E run ak inp view = Ok m"
  obtains r ph c' where
    "try_fold (ingest_field E run ak inp view) ([], [], Map.empty) (s_fields (v_schema view)) = Ok (r, ph, c')"
    "add_extras (v_schema view) (i_user_fields inp) r = Ok (m_fields m)" "m_probe_hashes m = ph"
  using assms by (auto simp: ingest_def ingest_with_cache_def res_simps)

section \<open>The cache\<close>

text \<open>A cache entry for the file at hand is what the probe answers.\<close>

definition cache_sound :: "ext \<Rightarrow> probe_runner \<Rightarrow> args_printer \<Rightarrow> ingest_input \<Rightarrow> tree_view \<Rightarrow> probe_cache \<Rightarrow> bool" where
  "cache_sound E run ak inp view cache \<longleftrightarrow>
     (\<forall>p blob args v. v_probes view p = Some blob \<and>
        cache (source_hash_of E inp, pb_framed_hash blob, ak args) = Some v \<longrightarrow>
        run p (pb_wasm blob) (i_bytes inp) args (v_limits view) = Ok v)"

text \<open>
  Within these jobs, each a file and the view it is ingested with, the key of a probe run
  (file, probe object and argument text) determines the answer.
\<close>

definition key_determines :: "ext \<Rightarrow> probe_runner \<Rightarrow> args_printer \<Rightarrow> (ingest_input \<times> tree_view) set \<Rightarrow> bool" where
  "key_determines E run ak jobs \<longleftrightarrow>
     (\<forall>(inp, view) \<in> jobs. \<forall>(inp', view') \<in> jobs. \<forall>p blob args p' blob' args' v.
        v_probes view p = Some blob \<and> v_probes view' p' = Some blob' \<and> source_hash_of E inp = source_hash_of E inp' \<and>
        pb_framed_hash blob = pb_framed_hash blob' \<and> ak args = ak args' \<and>
        run p (pb_wasm blob) (i_bytes inp) args (v_limits view) = Ok v \<longrightarrow>
        run p' (pb_wasm blob') (i_bytes inp') args' (v_limits view') = Ok v)"

definition jobs_sound :: "ext \<Rightarrow> probe_runner \<Rightarrow> args_printer \<Rightarrow> (ingest_input \<times> tree_view) set \<Rightarrow> probe_cache \<Rightarrow> bool" where
  "jobs_sound E run ak jobs cache \<longleftrightarrow> (\<forall>(inp, view) \<in> jobs. cache_sound E run ak inp view cache)"

text \<open>Files ingested one after the other with one cache; the first error ends the run.\<close>

fun ingest_sharing ::
  "ext \<Rightarrow> probe_runner \<Rightarrow> args_printer \<Rightarrow> (ingest_input \<times> tree_view) list \<Rightarrow> probe_cache \<Rightarrow> manifest list result"
where
  "ingest_sharing E run ak [] cache = Ok []"
| "ingest_sharing E run ak ((inp, view) # jobs) cache =
     bind_res (ingest_with_cache E run ak inp view cache) (\<lambda>(m, cache').
     bind_res (ingest_sharing E run ak jobs cache') (\<lambda>ms. Ok (m # ms)))"

text \<open>Two results that agree but for their caches, which are both sound.\<close>

definition same_but_cache ::
  "(probe_cache \<Rightarrow> bool) \<Rightarrow> ('a \<times> 'b \<times> probe_cache) result \<Rightarrow> ('a \<times> 'b \<times> probe_cache) result \<Rightarrow> bool"
where
  "same_but_cache P x y \<longleftrightarrow>
     (\<exists>e. x = Err e \<and> y = Err e) \<or>
     (\<exists>a b c c'. x = Ok (a, b, c) \<and> y = Ok (a, b, c') \<and> P c \<and> P c')"

lemma same_but_cache_Ok: "P c \<Longrightarrow> P c' \<Longrightarrow> same_but_cache P (Ok (a, b, c)) (Ok (a, b, c'))"
  by (simp add: same_but_cache_def)

lemma same_but_cache_Err: "same_but_cache P (Err e) (Err e)"
  by (simp add: same_but_cache_def)

lemma same_but_cache_bind:
  assumes "same_but_cache P x y" "\<And>a b c c'. P c \<Longrightarrow> P c' \<Longrightarrow> same_but_cache P (f (a, b, c)) (f (a, b, c'))"
  shows "same_but_cache P (bind_res x f) (bind_res y f)"
  using assms(1) unfolding same_but_cache_def [of P x y]
proof (elim disjE exE conjE)
  fix a b c c' assume "x = Ok (a, b, c)" "y = Ok (a, b, c')" "P c" "P c'"
  then show ?thesis using assms(2) by simp
qed (simp add: same_but_cache_Err)

lemma jobs_sound_insert:
  assumes "jobs_sound E run ak jobs c" "key_determines E run ak jobs" "(inp, view) \<in> jobs" "v_probes view p = Some blob"
    and "run p (pb_wasm blob) (i_bytes inp) args (v_limits view) = Ok v"
  shows "jobs_sound E run ak jobs (c((source_hash_of E inp, pb_framed_hash blob, ak args) \<mapsto> v))"
  unfolding jobs_sound_def
proof (clarify, unfold cache_sound_def, intro allI impI)
  fix inp' :: ingest_input and view' :: tree_view and p' args' w and blob' :: probe_blob
  let ?key = "(source_hash_of E inp, pb_framed_hash blob, ak args)" and ?key' = "(source_hash_of E inp', pb_framed_hash blob', ak args')"
  assume job: "(inp', view') \<in> jobs" and a: "v_probes view' p' = Some blob' \<and> (c(?key \<mapsto> v)) ?key' = Some w"
  show "run p' (pb_wasm blob') (i_bytes inp') args' (v_limits view') = Ok w"
  proof (cases "?key = ?key'")
    case True
    then have w: "w = v" using a by (metis fun_upd_same option.inject)
    from assms(2,3) job have "\<forall>p blob args p' blob' args' v.
        v_probes view p = Some blob \<and> v_probes view' p' = Some blob' \<and> source_hash_of E inp = source_hash_of E inp' \<and>
        pb_framed_hash blob = pb_framed_hash blob' \<and> ak args = ak args' \<and>
        run p (pb_wasm blob) (i_bytes inp) args (v_limits view) = Ok v \<longrightarrow>
        run p' (pb_wasm blob') (i_bytes inp') args' (v_limits view') = Ok v"
      unfolding key_determines_def by blast
    then show ?thesis using True w assms(4,5) a by blast
  next
    case False
    then have "c ?key' = Some w" using a by auto
    then show ?thesis using a assms(1) job unfolding jobs_sound_def cache_sound_def by blast
  qed
qed

lemma resolve_probe_cache:
  assumes "key_determines E run ak jobs" "(inp, view) \<in> jobs" "jobs_sound E run ak jobs c" "jobs_sound E run ak jobs c'"
  shows "same_but_cache (jobs_sound E run ak jobs)
           (resolve_probe E run ak inp view p args ph c) (resolve_probe E run ak inp view p args ph c')"
proof (cases "v_probes view p")
  case None
  then show ?thesis by (simp add: resolve_probe_def same_but_cache_Err)
next
  case (Some blob)
  let ?eff = "effective_args inp args"
  let ?key = "(source_hash_of E inp, pb_framed_hash blob, ak ?eff)"
  let ?run = "run p (pb_wasm blob) (i_bytes inp) ?eff (v_limits view)"
  have hit: "?run = Ok v" if "c ?key = Some v \<or> c' ?key = Some v" for v
    using that assms(2-4) Some unfolding jobs_sound_def cache_sound_def by blast
  have miss: "jobs_sound E run ak jobs (c(?key \<mapsto> v))" "jobs_sound E run ak jobs (c'(?key \<mapsto> v))"
    if "?run = Ok v" for v using jobs_sound_insert [OF _ assms(1,2) Some that] assms(3,4) by blast+
  show ?thesis
  proof (cases "exceeds_cap inp view blob \<or> i_streaming inp \<noteq> None")
    case True
    then show ?thesis using Some assms by (simp add: resolve_probe_def same_but_cache_Ok)
  next
    case False
    then have eq: "resolve_probe E run ak inp view p args ph x =
        (case x ?key of Some cached \<Rightarrow> Ok (cached, bt_insert p (pb_framed_hash blob) ph, x)
         | None \<Rightarrow> bind_res ?run (\<lambda>v. Ok (v, bt_insert p (pb_framed_hash blob) ph, x(?key \<mapsto> v))))" for x
      using Some by (simp add: resolve_probe_def Let_def)
    show ?thesis
      unfolding eq
      using hit miss assms(3,4)
      by (cases "c ?key"; cases "c' ?key"; cases ?run) (auto intro: same_but_cache_Ok same_but_cache_Err)
  qed
qed

lemma resolve_field_cache:
  "key_determines E run ak jobs \<Longrightarrow> (inp, view) \<in> jobs \<Longrightarrow> jobs_sound E run ak jobs c \<Longrightarrow> jobs_sound E run ak jobs c' \<Longrightarrow>
     same_but_cache (jobs_sound E run ak jobs)
       (resolve_field E run ak inp view r f ph c) (resolve_field E run ak inp view r f ph c')"
proof (induction f arbitrary: ph c c')
  case (Field name src ty req desc fb)
  have "same_but_cache (jobs_sound E run ak jobs)
      (resolve_source E run ak inp view r src name ph c) (resolve_source E run ak inp view r src name ph c')"
    using Field(4,5) resolve_probe_cache [OF Field(2-5)]
    by (cases src) (auto simp: resolve_source_def intro: same_but_cache_Ok)
  then show ?case
    unfolding resolve_field.simps
  proof (rule same_but_cache_bind)
    fix v ph1 d d' assume d: "jobs_sound E run ak jobs d" "jobs_sound E run ak jobs d'"
    have "same_but_cache (jobs_sound E run ak jobs)
        (resolve_field E run ak inp view r f ph1 d) (resolve_field E run ak inp view r f ph1 d')" if "fb = Some f" for f
      using Field(1) [of f d d' ph1] Field(2,3) d that by simp
    then show "same_but_cache (jobs_sound E run ak jobs)
        (case (v, ph1, d) of (primary, ph', cache') \<Rightarrow> if \<not> is_null primary then Ok (primary, ph', cache')
           else case fb of None \<Rightarrow> Ok (primary, ph', cache') | Some f \<Rightarrow> resolve_field E run ak inp view r f ph' cache')
        (case (v, ph1, d') of (primary, ph', cache') \<Rightarrow> if \<not> is_null primary then Ok (primary, ph', cache')
           else case fb of None \<Rightarrow> Ok (primary, ph', cache') | Some f \<Rightarrow> resolve_field E run ak inp view r f ph' cache')"
      using d by (cases fb) (auto intro: same_but_cache_Ok)
  qed
qed

lemma ingest_field_cache:
  assumes "key_determines E run ak jobs" "(inp, view) \<in> jobs" "jobs_sound E run ak jobs c" "jobs_sound E run ak jobs c'"
  shows "same_but_cache (jobs_sound E run ak jobs)
           (ingest_field E run ak inp view (r, ph, c) f) (ingest_field E run ak inp view (r, ph, c') f)"
  unfolding ingest_field_def prod.case
  by (rule same_but_cache_bind [OF resolve_field_cache [OF assms]])
    (auto intro: same_but_cache_Ok same_but_cache_Err)

lemma ingest_fold_cache:
  "key_determines E run ak jobs \<Longrightarrow> (inp, view) \<in> jobs \<Longrightarrow> jobs_sound E run ak jobs c \<Longrightarrow> jobs_sound E run ak jobs c' \<Longrightarrow>
   same_but_cache (jobs_sound E run ak jobs)
     (try_fold (ingest_field E run ak inp view) (r, ph, c) fs) (try_fold (ingest_field E run ak inp view) (r, ph, c') fs)"
proof (induction fs arbitrary: r ph c c')
  case (Cons f fs)
  then show ?case
    by (auto intro!: same_but_cache_bind [OF ingest_field_cache] simp del: split_paired_Ex)
qed (simp add: same_but_cache_Ok)

text \<open>One file: the manifest is that of an ingest with no cache, and the cache it leaves is sound.\<close>

lemma ingest_cached:
  assumes "key_determines E run ak jobs" "(inp, view) \<in> jobs" "jobs_sound E run ak jobs cache"
  shows "(\<exists>e. ingest_with_cache E run ak inp view cache = Err e \<and> ingest E run ak inp view = Err e) \<or>
    (\<exists>m cache'. ingest_with_cache E run ak inp view cache = Ok (m, cache') \<and> ingest E run ak inp view = Ok m \<and>
       jobs_sound E run ak jobs cache')"
proof -
  have "jobs_sound E run ak jobs Map.empty" by (simp add: jobs_sound_def cache_sound_def)
  from ingest_fold_cache [OF assms this, of "[]" "[]" "s_fields (v_schema view)"]
  show ?thesis
    unfolding ingest_def ingest_with_cache_def same_but_cache_def
    by (elim disjE exE conjE; cases "add_extras (v_schema view) (i_user_fields inp) (fst (projr
          (try_fold (ingest_field E run ak inp view) ([], [], cache) (s_fields (v_schema view)))))") auto
qed

section \<open>Properties\<close>

text \<open>
  C33. The manifest of an ingested file holds, for every field of the schema, a value of the
  declared type, with integers turned into floats where floats were declared, and no
  null where a value is required. Unless the schema allows extra fields it holds nothing
  else.
\<close>

theorem ingest_types:
  assumes "ingest E run ak inp view = Ok m" "distinct (map f_name (s_fields (v_schema view)))"
  shows "(\<forall>f \<in> set (s_fields (v_schema view)). field_stored f (m_fields m)) \<and>
         (\<not> s_allow_extra_fields (v_schema view) \<longrightarrow>
            (\<forall>k. bt_get (m_fields m) k \<noteq> None \<longrightarrow> k \<in> f_name ` set (s_fields (v_schema view))))"
proof -
  obtain r ph c' where r:
    "try_fold (ingest_field E run ak inp view) ([], [], Map.empty) (s_fields (v_schema view)) = Ok (r, ph, c')"
    "add_extras (v_schema view) (i_user_fields inp) r = Ok (m_fields m)"
    using assms(1) by (rule ingest_OkE)
  note fold = ingest_fold_stored [OF r(1) assms(2)]
  show ?thesis
  proof (cases "s_allow_extra_fields (v_schema view)")
    case True
    then have m: "m_fields m = foldl (\<lambda>m (k, v). if bt_get m k = None then bt_insert k v m else m) r (i_user_fields inp)"
      using r(2) by (simp add: add_extras_def)
    have "field_stored f (m_fields m)" if "field_stored f r" for f
      using that extras_keep [of r "f_name f"] by (auto simp: m field_stored_def)
    then show ?thesis using fold True by blast
  next
    case False
    then have "m_fields m = r" using r(2) by (simp add: add_extras_def split: if_splits)
    moreover have "bt_get r k = None" if "k \<notin> f_name ` set (s_fields (v_schema view))" for k
      using fold that by simp
    then have "\<forall>k. bt_get r k \<noteq> None \<longrightarrow> k \<in> f_name ` set (s_fields (v_schema view))" by metis
    ultimately show ?thesis using fold by simp
  qed
qed

definition sample_input :: ingest_input where
  "sample_input = \<lparr>i_bytes = ''abc'', i_user_fields = [(''slug'', FString ''given''), (''title'', FString ''A Title'')],
     i_path = ''a.txt'', i_ingested_at = ''now'', i_streaming = None, i_content_length = 3,
     i_override_source_hash = None\<rparr>"

definition sample_schema :: "field list \<Rightarrow> schema" where
  "sample_schema fs = \<lparr>s_file_type = ''text'', s_mime_patterns = [''text/*''], s_allow_extra_fields = False,
     s_fields = fs, s_render = None\<rparr>"

definition sample_view :: "field list \<Rightarrow> tree_view" where
  "sample_view fs = \<lparr>v_schema = sample_schema fs, v_schema_blob = ''blob'', v_probes = Map.empty,
     v_limits = \<lparr>memory_mb = 64, probe_fuel = 1, wall_clock_s = 1\<rparr>\<rparr>"

definition no_run :: probe_runner where
  "no_run p wasm bs args limits = Err (ProbeFailed p ''none'')"

definition typed_fields :: "field list" where
  "typed_fields =
     [Field ''title'' SUserProvided TyString True None None,
      Field ''slug'' (SField ''title'' Slugify) TyString False None None,
      Field ''ratio'' (SConstant (FInt 3)) TyFloat True None None]"

lemma sample_ingest:
  "\<exists>m. ingest toy_ext no_run (\<lambda>_. []) sample_input (sample_view typed_fields) = Ok m"
  by (simp add: ingest_def ingest_with_cache_def sample_view_def sample_schema_def typed_fields_def ingest_field_def
      resolve_source_def sample_input_def is_null_def add_extras_def slugify_def is_ascii_alphanumeric_def
      ascii_lower_def Let_def bt_get_def normalize_value_def)

theorem ingest_types_witness:
  "\<exists>m. ingest toy_ext no_run (\<lambda>_. []) sample_input (sample_view typed_fields) = Ok m \<and>
       (\<forall>f \<in> set typed_fields. field_stored f (m_fields m))"
proof -
  obtain m where m: "ingest toy_ext no_run (\<lambda>_. []) sample_input (sample_view typed_fields) = Ok m"
    using sample_ingest by blast
  have fs: "s_fields (v_schema (sample_view typed_fields)) = typed_fields"
    by (simp add: sample_view_def sample_schema_def)
  have "distinct (map f_name (s_fields (v_schema (sample_view typed_fields))))"
    unfolding fs by (simp add: typed_fields_def)
  from ingest_types [OF m this] m show ?thesis unfolding fs by blast
qed

text \<open>
  C37. Sharing the cache of probe outputs between files does not change a manifest. Files
  ingested one after the other with one cache get the manifests, or the run the error, that
  each would with no cache at all, provided that what the cache holds at the start is
  what the probes answer (nothing, for one) and that the key of an entry determines the answer.
  The rebuilding of manifests after a schema change does not provide this: it puts values
  into the cache which may have come from a fallback.
\<close>

theorem cache_transparent:
  assumes "key_determines E run ak (set jobs)" "jobs_sound E run ak (set jobs) cache"
  shows "ingest_sharing E run ak jobs cache = try_map (\<lambda>(inp, view). ingest E run ak inp view) jobs"
proof -
  have "ingest_sharing E run ak js c = try_map (\<lambda>(inp, view). ingest E run ak inp view) js"
    if "set js \<subseteq> set jobs" "jobs_sound E run ak (set jobs) c" for js c
    using that
  proof (induction js arbitrary: c)
    case (Cons j js)
    obtain inp view where j: "j = (inp, view)" by force
    from Cons.prems(1) j have "(inp, view) \<in> set jobs" "set js \<subseteq> set jobs" by auto
    then show ?case
      using ingest_cached [OF assms(1) _ Cons.prems(2), of inp view] Cons.IH j by auto
  qed simp
  then show ?thesis using assms(2) by blast
qed

definition size_run :: probe_runner where
  "size_run p wasm bs args limits = Ok (FInt (int (length bs)))"

text \<open>Two files with the same content, the second of which finds what the probe answered for the first.\<close>

definition sized_view :: tree_view where
  "sized_view = (sample_view [Field ''slug'' SUserProvided TyString False None None, Field ''title'' SUserProvided TyString True None None,
         Field ''n'' (SProbe ''file.size'' []) TyInt True None None])
      \<lparr>v_probes := [''file.size'' \<mapsto> \<lparr>pb_wasm = [], pb_framed_hash = Hash [], pb_max_input_bytes = None\<rparr>]\<rparr>"

lemma sized_ingest:
  "ingest toy_ext size_run (\<lambda>_. []) (sample_input\<lparr>i_path := p\<rparr>) sized_view =
     Ok \<lparr>m_source_hash = hash_of toy_ext Blob ''abc'', m_file_type = ''text'', m_schema_hash = hash_of toy_ext Blob ''blob'',
        m_ingested_at = ''now'', m_ingester_version = ''0.1.0'', m_probe_hashes = [(''file.size'', Hash [])],
        m_fields = [(''n'', FInt 3), (''slug'', FString ''given''), (''title'', FString ''A Title'')]\<rparr>"
  by (simp add: ingest_def ingest_with_cache_def sized_view_def sample_view_def sample_schema_def ingest_field_def
      resolve_source_def resolve_probe_def exceeds_cap_def effective_args_def sample_input_def is_null_def add_extras_def
      Let_def bt_get_def normalize_value_def size_run_def source_hash_of_def schema_hash_def INGESTER_VERSION_def)

theorem cache_transparent_witness:
  "\<exists>m m'. ingest_sharing toy_ext size_run (\<lambda>_. []) [(sample_input, sized_view), (sample_input\<lparr>i_path := ''b.txt''\<rparr>, sized_view)] Map.empty =
       Ok [m, m'] \<and>
     ingest toy_ext size_run (\<lambda>_. []) sample_input sized_view = Ok m \<and>
     ingest toy_ext size_run (\<lambda>_. []) (sample_input\<lparr>i_path := ''b.txt''\<rparr>) sized_view = Ok m' \<and>
     m_fields m = [(''n'', FInt 3), (''slug'', FString ''given''), (''title'', FString ''A Title'')]"
proof -
  let ?jobs = "[(sample_input, sized_view), (sample_input\<lparr>i_path := ''b.txt''\<rparr>, sized_view)]"
  have "key_determines toy_ext size_run (\<lambda>_. []) (set ?jobs)"
    by (auto simp: key_determines_def size_run_def sample_input_def)
  moreover have "jobs_sound toy_ext size_run (\<lambda>_. []) (set ?jobs) Map.empty" by (simp add: jobs_sound_def cache_sound_def)
  ultimately have "ingest_sharing toy_ext size_run (\<lambda>_. []) ?jobs Map.empty =
      try_map (\<lambda>(inp, view). ingest toy_ext size_run (\<lambda>_. []) inp view) ?jobs" by (rule cache_transparent)
  moreover have "sample_input\<lparr>i_path := ''a.txt''\<rparr> = sample_input" by (simp add: sample_input_def)
  ultimately show ?thesis using sized_ingest [of "''a.txt''"] sized_ingest [of "''b.txt''"] by simp
qed

text \<open>
  A fallback that takes the caller's value never gets it: the fallback is named after
  its field with \<open>.fallback\<close> behind, and the caller's fields are looked up under that name.
  A field whose primary source gives nothing stays null although the caller gave a value
  for it.
\<close>

lemma fallback_user_value_lost:
  assumes "convert_field name raw = Ok f" "rf_fallback raw = Some fb" "rf_source fb = ''user_provided''"
    and "rf_fallback fb = None"
    and "resolve_source E run ak inp view r (f_source f) name ph cache = Ok (FNull, ph', cache')"
    and "bt_get (i_user_fields inp) (name @ ''.fallback'') = None"
  shows "resolve_field E run ak inp view r f ph cache = Ok (FNull, ph', cache')"
proof (cases raw)
  case (RawField src ty req desc val prb args frm tr fb')
  obtain fsrc fty freq fdesc fval fprb fargs ffrom ftr where fb:
    "fb = RawField fsrc fty freq fdesc fval fprb fargs ffrom ftr None" "fsrc = ''user_provided''"
    using assms(3,4) by (cases fb) auto
  obtain s t where f: "f = Field name s t (case req of None \<Rightarrow> False | Some b \<Rightarrow> b) desc
      (Some (Field (name @ ''.fallback'') SUserProvided (f_type (the (f_fallback f))) (f_required (the (f_fallback f)))
         (f_description (the (f_fallback f))) None))"
    using assms(1,2) by (auto simp: convert_field_def RawField fb res_simps convert_source_def)
  have "resolve_source E run ak inp view r s name ph cache = Ok (FNull, ph', cache')"
    using assms(5) f by (metis field.sel(2))
  then show ?thesis
    using assms(6) by (subst f) (simp add: is_null_def resolve_source_def)
qed

end
