(* ===== verification/Listing.thy ===== *)
theory Listing
  imports Omp_Store
begin

text \<open>
  Listing directories: \<open>fs::read_dir\<close>, and the enumeration of references in
  \<open>crates/omp-core/src/store/disk.rs\<close>. The order in which the operating system lists a
  directory is not fixed, so the listing is a parameter that promises the names and
  nothing else. The recursion over directories has fuel for their depth; a disk has
  finitely many directories, so a bound exists.
\<close>

type_synonym listing = "disk \<Rightarrow> str list \<Rightarrow> str list"

text \<open>\<open>fs::read_dir\<close> yields every name of the directory once, in some order.\<close>

definition dir_names :: "disk \<Rightarrow> str list \<Rightarrow> str set" where
  "dir_names s d = {n. path_exists s (d @ [n])}"

definition listing_ok :: "listing \<Rightarrow> bool" where
  "listing_ok ls \<longleftrightarrow> (\<forall>s d. finite (dir_names s d) \<longrightarrow> distinct (ls s d) \<and> set (ls s d) = dir_names s d)"

lemma listing_ok_sorted: "listing_ok (\<lambda>s d. sorted_list_of_set (dir_names s d))"
  by (simp add: listing_ok_def)

text \<open>\<open>fs::write\<close>, and opening a file to create or truncate it.\<close>

definition write_file :: "str list \<Rightarrow> bytes \<Rightarrow> unit op" where
  "write_file p bs s =
     (if butlast p \<notin> dirs s then (Err (Io ''write'' ''no such directory''), s)
      else if p \<in> dirs s then (Err (Io ''write'' ''is a directory''), s)
      else (Ok (), s\<lparr>files := (files s)(p \<mapsto> bs)\<rparr>))"

section \<open>References\<close>

text \<open>The name of the file relative to \<open>.omp/\<close>, its components joined by slashes.\<close>

fun join_slash :: "str list \<Rightarrow> str" where
  "join_slash [] = []"
| "join_slash [p] = p"
| "join_slash (p # ps) = p @ ''/'' @ join_slash ps"

definition ref_entry :: "disk \<Rightarrow> str list \<Rightarrow> (str \<times> hash) result" where
  "ref_entry s path =
     (let name = join_slash path in
      if \<not> utf8_valid name then Err (Internal ''ref path not utf-8'')
      else bind_res (read_to_string s path) (\<lambda>r.
        bind_res (ok_or (Io ''read'' ''not found'') r) (\<lambda>raw.
        bind_res (map_err (\<lambda>_. Corrupt (''ref '' @ name)) (hash_from_str (trim raw))) (\<lambda>h.
        Ok (name, h)))))"

fun collect_refs :: "nat \<Rightarrow> listing \<Rightarrow> disk \<Rightarrow> str list \<Rightarrow> (str \<times> hash) list \<Rightarrow> (str \<times> hash) list result option"
and collect_entries ::
  "nat \<Rightarrow> listing \<Rightarrow> disk \<Rightarrow> str list \<Rightarrow> str list \<Rightarrow> (str \<times> hash) list \<Rightarrow> (str \<times> hash) list result option"
where
  "collect_refs 0 ls s current out = None"
| "collect_refs (Suc n) ls s current out =
     (if current \<in> dirs s then collect_entries n ls s current (ls s current) out
      else if list_ex (\<lambda>q. files s q \<noteq> None) (prefixes current)
      then Some (Err (Io ''read_dir'' ''not a directory''))
      else Some (Ok out))"
| "collect_entries n ls s current [] out = Some (Ok out)"
| "collect_entries n ls s current (name # names) out =
     (let path = current @ [name] in
      if path \<in> dirs s then
        (case collect_refs n ls s path out of
           None \<Rightarrow> None
         | Some (Inl e) \<Rightarrow> Some (Err e)
         | Some (Inr out') \<Rightarrow> collect_entries n ls s current names out')
      else if files s path \<noteq> None then
        (case ref_entry s path of
           Inl e \<Rightarrow> Some (Err e)
         | Inr r \<Rightarrow> collect_entries n ls s current names (out @ [r]))
      else collect_entries n ls s current names out)"

definition iter_refs :: "nat \<Rightarrow> listing \<Rightarrow> disk \<Rightarrow> (str \<times> hash) list result option" where
  "iter_refs fuel ls s = collect_refs fuel ls s [''refs''] []"

text \<open>The files below a directory.\<close>

definition files_below :: "disk \<Rightarrow> str list \<Rightarrow> str list set" where
  "files_below s d = {p. strict_prefix d p \<and> files s p \<noteq> None}"

lemma files_below_split:
  assumes "fs_ok s"
  shows "files_below s d = (\<Union>n \<in> dir_names s d. if d @ [n] \<in> dirs s then files_below s (d @ [n]) else {d @ [n]})"
    (is "?L = ?R")
proof (rule set_eqI, rule iffI)
  fix p assume p: "p \<in> ?L"
  then obtain n q where q: "p = d @ n # q" by (auto simp: files_below_def elim: strict_prefixE')
  show "p \<in> ?R"
  proof (cases q rule: rev_cases)
    case Nil
    then have "d @ [n] \<notin> dirs s" using p q assms by (auto simp: files_below_def fs_ok_def)
    then show ?thesis using p q Nil by (auto simp: dir_names_def path_exists_def files_below_def)
  next
    case (snoc q' m)
    have "butlast p \<in> dirs s" using p assms by (auto simp: files_below_def fs_ok_def)
    moreover have "prefix (d @ [n]) (butlast p)" using q snoc by (simp add: butlast_append)
    ultimately have "d @ [n] \<in> dirs s" using assms by (auto simp: fs_ok_def)
    then show ?thesis using p q snoc by (auto simp: dir_names_def path_exists_def files_below_def strict_prefix_def)
  qed
next
  fix p assume "p \<in> ?R"
  then show "p \<in> ?L"
    by (auto simp: dir_names_def path_exists_def files_below_def strict_prefix_def prefix_def split: if_splits)
qed

definition refs_below :: "disk \<Rightarrow> str list \<Rightarrow> (str \<times> hash) set" where
  "refs_below s d = {r. \<exists>p \<in> files_below s d. ref_entry s p = Ok r}"

definition entry_refs :: "disk \<Rightarrow> str list \<Rightarrow> str \<Rightarrow> (str \<times> hash) set" where
  "entry_refs s d n = (if d @ [n] \<in> dirs s then refs_below s (d @ [n]) else {r. ref_entry s (d @ [n]) = Ok r})"

lemma refs_below_split: "fs_ok s \<Longrightarrow> refs_below s d = \<Union> (entry_refs s d ` dir_names s d)"
  by (subst refs_below_def, subst files_below_split) (auto simp: entry_refs_def refs_below_def split: if_splits)

lemma collect_entries_exact:
  assumes "\<And>n out. n \<in> set names \<Longrightarrow> d @ [n] \<in> dirs s \<Longrightarrow>
      \<exists>out'. collect_refs k ls s (d @ [n]) out = Some (Ok out') \<and> set out' = set out \<union> refs_below s (d @ [n])"
    and "\<And>n. n \<in> set names \<Longrightarrow> d @ [n] \<notin> dirs s \<Longrightarrow> files s (d @ [n]) \<noteq> None \<and> (\<exists>r. ref_entry s (d @ [n]) = Ok r)"
  shows "\<exists>out'. collect_entries k ls s d names out = Some (Ok out') \<and>
    set out' = set out \<union> \<Union> (entry_refs s d ` set names)"
  using assms
proof (induction names arbitrary: out)
  case (Cons n names)
  obtain o1 where o1: "set o1 = set out \<union> entry_refs s d n"
    "collect_entries k ls s d (n # names) out = collect_entries k ls s d names o1"
  proof (cases "d @ [n] \<in> dirs s")
    case True
    from Cons.prems(1) [OF _ this, of out] True that show thesis by (auto simp: entry_refs_def)
  next
    case False
    from Cons.prems(2) [OF _ this] obtain r where r: "files s (d @ [n]) \<noteq> None" "ref_entry s (d @ [n]) = Ok r" by auto
    show thesis using that [of "out @ [r]"] False r by (auto simp: entry_refs_def)
  qed
  obtain o2 where "collect_entries k ls s d names o1 = Some (Ok o2)" "set o2 = set o1 \<union> \<Union> (entry_refs s d ` set names)"
    using Cons.IH [of o1] Cons.prems by auto
  then show ?case using o1 by auto
qed simp

lemma collect_refs_exact:
  assumes "fs_ok s" "listing_ok ls" "\<And>d. finite (dir_names s d)"
    and "\<And>p. p \<in> files_below s d \<Longrightarrow> \<exists>r. ref_entry s p = Ok r"
    and "\<And>p. p \<in> dirs s \<Longrightarrow> prefix d p \<Longrightarrow> length p < length d + fuel" "d \<in> dirs s"
  shows "\<exists>out'. collect_refs fuel ls s d out = Some (Ok out') \<and> set out' = set out \<union> refs_below s d"
  using assms(4-)
proof (induction fuel arbitrary: d out)
  case 0
  then show ?case using 0(2) [of d] by simp
next
  case (Suc k)
  have names: "set (ls s d) = dir_names s d" using assms(2,3) by (auto simp: listing_ok_def)
  have sub: "files_below s (d @ [n]) \<subseteq> files_below s d" for n
    by (auto simp: files_below_def strict_prefix_def prefix_def)
  have dir: "\<exists>out'. collect_refs k ls s (d @ [n]) out = Some (Ok out') \<and> set out' = set out \<union> refs_below s (d @ [n])"
    if "d @ [n] \<in> dirs s" for n out
  proof (rule Suc.IH)
    show "\<exists>r. ref_entry s p = Ok r" if "p \<in> files_below s (d @ [n])" for p using Suc.prems(1) that sub by blast
    show "length p < length (d @ [n]) + k" if "p \<in> dirs s" "prefix (d @ [n]) p" for p
      using Suc.prems(2) [OF that(1)] that(2) by (auto dest: append_prefixD)
  qed fact
  have "\<exists>out'. collect_entries k ls s d (ls s d) out = Some (Ok out') \<and>
      set out' = set out \<union> \<Union> (entry_refs s d ` set (ls s d))"
  proof (rule collect_entries_exact)
    fix n assume n: "n \<in> set (ls s d)" "d @ [n] \<notin> dirs s"
    then have f: "files s (d @ [n]) \<noteq> None" by (auto simp: names dir_names_def path_exists_def)
    then have "d @ [n] \<in> files_below s d" by (simp add: files_below_def strict_prefix_def)
    then show "files s (d @ [n]) \<noteq> None \<and> (\<exists>r. ref_entry s (d @ [n]) = Ok r)" using f Suc.prems(1) by blast
  qed (rule dir)
  then show ?case using Suc.prems(3) refs_below_split [OF assms(1)] names by simp
qed

text \<open>Every reference is listed, and nothing else.\<close>

lemma iter_refs_exact:
  assumes "fs_ok s" "listing_ok ls" "\<And>d. finite (dir_names s d)" "[''refs''] \<in> dirs s"
    and "\<And>p. p \<in> files_below s [''refs''] \<Longrightarrow> \<exists>r. ref_entry s p = Ok r"
    and "\<And>p. p \<in> dirs s \<Longrightarrow> length p \<le> fuel"
  shows "\<exists>out. iter_refs fuel ls s = Some (Ok out) \<and> set out = refs_below s [''refs'']"
  using collect_refs_exact [OF assms(1-3,5), of "[''refs'']" fuel "[]"] assms(4,6)
  by (force simp: iter_refs_def less_Suc_eq_le)

lemma ref_entry_read:
  assumes "ref_entry s p = Ok (name, h)" "ref_path name = Ok p"
  shows "read_ref s name = Ok (Some h)"
  using assms by (auto simp: ref_entry_def read_ref_def Let_def res_simps split: if_splits option.splits)

end
