(* ===== verification/Omp_Config.thy ===== *)
theory Omp_Config
  imports Omp_Engine Omp_Share Omp_Tree Listing
begin

text \<open>
  The settings of a repository: \<open>crates/omp-core/src/config.rs\<close> (\<open>omp.toml\<close> and
  \<open>local.toml\<close>), the limits of a tenant in \<open>registry.rs\<close>, the description of a probe in
  \<open>probes/manifest.rs\<close> and the rules of \<open>walker.rs\<close> that say which files of the working
  tree are ignored and which are blobs.

  The structs that serde derives are read off the parsed document: a key of the wrong
  type, an unknown key and an integer out of range are errors. Environment variables are
  a parameter.
\<close>

section \<open>Reading documents\<close>

definition sect :: "toml_table \<Rightarrow> str \<Rightarrow> toml_table option option" where
  "sect doc k =
     (case map_of doc k of
        None \<Rightarrow> Some None
      | Some (ITable t) \<Rightarrow> Some (Some t)
      | Some (IValue (TInlineTable kvs)) \<Rightarrow> Some (Some (map (\<lambda>(k, v). (k, IValue v)) kvs))
      | _ \<Rightarrow> None)"

definition only_keys :: "str list \<Rightarrow> toml_table \<Rightarrow> bool" where
  "only_keys ks t \<longleftrightarrow> list_all (\<lambda>(k, _). k \<in> set ks) t"

definition opt_str :: "toml_table \<Rightarrow> str \<Rightarrow> str option option" where
  "opt_str t k = (case map_of t k of None \<Rightarrow> Some None | Some (IValue (TString s)) \<Rightarrow> Some (Some s) | _ \<Rightarrow> None)"

definition opt_bool :: "toml_table \<Rightarrow> str \<Rightarrow> bool option option" where
  "opt_bool t k = (case map_of t k of None \<Rightarrow> Some None | Some (IValue (TBoolean b)) \<Rightarrow> Some (Some b) | _ \<Rightarrow> None)"

definition opt_uint :: "nat \<Rightarrow> toml_table \<Rightarrow> str \<Rightarrow> nat option option" where
  "opt_uint mx t k =
     (case map_of t k of None \<Rightarrow> Some None
      | Some (IValue (TInteger i)) \<Rightarrow> if 0 \<le> i \<and> i \<le> int mx then Some (Some (nat i)) else None
      | _ \<Rightarrow> None)"

definition opt_strs :: "toml_table \<Rightarrow> str \<Rightarrow> str list option option" where
  "opt_strs t k =
     (case map_of t k of None \<Rightarrow> Some None
      | Some (IValue (TArray vs)) \<Rightarrow>
          map_option Some (those (map (\<lambda>v. case v of TString s \<Rightarrow> Some s | _ \<Rightarrow> None) vs))
      | _ \<Rightarrow> None)"

text \<open>\<open>if let Some(x) = field\<close>: the value that was given, or the one that stands.\<close>

definition given :: "'a option \<Rightarrow> 'a \<Rightarrow> 'a" where
  "given x d = (case x of Some y \<Rightarrow> y | None \<Rightarrow> d)"

section \<open>The repository configuration\<close>

datatype schema_policy = PReject | PMinimal

record repo_config =
  schema_policy :: schema_policy
  allow_blob_fallback :: bool
  wd_ignore :: "str list"
  wd_follow_symlinks :: bool
  cfg_probes :: probe_limits
  cfg_chunk_size :: nat
  cfg_upload_ttl_hours :: nat

definition default_config :: repo_config where
  "default_config =
     \<lparr>schema_policy = PReject, allow_blob_fallback = False,
      wd_ignore = [''.git/'', ''node_modules/'', ''*.log'', ''*.tmp'', ''__pycache__/''],
      wd_follow_symlinks = False,
      cfg_probes = \<lparr>memory_mb = 64, probe_fuel = 1000000000, wall_clock_s = 10\<rparr>,
      cfg_chunk_size = 16 * 1024 * 1024, cfg_upload_ttl_hours = 24\<rparr>"

record raw_config =
  rc_policy :: "str option"
  rc_fallback :: "bool option"
  rc_ignore :: "str list option"
  rc_symlinks :: "bool option"
  rc_memory :: "nat option"
  rc_fuel :: "nat option"
  rc_wall :: "nat option"
  rc_chunk :: "nat option"
  rc_ttl :: "nat option"

text \<open>The structs \<open>Raw\<close>, \<open>IngestRaw\<close>, \<open>WorkdirRaw\<close>, \<open>ProbesRaw\<close> and \<open>StorageRaw\<close>; a missing section gives no values.\<close>

definition raw_config_of :: "toml_table \<Rightarrow> raw_config option" where
  "raw_config_of doc =
     (if \<not> only_keys [''ingest'', ''workdir'', ''probes'', ''storage''] doc then None
      else case (sect doc ''ingest'', sect doc ''workdir'', sect doc ''probes'', sect doc ''storage'') of
        (Some i', Some w', Some p', Some s') \<Rightarrow>
          (let i = given i' []; w = given w' []; p = given p' []; s = given s' [] in
           if \<not> (only_keys [''default_schema_policy'', ''allow_blob_fallback''] i \<and>
                  only_keys [''ignore'', ''follow_symlinks''] w \<and>
                  only_keys [''memory_mb'', ''fuel'', ''wall_clock_s''] p \<and>
                  only_keys [''chunk_size_bytes'', ''upload_session_ttl_hours''] s) then None
           else case (opt_str i ''default_schema_policy'', opt_bool i ''allow_blob_fallback'',
                      opt_strs w ''ignore'', opt_bool w ''follow_symlinks'',
                      opt_uint U32_MAX p ''memory_mb'', opt_uint U64_MAX p ''fuel'', opt_uint U32_MAX p ''wall_clock_s'',
                      opt_uint U64_MAX s ''chunk_size_bytes'', opt_uint U32_MAX s ''upload_session_ttl_hours'') of
             (Some a, Some b, Some c, Some d, Some e, Some f, Some g, Some h, Some j) \<Rightarrow>
               Some \<lparr>rc_policy = a, rc_fallback = b, rc_ignore = c, rc_symlinks = d, rc_memory = e, rc_fuel = f,
                     rc_wall = g, rc_chunk = h, rc_ttl = j\<rparr>
           | _ \<Rightarrow> None)
      | _ \<Rightarrow> None)"

definition config_of_raw :: "raw_config \<Rightarrow> repo_config result" where
  "config_of_raw r =
     bind_res
       (case rc_policy r of
          None \<Rightarrow> Ok (schema_policy default_config)
        | Some p \<Rightarrow> if p = ''reject'' then Ok PReject else if p = ''minimal'' then Ok PMinimal
            else Err (SchemaValidation ''omp.toml: default_schema_policy must be reject or minimal''))
       (\<lambda>policy.
     let d = default_config; cfg =
       d\<lparr>schema_policy := policy, allow_blob_fallback := given (rc_fallback r) (allow_blob_fallback d),
         wd_ignore := given (rc_ignore r) (wd_ignore d),
         wd_follow_symlinks := given (rc_symlinks r) (wd_follow_symlinks d),
         cfg_probes := \<lparr>memory_mb = given (rc_memory r) (memory_mb (cfg_probes d)),
           probe_fuel = given (rc_fuel r) (probe_fuel (cfg_probes d)),
           wall_clock_s = given (rc_wall r) (wall_clock_s (cfg_probes d))\<rparr>\<rparr> in
     if rc_chunk r = Some 0 then Err (SchemaValidation ''omp.toml: storage.chunk_size_bytes must be > 0'')
     else Ok (cfg\<lparr>cfg_chunk_size := given (rc_chunk r) (cfg_chunk_size d),
                  cfg_upload_ttl_hours := given (rc_ttl r) (cfg_upload_ttl_hours d)\<rparr>))"

definition config_parse :: "ext \<Rightarrow> bytes \<Rightarrow> repo_config result" where
  "config_parse E bs =
     (if bs = [] then Ok default_config
      else if \<not> utf8_valid bs then Err (SchemaValidation ''omp.toml not UTF-8'')
      else bind_res (map_err (\<lambda>e. SchemaValidation (''omp.toml: '' @ e)) (toml_parse E bs)) (\<lambda>doc.
        bind_res (ok_or (SchemaValidation ''omp.toml: invalid'') (raw_config_of doc)) config_of_raw))"

section \<open>The local configuration\<close>

record local_config =
  lc_server_bind :: str
  lc_author_name :: str
  lc_author_email :: str
  lc_cache_dir :: str

definition default_local :: local_config where
  "default_local = \<lparr>lc_server_bind = ''127.0.0.1:8000'', lc_author_name = ''omp'', lc_author_email = ''omp@local'',
     lc_cache_dir = ''.omp/cache/''\<rparr>"

definition local_of_doc :: "toml_table \<Rightarrow> local_config option" where
  "local_of_doc doc =
     (if \<not> only_keys [''server'', ''author'', ''cache''] doc then None
      else case (sect doc ''server'', sect doc ''author'', sect doc ''cache'') of
        (Some s', Some a', Some c') \<Rightarrow>
          (let s = given s' []; a = given a' []; c = given c' [] in
           if \<not> (only_keys [''bind''] s \<and> only_keys [''name'', ''email''] a \<and> only_keys [''dir''] c) then None
           else case (opt_str s ''bind'', opt_str a ''name'', opt_str a ''email'', opt_str c ''dir'') of
             (Some b, Some n, Some e, Some d) \<Rightarrow>
               Some \<lparr>lc_server_bind = given b (lc_server_bind default_local), lc_author_name = given n (lc_author_name default_local),
                     lc_author_email = given e (lc_author_email default_local), lc_cache_dir = given d (lc_cache_dir default_local)\<rparr>
           | _ \<Rightarrow> None)
      | _ \<Rightarrow> None)"

definition local_load :: "ext \<Rightarrow> (str \<Rightarrow> str option) \<Rightarrow> disk \<Rightarrow> local_config result" where
  "local_load E env s =
     bind_res
       (if path_exists s [''local.toml''] then
          bind_res (read_to_string s [''local.toml'']) (\<lambda>r.
          bind_res (ok_or (Io ''read'' ''not found'') r) (\<lambda>txt.
          bind_res (map_err (\<lambda>e. SchemaValidation (''local.toml: '' @ e)) (toml_parse E txt)) (\<lambda>doc.
          ok_or (SchemaValidation ''local.toml: invalid'') (local_of_doc doc))))
        else Ok default_local)
       (\<lambda>cfg.
     Ok (cfg\<lparr>lc_server_bind := given (env ''OMP_SERVER_BIND'') (lc_server_bind cfg),
             lc_author_name := given (env ''OMP_AUTHOR_NAME'') (lc_author_name cfg),
             lc_author_email := given (env ''OMP_AUTHOR_EMAIL'') (lc_author_email cfg)\<rparr>))"

definition local_skeleton :: str where
  "local_skeleton = ''[server]'' @ [LF] @ ''bind = '' @ [CHR 0x22] @ ''127.0.0.1:8000'' @ [CHR 0x22, LF, LF] @
     ''[author]'' @ [LF] @ ''name = '' @ [CHR 0x22] @ ''omp'' @ [CHR 0x22, LF] @
     ''email = '' @ [CHR 0x22] @ ''omp@local'' @ [CHR 0x22, LF]"

definition write_skeleton :: "unit op" where
  "write_skeleton s =
     (if path_exists s [''local.toml''] then (Ok (), s) else write_file [''local.toml''] local_skeleton s)"

section \<open>Limits of a tenant\<close>

record quotas =
  q_bytes :: "nat option"
  q_object_count :: "nat option"
  q_probe_fuel :: "nat option"
  q_wall_clock_s :: "nat option"
  q_concurrent_writes :: "nat option"

definition unlimited :: quotas where
  "unlimited = \<lparr>q_bytes = None, q_object_count = None, q_probe_fuel = None, q_wall_clock_s = None,
     q_concurrent_writes = None\<rparr>"

definition clamp_probe :: "quotas \<Rightarrow> probe_limits \<Rightarrow> probe_limits" where
  "clamp_probe q r =
     \<lparr>memory_mb = memory_mb r,
      probe_fuel = (case q_probe_fuel q of Some cap \<Rightarrow> min (probe_fuel r) cap | None \<Rightarrow> probe_fuel r),
      wall_clock_s = (case q_wall_clock_s q of Some cap \<Rightarrow> min (wall_clock_s r) cap | None \<Rightarrow> wall_clock_s r)\<rparr>"

section \<open>Probe descriptions\<close>

record probe_manifest =
  pm_name :: str
  pm_returns :: "str option"
  pm_accepts_kwargs :: "str list"
  pm_description :: "str option"
  pm_max_input_bytes :: "nat option"
  pm_memory_mb :: "nat option"
  pm_fuel :: "nat option"
  pm_wall_clock_s :: "nat option"

definition probe_manifest_of :: "toml_table \<Rightarrow> probe_manifest option" where
  "probe_manifest_of doc =
     (if \<not> only_keys [''name'', ''returns'', ''accepts_kwargs'', ''description'', ''limits''] doc then None
      else case (opt_str doc ''name'', opt_str doc ''returns'', opt_strs doc ''accepts_kwargs'',
                 opt_str doc ''description'', sect doc ''limits'') of
        (Some (Some n), Some r, Some k, Some d, Some l') \<Rightarrow>
          (let l = given l' [] in
           if \<not> only_keys [''memory_mb'', ''fuel'', ''wall_clock_s'', ''max_input_bytes''] l then None
           else case (opt_uint U32_MAX l ''memory_mb'', opt_uint U64_MAX l ''fuel'', opt_uint U32_MAX l ''wall_clock_s'',
                      opt_uint U64_MAX l ''max_input_bytes'') of
             (Some m, Some f, Some w, Some mx) \<Rightarrow>
               Some \<lparr>pm_name = n, pm_returns = r, pm_accepts_kwargs = given k [], pm_description = d,
                     pm_max_input_bytes = mx, pm_memory_mb = m, pm_fuel = f, pm_wall_clock_s = w\<rparr>
           | _ \<Rightarrow> None)
      | _ \<Rightarrow> None)"

definition probe_manifest_parse :: "ext \<Rightarrow> bytes \<Rightarrow> probe_manifest result" where
  "probe_manifest_parse E bs =
     (if \<not> utf8_valid bs then Err (SchemaValidation ''probe.toml is not UTF-8'')
      else bind_res (map_err (\<lambda>e. SchemaValidation (''probe.toml: '' @ e)) (toml_parse E bs)) (\<lambda>doc.
        ok_or (SchemaValidation ''probe.toml: invalid'') (probe_manifest_of doc)))"

section \<open>The working tree\<close>

definition to_slash :: "str \<Rightarrow> str" where
  "to_slash p = map (\<lambda>c. if c = CHR 0x5C then CHR ''/'' else c) p"

definition classify_path :: "str \<Rightarrow> mode" where
  "classify_path rel =
     (let s = to_slash rel in
      if s = ''omp.toml'' then MBlob
      else if starts_with ''schemas/'' s \<or> starts_with ''probes/'' s then MBlob
      else MManifest)"

definition path_descends_from :: "str \<Rightarrow> str \<Rightarrow> bool" where
  "path_descends_from path pre \<longleftrightarrow>
     path = pre \<or> starts_with (pre @ ''/'') path \<or> list_ex (\<lambda>c. c = pre) (split_on (CHR ''/'') path)"

definition one_ignore_matches :: "str \<Rightarrow> str \<Rightarrow> bool \<Rightarrow> bool" where
  "one_ignore_matches pattern path is_dir =
     (let pat = trim pattern in
      if pat = [] \<or> starts_with ''#'' pat then False
      else
        let dir_only = ends_with ''/'' pat; pat = trim_end_matches (CHR ''/'') pat in
        if CHR ''/'' \<in> set pat then
          (let anchored = (case strip_prefix ''/'' pat of Some a \<Rightarrow> a | None \<Rightarrow> pat) in
           glob_match anchored path \<and> (\<not> dir_only \<or> is_dir \<or> path_descends_from path anchored))
        else list_ex (\<lambda>c. glob_match pat c \<and> (\<not> dir_only \<or> is_dir \<or> path_descends_from path c))
               (split_on (CHR ''/'') path))"

definition ignore_matches :: "str list \<Rightarrow> str \<Rightarrow> bool \<Rightarrow> bool" where
  "ignore_matches patterns path is_dir = list_ex (\<lambda>p. one_ignore_matches p path is_dir) patterns"

end
