(* ===== verification/Omp_Paths.thy ===== *)
theory Omp_Paths
  imports Omp_Tree Omp_Store
begin

text \<open>
  \<open>crates/omp-core/src/paths.rs\<close>: reading and rewriting a path through nested tree
  objects. Every rewrite stores new trees and answers a new root; the old root stays
  readable. \<open>repo_ok\<close> says that the trees of a store were built bottom-up, which is how
  \<open>put_at\<close> and \<open>delete_at\<close> build them; it makes every walk terminate.
\<close>

section \<open>Model\<close>

definition split_path :: "str \<Rightarrow> str list result" where
  "split_path path =
     (let trimmed = trim_matches (CHR ''/'') path in
      if trimmed = [] then Ok []
      else let parts = split_on (CHR ''/'') trimmed in
        if list_ex (\<lambda>p. p = [] \<or> p = ''.'' \<or> p = ''..'') parts then Err (InvalidPath ''bad path'')
        else Ok parts)"

definition load_tree_with_key :: "ext \<Rightarrow> bytes option \<Rightarrow> disk \<Rightarrow> hash \<Rightarrow> tree result" where
  "load_tree_with_key E pk s h =
     bind_res (disk_get E s h) (\<lambda>r.
     bind_res (ok_or (NotFound (''tree object '' @ hash_hex h)) r) (\<lambda>(ty, content).
     if ty \<noteq> ''tree'' then Err (Corrupt (''expected tree, got '' @ ty @ '' at '' @ hash_hex h))
     else tree_parse_with_path_key E pk content))"

definition store_tree_with_key :: "ext \<Rightarrow> bytes option \<Rightarrow> tree \<Rightarrow> hash op" where
  "store_tree_with_key E pk t =
     bind_op (lift_res (tree_serialize_with_path_key E pk t)) (disk_put E (type_as_str Tree))"

text \<open>The loop of \<open>get_at_with_key\<close>: the tree at hand, the next part and the rest.\<close>

fun get_loop :: "ext \<Rightarrow> bytes option \<Rightarrow> disk \<Rightarrow> tree \<Rightarrow> str \<Rightarrow> str list \<Rightarrow> (mode \<times> hash) option result" where
  "get_loop E pk s current part [] =
     (case bt_get current part of None \<Rightarrow> Ok None
      | Some e \<Rightarrow> Ok (Some (entry_mode e, entry_hash e)))"
| "get_loop E pk s current part (next # rest) =
     (case bt_get current part of None \<Rightarrow> Ok None
      | Some e \<Rightarrow>
          if entry_mode e \<noteq> MTree then Ok None
          else bind_res (load_tree_with_key E pk s (entry_hash e)) (\<lambda>t. get_loop E pk s t next rest))"

definition get_parts :: "ext \<Rightarrow> bytes option \<Rightarrow> disk \<Rightarrow> str list \<Rightarrow> hash \<Rightarrow> (mode \<times> hash) option result" where
  "get_parts E pk s parts root =
     (case parts of [] \<Rightarrow> Ok (Some (MTree, root))
      | p # ps \<Rightarrow> bind_res (load_tree_with_key E pk s root) (\<lambda>t. get_loop E pk s t p ps))"

definition get_at_with_key :: "ext \<Rightarrow> bytes option \<Rightarrow> disk \<Rightarrow> str \<Rightarrow> hash \<Rightarrow> (mode \<times> hash) option result" where
  "get_at_with_key E pk s path root =
     bind_res (split_path path) (\<lambda>parts. get_parts E pk s parts root)"

definition load_or_new :: "ext \<Rightarrow> bytes option \<Rightarrow> hash option \<Rightarrow> tree op" where
  "load_or_new E pk current =
     (case current of Some h \<Rightarrow> reads (\<lambda>s. load_tree_with_key E pk s h) | None \<Rightarrow> ret [])"

text \<open>Where \<open>put_inner\<close> goes on from a tree: into a subtree, into a new one, or not at all.\<close>

definition child_hash :: "tree \<Rightarrow> str \<Rightarrow> hash option result" where
  "child_hash tree head =
     (case bt_get tree head of
        Some c \<Rightarrow> if entry_mode c = MTree then Ok (Some (entry_hash c))
                  else Err (Conflict ''segment is not a directory'')
      | None \<Rightarrow> Ok None)"

fun put_inner :: "ext \<Rightarrow> bytes option \<Rightarrow> hash option \<Rightarrow> str \<Rightarrow> str list \<Rightarrow> entry \<Rightarrow> hash op" where
  "put_inner E pk current head [] e =
     bind_op (load_or_new E pk current) (\<lambda>tree.
     bind_op (lift_res (tree_insert head e tree)) (\<lambda>tree'.
     store_tree_with_key E pk tree'))"
| "put_inner E pk current head (next # rest) e =
     bind_op (load_or_new E pk current) (\<lambda>tree.
     bind_op (lift_res (child_hash tree head)) (\<lambda>child.
     bind_op (put_inner E pk child next rest e) (\<lambda>new_child.
     bind_op (lift_res (tree_insert head \<lparr>entry_mode = MTree, entry_hash = new_child\<rparr> tree)) (\<lambda>tree'.
     store_tree_with_key E pk tree'))))"

definition put_at_with_key :: "ext \<Rightarrow> bytes option \<Rightarrow> hash option \<Rightarrow> str \<Rightarrow> entry \<Rightarrow> hash op" where
  "put_at_with_key E pk root path e =
     bind_op (lift_res (split_path path)) (\<lambda>parts.
     case parts of [] \<Rightarrow> raise (InvalidPath ''cannot put at empty path'')
     | p # ps \<Rightarrow> put_inner E pk root p ps e)"

text \<open>The end of \<open>delete_inner\<close>: an empty tree is not stored.\<close>

definition store_pruned :: "ext \<Rightarrow> bytes option \<Rightarrow> tree \<Rightarrow> hash option op" where
  "store_pruned E pk tree =
     (if tree = [] then ret None
      else bind_op (store_tree_with_key E pk tree) (\<lambda>h. ret (Some h)))"

fun delete_inner :: "ext \<Rightarrow> bytes option \<Rightarrow> hash \<Rightarrow> str \<Rightarrow> str list \<Rightarrow> hash option op" where
  "delete_inner E pk current head [] =
     bind_op (reads (\<lambda>s. load_tree_with_key E pk s current)) (\<lambda>tree.
     store_pruned E pk (bt_remove head tree))"
| "delete_inner E pk current head (next # rest) =
     bind_op (reads (\<lambda>s. load_tree_with_key E pk s current)) (\<lambda>tree.
     case bt_get tree head of
       None \<Rightarrow> ret (Some current)
     | Some e \<Rightarrow>
         if entry_mode e \<noteq> MTree then ret (Some current)
         else bind_op (delete_inner E pk (entry_hash e) next rest) (\<lambda>r.
           case r of
             Some new_child \<Rightarrow>
               bind_op (lift_res (tree_insert head \<lparr>entry_mode = MTree, entry_hash = new_child\<rparr> tree))
                 (store_pruned E pk)
           | None \<Rightarrow> store_pruned E pk (bt_remove head tree)))"

definition delete_at_with_key :: "ext \<Rightarrow> bytes option \<Rightarrow> hash \<Rightarrow> str \<Rightarrow> hash option op" where
  "delete_at_with_key E pk root path =
     bind_op (lift_res (split_path path)) (\<lambda>parts.
     case parts of [] \<Rightarrow> raise (InvalidPath ''cannot delete root tree'')
     | p # ps \<Rightarrow> delete_inner E pk root p ps)"

type_synonym leaf = "str \<times> mode \<times> hash"

definition join_name :: "str \<Rightarrow> str \<Rightarrow> str" where
  "join_name pre name = (if pre = [] then name else pre @ ''/'' @ name)"

text \<open>
  \<open>walk_inner\<close> and its loop over the entries of one tree. The recursion follows stored
  objects, so it carries fuel; \<open>None\<close> is running out of it.
\<close>

fun walk_inner :: "ext \<Rightarrow> bytes option \<Rightarrow> disk \<Rightarrow> nat \<Rightarrow> hash \<Rightarrow> str \<Rightarrow> leaf list \<Rightarrow> leaf list result option"
and walk_entries :: "ext \<Rightarrow> bytes option \<Rightarrow> disk \<Rightarrow> nat \<Rightarrow> (str \<times> entry) list \<Rightarrow> str \<Rightarrow> leaf list \<Rightarrow> leaf list result option"
where
  "walk_inner E pk s 0 h pre out = None"
| "walk_inner E pk s (Suc n) h pre out =
     (case load_tree_with_key E pk s h of Inl err \<Rightarrow> Some (Err err)
      | Inr t \<Rightarrow> walk_entries E pk s n t pre out)"
| "walk_entries E pk s n [] pre out = Some (Ok out)"
| "walk_entries E pk s n ((name, e) # es) pre out =
     (let path = join_name pre name in
      if entry_mode e = MTree then
        (case walk_inner E pk s n (entry_hash e) path out of
           None \<Rightarrow> None
         | Some (Inl err) \<Rightarrow> Some (Err err)
         | Some (Inr out') \<Rightarrow> walk_entries E pk s n es pre out')
      else walk_entries E pk s n es pre (out @ [(path, entry_mode e, entry_hash e)]))"

definition walk_with_key :: "ext \<Rightarrow> bytes option \<Rightarrow> disk \<Rightarrow> nat \<Rightarrow> hash \<Rightarrow> leaf list result option" where
  "walk_with_key E pk s fuel root = walk_inner E pk s fuel root [] []"

section \<open>Stores whose trees were built bottom-up\<close>

definition tree_frame :: "bytes \<Rightarrow> bool" where
  "tree_frame f \<longleftrightarrow> (case parse_framed f of Inr (Tree, c) \<Rightarrow> True | _ \<Rightarrow> False)"

definition tree_in :: "ext \<Rightarrow> bytes list \<Rightarrow> hash \<Rightarrow> bool" where
  "tree_in E fs h \<longleftrightarrow> list_ex (\<lambda>f. tree_frame f \<and> hash_of_bytes E f = h) fs"

definition subtrees_in :: "ext \<Rightarrow> bytes list \<Rightarrow> tree \<Rightarrow> bool" where
  "subtrees_in E fs t \<longleftrightarrow> (\<forall>(n, e) \<in> set t. entry_mode e = MTree \<longrightarrow> tree_in E fs (entry_hash e))"

definition tree_node_ok :: "ext \<Rightarrow> bytes option \<Rightarrow> bytes list \<Rightarrow> bytes \<Rightarrow> bool" where
  "tree_node_ok E pk fs f \<longleftrightarrow>
     (case parse_framed f of
        Inr (Tree, c) \<Rightarrow> (case tree_parse_with_path_key E pk c of Inl _ \<Rightarrow> False
                          | Inr t \<Rightarrow> tree_fits pk t \<and> subtrees_in E fs t)
      | _ \<Rightarrow> True)"

fun trees_built :: "ext \<Rightarrow> bytes option \<Rightarrow> bytes list \<Rightarrow> bool" where
  "trees_built E pk [] \<longleftrightarrow> True"
| "trees_built E pk (f # fs) \<longleftrightarrow> tree_node_ok E pk fs f \<and> trees_built E pk fs"

definition repo_ok :: "ext \<Rightarrow> bytes option \<Rightarrow> disk \<Rightarrow> bool" where
  "repo_ok E pk s \<longleftrightarrow> disk_ok E s \<and> store_env E \<and> key_ok E pk \<and> trees_built E pk (puts s)"

lemma repo_okD:
  assumes "repo_ok E pk s"
  shows "disk_ok E s" "sha_ok E" "zlib_ok E" "key_ok E pk" "trees_built E pk (puts s)" "store_env E"
  using assms by (simp_all add: repo_ok_def store_env_def)

lemma tree_frame_frame: "length c \<le> U64_MAX \<Longrightarrow> tree_frame (frame t c) \<longleftrightarrow> t = Tree"
  by (cases t) (simp_all add: tree_frame_def parse_framed_frame)

lemma tree_in_Cons [simp]: "tree_in E (f # fs) h \<longleftrightarrow> (tree_frame f \<and> hash_of_bytes E f = h) \<or> tree_in E fs h"
  by (simp add: tree_in_def)

lemma tree_in_mono: "set fs \<subseteq> set gs \<Longrightarrow> tree_in E fs h \<Longrightarrow> tree_in E gs h"
  by (auto simp: tree_in_def list_ex_iff)

lemma subtrees_in_mono: "set fs \<subseteq> set gs \<Longrightarrow> subtrees_in E fs t \<Longrightarrow> subtrees_in E gs t"
  by (auto simp: subtrees_in_def dest: tree_in_mono)

lemma subtrees_in_get:
  "subtrees_in E fs t \<Longrightarrow> bt_get t n = Some e \<Longrightarrow> entry_mode e = MTree \<Longrightarrow> tree_in E fs (entry_hash e)"
  by (auto simp: subtrees_in_def bt_get_def dest!: map_of_SomeD)

lemma subtrees_in_insert:
  "subtrees_in E fs t \<Longrightarrow> (entry_mode e = MTree \<Longrightarrow> tree_in E fs (entry_hash e)) \<Longrightarrow>
   subtrees_in E fs (bt_insert n e t)"
  using bt_set_insert [of n e t] by (auto simp: subtrees_in_def)

lemma subtrees_in_remove: "subtrees_in E fs t \<Longrightarrow> subtrees_in E fs (bt_remove n t)"
  using bt_set_remove [of n t] by (auto simp: subtrees_in_def)

lemma subtrees_in_Nil [simp]: "subtrees_in E fs []"
  by (simp add: subtrees_in_def)

text \<open>
  A tree that is in the store is read, fits the format, and its subtrees are older
  than it: the suffix of \<open>puts\<close> that holds them is strictly shorter.
\<close>

lemma load_tree_older:
  assumes "repo_ok E pk s" "collision_free E s" "suffix fs (puts s)" "tree_in E fs h"
  obtains t gs where "load_tree_with_key E pk s h = Ok t" "tree_fits pk t" "subtrees_in E gs t"
    "suffix gs (puts s)" "length gs < length fs"
proof -
  note ok = repo_okD [OF assms(1)]
  from assms(4) obtain f where f: "f \<in> set fs" "tree_frame f" "hash_of_bytes E f = h"
    by (auto simp: tree_in_def list_ex_iff)
  then obtain xs gs where gs: "fs = xs @ f # gs" by (meson split_list)
  then obtain ys where puts: "puts s = ys @ f # gs" using assms(3) by (auto simp: suffix_def)
  have "trees_built E pk (zs @ f # gs) \<Longrightarrow> tree_node_ok E pk gs f" for zs
    by (induction zs) auto
  then have node: "tree_node_ok E pk gs f" using ok(5) puts by metis
  have "f \<in> set (puts s)" using puts by simp
  then obtain u c where fr: "f = frame u c" using puts_frames [OF ok(1)] by blast
  have len: "length c \<le> U64_MAX" using stored_length [OF assms(2)] \<open>f \<in> set (puts s)\<close> fr by blast
  then have u: "u = Tree" using f(2) fr by (simp add: tree_frame_frame)
  obtain t where t: "tree_parse_with_path_key E pk c = Ok t" "tree_fits pk t" "subtrees_in E gs t"
    using node fr u len by (auto simp: tree_node_ok_def parse_framed_frame split: sum.splits)
  have "disk_get E s h = Ok (Some (''tree'', c))"
    using disk_get_stored [OF ok(1,2) assms(2), of Tree c] \<open>f \<in> set (puts s)\<close> fr u f(3) by (simp add: hash_of_def)
  then have "load_tree_with_key E pk s h = Ok t" using t by (simp add: load_tree_with_key_def)
  then show thesis using t puts gs by (intro that [of t gs]) (auto simp: suffix_def)
qed

lemma load_tree_in:
  assumes "repo_ok E pk s" "collision_free E s" "tree_in E (puts s) h"
  obtains t where "load_tree_with_key E pk s h = Ok t" "tree_fits pk t" "subtrees_in E (puts s) t"
  using load_tree_older [OF assms(1,2) suffix_order.refl assms(3)] subtrees_in_mono set_mono_suffix by metis

text \<open>Storing a tree whose subtrees are in the store.\<close>

lemma store_tree_ok:
  assumes "repo_ok E pk s" "tree_fits pk t" "subtrees_in E (puts s) t"
  shows "\<exists>h s'. store_tree_with_key E pk t s = (Ok h, s') \<and> disk_ok E s' \<and> extends s s' \<and>
           (collision_free E s' \<longrightarrow> repo_ok E pk s' \<and> tree_in E (puts s') h \<and> load_tree_with_key E pk s' h = Ok t)"
proof -
  note ok = repo_okD [OF assms(1)]
  obtain c where c: "tree_serialize_with_path_key E pk t = Ok c" "tree_parse_with_path_key E pk c = Ok t"
    using tree_parse_serialize [OF ok(4) assms(2)] by blast
  obtain s' where s': "disk_put E (type_as_str Tree) c s = (Ok (hash_of E Tree c), s')" "disk_ok E s'"
      "puts s' = frame Tree c # puts s"
    using disk_put_ok [OF ok(1-3)] by blast
  have ext: "extends s s'" using s'(3) by (rule extends_put)
  have "repo_ok E pk s' \<and> tree_in E (puts s') (hash_of E Tree c) \<and> load_tree_with_key E pk s' (hash_of E Tree c) = Ok t"
    if cf: "collision_free E s'"
  proof -
    have len: "length c \<le> U64_MAX" using stored_length [OF cf, of Tree c] s'(3) by simp
    have "tree_node_ok E pk (puts s) (frame Tree c)"
      using c(2) assms(2,3) len by (simp add: tree_node_ok_def parse_framed_frame)
    then have "repo_ok E pk s'" using ok s' by (simp add: repo_ok_def)
    moreover have "disk_get E s' (hash_of E Tree c) = Ok (Some (''tree'', c))"
      using disk_get_stored [OF s'(2) ok(2) cf, of Tree c] s'(3) by simp
    ultimately show ?thesis
      using s'(3) len c(2) by (simp add: load_tree_with_key_def tree_frame_frame hash_of_def)
  qed
  then show ?thesis using c(1) s' ext by (auto simp: store_tree_with_key_def simp del: type_as_str.simps)
qed

section \<open>Reading\<close>

lemma load_tree_later:
  assumes "disk_ok E s" "disk_ok E s'" "sha_ok E" "collision_free E s'" "extends s s'"
    and "load_tree_with_key E pk s h = Ok t"
  shows "load_tree_with_key E pk s' h = Ok t"
proof -
  obtain r where r: "disk_get E s h = Ok (Some r)"
    using assms(6) by (auto simp: load_tree_with_key_def res_simps)
  with disk_get_later [OF assms(1-5)] have "disk_get E s' h = Ok (Some r)" .
  with r assms(6) show ?thesis by (simp add: load_tree_with_key_def)
qed

lemma get_loop_later:
  assumes "disk_ok E s" "disk_ok E s'" "sha_ok E" "collision_free E s'" "extends s s'"
    and "get_loop E pk s t p ps = Ok r"
  shows "get_loop E pk s' t p ps = Ok r"
  using assms(6)
proof (induction ps arbitrary: t p)
  case (Cons q qs)
  then show ?case
    using load_tree_later [OF assms(1-5)] by (auto simp: res_simps split: option.splits if_splits)
qed simp

lemma get_parts_later:
  assumes "disk_ok E s" "disk_ok E s'" "sha_ok E" "collision_free E s'" "extends s s'"
    and "get_parts E pk s ps h = Ok r"
  shows "get_parts E pk s' ps h = Ok r"
  using assms(6) load_tree_later [OF assms(1-5)] get_loop_later [OF assms(1-5)]
  by (auto simp: get_parts_def res_simps split: list.splits)

lemma get_loop_total:
  assumes "repo_ok E pk s" "collision_free E s" "subtrees_in E (puts s) t"
  shows "\<exists>r. get_loop E pk s t p ps = Ok r"
  using assms(3)
proof (induction ps arbitrary: t p)
  case (Cons q qs)
  show ?case
  proof (cases "bt_get t p")
    case (Some e)
    show ?thesis
    proof (cases "entry_mode e = MTree")
      case True
      then obtain t' where "load_tree_with_key E pk s (entry_hash e) = Ok t'" "subtrees_in E (puts s) t'"
        using load_tree_in [OF assms(1,2)] subtrees_in_get [OF Cons.prems Some] by metis
      then show ?thesis using Cons.IH [of t' q] Some True by auto
    qed (simp add: Some)
  qed simp
qed (auto split: option.splits)

lemma get_loop_stable:
  assumes "repo_ok E pk s" "disk_ok E s'" "collision_free E s'" "extends s s'" "subtrees_in E (puts s) t"
  shows "get_loop E pk s' t p ps = get_loop E pk s t p ps"
  using get_loop_total [OF assms(1) collision_free_mono [OF assms(4,3)] assms(5)]
    get_loop_later [OF repo_okD(1) [OF assms(1)] assms(2) repo_okD(2) [OF assms(1)] assms(3,4)] by metis

lemma get_loop_cong: "bt_get t p = bt_get t' p \<Longrightarrow> get_loop E pk s t p ps = get_loop E pk s t' p ps"
  by (cases ps) simp_all

section \<open>Writing\<close>

lemma store_tree_extends: "store_tree_with_key E pk t s = (r, s') \<Longrightarrow> extends s s'"
  unfolding store_tree_with_key_def by (erule bind_op_extends) (auto dest: disk_put_extends)

lemma load_or_new_state: "load_or_new E pk cur s = (r, s') \<Longrightarrow> s' = s"
  by (cases cur) (auto simp: load_or_new_def)

lemma put_inner_extends: "put_inner E pk cur head rest e s = (r, s') \<Longrightarrow> extends s s'"
proof (induction rest arbitrary: cur head s r s')
  case Nil
  then show ?case
    by (auto elim!: bind_op_extends dest: load_or_new_state store_tree_extends)
next
  case (Cons q qs)
  show ?case
    using Cons.prems
    by (auto elim!: bind_op_extends dest: load_or_new_state store_tree_extends Cons.IH)
qed

text \<open>
  \<open>put_inner\<close> meets a non-directory on the way exactly when some proper prefix of the
  path is a leaf.
\<close>

fun put_blocked :: "ext \<Rightarrow> bytes option \<Rightarrow> disk \<Rightarrow> tree \<Rightarrow> str \<Rightarrow> str list \<Rightarrow> bool" where
  "put_blocked E pk s t head [] \<longleftrightarrow> False"
| "put_blocked E pk s t head (q # qs) \<longleftrightarrow>
     (case bt_get t head of None \<Rightarrow> False
      | Some e \<Rightarrow> if entry_mode e \<noteq> MTree then True
          else case load_tree_with_key E pk s (entry_hash e) of Inl _ \<Rightarrow> False
            | Inr t' \<Rightarrow> put_blocked E pk s t' q qs)"

text \<open>What one call of \<open>put_inner\<close> achieves, given the tree it starts from.\<close>

definition put_result :: "ext \<Rightarrow> bytes option \<Rightarrow> disk \<Rightarrow> tree \<Rightarrow> str \<Rightarrow> str list \<Rightarrow> entry \<Rightarrow> disk \<Rightarrow> hash \<Rightarrow> bool" where
  "put_result E pk s t head rest e s' h \<longleftrightarrow>
     (\<exists>t'. load_tree_with_key E pk s' h = Ok t' \<and> tree_in E (puts s') h \<and>
        get_loop E pk s' t' head rest = Ok (Some (entry_mode e, entry_hash e)) \<and>
        (\<forall>p ps. \<not> prefix (p # ps) (head # rest) \<longrightarrow> \<not> prefix (head # rest) (p # ps) \<longrightarrow>
           get_loop E pk s' t' p ps = get_loop E pk s t p ps))"

lemma put_last:
  assumes "repo_ok E pk s" "tree_fits pk t" "subtrees_in E (puts s) t" "name_fits pk head"
    and "hash_wf (entry_hash e)" "entry_mode e = MTree \<Longrightarrow> tree_in E (puts s) (entry_hash e)"
    and "store_tree_with_key E pk (bt_insert head e t) s = (r, s')" "collision_free E s'"
  shows "repo_ok E pk s' \<and> (\<exists>h. r = Ok h \<and> load_tree_with_key E pk s' h = Ok (bt_insert head e t) \<and>
           tree_in E (puts s') h \<and>
           (\<forall>p ps. p \<noteq> head \<longrightarrow> get_loop E pk s' (bt_insert head e t) p ps = get_loop E pk s t p ps))"
proof -
  have fits: "tree_fits pk (bt_insert head e t)" using assms(2,4,5) by (rule tree_fits_insert)
  have subs: "subtrees_in E (puts s) (bt_insert head e t)" using assms(3,6) by (rule subtrees_in_insert)
  obtain h where h: "r = Ok h" "disk_ok E s'" "extends s s'" "repo_ok E pk s'" "tree_in E (puts s') h"
      "load_tree_with_key E pk s' h = Ok (bt_insert head e t)"
    using store_tree_ok [OF assms(1) fits subs] assms(7,8) by auto
  have "get_loop E pk s' (bt_insert head e t) p ps = get_loop E pk s t p ps" if "p \<noteq> head" for p ps
    using get_loop_cong [of "bt_insert head e t" p t E pk s' ps] that
      get_loop_stable [OF assms(1) h(2) assms(8) h(3) assms(3)] by simp
  with h show ?thesis by blast
qed

lemma get_loop_empty: "get_loop E pk s [] p ps = Ok None"
  by (cases ps) simp_all

text \<open>The tree \<open>put_inner\<close> goes on with below \<open>head\<close>.\<close>

lemma child_tree:
  assumes "repo_ok E pk s" "collision_free E s" "subtrees_in E (puts s) t" "child_hash t head = Ok child"
  obtains t1 where "load_or_new E pk child s = (Ok t1, s)" "tree_fits pk t1" "subtrees_in E (puts s) t1"
    "\<And>q qs. put_blocked E pk s t head (q # qs) \<longleftrightarrow> put_blocked E pk s t1 q qs"
    "\<And>p ps. get_loop E pk s t head (p # ps) = get_loop E pk s t1 p ps"
proof (cases child)
  case None
  then have none: "bt_get t head = None" using assms(4) by (auto simp: child_hash_def split: option.splits if_splits)
  have "put_blocked E pk s [] q qs = False" for q qs by (cases qs) simp_all
  then show thesis using None none that [of "[]"] by (simp add: load_or_new_def get_loop_empty)
next
  case (Some c)
  then obtain x where x: "bt_get t head = Some x" "entry_mode x = MTree" "c = entry_hash x"
    using assms(4) by (auto simp: child_hash_def split: option.splits if_splits)
  then obtain t1 where "load_tree_with_key E pk s c = Ok t1" "tree_fits pk t1" "subtrees_in E (puts s) t1"
    using load_tree_in [OF assms(1,2)] subtrees_in_get [OF assms(3)] by metis
  then show thesis using Some x that [of t1] by (simp add: load_or_new_def)
qed

text \<open>From what was achieved below \<open>head\<close> to what the call achieves.\<close>

lemma put_result_step:
  assumes "repo_ok E pk s" "repo_ok E pk s1" "extends s s1" "extends s1 s'" "collision_free E s'"
    and "tree_fits pk t" "subtrees_in E (puts s) t" "name_fits pk head"
    and "put_result E pk s t1 q qs e s1 h1"
    and "\<And>p ps. get_loop E pk s t head (p # ps) = get_loop E pk s t1 p ps"
    and "store_tree_with_key E pk (bt_insert head \<lparr>entry_mode = MTree, entry_hash = h1\<rparr> t) s1 = (r, s')"
  shows "repo_ok E pk s' \<and> (\<exists>h. r = Ok h \<and> put_result E pk s t head (q # qs) e s' h)"
proof -
  let ?t = "bt_insert head \<lparr>entry_mode = MTree, entry_hash = h1\<rparr> t"
  have cf1: "collision_free E s1" using collision_free_mono [OF assms(4,5)] .
  obtain t1' where h1: "load_tree_with_key E pk s1 h1 = Ok t1'" "tree_in E (puts s1) h1"
    "get_loop E pk s1 t1' q qs = Ok (Some (entry_mode e, entry_hash e))"
    "\<And>p ps. \<not> prefix (p # ps) (q # qs) \<Longrightarrow> \<not> prefix (q # qs) (p # ps) \<Longrightarrow>
       get_loop E pk s1 t1' p ps = get_loop E pk s t1 p ps"
    using assms(9) by (auto simp: put_result_def)
  have "hash_wf h1" using h1(2) repo_okD(2) [OF assms(2)] by (auto simp: tree_in_def list_ex_iff)
  then obtain h where h: "repo_ok E pk s'" "r = Ok h" "load_tree_with_key E pk s' h = Ok ?t" "tree_in E (puts s') h"
      "\<And>p ps. p \<noteq> head \<Longrightarrow> get_loop E pk s' ?t p ps = get_loop E pk s1 t p ps"
    using put_last [OF assms(2,6) subtrees_in_mono [OF extends_puts [OF assms(3)] assms(7)] assms(8) _ _ assms(11,5)] h1(2)
    by auto
  have "subtrees_in E (puts s1) t1'" using load_tree_in [OF assms(2) cf1 h1(2)] h1(1) by auto
  then have below: "get_loop E pk s' ?t head (p # ps) = get_loop E pk s1 t1' p ps" for p ps
    using load_tree_later [OF repo_okD(1) [OF assms(2)] repo_okD(1) [OF h(1)] repo_okD(2) [OF assms(2)] assms(5,4) h1(1)]
      get_loop_stable [OF assms(2) repo_okD(1) [OF h(1)] assms(5,4)] by simp
  have "get_loop E pk s' ?t p ps = get_loop E pk s t p ps"
    if "\<not> prefix (p # ps) (head # q # qs)" "\<not> prefix (head # q # qs) (p # ps)" for p ps
  proof (cases "p = head")
    case True
    with that obtain p' ps' where ps: "ps = p' # ps'" by (cases ps) auto
    then have "get_loop E pk s1 t1' p' ps' = get_loop E pk s t1 p' ps'"
      using that True by (intro h1(4)) auto
    then show ?thesis using True ps below assms(10) by simp
  next
    case False
    then show ?thesis
      using h(5) get_loop_stable [OF assms(1) repo_okD(1) [OF assms(2)] cf1 assms(3,7)] by simp
  qed
  then have "put_result E pk s t head (q # qs) e s' h"
    unfolding put_result_def using h(3,4) below [of q qs] h1(3) by (intro exI [of _ ?t]) auto
  with h(1,2) show ?thesis by blast
qed

lemma put_inner_spec:
  assumes "repo_ok E pk s" "load_or_new E pk cur s = (Ok t, s)" "tree_fits pk t" "subtrees_in E (puts s) t"
    and "\<forall>n \<in> set (head # rest). name_fits pk n"
    and "hash_wf (entry_hash e)" "entry_mode e = MTree \<Longrightarrow> tree_in E (puts s) (entry_hash e)"
    and "put_inner E pk cur head rest e s = (r, s')" "collision_free E s'"
  shows "repo_ok E pk s' \<and>
         (if put_blocked E pk s t head rest then r = Err (Conflict ''segment is not a directory'')
          else \<exists>h. r = Ok h \<and> put_result E pk s t head rest e s' h)"
  using assms
proof (induction rest arbitrary: cur head s t r s')
  case Nil
  then have st: "store_tree_with_key E pk (bt_insert head e t) s = (r, s')" by (simp add: bind_op_def)
  show ?case
    using put_last [OF Nil.prems(1,3,4) _ Nil.prems(6,7) st Nil.prems(9)] Nil.prems(5)
    by (auto simp: put_result_def)
next
  case (Cons q qs)
  have ext: "extends s s'" using put_inner_extends [OF Cons.prems(8)] .
  show ?case
  proof (cases "child_hash t head")
    case (Inl err)
    then show ?thesis
      using Cons.prems(1,2,8) by (auto simp: bind_op_def child_hash_def split: option.splits if_splits)
  next
    case (Inr child)
    obtain t1 where t1: "load_or_new E pk child s = (Ok t1, s)" "tree_fits pk t1" "subtrees_in E (puts s) t1"
      "\<And>q qs. put_blocked E pk s t head (q # qs) \<longleftrightarrow> put_blocked E pk s t1 q qs"
      "\<And>p ps. get_loop E pk s t head (p # ps) = get_loop E pk s t1 p ps"
      using child_tree [OF Cons.prems(1) collision_free_mono [OF ext Cons.prems(9)] Cons.prems(4) Inr] by metis
    obtain r1 s1 where r1: "put_inner E pk child q qs e s = (r1, s1)" by force
    have ext1: "extends s1 s'"
      using Cons.prems(2,8) Inr r1 by (cases r1) (auto simp: bind_op_def dest: store_tree_extends split: sum.splits)
    have IH: "repo_ok E pk s1 \<and> (if put_blocked E pk s t1 q qs then r1 = Err (Conflict ''segment is not a directory'')
          else \<exists>h. r1 = Ok h \<and> put_result E pk s t1 q qs e s1 h)"
      using Cons.prems(5-7)
      by (intro Cons.IH [OF Cons.prems(1) t1(1-3) _ _ _ r1 collision_free_mono [OF ext1 Cons.prems(9)]]) auto
    show ?thesis
    proof (cases "put_blocked E pk s t1 q qs")
      case True
      then show ?thesis using IH Cons.prems(2,8) Inr r1 t1(4) by (auto simp: bind_op_def)
    next
      case False
      then obtain h1 where h1: "r1 = Ok h1" "put_result E pk s t1 q qs e s1 h1" using IH by auto
      have "store_tree_with_key E pk (bt_insert head \<lparr>entry_mode = MTree, entry_hash = h1\<rparr> t) s1 = (r, s')"
        using Cons.prems(2,5,8) Inr r1 h1(1) by (auto simp: bind_op_def)
      then show ?thesis
        using put_result_step [OF Cons.prems(1) _ put_inner_extends [OF r1] ext1 Cons.prems(9) Cons.prems(3,4) _ h1(2) t1(5)]
          IH Cons.prems(5) False t1(4) by auto
    qed
  qed
qed

lemma put_blocked_iff:
  assumes "repo_ok E pk s" "collision_free E s" "subtrees_in E (puts s) t"
  shows "put_blocked E pk s t head rest \<longleftrightarrow>
    (\<exists>p ps m h. strict_prefix (p # ps) (head # rest) \<and> get_loop E pk s t p ps = Ok (Some (m, h)) \<and> m \<noteq> MTree)"
  using assms(3)
proof (induction rest arbitrary: head t)
  case Nil
  then show ?case by (auto simp: strict_prefix_def prefix_Cons)
next
  case (Cons q qs)
  show ?case
  proof (cases "bt_get t head")
    case None
    then have "get_loop E pk s t head ps = Ok None" for ps by (cases ps) simp_all
    then show ?thesis using None by (auto simp: strict_prefix_def prefix_Cons)
  next
    case (Some e)
    show ?thesis
    proof (cases "entry_mode e = MTree")
      case True
      then obtain t1 where t1: "load_tree_with_key E pk s (entry_hash e) = Ok t1" "subtrees_in E (puts s) t1"
        using load_tree_in [OF assms(1,2)] subtrees_in_get [OF Cons.prems Some] by metis
      have "(\<exists>p ps m h. strict_prefix (p # ps) (head # q # qs) \<and> get_loop E pk s t p ps = Ok (Some (m, h)) \<and> m \<noteq> MTree)
          \<longleftrightarrow> (\<exists>p ps m h. strict_prefix (p # ps) (q # qs) \<and> get_loop E pk s t1 p ps = Ok (Some (m, h)) \<and> m \<noteq> MTree)"
        (is "?L \<longleftrightarrow> ?R")
      proof
        assume ?L
        then obtain ps m h where *: "strict_prefix ps (q # qs)" "get_loop E pk s t head ps = Ok (Some (m, h))" "m \<noteq> MTree"
          by (auto simp: strict_prefix_def prefix_Cons)
        then show ?R using Some True t1(1) by (cases ps) auto
      next
        assume ?R
        then obtain p ps m h where "strict_prefix (p # ps) (q # qs)" "get_loop E pk s t1 p ps = Ok (Some (m, h))" "m \<noteq> MTree"
          by blast
        then have "strict_prefix (head # p # ps) (head # q # qs)" "get_loop E pk s t head (p # ps) = Ok (Some (m, h))"
          using Some True t1(1) by auto
        then show ?L using \<open>m \<noteq> MTree\<close> by blast
      qed
      then show ?thesis using Some True t1 Cons.IH [OF t1(2)] by simp
    next
      case False
      have "strict_prefix [head] (head # q # qs)" "get_loop E pk s t head [] = Ok (Some (entry_mode e, entry_hash e))"
        using Some by (simp_all add: strict_prefix_def)
      then have "\<exists>p ps m h. strict_prefix (p # ps) (head # q # qs) \<and> get_loop E pk s t p ps = Ok (Some (m, h)) \<and> m \<noteq> MTree"
        using False by blast
      then show ?thesis using False Some by simp
    qed
  qed
qed

section \<open>Deleting\<close>

text \<open>The file a path leads to, if any.\<close>

definition file_of :: "(mode \<times> hash) option result \<Rightarrow> (mode \<times> hash) option" where
  "file_of r = (case r of Inr (Some (m, h)) \<Rightarrow> if m = MTree then None else Some (m, h) | _ \<Rightarrow> None)"

lemma file_of_simps [simp]:
  "file_of (Ok None) = None" "file_of (Err e) = None" "file_of (Ok (Some (MTree, h))) = None"
  by (simp_all add: file_of_def)

definition del_result :: "ext \<Rightarrow> bytes option \<Rightarrow> disk \<Rightarrow> tree \<Rightarrow> str \<Rightarrow> str list \<Rightarrow> disk \<Rightarrow> hash option \<Rightarrow> bool" where
  "del_result E pk s t head rest s' ro \<longleftrightarrow>
     (case ro of
        None \<Rightarrow> (\<forall>p ps. \<not> prefix (p # ps) (head # rest) \<longrightarrow> \<not> prefix (head # rest) (p # ps) \<longrightarrow>
                  get_loop E pk s t p ps = Ok None) \<and>
                (\<forall>p ps. \<not> prefix (head # rest) (p # ps) \<longrightarrow> file_of (get_loop E pk s t p ps) = None)
      | Some h \<Rightarrow> (\<exists>t'. load_tree_with_key E pk s' h = Ok t' \<and> tree_in E (puts s') h \<and>
          (\<forall>p ps. prefix (head # rest) (p # ps) \<longrightarrow> get_loop E pk s' t' p ps = Ok None) \<and>
          (\<forall>p ps. \<not> prefix (p # ps) (head # rest) \<longrightarrow> \<not> prefix (head # rest) (p # ps) \<longrightarrow>
             get_loop E pk s' t' p ps = get_loop E pk s t p ps) \<and>
          (\<forall>p ps. \<not> prefix (head # rest) (p # ps) \<longrightarrow>
             file_of (get_loop E pk s' t' p ps) = file_of (get_loop E pk s t p ps))))"

lemma store_pruned_extends: "store_pruned E pk t s = (r, s') \<Longrightarrow> extends s s'"
  by (auto simp: store_pruned_def elim!: bind_op_extends dest: store_tree_extends split: if_splits)

lemma delete_inner_extends: "delete_inner E pk cur head rest s = (r, s') \<Longrightarrow> extends s s'"
proof (induction rest arbitrary: cur head s r s')
  case Nil
  then show ?case by (auto elim!: bind_op_extends dest: store_pruned_extends)
next
  case (Cons q qs)
  show ?case
    using Cons.prems
    by (auto elim!: bind_op_extends split: option.splits if_splits)
      (blast intro: store_pruned_extends Cons.IH)+
qed

lemma store_pruned_ok:
  assumes "repo_ok E pk s" "tree_fits pk t" "subtrees_in E (puts s) t"
    and "store_pruned E pk t s = (r, s')" "collision_free E s'"
  shows "repo_ok E pk s' \<and> (if t = [] then r = Ok None \<and> s' = s
     else \<exists>h. r = Ok (Some h) \<and> load_tree_with_key E pk s' h = Ok t \<and> tree_in E (puts s') h)"
proof (cases "t = []")
  case False
  then show ?thesis
    using store_tree_ok [OF assms(1-3)] assms(4,5)
    by (auto simp: store_pruned_def bind_op_def split: prod.splits sum.splits)
qed (use assms in \<open>auto simp: store_pruned_def\<close>)

text \<open>Removing the entry \<open>head\<close> of one tree.\<close>

definition del_here :: "ext \<Rightarrow> bytes option \<Rightarrow> disk \<Rightarrow> tree \<Rightarrow> str \<Rightarrow> disk \<Rightarrow> hash option \<Rightarrow> bool" where
  "del_here E pk s t head s' ro \<longleftrightarrow>
     (case ro of
        None \<Rightarrow> (\<forall>p ps. p \<noteq> head \<longrightarrow> get_loop E pk s t p ps = Ok None)
      | Some h \<Rightarrow> load_tree_with_key E pk s' h = Ok (bt_remove head t) \<and> tree_in E (puts s') h \<and>
          (\<forall>ps. get_loop E pk s' (bt_remove head t) head ps = Ok None) \<and>
          (\<forall>p ps. p \<noteq> head \<longrightarrow> get_loop E pk s' (bt_remove head t) p ps = get_loop E pk s t p ps))"

lemma del_here_cong:
  "del_here E pk s1 t head s' ro \<Longrightarrow> (\<And>p ps. get_loop E pk s1 t p ps = get_loop E pk s t p ps) \<Longrightarrow>
   del_here E pk s t head s' ro"
  by (cases ro) (simp_all add: del_here_def)

lemma del_here_result:
  assumes "del_here E pk s t head s' ro"
    and "\<And>ps. \<not> prefix ps rest \<Longrightarrow> \<not> prefix rest ps \<Longrightarrow> get_loop E pk s t head ps = Ok None"
    and "\<And>ps. \<not> prefix rest ps \<Longrightarrow> file_of (get_loop E pk s t head ps) = None"
  shows "del_result E pk s t head rest s' ro"
proof (cases ro)
  case None
  then have "get_loop E pk s t p ps = Ok None"
    if "\<not> prefix (p # ps) (head # rest)" "\<not> prefix (head # rest) (p # ps)" for p ps
    using assms that by (cases "p = head") (auto simp: del_here_def)
  moreover have "file_of (get_loop E pk s t p ps) = None" if "\<not> prefix (head # rest) (p # ps)" for p ps
    using assms that None by (cases "p = head") (auto simp: del_here_def)
  ultimately show ?thesis using None by (simp add: del_result_def)
next
  case (Some h)
  then have "get_loop E pk s' (bt_remove head t) p ps = get_loop E pk s t p ps"
    if "\<not> prefix (p # ps) (head # rest)" "\<not> prefix (head # rest) (p # ps)" for p ps
    using assms that by (cases "p = head") (auto simp: del_here_def)
  moreover have "file_of (get_loop E pk s' (bt_remove head t) p ps) = file_of (get_loop E pk s t p ps)"
    if "\<not> prefix (head # rest) (p # ps)" for p ps
    using assms that Some by (cases "p = head") (auto simp: del_here_def)
  ultimately show ?thesis using assms(1) Some by (auto simp: del_result_def del_here_def)
qed

lemma del_last:
  assumes "repo_ok E pk s" "tree_fits pk t" "subtrees_in E (puts s) t"
    and "store_pruned E pk (bt_remove head t) s = (r, s')" "collision_free E s'"
  shows "repo_ok E pk s' \<and> (\<exists>ro. r = Ok ro \<and> del_here E pk s t head s' ro)"
proof -
  have inv: "bt_inv t" using assms(2) by (simp add: tree_fits_def)
  have st: "repo_ok E pk s' \<and> (if bt_remove head t = [] then r = Ok None \<and> s' = s
     else \<exists>h. r = Ok (Some h) \<and> load_tree_with_key E pk s' h = Ok (bt_remove head t) \<and> tree_in E (puts s') h)"
    using store_pruned_ok [OF assms(1) tree_fits_remove [OF assms(2)] subtrees_in_remove [OF assms(3)] assms(4,5)] .
  have gone: "get_loop E pk s' (bt_remove head t) head ps = Ok None" for ps
    using inv by (cases ps) (simp_all add: bt_get_remove)
  have other: "get_loop E pk s' (bt_remove head t) p ps = get_loop E pk s t p ps" if "p \<noteq> head" for p ps
    using get_loop_cong [of "bt_remove head t" p t E pk s' ps] that inv st
      get_loop_stable [OF assms(1) _ assms(5) store_pruned_extends [OF assms(4)] assms(3)] repo_okD(1) [of E pk s']
    by (simp add: bt_get_remove)
  show ?thesis
    using st gone other get_loop_empty [of E pk s'] by (cases "bt_remove head t = []") (auto simp: del_here_def)
qed

lemma del_result_step:
  assumes "repo_ok E pk s" "repo_ok E pk s1" "extends s s1" "extends s1 s'" "collision_free E s'"
    and "tree_fits pk t" "subtrees_in E (puts s) t" "name_fits pk head"
    and "del_result E pk s t1 q qs s1 (Some h1)"
    and "\<And>p ps. get_loop E pk s t head (p # ps) = get_loop E pk s t1 p ps"
    and "store_pruned E pk (bt_insert head \<lparr>entry_mode = MTree, entry_hash = h1\<rparr> t) s1 = (r, s')"
    and "file_of (get_loop E pk s t head []) = None"
  shows "repo_ok E pk s' \<and> (\<exists>h. r = Ok (Some h) \<and> del_result E pk s t head (q # qs) s' (Some h))"
proof -
  let ?t = "bt_insert head \<lparr>entry_mode = MTree, entry_hash = h1\<rparr> t"
  have cf1: "collision_free E s1" using collision_free_mono [OF assms(4,5)] .
  have ne: "?t \<noteq> []" by (cases t) (auto split: if_splits)
  obtain t1' where h1: "load_tree_with_key E pk s1 h1 = Ok t1'" "tree_in E (puts s1) h1"
    "\<And>p ps. prefix (q # qs) (p # ps) \<Longrightarrow> get_loop E pk s1 t1' p ps = Ok None"
    "\<And>p ps. \<not> prefix (p # ps) (q # qs) \<Longrightarrow> \<not> prefix (q # qs) (p # ps) \<Longrightarrow>
       get_loop E pk s1 t1' p ps = get_loop E pk s t1 p ps"
    "\<And>p ps. \<not> prefix (q # qs) (p # ps) \<Longrightarrow> file_of (get_loop E pk s1 t1' p ps) = file_of (get_loop E pk s t1 p ps)"
    using assms(9) by (auto simp: del_result_def)
  have "hash_wf h1" using h1(2) repo_okD(2) [OF assms(2)] by (auto simp: tree_in_def list_ex_iff)
  moreover obtain r2 where r2: "store_tree_with_key E pk ?t s1 = (r2, s')"
      "r = (case r2 of Inl e \<Rightarrow> Err e | Inr h \<Rightarrow> Ok (Some h))"
    using assms(11) ne by (auto simp: store_pruned_def bind_op_def split: prod.splits sum.splits)
  ultimately obtain h where h: "repo_ok E pk s'" "r2 = Ok h"
      "load_tree_with_key E pk s' h = Ok ?t" "tree_in E (puts s') h"
      "\<And>p ps. p \<noteq> head \<Longrightarrow> get_loop E pk s' ?t p ps = get_loop E pk s1 t p ps"
    using put_last [OF assms(2,6) subtrees_in_mono [OF extends_puts [OF assms(3)] assms(7)] assms(8) _ _ r2(1) assms(5)] h1(2)
    by auto
  have r: "r = Ok (Some h)" using h(2) r2(2) by simp
  have "subtrees_in E (puts s1) t1'" using load_tree_in [OF assms(2) cf1 h1(2)] h1(1) by auto
  then have below: "get_loop E pk s' ?t head (p # ps) = get_loop E pk s1 t1' p ps" for p ps
    using load_tree_later [OF repo_okD(1) [OF assms(2)] repo_okD(1) [OF h(1)] repo_okD(2) [OF assms(2)] assms(5,4) h1(1)]
      get_loop_stable [OF assms(2) repo_okD(1) [OF h(1)] assms(5,4)] by simp
  have gone: "get_loop E pk s' ?t p ps = Ok None" if "prefix (head # q # qs) (p # ps)" for p ps
  proof -
    from that obtain p' ps' where "p = head" "ps = p' # ps'" "prefix (q # qs) (p' # ps')" by (cases ps) auto
    then show ?thesis using below h1(3) by simp
  qed
  have "get_loop E pk s' ?t p ps = get_loop E pk s t p ps"
    if "\<not> prefix (p # ps) (head # q # qs)" "\<not> prefix (head # q # qs) (p # ps)" for p ps
  proof (cases "p = head")
    case True
    with that obtain p' ps' where ps: "ps = p' # ps'" by (cases ps) auto
    then have "get_loop E pk s1 t1' p' ps' = get_loop E pk s t1 p' ps'"
      using that True by (intro h1(4)) auto
    then show ?thesis using True ps below assms(10) by simp
  next
    case False
    then show ?thesis
      using h(5) get_loop_stable [OF assms(1) repo_okD(1) [OF assms(2)] cf1 assms(3,7)] by simp
  qed
  moreover have "file_of (get_loop E pk s' ?t p ps) = file_of (get_loop E pk s t p ps)"
    if "\<not> prefix (head # q # qs) (p # ps)" for p ps
  proof (cases "p = head")
    case True
    show ?thesis
    proof (cases ps)
      case Nil
      have "bt_inv t" using assms(6) by (simp add: tree_fits_def)
      then have "file_of (get_loop E pk s' ?t head []) = None" by (simp add: bt_get_insert)
      then show ?thesis using True Nil assms(12) by simp
    next
      case (Cons p' ps')
      then show ?thesis using True below assms(10) h1(5) that by simp
    qed
  next
    case False
    then show ?thesis
      using h(5) get_loop_stable [OF assms(1) repo_okD(1) [OF assms(2)] cf1 assms(3,7)] by simp
  qed
  ultimately have "del_result E pk s t head (q # qs) s' (Some h)"
    unfolding del_result_def using h(3,4) gone by auto
  with h(1) r show ?thesis by blast
qed

text \<open>Below a leaf, and below an absent name, there is nothing to delete.\<close>

lemma del_result_same:
  assumes "load_tree_with_key E pk s cur = Ok t" "tree_in E (puts s) cur"
    and "\<And>ps. ps \<noteq> [] \<Longrightarrow> get_loop E pk s t head ps = Ok None"
  shows "del_result E pk s t head (q # qs) s (Some cur)"
proof -
  have "get_loop E pk s t head ps = Ok None" if "prefix (q # qs) ps" for ps
    using that by (intro assms(3)) auto
  then show ?thesis unfolding del_result_def using assms by auto
qed

lemma delete_inner_spec:
  assumes "repo_ok E pk s" "load_tree_with_key E pk s cur = Ok t" "tree_in E (puts s) cur"
    and "tree_fits pk t" "subtrees_in E (puts s) t"
    and "delete_inner E pk cur head rest s = (r, s')" "collision_free E s'"
  shows "repo_ok E pk s' \<and> (\<exists>ro. r = Ok ro \<and> del_result E pk s t head rest s' ro)"
  using assms
proof (induction rest arbitrary: cur head s t r s')
  case Nil
  then have "store_pruned E pk (bt_remove head t) s = (r, s')" by simp
  then obtain ro where ro: "repo_ok E pk s'" "r = Ok ro" "del_here E pk s t head s' ro"
    using del_last [OF Nil.prems(1,4,5) _ Nil.prems(7)] by blast
  then have "del_result E pk s t head [] s' ro" by (intro del_here_result) auto
  with ro show ?case by blast
next
  case (Cons q qs)
  show ?case
  proof (cases "\<exists>e. bt_get t head = Some e \<and> entry_mode e = MTree")
    case False
    then have "s' = s" "r = Ok (Some cur)" using Cons.prems(2,6) by (auto split: option.splits)
    moreover have "get_loop E pk s t head ps = Ok None" if "ps \<noteq> []" for ps
      using False that by (cases ps) (auto split: option.splits)
    ultimately show ?thesis using del_result_same [OF Cons.prems(2,3)] Cons.prems(1) by blast
  next
    case True
    then obtain e where e: "bt_get t head = Some e" "entry_mode e = MTree" by blast
    obtain r1 s1 where r1: "delete_inner E pk (entry_hash e) q qs s = (r1, s1)" by force
    have ext1: "extends s1 s'"
      using Cons.prems(2,6) e r1 by (cases r1) (auto simp: bind_op_def dest: store_pruned_extends
          split: sum.splits option.splits)
    have cf1: "collision_free E s1" using collision_free_mono [OF ext1 Cons.prems(7)] .
    have ext0: "extends s s1" using delete_inner_extends [OF r1] .
    obtain t1 where t1: "load_tree_with_key E pk s (entry_hash e) = Ok t1" "tree_fits pk t1" "subtrees_in E (puts s) t1"
      using load_tree_in [OF Cons.prems(1) collision_free_mono [OF ext0 cf1]] subtrees_in_get [OF Cons.prems(5) e] by metis
    have below: "get_loop E pk s t head (p # ps) = get_loop E pk s t1 p ps" for p ps using e t1(1) by simp
    obtain ro where ro: "repo_ok E pk s1" "r1 = Ok ro" "del_result E pk s t1 q qs s1 ro"
      using Cons.IH [OF Cons.prems(1) t1(1) subtrees_in_get [OF Cons.prems(5) e] t1(2,3) r1 cf1] by blast
    show ?thesis
    proof (cases ro)
      case None
      have "store_pruned E pk (bt_remove head t) s1 = (r, s')" using Cons.prems(2,6) e r1 ro(2) None by simp
      from del_last [OF ro(1) Cons.prems(4) subtrees_in_mono [OF extends_puts [OF ext0] Cons.prems(5)] this Cons.prems(7)]
      obtain r' where r': "repo_ok E pk s'" "r = Ok r'" "del_here E pk s1 t head s' r'" by blast
      have here: "del_here E pk s t head s' r'"
        using del_here_cong [OF r'(3)] get_loop_stable [OF Cons.prems(1) repo_okD(1) [OF ro(1)] cf1 ext0 Cons.prems(5)]
        by blast
      have "get_loop E pk s t head ps = Ok None" if "\<not> prefix ps (q # qs)" "\<not> prefix (q # qs) ps" for ps
        using that ro(3) None below by (cases ps) (auto simp: del_result_def)
      moreover have "file_of (get_loop E pk s t head ps) = None" if "\<not> prefix (q # qs) ps" for ps
        using that ro(3) None below e by (cases ps) (auto simp: del_result_def)
      ultimately have "del_result E pk s t head (q # qs) s' r'" by (intro del_here_result [OF here]) blast+
      with r' show ?thesis by blast
    next
      case (Some h1)
      have nf: "name_fits pk head" using tree_fits_name [OF Cons.prems(4) e(1)] .
      then have "store_pruned E pk (bt_insert head \<lparr>entry_mode = MTree, entry_hash = h1\<rparr> t) s1 = (r, s')"
        using Cons.prems(2,6) e r1 ro(2) Some by simp
      from del_result_step [OF Cons.prems(1) ro(1) ext0 ext1 Cons.prems(7,4,5) nf _ below this] ro(3) Some e
      show ?thesis by auto
    qed
  qed
qed

text \<open>
  Deletion leaves no directory empty: \<open>kept_full\<close> says that every directory below a tree
  has an entry. The path deleted loses the directories that it alone kept.
\<close>

definition kept_full :: "ext \<Rightarrow> bytes option \<Rightarrow> disk \<Rightarrow> tree \<Rightarrow> bool" where
  "kept_full E pk s t \<longleftrightarrow>
     (\<forall>p ps k. get_loop E pk s t p ps = Ok (Some (MTree, k)) \<longrightarrow> (\<exists>n x. get_loop E pk s t p (ps @ [n]) = Ok (Some x)))"

lemma kept_fullD:
  "kept_full E pk s t \<Longrightarrow> get_loop E pk s t p ps = Ok (Some (MTree, k)) \<Longrightarrow> \<exists>n x. get_loop E pk s t p (ps @ [n]) = Ok (Some x)"
  by (simp add: kept_full_def)

lemma kept_full_below:
  assumes "kept_full E pk s t" "bt_get t head = Some e" "entry_mode e = MTree" "load_tree_with_key E pk s (entry_hash e) = Ok t1"
  shows "kept_full E pk s t1" "t1 \<noteq> []"
proof -
  have below: "get_loop E pk s t head (p # ps) = get_loop E pk s t1 p ps" for p ps using assms(2-4) by simp
  show "kept_full E pk s t1"
    unfolding kept_full_def using kept_fullD [OF assms(1), of head] by (metis append_Cons below)
  show "t1 \<noteq> []"
  proof
    assume "t1 = []"
    then have "get_loop E pk s t head [n] = Ok None" for n using below [of n "[]"] get_loop_empty [of E pk s n "[]"] by simp
    then show False using kept_fullD [OF assms(1), of head "[]"] assms(2,3) by simp
  qed
qed

lemma kept_full_stable:
  assumes "repo_ok E pk s" "disk_ok E s'" "collision_free E s'" "extends s s'" "subtrees_in E (puts s) t"
  shows "kept_full E pk s' t = kept_full E pk s t"
  unfolding kept_full_def get_loop_stable [OF assms] ..

text \<open>A tree whose entries are full subtrees is full.\<close>

lemma kept_full_remove:
  assumes "kept_full E pk s t" "bt_inv t"
  shows "kept_full E pk s (bt_remove head t)"
proof -
  have "get_loop E pk s (bt_remove head t) p ps = (if p = head then Ok None else get_loop E pk s t p ps)" for p ps
    using get_loop_cong [of "bt_remove head t" p t E pk s ps] assms(2) by (cases ps) (auto simp: bt_get_remove)
  then show ?thesis using assms(1) by (auto simp: kept_full_def split: if_splits)
qed

lemma kept_full_insert:
  assumes "kept_full E pk s t" "bt_inv t" "load_tree_with_key E pk s h1 = Ok t1" "kept_full E pk s t1" "bt_inv t1" "t1 \<noteq> []"
  shows "kept_full E pk s (bt_insert head \<lparr>entry_mode = MTree, entry_hash = h1\<rparr> t)" (is "kept_full E pk s ?t")
proof -
  have at: "get_loop E pk s ?t p ps = (if p \<noteq> head then get_loop E pk s t p ps
      else case ps of [] \<Rightarrow> Ok (Some (MTree, h1)) | q # qs \<Rightarrow> get_loop E pk s t1 q qs)" for p ps
    using get_loop_cong [of ?t p t E pk s ps] assms(2,3) by (cases ps) (auto simp: bt_get_insert)
  obtain n e t2 where "t1 = (n, e) # t2" using assms(6) by (cases t1) auto
  then have "get_loop E pk s t1 n [] = Ok (Some (entry_mode e, entry_hash e))"
    using bt_get_iff [OF assms(5), of n e] by simp
  then have "get_loop E pk s ?t head [n] = Ok (Some (entry_mode e, entry_hash e))"
    using at [of head "[n]"] by (simp del: get_loop.simps)
  then have new: "\<exists>n x. get_loop E pk s ?t head [n] = Ok (Some x)" by blast
  show ?thesis
    unfolding kept_full_def
  proof (intro allI impI)
    fix p ps k assume g: "get_loop E pk s ?t p ps = Ok (Some (MTree, k))"
    show "\<exists>n x. get_loop E pk s ?t p (ps @ [n]) = Ok (Some x)"
    proof (cases "p = head")
      case True
      show ?thesis
      proof (cases ps)
        case Nil
        with True new show ?thesis by simp
      next
        case (Cons q qs)
        then have "get_loop E pk s t1 q qs = Ok (Some (MTree, k))" using g True at [of p ps] by simp
        from kept_fullD [OF assms(4) this] show ?thesis using True Cons at [of head] by (simp del: get_loop.simps)
      qed
    next
      case False
      then have "get_loop E pk s t p ps = Ok (Some (MTree, k))" using g at [of p ps] by simp
      from kept_fullD [OF assms(1) this] show ?thesis using False at by simp
    qed
  qed
qed

lemma delete_inner_keeps_full:
  assumes "repo_ok E pk s" "load_tree_with_key E pk s cur = Ok t" "tree_in E (puts s) cur"
    and "tree_fits pk t" "subtrees_in E (puts s) t" "kept_full E pk s t" "t \<noteq> []"
    and "delete_inner E pk cur head rest s = (Ok (Some h), s')" "collision_free E s'"
  shows "\<exists>t'. load_tree_with_key E pk s' h = Ok t' \<and> tree_fits pk t' \<and> kept_full E pk s' t' \<and> t' \<noteq> []"
  using assms
proof (induction rest arbitrary: cur head s t h s')
  case Nil
  have del: "store_pruned E pk (bt_remove head t) s = (Ok (Some h), s')" using Nil.prems(2,8) by simp
  have ext: "extends s s'" using store_pruned_extends [OF del] .
  have ne: "bt_remove head t \<noteq> []" using del by (auto simp: store_pruned_def)
  have fits: "tree_fits pk (bt_remove head t)" "bt_inv t" using tree_fits_remove Nil.prems(4) by (auto simp: tree_fits_def)
  have subs: "subtrees_in E (puts s) (bt_remove head t)" using subtrees_in_remove [OF Nil.prems(5)] .
  have st: "repo_ok E pk s'" "load_tree_with_key E pk s' h = Ok (bt_remove head t)"
    using store_pruned_ok [OF Nil.prems(1) fits(1) subs del Nil.prems(9)] ne by auto
  show ?case
    using st(2) fits(1) ne kept_full_remove [OF Nil.prems(6) fits(2)]
      kept_full_stable [OF Nil.prems(1) repo_okD(1) [OF st(1)] Nil.prems(9) ext subs] by blast
next
  case (Cons q qs)
  show ?case
  proof (cases "\<exists>e. bt_get t head = Some e \<and> entry_mode e = MTree")
    case False
    then have "s' = s" "h = cur" using Cons.prems(2,8) by (auto split: option.splits)
    then show ?thesis using Cons.prems by blast
  next
    case True
    then obtain e where e: "bt_get t head = Some e" "entry_mode e = MTree" by blast
    obtain r1 s1 where r1: "delete_inner E pk (entry_hash e) q qs s = (r1, s1)" by force
    have ext1: "extends s1 s'"
      using Cons.prems(2,8) e r1 by (cases r1) (auto simp: bind_op_def dest: store_pruned_extends
          split: sum.splits option.splits)
    have ext0: "extends s s1" using delete_inner_extends [OF r1] .
    have cf1: "collision_free E s1" using collision_free_mono [OF ext1 Cons.prems(9)] .
    have hin: "tree_in E (puts s) (entry_hash e)" using subtrees_in_get [OF Cons.prems(5) e] .
    obtain t1 where t1: "load_tree_with_key E pk s (entry_hash e) = Ok t1" "tree_fits pk t1" "subtrees_in E (puts s) t1"
      using load_tree_in [OF Cons.prems(1) collision_free_mono [OF ext0 cf1] hin] by metis
    obtain ro where ro: "repo_ok E pk s1" "r1 = Ok ro" "del_result E pk s t1 q qs s1 ro"
      using delete_inner_spec [OF Cons.prems(1) t1(1) hin t1(2,3) r1 cf1] by blast
    note full1 = kept_full_below [OF Cons.prems(6) e t1(1)]
    have inv: "bt_inv t" using Cons.prems(4) by (simp add: tree_fits_def)
    have subs1: "subtrees_in E (puts s1) t" using subtrees_in_mono [OF extends_puts [OF ext0] Cons.prems(5)] .
    have full: "kept_full E pk s1 t"
      using kept_full_stable [OF Cons.prems(1) repo_okD(1) [OF ro(1)] cf1 ext0 Cons.prems(5)] Cons.prems(6) by simp
    have rest: "\<exists>t'. load_tree_with_key E pk s' h = Ok t' \<and> tree_fits pk t' \<and> kept_full E pk s' t' \<and> t' \<noteq> []"
      if "store_pruned E pk t2 s1 = (Ok (Some h), s')" "tree_fits pk t2" "subtrees_in E (puts s1) t2" "kept_full E pk s1 t2" for t2
    proof -
      have "t2 \<noteq> []" using that(1) by (auto simp: store_pruned_def)
      moreover have "repo_ok E pk s'" "load_tree_with_key E pk s' h = Ok t2"
        using store_pruned_ok [OF ro(1) that(2,3,1) Cons.prems(9)] \<open>t2 \<noteq> []\<close> by auto
      ultimately show ?thesis
        using that(2,4) kept_full_stable [OF ro(1) repo_okD(1) Cons.prems(9) ext1 that(3)] by blast
    qed
    show ?thesis
    proof (cases ro)
      case None
      then have "store_pruned E pk (bt_remove head t) s1 = (Ok (Some h), s')"
        using Cons.prems(2,8) e r1 ro(2) by simp
      from rest [OF this tree_fits_remove [OF Cons.prems(4)] subtrees_in_remove [OF subs1] kept_full_remove [OF full inv]]
      show ?thesis .
    next
      case (Some h1)
      have nf: "name_fits pk head" using tree_fits_name [OF Cons.prems(4) e(1)] .
      let ?e = "\<lparr>entry_mode = MTree, entry_hash = h1\<rparr>"
      have run: "store_pruned E pk (bt_insert head ?e t) s1 = (Ok (Some h), s')"
        using Cons.prems(2,8) e r1 ro(2) Some nf by simp
      obtain t1' where t1': "load_tree_with_key E pk s1 h1 = Ok t1'" "tree_fits pk t1'" "kept_full E pk s1 t1'" "t1' \<noteq> []"
        using Cons.IH [OF Cons.prems(1) t1(1) hin t1(2,3) full1 _ cf1] r1 ro(2) Some by blast
      have hin1: "tree_in E (puts s1) h1" using ro(3) Some by (auto simp: del_result_def)
      then have wf: "hash_wf (entry_hash ?e)" using repo_okD(2) [OF ro(1)] by (auto simp: tree_in_def list_ex_iff)
      have inv1: "bt_inv t1'" using t1'(2) by (simp add: tree_fits_def)
      show ?thesis
        by (rule rest [OF run tree_fits_insert [OF Cons.prems(4) nf wf] subtrees_in_insert [OF subs1]
              kept_full_insert [OF full inv t1'(1,3) inv1 t1'(4)]]) (use hin1 in simp)
    qed
  qed
qed

section \<open>Paths as text\<close>

lemma split_path_parts: "split_path path = Ok parts \<Longrightarrow> p \<in> set parts \<Longrightarrow> p \<noteq> [] \<and> p \<noteq> ''.'' \<and> p \<noteq> ''..'' \<and> CHR ''/'' \<notin> set p"
  by (auto simp: split_path_def Let_def list_ex_iff split: if_splits dest: split_on_pieces)

lemma get_parts_Cons:
  "load_tree_with_key E pk s h = Ok t \<Longrightarrow> get_parts E pk s (p # ps) h = get_loop E pk s t p ps"
  by (simp add: get_parts_def)

lemma get_loop_alt:
  "get_loop E pk s t n ps =
     (case bt_get t n of None \<Rightarrow> Ok None
      | Some e \<Rightarrow> if ps = [] then Ok (Some (entry_mode e, entry_hash e))
          else if entry_mode e \<noteq> MTree then Ok None else get_parts E pk s ps (entry_hash e))"
  by (cases ps) (simp_all add: get_parts_def split: option.splits)

text \<open>
  The abstract view of a root: the entry at each path. \<open>put_view\<close> is what \<open>put_at\<close> does
  to it.
\<close>

definition root_view :: "ext \<Rightarrow> bytes option \<Rightarrow> disk \<Rightarrow> hash option \<Rightarrow> str list \<Rightarrow> (mode \<times> hash) option result" where
  "root_view E pk s root parts =
     (case root of None \<Rightarrow> Ok None | Some h \<Rightarrow> get_parts E pk s parts h)"

definition root_ok :: "ext \<Rightarrow> disk \<Rightarrow> hash option \<Rightarrow> bool" where
  "root_ok E s root \<longleftrightarrow> (case root of None \<Rightarrow> True | Some h \<Rightarrow> tree_in E (puts s) h)"

lemma root_tree:
  assumes "repo_ok E pk s" "collision_free E s" "root_ok E s root"
  obtains t where "load_or_new E pk root s = (Ok t, s)" "tree_fits pk t" "subtrees_in E (puts s) t"
    "\<And>p ps. root_view E pk s root (p # ps) = get_loop E pk s t p ps"
proof (cases root)
  case None
  then show thesis using that [of "[]"] by (simp add: load_or_new_def root_view_def get_loop_empty)
next
  case (Some h)
  then obtain t where "load_tree_with_key E pk s h = Ok t" "tree_fits pk t" "subtrees_in E (puts s) t"
    using load_tree_in [OF assms(1,2)] assms(3) by (auto simp: root_ok_def)
  then show thesis using Some that [of t] by (simp add: load_or_new_def root_view_def get_parts_Cons)
qed

lemma put_parts_spec:
  assumes "repo_ok E pk s" "root_ok E s root" "\<forall>n \<in> set (p # ps). name_fits pk n"
    and "hash_wf (entry_hash e)" "entry_mode e = MTree \<Longrightarrow> tree_in E (puts s) (entry_hash e)"
    and "put_inner E pk root p ps e s = (r, s')" "collision_free E s'"
  shows "repo_ok E pk s' \<and>
    (if \<exists>q m h. strict_prefix q (p # ps) \<and> q \<noteq> [] \<and> root_view E pk s root q = Ok (Some (m, h)) \<and> m \<noteq> MTree
     then r = Err (Conflict ''segment is not a directory'')
     else \<exists>h. r = Ok h \<and> tree_in E (puts s') h \<and>
        get_parts E pk s' (p # ps) h = Ok (Some (entry_mode e, entry_hash e)) \<and>
        (\<forall>q. \<not> prefix q (p # ps) \<longrightarrow> \<not> prefix (p # ps) q \<longrightarrow> get_parts E pk s' q h = root_view E pk s root q))"
proof -
  have cf: "collision_free E s" using collision_free_mono [OF put_inner_extends [OF assms(6)] assms(7)] .
  obtain t where t: "load_or_new E pk root s = (Ok t, s)" "tree_fits pk t" "subtrees_in E (puts s) t"
    "\<And>p ps. root_view E pk s root (p # ps) = get_loop E pk s t p ps"
    using root_tree [OF assms(1) cf assms(2)] by metis
  note spec = put_inner_spec [OF assms(1) t(1-3) assms(3-7)]
  have blocked: "put_blocked E pk s t p ps \<longleftrightarrow>
      (\<exists>q m h. strict_prefix q (p # ps) \<and> q \<noteq> [] \<and> root_view E pk s root q = Ok (Some (m, h)) \<and> m \<noteq> MTree)"
    unfolding put_blocked_iff [OF assms(1) cf t(3)] using t(4) by (metis list.exhaust list.distinct(1))
  have "get_parts E pk s' q h = root_view E pk s root q"
    if "put_result E pk s t p ps e s' h" "\<not> prefix q (p # ps)" "\<not> prefix (p # ps) q" for h q
    using that t(4) by (cases q) (auto simp: put_result_def get_parts_Cons)
  then show ?thesis
    using spec blocked by (auto simp: put_result_def get_parts_Cons)
qed

section \<open>The files of a tree\<close>

text \<open>
  What a tree stands for: a map from paths to files. Writing and deleting are two
  operations on such maps; a write is refused when the path leads through a file.
\<close>

type_synonym file_map = "str list \<Rightarrow> (mode \<times> hash) option"

definition tree_files :: "ext \<Rightarrow> bytes option \<Rightarrow> disk \<Rightarrow> hash option \<Rightarrow> file_map" where
  "tree_files E pk s root q = file_of (root_view E pk s root q)"

definition put_files :: "str list \<Rightarrow> mode \<times> hash \<Rightarrow> file_map \<Rightarrow> file_map" where
  "put_files p e v = (\<lambda>q. if q = p then Some e else if prefix p q then None else v q)"

definition delete_files :: "str list \<Rightarrow> file_map \<Rightarrow> file_map" where
  "delete_files p v = (\<lambda>q. if prefix p q then None else v q)"

definition through_file :: "file_map \<Rightarrow> str list \<Rightarrow> bool" where
  "through_file v p \<longleftrightarrow> (\<exists>q. strict_prefix q p \<and> v q \<noteq> None)"

lemma tree_files_root [simp]: "tree_files E pk s root [] = None"
  by (cases root) (simp_all add: tree_files_def root_view_def get_parts_def)

lemma tree_files_None [simp]: "tree_files E pk s None = (\<lambda>q. None)"
  by (simp add: tree_files_def root_view_def fun_eq_iff)

lemma file_of_eq_Some: "file_of r = Some (m, h) \<longleftrightarrow> r = Ok (Some (m, h)) \<and> m \<noteq> MTree"
  by (auto simp: file_of_def split: sum.splits option.splits if_splits)

lemma found_prefix:
  assumes "get_parts E pk s (q @ r) h = Ok (Some x)" "r \<noteq> []"
  shows "\<exists>k. get_parts E pk s q h = Ok (Some (MTree, k))"
  using assms(1)
proof (induction q arbitrary: h)
  case Nil
  then show ?case by (simp add: get_parts_def)
next
  case (Cons n q)
  then obtain t e where t: "load_tree_with_key E pk s h = Ok t" "bt_get t n = Some e" "entry_mode e = MTree"
      "get_parts E pk s (q @ r) (entry_hash e) = Ok (Some x)"
    using assms(2) by (auto simp: get_parts_def [of _ _ _ "n # q @ r"] res_simps get_loop_alt split: option.splits if_splits)
  then show ?case
    using Cons.IH [OF t(4)] by (cases "q = []") (auto simp: get_parts_Cons [OF t(1)] get_loop_alt)
qed

lemma found_below_file:
  assumes "get_parts E pk s q h = Ok (Some (m, k))" "m \<noteq> MTree" "strict_prefix q p"
  shows "\<not> get_parts E pk s p h = Ok (Some x)"
  using assms found_prefix [of E pk s q _ h x] by (fastforce simp: strict_prefix_def prefix_def)

lemma through_file_iff:
  "through_file (tree_files E pk s root) p \<longleftrightarrow>
   (\<exists>q m h. strict_prefix q p \<and> q \<noteq> [] \<and> root_view E pk s root q = Ok (Some (m, h)) \<and> m \<noteq> MTree)"
proof
  assume "through_file (tree_files E pk s root) p"
  then obtain q m h where q: "strict_prefix q p" "tree_files E pk s root q = Some (m, h)"
    by (auto simp: through_file_def)
  then have "q \<noteq> []" by (cases q) simp_all
  then show "\<exists>q m h. strict_prefix q p \<and> q \<noteq> [] \<and> root_view E pk s root q = Ok (Some (m, h)) \<and> m \<noteq> MTree"
    using q by (auto simp: tree_files_def file_of_eq_Some)
qed (auto simp: through_file_def tree_files_def, metis file_of_eq_Some option.distinct(1))

lemma put_files_spec:
  assumes "repo_ok E pk s" "root_ok E s root" "split_path path = Ok parts" "parts \<noteq> []"
    and "\<forall>n \<in> set parts. name_fits pk n" "hash_wf (entry_hash e)" "entry_mode e \<noteq> MTree"
    and "put_at_with_key E pk root path e s = (r, s')" "collision_free E s'"
  shows "repo_ok E pk s' \<and>
    (if through_file (tree_files E pk s root) parts then r = Err (Conflict ''segment is not a directory'')
     else \<exists>h. r = Ok h \<and> root_ok E s' (Some h) \<and>
        tree_files E pk s' (Some h) = put_files parts (entry_mode e, entry_hash e) (tree_files E pk s root))"
proof -
  obtain p ps where parts: "parts = p # ps" using assms(4) by (cases parts) auto
  have "put_inner E pk root p ps e s = (r, s')"
    using assms(3,8) parts by (simp add: put_at_with_key_def bind_op_def)
  note spec = put_parts_spec [OF assms(1,2) assms(5) [unfolded parts] assms(6) _ this assms(9), folded parts, folded through_file_iff]
  show ?thesis
  proof (cases "through_file (tree_files E pk s root) parts")
    case True
    then show ?thesis using spec assms(7) by simp
  next
    case False
    then obtain h where h: "repo_ok E pk s'" "r = Ok h" "tree_in E (puts s') h"
        "get_parts E pk s' parts h = Ok (Some (entry_mode e, entry_hash e))"
        "\<And>q. \<not> prefix q parts \<Longrightarrow> \<not> prefix parts q \<Longrightarrow> get_parts E pk s' q h = root_view E pk s root q"
      using spec assms(7) by auto
    have view: "tree_files E pk s' (Some h) q = file_of (get_parts E pk s' q h)" for q
      by (simp add: tree_files_def root_view_def)
    have "tree_files E pk s' (Some h) q = put_files parts (entry_mode e, entry_hash e) (tree_files E pk s root) q" for q
    proof -
      consider "q = parts" | "strict_prefix parts q" | "strict_prefix q parts" | "\<not> prefix q parts" "\<not> prefix parts q"
        by (auto simp: strict_prefix_def)
      then show ?thesis
      proof cases
        case 1
        then show ?thesis using h(4) assms(7) by (simp add: view put_files_def file_of_def)
      next
        case 2
        have "\<not> (\<exists>x. get_parts E pk s' q h = Ok (Some x))" using found_below_file [OF h(4) assms(7) 2] by blast
        then have "file_of (get_parts E pk s' q h) = None" by (auto simp: file_of_def split: sum.splits option.splits)
        then show ?thesis using 2 by (auto simp: view put_files_def strict_prefix_def)
      next
        case 3
        then obtain r where "parts = q @ r" "r \<noteq> []" by (auto simp: strict_prefix_def prefix_def)
        then obtain k where "get_parts E pk s' q h = Ok (Some (MTree, k))" using found_prefix h(4) by metis
        moreover have "tree_files E pk s root q = None" using False 3 unfolding through_file_def by blast
        ultimately show ?thesis using 3 by (auto simp: view put_files_def strict_prefix_def)
      next
        case 4
        then show ?thesis using h(5) [OF 4] by (auto simp: tree_files_def root_view_def put_files_def)
      qed
    qed
    then show ?thesis using h False by (auto simp: root_ok_def)
  qed
qed

lemma delete_parts_spec:
  assumes "repo_ok E pk s" "tree_in E (puts s) root" "split_path path = Ok (p # ps)"
    and "delete_at_with_key E pk root path s = (r, s')" "collision_free E s'"
  obtains t ro where "repo_ok E pk s'" "r = Ok ro" "load_tree_with_key E pk s root = Ok t"
    "del_result E pk s t p ps s' ro"
proof -
  have del: "delete_inner E pk root p ps s = (r, s')"
    using assms(3,4) by (simp add: delete_at_with_key_def bind_op_def)
  have cf: "collision_free E s" using collision_free_mono [OF delete_inner_extends [OF del] assms(5)] .
  obtain t where t: "load_tree_with_key E pk s root = Ok t" "tree_fits pk t" "subtrees_in E (puts s) t"
    using load_tree_in [OF assms(1) cf assms(2)] by blast
  then show thesis using delete_inner_spec [OF assms(1) t(1) assms(2) t(2,3) del assms(5)] that by blast
qed

lemma delete_files_spec:
  assumes "repo_ok E pk s" "root_ok E s (Some root)" "split_path path = Ok parts" "parts \<noteq> []"
    and "delete_at_with_key E pk root path s = (r, s')" "collision_free E s'"
  shows "repo_ok E pk s' \<and> (\<exists>ro. r = Ok ro \<and> root_ok E s' ro \<and>
     tree_files E pk s' ro = delete_files parts (tree_files E pk s (Some root)))"
proof -
  obtain p ps where parts: "parts = p # ps" using assms(4) by (cases parts) auto
  obtain t ro where ro: "repo_ok E pk s'" "r = Ok ro" "load_tree_with_key E pk s root = Ok t"
      "del_result E pk s t p ps s' ro"
    using delete_parts_spec [OF assms(1) _ assms(3) [unfolded parts] assms(5,6)] assms(2)
    unfolding root_ok_def option.case by metis
  have old: "tree_files E pk s (Some root) (q # qs) = file_of (get_loop E pk s t q qs)" for q qs
    using get_parts_Cons [OF ro(3)] by (simp add: tree_files_def root_view_def)
  have "root_ok E s' ro" using ro(4) by (auto simp: del_result_def root_ok_def split: option.splits)
  moreover have "tree_files E pk s' ro q = delete_files parts (tree_files E pk s (Some root)) q" for q
  proof (cases q)
    case Nil
    then show ?thesis using parts by (simp add: delete_files_def)
  next
    case (Cons n ns)
    show ?thesis
    proof (cases ro)
      case None
      then show ?thesis using ro(4) old Cons parts by (auto simp: del_result_def delete_files_def)
    next
      case (Some h)
      then obtain t' where t': "load_tree_with_key E pk s' h = Ok t'"
          "\<And>q qs. prefix parts (q # qs) \<Longrightarrow> get_loop E pk s' t' q qs = Ok None"
          "\<And>q qs. \<not> prefix parts (q # qs) \<Longrightarrow> file_of (get_loop E pk s' t' q qs) = file_of (get_loop E pk s t q qs)"
        using ro(4) parts by (auto simp: del_result_def)
      have new: "tree_files E pk s' ro q = file_of (get_loop E pk s' t' n ns)"
        using get_parts_Cons [OF t'(1)] Some Cons by (simp add: tree_files_def root_view_def)
      show ?thesis
        using t'(2,3) [of n ns] new old [of n ns] Cons by (cases "prefix parts q") (simp_all add: delete_files_def)
    qed
  qed
  ultimately show ?thesis using ro(1,2) by blast
qed

section \<open>Walking\<close>


text \<open>The leaves below a tree object, with their paths.\<close>

definition leaves :: "ext \<Rightarrow> bytes option \<Rightarrow> disk \<Rightarrow> hash \<Rightarrow> str \<Rightarrow> leaf set" where
  "leaves E pk s h pre =
     {(foldl join_name pre ps, m, k) | ps m k.
        ps \<noteq> [] \<and> get_parts E pk s ps h = Ok (Some (m, k)) \<and> m \<noteq> MTree}"

definition entry_leaves :: "ext \<Rightarrow> bytes option \<Rightarrow> disk \<Rightarrow> str \<Rightarrow> str \<times> entry \<Rightarrow> leaf set" where
  "entry_leaves E pk s pre = (\<lambda>(n, e).
     if entry_mode e = MTree then leaves E pk s (entry_hash e) (join_name pre n)
     else {(join_name pre n, entry_mode e, entry_hash e)})"

lemma entry_leaves_eq:
  assumes "bt_get t n = Some e"
  shows "entry_leaves E pk s pre (n, e) =
     {(foldl join_name pre (n # ps), m, k) | ps m k. get_loop E pk s t n ps = Ok (Some (m, k)) \<and> m \<noteq> MTree}"
proof (cases "entry_mode e = MTree")
  case True
  then have "get_loop E pk s t n ps = Ok (Some (m, k)) \<and> m \<noteq> MTree \<longleftrightarrow>
      ps \<noteq> [] \<and> get_parts E pk s ps (entry_hash e) = Ok (Some (m, k)) \<and> m \<noteq> MTree" for ps m k
    using assms by (auto simp: get_loop_alt)
  then show ?thesis using True by (simp add: entry_leaves_def leaves_def)
next
  case False
  then have "get_loop E pk s t n ps = Ok (Some (m, k)) \<and> m \<noteq> MTree \<longleftrightarrow>
      ps = [] \<and> m = entry_mode e \<and> k = entry_hash e" for ps m k
    using assms by (auto simp: get_loop_alt)
  then show ?thesis using False by (simp add: entry_leaves_def)
qed

lemma Collect_nonempty:
  "{g ps m k | ps m k. ps \<noteq> [] \<and> P ps m k} = {g (n # ps) m k | n ps m k. P (n # ps) m k}"
  by (auto simp: neq_Nil_conv) blast

lemma leaves_tree:
  assumes "load_tree_with_key E pk s h = Ok t" "bt_inv t"
  shows "leaves E pk s h pre = \<Union> (entry_leaves E pk s pre ` set t)"
proof -
  have "leaves E pk s h pre =
      {(foldl join_name pre (n # ps), m, k) | n ps m k. get_loop E pk s t n ps = Ok (Some (m, k)) \<and> m \<noteq> MTree}"
    unfolding leaves_def Collect_nonempty [of "\<lambda>ps m k. (foldl join_name pre ps, m, k)"]
    by (simp only: get_parts_Cons [OF assms(1)])
  also have "\<dots> = (\<Union>(n, e) \<in> set t.
      {(foldl join_name pre (n # ps), m, k) | ps m k. get_loop E pk s t n ps = Ok (Some (m, k)) \<and> m \<noteq> MTree})"
    (is "?A = ?B")
  proof -
    have ex: "\<exists>e. (n, e) \<in> set t" if "get_loop E pk s t n ps = Ok (Some (m, k))" for n ps m k
      using that bt_get_iff [OF assms(2), of n] by (cases "bt_get t n") (auto simp: get_loop_alt)
    show "?A = ?B"
    proof (intro equalityI subsetI)
      fix x assume "x \<in> ?A"
      then obtain n ps m k where x: "x = (foldl join_name pre (n # ps), m, k)"
        "get_loop E pk s t n ps = Ok (Some (m, k))" "m \<noteq> MTree" by blast
      moreover obtain e where "(n, e) \<in> set t" using ex [OF x(2)] by blast
      ultimately show "x \<in> ?B" by blast
    qed blast
  qed
  also have "\<dots> = \<Union> (entry_leaves E pk s pre ` set t)"
  proof (rule SUP_cong [OF refl])
    fix x assume "x \<in> set t"
    then have "bt_get t (fst x) = Some (snd x)" using bt_get_iff [OF assms(2)] by simp
    from entry_leaves_eq [OF this, of E pk s pre] show "(case x of (n, e) \<Rightarrow>
        {(foldl join_name pre (n # ps), m, k) | ps m k. get_loop E pk s t n ps = Ok (Some (m, k)) \<and> m \<noteq> MTree}) =
      entry_leaves E pk s pre x" by (simp add: split_def)
  qed
  finally show ?thesis .
qed

lemma walk_entries_total:
  assumes "\<And>h pre out. tree_in E gs h \<Longrightarrow>
      \<exists>ls. walk_inner E pk s n h pre out = Some (Ok (out @ ls)) \<and> set ls = leaves E pk s h pre"
    and "subtrees_in E gs es"
  shows "\<exists>ls. walk_entries E pk s n es pre out = Some (Ok (out @ ls)) \<and>
              set ls = \<Union> (entry_leaves E pk s pre ` set es)"
  using assms(2)
proof (induction es arbitrary: out)
  case (Cons x es)
  obtain name e where x: "x = (name, e)" by force
  have es: "subtrees_in E gs es" using Cons.prems by (simp add: subtrees_in_def)
  obtain ls where ls: "walk_entries E pk s n [x] pre out = Some (Ok (out @ ls))" "set ls = entry_leaves E pk s pre x"
  proof (cases "entry_mode e = MTree")
    case True
    then have "tree_in E gs (entry_hash e)" using Cons.prems x by (auto simp: subtrees_in_def)
    from assms(1) [OF this, of "join_name pre name" out] True x that show thesis
      by (auto simp: Let_def entry_leaves_def)
  qed (use x that in \<open>auto simp: entry_leaves_def\<close>)
  have "walk_entries E pk s n (x # es) pre out = walk_entries E pk s n es pre (out @ ls)"
    using ls(1) x by (auto simp: Let_def split: if_splits option.splits sum.splits)
  then show ?case using Cons.IH [OF es, of "out @ ls"] ls(2) by auto
qed simp

text \<open>Fuel for as many levels as there are stored objects is enough.\<close>

lemma walk_inner_total:
  assumes "repo_ok E pk s" "collision_free E s" "suffix fs (puts s)" "tree_in E fs h" "length fs \<le> n"
  shows "\<exists>ls. walk_inner E pk s n h pre out = Some (Ok (out @ ls)) \<and> set ls = leaves E pk s h pre"
  using assms(3-5)
proof (induction n arbitrary: fs h pre out)
  case 0
  then show ?case by (simp add: tree_in_def)
next
  case (Suc n)
  obtain t gs where t: "load_tree_with_key E pk s h = Ok t" "tree_fits pk t" "subtrees_in E gs t"
    "suffix gs (puts s)" "length gs < length fs"
    by (rule load_tree_older [OF assms(1,2) Suc.prems(1,2)])
  have "\<exists>ls. walk_inner E pk s n h' pre' out' = Some (Ok (out' @ ls)) \<and> set ls = leaves E pk s h' pre'"
    if "tree_in E gs h'" for h' pre' out'
    using Suc.IH [OF t(4) that] t(5) Suc.prems(3) by simp
  from walk_entries_total [OF this t(3), of pre out] t(1,2) leaves_tree [OF t(1), of pre]
  show ?case by (auto simp: tree_fits_def)
qed

section \<open>Histories of edits\<close>

text \<open>One edit of a tree: a call of \<open>put_at\<close> or of \<open>delete_at\<close>, whatever it answers.\<close>

inductive path_step :: "ext \<Rightarrow> bytes option \<Rightarrow> disk \<Rightarrow> disk \<Rightarrow> bool" for E pk where
  step_put: "put_at_with_key E pk root path e s = (r, s') \<Longrightarrow> path_step E pk s s'"
| step_delete: "delete_at_with_key E pk h path s = (r', s') \<Longrightarrow> path_step E pk s s'"

inductive_cases path_stepE: "path_step E pk s s'"

lemma bind_op_invariant:
  assumes "bind_op m f s = (r, s'')" "\<And>r s'. m s = (r, s') \<Longrightarrow> P s'"
    and "\<And>x s' r s''. P s' \<Longrightarrow> f x s' = (r, s'') \<Longrightarrow> P s''"
  shows "P s''"
proof (cases "m s")
  case (Pair a s')
  then show ?thesis using assms by (cases a) (auto simp: bind_op_def)
qed

lemma disk_put_keeps:
  assumes "disk_ok E s" "store_env E" "disk_put E ty c s = (r, s')"
  shows "disk_ok E s'"
proof (cases "type_parse ty")
  case (Inl e)
  then show ?thesis using assms disk_put_bad_type by auto
next
  case (Inr t)
  then have "ty = type_as_str t" by (rule type_parse_SomeD)
  then show ?thesis using disk_put_ok [OF assms(1) store_envD [OF assms(2)], of t c] assms(3) by auto
qed

lemma store_tree_keeps:
  "disk_ok E s \<Longrightarrow> store_env E \<Longrightarrow> store_tree_with_key E pk t s = (r, s') \<Longrightarrow> disk_ok E s'"
  unfolding store_tree_with_key_def
  by (erule bind_op_invariant [where P = "disk_ok E"]) (auto dest: disk_put_keeps)

lemma store_pruned_keeps:
  "disk_ok E s \<Longrightarrow> store_env E \<Longrightarrow> store_pruned E pk t s = (r, s') \<Longrightarrow> disk_ok E s'"
  unfolding store_pruned_def
  by (auto split: if_splits elim!: bind_op_invariant [where P = "disk_ok E"] dest: store_tree_keeps)

lemma put_inner_keeps:
  "disk_ok E s \<Longrightarrow> store_env E \<Longrightarrow> put_inner E pk cur head rest e s = (r, s') \<Longrightarrow> disk_ok E s'"
proof (induction rest arbitrary: cur head s r s')
  case Nil
  then show ?case
    by (auto elim!: bind_op_invariant [where P = "disk_ok E"] dest: load_or_new_state store_tree_keeps)
next
  case (Cons q qs)
  from Cons.prems(3) show ?case
    by (auto elim!: bind_op_invariant [where P = "disk_ok E"] dest: load_or_new_state store_tree_keeps
        Cons.IH [OF _ Cons.prems(2)] simp: Cons.prems)
qed

lemma delete_inner_keeps:
  "disk_ok E s \<Longrightarrow> store_env E \<Longrightarrow> delete_inner E pk cur head rest s = (r, s') \<Longrightarrow> disk_ok E s'"
proof (induction rest arbitrary: cur head s r s')
  case Nil
  then show ?case
    by (auto elim!: bind_op_invariant [where P = "disk_ok E"] dest: store_pruned_keeps)
next
  case (Cons q qs)
  from Cons.prems(3) show ?case
    by (auto elim!: bind_op_invariant [where P = "disk_ok E"] simp: Cons.prems split: option.splits if_splits)
      (blast intro: store_pruned_keeps [OF _ Cons.prems(2)] Cons.IH [OF _ Cons.prems(2)])+
qed

lemma path_step_keeps:
  assumes "path_step E pk s s'" "disk_ok E s" "store_env E"
  shows "disk_ok E s' \<and> extends s s'"
  using assms(1)
proof cases
  case (step_put root path e r)
  then show ?thesis
    using assms(2,3) put_inner_keeps put_inner_extends
    by (auto simp: put_at_with_key_def bind_op_def split: sum.splits list.splits)
next
  case (step_delete h path r')
  then show ?thesis
    using assms(2,3) delete_inner_keeps delete_inner_extends
    by (auto simp: delete_at_with_key_def bind_op_def split: sum.splits list.splits)
qed

lemma path_steps_keep:
  assumes "(path_step E pk)\<^sup>*\<^sup>* s s'" "disk_ok E s" "store_env E"
  shows "disk_ok E s' \<and> extends s s'"
  using assms(1)
proof (induction rule: rtranclp_induct)
  case (step t u)
  then show ?case using path_step_keeps [OF step.hyps(2) _ assms(3)] extends_trans by blast
qed (use assms(2) in simp)

section \<open>Properties\<close>

text \<open>A repository with one file, for the witnesses.\<close>

definition sample_entry :: entry where
  "sample_entry = \<lparr>entry_mode = MBlob, entry_hash = sample_hash\<rparr>"

definition sample_put :: "hash result \<times> disk" where
  "sample_put = put_at_with_key toy_ext None None ''notes.md'' sample_entry fresh_disk"

lemma fresh_repo_ok [simp]: "repo_ok toy_ext None fresh_disk"
  by (simp add: repo_ok_def)

lemma sample_split: "split_path ''notes.md'' = Ok [''notes.md'']"
  by (simp add: split_path_def trim_matches_def trim_start_matches_def trim_end_matches_def split_on_notin)

lemma sample_name_fits: "name_fits pk ''notes.md''"
  by (rule name_fits_ascii) (simp_all add: is_ascii_def AEAD_MAX_def)

lemma sample_put_ok:
  obtains h s where "sample_put = (Ok h, s)" "repo_ok toy_ext None s" "collision_free toy_ext s"
    "tree_in toy_ext (puts s) h" "load_tree_with_key toy_ext None s h = Ok [(''notes.md'', sample_entry)]"
proof -
  let ?t = "[(''notes.md'', sample_entry)]"
  have fits: "tree_fits None ?t"
    using sample_name_fits by (simp add: tree_fits_def sample_entry_def)
  have put: "sample_put = store_tree_with_key toy_ext None ?t fresh_disk"
    using sample_name_fits [of None]
    by (simp add: sample_put_def put_at_with_key_def sample_split bind_op_def load_or_new_def)
  obtain h s where s: "store_tree_with_key toy_ext None ?t fresh_disk = (Ok h, s)" "disk_ok toy_ext s"
      "collision_free toy_ext s \<longrightarrow> repo_ok toy_ext None s \<and> tree_in toy_ext (puts s) h \<and>
        load_tree_with_key toy_ext None s h = Ok ?t"
    using store_tree_ok [OF fresh_repo_ok fits] by (auto simp: subtrees_in_def sample_entry_def)
  have "puts s = [frame Tree (tree_serialize ?t)]"
    using s(1) disk_put_ok [of toy_ext fresh_disk Tree "tree_serialize ?t"]
    by (auto simp: store_tree_with_key_def bind_op_def tree_serialize_with_path_key_def)
  moreover have "length (tree_serialize ?t) = 79"
    by (simp add: tree_serialize_def tree_line_def sample_entry_def length_hash_hex)
  ultimately have "collision_free toy_ext s"
    by (simp add: collision_free_def frame_def show_nat.simps U64_MAX_def)
  with s put that show thesis by auto
qed

text \<open>
  C5. Writing at a path. If some proper prefix of the path is a file, the answer is
  \<open>Conflict\<close>; otherwise a new root is answered in which the path leads to the entry given
  and every path that neither contains it nor is contained in it leads where it led
  before. The store stays well built.
\<close>

theorem put_at_spec:
  assumes "repo_ok E pk s" "root_ok E s root" "split_path path = Ok parts" "parts \<noteq> []"
    and "\<forall>n \<in> set parts. name_fits pk n"
    and "hash_wf (entry_hash e)" "entry_mode e = MTree \<longrightarrow> tree_in E (puts s) (entry_hash e)"
    and "put_at_with_key E pk root path e s = (r, s')" "collision_free E s'"
  shows "repo_ok E pk s' \<and>
    (if \<exists>q m h. strict_prefix q parts \<and> q \<noteq> [] \<and> root_view E pk s root q = Ok (Some (m, h)) \<and> m \<noteq> MTree
     then r = Err (Conflict ''segment is not a directory'')
     else \<exists>h. r = Ok h \<and> tree_in E (puts s') h \<and>
        get_at_with_key E pk s' path h = Ok (Some (entry_mode e, entry_hash e)) \<and>
        (\<forall>q. \<not> prefix q parts \<longrightarrow> \<not> prefix parts q \<longrightarrow> get_parts E pk s' q h = root_view E pk s root q))"
proof -
  obtain p ps where parts: "parts = p # ps" using assms(4) by (cases parts) auto
  have "put_inner E pk root p ps e s = (r, s')"
    using assms(3,8) parts by (simp add: put_at_with_key_def bind_op_def)
  from put_parts_spec [OF assms(1,2) _ assms(6) _ this assms(9)] assms(5,7) show ?thesis
    unfolding parts get_at_with_key_def assms(3) [unfolded parts] bind_res_simps by blast
qed

theorem put_at_spec_witness:
  "\<exists>h s. sample_put = (Ok h, s) \<and>
         get_at_with_key toy_ext None s ''notes.md'' h = Ok (Some (MBlob, sample_hash))"
proof -
  obtain h s where s: "sample_put = (Ok h, s)" "collision_free toy_ext s" by (rule sample_put_ok)
  have "repo_ok toy_ext None s \<and>
    (if \<exists>q m h. strict_prefix q [''notes.md''] \<and> q \<noteq> [] \<and>
           root_view toy_ext None fresh_disk None q = Ok (Some (m, h)) \<and> m \<noteq> MTree
     then (Ok h :: hash result) = Err (Conflict ''segment is not a directory'')
     else \<exists>h'. Ok h = (Ok h' :: hash result) \<and> tree_in toy_ext (puts s) h' \<and>
        get_at_with_key toy_ext None s ''notes.md'' h' = Ok (Some (entry_mode sample_entry, entry_hash sample_entry)) \<and>
        (\<forall>q. \<not> prefix q [''notes.md''] \<longrightarrow> \<not> prefix [''notes.md''] q \<longrightarrow>
           get_parts toy_ext None s q h' = root_view toy_ext None fresh_disk None q))"
    using s sample_name_fits [of None]
    by (intro put_at_spec [OF fresh_repo_ok]) (simp_all add: root_ok_def sample_split sample_entry_def sample_put_def)
  then show ?thesis using s(1) by (auto simp: root_view_def sample_entry_def)
qed

text \<open>A repository with one file in a directory.\<close>

definition sample_dir_put :: "hash result \<times> disk" where
  "sample_dir_put = put_at_with_key toy_ext None None ''docs/notes.md'' sample_entry fresh_disk"

lemma sample_dir_split: "split_path ''docs/notes.md'' = Ok [''docs'', ''notes.md'']"
  by (simp add: split_path_def trim_matches_def trim_start_matches_def trim_end_matches_def)

text \<open>Below a root that leads somewhere, every directory has an entry.\<close>

definition no_empty_dirs :: "ext \<Rightarrow> bytes option \<Rightarrow> disk \<Rightarrow> hash \<Rightarrow> bool" where
  "no_empty_dirs E pk s root \<longleftrightarrow>
     (\<forall>q k. get_parts E pk s q root = Ok (Some (MTree, k)) \<longrightarrow> (\<exists>n x. get_parts E pk s (q @ [n]) root = Ok (Some x)))"

lemma no_empty_dirs_tree:
  assumes "load_tree_with_key E pk s h = Ok t" "bt_inv t"
  shows "no_empty_dirs E pk s h \<longleftrightarrow> kept_full E pk s t \<and> t \<noteq> []"
proof -
  have parts: "get_parts E pk s (p # ps) h = get_loop E pk s t p ps" for p ps using get_parts_Cons [OF assms(1)] .
  have nil: "get_parts E pk s [] h = Ok (Some (MTree, h))" by (simp add: get_parts_def)
  have "(\<exists>n x. get_loop E pk s t n [] = Ok (Some x)) \<longleftrightarrow> t \<noteq> []"
  proof (cases t)
    case (Cons y ys)
    then have "bt_get t (fst y) = Some (snd y)" using bt_get_iff [OF assms(2), of "fst y" "snd y"] by simp
    then have "get_loop E pk s t (fst y) [] = Ok (Some (entry_mode (snd y), entry_hash (snd y)))" by simp
    then show ?thesis using Cons by blast
  qed simp
  then have root: "(\<exists>n x. get_parts E pk s ([] @ [n]) h = Ok (Some x)) \<longleftrightarrow> t \<noteq> []" by (simp add: parts)
  have below: "(\<forall>p ps k. get_parts E pk s (p # ps) h = Ok (Some (MTree, k)) \<longrightarrow>
      (\<exists>n x. get_parts E pk s ((p # ps) @ [n]) h = Ok (Some x))) \<longleftrightarrow> kept_full E pk s t"
    by (simp add: kept_full_def parts del: get_loop.simps)
  show ?thesis unfolding no_empty_dirs_def using root below nil by (metis neq_Nil_conv)
qed

lemma delete_parts_keep_full:
  assumes "repo_ok E pk s" "tree_in E (puts s) root" "split_path path = Ok (p # ps)"
    and "delete_at_with_key E pk root path s = (Ok (Some h), s')" "collision_free E s'" "no_empty_dirs E pk s root"
  shows "no_empty_dirs E pk s' h"
proof -
  have del: "delete_inner E pk root p ps s = (Ok (Some h), s')"
    using assms(3,4) by (simp add: delete_at_with_key_def bind_op_def)
  have cf: "collision_free E s" using collision_free_mono [OF delete_inner_extends [OF del] assms(5)] .
  obtain t where t: "load_tree_with_key E pk s root = Ok t" "tree_fits pk t" "subtrees_in E (puts s) t"
    using load_tree_in [OF assms(1) cf assms(2)] by blast
  then have full: "kept_full E pk s t" "t \<noteq> []"
    using assms(6) no_empty_dirs_tree [OF t(1)] by (auto simp: tree_fits_def)
  from delete_inner_keeps_full [OF assms(1) t(1) assms(2) t(2,3) full del assms(5)]
  show ?thesis using no_empty_dirs_tree by (auto simp: tree_fits_def)
qed

text \<open>
  C8. Deleting a path always answers: a new root in which the path, and every path below
  it, is absent and unrelated paths lead where they led before, or nothing at all, and
  then no unrelated path led anywhere. Directories left without an entry go with it: when
  every directory of the old root had an entry, every directory of the new one has.
\<close>

theorem delete_at_spec:
  assumes "repo_ok E pk s" "tree_in E (puts s) root" "split_path path = Ok parts" "parts \<noteq> []"
    and "delete_at_with_key E pk root path s = (r, s')" "collision_free E s'"
  shows "repo_ok E pk s' \<and>
    (\<exists>ro. r = Ok ro \<and>
      (case ro of
         None \<Rightarrow> \<forall>q. \<not> prefix q parts \<and> \<not> prefix parts q \<longrightarrow> get_parts E pk s q root = Ok None
       | Some h \<Rightarrow> tree_in E (puts s') h \<and>
           (\<forall>q. prefix parts q \<longrightarrow> get_parts E pk s' q h = Ok None) \<and>
           (\<forall>q. \<not> prefix q parts \<and> \<not> prefix parts q \<longrightarrow> get_parts E pk s' q h = get_parts E pk s q root) \<and>
           (no_empty_dirs E pk s root \<longrightarrow> no_empty_dirs E pk s' h)))"
proof -
  obtain p ps where parts: "parts = p # ps" using assms(4) by (cases parts) auto
  obtain t ro where t: "load_tree_with_key E pk s root = Ok t"
      and ro: "repo_ok E pk s'" "r = Ok ro" "del_result E pk s t p ps s' ro"
    using delete_parts_spec [OF assms(1,2) assms(3) [unfolded parts] assms(5,6)] by metis
  have old: "get_parts E pk s (q # qs) root = get_loop E pk s t q qs" for q qs
    using get_parts_Cons [OF t] .
  show ?thesis
  proof (cases ro)
    case None
    then have "get_parts E pk s q root = Ok None" if "\<not> prefix q parts" "\<not> prefix parts q" for q
      using ro(3) that old parts by (cases q) (auto simp: del_result_def)
    then show ?thesis using ro None by auto
  next
    case (Some h)
    then obtain t' where t': "load_tree_with_key E pk s' h = Ok t'" "tree_in E (puts s') h"
        "\<And>q qs. prefix parts (q # qs) \<Longrightarrow> get_loop E pk s' t' q qs = Ok None"
        "\<And>q qs. \<not> prefix (q # qs) parts \<Longrightarrow> \<not> prefix parts (q # qs) \<Longrightarrow> get_loop E pk s' t' q qs = get_loop E pk s t q qs"
      using ro(3) parts by (auto simp: del_result_def)
    have "get_parts E pk s' q h = Ok None" if "prefix parts q" for q
      using that parts t'(3) get_parts_Cons [OF t'(1)] by (cases q) auto
    moreover have "get_parts E pk s' q h = get_parts E pk s q root" if "\<not> prefix q parts" "\<not> prefix parts q" for q
      using that t'(4) get_parts_Cons [OF t'(1)] old by (cases q) auto
    moreover have "no_empty_dirs E pk s root \<longrightarrow> no_empty_dirs E pk s' h"
      using delete_parts_keep_full [OF assms(1,2,3) [unfolded parts] assms(5) [unfolded ro(2) Some] assms(6)] by blast
    ultimately show ?thesis using ro(1,2) Some t'(2) by auto
  qed
qed

lemma sample_dir_put_ok:
  obtains h s where "sample_dir_put = (Ok h, s)" "repo_ok toy_ext None s" "collision_free toy_ext s" "tree_in toy_ext (puts s) h"
    "load_tree_with_key toy_ext None s h =
       Ok [(''docs'', \<lparr>entry_mode = MTree, entry_hash = hash_of toy_ext Tree (tree_serialize [(''notes.md'', sample_entry)])\<rparr>)]"
    "load_tree_with_key toy_ext None s (hash_of toy_ext Tree (tree_serialize [(''notes.md'', sample_entry)])) =
       Ok [(''notes.md'', sample_entry)]"
proof -
  let ?t1 = "[(''notes.md'', sample_entry)]"
  let ?h1 = "hash_of toy_ext Tree (tree_serialize ?t1)"
  let ?t = "[(''docs'', \<lparr>entry_mode = MTree, entry_hash = ?h1\<rparr>)]"
  have name: "name_fits None ''docs''" by (rule name_fits_ascii) (simp_all add: is_ascii_def AEAD_MAX_def)
  have wf: "hash_wf ?h1" by (simp add: hash_of_def)
  have fits: "tree_fits None ?t1" "tree_fits None ?t"
    using sample_name_fits name wf by (simp_all add: tree_fits_def sample_entry_def)
  have st: "store_tree_with_key toy_ext None t = disk_put toy_ext (type_as_str Tree) (tree_serialize t)" for t
    by (simp add: store_tree_with_key_def bind_op_def tree_serialize_with_path_key_def fun_eq_iff)
  obtain s1 where s1: "store_tree_with_key toy_ext None ?t1 fresh_disk = (Ok ?h1, s1)" "disk_ok toy_ext s1"
      "puts s1 = [frame Tree (tree_serialize ?t1)]"
    using disk_put_ok [of toy_ext fresh_disk Tree "tree_serialize ?t1"] by (auto simp: st)
  obtain h s where s: "store_tree_with_key toy_ext None ?t s1 = (Ok h, s)" "disk_ok toy_ext s"
      "puts s = [frame Tree (tree_serialize ?t), frame Tree (tree_serialize ?t1)]"
    using disk_put_ok [OF s1(2), of Tree "tree_serialize ?t"] s1(3) by (auto simp: st)
  have "length (tree_serialize [(''docs'', \<lparr>entry_mode = MTree, entry_hash = k\<rparr>)]) = 75" if "hash_wf k" for k
    using length_hash_hex [OF that] by (simp add: tree_serialize_def tree_line_def)
  then have len: "length (tree_serialize ?t1) = 79" "length (tree_serialize ?t) = 75"
    using wf by (simp_all add: tree_serialize_def tree_line_def sample_entry_def length_hash_hex)
  have "sha256 toy_ext (frame Tree (tree_serialize ?t)) \<noteq> sha256 toy_ext (frame Tree (tree_serialize ?t1))"
    by (simp add: frame_def tree_serialize_def tree_line_def toy_ext_def pad_to_def)
  then have cf: "collision_free toy_ext s"
    using len s(3) by (simp add: collision_free_def frame_def show_nat.simps U64_MAX_def inj_on_def)
  have cf1: "collision_free toy_ext s1"
    using len s1(3) by (simp add: collision_free_def frame_def show_nat.simps U64_MAX_def inj_on_def)
  have r1: "repo_ok toy_ext None s1" "tree_in toy_ext (puts s1) ?h1" "load_tree_with_key toy_ext None s1 ?h1 = Ok ?t1"
    using store_tree_ok [OF fresh_repo_ok fits(1)] s1(1) cf1 by (auto simp: subtrees_in_def sample_entry_def)
  have r: "repo_ok toy_ext None s" "tree_in toy_ext (puts s) h" "load_tree_with_key toy_ext None s h = Ok ?t" "extends s1 s"
    using store_tree_ok [OF r1(1) fits(2)] s(1) cf r1(2) by (auto simp: subtrees_in_def)
  have "sample_dir_put = (Ok h, s)"
    using s1(1) s(1) sample_name_fits [of None] name
    by (simp add: sample_dir_put_def put_at_with_key_def sample_dir_split bind_op_def load_or_new_def child_hash_def)
  then show thesis
    by (rule that [OF _ r(1) cf r(2,3) load_tree_later [OF s1(2) s(2) toy_sha_ok cf r(4) r1(3)]])
qed

theorem delete_at_spec_witness:
  "\<exists>h s s'. sample_dir_put = (Ok h, s) \<and> delete_at_with_key toy_ext None h ''docs/notes.md'' s = (Ok None, s') \<and>
            (\<forall>q. q \<noteq> [] \<and> hd q \<noteq> ''docs'' \<longrightarrow> get_parts toy_ext None s q h = Ok None)"
proof -
  obtain h s where s: "sample_dir_put = (Ok h, s)" "repo_ok toy_ext None s" "collision_free toy_ext s" "tree_in toy_ext (puts s) h"
      "load_tree_with_key toy_ext None s h =
         Ok [(''docs'', \<lparr>entry_mode = MTree, entry_hash = hash_of toy_ext Tree (tree_serialize [(''notes.md'', sample_entry)])\<rparr>)]"
      "load_tree_with_key toy_ext None s (hash_of toy_ext Tree (tree_serialize [(''notes.md'', sample_entry)])) =
         Ok [(''notes.md'', sample_entry)]"
    by (rule sample_dir_put_ok)
  have del: "delete_at_with_key toy_ext None h ''docs/notes.md'' s = (Ok None, s)"
    using s(5,6) by (simp add: delete_at_with_key_def sample_dir_split bind_op_def store_pruned_def bt_get_def)
  from delete_at_spec [OF s(2,4) sample_dir_split _ del s(3)]
  have "\<forall>q. \<not> prefix q [''docs'', ''notes.md''] \<and> \<not> prefix [''docs'', ''notes.md''] q \<longrightarrow> get_parts toy_ext None s q h = Ok None"
    by simp
  then have "\<forall>q. q \<noteq> [] \<and> hd q \<noteq> ''docs'' \<longrightarrow> get_parts toy_ext None s q h = Ok None"
    by (auto simp: neq_Nil_conv)
  with s(1) del show ?thesis by blast
qed

text \<open>
  C9. Every past root stays readable: whatever edits follow, an answer that a root gave
  for a path it still gives.
\<close>

theorem old_roots_stay_readable:
  assumes "disk_ok E s" "store_env E" "(path_step E pk)\<^sup>*\<^sup>* s s'" "collision_free E s'"
    and "get_at_with_key E pk s path root = Ok v"
  shows "get_at_with_key E pk s' path root = Ok v"
proof -
  have "disk_ok E s'" "extends s s'" using path_steps_keep [OF assms(3,1,2)] by simp_all
  then show ?thesis
    using assms(5) get_parts_later [OF assms(1) _ store_envD(1) [OF assms(2)] assms(4)]
    by (auto simp: get_at_with_key_def res_simps)
qed

theorem old_roots_stay_readable_witness:
  "\<exists>h s s'. sample_put = (Ok h, s) \<and> (path_step toy_ext None)\<^sup>*\<^sup>* s s' \<and>
            get_at_with_key toy_ext None s' ''notes.md'' h = Ok (Some (MBlob, sample_hash))"
proof -
  obtain h s where s: "sample_put = (Ok h, s)" "repo_ok toy_ext None s" "collision_free toy_ext s"
    "load_tree_with_key toy_ext None s h = Ok [(''notes.md'', sample_entry)]"
    by (rule sample_put_ok)
  have del: "delete_at_with_key toy_ext None h ''notes.md'' s = (Ok None, s)"
    using s(4) by (simp add: delete_at_with_key_def sample_split bind_op_def store_pruned_def)
  have "get_at_with_key toy_ext None s ''notes.md'' h = Ok (Some (MBlob, sample_hash))"
    using s(4) by (simp add: get_at_with_key_def sample_split get_parts_def sample_entry_def bt_get_def)
  moreover have "(path_step toy_ext None)\<^sup>*\<^sup>* s s" by (rule r_into_rtranclp) (rule step_delete [OF del])
  ultimately show ?thesis
    using old_roots_stay_readable [OF repo_okD(1) [OF s(2)] toy_store_env _ s(3)] s(1) by blast
qed

text \<open>The paths of leaves: the names on the way, joined by slashes.\<close>

lemma found_names:
  assumes "repo_ok E pk s" "collision_free E s" "tree_in E (puts s) h"
    and "get_parts E pk s ps h = Ok (Some x)" "p \<in> set ps"
  shows "name_ok p"
  using assms(3-)
proof (induction ps arbitrary: h)
  case (Cons n ps)
  obtain t where t: "load_tree_with_key E pk s h = Ok t" "tree_fits pk t" "subtrees_in E (puts s) t"
    by (rule load_tree_in [OF assms(1,2) Cons.prems(1)])
  then obtain e where e: "bt_get t n = Some e"
      "ps \<noteq> [] \<Longrightarrow> entry_mode e = MTree \<and> get_parts E pk s ps (entry_hash e) = Ok (Some x)"
    using Cons.prems(2) by (auto simp: get_parts_def [of _ _ _ "n # ps"] get_loop_alt split: option.splits if_splits)
  with t(2) have mem: "(n, e) \<in> set t" by (simp add: bt_get_iff tree_fits_def)
  show ?case
  proof (cases "p = n")
    case True
    then show ?thesis using tree_fits_wf [OF t(2)] mem by (auto simp: tree_wf_def)
  next
    case False
    then have "p \<in> set ps" using Cons.prems(3) by simp
    then have "ps \<noteq> []" by auto
    then show ?thesis using Cons.IH [of "entry_hash e"] e(2) t(3) mem \<open>p \<in> set ps\<close>
      by (auto simp: subtrees_in_def)
  qed
qed simp

lemma join_names_concat: "pre \<noteq> [] \<Longrightarrow> foldl join_name pre ps = pre @ concat (map (\<lambda>p. CHR ''/'' # p) ps)"
  by (induction ps arbitrary: pre) (simp_all add: join_name_def)

lemma split_joined:
  "pre \<noteq> [] \<Longrightarrow> (\<And>p. p \<in> set ps \<Longrightarrow> CHR ''/'' \<notin> set p) \<Longrightarrow>
     split_on (CHR ''/'') (foldl join_name pre ps) = split_on (CHR ''/'') pre @ ps"
  by (induction ps arbitrary: pre) (simp_all add: join_name_def split_on_append_sep split_on_notin)

lemma joined_last: "(\<And>p. p \<in> set (n # ps) \<Longrightarrow> p \<noteq> []) \<Longrightarrow> last (foldl join_name n ps) = last (last (n # ps))"
  by (cases ps rule: rev_cases) (simp_all add: join_name_def)

lemma split_path_joined:
  assumes "ps \<noteq> []" "\<And>p. p \<in> set ps \<Longrightarrow> name_ok p"
  shows "split_path (foldl join_name [] ps) = Ok ps \<and>
    trim_matches (CHR ''/'') (foldl join_name [] ps) = foldl join_name [] ps"
proof -
  obtain n qs where ps: "ps = n # qs" using assms(1) by (cases ps) auto
  have names: "p \<noteq> [] \<and> p \<noteq> ''.'' \<and> p \<noteq> ''..'' \<and> CHR ''/'' \<notin> set p" if "p \<in> set ps" for p
    using assms(2) [OF that] by (auto simp: name_ok_def validate_name_Ok)
  let ?path = "foldl join_name n qs"
  have path: "foldl join_name [] ps = ?path" using ps by (simp add: join_name_def)
  have "n \<noteq> []" using names [of n] ps by simp
  have "hd ?path = hd n" using \<open>n \<noteq> []\<close> by (simp add: join_names_concat)
  moreover have "last ?path = last (last ps)" using joined_last [of n qs] names ps by (simp del: last.simps)
  moreover have "hd n \<noteq> CHR ''/''" using names [of n] ps by (cases n) auto
  moreover have "last (last ps) \<noteq> CHR ''/''"
    using names [OF last_in_set [OF assms(1)]] last_in_set [of "last ps"] by metis
  ultimately have trim: "trim_matches (CHR ''/'') ?path = ?path" by (intro trim_matches_id) simp
  have "split_on (CHR ''/'') ?path = ps"
    using split_joined [of n qs] names ps \<open>n \<noteq> []\<close> by (simp add: split_on_notin)
  moreover have "?path \<noteq> []" using \<open>n \<noteq> []\<close> by (simp add: join_names_concat)
  moreover have "\<not> list_ex (\<lambda>p. p = [] \<or> p = ''.'' \<or> p = ''..'') ps" using names by (auto simp: list_ex_iff)
  ultimately show ?thesis using trim path by (simp add: split_path_def)
qed

lemma joined_split_path:
  assumes "split_path path = Ok ps" "ps \<noteq> []" "trim_matches (CHR ''/'') path = path"
  shows "foldl join_name [] ps = path"
proof -
  have ps: "ps = split_on (CHR ''/'') path" using assms by (auto simp: split_path_def Let_def split: if_splits)
  obtain n qs where n: "ps = n # qs" using assms(2) by (cases ps) auto
  have "n \<noteq> []" using split_path_parts [OF assms(1), of n] n by simp
  then show ?thesis using split_on_join [of path "CHR ''/''"] ps [symmetric] n
    by (simp add: join_name_def [of "[]"] join_names_concat)
qed

lemma walk_files:
  assumes "repo_ok E pk s" "collision_free E s" "tree_in E (puts s) root" "length (puts s) \<le> fuel"
  shows "\<exists>ls. walk_with_key E pk s fuel root = Some (Ok ls) \<and>
    set ls = {(path, m, h). get_at_with_key E pk s path root = Ok (Some (m, h)) \<and> m \<noteq> MTree \<and>
                            trim_matches (CHR ''/'') path = path}"
proof -
  have eq: "leaves E pk s root [] = {(path, m, h). get_at_with_key E pk s path root = Ok (Some (m, h)) \<and>
      m \<noteq> MTree \<and> trim_matches (CHR ''/'') path = path}" (is "?L = ?R")
  proof (rule set_eqI, clarify)
    fix path m h
    show "(path, m, h) \<in> ?L \<longleftrightarrow> (path, m, h) \<in> ?R"
    proof
      assume "(path, m, h) \<in> ?L"
      then obtain ps where ps: "path = foldl join_name [] ps" "ps \<noteq> []" "m \<noteq> MTree"
        "get_parts E pk s ps root = Ok (Some (m, h))" by (auto simp: leaves_def)
      show "(path, m, h) \<in> ?R"
        using split_path_joined [OF ps(2) found_names [OF assms(1-3) ps(4)]] ps by (simp add: get_at_with_key_def)
    next
      assume R: "(path, m, h) \<in> ?R"
      then obtain ps where ps: "split_path path = Ok ps" "get_parts E pk s ps root = Ok (Some (m, h))"
        by (auto simp: get_at_with_key_def res_simps)
      moreover from R ps have "ps \<noteq> []" by (auto simp: get_parts_def)
      ultimately show "(path, m, h) \<in> ?L" using joined_split_path [of path ps] R by (auto simp: leaves_def)
    qed
  qed
  show ?thesis using walk_inner_total [OF assms(1,2) suffix_order.refl assms(3,4), of "[]" "[]"] eq
    by (simp add: walk_with_key_def)
qed

text \<open>
  C10. The walk returns, given fuel for as many levels as there are stored objects, and
  lists exactly the files of the tree under their paths: every path, written without
  slashes at its ends, at which \<open>get_at\<close> finds a blob or a manifest, and no other.
\<close>

theorem walk_complete:
  assumes "repo_ok E pk s" "collision_free E s" "tree_in E (puts s) root" "length (puts s) \<le> fuel"
  shows "\<exists>ls. walk_with_key E pk s fuel root = Some (Ok ls) \<and>
    set ls = {(path, m, h). get_at_with_key E pk s path root = Ok (Some (m, h)) \<and> m \<noteq> MTree \<and>
                            trim_matches (CHR ''/'') path = path}"
  using assms by (rule walk_files)

theorem walk_complete_witness:
  "\<exists>h s ls. sample_put = (Ok h, s) \<and> walk_with_key toy_ext None s (length (puts s)) h = Some (Ok ls) \<and>
            (''notes.md'', MBlob, sample_hash) \<in> set ls"
proof -
  obtain h s where s: "sample_put = (Ok h, s)" "repo_ok toy_ext None s" "collision_free toy_ext s"
    "tree_in toy_ext (puts s) h" "load_tree_with_key toy_ext None s h = Ok [(''notes.md'', sample_entry)]"
    by (rule sample_put_ok)
  have "get_at_with_key toy_ext None s ''notes.md'' h = Ok (Some (MBlob, sample_hash))"
    using s(5) by (simp add: get_at_with_key_def sample_split get_parts_def sample_entry_def bt_get_def)
  moreover have "trim_matches (CHR ''/'') ''notes.md'' = ''notes.md''" by (rule trim_matches_id) simp
  ultimately show ?thesis using walk_complete [OF s(2-4) order.refl] s(1) by fastforce
qed

end
