(* ===== verification/Omp_Repo.thy ===== *)
theory Omp_Repo
  imports Omp_Config Omp_Paths Omp_Refs
begin

text \<open>
  \<open>crates/omp-core/src/api.rs\<close>, first part: a repository as its callers see it. The state
  is the disk of the object store, which also holds the staging index (\<open>index.json\<close>).
  Operations that only read are functions of the disk; the others pass it on. The write
  lock of a handle makes each operation one step.

  What surrounds a repository is the record \<open>repo_env\<close>: the JSON text of the index, the
  WebAssembly sandbox, MIME detection, the built-in probes (files the build embeds), the
  files of the working tree, environment variables, the clock, the tenant's limits. A
  \<open>HashMap\<close> is iterated in no fixed order: the index is the list of its entries, and
  \<open>map_order\<close> is the order in which a loop meets them.
\<close>

section \<open>State\<close>

datatype staged_kind = Upsert | Delete

record staged_change =
  sc_path :: str
  sc_kind :: staged_kind
  sc_hash :: "hash option"

type_synonym index = "(str \<times> staged_change) list"

record repo_env =
  rx :: ext
  index_show :: "index \<Rightarrow> str"
  index_read :: "str \<Rightarrow> str + index"
  map_order :: "index \<Rightarrow> index"
  raw_schema_of :: "toml_table \<Rightarrow> str + raw_schema"
  infer_mime :: "bytes \<Rightarrow> str option"
  run_probe :: probe_runner
  args_json :: args_printer
  starter_probes :: "(str \<times> bytes \<times> bytes) list"
  work_file :: "str \<Rightarrow> bytes option"
  work_schemas :: "(str \<times> bytes) list"
  env_var :: "str \<Rightarrow> str option"
  now :: str
  quotas_of :: quotas
  tenant_of :: str
  dir_listing :: listing

text \<open>The index as a map: the entry of a path is replaced or added.\<close>

fun index_insert :: "str \<Rightarrow> staged_change \<Rightarrow> index \<Rightarrow> index" where
  "index_insert k c [] = [(k, c)]"
| "index_insert k c ((l, d) # idx) = (if k = l then (k, c) # idx else (l, d) # index_insert k c idx)"

definition load_index :: "repo_env \<Rightarrow> disk \<Rightarrow> index result" where
  "load_index V s =
     (if \<not> path_exists s [''index.json''] then Ok []
      else bind_res (read_to_string s [''index.json'']) (\<lambda>r.
        bind_res (ok_or (Io ''read'' ''not found'') r) (\<lambda>txt.
        map_err (\<lambda>e. Corrupt (''index.json: '' @ e)) (index_read V txt))))"

definition save_index :: "repo_env \<Rightarrow> index \<Rightarrow> unit op" where
  "save_index V idx = write_file [''index.json''] (index_show V idx)"

definition stage :: "repo_env \<Rightarrow> str \<Rightarrow> staged_change \<Rightarrow> unit op" where
  "stage V path c =
     bind_op (reads (load_index V)) (\<lambda>idx. save_index V (index_insert path c idx))"

definition stage_upsert :: "repo_env \<Rightarrow> str \<Rightarrow> hash \<Rightarrow> unit op" where
  "stage_upsert V path h = stage V path \<lparr>sc_path = path, sc_kind = Upsert, sc_hash = Some h\<rparr>"

definition validate_path :: "str \<Rightarrow> unit result" where
  "validate_path path =
     (if path = [] then Err (InvalidPath ''empty path'')
      else if starts_with ''/'' path \<or> contains_str ''//'' path then Err (InvalidPath ''absolute or double-slash path'')
      else if starts_with ''.omp/'' path \<or> path = ''.omp'' then Err (InvalidPath ''.omp/ is reserved for private state'')
      else bind_res (split_path path) (\<lambda>_. Ok ()))"

definition repo_remove :: "repo_env \<Rightarrow> str \<Rightarrow> unit op" where
  "repo_remove V path =
     bind_op (lift_res (validate_path path)) (\<lambda>_.
     stage V path \<lparr>sc_path = path, sc_kind = Delete, sc_hash = None\<rparr>)"

section \<open>Commits and trees\<close>

definition reader :: "repo_env \<Rightarrow> disk \<Rightarrow> object_reader" where
  "reader V s = disk_reader (rx V) s"

fun tree_header :: "str list \<Rightarrow> hash result option" where
  "tree_header [] = None"
| "tree_header (line # rest) =
     (if line = [] then None
      else case strip_prefix ''tree '' line of
        Some r \<Rightarrow> Some (map_err (\<lambda>_. Corrupt ''commit tree'') (hash_from_str r))
      | None \<Rightarrow> tree_header rest)"

definition get_object :: "repo_env \<Rightarrow> disk \<Rightarrow> omp_error \<Rightarrow> hash \<Rightarrow> (str \<times> bytes) result" where
  "get_object V s e h = bind_res (disk_get (rx V) s h) (ok_or e)"

definition tree_of_commit :: "repo_env \<Rightarrow> disk \<Rightarrow> hash \<Rightarrow> hash result" where
  "tree_of_commit V s h =
     bind_res (get_object V s (NotFound (''commit '' @ hash_hex h)) h) (\<lambda>(ty, content).
     if ty \<noteq> type_as_str Commit then Err (Corrupt (''expected commit at '' @ hash_hex h))
     else if \<not> utf8_valid content then Err (Corrupt ''commit is not UTF-8'')
     else case tree_header (str_lines content) of
       Some r \<Rightarrow> r
     | None \<Rightarrow> Err (Corrupt (''commit '' @ hash_hex h @ '' missing tree header'')))"

definition head_commit :: "repo_env \<Rightarrow> disk \<Rightarrow> hash option result" where
  "head_commit V s = resolve_head (reader V s)"

definition head_tree :: "repo_env \<Rightarrow> disk \<Rightarrow> hash option result" where
  "head_tree V s =
     bind_res (resolve_head (reader V s)) (\<lambda>head.
     case head of Some h \<Rightarrow> bind_res (tree_of_commit V s h) (\<lambda>t. Ok (Some t)) | None \<Rightarrow> Ok None)"

definition root_tree :: "repo_env \<Rightarrow> disk \<Rightarrow> str option \<Rightarrow> hash option result" where
  "root_tree V s at =
     (case at of
        Some expr \<Rightarrow>
          bind_res (resolve_ref (rx V) (reader V s) expr) (\<lambda>c.
          bind_res (tree_of_commit V s c) (\<lambda>t. Ok (Some t)))
      | None \<Rightarrow> head_tree V s)"

text \<open>
  \<open>paths::walk\<close> recurses as deep as the trees are nested. The number of objects ever
  stored bounds that depth, as \<open>Omp_Paths\<close> shows; the last case is for disks that no
  sequence of operations produces.
\<close>

definition walk_tree_at :: "repo_env \<Rightarrow> bytes option \<Rightarrow> disk \<Rightarrow> hash \<Rightarrow> leaf list result" where
  "walk_tree_at V pk s root =
     (case walk_with_key (rx V) pk s (length (puts s)) root of
        Some r \<Rightarrow> r
      | None \<Rightarrow> Err (Internal ''tree deeper than the store''))"

abbreviation get_at :: "repo_env \<Rightarrow> disk \<Rightarrow> str \<Rightarrow> hash \<Rightarrow> (mode \<times> hash) option result" where
  "get_at V s \<equiv> get_at_with_key (rx V) None s"

definition stored_mode :: "repo_env \<Rightarrow> disk \<Rightarrow> hash \<Rightarrow> mode result" where
  "stored_mode V s h =
     bind_res (get_object V s (NotFound (''object '' @ hash_hex h)) h) (\<lambda>(ty, _).
     if ty = ''blob'' then Ok MBlob
     else if ty = ''manifest'' then Ok MManifest
     else if ty = ''tree'' then Ok MTree
     else Err (Corrupt (''unexpected object type for staged entry: '' @ ty)))"

definition resolve_staged_or_head :: "repo_env \<Rightarrow> disk \<Rightarrow> str \<Rightarrow> (mode \<times> hash) result" where
  "resolve_staged_or_head V s path =
     bind_res (load_index V s) (\<lambda>idx.
     case map_of idx path of
       Some c \<Rightarrow>
         if sc_kind c = Delete then Err (NotFound (''path '' @ path @ '' is staged for deletion''))
         else bind_res (ok_or (Internal ''staged upsert without hash'') (sc_hash c)) (\<lambda>h.
           bind_res (stored_mode V s h) (\<lambda>m. Ok (m, h)))
     | None \<Rightarrow>
         bind_res (head_tree V s) (\<lambda>ro.
         bind_res (ok_or (NotFound (''path '' @ path @ '': no HEAD'')) ro) (\<lambda>root.
         bind_res (get_at V s path root) (ok_or (NotFound (''path '' @ path))))))"

section \<open>Reading files\<close>

record tree_entry_out =
  te_name :: str
  te_mode :: str
  te_hash :: hash

definition list_tree :: "repo_env \<Rightarrow> disk \<Rightarrow> hash \<Rightarrow> tree_entry_out list result" where
  "list_tree V s h =
     bind_res (get_object V s (NotFound (''tree '' @ hash_hex h)) h) (\<lambda>(ty, content).
     if ty \<noteq> ''tree'' then Err (Corrupt ''expected tree'')
     else bind_res (tree_parse (rx V) content) (\<lambda>t.
       Ok (map (\<lambda>(n, e). \<lparr>te_name = n, te_mode = mode_as_str (entry_mode e), te_hash = entry_hash e\<rparr>) t)))"

definition blob_extension_kind :: "str \<Rightarrow> render_kind" where
  "blob_extension_kind lower =
     (if ends_with ''.md'' lower \<or> ends_with ''.markdown'' lower then RMarkdown
      else if list_ex (\<lambda>e. ends_with e lower)
        [''.toml'', ''.txt'', ''.json'', ''.yaml'', ''.yml'', ''.rs'', ''.py'', ''.ts'', ''.js'', ''.sh'', ''.css'', ''.html'']
      then RText else RBinary)"

definition render_for_blob_path :: "repo_env \<Rightarrow> str \<Rightarrow> render_hint" where
  "render_for_blob_path V path =
     \<lparr>render_kind_of = blob_extension_kind (to_lowercase (rx V) path), max_inline_bytes = None\<rparr>"

definition fallback_render :: render_hint where
  "fallback_render = \<lparr>render_kind_of = RBinary, max_inline_bytes = None\<rparr>"

definition schema_path :: "str \<Rightarrow> str" where
  "schema_path file_type = ''schemas/'' @ file_type @ ''/schema.toml''"

definition render_for_file_type :: "repo_env \<Rightarrow> disk \<Rightarrow> str \<Rightarrow> hash option \<Rightarrow> render_hint" where
  "render_for_file_type V s file_type tree_root =
     (case tree_root of None \<Rightarrow> fallback_render
      | Some root \<Rightarrow>
          (case get_at V s (schema_path file_type) root of
             Inr (Some (MBlob, h)) \<Rightarrow>
               (case disk_get (rx V) s h of
                  Inr (Some (_, content)) \<Rightarrow>
                    (case schema_parse (rx V) (raw_schema_of V) content file_type of
                       Inr sch \<Rightarrow> effective_render sch
                     | Inl _ \<Rightarrow> fallback_render)
                | _ \<Rightarrow> fallback_render)
           | _ \<Rightarrow> fallback_render))"

datatype show_result =
    ShowManifest str manifest render_hint
  | ShowBlob str hash nat render_hint
  | ShowTree str "tree_entry_out list"

definition staged_hash :: "repo_env \<Rightarrow> disk \<Rightarrow> str \<Rightarrow> hash result" where
  "staged_hash V s path =
     bind_res (load_index V s) (\<lambda>idx.
     bind_res (ok_or (NotFound (''path '' @ path @ '' not staged'')) (map_of idx path)) (\<lambda>c.
     if sc_kind c = Delete then Err (NotFound (''path '' @ path @ '' is staged for deletion''))
     else ok_or (NotFound (''path '' @ path @ '' has no staged hash'')) (sc_hash c)))"

definition show_staged :: "repo_env \<Rightarrow> disk \<Rightarrow> str \<Rightarrow> show_result result" where
  "show_staged V s path =
     bind_res (staged_hash V s path) (\<lambda>h.
     bind_res (get_object V s (Corrupt (''staged blob '' @ hash_hex h @ '' missing'')) h) (\<lambda>(ty, content).
     if ty = ''manifest'' then
       bind_res (manifest_parse (rx V) content) (\<lambda>m.
       Ok (ShowManifest path m (render_for_file_type V s (m_file_type m) None)))
     else if ty = ''blob'' then Ok (ShowBlob path h (length content) (render_for_blob_path V path))
     else Err (Corrupt (''staged path '' @ path @ '' points at a non-blob/manifest''))))"

definition bytes_of_staged :: "repo_env \<Rightarrow> disk \<Rightarrow> str \<Rightarrow> bytes result" where
  "bytes_of_staged V s path =
     bind_res (staged_hash V s path) (\<lambda>h.
     bind_res (get_object V s (Corrupt (''staged blob '' @ hash_hex h @ '' missing'')) h) (\<lambda>(ty, content).
     if ty = ''blob'' then Ok content
     else if ty = ''manifest'' then
       bind_res (manifest_parse (rx V) content) (\<lambda>m.
       bind_res (get_object V s (Corrupt ''source_hash missing'') (m_source_hash m)) (\<lambda>(_, raw). Ok raw))
     else Err (NotFound (''staged path '' @ path @ '' is not a file''))))"

definition show_target :: "repo_env \<Rightarrow> disk \<Rightarrow> str \<Rightarrow> hash option \<Rightarrow> (mode \<times> hash) option result" where
  "show_target V s path tree_root =
     (if path = [] then Ok (map_option (\<lambda>r. (MTree, r)) tree_root)
      else case tree_root of Some r \<Rightarrow> get_at V s path r | None \<Rightarrow> Ok None)"

definition repo_show :: "repo_env \<Rightarrow> disk \<Rightarrow> str \<Rightarrow> str option \<Rightarrow> show_result result" where
  "repo_show V s path at =
     bind_res (root_tree V s at) (\<lambda>tree_root.
     bind_res (show_target V s path tree_root) (\<lambda>target.
     bind_res (ok_or (NotFound (''path '' @ path)) target) (\<lambda>(m, h).
     case m of
       MManifest \<Rightarrow>
         bind_res (get_object V s (NotFound (''manifest '' @ hash_hex h)) h) (\<lambda>(_, content).
         bind_res (manifest_parse (rx V) content) (\<lambda>mf.
         Ok (ShowManifest path mf (render_for_file_type V s (m_file_type mf) tree_root))))
     | MBlob \<Rightarrow>
         bind_res (get_object V s (NotFound (''blob '' @ hash_hex h)) h) (\<lambda>(_, content).
         Ok (ShowBlob path h (length content) (render_for_blob_path V path)))
     | MTree \<Rightarrow> bind_res (list_tree V s h) (\<lambda>es. Ok (ShowTree path es)))))"

definition bytes_of :: "repo_env \<Rightarrow> disk \<Rightarrow> str \<Rightarrow> str option \<Rightarrow> bytes result" where
  "bytes_of V s path at =
     bind_res (root_tree V s at) (\<lambda>tree_root.
     bind_res (case tree_root of Some r \<Rightarrow> get_at V s path r | None \<Rightarrow> Ok None) (\<lambda>target.
     bind_res (ok_or (NotFound (''path '' @ path)) target) (\<lambda>(m, h).
     case m of
       MManifest \<Rightarrow>
         bind_res (get_object V s (NotFound (''manifest '' @ hash_hex h)) h) (\<lambda>(_, content).
         bind_res (manifest_parse (rx V) content) (\<lambda>mf.
         bind_res (get_object V s (NotFound (''blob '' @ hash_hex (m_source_hash mf))) (m_source_hash mf)) (\<lambda>(_, blob).
         Ok blob)))
     | MBlob \<Rightarrow>
         bind_res (get_object V s (NotFound (''blob '' @ hash_hex h)) h) (\<lambda>(_, content). Ok content)
     | MTree \<Rightarrow> Err (InvalidPath (''path '' @ path @ '' is a directory'')))))"

text \<open>One round of the loop of \<open>ls_staged\<close>.\<close>

definition staged_entry :: "repo_env \<Rightarrow> disk \<Rightarrow> tree_entry_out list \<Rightarrow> str \<times> staged_change \<Rightarrow> tree_entry_out list result" where
  "staged_entry V s out = (\<lambda>(path, c).
     if sc_kind c = Delete then Ok out
     else case sc_hash c of None \<Rightarrow> Ok out
     | Some h \<Rightarrow>
         bind_res (disk_get (rx V) s h) (\<lambda>r. case r of
           None \<Rightarrow> Ok out
         | Some (ty, _) \<Rightarrow>
             Ok (out @ [\<lparr>te_name = path, te_mode = (if ty \<in> {''blob'', ''manifest'', ''tree''} then ty else ''blob''),
                         te_hash = h\<rparr>])))"

definition ls_staged :: "repo_env \<Rightarrow> disk \<Rightarrow> tree_entry_out list result" where
  "ls_staged V s =
     bind_res (load_index V s) (\<lambda>idx.
     bind_res (try_fold (staged_entry V s) [] (map_order V idx)) (\<lambda>out. Ok (sort_key te_name out)))"

definition repo_ls :: "repo_env \<Rightarrow> disk \<Rightarrow> str \<Rightarrow> str option \<Rightarrow> bool \<Rightarrow> tree_entry_out list result" where
  "repo_ls V s path at recursive =
     bind_res (root_tree V s at) (\<lambda>ro.
     bind_res (ok_or (NotFound ''no commits'') ro) (\<lambda>root.
     bind_res
       (if path = [] then Ok root
        else bind_res (get_at V s path root) (\<lambda>r. case r of
          Some (MTree, h) \<Rightarrow> Ok h
        | Some _ \<Rightarrow> Err (InvalidPath (''path '' @ path @ '' is not a directory''))
        | None \<Rightarrow> Err (NotFound (''path '' @ path))))
       (\<lambda>subtree.
     if \<not> recursive then list_tree V s subtree
     else bind_res (walk_tree_at V None s subtree) (\<lambda>es.
       Ok (map (\<lambda>(p, m, h). \<lparr>te_name = p, te_mode = mode_as_str m, te_hash = h\<rparr>) es)))))"

record file_listing =
  fl_path :: str
  fl_manifest_hash :: hash
  fl_source_hash :: hash
  fl_file_type :: str

definition file_entry :: "repo_env \<Rightarrow> disk \<Rightarrow> str option \<Rightarrow> file_listing list \<Rightarrow> leaf \<Rightarrow> file_listing list result" where
  "file_entry V s pfx out = (\<lambda>(path, m, h).
     if m \<noteq> MManifest then Ok out
     else if (case pfx of Some p \<Rightarrow> \<not> starts_with p path | None \<Rightarrow> False) then Ok out
     else bind_res (get_object V s (NotFound (''manifest '' @ hash_hex h)) h) (\<lambda>(_, content).
       bind_res (manifest_parse (rx V) content) (\<lambda>mf.
       Ok (out @ [\<lparr>fl_path = path, fl_manifest_hash = h, fl_source_hash = m_source_hash mf,
                   fl_file_type = m_file_type mf\<rparr>]))))"

definition repo_files :: "repo_env \<Rightarrow> disk \<Rightarrow> str option \<Rightarrow> str option \<Rightarrow> file_listing list result" where
  "repo_files V s at pfx =
     bind_res (root_tree V s at) (\<lambda>ro. case ro of
       None \<Rightarrow> Ok []
     | Some root \<Rightarrow>
         bind_res (walk_tree_at V None s root) (\<lambda>es. try_fold (file_entry V s pfx) [] es))"

section \<open>History, differences and branches\<close>

record commit_view =
  cv_hash :: hash
  cv_tree :: hash
  cv_parents :: "hash list"
  cv_author :: str
  cv_email :: str
  cv_timestamp :: str
  cv_message :: str

definition log_commits :: "repo_env \<Rightarrow> disk \<Rightarrow> nat \<Rightarrow> commit_view list result" where
  "log_commits V s max_n =
     bind_res (resolve_head (reader V s)) (\<lambda>ho. case ho of
       None \<Rightarrow> Ok []
     | Some h \<Rightarrow>
         bind_res (log (rx V) (reader V s) h max_n) (\<lambda>cs.
         Ok (map (\<lambda>(h, c). \<lparr>cv_hash = h, cv_tree = commit_tree c, cv_parents = commit_parents c,
                            cv_author = author_name (commit_author c), cv_email = author_email (commit_author c),
                            cv_timestamp = author_timestamp (commit_author c), cv_message = commit_message c\<rparr>) cs)))"

datatype diff_status = Added | Removed | Modified | Unchanged

record diff_entry =
  de_path :: str
  de_status :: diff_status
  de_before :: "hash option"
  de_after :: "hash option"

type_synonym diff_pair = "(mode \<times> hash) option \<times> (mode \<times> hash) option"

definition diff_of :: "diff_pair \<Rightarrow> diff_status" where
  "diff_of p =
     (case p of
        (None, None) \<Rightarrow> Unchanged
      | (None, Some _) \<Rightarrow> Added
      | (Some _, None) \<Rightarrow> Removed
      | (Some (_, bh), Some (_, ah)) \<Rightarrow> if bh = ah then Unchanged else Modified)"

text \<open>\<open>all.entry(p).or_default()\<close> with one side set.\<close>

definition set_before :: "(str, diff_pair) btree \<Rightarrow> str \<times> mode \<times> hash \<Rightarrow> (str, diff_pair) btree" where
  "set_before m = (\<lambda>(p, v). bt_insert p (Some v, case bt_get m p of Some (_, a) \<Rightarrow> a | None \<Rightarrow> None) m)"

definition set_after :: "(str, diff_pair) btree \<Rightarrow> str \<times> mode \<times> hash \<Rightarrow> (str, diff_pair) btree" where
  "set_after m = (\<lambda>(p, v). bt_insert p (case bt_get m p of Some (b, _) \<Rightarrow> b | None \<Rightarrow> None, Some v) m)"

definition diff_entries :: "leaf list \<Rightarrow> leaf list \<Rightarrow> str option \<Rightarrow> diff_entry list" where
  "diff_entries before after path_filter =
     (let b = bt_of_list before; a = bt_of_list after;
          all = foldl set_after (foldl set_before [] b) a in
      concat (map (\<lambda>(p, pr).
        if (case path_filter of Some pf \<Rightarrow> \<not> starts_with pf p | None \<Rightarrow> False) then []
        else if diff_of pr = Unchanged then []
        else [\<lparr>de_path = p, de_status = diff_of pr, de_before = map_option snd (fst pr),
               de_after = map_option snd (snd pr)\<rparr>]) all))"

definition repo_diff :: "repo_env \<Rightarrow> disk \<Rightarrow> str \<Rightarrow> str \<Rightarrow> str option \<Rightarrow> diff_entry list result" where
  "repo_diff V s from_expr to_expr path_filter =
     bind_res (resolve_ref (rx V) (reader V s) from_expr) (\<lambda>from_commit.
     bind_res (resolve_ref (rx V) (reader V s) to_expr) (\<lambda>to_commit.
     bind_res (tree_of_commit V s from_commit) (\<lambda>from_tree.
     bind_res (tree_of_commit V s to_commit) (\<lambda>to_tree.
     bind_res (walk_tree_at V None s from_tree) (\<lambda>before.
     bind_res (walk_tree_at V None s to_tree) (\<lambda>after.
     Ok (diff_entries before after path_filter)))))))"

definition repo_branch :: "repo_env \<Rightarrow> str \<Rightarrow> str option \<Rightarrow> unit op" where
  "repo_branch V name start =
     bind_op (reads (\<lambda>s. case start of
         Some e \<Rightarrow> resolve_ref (rx V) (reader V s) e
       | None \<Rightarrow> bind_res (resolve_head (reader V s)) (ok_or (Conflict ''no commit to branch from'')))) (\<lambda>h.
     bind_op (reads (\<lambda>s. read_ref s (branch_ref name))) (\<lambda>r.
     if r \<noteq> None then raise (Conflict (''branch '' @ name @ '' already exists''))
     else write_ref (branch_ref name) h))"

definition is_hash_str :: "str \<Rightarrow> bool" where
  "is_hash_str r = (case hash_from_str r of Inr _ \<Rightarrow> True | Inl _ \<Rightarrow> False)"

definition checkout :: "repo_env \<Rightarrow> str \<Rightarrow> unit op" where
  "checkout V r =
     bind_op (reads (\<lambda>s.
       if CHR ''/'' \<notin> set r \<and> \<not> starts_with ''refs/'' r \<and> \<not> is_hash_str r
       then bind_res (read_ref s (branch_ref r)) (\<lambda>b. Ok (b \<noteq> None)) else Ok False)) (\<lambda>is_branch.
     if is_branch then write_head (''ref: '' @ branch_ref r)
     else bind_op (reads (\<lambda>s. resolve_ref (rx V) (reader V s) r)) (\<lambda>h. write_head (hash_hex h)))"

record branch_info =
  bi_name :: str
  bi_head :: "hash option"
  bi_is_current :: bool

definition list_branches :: "repo_env \<Rightarrow> nat \<Rightarrow> disk \<Rightarrow> branch_info list result option" where
  "list_branches V fuel s =
     (case current_branch (reader V s) of Inl e \<Rightarrow> Some (Err e)
      | Inr current \<Rightarrow>
          map_option (\<lambda>r. bind_res r (\<lambda>refs.
            Ok (sort_key bi_name (concat (map (\<lambda>(name, h).
              case strip_prefix ''refs/heads/'' name of
                Some b \<Rightarrow> [\<lparr>bi_name = b, bi_head = Some h, bi_is_current = (current = Some name)\<rparr>]
              | None \<Rightarrow> []) refs)))))
            (iter_refs fuel (dir_listing V) s))"

record repo_status =
  rs_branch :: "str option"
  rs_head :: "hash option"
  rs_staged :: "staged_change list"

definition status_of :: "repo_env \<Rightarrow> disk \<Rightarrow> repo_status result" where
  "status_of V s =
     bind_res (current_branch (reader V s)) (\<lambda>b.
     bind_res (resolve_head (reader V s)) (\<lambda>h.
     bind_res (load_index V s) (\<lambda>idx.
     Ok \<lparr>rs_branch = b, rs_head = h, rs_staged = sort_key sc_path (map snd (map_order V idx))\<rparr>)))"

end
