(* ===== verification/Omp_Uploads.thy ===== *)
theory Omp_Uploads
  imports Listing Omp_Share
begin

text \<open>
  \<open>crates/omp-core/src/uploads.rs\<close>: resumable upload sessions below \<open>.omp/uploads/\<close>.

  The state is the disk of the object store: a session is a directory with the file
  \<open>state.toml\<close> and one file per chunk. The order in which the operating system lists a
  directory is not fixed, so the listing is a parameter that promises the names and
  nothing else. Random bytes, the clock and the parser of time stamps are arguments.
  A session id is joined to the directory name as it is, so an id that a caller makes up may
  climb out of the directory with \<open>..\<close>, or be absolute; \<open>session_dir\<close> follows such ids through
  the store. Outside of the store it gives a place that is on no modelled disk.
\<close>

section \<open>Sessions\<close>

record upload_handle =
  upload_id :: str
  uh_chunk_size :: nat

record session_state =
  ss_id :: str
  declared_size :: nat
  ss_path :: "str option"
  created_at :: str
  chunk_size_bytes :: nat

definition I64_MAX :: nat where "I64_MAX = 2 ^ 63 - 1"

text \<open>TOML integers are 64-bit signed: the encoder refuses larger sizes.\<close>

definition session_to_doc :: "session_state \<Rightarrow> toml_table" where
  "session_to_doc st =
     [(''id'', IValue (TString (ss_id st))), (''declared_size'', IValue (TInteger (int (declared_size st))))] @
     (case ss_path st of None \<Rightarrow> [] | Some p \<Rightarrow> [(''path'', IValue (TString p))]) @
     [(''created_at'', IValue (TString (created_at st))),
      (''chunk_size_bytes'', IValue (TInteger (int (chunk_size_bytes st))))]"

definition session_serialize :: "ext \<Rightarrow> session_state \<Rightarrow> bytes result" where
  "session_serialize E st =
     (if declared_size st > I64_MAX \<or> chunk_size_bytes st > I64_MAX
      then Err (Internal ''serialize session: out of range'')
      else Ok (toml_show E (session_to_doc st)))"

definition get_u64 :: "toml_table \<Rightarrow> str \<Rightarrow> nat option" where
  "get_u64 doc key =
     (case map_of doc key of Some (IValue (TInteger i)) \<Rightarrow> if i < 0 then None else Some (nat i) | _ \<Rightarrow> None)"

definition get_opt_str :: "toml_table \<Rightarrow> str \<Rightarrow> str option option" where
  "get_opt_str doc key =
     (case map_of doc key of None \<Rightarrow> Some None | Some i \<Rightarrow> map_option Some (item_as_str i))"

definition session_of_doc :: "toml_table \<Rightarrow> session_state option" where
  "session_of_doc doc =
     (case (get_str doc ''id'', get_u64 doc ''declared_size'', get_opt_str doc ''path'',
            get_str doc ''created_at'', get_u64 doc ''chunk_size_bytes'') of
        (Some i, Some n, Some p, Some c, Some k) \<Rightarrow>
          Some \<lparr>ss_id = i, declared_size = n, ss_path = p, created_at = c, chunk_size_bytes = k\<rparr>
      | _ \<Rightarrow> None)"

definition session_parse :: "ext \<Rightarrow> bytes \<Rightarrow> session_state result" where
  "session_parse E bs =
     (if \<not> utf8_valid bs then Err (Corrupt ''upload state.toml is not UTF-8'')
      else bind_res (map_err (\<lambda>e. Corrupt (''upload state.toml: '' @ e)) (toml_parse E bs)) (\<lambda>doc.
        ok_or (Corrupt ''upload state.toml: invalid'') (session_of_doc doc)))"

section \<open>Files\<close>

text \<open>\<open>fs::remove_dir_all\<close>.\<close>

definition remove_dir_all :: "str list \<Rightarrow> unit op" where
  "remove_dir_all d s =
     (if d \<notin> dirs s then (Err (Io ''remove_dir_all'' ''not a directory''), s)
      else (Ok (), s\<lparr>files := (\<lambda>p. if prefix d p then None else files s p), dirs := {p \<in> dirs s. \<not> prefix d p}\<rparr>))"

section \<open>The session manager\<close>

text \<open>
  How the operating system follows the components of a path from a directory: \<open>..\<close> leads from
  a directory that exists to the one above it. Where there is no directory, or the way leads
  out of the store, the rest is left as it is: \<open>..\<close> is no name, so nothing lies there.
\<close>

fun follow :: "disk \<Rightarrow> str list \<Rightarrow> str list \<Rightarrow> str list" where
  "follow s cur [] = cur"
| "follow s cur (c # cs) =
     (if c \<noteq> ''..'' then follow s (cur @ [c]) cs
      else if cur = [] \<or> cur \<notin> dirs s then cur @ c # cs
      else follow s (butlast cur) cs)"

definition session_dir :: "disk \<Rightarrow> str \<Rightarrow> str list" where
  "session_dir s i = (if starts_with ''/'' i then ''/'' # path_parts i else follow s [''uploads''] (path_parts i))"

text \<open>The place of an id without \<open>..\<close> components that does not start with a slash.\<close>

definition plain_id :: "str \<Rightarrow> bool" where
  "plain_id i \<longleftrightarrow> \<not> starts_with ''/'' i \<and> ''..'' \<notin> set (path_parts i)"

definition session_place :: "str \<Rightarrow> str list" where
  "session_place i = ''uploads'' # path_parts i"

lemma follow_plain: "''..'' \<notin> set cs \<Longrightarrow> follow s cur cs = cur @ cs"
  by (induction cs arbitrary: cur) auto

lemma session_dir_plain: "plain_id i \<Longrightarrow> session_dir s i = session_place i"
  by (simp add: session_dir_def plain_id_def session_place_def follow_plain)

definition ALPHA :: str where
  "ALPHA = ''ABCDEFGHIJKLMNOPQRSTUVWXYZabcdefghijklmnopqrstuvwxyz0123456789''"

definition generate_id :: "bytes \<Rightarrow> str" where
  "generate_id rnd = map (\<lambda>b. ALPHA ! (byte_val b mod length ALPHA)) rnd"

definition load_state :: "ext \<Rightarrow> disk \<Rightarrow> str \<Rightarrow> session_state result" where
  "load_state E s i =
     bind_res (read_file s (session_dir s i @ [''state.toml''])) (\<lambda>r.
     bind_res (ok_or (NotFound (''upload session '' @ i)) r) (session_parse E))"

definition upload_open :: "ext \<Rightarrow> nat \<Rightarrow> bytes \<Rightarrow> str \<Rightarrow> nat \<Rightarrow> upload_handle op" where
  "upload_open E default_chunk_size rnd now n =
     bind_op (create_dir [''uploads'']) (\<lambda>_.
     let i = generate_id rnd in
     bind_op (reads (\<lambda>s. Ok (session_dir s i))) (\<lambda>dir.
     bind_op (create_dir dir) (\<lambda>_.
     bind_op (lift_res (session_serialize E
        \<lparr>ss_id = i, declared_size = n, ss_path = None, created_at = now,
         chunk_size_bytes = default_chunk_size\<rparr>)) (\<lambda>body.
     bind_op (write_file (dir @ [''state.toml'']) body) (\<lambda>_.
     ret \<lparr>upload_id = i, uh_chunk_size = default_chunk_size\<rparr>)))))"

text \<open>The format \<open>{:020}\<close>.\<close>

definition pad20 :: "nat \<Rightarrow> str" where
  "pad20 n = replicate (20 - length (show_nat n)) (CHR ''0'') @ show_nat n"

definition chunk_name :: "nat \<Rightarrow> str" where
  "chunk_name off = ''chunk.'' @ pad20 off"

definition checked_add :: "nat \<Rightarrow> nat \<Rightarrow> nat option" where
  "checked_add a b = (if a + b \<le> U64_MAX then Some (a + b) else None)"

definition write_chunk :: "ext \<Rightarrow> str \<Rightarrow> nat \<Rightarrow> bytes \<Rightarrow> unit op" where
  "write_chunk E i off bs s =
     (let dir = session_dir s i in
      if dir \<notin> dirs s then (Err (NotFound (''upload session '' @ i)), s)
      else bind_op (reads (\<lambda>s. load_state E s i)) (\<lambda>st.
        if (case checked_add off (length bs) of Some end_off \<Rightarrow> end_off > declared_size st | None \<Rightarrow> True)
        then raise (InvalidPath (''upload '' @ i @ '': chunk overflows declared size''))
        else write_file (dir @ [chunk_name off]) bs) s)"

text \<open>The names of the chunk files, with the offsets they encode.\<close>

definition add_chunk :: "str \<Rightarrow> (nat \<times> str) list \<Rightarrow> str \<Rightarrow> (nat \<times> str) list result" where
  "add_chunk i chunks name =
     (case strip_prefix ''chunk.'' name of
        None \<Rightarrow> Ok chunks
      | Some rest \<Rightarrow> bind_res (ok_or (Corrupt (''upload '' @ i @ '': bad chunk name '' @ name)) (parse_uint U64_MAX rest))
          (\<lambda>off. Ok (chunks @ [(off, name)])))"

definition splice :: "disk \<Rightarrow> str \<Rightarrow> bytes \<times> nat \<Rightarrow> nat \<times> str \<Rightarrow> (bytes \<times> nat) result" where
  "splice s i = (\<lambda>(buf, cursor) (off, name).
     if off \<noteq> cursor then Err (Corrupt (''upload '' @ i @ '': chunk gap''))
     else bind_res (read_file s (session_dir s i @ [name])) (\<lambda>r.
       bind_res (ok_or (Io ''open'' ''not found'') r) (\<lambda>bs.
       Ok (buf @ bs, cursor + length bs))))"

definition assemble :: "ext \<Rightarrow> listing \<Rightarrow> disk \<Rightarrow> str \<Rightarrow> bytes result" where
  "assemble E ls s i =
     (let dir = session_dir s i in
      if dir \<notin> dirs s then Err (NotFound (''upload session '' @ i))
      else bind_res (load_state E s i) (\<lambda>st.
        bind_res (try_fold (add_chunk i) [] (ls s dir)) (\<lambda>chunks.
        bind_res (try_fold (splice s i) ([], 0) (sort_key fst chunks)) (\<lambda>(buf, cursor).
        if cursor \<noteq> declared_size st then Err (Corrupt (''upload '' @ i @ '': assembled size differs from declared''))
        else Ok buf))))"

definition upload_remove :: "str \<Rightarrow> unit op" where
  "upload_remove i s =
     (let dir = session_dir s i in
      if \<not> path_exists s dir then (Ok (), s) else remove_dir_all dir s)"

text \<open>Times are nanoseconds since the epoch; \<open>whole_seconds\<close> rounds towards zero.\<close>

definition whole_seconds :: "int \<Rightarrow> int" where
  "whole_seconds d = sgn d * (\<bar>d\<bar> div 1000000000)"

definition is_stale :: "ext \<Rightarrow> (str \<Rightarrow> int option) \<Rightarrow> int \<Rightarrow> nat \<Rightarrow> disk \<Rightarrow> str \<Rightarrow> bool" where
  "is_stale E parse_time now ttl_hours s name =
     (case read_file s [''uploads'', name, ''state.toml''] of
        Inr (Some bs) \<Rightarrow>
          (case session_parse E bs of
             Inr st \<Rightarrow> (case parse_time (created_at st) of
                 Some created \<Rightarrow> whole_seconds (now - created) > int ttl_hours * 3600
               | None \<Rightarrow> True)
           | Inl _ \<Rightarrow> True)
      | _ \<Rightarrow> True)"

fun reap_loop :: "ext \<Rightarrow> (str \<Rightarrow> int option) \<Rightarrow> int \<Rightarrow> nat \<Rightarrow> str list \<Rightarrow> nat \<Rightarrow> nat op" where
  "reap_loop E parse_time now ttl [] reaped = ret reaped"
| "reap_loop E parse_time now ttl (name # names) reaped = (\<lambda>s.
     if [''uploads'', name] \<notin> dirs s then reap_loop E parse_time now ttl names reaped s
     else if is_stale E parse_time now ttl s name
     then bind_op (upload_remove name) (\<lambda>_. reap_loop E parse_time now ttl names (reaped + 1)) s
     else reap_loop E parse_time now ttl names reaped s)"

definition reap_stale :: "ext \<Rightarrow> listing \<Rightarrow> (str \<Rightarrow> int option) \<Rightarrow> int \<Rightarrow> nat \<Rightarrow> nat op" where
  "reap_stale E ls parse_time now ttl s =
     (if [''uploads''] \<notin> dirs s then (Ok 0, s)
      else reap_loop E parse_time now ttl (ls s [''uploads'']) 0 s)"

section \<open>What a session holds\<close>

lemma plain_id_chars:
  assumes "CHR ''/'' \<notin> set i" "CHR ''.'' \<notin> set i"
  shows "plain_id i"
proof -
  have "path_parts i = (if i = [] \<or> i = ''.'' then [] else [i])"
    using assms(1) by (simp add: path_parts_def split_on_notin)
  then show ?thesis using assms by (cases i) (auto simp: plain_id_def starts_with_def)
qed

lemma generate_id_plain: "plain_id (generate_id rnd)"
proof (rule plain_id_chars)
  have "length ALPHA = 62" by (simp add: ALPHA_def)
  then have "set (generate_id rnd) \<subseteq> set ALPHA" by (auto simp: generate_id_def intro!: nth_mem)
  moreover have "CHR ''/'' \<notin> set ALPHA" "CHR ''.'' \<notin> set ALPHA" by (simp_all add: ALPHA_def)
  ultimately show "CHR ''/'' \<notin> set (generate_id rnd)" "CHR ''.'' \<notin> set (generate_id rnd)" by blast+
qed

text \<open>The text of a document reads back as a document with the same entries.\<close>

definition toml_reads :: "ext \<Rightarrow> toml_table \<Rightarrow> bool" where
  "toml_reads E doc \<longleftrightarrow> utf8_valid (toml_show E doc) \<and>
     (\<exists>d. toml_parse E (toml_show E doc) = Inr d \<and> map_of d = map_of doc)"

lemma session_of_to_doc: "map_of d = map_of (session_to_doc st) \<Longrightarrow> session_of_doc d = Some st"
  by (cases "ss_path st")
    (simp_all add: session_of_doc_def session_to_doc_def get_str_def get_u64_def get_opt_str_def item_as_str_def)

lemma session_parse_serialize:
  assumes "session_serialize E st = Ok b" "toml_reads E (session_to_doc st)"
  shows "session_parse E b = Ok st"
proof -
  have "b = toml_show E (session_to_doc st)" using assms(1) by (simp add: session_serialize_def split: if_splits)
  then show ?thesis using assms(2) session_of_to_doc by (auto simp: session_parse_def toml_reads_def)
qed

lemma parse_digits_zeros: "parse_digits mx 0 (replicate k (CHR ''0'') @ s) = parse_digits mx 0 s"
  by (induction k) (simp_all add: digit_val_def)

lemma parse_pad20: "n \<le> U64_MAX \<Longrightarrow> parse_uint U64_MAX (pad20 n) = Some n"
proof (cases "20 - length (show_nat n)")
  case 0
  then show "n \<le> U64_MAX \<Longrightarrow> ?thesis" by (simp add: pad20_def parse_uint_show_nat)
next
  case (Suc k)
  then have "parse_uint U64_MAX (pad20 n) = parse_digits U64_MAX 0 (replicate (Suc k) (CHR ''0'') @ show_nat n)"
    by (simp add: pad20_def parse_uint_def)
  then show "n \<le> U64_MAX \<Longrightarrow> ?thesis" by (simp only: parse_digits_zeros parse_digits_show_nat if_True)
qed

lemma chunk_name_eq: "m \<le> U64_MAX \<Longrightarrow> n \<le> U64_MAX \<Longrightarrow> chunk_name m = chunk_name n \<longleftrightarrow> m = n"
  using parse_pad20 by (metis append_same_eq append.assoc chunk_name_def option.inject same_append_eq)

lemma chunk_name_state [simp]: "chunk_name n \<noteq> ''state.toml''" "''state.toml'' \<noteq> chunk_name n"
  by (simp_all add: chunk_name_def)

text \<open>The chunks that have arrived, by offset.\<close>

type_synonym chunk_view = "nat \<Rightarrow> bytes option"

definition session_ok :: "ext \<Rightarrow> disk \<Rightarrow> str \<Rightarrow> session_state \<Rightarrow> chunk_view \<Rightarrow> bool" where
  "session_ok E s i st view \<longleftrightarrow>
     plain_id i \<and> session_place i \<in> dirs s \<and> (\<forall>q. prefix q (session_place i) \<longrightarrow> files s q = None) \<and>
     (\<forall>n. session_place i @ [n] \<notin> dirs s) \<and>
     (\<exists>b. files s (session_place i @ [''state.toml'']) = Some b \<and> session_parse E b = Ok st) \<and>
     finite (dom view) \<and> dom view \<subseteq> {..U64_MAX} \<and>
     (\<forall>n. n \<noteq> ''state.toml'' \<longrightarrow> files s (session_place i @ [n]) \<noteq> None \<longrightarrow> n \<in> chunk_name ` dom view) \<and>
     (\<forall>off \<le> U64_MAX. files s (session_place i @ [chunk_name off]) = view off)"

lemma session_ok_dir [simp]: "session_ok E s i st view \<Longrightarrow> session_dir s' i = session_place i"
  by (simp add: session_ok_def session_dir_plain)

lemma session_read:
  assumes "session_ok E s i st view"
  shows "read_file s (session_place i @ [n]) = Ok (files s (session_place i @ [n]))"
  using assms by (auto simp: session_ok_def read_file_def list_ex_iff)

lemma session_load: "session_ok E s i st view \<Longrightarrow> load_state E s i = Ok st"
  by (auto simp: load_state_def session_read) (auto simp: session_ok_def)

lemma session_names:
  assumes "session_ok E s i st view"
  shows "dir_names s (session_place i) = insert ''state.toml'' (chunk_name ` dom view)"
  using assms by (fastforce simp: dir_names_def path_exists_def session_ok_def)

lemma write_chunk_ok:
  assumes "session_ok E s i st view" "off + length bs \<le> declared_size st" "declared_size st \<le> U64_MAX"
  shows "\<exists>s'. write_chunk E i off bs s = (Ok (), s') \<and> session_ok E s' i st (view(off \<mapsto> bs)) \<and>
    dirs s' = dirs s \<and> puts s' = puts s \<and> (\<forall>p. \<not> prefix (session_place i) p \<longrightarrow> files s' p = files s p)"
proof -
  let ?p = "session_place i @ [chunk_name off]"
  let ?s = "s\<lparr>files := (files s)(?p \<mapsto> bs)\<rparr>"
  have off: "off \<le> U64_MAX" using assms(2,3) by simp
  have "write_chunk E i off bs s = (Ok (), ?s)"
    using assms session_load [OF assms(1)] session_ok_dir [OF assms(1)]
    by (simp add: write_chunk_def checked_add_def session_ok_def bind_op_def write_file_def not_less)
  moreover have "session_ok E ?s i st (view(off \<mapsto> bs))"
  proof -
    have "files ?s (session_place i @ [chunk_name o']) = (view(off \<mapsto> bs)) o'" if "o' \<le> U64_MAX" for o'
      using assms(1) that off by (simp add: session_ok_def chunk_name_eq)
    moreover have "files ?s q = None" if "prefix q (session_place i)" for q
      using assms(1) that by (auto simp: session_ok_def)
    ultimately show ?thesis using assms(1) off by (auto simp: session_ok_def)
  qed
  ultimately show ?thesis by (auto simp: prefix_def)
qed

text \<open>A list of pieces laid end to end, and when chunks are such a list.\<close>

fun place :: "nat \<Rightarrow> bytes list \<Rightarrow> (nat \<times> bytes) list" where
  "place off [] = []"
| "place off (b # bs) = (off, b) # place (off + length b) bs"

definition tiles :: "chunk_view \<Rightarrow> bytes \<Rightarrow> bool" where
  "tiles view buf \<longleftrightarrow> (\<exists>bs. buf = concat bs \<and> distinct (map fst (place 0 bs)) \<and> view = map_of (place 0 bs))"

lemma place_ge: "(k, b) \<in> set (place off bs) \<Longrightarrow> off \<le> k \<and> k + length b \<le> off + length (concat bs)"
  by (induction bs arbitrary: off) force+

lemma place_sorted: "sorted (map fst (place off bs))"
  by (induction bs arbitrary: off) (fastforce dest: place_ge)+

lemma place_values: "map snd (place off bs) = bs"
  by (induction bs arbitrary: off) simp_all

section \<open>Reassembly\<close>

lemma add_chunk_names:
  assumes "\<forall>n \<in> set ns. n = ''state.toml'' \<or> n \<in> chunk_name ` {..U64_MAX}"
  shows "\<exists>cs. try_fold (add_chunk i) acc ns = Ok (acc @ cs) \<and>
     map snd cs = filter (\<lambda>n. n \<noteq> ''state.toml'') ns \<and>
     (\<forall>(off, n) \<in> set cs. n = chunk_name off \<and> off \<le> U64_MAX)"
  using assms
proof (induction ns arbitrary: acc)
  case (Cons n ns)
  show ?case
  proof (cases "n = ''state.toml''")
    case True
    then have "add_chunk i acc n = Ok acc" by (simp add: add_chunk_def strip_prefix_def)
    then show ?thesis using Cons.IH [of acc] Cons.prems True by auto
  next
    case False
    then obtain off where off: "n = chunk_name off" "off \<le> U64_MAX" using Cons.prems by auto
    then have "add_chunk i acc n = Ok (acc @ [(off, n)])"
      using strip_prefix_append [of "''chunk.''" "pad20 off"] by (simp add: add_chunk_def chunk_name_def parse_pad20)
    moreover obtain cs where "try_fold (add_chunk i) (acc @ [(off, n)]) ns = Ok ((acc @ [(off, n)]) @ cs)"
      "map snd cs = filter (\<lambda>n. n \<noteq> ''state.toml'') ns" "\<forall>(off, n) \<in> set cs. n = chunk_name off \<and> off \<le> U64_MAX"
      using Cons.IH [of "acc @ [(off, n)]"] Cons.prems by auto
    ultimately show ?thesis using off by (intro exI [of _ "(off, n) # cs"]) simp
  qed
qed simp

lemma named_pairs: "\<forall>(off, n) \<in> set cs. n = f off \<and> P off \<Longrightarrow> cs = map (\<lambda>off. (off, f off)) (map fst cs)"
  by (induction cs) auto

lemma session_chunks:
  assumes "session_ok E s i st view" "listing_ok ls"
  shows "\<exists>cs. try_fold (add_chunk i) [] (ls s (session_place i)) = Ok cs \<and>
     sort_key fst cs = map (\<lambda>off. (off, chunk_name off)) (sorted_list_of_set (dom view))"
proof -
  let ?ns = "ls s (session_place i)"
  have fin: "finite (dom view)" and dom: "dom view \<subseteq> {..U64_MAX}" using assms(1) by (auto simp: session_ok_def)
  have ns: "distinct ?ns" "set ?ns = insert ''state.toml'' (chunk_name ` dom view)"
    using assms(2) fin session_names [OF assms(1)] by (auto simp: listing_ok_def)
  then obtain cs where cs: "try_fold (add_chunk i) [] ?ns = Ok cs"
      "map snd cs = filter (\<lambda>n. n \<noteq> ''state.toml'') ?ns"
      "\<forall>(off, n) \<in> set cs. n = chunk_name off \<and> off \<le> U64_MAX"
    using add_chunk_names [of ?ns i "[]"] dom by (force simp: image_iff)
  have "map snd cs = map chunk_name (map fst cs)" using cs(3) by auto
  then have names: "map chunk_name (map fst cs) = filter (\<lambda>n. n \<noteq> ''state.toml'') ?ns" using cs(2) by simp
  have "distinct (map chunk_name (map fst cs))" unfolding names using ns(1) by simp
  then have distinct: "distinct (map fst cs)" by (rule distinct_map [THEN iffD1, THEN conjunct1])
  have "set (map chunk_name (map fst cs)) = set ?ns - {''state.toml''}" unfolding names by auto
  then have "chunk_name ` set (map fst cs) = chunk_name ` dom view"
    unfolding ns(2) set_map [of chunk_name] by (simp add: insert_Diff_if image_iff)
  moreover have "inj_on chunk_name {..U64_MAX}" by (auto intro: inj_onI simp: chunk_name_eq)
  moreover have "set (map fst cs) \<subseteq> {..U64_MAX}" using cs(3) by auto
  ultimately have set: "set (map fst cs) = dom view" using dom by (simp add: inj_on_image_eq_iff)
  let ?sorted = "sort_key fst cs"
  have "sorted (map fst ?sorted)" by simp
  moreover have "distinct (map fst ?sorted)" using distinct by (simp add: distinct_map)
  ultimately have offs: "map fst ?sorted = sorted_list_of_set (dom view)"
    using set by (metis set_map set_sort sorted_list_of_set.idem_if_sorted_distinct)
  have "?sorted = map (\<lambda>off. (off, chunk_name off)) (map fst ?sorted)"
    by (rule named_pairs [where P = "\<lambda>off. off \<le> U64_MAX"]) (use cs(3) in simp)
  then show ?thesis using cs(1) unfolding offs by blast
qed

lemma splice_place:
  assumes "session_ok E s i st view" "\<forall>(k, b) \<in> set (place off bs). view k = Some b" "off + length (concat bs) \<le> U64_MAX"
  shows "try_fold (splice s i) (buf, off) (map (\<lambda>(off, b). (off, chunk_name off)) (place off bs)) =
    Ok (buf @ concat bs, off + length (concat bs))"
  using assms(2,3)
proof (induction bs arbitrary: off buf)
  case (Cons b bs)
  then have "files s (session_place i @ [chunk_name off]) = Some b"
    using assms(1) by (auto simp: session_ok_def)
  then have "splice s i (buf, off) (off, chunk_name off) = Ok (buf @ b, off + length b)"
    using session_read [OF assms(1)] session_ok_dir [OF assms(1)] by (simp add: splice_def)
  then show ?case using Cons.IH [of "off + length b" "buf @ b"] Cons.prems by simp
qed simp

lemma splice_places:
  assumes "session_ok E s i st view" "set offs \<subseteq> dom view"
    and "try_fold (splice s i) (buf, off) (map (\<lambda>off. (off, chunk_name off)) offs) = Ok (buf', cur)"
  shows "\<exists>bs. place off bs = map (\<lambda>off. (off, the (view off))) offs \<and> buf' = buf @ concat bs \<and>
    cur = off + length (concat bs)"
  using assms(2,3)
proof (induction offs arbitrary: buf off)
  case (Cons k ks)
  have "k \<le> U64_MAX" using assms(1) Cons.prems(1) by (auto simp: session_ok_def)
  then have b: "files s (session_place i @ [chunk_name k]) = Some (the (view k))"
    using assms(1) Cons.prems(1) by (auto simp: session_ok_def)
  with Cons.prems(2) have k: "k = off"
    "try_fold (splice s i) (buf @ the (view k), off + length (the (view k))) (map (\<lambda>off. (off, chunk_name off)) ks) = Ok (buf', cur)"
    using session_read [OF assms(1)] session_ok_dir [OF assms(1)] by (auto simp: splice_def split: if_splits)
  then obtain bs where "place (off + length (the (view k))) bs = map (\<lambda>off. (off, the (view off))) ks"
    "buf' = (buf @ the (view k)) @ concat bs" "cur = off + length (the (view k)) + length (concat bs)"
    using Cons.IH [of "buf @ the (view k)" "off + length (the (view k))"] Cons.prems(1) by auto
  then show ?case using k(1) by (intro exI [of _ "the (view k) # bs"]) simp
qed (auto intro: exI [of _ "[]"])

lemma assemble_result:
  assumes "session_ok E s i st view" "listing_ok ls" "declared_size st \<le> U64_MAX"
  shows "assemble E ls s i = Ok buf \<longleftrightarrow> tiles view buf \<and> length buf = declared_size st"
proof -
  obtain cs where cs: "try_fold (add_chunk i) [] (ls s (session_place i)) = Ok cs"
    "sort_key fst cs = map (\<lambda>off. (off, chunk_name off)) (sorted_list_of_set (dom view))"
    using session_chunks [OF assms(1,2)] by blast
  have fin: "finite (dom view)" and dir: "session_place i \<in> dirs s" using assms(1) by (auto simp: session_ok_def)
  let ?loop = "try_fold (splice s i) ([], 0) (map (\<lambda>off. (off, chunk_name off)) (sorted_list_of_set (dom view)))"
  have run: "assemble E ls s i = bind_res ?loop (\<lambda>(buf, cursor).
      if cursor \<noteq> declared_size st then Err (Corrupt (''upload '' @ i @ '': assembled size differs from declared''))
      else Ok buf)"
    using dir cs session_load [OF assms(1)] session_ok_dir [OF assms(1)] by (simp add: assemble_def)
  show ?thesis
  proof
    assume "assemble E ls s i = Ok buf"
    then have "?loop = Ok (buf, declared_size st)" using run by (auto simp: res_simps split: if_splits)
    then obtain bs where bs: "place 0 bs = map (\<lambda>off. (off, the (view off))) (sorted_list_of_set (dom view))"
      "buf = concat bs" "declared_size st = length (concat bs)"
      using splice_places [OF assms(1), of "sorted_list_of_set (dom view)" "[]" 0] fin by auto
    have "map fst (place 0 bs) = sorted_list_of_set (dom view)" using bs(1) by (simp add: comp_def)
    moreover have "map_of (place 0 bs) = view"
    proof
      fix k show "map_of (place 0 bs) k = view k"
        using bs(1) fin by (cases "view k") (auto simp: map_of_map_restrict restrict_map_def domIff)
    qed
    ultimately show "tiles view buf \<and> length buf = declared_size st" using bs by (auto simp: tiles_def)
  next
    assume R: "tiles view buf \<and> length buf = declared_size st"
    then obtain bs where bs: "buf = concat bs" "distinct (map fst (place 0 bs))" "view = map_of (place 0 bs)"
      by (auto simp: tiles_def)
    have "dom view = set (map fst (place 0 bs))" using bs(3) by (simp add: dom_map_of_conv_image_fst)
    then have offs: "sorted_list_of_set (dom view) = map fst (place 0 bs)"
      using place_sorted bs(2) by (metis sorted_list_of_set.idem_if_sorted_distinct)
    have "\<forall>(k, b) \<in> set (place 0 bs). view k = Some b" using bs by auto
    from splice_place [OF assms(1) this] have "?loop = Ok (buf, length buf)"
      unfolding offs using bs(1) R assms(3) by (simp add: comp_def case_prod_unfold)
    then show "assemble E ls s i = Ok buf" using run R by simp
  qed
qed

lemma session_place_prefix: "prefix (session_place i) (session_place i @ p)" "\<not> prefix (session_place i @ [n]) (session_place i)"
  by (auto dest: prefix_length_le)

text \<open>Opening a session whose directory is new.\<close>

lemma upload_open_ok:
  fixes rnd :: bytes
  defines "i \<equiv> generate_id rnd"
  assumes "\<And>q. prefix q (session_place i) \<Longrightarrow> files s q = None"
    and "\<And>p. strict_prefix (session_place i) p \<Longrightarrow> \<not> path_exists s p"
    and "toml_reads E (session_to_doc \<lparr>ss_id = i, declared_size = n, ss_path = None, created_at = now, chunk_size_bytes = k\<rparr>)"
    and "n \<le> I64_MAX" "k \<le> I64_MAX"
  shows "\<exists>s'. upload_open E k rnd now n s = (Ok \<lparr>upload_id = i, uh_chunk_size = k\<rparr>, s') \<and>
    session_ok E s' i \<lparr>ss_id = i, declared_size = n, ss_path = None, created_at = now, chunk_size_bytes = k\<rparr> Map.empty \<and>
    puts s' = puts s \<and> (\<forall>p. \<not> prefix (session_place i) p \<longrightarrow> files s' p = files s p)"
proof -
  let ?st = "\<lparr>ss_id = i, declared_size = n, ss_path = None, created_at = now, chunk_size_bytes = k\<rparr>"
  let ?dir = "session_place i"
  let ?s1 = "s\<lparr>dirs := dirs s \<union> set (prefixes [''uploads''])\<rparr>"
  let ?s2 = "?s1\<lparr>dirs := dirs ?s1 \<union> set (prefixes ?dir)\<rparr>"
  let ?s3 = "?s2\<lparr>files := (files ?s2)(?dir @ [''state.toml''] \<mapsto> toml_show E (session_to_doc ?st))\<rparr>"
  have up: "prefix [''uploads''] ?dir" by (simp add: session_place_def)
  have ser: "session_serialize E ?st = Ok (toml_show E (session_to_doc ?st))"
    using assms(5,6) by (simp add: session_serialize_def)
  have "create_dir [''uploads''] s = (Ok (), ?s1)"
    using assms(2) up by (auto simp: create_dir_def list_ex_iff dest: prefix_order.trans [OF _ up])
  moreover have "create_dir ?dir ?s1 = (Ok (), ?s2)"
    using assms(2) by (auto simp: create_dir_def list_ex_iff)
  moreover have new: "?dir @ [m] \<notin> dirs ?s2" for m
  proof -
    have "strict_prefix ?dir (?dir @ [m])" by (simp add: strict_prefix_def)
    then have "?dir @ [m] \<notin> dirs s" using assms(3) by (auto simp: path_exists_def)
    then show ?thesis using up session_place_prefix(2) [of i m] by (auto dest: prefix_order.trans)
  qed
  then have "write_file (?dir @ [''state.toml'']) (toml_show E (session_to_doc ?st)) ?s2 = (Ok (), ?s3)"
    by (simp add: write_file_def)
  ultimately have "upload_open E k rnd now n s = (Ok \<lparr>upload_id = i, uh_chunk_size = k\<rparr>, ?s3)"
    using ser session_dir_plain [OF generate_id_plain, of _ rnd]
    by (simp add: upload_open_def i_def [symmetric] bind_op_def Let_def)
  moreover have "session_ok E ?s3 i ?st Map.empty"
    unfolding session_ok_def
  proof (intro conjI allI impI)
    show "plain_id i" unfolding i_def by (rule generate_id_plain)
    show "\<exists>b. files ?s3 (?dir @ [''state.toml'']) = Some b \<and> session_parse E b = Ok ?st"
      using session_parse_serialize [OF ser assms(4)] by simp
    show "files ?s3 q = None" if "prefix q ?dir" for q
      using that assms(2) session_place_prefix(2) by auto
    show "?dir @ [m] \<notin> dirs ?s3" for m using new by simp
    have none: "files s (?dir @ [m]) = None" for m
      using assms(3) [of "?dir @ [m]"] by (simp add: path_exists_def strict_prefix_def)
    show "files ?s3 (?dir @ [chunk_name off]) = None" for off using none by simp
    show "m \<in> chunk_name ` dom Map.empty" if "m \<noteq> ''state.toml''" "files ?s3 (?dir @ [m]) \<noteq> None" for m
      using that none by simp
  qed simp_all
  ultimately show ?thesis by (auto simp: session_place_prefix)
qed

section \<open>A whole upload\<close>

fun upload_writes :: "ext \<Rightarrow> str \<Rightarrow> (nat \<times> bytes) list \<Rightarrow> unit op" where
  "upload_writes E i [] = ret ()"
| "upload_writes E i ((off, bs) # ws) = bind_op (write_chunk E i off bs) (\<lambda>_. upload_writes E i ws)"

lemma upload_writes_ok:
  assumes "session_ok E s i st view" "declared_size st \<le> U64_MAX"
    and "list_all (\<lambda>(off, bs). off + length bs \<le> declared_size st) ws"
  shows "\<exists>s'. upload_writes E i ws s = (Ok (), s') \<and> session_ok E s' i st (view ++ map_of (rev ws)) \<and>
    puts s' = puts s \<and> (\<forall>p. \<not> prefix (session_place i) p \<longrightarrow> files s' p = files s p)"
  using assms(1,3)
proof (induction ws arbitrary: s view)
  case (Cons w ws)
  obtain off bs where w: "w = (off, bs)" by (cases w)
  obtain s1 where s1: "write_chunk E i off bs s = (Ok (), s1)" "session_ok E s1 i st (view(off \<mapsto> bs))"
    "puts s1 = puts s" "\<forall>p. \<not> prefix (session_place i) p \<longrightarrow> files s1 p = files s p"
    using write_chunk_ok [OF Cons.prems(1) _ assms(2), of off bs] Cons.prems(2) w by auto
  have view: "view(off \<mapsto> bs) ++ map_of (rev ws) = view ++ map_of (rev (w # ws))"
    by (simp add: w map_add_assoc [symmetric])
  obtain s2 where "upload_writes E i ws s1 = (Ok (), s2)" "session_ok E s2 i st (view(off \<mapsto> bs) ++ map_of (rev ws))"
    "puts s2 = puts s1" "\<forall>p. \<not> prefix (session_place i) p \<longrightarrow> files s2 p = files s1 p"
    using Cons.IH [OF s1(2)] list.pred_inject(2) Cons.prems(2) by metis
  then show ?case unfolding view using s1 w by (intro exI [of _ s2]) (simp add: bind_op_def)
qed simp

text \<open>
  C38. A file sent in pieces arrives: when a session is opened for the length of the
  file and requests write pieces in any order, repeated or overwritten ones included,
  so that the last piece at each offset belongs to one division of the file, then every
  request succeeds and reassembly returns the file. Nothing outside the session's
  directory changes.
\<close>

theorem upload_round_trip:
  fixes rnd :: bytes
  defines "i \<equiv> generate_id rnd"
  assumes "listing_ok ls" "length (concat bs) \<le> I64_MAX" "k \<le> I64_MAX"
    and "\<And>q. prefix q (session_place i) \<Longrightarrow> files s q = None"
    and "\<And>p. strict_prefix (session_place i) p \<Longrightarrow> \<not> path_exists s p"
    and "toml_reads E (session_to_doc \<lparr>ss_id = i, declared_size = length (concat bs), ss_path = None,
           created_at = now, chunk_size_bytes = k\<rparr>)"
    and "distinct (map fst (place 0 bs))" "map_of (rev ws) = map_of (place 0 bs)"
    and "list_all (\<lambda>(off, b). off + length b \<le> length (concat bs)) ws"
  shows "\<exists>s1 s2. upload_open E k rnd now (length (concat bs)) s = (Ok \<lparr>upload_id = i, uh_chunk_size = k\<rparr>, s1) \<and>
    upload_writes E i ws s1 = (Ok (), s2) \<and> assemble E ls s2 i = Ok (concat bs) \<and>
    (\<forall>p. \<not> prefix (session_place i) p \<longrightarrow> files s2 p = files s p)"
proof -
  let ?st = "\<lparr>ss_id = i, declared_size = length (concat bs), ss_path = None, created_at = now, chunk_size_bytes = k\<rparr>"
  have u64: "declared_size ?st \<le> U64_MAX" using assms(3) by (simp add: I64_MAX_def U64_MAX_def)
  obtain s1 where s1: "upload_open E k rnd now (length (concat bs)) s = (Ok \<lparr>upload_id = i, uh_chunk_size = k\<rparr>, s1)"
      "session_ok E s1 i ?st Map.empty" "\<forall>p. \<not> prefix (session_place i) p \<longrightarrow> files s1 p = files s p"
    using upload_open_ok [of rnd s E "length (concat bs)" now k] assms(3-7) unfolding i_def by blast
  obtain s2 where s2: "upload_writes E i ws s1 = (Ok (), s2)" "session_ok E s2 i ?st (map_of (place 0 bs))"
      "\<forall>p. \<not> prefix (session_place i) p \<longrightarrow> files s2 p = files s1 p"
    using upload_writes_ok [OF s1(2) u64, of ws] assms(9,10) by auto
  have "tiles (map_of (place 0 bs)) (concat bs)" using assms(8) by (auto simp: tiles_def)
  then have "assemble E ls s2 i = Ok (concat bs)" using assemble_result [OF s2(2) assms(2) u64] by simp
  then show ?thesis using s1 s2 by auto
qed

section \<open>Reaping\<close>

text \<open>Names of session directories: one path component.\<close>

definition plain_name :: "str \<Rightarrow> bool" where
  "plain_name n \<longleftrightarrow> n \<noteq> [] \<and> n \<noteq> ''.'' \<and> n \<noteq> ''..'' \<and> CHR ''/'' \<notin> set n"

lemma plain_name_id: "plain_name n \<Longrightarrow> plain_id n"
  by (cases n) (auto simp: plain_name_def plain_id_def path_parts_def starts_with_def split_on_notin)

lemma session_place_name: "plain_name n \<Longrightarrow> session_place n = [''uploads'', n]"
  by (simp add: session_place_def path_parts_def plain_name_def split_on_notin)

definition drop_sessions :: "str set \<Rightarrow> disk \<Rightarrow> disk" where
  "drop_sessions D s = s\<lparr>files := (\<lambda>p. if \<exists>n \<in> D. prefix [''uploads'', n] p then None else files s p),
     dirs := {p \<in> dirs s. \<not> (\<exists>n \<in> D. prefix [''uploads'', n] p)}\<rparr>"

lemma drop_sessions_empty: "drop_sessions {} s = s"
  by (simp add: drop_sessions_def)

lemma drop_sessions_Un: "drop_sessions D (drop_sessions C s) = drop_sessions (C \<union> D) s"
  by (rule disk.equality) (auto simp: drop_sessions_def fun_eq_iff)

lemma is_stale_drop:
  assumes "name \<notin> D"
  shows "is_stale E pt now ttl (drop_sessions D s) name = is_stale E pt now ttl s name"
proof -
  have "read_file (drop_sessions D s) [''uploads'', name, ''state.toml''] = read_file s [''uploads'', name, ''state.toml'']"
    using assms by (auto simp: read_file_def drop_sessions_def)
  then show ?thesis by (simp add: is_stale_def)
qed

lemma reap_loop_exact:
  assumes "distinct names" "\<forall>n \<in> set names. plain_name n"
  shows "reap_loop E pt now ttl names r s =
    (let D = {n \<in> set names. [''uploads'', n] \<in> dirs s \<and> is_stale E pt now ttl s n} in
     (Ok (r + card D), drop_sessions D s))"
  using assms
proof (induction names arbitrary: r s)
  case (Cons n names)
  let ?D = "\<lambda>ns s. {n \<in> set ns. [''uploads'', n] \<in> dirs s \<and> is_stale E pt now ttl s n}"
  show ?case
  proof (cases "[''uploads'', n] \<in> dirs s \<and> is_stale E pt now ttl s n")
    case True
    have "n \<notin> set names" using Cons.prems by simp
    then have D: "?D (n # names) s = insert n (?D names (drop_sessions {n} s))" "n \<notin> ?D names (drop_sessions {n} s)"
      using True is_stale_drop [of _ "{n}"] by (auto simp: drop_sessions_def)
    have "upload_remove n s = (Ok (), drop_sessions {n} s)"
      using True Cons.prems
      by (simp add: upload_remove_def session_dir_plain [OF plain_name_id] session_place_name path_exists_def remove_dir_all_def drop_sessions_def Let_def)
    then show ?thesis using Cons True D by (simp add: bind_op_def Let_def drop_sessions_Un card_insert_if)
  next
    case False
    then have "?D (n # names) s = ?D names s" by auto
    then show ?thesis using Cons False by auto
  qed
qed (simp add: drop_sessions_empty)

text \<open>
  Reaping removes exactly the sessions that are too old or whose state cannot be
  read, reports their number, and leaves every other session and everything outside the
  upload directory as it was.
\<close>

lemma reap_exact:
  assumes "listing_ok ls" "[''uploads''] \<in> dirs s" "finite (dir_names s [''uploads''])"
    and "\<forall>n \<in> dir_names s [''uploads'']. plain_name n"
  shows "let D = {n. [''uploads'', n] \<in> dirs s \<and> is_stale E pt now ttl s n} in
     reap_stale E ls pt now ttl s = (Ok (card D), drop_sessions D s)"
proof -
  have ns: "distinct (ls s [''uploads''])" "set (ls s [''uploads'']) = dir_names s [''uploads'']"
    using assms(1,3) by (auto simp: listing_ok_def)
  have "{n \<in> dir_names s [''uploads'']. [''uploads'', n] \<in> dirs s \<and> is_stale E pt now ttl s n} =
      {n. [''uploads'', n] \<in> dirs s \<and> is_stale E pt now ttl s n}"
    by (auto simp: dir_names_def path_exists_def)
  then show ?thesis
    using reap_loop_exact [OF ns(1), of E pt now ttl 0 s] assms(2,4) ns(2) by (simp add: reap_stale_def Let_def)
qed

section \<open>Instances\<close>

definition sample_session :: "nat \<Rightarrow> session_state" where
  "sample_session n = \<lparr>ss_id = generate_id (replicate 16 NUL), declared_size = n, ss_path = None,
     created_at = ''now'', chunk_size_bytes = 4096\<rparr>"

definition toml_ext :: "toml_table \<Rightarrow> ext" where
  "toml_ext doc = toy_ext\<lparr>toml_show := (\<lambda>_. ''t''), toml_parse := (\<lambda>_. Inr doc)\<rparr>"

lemma toml_ext_reads: "toml_reads (toml_ext doc) doc"
  by (simp add: toml_reads_def toml_ext_def is_ascii_def)

theorem upload_round_trip_witness:
  "\<exists>s1 s2 h. upload_open (toml_ext (session_to_doc (sample_session 11))) 4096 (replicate 16 NUL) ''now'' 11 empty_disk = (Ok h, s1) \<and>
     upload_writes (toml_ext (session_to_doc (sample_session 11))) (upload_id h)
       [(6, ''world''), (0, ''HELLO''), (0, ''hello '')] s1 = (Ok (), s2) \<and>
     assemble (toml_ext (session_to_doc (sample_session 11))) (\<lambda>s d. sorted_list_of_set (dir_names s d)) s2 (upload_id h) =
       Ok ''hello world''"
proof -
  let ?E = "toml_ext (session_to_doc (sample_session 11))"
  let ?i = "generate_id (replicate 16 NUL)"
  let ?ls = "\<lambda>s d. sorted_list_of_set (dir_names s d)"
  let ?bs = "[''hello '', ''world'']"
  let ?ws = "[(6, ''world''), (0, ''HELLO''), (0, ''hello '')]"
  have dir: "session_place ?i \<noteq> []" by (simp add: session_place_def)
  have "\<exists>s1 s2. upload_open ?E 4096 (replicate 16 NUL) ''now'' (length (concat ?bs)) empty_disk =
        (Ok \<lparr>upload_id = ?i, uh_chunk_size = 4096\<rparr>, s1) \<and>
      upload_writes ?E ?i ?ws s1 = (Ok (), s2) \<and> assemble ?E ?ls s2 ?i = Ok (concat ?bs) \<and>
      (\<forall>p. \<not> prefix (session_place ?i) p \<longrightarrow> files s2 p = files empty_disk p)"
  proof (rule upload_round_trip)
    show "listing_ok ?ls" by (rule listing_ok_sorted)
    show "toml_reads ?E (session_to_doc \<lparr>ss_id = ?i, declared_size = length (concat ?bs), ss_path = None,
        created_at = ''now'', chunk_size_bytes = 4096\<rparr>)"
      using toml_ext_reads [of "session_to_doc (sample_session 11)"] by (simp add: sample_session_def eval_nat_numeral)
    show "map_of (rev ?ws) = map_of (place 0 ?bs)" by (simp add: fun_eq_iff)
  qed (auto simp: I64_MAX_def empty_disk_def path_exists_def strict_prefix_def dir)
  moreover have "length (concat ?bs) = 11" "concat ?bs = ''hello world''" by simp_all
  ultimately obtain s1 s2 where "upload_open ?E 4096 (replicate 16 NUL) ''now'' 11 empty_disk =
        (Ok \<lparr>upload_id = ?i, uh_chunk_size = 4096\<rparr>, s1)"
      "upload_writes ?E ?i ?ws s1 = (Ok (), s2)" "assemble ?E ?ls s2 ?i = Ok ''hello world''"
    by metis
  then show ?thesis by (intro exI [of _ s1] exI [of _ s2] exI [of _ "\<lparr>upload_id = ?i, uh_chunk_size = 4096\<rparr>"]) simp
qed

definition two_sessions :: disk where
  "two_sessions = \<lparr>files = [[''uploads'', ''a'', ''state.toml''] \<mapsto> ''t''],
     dirs = {[], [''uploads''], [''uploads'', ''a''], [''uploads'', ''b'']}, puts = []\<rparr>"

lemma two_sessions_names: "dir_names two_sessions [''uploads''] = {''a'', ''b''}"
  by (auto simp: dir_names_def two_sessions_def path_exists_def)

end
