(* ===== verification/Omp_Ingest.thy ===== *)
theory Omp_Ingest
  imports Omp_Repo Omp_Chunks Omp_Uploads
begin

text \<open>
  \<open>crates/omp-core/src/api.rs\<close>, second part: how files come into a repository. Quotas, the
  configuration, schemas and probes in force, the manifest of a file, \<open>add\<close> for small and
  chunked files, \<open>patch_fields\<close> and the end of an upload session.
\<close>

section \<open>Quotas\<close>

definition bucket_usage :: "repo_env \<Rightarrow> disk \<Rightarrow> nat \<times> nat \<Rightarrow> str \<Rightarrow> nat \<times> nat" where
  "bucket_usage V s acc bucket =
     (if [''objects'', bucket] \<notin> dirs s then acc
      else foldl (\<lambda>(n, b) e. case files s [''objects'', bucket, e] of Some c \<Rightarrow> (n + 1, b + length c) | None \<Rightarrow> (n, b))
             acc (dir_listing V s [''objects'', bucket]))"

definition usage :: "repo_env \<Rightarrow> disk \<Rightarrow> (nat \<times> nat) result" where
  "usage V s =
     (if [''objects''] \<notin> dirs s then Ok (0, 0)
      else Ok (foldl (bucket_usage V s) (0, 0) (dir_listing V s [''objects''])))"

definition saturating_add :: "nat \<Rightarrow> nat \<Rightarrow> nat" where
  "saturating_add a b = min (a + b) U64_MAX"

definition over_quota :: "str \<Rightarrow> nat \<Rightarrow> nat \<Rightarrow> nat \<Rightarrow> omp_error" where
  "over_quota what cur incoming cap =
     QuotaExceeded (what @ '': '' @ show_nat cur @ '' + '' @ show_nat incoming @ '' > '' @ show_nat cap)"

definition check_quota_for_write :: "repo_env \<Rightarrow> disk \<Rightarrow> nat \<Rightarrow> nat \<Rightarrow> unit result" where
  "check_quota_for_write V s incoming_bytes incoming_objects =
     (let q = quotas_of V in
      if q_bytes q = None \<and> q_object_count q = None then Ok ()
      else bind_res (usage V s) (\<lambda>(cur_count, cur_bytes).
        bind_res (case q_bytes q of
            Some cap \<Rightarrow> if saturating_add cur_bytes incoming_bytes > cap then Err (over_quota ''bytes'' cur_bytes incoming_bytes cap) else Ok ()
          | None \<Rightarrow> Ok ()) (\<lambda>_.
        case q_object_count q of
          Some cap \<Rightarrow>
            if saturating_add cur_count incoming_objects > cap then Err (over_quota ''object_count'' cur_count incoming_objects cap) else Ok ()
        | None \<Rightarrow> Ok ())))"

section \<open>Configuration, schemas and probes in force\<close>

definition config_from_work :: "repo_env \<Rightarrow> repo_config result" where
  "config_from_work V =
     (case work_file V ''omp.toml'' of Some bs \<Rightarrow> config_parse (rx V) bs | None \<Rightarrow> Ok default_config)"

definition current_repo_config :: "repo_env \<Rightarrow> bytes option \<Rightarrow> disk \<Rightarrow> repo_config result" where
  "current_repo_config V pk s =
     bind_res (head_tree V s) (\<lambda>ro. case ro of
       None \<Rightarrow> config_from_work V
     | Some root \<Rightarrow>
         bind_res (get_at_with_key (rx V) pk s ''omp.toml'' root) (\<lambda>t. case t of
           Some (MBlob, h) \<Rightarrow>
             bind_res (disk_get (rx V) s h) (\<lambda>r. case r of
               Some (_, content) \<Rightarrow> config_parse (rx V) content
             | None \<Rightarrow> config_from_work V)
         | _ \<Rightarrow> config_from_work V))"

definition schema_bytes_at_head :: "repo_env \<Rightarrow> bytes option \<Rightarrow> disk \<Rightarrow> str \<Rightarrow> bytes option result" where
  "schema_bytes_at_head V pk s file_type =
     (let path = schema_path file_type in
      bind_res (head_tree V s) (\<lambda>ro. case ro of
        None \<Rightarrow> Ok (work_file V path)
      | Some root \<Rightarrow>
          bind_res (get_at_with_key (rx V) pk s path root) (\<lambda>t. case t of
            Some (MBlob, h) \<Rightarrow>
              bind_res (disk_get (rx V) s h) (\<lambda>r. case r of
                Some (_, content) \<Rightarrow> Ok (Some content)
              | None \<Rightarrow> Ok (work_file V path))
          | _ \<Rightarrow> Ok (work_file V path))))"

definition schema_file_type_from_tree_name :: "str \<Rightarrow> str option" where
  "schema_file_type_from_tree_name n =
     (case strip_suffix ''/schema.toml'' n of
        Some stem \<Rightarrow> if stem = [] \<or> CHR ''/'' \<in> set stem then None else Some stem
      | None \<Rightarrow> None)"

definition schema_file_type_from_path :: "str \<Rightarrow> str option" where
  "schema_file_type_from_path path =
     (case strip_prefix ''schemas/'' path of
        Some r \<Rightarrow> schema_file_type_from_tree_name r
      | None \<Rightarrow> None)"

abbreviation parse_schema :: "repo_env \<Rightarrow> bytes \<Rightarrow> str \<Rightarrow> schema result" where
  "parse_schema V \<equiv> schema_parse (rx V) (raw_schema_of V)"

text \<open>A schema of the tree replaces an earlier one of its type; one of the working tree only fills a gap.\<close>

definition tree_schema :: "repo_env \<Rightarrow> disk \<Rightarrow> (str, schema) btree \<Rightarrow> leaf \<Rightarrow> (str, schema) btree result" where
  "tree_schema V s out = (\<lambda>(n, m, h).
     if m \<noteq> MBlob then Ok out
     else case schema_file_type_from_tree_name n of None \<Rightarrow> Ok out
     | Some stem \<Rightarrow>
         bind_res (disk_get (rx V) s h) (\<lambda>r. case r of
           None \<Rightarrow> Ok out
         | Some (_, content) \<Rightarrow>
             (case parse_schema V content stem of
                Inr sch \<Rightarrow> Ok (bt_insert (s_file_type sch) sch out)
              | Inl _ \<Rightarrow> Ok out)))"

definition work_schema :: "repo_env \<Rightarrow> (str, schema) btree \<Rightarrow> str \<times> bytes \<Rightarrow> (str, schema) btree" where
  "work_schema V out = (\<lambda>(stem, bs).
     case parse_schema V bs stem of
       Inr sch \<Rightarrow> if bt_get out (s_file_type sch) = None then bt_insert (s_file_type sch) sch out else out
     | Inl _ \<Rightarrow> out)"

definition schemas_of_tree :: "repo_env \<Rightarrow> bytes option \<Rightarrow> disk \<Rightarrow> hash option \<Rightarrow> (str, schema) btree result" where
  "schemas_of_tree V pk s ro =
     (case ro of None \<Rightarrow> Ok []
      | Some root \<Rightarrow>
          bind_res (get_at_with_key (rx V) pk s ''schemas'' root) (\<lambda>t. case t of
            Some (MTree, sub) \<Rightarrow>
              bind_res (walk_tree_at V pk s sub) (\<lambda>es. try_fold (tree_schema V s) [] es)
          | _ \<Rightarrow> Ok []))"

definition load_all_schemas :: "repo_env \<Rightarrow> bytes option \<Rightarrow> disk \<Rightarrow> (str, schema) btree result" where
  "load_all_schemas V pk s =
     bind_res (head_tree V s) (\<lambda>ro.
     bind_res (schemas_of_tree V pk s ro) (\<lambda>out.
     Ok (foldl (work_schema V) out (work_schemas V))))"

definition list_schemas :: "repo_env \<Rightarrow> disk \<Rightarrow> str option \<Rightarrow> schema_summary list result" where
  "list_schemas V s at =
     bind_res (root_tree V s at) (\<lambda>ro.
     bind_res (schemas_of_tree V None s ro) (\<lambda>out.
     let all = (if at = None then foldl (work_schema V) out (work_schemas V) else out) in
     Ok (map (\<lambda>(_, sch). summary sch) all)))"

text \<open>The name of a probe stored at \<open>probes/<namespace>/<name>/probe.wasm\<close>: its two parts.\<close>

definition probe_name_rest :: "str \<Rightarrow> str option" where
  "probe_name_rest path =
     (case strip_prefix ''probes/'' path of
        None \<Rightarrow> None
      | Some rest \<Rightarrow>
          (case strip_suffix ''/probe.wasm'' rest of
             None \<Rightarrow> None
           | Some nr \<Rightarrow> if length (filter (\<lambda>c. c = CHR ''/'') nr) \<noteq> 1 then None else Some nr))"

definition dotted :: "str \<Rightarrow> str" where
  "dotted nr = map (\<lambda>c. if c = CHR ''/'' then CHR ''.'' else c) nr"

definition starter_probe :: "repo_env \<Rightarrow> (str \<rightharpoonup> probe_blob) \<Rightarrow> str \<times> bytes \<times> bytes \<Rightarrow> (str \<rightharpoonup> probe_blob) result" where
  "starter_probe V out = (\<lambda>(n, wasm, toml).
     bind_res (probe_manifest_parse (rx V) toml) (\<lambda>pm.
     Ok (out(n \<mapsto> \<lparr>pb_wasm = wasm, pb_framed_hash = hash_of (rx V) Blob wasm, pb_max_input_bytes = pm_max_input_bytes pm\<rparr>))))"

definition tree_probe ::
  "repo_env \<Rightarrow> disk \<Rightarrow> hash \<Rightarrow> (str \<rightharpoonup> probe_blob) \<Rightarrow> leaf \<Rightarrow> (str \<rightharpoonup> probe_blob) result" where
  "tree_probe V s root out = (\<lambda>(path, m, h).
     if m \<noteq> MBlob then Ok out
     else case probe_name_rest path of None \<Rightarrow> Ok out
     | Some nr \<Rightarrow>
         bind_res (get_at V s (''probes/'' @ nr @ ''/probe.toml'') root) (\<lambda>t. case t of
           Some (MBlob, mh) \<Rightarrow>
             if (case out (dotted nr) of Some existing \<Rightarrow> pb_framed_hash existing = h | None \<Rightarrow> False) then Ok out
             else bind_res (get_object V s (Corrupt (''probe blob '' @ hash_hex h @ '' missing from store'')) h) (\<lambda>(_, wasm).
               bind_res (get_object V s (Corrupt (''probe.toml blob '' @ hash_hex mh @ '' missing from store'')) mh) (\<lambda>(_, mb).
               bind_res (probe_manifest_parse (rx V) mb) (\<lambda>pm.
               Ok (out(dotted nr \<mapsto> \<lparr>pb_wasm = wasm, pb_framed_hash = h, pb_max_input_bytes = pm_max_input_bytes pm\<rparr>)))))
         | _ \<Rightarrow> Ok out))"

definition current_probes :: "repo_env \<Rightarrow> disk \<Rightarrow> (str \<rightharpoonup> probe_blob) result" where
  "current_probes V s =
     bind_res (try_fold (starter_probe V) Map.empty (starter_probes V)) (\<lambda>out.
     bind_res (root_tree V s None) (\<lambda>ro. case ro of
       None \<Rightarrow> Ok out
     | Some root \<Rightarrow>
         (case walk_tree_at V None s root of
            Inr es \<Rightarrow> try_fold (tree_probe V s root) out es
          | Inl (Unauthorized _) \<Rightarrow> Ok out
          | Inl e \<Rightarrow> Err e)))"

definition tree_probe_name :: "repo_env \<Rightarrow> disk \<Rightarrow> hash \<Rightarrow> str set \<Rightarrow> leaf \<Rightarrow> str set result" where
  "tree_probe_name V s root out = (\<lambda>(path, m, h).
     if m \<noteq> MBlob then Ok out
     else case probe_name_rest path of None \<Rightarrow> Ok out
     | Some nr \<Rightarrow>
         bind_res (get_at V s (''probes/'' @ nr @ ''/probe.toml'') root) (\<lambda>t. case t of
           Some (MBlob, _) \<Rightarrow> Ok (insert (dotted nr) out)
         | _ \<Rightarrow> Ok out))"

definition current_probe_names :: "repo_env \<Rightarrow> disk \<Rightarrow> str set result" where
  "current_probe_names V s =
     (let out = fst ` set (starter_probes V) in
      bind_res (root_tree V s None) (\<lambda>ro. case ro of
        None \<Rightarrow> Ok out
      | Some root \<Rightarrow>
          (case walk_tree_at V None s root of
             Inr es \<Rightarrow> try_fold (tree_probe_name V s root) out es
           | Inl (Unauthorized _) \<Rightarrow> Ok out
           | Inl e \<Rightarrow> Err e)))"

section \<open>The manifest of a file\<close>

definition sniff_prefix_of :: "bytes \<Rightarrow> bytes" where
  "sniff_prefix_of bs = take (8 * 1024) bs"

definition printable :: "char \<Rightarrow> bool" where
  "printable b \<longleftrightarrow> b = LF \<or> b = CR \<or> b = CHR 0x09 \<or> 0x20 \<le> byte_val b \<and> byte_val b < 0x7F \<or> byte_val b \<ge> 0x80"

definition looks_like_text :: "bytes \<Rightarrow> bool" where
  "looks_like_text bs =
     (if bs = [] then True
      else let sample = take 4096 bs in
        if NUL \<in> set sample then False
        else length (filter printable sample) * 100 div length sample \<ge> 95)"

definition sniff_mime :: "repo_env \<Rightarrow> bytes \<Rightarrow> str" where
  "sniff_mime V bs =
     (case infer_mime V bs of Some m \<Rightarrow> m
      | None \<Rightarrow> if looks_like_text bs then ''text/plain'' else ''application/octet-stream'')"

datatype chunked_ingest =
    NotChunked
  | Chunked (ci_source_hash: hash) (ci_file_size: nat) (ci_sha256_hex: str) (ci_sniff_prefix: bytes)

definition quoted :: "str \<Rightarrow> str" where
  "quoted s = CHR 0x22 # s @ [CHR 0x22]"

definition MINIMAL_SCHEMA :: bytes where
  "MINIMAL_SCHEMA = concat (map (\<lambda>l. l @ [LF])
     [''file_type = '' @ quoted ''_minimal'', ''mime_patterns = ['' @ quoted ''*/*'' @ '']'', [],
      ''[fields.byte_size]'', ''source = '' @ quoted ''probe'', ''probe = '' @ quoted ''file.size'',
      ''type = '' @ quoted ''int'', [],
      ''[fields.sha256]'', ''source = '' @ quoted ''probe'', ''probe = '' @ quoted ''file.sha256'',
      ''type = '' @ quoted ''string'', [],
      ''[fields.mime]'', ''source = '' @ quoted ''probe'', ''probe = '' @ quoted ''file.mime'',
      ''type = '' @ quoted ''string''])"

text \<open>The three ways \<open>build_manifest_with\<close> finds a schema.\<close>

definition proposed_schema :: "repo_env \<Rightarrow> str option \<Rightarrow> bytes \<Rightarrow> (schema \<times> bytes) result" where
  "proposed_schema V override_type proposed =
     (if \<not> utf8_valid proposed then Err (SchemaValidation ''proposed schema not UTF-8'')
      else bind_res (map_err (\<lambda>e. SchemaValidation (''proposed schema TOML: '' @ e)) (toml_parse (rx V) proposed)) (\<lambda>peek.
        bind_res (ok_or (SchemaValidation ''proposed schema lacks `file_type`'')
          (case Option.bind (map_of peek ''file_type'') item_as_str of Some t \<Rightarrow> Some t | None \<Rightarrow> override_type)) (\<lambda>stem.
        bind_res (parse_schema V proposed stem) (\<lambda>sch. Ok (sch, proposed)))))"

definition detected_schema :: "repo_env \<Rightarrow> bytes option \<Rightarrow> disk \<Rightarrow> schema \<Rightarrow> (schema \<times> bytes) result" where
  "detected_schema V pk s sch =
     bind_res (schema_bytes_at_head V pk s (s_file_type sch)) (\<lambda>r.
     bind_res (ok_or (Internal ''schema detected but blob missing'') r) (\<lambda>bs. Ok (sch, bs)))"

definition fallback_schema :: "repo_env \<Rightarrow> repo_config \<Rightarrow> str \<Rightarrow> (schema \<times> bytes) result" where
  "fallback_schema V cfg mime =
     (case schema_policy cfg of
        PReject \<Rightarrow> Err (IngestValidation (''no schema matches MIME type '' @ mime))
      | PMinimal \<Rightarrow> bind_res (parse_schema V MINIMAL_SCHEMA ''_minimal'') (\<lambda>sch. Ok (sch, MINIMAL_SCHEMA)))"

definition mime_of_ingest :: "repo_env \<Rightarrow> bytes \<Rightarrow> chunked_ingest \<Rightarrow> str" where
  "mime_of_ingest V bs ci = sniff_mime V (case ci of NotChunked \<Rightarrow> bs | Chunked _ _ _ p \<Rightarrow> p)"

definition choose_schema ::
  "repo_env \<Rightarrow> bytes option \<Rightarrow> disk \<Rightarrow> repo_config \<Rightarrow> str \<Rightarrow> str option \<Rightarrow> bytes option \<Rightarrow> (schema \<times> bytes) result"
where
  "choose_schema V pk s cfg mime override_type proposed =
     bind_res (load_all_schemas V pk s) (\<lambda>schemas.
     case proposed of
       Some p \<Rightarrow> proposed_schema V override_type p
     | None \<Rightarrow> (case detect_file_type override_type mime schemas of
           Some sch \<Rightarrow> detected_schema V pk s sch
         | None \<Rightarrow> fallback_schema V cfg mime))"

definition ingest_input_of ::
  "bytes \<Rightarrow> (str, field_value) btree \<Rightarrow> str \<Rightarrow> str \<Rightarrow> chunked_ingest \<Rightarrow> ingest_input"
where
  "ingest_input_of bs user path ingested_at ci =
     \<lparr>i_bytes = bs, i_user_fields = user, i_path = path, i_ingested_at = ingested_at,
      i_streaming = (case ci of NotChunked \<Rightarrow> None
        | Chunked _ n hex _ \<Rightarrow> Some \<lparr>file_sha256_hex = hex, file_size = n\<rparr>),
      i_content_length = (case ci of NotChunked \<Rightarrow> length bs | Chunked _ n _ _ \<Rightarrow> n),
      i_override_source_hash = (case ci of NotChunked \<Rightarrow> None | Chunked h _ _ _ \<Rightarrow> Some h)\<rparr>"

definition build_manifest_with ::
  "repo_env \<Rightarrow> disk \<Rightarrow> str \<Rightarrow> bytes \<Rightarrow> (str, field_value) btree \<Rightarrow> str option \<Rightarrow> bytes option \<Rightarrow> str \<Rightarrow>
   chunked_ingest \<Rightarrow> bytes option \<Rightarrow> manifest result"
where
  "build_manifest_with V s path bs user override_type proposed ingested_at ci pk =
     bind_res (current_repo_config V pk s) (\<lambda>cfg.
     bind_res (choose_schema V pk s cfg (mime_of_ingest V bs ci) override_type proposed) (\<lambda>(sch, schema_bytes).
     bind_res (current_probes V s) (\<lambda>probes.
     bind_res (validate_probe_refs sch (dom probes)) (\<lambda>_.
     ingest (rx V) (run_probe V) (args_json V) (ingest_input_of bs user path ingested_at ci)
       \<lparr>v_schema = sch, v_schema_blob = schema_bytes, v_probes = probes,
        v_limits = clamp_probe (quotas_of V) (cfg_probes cfg)\<rparr>))))"

definition build_manifest ::
  "repo_env \<Rightarrow> disk \<Rightarrow> str \<Rightarrow> bytes \<Rightarrow> (str, field_value) btree \<Rightarrow> str option \<Rightarrow> bytes option \<Rightarrow> str \<Rightarrow> manifest result"
where
  "build_manifest V s path bs user override_type proposed ingested_at =
     build_manifest_with V s path bs user override_type proposed ingested_at NotChunked None"

definition test_ingest ::
  "repo_env \<Rightarrow> disk \<Rightarrow> str \<Rightarrow> bytes \<Rightarrow> (str, field_value) btree option \<Rightarrow> bytes option \<Rightarrow> manifest result"
where
  "test_ingest V s path bs user proposed = build_manifest V s path bs (given user []) None proposed (now V)"

section \<open>Adding files\<close>

datatype add_result =
    AddManifest (ar_path: str) (ar_manifest_hash: hash) (ar_source_hash: hash)
  | AddBlob (ar_path: str) (ar_blob_hash: hash) (ar_size: nat)

text \<open>A manifest is stored and staged; every ingest ends with these steps.\<close>

definition put_manifest :: "repo_env \<Rightarrow> str \<Rightarrow> manifest \<Rightarrow> hash op" where
  "put_manifest V path m =
     bind_op (lift_res (manifest_serialize (rx V) m)) (\<lambda>mb.
     bind_op (disk_put (rx V) ''manifest'' mb) (\<lambda>mh.
     bind_op (stage_upsert V path mh) (\<lambda>_. ret mh)))"

text \<open>
  \<open>slice::chunks\<close>. It panics when the size is 0, which no configuration has
  (\<open>config_parse_bounds\<close>).
\<close>

function byte_chunks :: "nat \<Rightarrow> bytes \<Rightarrow> bytes list" where
  "byte_chunks n bs = (if bs = [] \<or> n = 0 then [] else take n bs # byte_chunks n (drop n bs))"
  by pat_completeness auto
termination by (relation "measure (\<lambda>(n, bs). length bs)") auto

declare byte_chunks.simps [simp del]

fun put_chunks :: "repo_env \<Rightarrow> bytes list \<Rightarrow> chunks_body \<Rightarrow> chunks_body op" where
  "put_chunks V [] entries = ret entries"
| "put_chunks V (b # bs) entries =
     bind_op (disk_put (rx V) ''blob'' b) (\<lambda>h.
     put_chunks V bs (entries @ [\<lparr>chunk_hash = h, chunk_length = of_nat (length b)\<rparr>]))"

definition add_chunked ::
  "repo_env \<Rightarrow> str \<Rightarrow> bytes \<Rightarrow> (str, field_value) btree option \<Rightarrow> str option \<Rightarrow> nat \<Rightarrow> add_result op"
where
  "add_chunked V path bs user override_type chunk_size =
     bind_op (put_chunks V (byte_chunks chunk_size bs) []) (\<lambda>entries.
     bind_op (disk_put (rx V) ''chunks'' (chunks_serialize entries)) (\<lambda>ch.
     bind_op (reads (\<lambda>s. build_manifest_with V s path [] (given user []) override_type None (now V)
        (Chunked ch (length bs) (hex_encode (sha256 (rx V) bs)) (sniff_prefix_of bs)) None)) (\<lambda>m.
     bind_op (put_manifest V path m) (\<lambda>mh.
     ret (AddManifest path mh ch)))))"

definition check_blob :: "repo_env \<Rightarrow> disk \<Rightarrow> str \<Rightarrow> bytes \<Rightarrow> unit result" where
  "check_blob V s path bs =
     (case schema_file_type_from_path path of
        Some stem \<Rightarrow>
          bind_res (parse_schema V bs stem) (\<lambda>sch.
          bind_res (current_probe_names V s) (\<lambda>names. validate_probe_refs sch names))
      | None \<Rightarrow> if path = ''omp.toml'' then bind_res (config_parse (rx V) bs) (\<lambda>_. Ok ()) else Ok ())"

definition add_blob :: "repo_env \<Rightarrow> str \<Rightarrow> bytes \<Rightarrow> add_result op" where
  "add_blob V path bs =
     bind_op (reads (\<lambda>s. check_blob V s path bs)) (\<lambda>_.
     bind_op (disk_put (rx V) ''blob'' bs) (\<lambda>h.
     bind_op (stage_upsert V path h) (\<lambda>_. ret (AddBlob path h (length bs)))))"

definition add_single ::
  "repo_env \<Rightarrow> str \<Rightarrow> bytes \<Rightarrow> (str, field_value) btree option \<Rightarrow> str option \<Rightarrow> add_result op"
where
  "add_single V path bs user override_type =
     bind_op (reads (\<lambda>s. build_manifest V s path bs (given user []) override_type None (now V))) (\<lambda>m.
     bind_op (disk_put (rx V) ''blob'' bs) (\<lambda>h.
     bind_op (put_manifest V path m) (\<lambda>mh.
     ret (AddManifest path mh h))))"

definition repo_add ::
  "repo_env \<Rightarrow> str \<Rightarrow> bytes \<Rightarrow> (str, field_value) btree option \<Rightarrow> str option \<Rightarrow> add_result op"
where
  "repo_add V path bs user override_type =
     bind_op (lift_res (validate_path path)) (\<lambda>_.
     bind_op (reads (\<lambda>s. check_quota_for_write V s (length bs) 1)) (\<lambda>_.
     if classify_path path = MBlob then add_blob V path bs
     else bind_op (reads (current_repo_config V None)) (\<lambda>cfg.
       if length bs \<ge> cfg_chunk_size cfg then add_chunked V path bs user override_type (cfg_chunk_size cfg)
       else add_single V path bs user override_type)))"

definition patch_fields :: "repo_env \<Rightarrow> str \<Rightarrow> (str, field_value) btree \<Rightarrow> manifest op" where
  "patch_fields V path updates =
     bind_op (lift_res (validate_path path)) (\<lambda>_.
     bind_op (reads (\<lambda>s. resolve_staged_or_head V s path)) (\<lambda>(m, h).
     if m \<noteq> MManifest then raise (InvalidPath (''path '' @ path @ '' is not a user file''))
     else bind_op (reads (\<lambda>s. get_object V s (NotFound (''manifest '' @ hash_hex h)) h)) (\<lambda>(_, content).
       bind_op (lift_res (manifest_parse (rx V) content)) (\<lambda>prev.
       bind_op (reads (\<lambda>s. get_object V s (NotFound (''blob '' @ hash_hex (m_source_hash prev))) (m_source_hash prev))) (\<lambda>(_, blob).
       bind_op (reads (\<lambda>s. build_manifest V s path blob (foldl (\<lambda>fs (k, v). bt_insert k v fs) (m_fields prev) updates)
          (Some (m_file_type prev)) None (now V))) (\<lambda>mf.
       bind_op (put_manifest V path mf) (\<lambda>_. ret mf)))))))"

section \<open>Upload sessions of a repository\<close>

definition manager_chunk_size :: "repo_env \<Rightarrow> disk \<Rightarrow> nat result" where
  "manager_chunk_size V s = bind_res (current_repo_config V None s) (\<lambda>cfg. Ok (cfg_chunk_size cfg))"

definition repo_upload_open :: "repo_env \<Rightarrow> bytes \<Rightarrow> nat \<Rightarrow> upload_handle op" where
  "repo_upload_open V rnd n =
     bind_op (reads (\<lambda>s. check_quota_for_write V s n 1)) (\<lambda>_.
     bind_op (reads (manager_chunk_size V)) (\<lambda>c.
     upload_open (rx V) c rnd (now V) n))"

definition repo_upload_write :: "repo_env \<Rightarrow> str \<Rightarrow> nat \<Rightarrow> bytes \<Rightarrow> unit op" where
  "repo_upload_write V i off bs =
     bind_op (reads (manager_chunk_size V)) (\<lambda>_. write_chunk (rx V) i off bs)"

definition upload_commit ::
  "repo_env \<Rightarrow> str \<Rightarrow> str \<Rightarrow> (str, field_value) btree option \<Rightarrow> str option \<Rightarrow> add_result op"
where
  "upload_commit V i path user override_type =
     bind_op (lift_res (validate_path path)) (\<lambda>_.
     bind_op (reads (manager_chunk_size V)) (\<lambda>_.
     bind_op (reads (\<lambda>s. assemble (rx V) (dir_listing V) s i)) (\<lambda>bs.
     bind_op (reads (manager_chunk_size V)) (\<lambda>chunk_size.
     if length bs \<ge> chunk_size then
       bind_op (add_chunked V path bs user override_type chunk_size) (\<lambda>r.
       bind_op (upload_remove i) (\<lambda>_. ret r))
     else repo_add V path bs user override_type))))"

definition upload_abort :: "repo_env \<Rightarrow> str \<Rightarrow> unit op" where
  "upload_abort V i =
     bind_op (reads (manager_chunk_size V)) (\<lambda>_.
     bind_op (reads (\<lambda>s. load_state (rx V) s i)) (\<lambda>_. upload_remove i))"

definition upload_gc :: "repo_env \<Rightarrow> (str \<Rightarrow> int option) \<Rightarrow> int \<Rightarrow> nat op" where
  "upload_gc V parse_time t =
     bind_op (reads (current_repo_config V None)) (\<lambda>cfg.
     bind_op (reads (manager_chunk_size V)) (\<lambda>_.
     reap_stale (rx V) (dir_listing V) parse_time t (cfg_upload_ttl_hours cfg)))"

section \<open>Bounds\<close>

lemma config_of_raw_chunk:
  assumes "config_of_raw r = Ok cfg"
  shows "0 < cfg_chunk_size cfg"
proof -
  from assms have "rc_chunk r \<noteq> Some 0"
    and "cfg_chunk_size cfg = given (rc_chunk r) (cfg_chunk_size default_config)"
    unfolding config_of_raw_def bind_res_eq_Inr Let_def by (auto split: if_splits)
  then show ?thesis by (cases "rc_chunk r") (auto simp: given_def default_config_def)
qed

lemma config_parse_bounds: "config_parse E bs = Ok cfg \<Longrightarrow> 0 < cfg_chunk_size cfg"
  unfolding config_parse_def
  by (auto simp: bind_res_eq_Inr default_config_def split: if_splits dest: config_of_raw_chunk)

lemma config_from_work_bounds: "config_from_work V = Ok cfg \<Longrightarrow> 0 < cfg_chunk_size cfg"
  unfolding config_from_work_def
  by (auto simp: default_config_def split: option.splits dest: config_parse_bounds)

lemma current_config_bounds:
  assumes "current_repo_config V pk s = Ok cfg"
  shows "0 < cfg_chunk_size cfg"
proof -
  have "config_from_work V = Ok cfg \<or> (\<exists>bs. config_parse (rx V) bs = Ok cfg)"
    using assms unfolding current_repo_config_def bind_res_eq_Inr
    by (elim exE conjE; auto simp: bind_res_eq_Inr split: option.split_asm prod.split_asm mode.split_asm)
      (metis mode.exhaust surj_pair not_None_eq)
  then show ?thesis using config_from_work_bounds config_parse_bounds by blast
qed

lemma byte_chunks_concat: "0 < n \<Longrightarrow> concat (byte_chunks n bs) = bs"
  by (induction n bs rule: byte_chunks.induct) (subst byte_chunks.simps, simp)

lemma byte_chunks_length: "b \<in> set (byte_chunks n bs) \<Longrightarrow> b \<noteq> [] \<and> length b \<le> n"
  by (induction n bs rule: byte_chunks.induct) (subst (asm) (2) byte_chunks.simps, auto split: if_splits)

section \<open>Usage\<close>

text \<open>The files that hold objects, and those of one bucket.\<close>

definition object_files :: "disk \<Rightarrow> str list set" where
  "object_files s = {p. length p = 3 \<and> take 1 p = [''objects''] \<and> files s p \<noteq> None}"

definition bucket_files :: "disk \<Rightarrow> str \<Rightarrow> str list set" where
  "bucket_files s b = {[''objects'', b, e] | e. files s [''objects'', b, e] \<noteq> None}"

definition stored_bytes :: "disk \<Rightarrow> str list set \<Rightarrow> nat" where
  "stored_bytes s F = (\<Sum>p\<in>F. length (the (files s p)))"

definition finite_disk :: "disk \<Rightarrow> bool" where
  "finite_disk s \<longleftrightarrow> finite (dom (files s)) \<and> finite (dirs s)"

lemma finite_dir_names: "finite_disk s \<Longrightarrow> finite (dir_names s d)"
proof -
  assume "finite_disk s"
  then have "finite (last ` (dom (files s) \<union> dirs s))" by (simp add: finite_disk_def)
  moreover have "dir_names s d \<subseteq> last ` (dom (files s) \<union> dirs s)"
  proof
    fix n assume "n \<in> dir_names s d"
    then have "d @ [n] \<in> dom (files s) \<union> dirs s" by (auto simp: dir_names_def path_exists_def)
    then show "n \<in> last ` (dom (files s) \<union> dirs s)" by (rule rev_image_eqI) simp
  qed
  ultimately show ?thesis by (rule finite_subset [rotated])
qed

lemma count_files:
  assumes "distinct es"
  shows "foldl (\<lambda>(n, b) e. case files s (d @ [e]) of Some c \<Rightarrow> (n + 1, b + length c) | None \<Rightarrow> (n, b)) (n, b) es =
    (n + card {d @ [e] | e. e \<in> set es \<and> files s (d @ [e]) \<noteq> None},
     b + stored_bytes s {d @ [e] | e. e \<in> set es \<and> files s (d @ [e]) \<noteq> None})"
  using assms
proof (induction es arbitrary: n b)
  case (Cons x es)
  let ?F = "\<lambda>es. {d @ [e] | e. e \<in> set es \<and> files s (d @ [e]) \<noteq> None}"
  have fin: "finite (?F es)" by simp
  show ?case
  proof (cases "files s (d @ [x])")
    case None
    then have "?F (x # es) = ?F es" by auto
    then show ?thesis using Cons None by simp
  next
    case (Some c)
    then have F: "?F (x # es) = insert (d @ [x]) (?F es)" by auto
    have new: "d @ [x] \<notin> ?F es" using Cons.prems by auto
    show ?thesis using Cons Some unfolding F by (simp add: stored_bytes_def new)
  qed
qed (simp add: stored_bytes_def)

lemma bucket_usage_eq:
  assumes "listing_ok (dir_listing V)" "finite_disk s" "fs_ok s"
  shows "bucket_usage V s (n, b) bucket = (n + card (bucket_files s bucket), b + stored_bytes s (bucket_files s bucket))"
proof (cases "[''objects'', bucket] \<in> dirs s")
  case True
  let ?d = "[''objects'', bucket]"
  have ls: "distinct (dir_listing V s ?d)" "set (dir_listing V s ?d) = dir_names s ?d"
    using assms(1) finite_dir_names [OF assms(2)] by (auto simp: listing_ok_def)
  have "{?d @ [e] | e. e \<in> set (dir_listing V s ?d) \<and> files s (?d @ [e]) \<noteq> None} = bucket_files s bucket"
    by (auto simp: ls(2) bucket_files_def dir_names_def path_exists_def)
  then show ?thesis using count_files [OF ls(1), of s ?d n b] True by (simp add: bucket_usage_def)
next
  case False
  then have "bucket_files s bucket = {}" using assms(3) by (fastforce simp: bucket_files_def fs_ok_def)
  then show ?thesis using False by (simp add: bucket_usage_def stored_bytes_def)
qed

lemma usage_fold:
  assumes "listing_ok (dir_listing V)" "finite_disk s" "fs_ok s" "distinct bs"
  shows "foldl (bucket_usage V s) (n, b) bs =
    (n + card (\<Union> (bucket_files s ` set bs)), b + stored_bytes s (\<Union> (bucket_files s ` set bs)))"
  using assms(4)
proof (induction bs arbitrary: n b)
  case (Cons x bs)
  have fin: "finite (bucket_files s y)" for y
    using assms(2) by (auto simp: finite_disk_def bucket_files_def domIff intro: finite_subset [of _ "dom (files s)"])
  have "bucket_files s x \<inter> \<Union> (bucket_files s ` set bs) = {}" using Cons.prems by (auto simp: bucket_files_def)
  then show ?case
    using Cons bucket_usage_eq [OF assms(1-3)] fin
    by (simp add: card_Un_disjoint stored_bytes_def sum.union_disjoint)
qed (simp add: stored_bytes_def)

lemma usage_exact:
  assumes "listing_ok (dir_listing V)" "finite_disk s" "disk_ok E s"
  shows "usage V s = Ok (card (object_files s), stored_bytes s (object_files s))"
proof -
  have fs: "fs_ok s" and root: "[''objects''] \<in> dirs s" using assms(3) by (simp_all add: disk_ok_def)
  have ls: "distinct (dir_listing V s [''objects''])" "set (dir_listing V s [''objects'']) = dir_names s [''objects'']"
    using assms(1) finite_dir_names [OF assms(2)] by (auto simp: listing_ok_def)
  have "\<Union> (bucket_files s ` dir_names s [''objects'']) = object_files s"
  proof (intro set_eqI iffI)
    fix p assume p: "p \<in> object_files s"
    then obtain b e where pe: "p = [''objects'', b, e]" by (auto simp: object_files_def length_Suc_conv numeral_3_eq_3)
    then have "[''objects'', b] \<in> dirs s" using p fs by (fastforce simp: object_files_def fs_ok_def)
    then have "b \<in> dir_names s [''objects'']" by (simp add: dir_names_def path_exists_def)
    then show "p \<in> \<Union> (bucket_files s ` dir_names s [''objects''])" using p pe by (auto simp: bucket_files_def object_files_def)
  qed (auto simp: bucket_files_def object_files_def)
  then show ?thesis using usage_fold [OF assms(1,2) fs ls(1), of 0 0] ls(2) root by (simp add: usage_def)
qed

section \<open>Properties\<close>

text \<open>A limit that may be missing.\<close>

definition within :: "nat option \<Rightarrow> nat \<Rightarrow> bool" where
  "within lim n \<longleftrightarrow> (case lim of None \<Rightarrow> True | Some cap \<Rightarrow> n \<le> cap)"

text \<open>
  C14. The quota check. For limits below the largest \<open>u64\<close>, of which either may be missing, a
  write is let through exactly when the bytes, and the objects, on disk and those to come stay
  within the limits: the sums are the true ones, which saturating addition keeps from wrapping
  around. Otherwise the answer is \<open>QuotaExceeded\<close>. So \<open>add\<close> of a file, which counts its bytes
  and one object, and the opening of an upload, which counts its declared size and one object,
  are refused over either limit and then change nothing.
\<close>

theorem quota_enforced:
  assumes "listing_ok (dir_listing V)" "finite_disk s" "disk_ok E s"
    and "q_bytes (quotas_of V) \<in> {None} \<union> Some ` {..<U64_MAX}" "q_object_count (quotas_of V) \<in> {None} \<union> Some ` {..<U64_MAX}"
  defines "fits \<equiv> \<lambda>b n. within (q_bytes (quotas_of V)) (stored_bytes s (object_files s) + b) \<and>
      within (q_object_count (quotas_of V)) (card (object_files s) + n)"
  shows "(if fits b n then check_quota_for_write V s b n = Ok ()
      else \<exists>l. check_quota_for_write V s b n = Err (QuotaExceeded l)) \<and>
    (validate_path path = Ok () \<and> \<not> fits (length bs) 1 \<longrightarrow> (\<exists>l. repo_add V path bs user t s = (Err (QuotaExceeded l), s))) \<and>
    (\<not> fits b 1 \<longrightarrow> (\<exists>l. repo_upload_open V rnd b s = (Err (QuotaExceeded l), s)))"
proof -
  have sat: "c < saturating_add x y \<longleftrightarrow> c < x + y" "saturating_add x y \<le> c \<longleftrightarrow> x + y \<le> c" if "c < U64_MAX" for x y c
    using that by (auto simp: saturating_add_def)
  have check: "if fits b n then check_quota_for_write V s b n = Ok ()
      else \<exists>l. check_quota_for_write V s b n = Err (QuotaExceeded l)" for b n
    using assms(4,5) usage_exact [OF assms(1-3)]
    by (cases "q_bytes (quotas_of V)"; cases "q_object_count (quotas_of V)")
      (auto simp: check_quota_for_write_def fits_def within_def over_quota_def sat not_less)
  have "\<exists>l. repo_add V path bs user t s = (Err (QuotaExceeded l), s)" if "validate_path path = Ok ()" "\<not> fits (length bs) 1"
    using check [of "length bs" 1] that by (auto simp: repo_add_def bind_op_def)
  moreover have "\<exists>l. repo_upload_open V rnd b s = (Err (QuotaExceeded l), s)" if "\<not> fits b 1"
    using check [of b 1] that by (auto simp: repo_upload_open_def bind_op_def)
  ultimately show ?thesis using check by blast
qed

text \<open>A new repository without limits, and one with small ones, for the witnesses.\<close>

definition plain_env :: repo_env where
  "plain_env = \<lparr>rx = toy_ext, index_show = (\<lambda>_. ''{}''), index_read = (\<lambda>_. Inr []), map_order = (\<lambda>idx. idx),
     raw_schema_of = (\<lambda>_. Inl ''none''), infer_mime = (\<lambda>_. None), run_probe = (\<lambda>_ _ _ _ _. Err (Internal ''none'')),
     args_json = (\<lambda>_. []), starter_probes = [], work_file = (\<lambda>_. None), work_schemas = [], env_var = (\<lambda>_. None),
     now = ''2024-01-01T00:00:00Z'', quotas_of = unlimited, tenant_of = ''_local'',
     dir_listing = (\<lambda>s d. sorted_list_of_set (dir_names s d))\<rparr>"

lemma fresh_disk_dirs: "dirs fresh_disk = {[], [''objects''], [''refs''], [''refs'', ''heads'']}"
  by (auto simp: fresh_disk_def disk_init_def bind_op_def create_dir_def write_atomic_def path_exists_def empty_disk_def)

lemma fresh_disk_files: "files fresh_disk = [[''HEAD''] \<mapsto> ''ref: refs/heads/main'' @ [LF]]"
  by (auto simp: fresh_disk_def disk_init_def bind_op_def create_dir_def write_atomic_def path_exists_def empty_disk_def)

definition quota_env :: "nat option \<Rightarrow> nat option \<Rightarrow> repo_env" where
  "quota_env b n = plain_env\<lparr>quotas_of := unlimited\<lparr>q_bytes := b, q_object_count := n\<rparr>\<rparr>"

text \<open>Three bytes in a repository that may hold three, a fourth, and a file where there may be no object.\<close>

theorem quota_enforced_witness:
  "check_quota_for_write (quota_env (Some 3) None) fresh_disk 3 1 = Ok () \<and>
   (\<exists>l. repo_add (quota_env (Some 3) None) ''a'' ''abcd'' None None fresh_disk = (Err (QuotaExceeded l), fresh_disk)) \<and>
   (\<exists>l. repo_add (quota_env None (Some 0)) ''a'' ''abcd'' None None fresh_disk = (Err (QuotaExceeded l), fresh_disk)) \<and>
   (\<exists>l. repo_upload_open (quota_env None (Some 0)) [] 1 fresh_disk = (Err (QuotaExceeded l), fresh_disk))"
proof -
  have F: "object_files fresh_disk = {}" "stored_bytes fresh_disk {} = 0"
    by (auto simp: object_files_def stored_bytes_def fresh_disk_files)
  have V: "listing_ok (dir_listing (quota_env b n))" "finite_disk fresh_disk" "disk_ok toy_ext fresh_disk" for b n
    using listing_ok_sorted
    by (simp_all add: quota_env_def plain_env_def finite_disk_def fresh_disk_dirs fresh_disk_files)
  have lim: "q_bytes (quotas_of (quota_env b n)) = b" "q_object_count (quotas_of (quota_env b n)) = n" for b n
    by (simp_all add: quota_env_def)
  have "(3 :: nat) < U64_MAX" "0 < U64_MAX" by (simp_all add: U64_MAX_def)
  then have small: "Some (3 :: nat) \<in> {None} \<union> Some ` {..<U64_MAX}" "Some 0 \<in> {None} \<union> Some ` {..<U64_MAX}" by auto
  have path: "validate_path ''a'' = Ok ()"
    by (simp add: validate_path_def starts_with_def split_path_def trim_matches_def trim_start_matches_def trim_end_matches_def)
  note bytes = quota_enforced [OF V, of "Some 3" None, unfolded lim]
  note objects = quota_enforced [OF V, of None "Some 0", unfolded lim]
  have "check_quota_for_write (quota_env (Some 3) None) fresh_disk 3 1 = Ok ()"
    "\<exists>l. repo_add (quota_env (Some 3) None) ''a'' ''abcd'' None None fresh_disk = (Err (QuotaExceeded l), fresh_disk)"
    using bytes [of 3 1 "''a''" "''abcd''" None None] small path F by (simp_all add: within_def)
  moreover have "\<exists>l. repo_add (quota_env None (Some 0)) ''a'' ''abcd'' None None fresh_disk = (Err (QuotaExceeded l), fresh_disk)"
    "\<exists>l. repo_upload_open (quota_env None (Some 0)) [] 1 fresh_disk = (Err (QuotaExceeded l), fresh_disk)"
    using objects [of 1 1 "''a''" "''abcd''" None None "[]"] small path F by (simp_all add: within_def)
  ultimately show ?thesis by blast
qed

end
