(* ===== verification/Omp_Reprobe.thy ===== *)
theory Omp_Reprobe
  imports Omp_Ingest Omp_Commit
begin

text \<open>
  \<open>crates/omp-core/src/api.rs\<close>, third part: \<open>commit\<close> and the rebuilding of manifests
  whose schema changes with it (\<open>run_auto_reprobe\<close>).

  A file that cannot be rebuilt is skipped; the report carries the error here, where the
  program keeps the first 200 bytes of its text. The probe outputs of an ingest that
  fails are not kept in the cache here: they would only save running a probe again.
\<close>

section \<open>Equality of schemas\<close>

text \<open>The derived \<open>PartialEq\<close> compares floats as numbers.\<close>

definition f64_eq :: "f64 \<Rightarrow> f64 \<Rightarrow> bool" where
  "f64_eq a b \<longleftrightarrow> f64_le a b \<and> f64_le b a"

fun value_eq :: "field_value \<Rightarrow> field_value \<Rightarrow> bool"
and values_eq :: "field_value list \<Rightarrow> field_value list \<Rightarrow> bool"
and objects_eq :: "(str \<times> field_value) list \<Rightarrow> (str \<times> field_value) list \<Rightarrow> bool"
where
  "value_eq (FFloat a) w = (case w of FFloat b \<Rightarrow> f64_eq a b | _ \<Rightarrow> False)"
| "value_eq (FList xs) w = (case w of FList ys \<Rightarrow> values_eq xs ys | _ \<Rightarrow> False)"
| "value_eq (FObject xs) w = (case w of FObject ys \<Rightarrow> objects_eq xs ys | _ \<Rightarrow> False)"
| "value_eq v w = (v = w)"
| "values_eq [] ys = (ys = [])"
| "values_eq (x # xs) ys = (case ys of [] \<Rightarrow> False | y # ys' \<Rightarrow> value_eq x y \<and> values_eq xs ys')"
| "objects_eq [] ys = (ys = [])"
| "objects_eq ((k, x) # xs) ys = (case ys of [] \<Rightarrow> False | (l, y) # ys' \<Rightarrow> k = l \<and> value_eq x y \<and> objects_eq xs ys')"

fun source_eq :: "source \<Rightarrow> source \<Rightarrow> bool" where
  "source_eq (SConstant v) (SConstant w) = value_eq v w"
| "source_eq (SProbe p a) (SProbe q b) = (p = q \<and> objects_eq a b)"
| "source_eq SUserProvided SUserProvided = True"
| "source_eq (SField f t) (SField g u) = (f = g \<and> t = u)"
| "source_eq _ _ = False"

fun field_eq :: "field \<Rightarrow> field \<Rightarrow> bool" where
  "field_eq (Field n s t r d fb) g =
     (n = f_name g \<and> source_eq s (f_source g) \<and> t = f_type g \<and> r = f_required g \<and> d = f_description g \<and>
      (case fb of None \<Rightarrow> f_fallback g = None
       | Some x \<Rightarrow> (case f_fallback g of None \<Rightarrow> False | Some y \<Rightarrow> field_eq x y)))"

definition fallback_eq :: "field option \<Rightarrow> field option \<Rightarrow> bool" where
  "fallback_eq a b = (case (a, b) of (None, None) \<Rightarrow> True | (Some x, Some y) \<Rightarrow> field_eq x y | _ \<Rightarrow> False)"

definition schemas_equal :: "schema \<Rightarrow> schema \<Rightarrow> bool" where
  "schemas_equal a b \<longleftrightarrow>
     s_file_type a = s_file_type b \<and> s_allow_extra_fields a = s_allow_extra_fields b \<and>
     length (s_fields a) = length (s_fields b) \<and>
     list_all (\<lambda>(f, g). f_name f = f_name g \<and> f_required f = f_required g \<and> f_type f = f_type g \<and>
         source_eq (f_source f) (f_source g) \<and> fallback_eq (f_fallback f) (f_fallback g))
       (zip (s_fields a) (s_fields b))"

section \<open>Rebuilding one manifest\<close>

definition schema_field :: "schema option \<Rightarrow> str \<Rightarrow> field option" where
  "schema_field so n = Option.bind so (\<lambda>sch. find (\<lambda>f. f_name f = n) (s_fields sch))"

definition carried_fields :: "schema option \<Rightarrow> manifest \<Rightarrow> (str, field_value) btree" where
  "carried_fields old_schema old =
     filter (\<lambda>(n, _). case schema_field old_schema n of Some f \<Rightarrow> f_source f = SUserProvided | None \<Rightarrow> False) (m_fields old)"

text \<open>The value of a field that is taken over, in the loop of \<open>reprobe_one\<close>.\<close>

definition reusable :: "(str \<rightharpoonup> probe_blob) \<Rightarrow> schema option \<Rightarrow> manifest \<Rightarrow> field \<Rightarrow> field_value option" where
  "reusable probes old_schema old f =
     (case schema_field old_schema (f_name f) of
        None \<Rightarrow> None
      | Some g \<Rightarrow>
          if \<not> source_eq (f_source g) (f_source f) then None
          else case bt_get (m_fields old) (f_name f) of
            None \<Rightarrow> None
          | Some v \<Rightarrow>
              (case f_source f of
                 SProbe p _ \<Rightarrow>
                   (case probes p of None \<Rightarrow> None
                    | Some b \<Rightarrow> if bt_get (m_probe_hashes old) p = Some (pb_framed_hash b) then Some v else None)
               | _ \<Rightarrow> Some v))"

definition reused_fields :: "(str \<rightharpoonup> probe_blob) \<Rightarrow> schema \<Rightarrow> schema option \<Rightarrow> manifest \<Rightarrow> (str, field_value) btree" where
  "reused_fields probes new old_schema old =
     foldl (\<lambda>m f. case reusable probes old_schema old f of Some v \<Rightarrow> bt_insert (f_name f) v m | None \<Rightarrow> m)
       [] (s_fields new)"

definition path_arg :: "str \<Rightarrow> (str, field_value) btree \<Rightarrow> (str, field_value) btree" where
  "path_arg path args = (if bt_get args ''path'' = None then bt_insert ''path'' (FString path) args else args)"

definition seed_cache ::
  "repo_env \<Rightarrow> str \<Rightarrow> manifest \<Rightarrow> (str \<rightharpoonup> probe_blob) \<Rightarrow> (str, field_value) btree \<Rightarrow> probe_cache \<Rightarrow> field \<Rightarrow> probe_cache"
where
  "seed_cache V path old probes reused cache f =
     (case bt_get reused (f_name f) of None \<Rightarrow> cache
      | Some v \<Rightarrow>
          (case f_source f of
             SProbe p args \<Rightarrow>
               (case probes p of None \<Rightarrow> cache
                | Some b \<Rightarrow> cache((m_source_hash old, pb_framed_hash b, args_json V (path_arg path args)) \<mapsto> v))
           | _ \<Rightarrow> cache))"

definition reprobe_one ::
  "repo_env \<Rightarrow> str \<Rightarrow> manifest \<Rightarrow> schema \<Rightarrow> bytes \<Rightarrow> schema option \<Rightarrow> (str \<rightharpoonup> probe_blob) \<Rightarrow> repo_config \<Rightarrow> probe_cache \<Rightarrow>
   disk \<Rightarrow> (hash result \<times> probe_cache) \<times> disk"
where
  "reprobe_one V path old new new_blob old_schema probes cfg cache s =
     (case get_object V s (NotFound (''source blob for '' @ path @ '' missing'')) (m_source_hash old) of
        Inl e \<Rightarrow> ((Err e, cache), s)
      | Inr (src_ty, source_bytes) \<Rightarrow>
          if src_ty \<noteq> ''blob'' then ((Err (IngestValidation ''reprobe of chunked source not yet supported''), cache), s)
          else
            let reused = reused_fields probes new old_schema old;
                cache' = foldl (seed_cache V path old probes reused) cache (s_fields new);
                inp = \<lparr>i_bytes = source_bytes, i_user_fields = carried_fields old_schema old, i_path = path,
                  i_ingested_at = now V, i_streaming = None, i_content_length = length source_bytes,
                  i_override_source_hash = Some (m_source_hash old)\<rparr>;
                view = \<lparr>v_schema = new, v_schema_blob = new_blob, v_probes = probes,
                  v_limits = clamp_probe (quotas_of V) (cfg_probes cfg)\<rparr> in
            case ingest_with_cache (rx V) (run_probe V) (args_json V) inp view cache' of
              Inl e \<Rightarrow> ((Err e, cache'), s)
            | Inr (m, cache'') \<Rightarrow>
                let (r, s') = bind_op (lift_res (manifest_serialize (rx V) m)) (disk_put (rx V) ''manifest'') s in
                ((r, cache''), s'))"

section \<open>The pass over the staged schemas\<close>

text \<open>
  Why a file was skipped. The code keeps a message about it, cut after 200 bytes; the
  model keeps what the message tells.
\<close>

datatype skip_reason = ManifestMissing hash | ManifestUnreadable omp_error | ReprobeFailed omp_error

record reprobe_skip =
  rk_path :: str
  rk_reason :: skip_reason

record reprobe_summary =
  rp_file_type :: str
  rp_count :: nat
  rp_skipped :: "reprobe_skip list"

definition staged_schemas :: "index \<Rightarrow> (str \<times> hash) list" where
  "staged_schemas idx =
     concat (map (\<lambda>(_, c).
       if sc_kind c \<noteq> Upsert then []
       else case (schema_file_type_from_path (sc_path c), sc_hash c) of
         (Some stem, Some h) \<Rightarrow> [(stem, h)]
       | _ \<Rightarrow> []) idx)"

text \<open>The state of the loops: the index, the cache, the number rebuilt and those skipped.\<close>

type_synonym reprobe_state = "index \<times> probe_cache \<times> nat \<times> reprobe_skip list"

definition skip :: "str \<Rightarrow> skip_reason \<Rightarrow> reprobe_state \<Rightarrow> reprobe_state" where
  "skip path why = (\<lambda>(idx, cache, n, sk). (idx, cache, n, sk @ [\<lparr>rk_path = path, rk_reason = why\<rparr>]))"

definition reprobe_file ::
  "repo_env \<Rightarrow> str \<Rightarrow> hash \<Rightarrow> schema \<Rightarrow> bytes \<Rightarrow> schema option \<Rightarrow> (str \<rightharpoonup> probe_blob) \<Rightarrow> repo_config \<Rightarrow>
   str \<times> hash \<Rightarrow> reprobe_state \<Rightarrow> reprobe_state op"
where
  "reprobe_file V file_type new_hash new new_blob old_schema probes cfg = (\<lambda>(path, mh) st.
     bind_op (reads (\<lambda>s. disk_get (rx V) s mh)) (\<lambda>r.
     case r of
       None \<Rightarrow> ret (skip path (ManifestMissing mh) st)
     | Some (_, content) \<Rightarrow>
         (case manifest_parse (rx V) content of
            Inl e \<Rightarrow> ret (skip path (ManifestUnreadable e) st)
          | Inr old \<Rightarrow>
              if m_file_type old \<noteq> file_type then ret st
              else if m_schema_hash old = new_hash then ret st
              else (\<lambda>s. case st of (idx, cache, n, sk) \<Rightarrow>
                (case reprobe_one V path old new new_blob old_schema probes cfg cache s of
                   ((Inr h, cache'), s') \<Rightarrow>
                     (Ok (index_insert path \<lparr>sc_path = path, sc_kind = Upsert, sc_hash = Some h\<rparr> idx, cache', n + 1, sk), s')
                 | ((Inl e, cache'), s') \<Rightarrow>
                     (Ok (skip path (ReprobeFailed e) (idx, cache', n, sk)), s'))))))"

fun reprobe_files ::
  "(str \<times> hash \<Rightarrow> reprobe_state \<Rightarrow> reprobe_state op) \<Rightarrow> (str \<times> hash) list \<Rightarrow> reprobe_state \<Rightarrow> reprobe_state op"
where
  "reprobe_files step [] st = ret st"
| "reprobe_files step (f # fs) st = bind_op (step f st) (reprobe_files step fs)"

text \<open>One staged schema: the index, the cache and the summaries so far.\<close>

definition reprobe_schema ::
  "repo_env \<Rightarrow> (str, schema) btree \<Rightarrow> (str \<rightharpoonup> probe_blob) \<Rightarrow> repo_config \<Rightarrow> (str \<times> hash) list \<Rightarrow> str \<times> hash \<Rightarrow>
   index \<times> probe_cache \<times> reprobe_summary list \<Rightarrow> (index \<times> probe_cache \<times> reprobe_summary list) op"
where
  "reprobe_schema V head_schemas probes cfg manifest_paths = (\<lambda>(file_type, h) (idx, cache, sums).
     bind_op (reads (\<lambda>s. get_object V s (Internal (''staged schema blob '' @ hash_hex h @ '' missing from store'')) h)) (\<lambda>(_, bs).
     bind_op (lift_res (parse_schema V bs file_type)) (\<lambda>new.
     let old_schema = bt_get head_schemas file_type in
     if (case old_schema of Some old \<Rightarrow> schemas_equal new old | None \<Rightarrow> False) then ret (idx, cache, sums)
     else bind_op (reprobe_files (reprobe_file V file_type h new bs old_schema probes cfg) manifest_paths (idx, cache, 0, []))
       (\<lambda>(idx', cache', n, sk).
         ret (idx', cache', sums @ [\<lparr>rp_file_type = file_type, rp_count = n, rp_skipped = sk\<rparr>])))))"

fun reprobe_schemas ::
  "(str \<times> hash \<Rightarrow> 'st \<Rightarrow> 'st op) \<Rightarrow> (str \<times> hash) list \<Rightarrow> 'st \<Rightarrow> 'st op"
where
  "reprobe_schemas step [] st = ret st"
| "reprobe_schemas step (x # xs) st = bind_op (step x st) (reprobe_schemas step xs)"

definition head_manifests :: "repo_env \<Rightarrow> disk \<Rightarrow> (str \<times> hash) list result" where
  "head_manifests V s =
     bind_res (root_tree V s None) (\<lambda>ro. case ro of
       Some root \<Rightarrow> bind_res (walk_tree_at V None s root) (\<lambda>es.
         Ok (map (\<lambda>(p, m, h). (p, h)) (filter (\<lambda>(p, m, h). m = MManifest) es)))
     | None \<Rightarrow> Ok [])"

definition run_auto_reprobe :: "repo_env \<Rightarrow> index \<Rightarrow> (index \<times> reprobe_summary list) op" where
  "run_auto_reprobe V idx =
     (let staged = staged_schemas (map_order V idx) in
      if staged = [] then ret (idx, [])
      else bind_op (reads (load_all_schemas V None)) (\<lambda>head_schemas.
        bind_op (reads (current_probes V)) (\<lambda>probes.
        bind_op (reads (head_manifests V)) (\<lambda>manifest_paths.
        bind_op (reads (current_repo_config V None)) (\<lambda>cfg.
        bind_op (reprobe_schemas (reprobe_schema V head_schemas probes cfg manifest_paths) staged (idx, Map.empty, []))
          (\<lambda>(idx', _, sums). ret (idx', sums)))))))"

section \<open>Committing\<close>

record author_override =
  ao_name :: "str option"
  ao_email :: "str option"
  ao_timestamp :: "str option"

definition no_override :: author_override where
  "no_override = \<lparr>ao_name = None, ao_email = None, ao_timestamp = None\<rparr>"

definition author_of :: "repo_env \<Rightarrow> local_config \<Rightarrow> author_override \<Rightarrow> author" where
  "author_of V l o' = \<lparr>author_name = given (ao_name o') (lc_author_name l),
     author_email = given (ao_email o') (lc_author_email l), author_timestamp = given (ao_timestamp o') (now V)\<rparr>"

text \<open>\<open>lock_refs\<close> opens \<open>refs.lock\<close>, creating it if need be. That it waits for other processes is not modelled.\<close>

definition lock_refs :: "unit op" where
  "lock_refs s =
     (if [] \<notin> dirs s \<or> [''refs.lock''] \<in> dirs s then (Err (Io ''refs.lock'' ''cannot open''), s)
      else (Ok (), if files s [''refs.lock''] = None then s\<lparr>files := (files s)([''refs.lock''] \<mapsto> [])\<rparr> else s))"

definition apply_change :: "repo_env \<Rightarrow> bytes option \<Rightarrow> hash option \<Rightarrow> staged_change \<Rightarrow> hash option op" where
  "apply_change V pk root c =
     (case sc_kind c of
        Upsert \<Rightarrow>
          bind_op (lift_res (ok_or (Internal ''upsert without hash'') (sc_hash c))) (\<lambda>h.
          bind_op (reads (\<lambda>s. stored_mode V s h)) (\<lambda>m.
          bind_op (put_at_with_key (rx V) pk root (sc_path c) \<lparr>entry_mode = m, entry_hash = h\<rparr>) (\<lambda>r.
          ret (Some r))))
      | Delete \<Rightarrow>
          (case root of Some r \<Rightarrow> delete_at_with_key (rx V) pk r (sc_path c) | None \<Rightarrow> ret None))"

fun apply_changes :: "repo_env \<Rightarrow> bytes option \<Rightarrow> hash option \<Rightarrow> staged_change list \<Rightarrow> hash option op" where
  "apply_changes V pk root [] = ret root"
| "apply_changes V pk root (c # cs) = bind_op (apply_change V pk root c) (\<lambda>r. apply_changes V pk r cs)"

definition advance_head :: "repo_env \<Rightarrow> hash \<Rightarrow> unit op" where
  "advance_head V h =
     bind_op (reads (\<lambda>s. bind_res (read_head s) parse_head)) (\<lambda>hd.
     case hd of HeadBranch name \<Rightarrow> write_ref name h | HeadDetached _ \<Rightarrow> write_head (hash_hex h))"

definition commit_with_keys ::
  "repo_env \<Rightarrow> str \<Rightarrow> author_override option \<Rightarrow> tenant_keys option \<Rightarrow> (hash \<times> reprobe_summary list) op"
where
  "commit_with_keys V message author keys =
     bind_op (reads (load_index V)) (\<lambda>idx0.
     if idx0 = [] then raise (Conflict ''no staged changes'')
     else bind_op lock_refs (\<lambda>_.
       bind_op (reads (local_load (rx V) (env_var V))) (\<lambda>l.
       let a = author_of V l (given author no_override);
           pk = map_option path_key keys; ck = map_option commit_key keys in
       bind_op (if keys = None \<and> env_var V ''OMP_DEFER_REPROBE'' = None then run_auto_reprobe V idx0 else ret (idx0, []))
         (\<lambda>(idx, sums).
       bind_op (reads (head_tree V)) (\<lambda>root0.
       bind_op (apply_changes V pk root0 (map snd (map_order V idx))) (\<lambda>root.
       bind_op (lift_res (ok_or (Conflict ''commit would be empty'') root)) (\<lambda>root_hash.
       bind_op (reads (head_commit V)) (\<lambda>parent.
       bind_op (lift_res (serialize_with_commit_key (rx V) ck
          \<lparr>commit_tree = root_hash, commit_parents = (case parent of Some p \<Rightarrow> [p] | None \<Rightarrow> []),
           commit_author = a, commit_message = message\<rparr>)) (\<lambda>cb.
       bind_op (disk_put (rx V) ''commit'' cb) (\<lambda>ch.
       bind_op (advance_head V ch) (\<lambda>_.
       bind_op (save_index V []) (\<lambda>_.
       ret (ch, sums)))))))))))))"

definition commit_plain :: "repo_env \<Rightarrow> str \<Rightarrow> author_override option \<Rightarrow> hash op" where
  "commit_plain V message author = bind_op (commit_with_keys V message author None) (\<lambda>(h, _). ret h)"

definition commit_encrypted :: "repo_env \<Rightarrow> str \<Rightarrow> author_override option \<Rightarrow> tenant_keys \<Rightarrow> hash op" where
  "commit_encrypted V message author keys = bind_op (commit_with_keys V message author (Some keys)) (\<lambda>(h, _). ret h)"

section \<open>Properties\<close>

text \<open>A field whose probe answers nothing, with a constant in reserve, for one file.\<close>

definition mood_schema :: "str \<Rightarrow> schema" where
  "mood_schema fb = \<lparr>s_file_type = ''note'', s_mime_patterns = [''text/plain''], s_allow_extra_fields = False,
     s_fields = [Field ''mood'' (SProbe ''text.mood'' []) TyString False None
       (Some (Field ''mood'' (SConstant (FString fb)) TyString False None None))], s_render = None\<rparr>"

definition mood_probes :: "str \<rightharpoonup> probe_blob" where
  "mood_probes = [''text.mood'' \<mapsto> \<lparr>pb_wasm = [], pb_framed_hash = Hash (replicate 32 (CHR 0x07)), pb_max_input_bytes = None\<rparr>]"

definition mood_input :: ingest_input where
  "mood_input = \<lparr>i_bytes = ''hi'', i_user_fields = [], i_path = ''a.txt'', i_ingested_at = ''now'', i_streaming = None,
     i_content_length = 2, i_override_source_hash = Some (Hash (replicate 32 (CHR 0x01)))\<rparr>"

definition mood_view :: "str \<Rightarrow> tree_view" where
  "mood_view fb = \<lparr>v_schema = mood_schema fb, v_schema_blob = fb, v_probes = mood_probes,
     v_limits = \<lparr>memory_mb = 64, probe_fuel = 1, wall_clock_s = 1\<rparr>\<rparr>"

definition mood_run :: probe_runner where
  "mood_run = (\<lambda>_ _ _ _ _. Ok FNull)"

text \<open>The manifest of the file under the schema with the given constant.\<close>

definition mood_manifest :: "ext \<Rightarrow> str \<Rightarrow> manifest" where
  "mood_manifest E fb = \<lparr>m_source_hash = Hash (replicate 32 (CHR 0x01)), m_file_type = ''note'',
     m_schema_hash = schema_hash E fb, m_ingested_at = ''now'', m_ingester_version = INGESTER_VERSION,
     m_probe_hashes = [(''text.mood'', Hash (replicate 32 (CHR 0x07)))], m_fields = [(''mood'', FString fb)]\<rparr>"

lemmas mood_defs = mood_manifest_def ingest_with_cache_def ingest_field_def mood_view_def mood_schema_def mood_input_def
  mood_probes_def mood_run_def resolve_source_def resolve_probe_def exceeds_cap_def source_hash_of_def effective_args_def
  is_null_def normalize_value_def add_extras_def bt_get_def Let_def

lemma mood_ingest: "ingest E mood_run ak mood_input (mood_view fb) = Ok (mood_manifest E fb)"
  by (simp add: ingest_def mood_defs)

text \<open>
  Changing the fallback of a field does not reach the manifests that are rebuilt. The
  old value, which came from the old fallback, is put into the cache as if the probe had
  answered it, so the new fallback is never asked; a fresh ingest under the new schema
  stores the new value.
\<close>

lemma reprobe_stale_fallback:
  "let old = mood_manifest (rx V) ''calm'';
       reused = reused_fields mood_probes (mood_schema ''glad'') (Some (mood_schema ''calm'')) old;
       seeded = foldl (seed_cache V ''a.txt'' old mood_probes reused) Map.empty (s_fields (mood_schema ''glad'')) in
   ingest (rx V) mood_run (args_json V) mood_input (mood_view ''calm'') = Ok old \<and>
   ingest (rx V) mood_run (args_json V) mood_input (mood_view ''glad'') = Ok (mood_manifest (rx V) ''glad'') \<and>
   (\<exists>m c. ingest_with_cache (rx V) mood_run (args_json V) mood_input (mood_view ''glad'') seeded = Ok (m, c) \<and>
      bt_get (m_fields m) ''mood'' = Some (FString ''calm''))"
  unfolding Let_def using mood_ingest
  by (simp add: mood_defs reused_fields_def reusable_def schema_field_def seed_cache_def path_arg_def)

text \<open>
  A file that is rebuilt is staged anew, whatever was staged for its path: a staged
  deletion, or a newer version of the file, is replaced.
\<close>

lemma index_insert_get: "map_of (index_insert k c idx) = (map_of idx)(k \<mapsto> c)"
  by (induction idx) auto

lemma reprobe_replaces_staged:
  assumes "reprobe_file V ft nh new blob old probes cfg (path, mh) (idx, cache, n, sk) s = (Ok (idx', cache', Suc n, sk'), s')"
  shows "\<exists>h. map_of idx' path = Some \<lparr>sc_path = path, sc_kind = Upsert, sc_hash = Some h\<rparr>"
proof -
  let ?one = "\<lambda>m t. case reprobe_one V path m new blob old probes cfg cache t of
      ((Inr h, c), t') \<Rightarrow> (Ok (index_insert path \<lparr>sc_path = path, sc_kind = Upsert, sc_hash = Some h\<rparr> idx, c, n + 1, sk), t')
    | ((Inl e, c), t') \<Rightarrow> (Ok (skip path (ReprobeFailed e) (idx, c, n, sk)) :: omp_error + reprobe_state, t')"
  have "\<exists>m t. ?one m t = (Ok (idx', cache', Suc n, sk'), s')"
  proof (cases "disk_get (rx V) s mh")
    case (Inr r)
    then show ?thesis
    proof (cases r)
      case (Some tc)
      obtain ty content where tc: "tc = (ty, content)" by (cases tc)
      show ?thesis
      proof (cases "manifest_parse (rx V) content")
        case (Inr m)
        then have "?one m s = (Ok (idx', cache', Suc n, sk'), s')"
          using assms Some tc \<open>disk_get (rx V) s mh = Ok r\<close>
          by (simp add: reprobe_file_def bind_op_def reads_def split: if_split_asm)
        then show ?thesis by blast
      qed (use assms Some tc Inr in \<open>auto simp: reprobe_file_def bind_op_def reads_def skip_def\<close>)
    qed (use assms in \<open>auto simp: reprobe_file_def bind_op_def reads_def skip_def\<close>)
  qed (use assms in \<open>auto simp: reprobe_file_def bind_op_def reads_def\<close>)
  then obtain m t where "?one m t = (Ok (idx', cache', Suc n, sk'), s')" by blast
  moreover obtain r c t' where "reprobe_one V path m new blob old probes cfg cache t = ((r, c), t')" by (metis surj_pair)
  ultimately show ?thesis by (cases r) (auto simp: skip_def index_insert_get)
qed

end
