(* ===== verification/Omp_Staging.thy ===== *)
theory Omp_Staging
  imports Omp_Reprobe
begin

text \<open>
  What \<open>commit\<close> does to the files of a repository. A staged change is an edit of the map
  from paths to files; the loop of \<open>commit\<close> over the staged changes performs their edits
  one after another (\<open>apply_changes_refines\<close>), in whatever order the hash map yields them.
  When no staged path contains another the order does not matter (\<open>edits_independent\<close>).
\<close>

section \<open>Edits of a file map\<close>

type_synonym file_edit = "str list \<times> (mode \<times> hash) option"

fun edit :: "file_edit \<Rightarrow> file_map \<Rightarrow> file_map option" where
  "edit (p, Some e) v = (if through_file v p then None else Some (put_files p e v))"
| "edit (p, None) v = Some (delete_files p v)"

fun edits :: "file_edit list \<Rightarrow> file_map \<Rightarrow> file_map option" where
  "edits [] v = Some v"
| "edits (d # ds) v = (case edit d v of None \<Rightarrow> None | Some w \<Rightarrow> edits ds w)"

text \<open>Two paths of which neither contains the other.\<close>

definition apart :: "str list \<Rightarrow> str list \<Rightarrow> bool" where
  "apart p q \<longleftrightarrow> \<not> prefix p q \<and> \<not> prefix q p"

definition independent :: "file_edit list \<Rightarrow> bool" where
  "independent ds \<longleftrightarrow> pairwise (\<lambda>d d'. apart (fst d) (fst d')) (set ds) \<and> distinct ds"

text \<open>All edits at once: the edit of the path that leads to \<open>q\<close>, if there is one.\<close>

definition edited :: "file_edit set \<Rightarrow> file_map \<Rightarrow> file_map" where
  "edited D v q =
     (if \<exists>(p, e) \<in> D. prefix p q then (if \<exists>e. (q, e) \<in> D then (THE e. (q, e) \<in> D) else None) else v q)"

lemma apart_sym: "apart p q \<Longrightarrow> apart q p"
  by (auto simp: apart_def)

lemma edit_files: "edit (p, e) v = Some w \<Longrightarrow> w = (\<lambda>q. if q = p then e else if prefix p q then None else v q)"
  by (cases e) (auto simp: put_files_def delete_files_def fun_eq_iff split: if_splits)

lemma through_file_edit:
  assumes "edit (p, e) v = Some w" "apart p r"
  shows "through_file w r \<longleftrightarrow> through_file v r"
proof -
  have "\<not> prefix p q" if "strict_prefix q r" for q
    using that assms(2) prefix_order.trans by (auto simp: apart_def strict_prefix_def)
  then show ?thesis unfolding through_file_def edit_files [OF assms(1)] by auto
qed

lemma edited_empty [simp]: "edited {} v = v"
  by (simp add: edited_def fun_eq_iff)

lemma edited_insert:
  assumes "\<And>d. d \<in> D \<Longrightarrow> apart p (fst d)" "edit (p, e) v = Some w"
  shows "edited D w = edited (insert (p, e) D) v"
proof
  fix q
  have w: "w q = (if q = p then e else if prefix p q then None else v q)" using edit_files [OF assms(2)] by simp
  have pD: "(p, e') \<notin> D" for e' using assms(1) [of "(p, e')"] by (auto simp: apart_def)
  show "edited D w q = edited (insert (p, e) D) v q"
  proof (cases "prefix p q")
    case True
    have "\<not> prefix p' q" if "(p', e') \<in> D" for p' e'
      using True that assms(1) [of "(p', e')"] prefix_same_cases by (fastforce simp: apart_def)
    then have none: "\<not> (\<exists>(p', e') \<in> D. prefix p' q)" "\<And>e'. (q, e') \<notin> D" by fastforce+
    then have "(THE e'. (q, e') \<in> insert (p, e) D) = e" if "q = p" using that by auto
    then show ?thesis using True w none by (auto simp: edited_def)
  next
    case False
    then have "q \<noteq> p" by auto
    then show ?thesis using False w by (simp add: edited_def)
  qed
qed

lemma edits_independent:
  assumes "independent ds"
  shows "edits ds v = (if \<exists>(p, e) \<in> set ds. e \<noteq> None \<and> through_file v p then None else Some (edited (set ds) v))"
  using assms
proof (induction ds arbitrary: v)
  case (Cons d ds)
  obtain p e where d: "d = (p, e)" by force
  have ap: "apart p (fst d')" if "d' \<in> set ds" for d'
    using Cons.prems that d unfolding independent_def pairwise_def by fastforce
  have ind: "independent ds" using Cons.prems by (auto simp: independent_def pairwise_def)
  show ?case
  proof (cases "edit d v")
    case None
    then show ?thesis using d by (cases e) (auto split: if_splits)
  next
    case (Some w)
    then have "through_file w r \<longleftrightarrow> through_file v r" if "(r, e') \<in> set ds" for r e'
      using through_file_edit [of p e v w r] ap [OF that] d by simp
    then have "(\<exists>(r, e') \<in> set ds. e' \<noteq> None \<and> through_file w r) \<longleftrightarrow> (\<exists>(r, e') \<in> set ds. e' \<noteq> None \<and> through_file v r)"
      by blast
    moreover have "e = None \<or> \<not> through_file v p" using Some d by (cases e) (auto split: if_splits)
    ultimately show ?thesis
      using Cons.IH [OF ind, of w] Some d edited_insert [of "set ds" p e v w] ap by auto
  qed
qed simp

section \<open>The loop of commit\<close>

text \<open>The edit that a staged change stands for: its object is in the store, a blob or a manifest.\<close>

definition change_edit :: "ext \<Rightarrow> bytes option \<Rightarrow> disk \<Rightarrow> staged_change \<Rightarrow> file_edit \<Rightarrow> bool" where
  "change_edit E pk s c d \<longleftrightarrow>
     split_path (sc_path c) = Ok (fst d) \<and> fst d \<noteq> [] \<and> (\<forall>n \<in> set (fst d). name_fits pk n) \<and>
     (case sc_kind c of
        Delete \<Rightarrow> snd d = None
      | Upsert \<Rightarrow> (\<exists>t m content. (t, m) \<in> {(Blob, MBlob), (Manifest, MManifest)} \<and> frame t content \<in> set (puts s) \<and>
          sc_hash c = Some (hash_of E t content) \<and> snd d = Some (m, hash_of E t content)))"

lemma change_edit_later: "extends s s' \<Longrightarrow> change_edit E pk s c d \<Longrightarrow> change_edit E pk s' c d"
  using extends_puts by (fastforce simp: change_edit_def split: staged_kind.splits)

lemma hash_of_wf: "sha_ok E \<Longrightarrow> hash_wf (hash_of E t c)"
  by (simp add: hash_of_def hash_of_bytes_def hash_wf_def sha_okD)

lemma stored_mode_of:
  assumes "disk_ok (rx V) s" "sha_ok (rx V)" "collision_free (rx V) s" "frame t c \<in> set (puts s)"
    and "(t, m) \<in> {(Blob, MBlob), (Manifest, MManifest)}"
  shows "stored_mode V s (hash_of (rx V) t c) = Ok m"
  using disk_get_stored [OF assms(1-4)] assms(5) by (auto simp: stored_mode_def get_object_def)

lemma put_at_extends: "put_at_with_key E pk root path e s = (r, s') \<Longrightarrow> extends s s'"
  by (auto simp: put_at_with_key_def split: list.splits elim!: bind_op_extends dest: put_inner_extends)

lemma delete_at_extends: "delete_at_with_key E pk root path s = (r, s') \<Longrightarrow> extends s s'"
  by (auto simp: delete_at_with_key_def split: list.splits elim!: bind_op_extends dest: delete_inner_extends)

lemma apply_change_extends: "apply_change V pk root c s = (r, s') \<Longrightarrow> extends s s'"
  by (auto simp: apply_change_def split: staged_kind.splits option.splits elim!: bind_op_extends
      dest: put_at_extends delete_at_extends)

lemma apply_changes_extends: "apply_changes V pk root cs s = (r, s') \<Longrightarrow> extends s s'"
  by (induction cs arbitrary: root s r s') (auto elim!: bind_op_extends dest: apply_change_extends)

lemma apply_change_refines:
  assumes "repo_ok (rx V) pk s" "root_ok (rx V) s root" "change_edit (rx V) pk s c d"
    and "apply_change V pk root c s = (r, s')" "collision_free (rx V) s'"
  shows "repo_ok (rx V) pk s' \<and>
    (case edit d (tree_files (rx V) pk s root) of
       None \<Rightarrow> r = Err (Conflict ''segment is not a directory'')
     | Some v \<Rightarrow> \<exists>ro. r = Ok ro \<and> root_ok (rx V) s' ro \<and> tree_files (rx V) pk s' ro = v)"
proof (cases "sc_kind c")
  case Upsert
  obtain p where p: "split_path (sc_path c) = Ok p" "p \<noteq> []" "\<forall>n \<in> set p. name_fits pk n" "fst d = p"
    using assms(3) by (auto simp: change_edit_def)
  obtain t m content where t: "(t, m) \<in> {(Blob, MBlob), (Manifest, MManifest)}" "frame t content \<in> set (puts s)"
      "sc_hash c = Some (hash_of (rx V) t content)" "snd d = Some (m, hash_of (rx V) t content)"
    using assms(3) Upsert by (auto simp: change_edit_def)
  let ?e = "\<lparr>entry_mode = m, entry_hash = hash_of (rx V) t content\<rparr>"
  have cf: "collision_free (rx V) s" using collision_free_mono [OF apply_change_extends [OF assms(4)] assms(5)] .
  have mode: "stored_mode V s (hash_of (rx V) t content) = Ok m"
    using stored_mode_of [OF repo_okD(1,2) [OF assms(1)] cf t(2,1)] .
  obtain r1 where put: "put_at_with_key (rx V) pk root (sc_path c) ?e s = (r1, s')"
      "r = (case r1 of Inl e \<Rightarrow> Err e | Inr h \<Rightarrow> Ok (Some h))"
    using assms(4) Upsert t(3) mode by (auto simp: apply_change_def bind_op_def split: prod.splits sum.splits)
  have wf: "hash_wf (entry_hash ?e)" "entry_mode ?e \<noteq> MTree"
    using hash_of_wf [OF repo_okD(2) [OF assms(1)]] t(1) by auto
  have dd: "d = (p, Some (m, hash_of (rx V) t content))" using p(4) t(4) by (cases d) simp
  show ?thesis
    using put_files_spec [OF assms(1,2) p(1-3) wf put(1) assms(5)] put(2) dd by (auto split: if_splits)
next
  case Delete
  obtain p where p: "split_path (sc_path c) = Ok p" "p \<noteq> []" "d = (p, None)"
    using assms(3) Delete by (cases d) (auto simp: change_edit_def)
  show ?thesis
  proof (cases root)
    case None
    then show ?thesis using assms(1,2,4) Delete p by (auto simp: apply_change_def delete_files_def fun_eq_iff)
  next
    case (Some h)
    then have "delete_at_with_key (rx V) pk h (sc_path c) s = (r, s')"
      using assms(4) Delete by (simp add: apply_change_def)
    from delete_files_spec [OF assms(1) _ p(1,2) this assms(5)] assms(2) Some p(3) show ?thesis by simp
  qed
qed

lemma apply_changes_refines:
  assumes "repo_ok (rx V) pk s" "root_ok (rx V) s root" "list_all2 (change_edit (rx V) pk s) cs ds"
    and "apply_changes V pk root cs s = (r, s')" "collision_free (rx V) s'"
  shows "repo_ok (rx V) pk s' \<and>
    (case edits ds (tree_files (rx V) pk s root) of
       None \<Rightarrow> r = Err (Conflict ''segment is not a directory'')
     | Some v \<Rightarrow> \<exists>ro. r = Ok ro \<and> root_ok (rx V) s' ro \<and> tree_files (rx V) pk s' ro = v)"
  using assms
proof (induction cs arbitrary: ds root s)
  case (Cons c cs)
  obtain d ds' where ds: "ds = d # ds'" "change_edit (rx V) pk s c d" "list_all2 (change_edit (rx V) pk s) cs ds'"
    using Cons.prems(3) by (auto simp: list_all2_Cons1)
  obtain r1 s1 where s1: "apply_change V pk root c s = (r1, s1)" by force
  have ext: "extends s1 s'"
    using Cons.prems(4) s1 by (cases r1) (auto simp: bind_op_def dest: apply_changes_extends)
  note step = apply_change_refines [OF Cons.prems(1,2) ds(2) s1 collision_free_mono [OF ext Cons.prems(5)]]
  show ?case
  proof (cases "edit d (tree_files (rx V) pk s root)")
    case None
    then show ?thesis using step s1 Cons.prems(4) ds(1) by (auto simp: bind_op_def)
  next
    case (Some v)
    then obtain ro where ro: "r1 = Ok ro" "root_ok (rx V) s1 ro" "tree_files (rx V) pk s1 ro = v" "repo_ok (rx V) pk s1"
      using step by auto
    have "list_all2 (change_edit (rx V) pk s1) cs ds'"
      using ds(3) change_edit_later [OF apply_change_extends [OF s1]] by (auto elim!: list_all2_mono)
    moreover have "apply_changes V pk ro cs s1 = (r, s')" using Cons.prems(4) s1 ro(1) by (simp add: bind_op_def)
    ultimately show ?thesis
      using Cons.IH [OF ro(4,2) _ _ Cons.prems(5)] ro(3) Some ds(1) by simp
  qed
qed auto

section \<open>What an operation leaves alone\<close>

text \<open>Two disks agree outside \<open>objects/\<close>.\<close>

definition same_outside :: "disk \<Rightarrow> disk \<Rightarrow> bool" where
  "same_outside s s' \<longleftrightarrow>
     (\<forall>p. p \<noteq> [] \<longrightarrow> take 1 p \<noteq> [''objects''] \<longrightarrow> files s' p = files s p \<and> (p \<in> dirs s' \<longleftrightarrow> p \<in> dirs s))"

lemma same_outside_refl [simp]: "same_outside s s"
  by (simp add: same_outside_def)

lemma same_outside_trans: "same_outside s t \<Longrightarrow> same_outside t u \<Longrightarrow> same_outside s u"
  by (simp add: same_outside_def)

lemma bind_op_outside:
  assumes "bind_op m f s = (r, s'')" "\<And>r s'. m s = (r, s') \<Longrightarrow> same_outside s s'"
    and "\<And>x s' r s''. m s = (Ok x, s') \<Longrightarrow> f x s' = (r, s'') \<Longrightarrow> same_outside s' s''"
  shows "same_outside s s''"
proof (cases "m s")
  case (Pair a s')
  then show ?thesis using assms same_outside_trans by (cases a) (auto simp: bind_op_def)
qed

lemma disk_put_same: "disk_put E ty c s = (r, s') \<Longrightarrow> same_outside s s'"
  using disk_put_outside by (auto simp: same_outside_def)

lemma store_tree_same: "store_tree_with_key E pk t s = (r, s') \<Longrightarrow> same_outside s s'"
  by (auto simp: store_tree_with_key_def elim!: bind_op_outside dest: disk_put_same)

lemma put_inner_same: "put_inner E pk cur head rest e s = (r, s') \<Longrightarrow> same_outside s s'"
proof (induction rest arbitrary: cur head s r s')
  case Nil
  then show ?case by (auto elim!: bind_op_outside dest: load_or_new_state store_tree_same)
next
  case (Cons q qs)
  from Cons.prems show ?case
    by (auto elim!: bind_op_outside dest: load_or_new_state store_tree_same Cons.IH)
qed

lemma store_pruned_same: "store_pruned E pk t s = (r, s') \<Longrightarrow> same_outside s s'"
  by (auto simp: store_pruned_def split: if_splits elim!: bind_op_outside dest: store_tree_same)

lemma delete_inner_same: "delete_inner E pk cur head rest s = (r, s') \<Longrightarrow> same_outside s s'"
proof (induction rest arbitrary: cur head s r s')
  case Nil
  then show ?case by (auto elim!: bind_op_outside dest: store_pruned_same)
next
  case (Cons q qs)
  show ?case
    using Cons.prems
    by (auto elim!: bind_op_outside split: option.splits if_splits)
      (blast intro: store_pruned_same Cons.IH)+
qed

lemma apply_change_same: "apply_change V pk root c s = (r, s') \<Longrightarrow> same_outside s s'"
  unfolding apply_change_def put_at_with_key_def delete_at_with_key_def
  by (auto split: staged_kind.splits option.splits list.splits elim!: bind_op_outside
      dest: put_inner_same delete_inner_same)

lemma apply_changes_same: "apply_changes V pk root cs s = (r, s') \<Longrightarrow> same_outside s s'"
  by (induction cs arbitrary: root s r s') (auto elim!: bind_op_outside dest: apply_change_same)

text \<open>Two disks agree below one name at the top of \<open>.omp/\<close>.\<close>

definition same_below :: "str \<Rightarrow> disk \<Rightarrow> disk \<Rightarrow> bool" where
  "same_below n s s' \<longleftrightarrow> (\<forall>p. take 1 p = [n] \<longrightarrow> files s' p = files s p \<and> (p \<in> dirs s' \<longleftrightarrow> p \<in> dirs s))"

lemma same_below_refl [simp]: "same_below n s s"
  by (simp add: same_below_def)

lemma same_below_trans: "same_below n s t \<Longrightarrow> same_below n t u \<Longrightarrow> same_below n s u"
  by (simp add: same_below_def)

lemma same_outside_below: "same_outside s s' \<Longrightarrow> n \<noteq> ''objects'' \<Longrightarrow> same_below n s s'"
  unfolding same_outside_def same_below_def by (metis list.distinct(1) list.inject take_Nil)

lemma same_below_write: "n \<noteq> m \<Longrightarrow> same_below n s (s\<lparr>files := (files s)([m] \<mapsto> bs)\<rparr>)"
  by (auto simp: same_below_def)

lemma read_top_same:
  assumes "fs_ok s" "fs_ok s'" "same_below n s s'"
  shows "read_to_string s' [n] = read_to_string s [n]" "path_exists s' [n] = path_exists s [n]"
  using assms by (simp_all add: read_to_string_def read_file_def path_exists_def fs_ok_def same_below_def)

lemma read_head_same:
  assumes "fs_ok s" "fs_ok s'" "same_below ''HEAD'' s s'"
  shows "read_head s' = read_head s"
  using read_top_same [OF assms] by (simp add: read_head_def)

lemma load_index_same:
  assumes "fs_ok s" "fs_ok s'" "same_below ''index.json'' s s'"
  shows "load_index V s' = load_index V s"
  using read_top_same [OF assms] by (simp add: load_index_def)

lemma local_load_same:
  assumes "fs_ok s" "fs_ok s'" "same_below ''local.toml'' s s'"
  shows "local_load E env s' = local_load E env s"
  using read_top_same [OF assms] by (simp add: local_load_def)

lemma disk_get_same:
  assumes "fs_ok s" "fs_ok s'" "same_below ''objects'' s s'"
  shows "disk_get E s' = disk_get E s"
proof
  fix h
  have *: "files s' q = files s q" if "prefix q (butlast (object_path h))" for q
    using that assms by (cases q) (auto simp: object_path_def same_below_def fs_ok_def)
  have "list_ex (\<lambda>q. files s' q \<noteq> None) (prefixes (butlast (object_path h))) =
      list_ex (\<lambda>q. files s q \<noteq> None) (prefixes (butlast (object_path h)))"
    by (rule list_ex_cong) (use * in auto)
  moreover have o: "files s' (object_path h) = files s (object_path h)"
      "object_path h \<in> dirs s' \<longleftrightarrow> object_path h \<in> dirs s"
    using assms(3) object_path_shape(2) unfolding same_below_def by blast+
  ultimately have "read_file s' (object_path h) = read_file s (object_path h)" by (simp only: read_file_def)
  then show "disk_get E s' h = disk_get E s h" by (simp add: disk_get_def path_exists_def o Let_def)
qed

lemma branch_ref_same:
  assumes "fs_ok s" "fs_ok s'" "same_below ''refs'' s s'" "branch_name b"
  shows "read_ref s' (branch_ref b) = read_ref s (branch_ref b)"
proof (rule read_ref_cong [OF ref_path_branch [OF assms(4)]])
  show "files s' q = files s q" if "prefix q (butlast [''refs'', ''heads'', b])" for q
    using that assms by (cases q) (auto simp: same_below_def fs_ok_def)
qed (use assms in \<open>simp_all add: same_below_def\<close>)

lemma tree_files_later:
  assumes "repo_ok E pk s" "disk_ok E s'" "collision_free E s'" "extends s s'" "root_ok E s root"
  shows "tree_files E pk s' root = tree_files E pk s root"
proof
  fix q
  have cf: "collision_free E s" using collision_free_mono [OF assms(4,3)] .
  have "\<exists>r. root_view E pk s root q = Ok r"
  proof (cases root)
    case (Some h)
    obtain t where t: "load_tree_with_key E pk s h = Ok t" "subtrees_in E (puts s) t"
      using load_tree_in [OF assms(1) cf] assms(5) Some unfolding root_ok_def by auto
    then show ?thesis
      using get_loop_total [OF assms(1) cf t(2)] Some by (auto simp: root_view_def get_parts_def split: list.splits)
  qed (simp add: root_view_def)
  then show "tree_files E pk s' root q = tree_files E pk s root q"
    using get_parts_later [OF repo_okD(1) [OF assms(1)] assms(2) repo_okD(2) [OF assms(1)] assms(3,4)]
    by (cases root) (auto simp: tree_files_def root_view_def)
qed

lemma root_ok_later: "extends s s' \<Longrightarrow> root_ok E s root \<Longrightarrow> root_ok E s' root"
  using extends_puts tree_in_mono by (fastforce simp: root_ok_def split: option.splits)

lemma repo_ok_puts: "repo_ok E pk s \<Longrightarrow> disk_ok E s' \<Longrightarrow> puts s' = puts s \<Longrightarrow> repo_ok E pk s'"
  by (simp add: repo_ok_def)

lemma write_top:
  fixes bs :: bytes
  assumes "disk_ok E s" "n \<noteq> ''objects''" "[n] \<notin> dirs s"
  defines "s' \<equiv> s\<lparr>files := (files s)([n] \<mapsto> bs)\<rparr>"
  shows "write_file [n] bs s = (Ok (), s')" "disk_ok E s'" "puts s' = puts s"
proof -
  show w: "write_file [n] bs s = (Ok (), s')" using assms by (simp add: write_file_def disk_ok_def)
  have "write_atomic [n] bs s = (Ok (), s')" using assms by (simp add: write_atomic_def disk_ok_def)
  then have "fs_ok s'" using write_atomic_fs_ok assms(1) by (metis disk_ok_def list.distinct(1))
  then show "disk_ok E s'" by (intro disk_ok_objects_change [OF assms(1)]) (use assms(2) in \<open>auto simp: s'_def\<close>)
  show "puts s' = puts s" by (simp add: s'_def)
qed


section \<open>Commits\<close>

text \<open>\<open>HEAD\<close> names a branch, which is a file or absent.\<close>

definition head_on :: "str \<Rightarrow> disk \<Rightarrow> bool" where
  "head_on b s \<longleftrightarrow> branch_name b \<and> [''refs'', ''heads'', b] \<notin> dirs s \<and>
     bind_res (read_head s) parse_head = Ok (HeadBranch (branch_ref b))"

lemma head_on_resolve: "head_on b s \<Longrightarrow> resolve_head (reader V s) = read_ref s (branch_ref b)"
  by (auto simp: head_on_def resolve_head_def reader_def disk_reader_def res_simps)

lemma head_on_same:
  assumes "fs_ok s" "fs_ok s'" "same_below ''HEAD'' s s'" "same_below ''refs'' s s'" "head_on b s"
  shows "head_on b s'" "resolve_head (reader V s') = resolve_head (reader V s)"
proof -
  show on: "head_on b s'" using assms(4,5) read_head_same [OF assms(1-3)] by (simp add: head_on_def same_below_def)
  show "resolve_head (reader V s') = resolve_head (reader V s)"
    using branch_ref_same [OF assms(1,2,4)] assms(5) head_on_resolve [OF on] head_on_resolve [OF assms(5)]
    by (simp add: head_on_def)
qed

lemma tree_header_of_commit:
  assumes "hash_wf (commit_tree c)" "serialize_with_commit_key E ck c = Ok b"
  shows "tree_header (str_lines b) = Some (Ok (commit_tree c))"
proof -
  let ?l = "''tree '' @ hash_hex (commit_tree c)"
  obtain rest where b: "b = ?l @ LF # rest"
    using assms(2) by (cases ck) (auto simp: serialize_with_commit_key_def commit_headers_def Let_def res_simps)
  have "LF \<notin> set ?l" by (simp add: hash_hex_notin)
  then have "str_lines b = chop_cr ?l # str_lines rest" unfolding b by (rule str_lines_append)
  moreover have "hash_hex (commit_tree c) \<noteq> []" using length_hash_hex [OF assms(1)] by auto
  moreover have "last (hash_hex (commit_tree c)) \<noteq> CR"
    using hash_hex_notin [of CR] \<open>hash_hex (commit_tree c) \<noteq> []\<close> last_in_set by fastforce
  ultimately have "str_lines b = ?l # str_lines rest" using chop_cr_append by metis
  then show ?thesis
    using strip_prefix_append [of "''tree ''" "hash_hex (commit_tree c)"] assms(1) by (simp add: hash_from_str_hex)
qed

text \<open>The JSON text of an index reads back as the same map.\<close>

definition json_reads :: "repo_env \<Rightarrow> index \<Rightarrow> bool" where
  "json_reads V idx \<longleftrightarrow> utf8_valid (index_show V idx) \<and>
     (\<exists>i. index_read V (index_show V idx) = Inr i \<and> distinct (map fst i) \<and> map_of i = map_of idx)"

lemma save_index_ok:
  assumes "disk_ok E s" "[''index.json''] \<notin> dirs s" "json_reads V idx"
  obtains s' i where "save_index V idx s = (Ok (), s')" "disk_ok E s'" "puts s' = puts s" "dirs s' = dirs s"
    "load_index V s' = Ok i" "distinct (map fst i)" "map_of i = map_of idx" "\<And>n. n \<noteq> ''index.json'' \<Longrightarrow> same_below n s s'"
proof -
  let ?s = "s\<lparr>files := (files s)([''index.json''] \<mapsto> index_show V idx)\<rparr>"
  have w: "write_file [''index.json''] (index_show V idx) s = (Ok (), ?s)" "disk_ok E ?s"
    using write_top [OF assms(1) _ assms(2)] by simp_all
  obtain i where i: "index_read V (index_show V idx) = Inr i" "distinct (map fst i)" "map_of i = map_of idx"
      "utf8_valid (index_show V idx)"
    using assms(3) by (auto simp: json_reads_def)
  have "files s [] = None" using assms(1) by (simp add: disk_ok_def fs_ok_def)
  then have "load_index V ?s = Ok i"
    using assms(2) i by (simp add: load_index_def path_exists_def read_to_string_def read_file_def)
  then show thesis using that [of ?s i] w i(2,3) by (simp add: save_index_def same_below_write)
qed

lemma lock_refs_ok:
  assumes "disk_ok E s" "[''refs.lock''] \<notin> dirs s"
  obtains s' where "lock_refs s = (Ok (), s')" "disk_ok E s'" "puts s' = puts s" "dirs s' = dirs s"
    "\<And>n. n \<noteq> ''refs.lock'' \<Longrightarrow> same_below n s s'"
proof (cases "files s [''refs.lock'']")
  case None
  let ?s = "s\<lparr>files := (files s)([''refs.lock''] \<mapsto> [])\<rparr>"
  have "disk_ok E ?s" using write_top(2) [OF assms(1) _ assms(2)] by simp
  moreover have "lock_refs s = (Ok (), ?s)" using assms None by (simp add: lock_refs_def disk_ok_def)
  ultimately show thesis using that [of ?s] by (simp add: same_below_write)
next
  case (Some z)
  then show thesis using assms that [of s] by (simp add: lock_refs_def disk_ok_def)
qed

lemma advance_head_ok:
  assumes "disk_ok E s" "head_on b s" "hash_wf h"
  obtains s' where "advance_head V h s = (Ok (), s')" "disk_ok E s'" "puts s' = puts s" "dirs s' = dirs s"
    "head_on b s'" "resolve_head (reader V s') = Ok (Some h)" "\<And>n. n \<noteq> ''refs'' \<Longrightarrow> same_below n s s'"
proof -
  let ?p = "[''refs'', ''heads'', b]"
  have b: "branch_name b" "?p \<notin> dirs s" using assms(2) by (auto simp: head_on_def)
  have p: "ref_path (branch_ref b) = Ok ?p" "?p \<noteq> []" "take 1 ?p \<noteq> [''objects'']"
    using ref_path_branch [OF b(1)] by simp_all
  obtain s' where s': "write_ref (branch_ref b) h s = (Ok (), s')" using write_branch_total [OF assms(1) b] by blast
  note w = write_ref_ok [OF assms(1) p s']
  have d: "dirs s' = dirs s" using w(3) assms(1) by (auto simp: disk_ok_def)
  have below: "same_below n s s'" if "n \<noteq> ''refs''" for n
    using that d by (auto simp: same_below_def w(2))
  have fs: "fs_ok s" "fs_ok s'" using assms(1) w(1) by (simp_all add: disk_ok_def)
  have on: "head_on b s'"
    using assms(2) d read_head_same [OF fs below] by (simp add: head_on_def)
  have "advance_head V h s = (Ok (), s')"
    using assms(2) s' by (simp add: advance_head_def bind_op_def head_on_def)
  moreover have "resolve_head (reader V s') = Ok (Some h)"
    using head_on_resolve [OF on] branch_written_read [OF assms(1) b(1) assms(3) s'] by simp
  ultimately show thesis using that w(1,4) d on below by blast
qed

lemma commit_tail:
  assumes "repo_ok (rx V) pk s" "head_on b s" "[''index.json''] \<notin> dirs s" "json_reads V []"
    and "hash_wf (commit_tree c)" "serialize_with_commit_key (rx V) ck c = Ok cb" "utf8_valid cb"
  defines "h \<equiv> hash_of (rx V) Commit cb"
  obtains s1 s2 s3 where "disk_put (rx V) ''commit'' cb s = (Ok h, s1)" "advance_head V h s1 = (Ok (), s2)"
    "save_index V [] s2 = (Ok (), s3)" "puts s3 = frame Commit cb # puts s" "disk_ok (rx V) s3" "load_index V s3 = Ok []"
    "collision_free (rx V) s3 \<Longrightarrow> repo_ok (rx V) pk s3 \<and> head_commit V s3 = Ok (Some h) \<and>
       disk_get (rx V) s3 h = Ok (Some (''commit'', cb)) \<and> head_tree V s3 = Ok (Some (commit_tree c))"
proof -
  note ok = repo_okD [OF assms(1)]
  obtain s1 where s1: "disk_put (rx V) ''commit'' cb s = (Ok h, s1)" "disk_ok (rx V) s1" "puts s1 = frame Commit cb # puts s"
    using disk_put_ok [OF ok(1-3), of Commit cb] by (auto simp: h_def)
  have fs: "fs_ok s" "fs_ok s1" using ok(1) s1(2) by (simp_all add: disk_ok_def)
  have out: "same_below n s s1" if "n \<noteq> ''objects''" for n
    using same_outside_below [OF disk_put_same [OF s1(1)] that] .
  have on1: "head_on b s1" using head_on_same(1) [OF fs _ _ assms(2)] out by simp
  have wf: "hash_wf h" using hash_of_wf [OF ok(2)] by (simp add: h_def)
  obtain s2 where s2: "advance_head V h s1 = (Ok (), s2)" "disk_ok (rx V) s2" "puts s2 = puts s1" "dirs s2 = dirs s1"
      "head_on b s2" "resolve_head (reader V s2) = Ok (Some h)" "\<And>n. n \<noteq> ''refs'' \<Longrightarrow> same_below n s1 s2"
    using advance_head_ok [OF s1(2) on1 wf] by metis
  have "[''index.json''] \<notin> dirs s2" using assms(3) s2(4) out [of "''index.json''"] by (simp add: same_below_def)
  then obtain s3 i where s3: "save_index V [] s2 = (Ok (), s3)" "disk_ok (rx V) s3" "puts s3 = puts s2"
      "load_index V s3 = Ok i" "map_of i = map_of []" "\<And>n. n \<noteq> ''index.json'' \<Longrightarrow> same_below n s2 s3"
    using save_index_ok [OF s2(2) _ assms(4)] by metis
  have i: "i = []" using s3(5) by (cases i) (auto simp: fun_eq_iff split: if_splits)
  have fs3: "fs_ok s2" "fs_ok s3" using s2(2) s3(2) by (simp_all add: disk_ok_def)
  have "repo_ok (rx V) pk s3 \<and> head_commit V s3 = Ok (Some h) \<and> disk_get (rx V) s3 h = Ok (Some (''commit'', cb)) \<and>
      head_tree V s3 = Ok (Some (commit_tree c))" if cf: "collision_free (rx V) s3"
  proof -
    have mem: "frame Commit cb \<in> set (puts s3)" using s1(3) s2(3) s3(3) by simp
    have "length cb \<le> U64_MAX" using stored_length [OF cf mem] .
    then have "tree_node_ok (rx V) pk (puts s) (frame Commit cb)" by (simp add: tree_node_ok_def parse_framed_frame)
    then have "repo_ok (rx V) pk s3" using ok s3(2) s1(3) s2(3) s3(3) by (simp add: repo_ok_def)
    moreover have head: "resolve_head (reader V s3) = Ok (Some h)"
      using head_on_same(2) [OF fs3 _ _ s2(5)] s3(6) s2(6) by simp
    moreover have get: "disk_get (rx V) s3 h = Ok (Some (''commit'', cb))"
      using disk_get_stored [OF s3(2) ok(2) cf mem] by (simp add: h_def)
    moreover have "tree_of_commit V s3 h = Ok (commit_tree c)"
      using get tree_header_of_commit [OF assms(5,6)] assms(7) by (simp add: tree_of_commit_def get_object_def)
    ultimately show ?thesis by (simp add: head_commit_def head_tree_def)
  qed
  moreover have "puts s3 = frame Commit cb # puts s" using s1(3) s2(3) s3(3) by simp
  ultimately show thesis using that [OF s1(1) s2(1) s3(1)] s3(2,4) i by blast
qed

text \<open>No schema is staged whose change would rebuild other manifests.\<close>

definition no_reprobe :: "repo_env \<Rightarrow> tenant_keys option \<Rightarrow> index \<Rightarrow> bool" where
  "no_reprobe V keys idx \<longleftrightarrow>
     keys \<noteq> None \<or> env_var V ''OMP_DEFER_REPROBE'' \<noteq> None \<or> staged_schemas (map_order V idx) = []"

lemma reprobe_none:
  "no_reprobe V keys idx \<Longrightarrow>
   (if keys = None \<and> env_var V ''OMP_DEFER_REPROBE'' = None then run_auto_reprobe V idx else ret (idx, [])) = ret (idx, [])"
  by (auto simp: no_reprobe_def run_auto_reprobe_def)

text \<open>The part of \<open>commit_with_keys\<close> after the index was read and the lock taken.\<close>

definition commit_rest :: "repo_env \<Rightarrow> str \<Rightarrow> author \<Rightarrow> tenant_keys option \<Rightarrow> index \<Rightarrow> (hash \<times> reprobe_summary list) op" where
  "commit_rest V message a keys idx =
     bind_op (reads (head_tree V)) (\<lambda>root0.
     bind_op (apply_changes V (map_option path_key keys) root0 (map snd (map_order V idx))) (\<lambda>root.
     bind_op (lift_res (ok_or (Conflict ''commit would be empty'') root)) (\<lambda>root_hash.
     bind_op (reads (head_commit V)) (\<lambda>parent.
     bind_op (lift_res (serialize_with_commit_key (rx V) (map_option commit_key keys)
        \<lparr>commit_tree = root_hash, commit_parents = (case parent of Some p \<Rightarrow> [p] | None \<Rightarrow> []),
         commit_author = a, commit_message = message\<rparr>)) (\<lambda>cb.
     bind_op (disk_put (rx V) ''commit'' cb) (\<lambda>ch.
     bind_op (advance_head V ch) (\<lambda>_.
     bind_op (save_index V []) (\<lambda>_.
     ret (ch, [])))))))))"

lemma commit_with_keys_rest:
  assumes "load_index V s = Ok idx" "idx \<noteq> []" "lock_refs s = (Ok (), s1)"
    and "local_load (rx V) (env_var V) s1 = Ok l" "no_reprobe V keys idx"
  shows "commit_with_keys V message author keys s =
    commit_rest V message (author_of V l (given author no_override)) keys idx s1"
  using assms by (simp add: commit_with_keys_def commit_rest_def Let_def bind_op_def [of "reads (load_index V)"]
      bind_op_def [of lock_refs] bind_op_def [of "reads (local_load (rx V) (env_var V))"] reprobe_none
      bind_op_def [of "ret (idx, [])"])

text \<open>What \<open>commit\<close> promises when the edits of the staged changes give the files \<open>v\<close>.\<close>

definition committed :: "repo_env \<Rightarrow> tenant_keys option \<Rightarrow> hash option \<Rightarrow> file_map \<Rightarrow> hash \<Rightarrow> commit \<Rightarrow> disk \<Rightarrow> bool" where
  "committed V keys parent v h c s' \<longleftrightarrow>
     head_commit V s' = Ok (Some h) \<and>
     (\<exists>cb. disk_get (rx V) s' h = Ok (Some (''commit'', cb)) \<and>
           parse_with_commit_key (rx V) (map_option commit_key keys) cb = Ok (commit_norm c)) \<and>
     commit_parents c = (case parent of Some p \<Rightarrow> [p] | None \<Rightarrow> []) \<and>
     head_tree V s' = Ok (Some (commit_tree c)) \<and>
     tree_files (rx V) (map_option path_key keys) s' (Some (commit_tree c)) = v \<and>
     load_index V s' = Ok []"

lemma write_puts:
  "write_ref n h s = (r, s') \<Longrightarrow> puts s' = puts s" "write_head v s = (r', s') \<Longrightarrow> puts s' = puts s"
  "write_file p bs s = (r'', s') \<Longrightarrow> puts s' = puts s"
  by (auto simp: write_ref_def write_head_def write_file_def write_atomic_def create_dir_def bind_op_def
      split: sum.splits prod.splits if_splits)

lemma advance_head_extends: "advance_head V h s = (r, s') \<Longrightarrow> extends s s'"
  by (auto simp: advance_head_def split: head.splits elim!: bind_op_extends dest: write_puts [THEN extends_puts_eq])

lemma commit_rest_extends:
  assumes "apply_changes V (map_option path_key keys) root (map snd (map_order V idx)) s = (r1, s1)" "r1 = Ok ro"
    and "head_tree V s = Ok root" "commit_rest V message a keys idx s = (r, s')"
  shows "extends s1 s'"
proof -
  have "bind_op (lift_res (ok_or (Conflict ''commit would be empty'') ro)) (\<lambda>root_hash.
     bind_op (reads (head_commit V)) (\<lambda>parent.
     bind_op (lift_res (serialize_with_commit_key (rx V) (map_option commit_key keys)
        \<lparr>commit_tree = root_hash, commit_parents = (case parent of Some p \<Rightarrow> [p] | None \<Rightarrow> []),
         commit_author = a, commit_message = message\<rparr>)) (\<lambda>cb.
     bind_op (disk_put (rx V) ''commit'' cb) (\<lambda>ch.
     bind_op (advance_head V ch) (\<lambda>_.
     bind_op (save_index V []) (\<lambda>_.
     ret (ch, []))))))) s1 = (r, s')"
    using assms by (simp add: commit_rest_def bind_op_def [of "reads (head_tree V)"] bind_op_def [of "apply_changes _ _ _ _"])
  then show ?thesis
    by (auto simp: save_index_def elim!: bind_op_extends dest: disk_put_extends advance_head_extends
        write_puts [THEN extends_puts_eq])
qed

lemma commit_rest_extends': "commit_rest V message a keys idx s = (r, s') \<Longrightarrow> extends s s'"
  by (auto simp: commit_rest_def save_index_def elim!: bind_op_extends dest: apply_changes_extends disk_put_extends
      advance_head_extends write_puts [THEN extends_puts_eq])

lemma commit_rest_spec:
  assumes ok: "repo_ok (rx V) (map_option path_key keys) s"
    and idx: "load_index V s = Ok idx" "[''index.json''] \<notin> dirs s" "json_reads V []"
    and head: "head_on b s" "head_tree V s = Ok root" "root_ok (rx V) s root"
    and ds: "list_all2 (change_edit (rx V) (map_option path_key keys) s) (map snd (map_order V idx)) ds"
      "edits ds (tree_files (rx V) (map_option path_key keys) s root) \<noteq> Some (\<lambda>_. None)"
    and msg: "author_ok a" "utf8_valid message" "commit_key_ok (rx V) (map_option commit_key keys)"
      "\<And>c. commit_message c = message \<Longrightarrow> message_fits (map_option commit_key keys) c"
    and run: "commit_rest V message a keys idx s = (r, s')" "collision_free (rx V) s'"
  shows "repo_ok (rx V) (map_option path_key keys) s' \<and>
    (case edits ds (tree_files (rx V) (map_option path_key keys) s root) of
       None \<Rightarrow> r = Err (Conflict ''segment is not a directory'') \<and> head_commit V s' = head_commit V s \<and>
         load_index V s' = Ok idx
     | Some v \<Rightarrow> \<exists>h c parent. head_commit V s = Ok parent \<and> r = Ok (h, []) \<and>
         commit_author c = a \<and> commit_message c = message \<and> root_ok (rx V) s' (Some (commit_tree c)) \<and>
         committed V keys parent v h c s')"
proof -
  let ?pk = "map_option path_key keys" and ?ck = "map_option commit_key keys"
  obtain parent where parent: "resolve_head (reader V s) = Ok parent"
    using head(2) by (auto simp: head_tree_def res_simps)
  have pwf: "hash_wf p" if "parent = Some p" for p
    using parent that head_on_resolve [OF head(1)] read_ref_wf by metis
  obtain r1 s1 where s1: "apply_changes V ?pk root (map snd (map_order V idx)) s = (r1, s1)" by force
  have out: "same_below n s s1" if "n \<noteq> ''objects''" for n
    using same_outside_below [OF apply_changes_same [OF s1] that] .
  have ref: "repo_ok (rx V) ?pk s1 \<and> (case edits ds (tree_files (rx V) ?pk s root) of
       None \<Rightarrow> r1 = Err (Conflict ''segment is not a directory'')
     | Some v \<Rightarrow> \<exists>ro. r1 = Ok ro \<and> root_ok (rx V) s1 ro \<and> tree_files (rx V) ?pk s1 ro = v)"
    if "collision_free (rx V) s1" using apply_changes_refines [OF ok head(3) ds(1) s1 that] .
  have fs: "fs_ok s1" if "repo_ok (rx V) ?pk s1" using repo_okD(1) [OF that] by (simp add: disk_ok_def)
  have fs0: "fs_ok s" using repo_okD(1) [OF ok] by (simp add: disk_ok_def)
  show ?thesis
  proof (cases r1)
    case (Inl e)
    then have "r = Err e" "s' = s1" using run(1) s1 head(2) by (auto simp: commit_rest_def bind_op_def)
    then have "repo_ok (rx V) ?pk s'" "edits ds (tree_files (rx V) ?pk s root) = None"
        "r = Err (Conflict ''segment is not a directory'')"
      using ref run(2) Inl by (auto split: option.splits)
    moreover from this have "resolve_head (reader V s') = resolve_head (reader V s)" "load_index V s' = Ok idx"
      using head_on_same(2) [OF fs0 fs _ _ head(1)] load_index_same [OF fs0 fs] out \<open>s' = s1\<close> idx(1) by simp_all
    ultimately show ?thesis by (simp add: head_commit_def)
  next
    case (Inr ro)
    have cf1: "collision_free (rx V) s1"
      using collision_free_mono [OF commit_rest_extends [OF s1 Inr head(2) run(1)] run(2)] .
    then obtain v where v: "edits ds (tree_files (rx V) ?pk s root) = Some v" "repo_ok (rx V) ?pk s1"
        "root_ok (rx V) s1 ro" "tree_files (rx V) ?pk s1 ro = v"
      using ref Inr by (auto split: option.splits)
    then obtain t where t: "ro = Some t" using ds(2) by (cases ro) auto
    let ?c = "\<lparr>commit_tree = t, commit_parents = (case parent of Some p \<Rightarrow> [p] | None \<Rightarrow> []),
      commit_author = a, commit_message = message\<rparr>"
    have twf: "hash_wf t" using v(3) t repo_okD(2) [OF v(2)] by (auto simp: root_ok_def tree_in_def list_ex_iff)
    then have wf: "commit_wf ?c" using pwf msg(1,2) by (simp add: commit_wf_def split: option.splits)
    obtain cb where cb: "serialize_with_commit_key (rx V) ?ck ?c = Ok cb"
        "parse_with_commit_key (rx V) ?ck cb = Ok (commit_norm ?c)"
      using commit_round_trip [OF wf msg(4,3)] by auto
    have "utf8_valid cb" using cb(2) by (auto simp: parse_with_commit_key_def split: if_splits)
    moreover have on1: "head_on b s1" "resolve_head (reader V s1) = Ok parent"
      using head_on_same [OF fs0 fs [OF v(2)] _ _ head(1)] out parent by simp_all
    moreover have "[''index.json''] \<notin> dirs s1" using idx(2) out [of "''index.json''"] by (simp add: same_below_def)
    ultimately obtain s2 s3 s4 where tail: "disk_put (rx V) ''commit'' cb s1 = (Ok (hash_of (rx V) Commit cb), s2)"
        "advance_head V (hash_of (rx V) Commit cb) s2 = (Ok (), s3)" "save_index V [] s3 = (Ok (), s4)"
        "puts s4 = frame Commit cb # puts s1" "disk_ok (rx V) s4" "load_index V s4 = Ok []"
        "collision_free (rx V) s4 \<Longrightarrow> repo_ok (rx V) ?pk s4 \<and> head_commit V s4 = Ok (Some (hash_of (rx V) Commit cb)) \<and>
           disk_get (rx V) s4 (hash_of (rx V) Commit cb) = Ok (Some (''commit'', cb)) \<and> head_tree V s4 = Ok (Some (commit_tree ?c))"
      using commit_tail [OF v(2) on1(1) _ idx(3) _ cb(1)] twf by (metis commit.select_convs(1))
    have ext: "extends s1 s4" using tail(4) by (rule extends_put)
    have r: "r = Ok (hash_of (rx V) Commit cb, [])" "s' = s4"
      using run(1) s1 Inr head(2) t on1(2) cb(1) tail(1-3) by (auto simp: commit_rest_def bind_op_def head_commit_def)
    have "tree_files (rx V) ?pk s4 ro = v"
      using tree_files_later [OF v(2) tail(5) _ ext v(3)] run(2) r(2) v(4) by simp
    moreover have "root_ok (rx V) s4 ro" using root_ok_later [OF ext v(3)] .
    ultimately have "committed V keys parent v (hash_of (rx V) Commit cb) ?c s4" "root_ok (rx V) s4 (Some (commit_tree ?c))"
      using tail(6,7) run(2) r(2) cb(2) t by (auto simp: committed_def)
    moreover have "commit_author ?c = a" "commit_message ?c = message" by simp_all
    moreover have "repo_ok (rx V) ?pk s'" "head_commit V s = Ok parent"
      using tail(7) run(2) r(2) parent by (simp_all add: head_commit_def)
    ultimately show ?thesis unfolding v(1) option.case r by blast
  qed
qed

section \<open>Properties\<close>

lemma commit_refines:
  assumes "repo_ok (rx V) (map_option path_key keys) s"
    and "load_index V s = Ok idx" "idx \<noteq> []" "[''index.json''] \<notin> dirs s" "[''refs.lock''] \<notin> dirs s" "json_reads V []"
    and "local_load (rx V) (env_var V) s = Ok l" "no_reprobe V keys idx"
    and "head_on b s" "head_tree V s = Ok root" "root_ok (rx V) s root"
    and "list_all2 (change_edit (rx V) (map_option path_key keys) s) (map snd (map_order V idx)) ds"
    and "edits ds (tree_files (rx V) (map_option path_key keys) s root) \<noteq> Some (\<lambda>_. None)"
    and "author_ok (author_of V l (given author no_override))" "utf8_valid message"
    and "commit_key_ok (rx V) (map_option commit_key keys)"
    and "\<And>c. commit_message c = message \<Longrightarrow> message_fits (map_option commit_key keys) c"
    and "commit_with_keys V message author keys s = (r, s')" "collision_free (rx V) s'"
  shows "repo_ok (rx V) (map_option path_key keys) s' \<and>
    (case edits ds (tree_files (rx V) (map_option path_key keys) s root) of
       None \<Rightarrow> r = Err (Conflict ''segment is not a directory'') \<and> head_commit V s' = head_commit V s \<and>
         load_index V s' = Ok idx
     | Some v \<Rightarrow> \<exists>h c parent. head_commit V s = Ok parent \<and> r = Ok (h, []) \<and>
         commit_author c = author_of V l (given author no_override) \<and> commit_message c = message \<and>
         root_ok (rx V) s' (Some (commit_tree c)) \<and> committed V keys parent v h c s')"
proof -
  let ?pk = "map_option path_key keys"
  have d: "disk_ok (rx V) s" using repo_okD(1) [OF assms(1)] .
  obtain s1 where s1: "lock_refs s = (Ok (), s1)" "disk_ok (rx V) s1" "puts s1 = puts s" "dirs s1 = dirs s"
      "\<And>n. n \<noteq> ''refs.lock'' \<Longrightarrow> same_below n s s1"
    using lock_refs_ok [OF d assms(5)] by metis
  have fs: "fs_ok s" "fs_ok s1" using d s1(2) by (simp_all add: disk_ok_def)
  have ok1: "repo_ok (rx V) ?pk s1" using repo_ok_puts [OF assms(1) s1(2,3)] .
  have get: "disk_get (rx V) s1 = disk_get (rx V) s" using disk_get_same [OF fs s1(5)] by simp
  have head: "head_on b s1" "resolve_head (reader V s1) = resolve_head (reader V s)"
    using head_on_same [OF fs _ _ assms(9)] s1(5) by simp_all
  have "tree_of_commit V s1 h = tree_of_commit V s h" for h by (simp add: tree_of_commit_def get_object_def get)
  then have tree: "head_tree V s1 = Ok root" using assms(10) unfolding head_tree_def head(2) by simp
  have rest: "commit_rest V message (author_of V l (given author no_override)) keys idx s1 = (r, s')"
    using commit_with_keys_rest [OF assms(2,3) s1(1) _ assms(8)] local_load_same [OF fs s1(5)] assms(7,18) by simp
  have cf1: "collision_free (rx V) s1" using collision_free_mono [OF commit_rest_extends' [OF rest] assms(19)] .
  have files: "tree_files (rx V) ?pk s1 root = tree_files (rx V) ?pk s root"
    using tree_files_later [OF assms(1) s1(2) cf1 extends_puts_eq [OF s1(3)] assms(11)] .
  have "list_all2 (change_edit (rx V) ?pk s1) (map snd (map_order V idx)) ds"
    using assms(12) change_edit_later [OF extends_puts_eq [OF s1(3)]] by (auto elim!: list_all2_mono)
  moreover have "root_ok (rx V) s1 root" using root_ok_later [OF extends_puts_eq [OF s1(3)] assms(11)] .
  moreover have "load_index V s1 = Ok idx" using load_index_same [OF fs s1(5)] assms(2) by simp
  moreover have hc: "head_commit V s1 = head_commit V s" using head(2) by (simp add: head_commit_def)
  moreover have "[''index.json''] \<notin> dirs s1" using assms(4) s1(4) by simp
  ultimately show ?thesis
    using commit_rest_spec [OF ok1 _ _ assms(6) head(1) tree _ _ _ assms(14-17) rest assms(19), of ds, unfolded files hc]
      assms(13) by blast
qed

text \<open>
  C1. A commit. With at least one staged change, and no staged schema that changes other
  manifests, \<open>commit\<close> applies the edits of the staged changes to the files of \<open>HEAD\<close> in
  the order the hash map yields them. If an edit would write below a file it fails with
  \<open>Conflict\<close>, and \<open>HEAD\<close> and the index are as before. Otherwise the branch moves to a new
  commit whose only parent is the old one, whose author and message are those given,
  and whose tree holds exactly the edited files; the index is empty. This holds for
  plain and for encrypted repositories.
\<close>

theorem commit_spec:
  assumes "repo_ok (rx V) (map_option path_key keys) s"
    and "load_index V s = Ok idx" "idx \<noteq> []" "[''index.json''] \<notin> dirs s" "[''refs.lock''] \<notin> dirs s" "json_reads V []"
    and "local_load (rx V) (env_var V) s = Ok l" "no_reprobe V keys idx"
    and "head_on b s" "head_tree V s = Ok root" "root_ok (rx V) s root"
    and "list_all2 (change_edit (rx V) (map_option path_key keys) s) (map snd (map_order V idx)) ds"
    and "edits ds (tree_files (rx V) (map_option path_key keys) s root) \<noteq> Some (\<lambda>_. None)"
    and "author_ok (author_of V l (given author no_override))" "utf8_valid message"
    and "commit_key_ok (rx V) (map_option commit_key keys)"
    and "\<And>c. commit_message c = message \<Longrightarrow> message_fits (map_option commit_key keys) c"
    and "commit_with_keys V message author keys s = (r, s')" "collision_free (rx V) s'"
  shows "repo_ok (rx V) (map_option path_key keys) s' \<and>
    (case edits ds (tree_files (rx V) (map_option path_key keys) s root) of
       None \<Rightarrow> r = Err (Conflict ''segment is not a directory'') \<and> head_commit V s' = head_commit V s \<and>
         load_index V s' = Ok idx
     | Some v \<Rightarrow> \<exists>h c parent. head_commit V s = Ok parent \<and> r = Ok (h, []) \<and>
         commit_author c = author_of V l (given author no_override) \<and> commit_message c = message \<and>
         root_ok (rx V) s' (Some (commit_tree c)) \<and> committed V keys parent v h c s')"
  using assms by (rule commit_refines)

text \<open>
  A repository with one staged manifest, for the witnesses: the toy primitives, with a
  TOML parser that reads every text as the same manifest.
\<close>

definition doc_ext :: ext where
  "doc_ext = toy_ext\<lparr>toml_parse := (\<lambda>s. Inr (case manifest_to_doc toy_ext sample_manifest of Inr d \<Rightarrow> d | Inl _ \<Rightarrow> []))\<rparr>"

lemma doc_ext_ok [simp]: "sha_ok doc_ext" "zlib_ok doc_ext" "store_env doc_ext"
  using toy_sha_ok toy_zlib_ok by (simp_all add: doc_ext_def sha_ok_def zlib_ok_def store_env_def)

definition toy_env :: "index \<Rightarrow> repo_env" where
  "toy_env i = \<lparr>rx = doc_ext, index_show = (\<lambda>idx. if idx = [] then ''{}'' else ''{1}''),
     index_read = (\<lambda>t. if t = ''{}'' then Inr [] else Inr i), map_order = (\<lambda>idx. idx),
     raw_schema_of = (\<lambda>_. Inl ''none''), infer_mime = (\<lambda>_. None), run_probe = (\<lambda>_ _ _ _ _. Err (Internal ''none'')),
     args_json = (\<lambda>_. []), starter_probes = [], work_file = (\<lambda>_. None), work_schemas = [], env_var = (\<lambda>_. None),
     now = ''2024-01-01T00:00:00Z'', quotas_of = unlimited, tenant_of = ''_local'',
     dir_listing = (\<lambda>s d. sorted_list_of_set (dir_names s d))\<rparr>"

definition toy_change :: staged_change where
  "toy_change = \<lparr>sc_path = ''notes.md'', sc_kind = Upsert, sc_hash = Some (hash_of doc_ext Manifest ''hi'')\<rparr>"

definition toy_index :: index where
  "toy_index = [(''notes.md'', toy_change)]"

definition toy_staged :: disk where
  "toy_staged = snd (save_index (toy_env toy_index) toy_index (snd (disk_put doc_ext ''manifest'' ''hi'' fresh_disk)))"

lemma fresh_head_on: "head_on ''main'' fresh_disk"
proof -
  have "read_head fresh_disk = Ok ''ref: refs/heads/main''"
    using disk_init_empty [of doc_ext] by (auto simp: fresh_disk_def)
  moreover have "parse_head ''ref: refs/heads/main'' = Ok (HeadBranch (branch_ref ''main''))"
    by (simp add: parse_head_def strip_prefix_def branch_ref_def trim_def trim_end_def ws1_def ws2_def ws3_def Let_def)
  ultimately show ?thesis by (simp add: head_on_def fresh_disk_dirs branch_name_def starts_with_def)
qed

lemma toy_staged_ok:
  "disk_ok doc_ext toy_staged" "puts toy_staged = [frame Manifest ''hi'']" "load_index (toy_env toy_index) toy_staged = Ok toy_index"
  "head_on ''main'' toy_staged" "[''refs.lock''] \<notin> dirs toy_staged" "[''index.json''] \<notin> dirs toy_staged"
  "same_below ''refs'' fresh_disk toy_staged" "same_below ''local.toml'' fresh_disk toy_staged"
proof -
  obtain s1 where s1: "disk_put doc_ext ''manifest'' ''hi'' fresh_disk = (Ok (hash_of doc_ext Manifest ''hi''), s1)"
      "disk_ok doc_ext s1" "puts s1 = [frame Manifest ''hi'']"
    using disk_put_ok [OF fresh_disk_ok(1) doc_ext_ok(1) doc_ext_ok(2), of Manifest "''hi''"] by auto
  have b1: "same_below n fresh_disk s1" if "n \<noteq> ''objects''" for n
    using same_outside_below [OF disk_put_same [OF s1(1)] that] .
  have nd: "[''index.json''] \<notin> dirs s1" "[''refs.lock''] \<notin> dirs s1"
    using b1 [of "''index.json''"] b1 [of "''refs.lock''"] by (simp_all add: same_below_def fresh_disk_dirs)
  let ?s = "s1\<lparr>files := (files s1)([''index.json''] \<mapsto> ''{1}'')\<rparr>"
  have w: "write_file [''index.json''] ''{1}'' s1 = (Ok (), ?s)" "disk_ok doc_ext ?s"
    using write_top [OF s1(2) _ nd(1)] by simp_all
  have eq: "toy_staged = ?s"
    using w(1) s1(1) by (simp add: toy_staged_def save_index_def toy_env_def toy_index_def)
  have fs: "fs_ok fresh_disk" "fs_ok ?s" using fresh_disk_ok(1) [of doc_ext] w(2) by (simp_all add: disk_ok_def)
  have b2: "same_below n fresh_disk ?s" if "n \<noteq> ''objects''" "n \<noteq> ''index.json''" for n
    using same_below_trans [OF b1 [OF that(1)] same_below_write [OF that(2)]] .
  have "files s1 [] = None" using s1(2) by (simp add: disk_ok_def fs_ok_def)
  then show "load_index (toy_env toy_index) toy_staged = Ok toy_index"
    using nd(1) by (simp add: eq load_index_def path_exists_def read_to_string_def read_file_def toy_env_def
        utf8_valid_ascii is_ascii_def)
  show "head_on ''main'' toy_staged" unfolding eq using head_on_same(1) [OF fs b2 b2 fresh_head_on] by simp
  show "same_below ''refs'' fresh_disk toy_staged" "same_below ''local.toml'' fresh_disk toy_staged"
    unfolding eq by (rule b2; simp)+
  show "disk_ok doc_ext toy_staged" "puts toy_staged = [frame Manifest ''hi'']"
    "[''refs.lock''] \<notin> dirs toy_staged" "[''index.json''] \<notin> dirs toy_staged"
    unfolding eq using w(2) nd s1(3) by simp_all
qed

text \<open>The commit of the staged file, step by step.\<close>

definition toy_author :: author where
  "toy_author = \<lparr>author_name = ''omp'', author_email = ''omp@local'', author_timestamp = ''2024-01-01T00:00:00Z''\<rparr>"

lemma toy_rx [simp]: "rx (toy_env i) = doc_ext" "env_var (toy_env i) n = None" "map_order (toy_env i) idx = idx"
  by (simp_all add: toy_env_def)

lemma toy_repo_ok: "repo_ok doc_ext None toy_staged"
  using toy_staged_ok(1,2) by (simp add: repo_ok_def tree_node_ok_def parse_framed_frame U64_MAX_def)

lemma toy_local: "local_load doc_ext (env_var (toy_env i)) toy_staged = Ok default_local"
proof -
  have fs: "fs_ok fresh_disk" "fs_ok toy_staged"
    using fresh_disk_ok(1) [of doc_ext] toy_staged_ok(1) by (simp_all add: disk_ok_def)
  have "local_load doc_ext (env_var (toy_env i)) fresh_disk = Ok default_local"
    by (simp add: local_load_def path_exists_def fresh_disk_dirs fresh_disk_files given_def default_local_def)
  then show ?thesis using local_load_same [OF fs toy_staged_ok(8)] by simp
qed

lemma toy_head: "head_tree (toy_env i) toy_staged = Ok None" "head_commit (toy_env i) toy_staged = Ok None"
proof -
  have fs: "fs_ok fresh_disk" "fs_ok toy_staged"
    using fresh_disk_ok(1) [of doc_ext] toy_staged_ok(1) by (simp_all add: disk_ok_def)
  have b: "branch_name ''main''" by (simp add: branch_name_def starts_with_def)
  have "read_ref fresh_disk (branch_ref ''main'') = Ok None"
    using ref_path_branch [OF b] by (simp add: read_ref_def read_to_string_def read_file_def fresh_disk_dirs fresh_disk_files)
  then have "resolve_head (reader (toy_env i) toy_staged) = Ok None"
    using head_on_resolve [OF toy_staged_ok(4)] branch_ref_same [OF fs toy_staged_ok(7) b] by simp
  then show "head_tree (toy_env i) toy_staged = Ok None" "head_commit (toy_env i) toy_staged = Ok None"
    by (simp_all add: head_tree_def head_commit_def)
qed

lemma toy_author_ok: "author_ok toy_author"
  by (simp add: toy_author_def author_ok_def author_format_def trim_end_def ws1_def ws2_def ws3_def is_ascii_def utf8_valid_ascii)

lemma toy_author_of: "author_of (toy_env i) default_local (given None no_override) = toy_author"
  by (simp add: author_of_def given_def no_override_def default_local_def toy_author_def toy_env_def)

lemma toy_message: "commit_message c = ''m'' \<Longrightarrow> message_fits None c" "utf8_valid ''m''"
  by (simp_all add: message_fits_def trim_end_matches_def starts_with_def ENCRYPTED_MESSAGE_PREFIX_def
      utf8_valid_ascii is_ascii_def)

lemma toy_json: "json_reads (toy_env i) []"
  by (simp add: json_reads_def toy_env_def utf8_valid_ascii is_ascii_def)

definition toy_edit :: file_edit where
  "toy_edit = ([''notes.md''], Some (MManifest, hash_of doc_ext Manifest ''hi''))"

lemma toy_change_edit: "change_edit doc_ext None toy_staged toy_change toy_edit"
  using sample_split sample_name_fits [of None] toy_staged_ok(2)
  by (auto simp: change_edit_def toy_change_def toy_edit_def)

lemma toy_edits:
  "edits [toy_edit] (tree_files doc_ext None toy_staged None) = Some (put_files [''notes.md''] (MManifest, hash_of doc_ext Manifest ''hi'') (\<lambda>_. None))"
  by (simp add: toy_edit_def through_file_def)

text \<open>The three objects of the repository end differently, so their toy digests differ.\<close>

lemma toy_digests:
  assumes "set (puts s) \<subseteq> {a @ ''m'' @ [LF], b @ ''d'' @ [LF], c @ ''i''}"
    and "length a \<le> 1000" "length b \<le> 1000" "length c \<le> 1000"
  shows "collision_free doc_ext s"
proof -
  have "inj_on (sha256 doc_ext) {a @ ''m'' @ [LF], b @ ''d'' @ [LF], c @ ''i''}"
    by (simp add: inj_on_def doc_ext_def toy_ext_def pad_to_def)
  then have "inj_on (sha256 doc_ext) (set (puts s))" using assms(1) by (rule inj_on_subset)
  then show ?thesis using assms by (auto simp: collision_free_def U64_MAX_def)
qed

definition toy_tree :: tree where
  "toy_tree = [(''notes.md'', \<lparr>entry_mode = MManifest, entry_hash = hash_of doc_ext Manifest ''hi''\<rparr>)]"

lemma toy_frames:
  obtains b c where "frame Tree (tree_serialize toy_tree) = b @ ''d'' @ [LF]" "length b \<le> 1000"
    "frame Manifest ''hi'' = c @ ''i''" "length c \<le> 1000"
proof -
  obtain x where x: "tree_serialize toy_tree = x @ ''d'' @ [LF]" "length x = 81"
    using length_hash_hex [OF hash_of_wf [OF doc_ext_ok(1), of Manifest "''hi''"]]
    by (simp add: tree_serialize_def tree_line_def toy_tree_def)
  show thesis
    by (rule that [of "''tree '' @ show_nat 83 @ [NUL] @ x" "''manifest '' @ show_nat (length ''hi'') @ [NUL] @ ''h''"])
      (simp_all add: frame_def x show_nat.simps)
qed

lemma toy_commit_frame:
  assumes "hash_wf h"
  obtains a cb where "serialize_with_commit_key doc_ext None
      \<lparr>commit_tree = h, commit_parents = [], commit_author = toy_author, commit_message = ''m''\<rparr> = Ok cb"
    "frame Commit cb = a @ ''m'' @ [LF]" "length a \<le> 1000"
proof -
  let ?x = "concat (map (\<lambda>l. l @ [LF]) (commit_headers
      \<lparr>commit_tree = h, commit_parents = [], commit_author = toy_author, commit_message = ''m''\<rparr>)) @ [LF]"
  have len: "length ?x = 115"
    using length_hash_hex [OF assms] by (simp add: commit_headers_def author_format_def toy_author_def)
  have "serialize_with_commit_key doc_ext None
      \<lparr>commit_tree = h, commit_parents = [], commit_author = toy_author, commit_message = ''m''\<rparr> = Ok (?x @ ''m'' @ [LF])"
    by (simp add: serialize_with_commit_key_def trim_end_matches_def)
  moreover have "frame Commit (?x @ ''m'' @ [LF]) = (''commit '' @ show_nat 117 @ [NUL] @ ?x) @ ''m'' @ [LF]"
    using len by (simp add: frame_def)
  moreover have "length (''commit '' @ show_nat 117 @ [NUL] @ ?x) \<le> 1000"
    using len by (simp add: show_nat.simps)
  ultimately show thesis by (rule that)
qed

lemma toy_apply:
  assumes "disk_ok doc_ext s" "puts s = [frame Manifest ''hi'']"
  obtains s' where "apply_changes (toy_env i) None None [toy_change] s = (Ok (Some (hash_of doc_ext Tree (tree_serialize toy_tree))), s')"
    "disk_ok doc_ext s'" "puts s' = [frame Tree (tree_serialize toy_tree), frame Manifest ''hi'']" "same_outside s s'"
proof -
  have cf: "collision_free doc_ext s" using assms(2) by (simp add: collision_free_def frame_def show_nat.simps U64_MAX_def)
  have mode: "stored_mode (toy_env i) s (hash_of doc_ext Manifest ''hi'') = Ok MManifest"
    using stored_mode_of [of "toy_env i" s Manifest "''hi''" MManifest] assms cf by simp
  obtain s' where put: "disk_put doc_ext (type_as_str Tree) (tree_serialize toy_tree) s = (Ok (hash_of doc_ext Tree (tree_serialize toy_tree)), s')"
      "disk_ok doc_ext s'" "puts s' = frame Tree (tree_serialize toy_tree) # puts s"
    using disk_put_ok [OF assms(1) doc_ext_ok(1) doc_ext_ok(2)] by blast
  have run: "apply_changes (toy_env i) None None [toy_change] s = (Ok (Some (hash_of doc_ext Tree (tree_serialize toy_tree))), s')"
    using mode put(1) sample_split sample_name_fits [of None]
    by (simp add: apply_change_def toy_change_def bind_op_def put_at_with_key_def load_or_new_def toy_tree_def
        store_tree_with_key_def tree_serialize_with_path_key_def)
  show thesis using that [OF run put(2)] put(3) assms(2) apply_changes_same [OF run] by simp
qed

lemma toy_commit_run:
  obtains h s cb where "commit_with_keys (toy_env toy_index) ''m'' None None toy_staged = (Ok (h, []), s)" "collision_free doc_ext s"
    "disk_ok doc_ext s" "repo_ok doc_ext None s" "hash_wf h" "puts s = [frame Commit cb, frame Tree (tree_serialize toy_tree), frame Manifest ''hi'']"
    "head_commit (toy_env toy_index) s = Ok (Some h)"
    "tree_of_commit (toy_env toy_index) s h = Ok (hash_of doc_ext Tree (tree_serialize toy_tree))"
proof -
  let ?V = "toy_env toy_index"
  obtain s1 where s1: "lock_refs toy_staged = (Ok (), s1)" "disk_ok doc_ext s1" "puts s1 = puts toy_staged"
      "dirs s1 = dirs toy_staged" "\<And>n. n \<noteq> ''refs.lock'' \<Longrightarrow> same_below n toy_staged s1"
    using lock_refs_ok [OF toy_staged_ok(1,5)] by metis
  let ?t = "hash_of doc_ext Tree (tree_serialize toy_tree)"
  have twf: "hash_wf ?t" using hash_of_wf [OF doc_ext_ok(1)] .
  obtain s2 where s2: "apply_changes ?V None None [toy_change] s1 = (Ok (Some ?t), s2)" "disk_ok doc_ext s2"
      "puts s2 = [frame Tree (tree_serialize toy_tree), frame Manifest ''hi'']" "same_outside s1 s2"
    using toy_apply [OF s1(2)] s1(3) toy_staged_ok(2) by metis
  have fs: "fs_ok toy_staged" "fs_ok s1" "fs_ok s2"
    using toy_staged_ok(1) s1(2) s2(2) by (simp_all add: disk_ok_def)
  have head1: "head_on ''main'' s1" "resolve_head (reader ?V s1) = resolve_head (reader ?V toy_staged)"
    using head_on_same [OF fs(1,2) _ _ toy_staged_ok(4)] s1(5) by simp_all
  have b2: "same_below n s1 s2" if "n \<noteq> ''objects''" for n using same_outside_below [OF s2(4) that] .
  have head2: "head_on ''main'' s2" "resolve_head (reader ?V s2) = resolve_head (reader ?V s1)"
    using head_on_same [OF fs(2,3) _ _ head1(1)] b2 by simp_all
  have none: "resolve_head (reader ?V s1) = Ok None" "resolve_head (reader ?V s2) = Ok None"
    using toy_head(2) [of toy_index] head1(2) head2(2) by (simp_all add: head_commit_def)
  let ?c = "\<lparr>commit_tree = ?t, commit_parents = [], commit_author = toy_author, commit_message = ''m''\<rparr>"
  obtain b c where bc: "frame Tree (tree_serialize toy_tree) = b @ ''d'' @ [LF]" "length b \<le> 1000"
    "frame Manifest ''hi'' = c @ ''i''" "length c \<le> 1000" by (rule toy_frames)
  obtain a cb where cb: "serialize_with_commit_key doc_ext None ?c = Ok cb" "frame Commit cb = a @ ''m'' @ [LF]" "length a \<le> 1000"
    by (rule toy_commit_frame [OF twf])
  have "parse_with_commit_key doc_ext None cb = Ok (commit_norm ?c)"
    using commit_round_trip [of ?c None doc_ext] twf toy_author_ok toy_message cb(1)
    by (auto simp: commit_wf_def commit_key_ok_def)
  then have valid: "utf8_valid cb" by (auto simp: parse_with_commit_key_def split: if_splits)
  have "collision_free doc_ext s2" by (rule toy_digests [OF _ cb(3) bc(2,4)]) (use s2(3) bc in auto)
  then have ok: "repo_ok (rx ?V) None s2"
    using apply_changes_refines [of ?V None s1 None "[toy_change]" "[toy_edit]"] s2(1) repo_ok_puts [OF toy_repo_ok s1(2,3)]
      change_edit_later [OF extends_puts_eq [OF s1(3)] toy_change_edit] by (simp add: root_ok_def)
  have idx: "[''index.json''] \<notin> dirs s2"
    using toy_staged_ok(6) s1(4) b2 [of "''index.json''"] by (simp add: same_below_def)
  have pre: "hash_wf (commit_tree ?c)" "serialize_with_commit_key (rx ?V) None ?c = Ok cb" using twf cb(1) by simp_all
  obtain s3 s4 s5 where tail: "disk_put doc_ext ''commit'' cb s2 = (Ok (hash_of doc_ext Commit cb), s3)"
      "advance_head ?V (hash_of doc_ext Commit cb) s3 = (Ok (), s4)" "save_index ?V [] s4 = (Ok (), s5)"
      "puts s5 = frame Commit cb # puts s2" "disk_ok doc_ext s5"
      "collision_free doc_ext s5 \<Longrightarrow> repo_ok doc_ext None s5 \<and> head_commit ?V s5 = Ok (Some (hash_of doc_ext Commit cb)) \<and> head_tree ?V s5 = Ok (Some ?t)"
    using commit_tail [OF ok head2(1) idx toy_json pre valid] unfolding toy_rx by (metis commit.select_convs(1))
  have "commit_rest ?V ''m'' toy_author None toy_index s1 = (Ok (hash_of doc_ext Commit cb, []), s5)"
    using s2(1) none cb(1) tail(1-3)
    by (simp add: commit_rest_def bind_op_def head_tree_def head_commit_def toy_index_def)
  moreover have "local_load doc_ext (env_var ?V) s1 = Ok default_local"
    using local_load_same [OF fs(1,2) s1(5)] toy_local by simp
  ultimately have "commit_with_keys ?V ''m'' None None toy_staged = (Ok (hash_of doc_ext Commit cb, []), s5)"
    using commit_with_keys_rest [OF toy_staged_ok(3) _ s1(1), of default_local None "''m''" None] toy_author_of
    by (simp add: toy_index_def no_reprobe_def staged_schemas_def toy_change_def schema_file_type_from_path_def
        strip_prefix_def)
  moreover have cf: "collision_free doc_ext s5"
    by (rule toy_digests [OF _ cb(3) bc(2,4)]) (use tail(4) s2(3) cb(2) bc in auto)
  moreover have "tree_of_commit ?V s5 (hash_of doc_ext Commit cb) = Ok ?t"
    using tail(6) [OF cf] by (auto simp: head_commit_def head_tree_def res_simps)
  ultimately show thesis
    using that [of _ s5 cb] tail(4,5,6) s2(3) hash_of_wf [OF doc_ext_ok(1)] by simp
qed

theorem commit_spec_witness:
  "\<exists>h s t. commit_with_keys (toy_env toy_index) ''m'' None None toy_staged = (Ok (h, []), s) \<and>
     head_commit (toy_env toy_index) s = Ok (Some h) \<and> head_tree (toy_env toy_index) s = Ok (Some t) \<and>
     tree_files doc_ext None s (Some t) [''notes.md''] = Some (MManifest, hash_of doc_ext Manifest ''hi'') \<and>
     load_index (toy_env toy_index) s = Ok []"
proof -
  let ?V = "toy_env toy_index"
  obtain h s where run: "commit_with_keys ?V ''m'' None None toy_staged = (Ok (h, []), s)" "collision_free doc_ext s"
    by (rule toy_commit_run)
  have "toy_index \<noteq> []" "list_all2 (change_edit doc_ext None toy_staged) (map snd (map_order ?V toy_index)) [toy_edit]"
    using toy_change_edit by (simp_all add: toy_index_def)
  moreover have "no_reprobe ?V None toy_index"
    by (simp add: toy_index_def no_reprobe_def staged_schemas_def toy_change_def schema_file_type_from_path_def strip_prefix_def)
  ultimately have "\<exists>h' c parent. head_commit ?V toy_staged = Ok parent \<and> (Ok (h, []) :: (hash \<times> reprobe_summary list) result) = Ok (h', []) \<and>
      commit_author c = author_of ?V default_local (given None no_override) \<and> commit_message c = ''m'' \<and>
      root_ok doc_ext s (Some (commit_tree c)) \<and>
      committed ?V None parent (put_files [''notes.md''] (MManifest, hash_of doc_ext Manifest ''hi'') (\<lambda>_. None)) h' c s"
    using commit_spec [of ?V None toy_staged toy_index default_local "''main''" None "[toy_edit]" None "''m''" "Ok (h, [])" s]
      toy_repo_ok toy_staged_ok toy_json toy_local toy_head toy_edits toy_author_ok toy_author_of toy_message run
    by (simp add: root_ok_def commit_key_ok_def put_files_def fun_eq_iff)
  then show ?thesis using run(1) by (auto simp: committed_def put_files_def)
qed

text \<open>
  C13. When no staged path contains another, the order in which the hash map yields the
  staged changes does not matter: two orders fail alike or give trees with the same files.
\<close>

theorem commit_order_free:
  assumes "repo_ok (rx V) pk s" "root_ok (rx V) s root" "list_all2 (change_edit (rx V) pk s) cs ds" "independent ds"
    and "mset cs' = mset cs"
    and "apply_changes V pk root cs s = (r, s1)" "collision_free (rx V) s1"
    and "apply_changes V pk root cs' s = (r', s2)" "collision_free (rx V) s2"
  shows "(\<exists>e. r = Err e \<and> r' = Err e) \<or>
    (\<exists>ro ro'. r = Ok ro \<and> r' = Ok ro' \<and> tree_files (rx V) pk s1 ro = tree_files (rx V) pk s2 ro')"
proof -
  obtain ds' where ds': "list_all2 (change_edit (rx V) pk s) cs' ds'" "mset ds' = mset ds"
    using list_all2_reorder_left_invariance [OF assms(3,5)] by blast
  have set: "set ds' = set ds" using ds'(2) by (metis set_mset_mset)
  have "distinct ds' = distinct ds" using ds'(2) by (metis mset_eq_imp_distinct_iff)
  then have "independent ds'" using assms(4) set by (simp add: independent_def)
  then have "edits ds' v = edits ds v" for v using assms(4) set by (simp add: edits_independent)
  then show ?thesis
    using apply_changes_refines [OF assms(1-3,6,7)] apply_changes_refines [OF assms(1,2) ds'(1) assms(8,9)]
    by (cases "edits ds (tree_files (rx V) pk s root)") auto
qed

text \<open>
  Two manifests staged at two paths, committed in either order. The digest of these examples
  also sees the length, so that the trees with one file and with two differ in it.
\<close>

definition long_ext :: ext where
  "long_ext = doc_ext\<lparr>sha256 := (\<lambda>b. pad_to 32 (char_of (length b mod 256) # rev b))\<rparr>"

lemma long_ext_ok [simp]: "sha_ok long_ext" "zlib_ok long_ext" "store_env long_ext"
  using toy_zlib_ok by (simp_all add: long_ext_def doc_ext_def sha_ok_def zlib_ok_def store_env_def)

definition two_env :: repo_env where "two_env = (toy_env [])\<lparr>rx := long_ext\<rparr>"

lemma two_rx [simp]: "rx two_env = long_ext" by (simp add: two_env_def)

definition two_entry :: entry where
  "two_entry = \<lparr>entry_mode = MManifest, entry_hash = hash_of long_ext Manifest ''hi''\<rparr>"

definition two_change :: "str \<Rightarrow> staged_change" where
  "two_change n = \<lparr>sc_path = n, sc_kind = Upsert, sc_hash = Some (hash_of long_ext Manifest ''hi'')\<rparr>"

definition two_staged :: disk where "two_staged = snd (disk_put long_ext ''manifest'' ''hi'' fresh_disk)"

lemma two_staged_ok: "disk_ok long_ext two_staged" "puts two_staged = [frame Manifest ''hi'']"
  using disk_put_ok [OF fresh_disk_ok(1) long_ext_ok(1,2), of Manifest "''hi''"] by (auto simp: two_staged_def)

lemma two_change_edit:
  assumes "split_path n = Ok [n]" "name_fits None n"
  shows "change_edit long_ext None two_staged (two_change n) ([n], Some (MManifest, hash_of long_ext Manifest ''hi''))"
  using assms two_staged_ok(2) by (auto simp: change_edit_def two_change_def)

text \<open>One change: the tree is read, the entry added and the new tree stored.\<close>

lemma two_step:
  assumes "split_path n = Ok [n]" "name_fits None n" "disk_ok long_ext s" "collision_free long_ext s"
    and "frame Manifest ''hi'' \<in> set (puts s)"
    and "root = None \<and> t = [] \<or> (\<exists>h. root = Some h \<and> load_tree_with_key long_ext None s h = Ok t)"
  obtains s' where "apply_change two_env None root (two_change n) s =
      (Ok (Some (hash_of long_ext Tree (tree_serialize (bt_insert n two_entry t)))), s')" "disk_ok long_ext s'"
    "puts s' = frame Tree (tree_serialize (bt_insert n two_entry t)) # puts s"
proof -
  let ?t = "bt_insert n two_entry t"
  obtain s' where put: "disk_put long_ext (type_as_str Tree) (tree_serialize ?t) s = (Ok (hash_of long_ext Tree (tree_serialize ?t)), s')"
      "disk_ok long_ext s'" "puts s' = frame Tree (tree_serialize ?t) # puts s"
    using disk_put_ok [OF assms(3) long_ext_ok(1,2)] by blast
  have "load_or_new long_ext None root s = (Ok t, s)"
    using assms(6) by (auto simp: load_or_new_def ret_def)
  moreover have "stored_mode two_env s (hash_of long_ext Manifest ''hi'') = Ok MManifest"
    using stored_mode_of [of two_env s Manifest "''hi''" MManifest] assms(3-5) by simp
  ultimately have "apply_change two_env None root (two_change n) s = (Ok (Some (hash_of long_ext Tree (tree_serialize ?t))), s')"
    using put(1) assms(1,2)
    by (simp add: apply_change_def two_change_def bind_op_def put_at_with_key_def store_tree_with_key_def
        tree_serialize_with_path_key_def two_entry_def [symmetric])
  then show thesis using put(2,3) by (rule that)
qed

lemma two_load:
  assumes "disk_ok long_ext s" "collision_free long_ext s" "frame Tree (tree_serialize t) \<in> set (puts s)" "tree_fits None t"
  shows "load_tree_with_key long_ext None s (hash_of long_ext Tree (tree_serialize t)) = Ok t"
proof -
  have "disk_get long_ext s (hash_of long_ext Tree (tree_serialize t)) = Ok (Some (type_as_str Tree, tree_serialize t))"
    using disk_get_stored [OF assms(1) long_ext_ok(1) assms(2,3)] .
  moreover have "tree_parse_with_path_key long_ext None (tree_serialize t) = Ok t"
    using tree_codec.dec_enc [of long_ext None t] assms(4) by (simp add: key_ok_def tree_serialize_with_path_key_def)
  ultimately show ?thesis by (simp add: load_tree_with_key_def)
qed

text \<open>The lengths of the objects differ, so their digests do.\<close>

definition two_tree :: "str list \<Rightarrow> tree" where "two_tree ns = map (\<lambda>n. (n, two_entry)) ns"

lemma two_digests:
  assumes "set (puts s) \<subseteq> {a, b, c}" "length a = 13" "length b = 84" "length c = 161"
  shows "collision_free long_ext s"
proof -
  have digest: "sha256 long_ext x = sha256 long_ext y \<Longrightarrow> (char_of (length x mod 256) :: char) = char_of (length y mod 256)" for x y
    by (simp add: long_ext_def pad_to_def)
  have "length x mod 256 = length y mod 256" if "sha256 long_ext x = sha256 long_ext y" for x y
    using arg_cong [OF digest [OF that], of "of_char :: char \<Rightarrow> nat"] by simp
  then have "inj_on (sha256 long_ext) {a, b, c}" using assms(2-4) by (fastforce simp: inj_on_def)
  then have "inj_on (sha256 long_ext) (set (puts s))" using assms(1) by (rule inj_on_subset)
  then show ?thesis using assms by (auto simp: collision_free_def U64_MAX_def)
qed

lemma two_lengths:
  assumes "length m = 1" "length n = 1"
  shows "length (frame Manifest ''hi'') = 13" "length (frame Tree (tree_serialize (two_tree [m]))) = 84"
    "length (frame Tree (tree_serialize (two_tree [m, n]))) = 161"
proof -
  have line: "length (tree_line two_entry k) = 74 + length k" for k
    using length_hash_hex [OF hash_of_wf [OF long_ext_ok(1), of Manifest "''hi''"]]
    by (simp add: tree_line_def two_entry_def)
  show "length (frame Manifest ''hi'') = 13" by (simp add: frame_def show_nat.simps)
  have "length (tree_serialize (two_tree [m])) = 76" "length (tree_serialize (two_tree [m, n])) = 152"
    using assms by (simp_all add: tree_serialize_def two_tree_def line)
  then show "length (frame Tree (tree_serialize (two_tree [m]))) = 84" "length (frame Tree (tree_serialize (two_tree [m, n]))) = 161"
    by (simp_all add: frame_def show_nat.simps)
qed

lemma two_names:
  assumes "n \<in> {''a'', ''b''}"
  shows "split_path n = Ok [n]" "name_fits None n" "length n = 1"
proof -
  have "split_path ''a'' = Ok [''a'']" "split_path ''b'' = Ok [''b'']"
    by (simp_all add: split_path_def trim_matches_def trim_start_matches_def trim_end_matches_def split_on_notin)
  moreover have "name_fits None ''a''" "name_fits None ''b''"
    by (rule name_fits_ascii; simp add: is_ascii_def AEAD_MAX_def)+
  ultimately show "split_path n = Ok [n]" "name_fits None n" "length n = 1" using assms by auto
qed

lemma two_insert:
  assumes "m \<noteq> n" "{m, n} \<subseteq> {''a'', ''b''}"
  shows "bt_insert m two_entry [] = two_tree [m]" "bt_insert n two_entry (two_tree [m]) = two_tree [''a'', ''b'']"
  using assms by (auto simp: two_tree_def)

text \<open>Both changes, one after the other.\<close>

lemma two_run:
  assumes "m \<noteq> n" "{m, n} \<subseteq> {''a'', ''b''}"
  obtains h s where "apply_changes two_env None None [two_change m, two_change n] two_staged = (Ok (Some h), s)"
    "collision_free long_ext s"
    "puts s = [frame Tree (tree_serialize (two_tree [''a'', ''b''])), frame Tree (tree_serialize (two_tree [m])), frame Manifest ''hi'']"
proof -
  have m: "m \<in> {''a'', ''b''}" and n: "n \<in> {''a'', ''b''}" using assms(2) by auto
  note lengths = two_lengths [OF two_names(3) [OF m] two_names(3) [OF n]] two_lengths(3) [OF two_names(3) two_names(3), of "''a''" "''b''", simplified]
  let ?h = "hash_of long_ext Tree (tree_serialize (two_tree [m]))"
  have "collision_free long_ext two_staged"
    by (rule two_digests [OF _ lengths(1,2,3)]) (simp add: two_staged_ok(2))
  then obtain s1 where s1: "apply_change two_env None None (two_change m) two_staged = (Ok (Some ?h), s1)" "disk_ok long_ext s1"
      "puts s1 = frame Tree (tree_serialize (two_tree [m])) # puts two_staged"
    using two_step [OF two_names(1,2) [OF m] two_staged_ok(1), of None "[]"] two_staged_ok(2) two_insert(1) [OF assms] by auto
  have cf: "collision_free long_ext s1"
    by (rule two_digests [OF _ lengths(1,2,3)]) (simp add: s1(3) two_staged_ok(2))
  have "tree_fits None (two_tree [m])"
    using two_names(2) [OF m] hash_of_wf [OF long_ext_ok(1)] by (simp add: tree_fits_def two_tree_def two_entry_def)
  then have "load_tree_with_key long_ext None s1 ?h = Ok (two_tree [m])"
    using two_load [OF s1(2) cf] s1(3) by simp
  then obtain s2 where s2: "apply_change two_env None (Some ?h) (two_change n) s1 =
      (Ok (Some (hash_of long_ext Tree (tree_serialize (two_tree [''a'', ''b''])))), s2)"
      "puts s2 = frame Tree (tree_serialize (two_tree [''a'', ''b''])) # puts s1"
    using two_step [OF two_names(1,2) [OF n] s1(2) cf, of "Some ?h" "two_tree [m]"] s1(3) two_staged_ok(2) two_insert(2) [OF assms]
    by auto
  show thesis
  proof (rule that)
    show "apply_changes two_env None None [two_change m, two_change n] two_staged =
        (Ok (Some (hash_of long_ext Tree (tree_serialize (two_tree [''a'', ''b''])))), s2)"
      using s1(1) s2(1) by (simp add: bind_op_def ret_def)
    show "collision_free long_ext s2"
      by (rule two_digests [OF _ lengths(1,2,4)]) (simp add: s2(2) s1(3) two_staged_ok(2))
    show "puts s2 = [frame Tree (tree_serialize (two_tree [''a'', ''b''])), frame Tree (tree_serialize (two_tree [m])), frame Manifest ''hi'']"
      by (simp add: s2(2) s1(3) two_staged_ok(2))
  qed
qed

theorem commit_order_free_witness:
  "\<exists>h h' s s'. apply_changes two_env None None [two_change ''a'', two_change ''b''] two_staged = (Ok (Some h), s) \<and>
     apply_changes two_env None None [two_change ''b'', two_change ''a''] two_staged = (Ok (Some h'), s') \<and> puts s \<noteq> puts s' \<and>
     tree_files long_ext None s (Some h) = tree_files long_ext None s' (Some h') \<and>
     (\<forall>n \<in> {''a'', ''b''}. tree_files long_ext None s (Some h) [n] = Some (MManifest, hash_of long_ext Manifest ''hi''))"
proof -
  let ?e = "Some (MManifest, hash_of long_ext Manifest ''hi'')"
  let ?ds = "[([''a''], ?e), ([''b''], ?e)]"
  obtain h s where s: "apply_changes two_env None None [two_change ''a'', two_change ''b''] two_staged = (Ok (Some h), s)"
      "collision_free long_ext s" "frame Tree (tree_serialize (two_tree [''a''])) \<in> set (puts s)"
    by (rule two_run [of "''a''" "''b''"]) auto
  obtain h' s' where s': "apply_changes two_env None None [two_change ''b'', two_change ''a''] two_staged = (Ok (Some h'), s')"
      "collision_free long_ext s'"
      "puts s' = [frame Tree (tree_serialize (two_tree [''a'', ''b''])), frame Tree (tree_serialize (two_tree [''b''])), frame Manifest ''hi'']"
    by (rule two_run [of "''b''" "''a''"]) auto
  have edits: "list_all2 (change_edit long_ext None two_staged) [two_change ''a'', two_change ''b''] ?ds"
    using two_change_edit two_names(1,2) by simp
  have ok: "repo_ok long_ext None two_staged"
    using two_staged_ok by (simp add: repo_ok_def tree_node_ok_def parse_framed_frame U64_MAX_def)
  have "independent ?ds" by (auto simp: independent_def pairwise_def apart_def)
  then have same: "tree_files long_ext None s (Some h) = tree_files long_ext None s' (Some h')"
    using commit_order_free [of two_env None two_staged None "[two_change ''a'', two_change ''b'']" ?ds
        "[two_change ''b'', two_change ''a'']" "Ok (Some h)" s "Ok (Some h')" s'] ok edits s(1,2) s'(1,2)
    by (simp add: root_ok_def)
  have "edits ?ds (tree_files long_ext None two_staged None) = Some (put_files [''b''] (MManifest, hash_of long_ext Manifest ''hi'')
      (put_files [''a''] (MManifest, hash_of long_ext Manifest ''hi'') (\<lambda>_. None)))" (is "_ = Some ?w")
    by (simp add: through_file_def put_files_def)
  then have w: "tree_files long_ext None s (Some h) = ?w"
    using apply_changes_refines [of two_env None two_staged None "[two_change ''a'', two_change ''b'']" ?ds "Ok (Some h)" s] ok edits s(1,2)
    by (simp add: root_ok_def del: edits.simps apply_changes.simps)
  have "\<forall>n \<in> {''a'', ''b''}. ?w [n] = ?e" by (simp add: put_files_def)
  then have "\<forall>n \<in> {''a'', ''b''}. tree_files long_ext None s (Some h) [n] = ?e" unfolding w .
  moreover have "frame Tree (tree_serialize (two_tree [''a''])) \<notin> set (puts s')"
    using two_lengths(1) two_lengths(2,3) [of "''a''" "''b''"]
    by (auto simp: s'(3) frame_def tree_serialize_def two_tree_def tree_line_def)
  then have "puts s \<noteq> puts s'" using s(3) by metis
  ultimately show ?thesis using s(1) s'(1) same by blast
qed

text \<open>
  When a staged deletion contains a staged write the order does matter. With the
  deletion first the file is in the new tree; with the write first it is not, and the
  staged file is lost without an error.
\<close>

lemma commit_order_matters:
  assumes "repo_ok (rx V) pk s" "root_ok (rx V) s root" "change_edit (rx V) pk s d (p, None)"
    and "change_edit (rx V) pk s u (q, Some e)" "strict_prefix p q" "\<not> through_file (tree_files (rx V) pk s root) q"
    and "apply_changes V pk root [d, u] s = (r1, s1)" "collision_free (rx V) s1"
    and "apply_changes V pk root [u, d] s = (r2, s2)" "collision_free (rx V) s2"
  shows "\<exists>t1 t2. r1 = Ok t1 \<and> r2 = Ok t2 \<and>
    tree_files (rx V) pk s1 t1 q = Some e \<and> tree_files (rx V) pk s2 t2 q = None"
proof -
  let ?v = "tree_files (rx V) pk s root"
  have "\<not> through_file (delete_files p ?v) q" using assms(6) by (auto simp: through_file_def delete_files_def split: if_splits)
  then have "edits [(p, None), (q, Some e)] ?v = Some (put_files q e (delete_files p ?v))" by simp
  moreover have "edits [(q, Some e), (p, None)] ?v = Some (delete_files p (put_files q e ?v))" using assms(6) by simp
  moreover have "list_all2 (change_edit (rx V) pk s) [d, u] [(p, None), (q, Some e)]"
    "list_all2 (change_edit (rx V) pk s) [u, d] [(q, Some e), (p, None)]" using assms(3,4) by simp_all
  ultimately obtain t1 t2 where "r1 = Ok t1" "tree_files (rx V) pk s1 t1 = put_files q e (delete_files p ?v)"
      "r2 = Ok t2" "tree_files (rx V) pk s2 t2 = delete_files p (put_files q e ?v)"
    using apply_changes_refines [OF assms(1,2) _ assms(7,8), of "[(p, None), (q, Some e)]"]
      apply_changes_refines [OF assms(1,2) _ assms(9,10), of "[(q, Some e), (p, None)]"] by auto
  then show ?thesis using assms(5) by (simp add: put_files_def delete_files_def strict_prefix_def)
qed

end
