(* ===== verification/Omp_Diff.thy ===== *)
theory Omp_Diff
  imports Omp_Staging
begin

text \<open>
  \<open>diff\<close> in \<open>crates/omp-core/src/api.rs\<close>: it lists exactly the paths at which two commits
  have different files, each once and in order.
\<close>

lemma map_of_single_valued:
  assumes "\<And>v w. (k, v) \<in> set xs \<Longrightarrow> (k, w) \<in> set xs \<Longrightarrow> v = w"
  shows "map_of xs k = Some v \<longleftrightarrow> (k, v) \<in> set xs"
  using assms by (metis map_of_SomeD map_of_eq_None_iff image_eqI fst_conv option.exhaust)

section \<open>The table of pairs\<close>

text \<open>What the two loops leave at a path.\<close>

lemma set_before_get:
  "bt_get (foldl set_before m b) p =
     (case map_of (rev b) p of None \<Rightarrow> bt_get m p
      | Some v \<Rightarrow> Some (Some v, case bt_get m p of Some (_, a) \<Rightarrow> a | None \<Rightarrow> None))"
proof (induction b rule: rev_induct)
  case (snoc x b)
  obtain q v where x: "x = (q, v)" by (cases x) auto
  show ?case using snoc by (auto simp: x set_before_def split: option.splits)
qed simp

lemma set_after_get:
  "bt_get (foldl set_after m a) p =
     (case map_of (rev a) p of None \<Rightarrow> bt_get m p
      | Some v \<Rightarrow> Some (case bt_get m p of Some (b, _) \<Rightarrow> b | None \<Rightarrow> None, Some v))"
proof (induction a rule: rev_induct)
  case (snoc x a)
  obtain q v where x: "x = (q, v)" by (cases x) auto
  show ?case using snoc by (auto simp: x set_after_def split: option.splits)
qed simp

lemma set_pairs_inv: "bt_inv m \<Longrightarrow> bt_inv (foldl set_before m b)" "bt_inv m \<Longrightarrow> bt_inv (foldl set_after m a)"
  by (induction b arbitrary: m; force simp: set_before_def) (induction a arbitrary: m; force simp: set_after_def)

definition pair_at :: "leaf list \<Rightarrow> leaf list \<Rightarrow> str \<Rightarrow> diff_pair" where
  "pair_at before after p = (map_of (rev before) p, map_of (rev after) p)"

lemma bt_of_list_map: "map_of (rev (bt_of_list xs)) = map_of (rev xs)"
  using bt_inv_distinct [OF bt_inv_of_list [of xs]] bt_get_of_list [of xs] by (simp add: map_of_rev_distinct bt_get_def fun_eq_iff)

lemma diff_table:
  "bt_inv (foldl set_after (foldl set_before [] (bt_of_list before)) (bt_of_list after)) \<and>
   bt_get (foldl set_after (foldl set_before [] (bt_of_list before)) (bt_of_list after)) p =
     (if pair_at before after p = (None, None) then None else Some (pair_at before after p))"
  by (simp add: set_pairs_inv set_after_get set_before_get bt_of_list_map pair_at_def split: option.splits)

definition diff_at :: "str \<Rightarrow> diff_pair \<Rightarrow> diff_entry" where
  "diff_at p pr = \<lparr>de_path = p, de_status = diff_of pr, de_before = map_option snd (fst pr), de_after = map_option snd (snd pr)\<rparr>"

definition wanted :: "str option \<Rightarrow> str \<times> diff_pair \<Rightarrow> bool" where
  "wanted pf = (\<lambda>(p, pr). (case pf of Some q \<Rightarrow> starts_with q p | None \<Rightarrow> True) \<and> diff_of pr \<noteq> Unchanged)"

lemma diff_entries_filter:
  "diff_entries before after pf = map (\<lambda>(p, pr). diff_at p pr) (filter (wanted pf)
     (foldl set_after (foldl set_before [] (bt_of_list before)) (bt_of_list after)))"
proof -
  have "concat (map (\<lambda>(p, pr). if (case pf of Some q \<Rightarrow> \<not> starts_with q p | None \<Rightarrow> False) then []
        else if diff_of pr = Unchanged then []
        else [\<lparr>de_path = p, de_status = diff_of pr, de_before = map_option snd (fst pr), de_after = map_option snd (snd pr)\<rparr>]) xs) =
      map (\<lambda>(p, pr). diff_at p pr) (filter (wanted pf) xs)" for xs
    by (induction xs; cases pf) (auto simp: wanted_def diff_at_def split: if_splits)
  then show ?thesis by (simp add: diff_entries_def Let_def)
qed

lemma diff_entries_set:
  "set (diff_entries before after pf) =
     {diff_at p (pair_at before after p) | p. diff_of (pair_at before after p) \<noteq> Unchanged \<and>
        (case pf of Some q \<Rightarrow> starts_with q p | None \<Rightarrow> True)}"
proof -
  let ?all = "foldl set_after (foldl set_before [] (bt_of_list before)) (bt_of_list after)"
  have mem: "(p, pr) \<in> set ?all \<longleftrightarrow> pr = pair_at before after p \<and> pr \<noteq> (None, None)" for p pr
    using diff_table [of before after p] bt_get_iff [of ?all p pr] by (auto split: if_splits)
  have none: "diff_of (None, None) = Unchanged" by (simp add: diff_of_def)
  have "set (filter (wanted pf) ?all) = {(p, pair_at before after p) | p. wanted pf (p, pair_at before after p)}"
  proof (intro set_eqI iffI)
    fix x assume "x \<in> {(p, pair_at before after p) | p. wanted pf (p, pair_at before after p)}"
    then obtain p where p: "x = (p, pair_at before after p)" "wanted pf x" by auto
    then have "pair_at before after p \<noteq> (None, None)" using none by (auto simp: wanted_def)
    then have "x \<in> set ?all" using mem p(1) by blast
    then show "x \<in> set (filter (wanted pf) ?all)" using p(2) by simp
  qed (use mem in auto)
  then show ?thesis unfolding diff_entries_filter set_map by (auto simp: wanted_def image_iff)
qed

lemma diff_entries_sorted: "sorted_wrt (<) (map de_path (diff_entries before after pf))"
proof -
  let ?all = "foldl set_after (foldl set_before [] (bt_of_list before)) (bt_of_list after)"
  have eq: "map de_path (map (\<lambda>(p, pr). diff_at p pr) xs) = map fst xs" for xs
    by (induction xs) (auto simp: diff_at_def)
  have "bt_inv ?all" using diff_table by blast
  then have "sorted_wrt (\<lambda>x y. fst x < fst y) (filter (wanted pf) ?all)"
    by (simp add: bt_inv_def sorted_wrt_map sorted_wrt_filter)
  then show ?thesis unfolding diff_entries_filter eq by (simp add: sorted_wrt_map)
qed

section \<open>Properties\<close>

text \<open>The file at a path, written without slashes at its ends.\<close>

definition file_at :: "repo_env \<Rightarrow> disk \<Rightarrow> hash \<Rightarrow> str \<Rightarrow> (mode \<times> hash) option" where
  "file_at V s root p = (if trim_matches (CHR ''/'') p = p then file_of (get_at V s p root) else None)"

definition object_at :: "repo_env \<Rightarrow> disk \<Rightarrow> hash \<Rightarrow> str \<Rightarrow> hash option" where
  "object_at V s root p = map_option snd (file_at V s root p)"

text \<open>The entry for a path whose object changed.\<close>

definition changed :: "str \<Rightarrow> hash option \<Rightarrow> hash option \<Rightarrow> diff_entry" where
  "changed p b a = \<lparr>de_path = p, de_status = (if b = None then Added else if a = None then Removed else Modified),
     de_before = b, de_after = a\<rparr>"

lemma diff_at_changed:
  "{diff_at p (f p, g p) | p. diff_of (f p, g p) \<noteq> Unchanged \<and> P p} =
   {changed p (map_option snd (f p)) (map_option snd (g p)) | p. map_option snd (f p) \<noteq> map_option snd (g p) \<and> P p}"
proof -
  have iff: "diff_of (x, y) \<noteq> Unchanged \<longleftrightarrow> map_option snd x \<noteq> map_option snd y" for x y
    by (cases x; cases y) (auto simp: diff_of_def split: if_splits)
  have "diff_at p (x, y) = changed p (map_option snd x) (map_option snd y)" if "diff_of (x, y) \<noteq> Unchanged" for p x y
    using that by (cases x; cases y) (auto simp: diff_at_def changed_def diff_of_def split: if_splits)
  then show ?thesis unfolding iff [symmetric] by (intro Collect_cong ex_cong1) metis
qed

lemma walk_tree_files:
  assumes "repo_ok (rx V) None s" "collision_free (rx V) s" "tree_in (rx V) (puts s) root"
  obtains ls where "walk_tree_at V None s root = Ok ls" "map_of (rev ls) = file_at V s root"
proof -
  obtain ls where ls: "walk_with_key (rx V) None s (length (puts s)) root = Some (Ok ls)"
      "set ls = {(path, m, h). get_at_with_key (rx V) None s path root = Ok (Some (m, h)) \<and> m \<noteq> MTree \<and>
                            trim_matches (CHR ''/'') path = path}"
    using walk_files [OF assms order.refl] by blast
  have "map_of (rev ls) p = file_at V s root p" for p
  proof (cases "file_at V s root p")
    case None
    then have "(p, v) \<notin> set (rev ls)" for v
      using ls(2) by (cases v) (auto simp: file_at_def file_of_def split: if_splits)
    then show ?thesis using None by (metis map_of_SomeD option.exhaust)
  next
    case (Some v)
    obtain m h where v: "v = (m, h)" by force
    have "map_of (rev ls) p = Some v \<longleftrightarrow> (p, v) \<in> set (rev ls)"
      by (rule map_of_single_valued) (use ls(2) in auto)
    moreover have "(p, v) \<in> set (rev ls)"
      using Some ls(2) v by (auto simp: file_at_def file_of_eq_Some split: if_splits)
    ultimately show ?thesis using Some by simp
  qed
  then show thesis using that ls(1) by (auto simp: walk_tree_at_def)
qed

text \<open>
  C12. The difference of two commits. For two expressions that resolve to commits of the
  repository \<open>diff\<close> answers exactly the paths below the prefix at which the two trees have
  different files: one is absent, or the objects differ. Each path comes once, in
  order, with the names of both objects.
\<close>

theorem diff_exact:
  assumes "repo_ok (rx V) None s" "collision_free (rx V) s"
    and "resolve_ref (rx V) (reader V s) from_expr = Ok c1" "tree_of_commit V s c1 = Ok t1" "tree_in (rx V) (puts s) t1"
    and "resolve_ref (rx V) (reader V s) to_expr = Ok c2" "tree_of_commit V s c2 = Ok t2" "tree_in (rx V) (puts s) t2"
  shows "\<exists>ds. repo_diff V s from_expr to_expr pf = Ok ds \<and> sorted_wrt (<) (map de_path ds) \<and>
    set ds = {changed p (object_at V s t1 p) (object_at V s t2 p) | p.
       object_at V s t1 p \<noteq> object_at V s t2 p \<and> (case pf of Some q \<Rightarrow> starts_with q p | None \<Rightarrow> True)}"
proof -
  obtain b where b: "walk_tree_at V None s t1 = Ok b" "map_of (rev b) = file_at V s t1"
    by (rule walk_tree_files [OF assms(1,2,5)])
  obtain a where a: "walk_tree_at V None s t2 = Ok a" "map_of (rev a) = file_at V s t2"
    by (rule walk_tree_files [OF assms(1,2,8)])
  have "repo_diff V s from_expr to_expr pf = Ok (diff_entries b a pf)"
    using assms(3,4,6,7) a(1) b(1) by (simp add: repo_diff_def)
  moreover have "pair_at b a p = (file_at V s t1 p, file_at V s t2 p)" for p using a(2) b(2) by (simp add: pair_at_def)
  ultimately show ?thesis
    using diff_entries_sorted diff_entries_set [of b a pf] by (simp add: diff_at_changed object_at_def cong: conj_cong)
qed

theorem diff_exact_witness:
  "\<exists>h s. head_commit (toy_env toy_index) s = Ok (Some h) \<and>
     repo_diff (toy_env toy_index) s (hash_hex h) (hash_hex h) None = Ok []"
proof -
  let ?V = "toy_env toy_index" and ?t = "hash_of doc_ext Tree (tree_serialize toy_tree)"
  obtain h s cb where s: "repo_ok doc_ext None s" "collision_free doc_ext s" "hash_wf h"
      "puts s = [frame Commit cb, frame Tree (tree_serialize toy_tree), frame Manifest ''hi'']"
      "head_commit ?V s = Ok (Some h)" "tree_of_commit ?V s h = Ok ?t"
    using toy_commit_run by metis
  have "length (tree_serialize toy_tree) \<le> U64_MAX" using stored_length [OF s(2), of Tree "tree_serialize toy_tree"] s(4) by simp
  then have t: "tree_in (rx ?V) (puts s) ?t" by (simp add: s(4) tree_frame_frame hash_of_def)
  have r: "resolve_ref (rx ?V) (reader ?V s) (hash_hex h) = Ok h" by (rule resolve_hash [OF s(3)])
  have "repo_ok (rx ?V) None s" "collision_free (rx ?V) s" using s(1,2) by simp_all
  from diff_exact [OF this r s(6) t r s(6) t, of None] obtain ds where
    "repo_diff ?V s (hash_hex h) (hash_hex h) None = Ok ds" "set ds = {}" by auto
  then show ?thesis using s(5) by auto
qed

end
