(* ===== verification/Omp_Encrypted.thy ===== *)
theory Omp_Encrypted
  imports Omp_Ingest
begin

text \<open>
  \<open>crates/omp-core/src/api.rs\<close>, fourth part: files that the client encrypts before they
  are stored, and shares of them. Fresh keys, nonces and ephemeral secrets, which the
  program takes from the system's random source, are arguments.

  What was sealed is read back with the same content key (\<open>decrypt_sealed\<close>): a small file
  as one blob, a large one as chunks, each bound to its position and to their number.
\<close>

section \<open>Sealing\<close>

type_synonym sealed_source = "hash \<times> nat \<times> str \<times> bytes"

definition BLOB_AAD :: bytes where "BLOB_AAD = ''omp-blob''"

definition chunk_aad :: "32 word \<Rightarrow> 32 word \<Rightarrow> bytes" where
  "chunk_aad idx n = ''omp-chunk'' @ to_be_bytes idx @ to_be_bytes n"

definition seal_single_blob :: "repo_env \<Rightarrow> bytes \<Rightarrow> bytes \<Rightarrow> sealed_source op" where
  "seal_single_blob V plaintext content_key =
     bind_op (lift_res (map_err (\<lambda>_. Internal ''nonce_for_chunk'') (nonce_for_chunk (rx V) content_key 0))) (\<lambda>nonce.
     bind_op (lift_res (map_err (\<lambda>_. Internal ''seal blob'') (seal (rx V) content_key nonce BLOB_AAD plaintext))) (\<lambda>ct.
     bind_op (disk_put (rx V) ''blob'' ct) (\<lambda>h.
     ret (h, length plaintext, sha256_hex (rx V) plaintext, sniff_prefix_of plaintext))))"

text \<open>The loop of \<open>seal_chunked\<close>: the index of the chunk at hand and the entries so far.\<close>

fun seal_chunks :: "repo_env \<Rightarrow> bytes \<Rightarrow> 32 word \<Rightarrow> nat \<Rightarrow> bytes list \<Rightarrow> chunks_body \<Rightarrow> chunks_body op" where
  "seal_chunks V content_key total_chunks idx [] entries = ret entries"
| "seal_chunks V content_key total_chunks idx (b # bs) entries =
     (if idx > U32_MAX then raise (Internal ''chunk index exceeds u32'')
      else bind_op (lift_res (map_err (\<lambda>_. Internal ''nonce_for_chunk'') (nonce_for_chunk (rx V) content_key (of_nat idx)))) (\<lambda>nonce.
        bind_op (lift_res (map_err (\<lambda>_. Internal ''seal chunk'')
          (seal (rx V) content_key nonce (chunk_aad (of_nat idx) total_chunks) b))) (\<lambda>ct.
        bind_op (disk_put (rx V) ''blob'' ct) (\<lambda>h.
        seal_chunks V content_key total_chunks (Suc idx) bs
          (entries @ [\<lparr>chunk_hash = h, chunk_length = of_nat (length ct)\<rparr>])))))"

definition div_ceil :: "nat \<Rightarrow> nat \<Rightarrow> nat" where
  "div_ceil a b = (if a mod b = 0 then a div b else a div b + 1)"

definition chunk_count :: "bytes \<Rightarrow> nat \<Rightarrow> 32 word result" where
  "chunk_count plaintext chunk_size =
     (if plaintext = [] then Ok 0
      else let n = div_ceil (length plaintext) chunk_size in
        if n > U32_MAX then Err (Internal ''chunk count exceeds u32'') else Ok (of_nat n))"

definition seal_chunked :: "repo_env \<Rightarrow> bytes \<Rightarrow> bytes \<Rightarrow> nat \<Rightarrow> sealed_source op" where
  "seal_chunked V plaintext content_key chunk_size =
     bind_op (lift_res (chunk_count plaintext chunk_size)) (\<lambda>total_chunks.
     bind_op (seal_chunks V content_key total_chunks 0 (byte_chunks chunk_size plaintext) []) (\<lambda>entries.
     bind_op (disk_put (rx V) ''chunks'' (chunks_serialize entries)) (\<lambda>h.
     ret (h, length plaintext, hex_encode (sha256 (rx V) plaintext), sniff_prefix_of plaintext))))"

definition seal_source :: "repo_env \<Rightarrow> bytes \<Rightarrow> bytes \<Rightarrow> nat \<Rightarrow> sealed_source op" where
  "seal_source V plaintext content_key chunk_size =
     (if length plaintext \<ge> chunk_size then seal_chunked V plaintext content_key chunk_size
      else seal_single_blob V plaintext content_key)"

section \<open>Opening\<close>

fun open_chunks :: "repo_env \<Rightarrow> disk \<Rightarrow> bytes \<Rightarrow> 32 word \<Rightarrow> nat \<Rightarrow> chunks_body \<Rightarrow> bytes \<Rightarrow> bytes result" where
  "open_chunks V s content_key total_chunks idx [] out = Ok out"
| "open_chunks V s content_key total_chunks idx (e # es) out =
     (if idx > U32_MAX then Err (Corrupt ''chunks body has more than u32::MAX entries'')
      else bind_res (get_object V s (NotFound (''chunk '' @ hash_hex (chunk_hash e))) (chunk_hash e)) (\<lambda>(ty, ct).
        if ty \<noteq> ''blob'' then Err (Corrupt (''chunk '' @ hash_hex (chunk_hash e) @ '' is not a blob''))
        else bind_res (map_err (\<lambda>_. Unauthorized (''unable to open chunk '' @ hash_hex (chunk_hash e)))
            (open_sealed (rx V) content_key (chunk_aad (of_nat idx) total_chunks) ct)) (\<lambda>pt.
          open_chunks V s content_key total_chunks (Suc idx) es (out @ pt))))"

definition decrypt_source :: "repo_env \<Rightarrow> disk \<Rightarrow> hash \<Rightarrow> bytes \<Rightarrow> bytes result" where
  "decrypt_source V s source_hash content_key =
     bind_res (get_object V s (NotFound (''source '' @ hash_hex source_hash)) source_hash) (\<lambda>(ty, body).
     if ty = ''blob'' then
       map_err (\<lambda>_. Unauthorized ''unable to open blob (wrong content key or tampered ciphertext)'')
         (open_sealed (rx V) content_key BLOB_AAD body)
     else if ty = ''chunks'' then
       bind_res (chunks_parse body) (\<lambda>entries.
       if length entries > U32_MAX then Err (Corrupt ''chunks body has more than u32::MAX entries'')
       else open_chunks V s content_key (of_nat (length entries)) 0 entries [])
     else Err (Corrupt (''source '' @ hash_hex source_hash @ '' has unexpected type'')))"

section \<open>Encrypted files\<close>

text \<open>The random values one encrypted ingest takes.\<close>

record fresh =
  fr_content_key :: bytes
  fr_wrap_nonce :: bytes
  fr_body_nonce :: bytes

definition put_envelope ::
  "repo_env \<Rightarrow> str \<Rightarrow> fresh \<Rightarrow> tenant_keys \<Rightarrow> bytes \<Rightarrow> (str, field_value) btree \<Rightarrow> str option \<Rightarrow> (hash \<times> hash) op"
where
  "put_envelope V path fr keys plaintext user override_type =
     bind_op (reads (current_repo_config V (Some (path_key keys)))) (\<lambda>cfg.
     bind_op (seal_source V plaintext (fr_content_key fr) (cfg_chunk_size cfg)) (\<lambda>(source_hash, n, sha, sniff).
     bind_op (reads (\<lambda>s. build_manifest_with V s path [] user override_type None (now V)
        (Chunked source_hash n sha sniff) (Some (path_key keys)))) (\<lambda>m.
     bind_op (lift_res (envelope_seal (rx V) (fr_wrap_nonce fr) (fr_body_nonce fr) m (fr_content_key fr)
        (manifest_key keys) (data_key keys))) (\<lambda>env.
     bind_op (disk_put (rx V) ''manifest'' env) (\<lambda>mh.
     bind_op (stage_upsert V path mh) (\<lambda>_.
     ret (mh, source_hash)))))))"

definition add_encrypted ::
  "repo_env \<Rightarrow> fresh \<Rightarrow> str \<Rightarrow> bytes \<Rightarrow> (str, field_value) btree option \<Rightarrow> str option \<Rightarrow> tenant_keys \<Rightarrow> add_result op"
where
  "add_encrypted V fr path plaintext user override_type keys =
     bind_op (lift_res (validate_path path)) (\<lambda>_.
     bind_op (reads (\<lambda>s. check_quota_for_write V s (length plaintext) 2)) (\<lambda>_.
     if classify_path path = MBlob then
       raise (InvalidPath ''encrypted ingest only accepts user files'')
     else bind_op (put_envelope V path fr keys plaintext (given user []) override_type) (\<lambda>(mh, sh).
       ret (AddManifest path mh sh))))"

definition open_manifest_at :: "repo_env \<Rightarrow> disk \<Rightarrow> str \<Rightarrow> (mode \<times> hash) option \<Rightarrow> tenant_keys \<Rightarrow> (manifest \<times> bytes) result" where
  "open_manifest_at V s path target keys =
     bind_res (ok_or (NotFound (''path '' @ path)) target) (\<lambda>(m, h).
     if m \<noteq> MManifest then Err (InvalidPath (''path '' @ path @ '' is not a manifest''))
     else bind_res (get_object V s (NotFound (''manifest '' @ hash_hex h)) h) (\<lambda>(_, eb).
       bind_res (envelope_parse (rx V) eb) (\<lambda>env.
       envelope_open (rx V) env (manifest_key keys) (data_key keys))))"

definition show_encrypted :: "repo_env \<Rightarrow> disk \<Rightarrow> str \<Rightarrow> str option \<Rightarrow> tenant_keys \<Rightarrow> (manifest \<times> bytes) result" where
  "show_encrypted V s path at keys =
     bind_res (root_tree V s at) (\<lambda>tree_root.
     bind_res (if path = [] then Ok (map_option (\<lambda>r. (MTree, r)) tree_root)
               else case tree_root of Some r \<Rightarrow> get_at_with_key (rx V) (Some (path_key keys)) s path r | None \<Rightarrow> Ok None) (\<lambda>target.
     bind_res (open_manifest_at V s path target keys) (\<lambda>(m, content_key).
     bind_res (decrypt_source V s (m_source_hash m) content_key) (\<lambda>plaintext.
     Ok (m, plaintext)))))"

section \<open>Shares\<close>

text \<open>Each recipient: the tenant, its public key and the ephemeral secret for it.\<close>

type_synonym share_target = "str \<times> bytes \<times> bytes"

definition wrap_for :: "repo_env \<Rightarrow> bytes \<Rightarrow> share_target \<Rightarrow> recipient result" where
  "wrap_for V content_key = (\<lambda>(tenant, pk, eph).
     bind_res (map_err (\<lambda>_. Internal ''wrap'') (wrap_to_recipient (rx V) eph content_key pk)) (\<lambda>w.
     Ok \<lparr>rc_tenant = tenant, rc_wrapped_key = hex_encode w, rc_alg = SHARE_ALG\<rparr>))"

definition put_share :: "repo_env \<Rightarrow> hash \<Rightarrow> bytes \<Rightarrow> share_target list \<Rightarrow> hash op" where
  "put_share V source_hash content_key targets =
     bind_op (lift_res (try_map (wrap_for V content_key) targets)) (\<lambda>rs.
     bind_op (lift_res (share_serialize (rx V)
        \<lparr>for_hash = source_hash, granted_by = tenant_of V, granted_at = now V, recipients = rs\<rparr>)) (\<lambda>bs.
     disk_put (rx V) ''share'' bs))"

definition create_share :: "repo_env \<Rightarrow> str \<Rightarrow> str option \<Rightarrow> tenant_keys \<Rightarrow> share_target list \<Rightarrow> hash op" where
  "create_share V path at keys targets =
     bind_op (lift_res (validate_path path)) (\<lambda>_.
     bind_op (reads (\<lambda>s. bind_res (root_tree V s at) (ok_or (NotFound ''no HEAD'')))) (\<lambda>root.
     bind_op (reads (\<lambda>s. bind_res (get_at_with_key (rx V) (Some (path_key keys)) s path root) (\<lambda>target.
       open_manifest_at V s path target keys))) (\<lambda>(m, content_key).
     put_share V (m_source_hash m) content_key targets)))"

definition revoke_share :: "repo_env \<Rightarrow> fresh \<Rightarrow> str \<Rightarrow> tenant_keys \<Rightarrow> share_target list \<Rightarrow> hash op" where
  "revoke_share V fr path keys keep =
     bind_op (lift_res (validate_path path)) (\<lambda>_.
     bind_op (reads (\<lambda>s. show_encrypted V s path None keys)) (\<lambda>(old, plaintext).
     bind_op (put_envelope V path fr keys plaintext (m_fields old) (Some (m_file_type old))) (\<lambda>(_, source_hash).
     put_share V source_hash (fr_content_key fr) keep)))"

definition apply_share :: "repo_env \<Rightarrow> disk \<Rightarrow> hash \<Rightarrow> str \<Rightarrow> bytes \<Rightarrow> (hash \<times> bytes) result" where
  "apply_share V s share_hash as_tenant identity_priv =
     bind_res (get_object V s (NotFound (''share '' @ hash_hex share_hash)) share_hash) (\<lambda>(ty, body).
     if ty \<noteq> ''share'' then Err (Corrupt (''object '' @ hash_hex share_hash @ '' is not a share''))
     else bind_res (share_parse (rx V) body) (\<lambda>parsed.
       bind_res (ok_or (Unauthorized (''tenant '' @ as_tenant @ '' is not a recipient of share '' @ hash_hex share_hash))
         (recipient_for parsed as_tenant)) (\<lambda>r.
       bind_res (hex_decode (rc_wrapped_key r)) (\<lambda>w.
       bind_res (map_err (\<lambda>_. Unauthorized ''unable to unwrap content key from share'')
         (unwrap_from_stanza (rx V) w identity_priv)) (\<lambda>content_key.
       Ok (for_hash parsed, content_key))))))"

section \<open>Reading back what was sealed\<close>

lemma byte_chunks_count:
  assumes "0 < n"
  shows "length (byte_chunks n bs) = div_ceil (length bs) n"
  using assms
proof (induction n bs rule: byte_chunks.induct)
  case (1 n bs)
  show ?case
  proof (cases "length bs \<le> n")
    case True
    then have "byte_chunks n (drop n bs) = []" by (subst byte_chunks.simps) simp
    then show ?thesis using 1(2) True
      by (subst byte_chunks.simps) (cases "length bs = n", auto simp: div_ceil_def)
  next
    case False
    then have "length (byte_chunks n (drop n bs)) = div_ceil (length bs - n) n" using 1 by (cases bs) auto
    moreover have "length bs div n = (length bs - n) div n + 1" "length bs mod n = (length bs - n) mod n"
      using False 1(2) by (simp_all add: le_div_geq le_mod_geq)
    ultimately show ?thesis using False 1(2) by (subst byte_chunks.simps) (auto simp: div_ceil_def)
  qed
qed

lemma nonce_for_chunk_ok: "hkdf_ok E \<Longrightarrow> \<exists>n. nonce_for_chunk E ck i = Ok n \<and> length n = 12"
  using hkdf_okD [of E NONCE_SIZE ck "chunk_info i"] by (auto simp: nonce_for_chunk_def size_consts)

text \<open>The stored chunks of a list of slices, from the index \<open>idx\<close> on.\<close>

fun chunks_stored :: "ext \<Rightarrow> bytes \<Rightarrow> 32 word \<Rightarrow> bytes list \<Rightarrow> nat \<Rightarrow> bytes list \<Rightarrow> chunks_body \<Rightarrow> bool" where
  "chunks_stored E ck total_chunks fs idx [] es \<longleftrightarrow> es = []"
| "chunks_stored E ck total_chunks fs idx (b # bs) es \<longleftrightarrow>
     (\<exists>ct e es'. es = e # es' \<and> open_sealed E ck (chunk_aad (of_nat idx) total_chunks) ct = Ok b \<and>
        chunk_hash e = hash_of E Blob ct \<and> frame Blob ct \<in> set fs \<and> chunks_stored E ck total_chunks fs (Suc idx) bs es')"

lemma chunks_stored_mono: "set fs \<subseteq> set gs \<Longrightarrow> chunks_stored E ck n fs idx bs es \<Longrightarrow> chunks_stored E ck n gs idx bs es"
  by (induction bs arbitrary: idx es) fastforce+

lemma chunks_stored_length: "chunks_stored E ck n fs idx bs es \<Longrightarrow> length es = length bs"
  by (induction bs arbitrary: idx es) auto

lemma chunks_stored_wf: "sha_ok E \<Longrightarrow> chunks_stored E ck n fs idx bs es \<Longrightarrow> chunks_wf es"
  by (induction bs arbitrary: idx es) (auto simp: chunks_wf_def hash_of_def hash_of_bytes_def hash_wf_def sha_okD)

lemma seal_chunks_ok:
  assumes "disk_ok (rx V) s" "store_env (rx V)" "aead_ok (rx V)" "hkdf_ok (rx V)" "length ck = 32"
    and "\<forall>b \<in> set bs. length b \<le> AEAD_MAX" "idx + length bs \<le> Suc U32_MAX"
  shows "\<exists>es s'. seal_chunks V ck n idx bs entries s = (Ok (entries @ es), s') \<and> disk_ok (rx V) s' \<and> extends s s' \<and>
    chunks_stored (rx V) ck n (puts s') idx bs es"
  using assms(1,6,7)
proof (induction bs arbitrary: s idx entries)
  case (Cons b bs)
  obtain nonce where nonce: "nonce_for_chunk (rx V) ck (of_nat idx) = Ok nonce" "length nonce = 12"
    using nonce_for_chunk_ok [OF assms(4)] by blast
  obtain ct where ct: "seal (rx V) ck nonce (chunk_aad (of_nat idx) n) b = Ok ct"
      "open_sealed (rx V) ck (chunk_aad (of_nat idx) n) ct = Ok b"
    using open_seal [OF assms(3,5) nonce(2)] Cons.prems(2) by (metis list.set_intros(1))
  obtain s1 where s1: "disk_put (rx V) ''blob'' ct s = (Ok (hash_of (rx V) Blob ct), s1)" "disk_ok (rx V) s1"
      "puts s1 = frame Blob ct # puts s"
    using disk_put_ok [OF Cons.prems(1) store_envD [OF assms(2)], of Blob ct] by auto
  let ?e = "\<lparr>chunk_hash = hash_of (rx V) Blob ct, chunk_length = of_nat (length ct)\<rparr>"
  obtain es s' where s': "seal_chunks V ck n (Suc idx) bs (entries @ [?e]) s1 = (Ok ((entries @ [?e]) @ es), s')"
      "disk_ok (rx V) s'" "extends s1 s'" "chunks_stored (rx V) ck n (puts s') (Suc idx) bs es"
    using Cons.IH [OF s1(2), of "Suc idx" "entries @ [?e]"] Cons.prems(2,3) by auto
  have "frame Blob ct \<in> set (puts s')" using extends_puts [OF s'(3)] s1(3) by auto
  then have "chunks_stored (rx V) ck n (puts s') idx (b # bs) (?e # es)" using ct(2) s'(4) by auto
  moreover have "seal_chunks V ck n idx (b # bs) entries s = (Ok (entries @ ?e # es), s')"
    using Cons.prems(3) nonce(1) ct(1) s1(1) s'(1) by (simp add: bind_op_def)
  moreover have "extends s s'" using extends_trans [OF extends_put [OF s1(3)] s'(3)] .
  ultimately show ?case using s'(2) by blast
qed auto

lemma open_chunks_ok:
  assumes "disk_ok (rx V) s" "sha_ok (rx V)" "collision_free (rx V) s"
    and "chunks_stored (rx V) ck n (puts s) idx bs es" "idx + length bs \<le> Suc U32_MAX"
  shows "open_chunks V s ck n idx es out = Ok (out @ concat bs)"
  using assms(4,5)
proof (induction bs arbitrary: idx es out)
  case (Cons b bs)
  then obtain ct e es' where e: "es = e # es'" "open_sealed (rx V) ck (chunk_aad (of_nat idx) n) ct = Ok b"
      "chunk_hash e = hash_of (rx V) Blob ct" "frame Blob ct \<in> set (puts s)" "chunks_stored (rx V) ck n (puts s) (Suc idx) bs es'"
    by auto
  have "disk_get (rx V) s (chunk_hash e) = Ok (Some (''blob'', ct))"
    using disk_get_stored [OF assms(1-3) e(4)] e(3) by simp
  then show ?case
    using Cons.IH [OF e(5), of "out @ b"] e(1,2) Cons.prems(2) by (simp add: get_object_def)
qed simp

lemma seal_single_ok:
  assumes "disk_ok (rx V) s" "store_env (rx V)" "aead_ok (rx V)" "hkdf_ok (rx V)" "length ck = 32" "length pt \<le> AEAD_MAX"
  obtains ct s1 where "seal_single_blob V pt ck s =
      (Ok (hash_of (rx V) Blob ct, length pt, sha256_hex (rx V) pt, sniff_prefix_of pt), s1)"
    "disk_ok (rx V) s1" "puts s1 = frame Blob ct # puts s" "open_sealed (rx V) ck BLOB_AAD ct = Ok pt" "length ct = length pt + 29"
proof -
  obtain nonce where nonce: "nonce_for_chunk (rx V) ck 0 = Ok nonce" "length nonce = 12"
    using nonce_for_chunk_ok [OF assms(4)] by blast
  obtain ct where ct: "seal (rx V) ck nonce BLOB_AAD pt = Ok ct" "length ct = length pt + 29"
      "open_sealed (rx V) ck BLOB_AAD ct = Ok pt"
    using open_seal [OF assms(3,5) nonce(2) assms(6)] by blast
  obtain s1 where s1: "disk_put (rx V) ''blob'' ct s = (Ok (hash_of (rx V) Blob ct), s1)" "disk_ok (rx V) s1"
      "puts s1 = frame Blob ct # puts s"
    using disk_put_ok [OF assms(1) store_envD [OF assms(2)], of Blob ct] by auto
  then show thesis using that [OF _ s1(2,3) ct(3,2)] nonce(1) ct(1) by (simp add: seal_single_blob_def bind_op_def)
qed

lemma seal_chunked_ok:
  assumes "disk_ok (rx V) s" "store_env (rx V)" "aead_ok (rx V)" "hkdf_ok (rx V)" "length ck = 32"
    and "0 < n" "n \<le> AEAD_MAX" "div_ceil (length pt) n \<le> U32_MAX"
  obtains es s1 where "seal_chunked V pt ck n s =
      (Ok (hash_of (rx V) Chunks (chunks_serialize es), length pt, hex_encode (sha256 (rx V) pt), sniff_prefix_of pt), s1)"
    "disk_ok (rx V) s1" "extends s s1" "frame Chunks (chunks_serialize es) \<in> set (puts s1)"
    "chunks_stored (rx V) ck (of_nat (length es)) (puts s1) 0 (byte_chunks n pt) es"
proof -
  have len: "length (byte_chunks n pt) = div_ceil (length pt) n" using byte_chunks_count [OF assms(6)] .
  have count: "chunk_count pt n = Ok (of_nat (length (byte_chunks n pt)))"
    using assms(6,8) len by (auto simp: chunk_count_def Let_def byte_chunks.simps)
  have small: "\<forall>b \<in> set (byte_chunks n pt). length b \<le> AEAD_MAX" using byte_chunks_length assms(7) le_trans by blast
  obtain es s0 where es: "seal_chunks V ck (of_nat (length (byte_chunks n pt))) 0 (byte_chunks n pt) [] s = (Ok es, s0)"
      "disk_ok (rx V) s0" "extends s s0"
      "chunks_stored (rx V) ck (of_nat (length (byte_chunks n pt))) (puts s0) 0 (byte_chunks n pt) es"
    using seal_chunks_ok [OF assms(1-5) small, where idx = 0 and n = "of_nat (length (byte_chunks n pt))" and entries = "[]"]
      len assms(8) by auto
  obtain s1 where s1: "disk_put (rx V) ''chunks'' (chunks_serialize es) s0 = (Ok (hash_of (rx V) Chunks (chunks_serialize es)), s1)"
      "disk_ok (rx V) s1" "puts s1 = frame Chunks (chunks_serialize es) # puts s0"
    using disk_put_ok [OF es(2) store_envD [OF assms(2)], of Chunks] by auto
  have "chunks_stored (rx V) ck (of_nat (length es)) (puts s1) 0 (byte_chunks n pt) es"
    using chunks_stored_mono [OF _ es(4), of "puts s1"] s1(3) chunks_stored_length [OF es(4)] by auto
  moreover have "extends s s1" using extends_trans [OF es(3) extends_put [OF s1(3)]] .
  ultimately show thesis
    using that s1 count es(1) by (simp add: seal_chunked_def bind_op_def)
qed

section \<open>Properties\<close>

text \<open>
  C11. A file sealed with a content key, as one blob or in chunks, is read back with that
  key, in this and in every later state of the store. The chunks may be as many as an
  unsigned 32-bit number counts.
\<close>

theorem decrypt_sealed:
  assumes "disk_ok (rx V) s" "store_env (rx V)" "aead_ok (rx V)" "hkdf_ok (rx V)" "length ck = 32"
    and "0 < n" "n \<le> AEAD_MAX" "div_ceil (length pt) n \<le> U32_MAX"
    and "seal_source V pt ck n s = (r, s1)" "disk_ok (rx V) s2" "extends s1 s2" "collision_free (rx V) s2"
  shows "\<exists>h. r = Ok (h, length pt, hex_encode (sha256 (rx V) pt), sniff_prefix_of pt) \<and>
    decrypt_source V s2 h ck = Ok pt"
proof -
  have sha: "sha_ok (rx V)" using store_envD(1) [OF assms(2)] .
  show ?thesis
  proof (cases "length pt \<ge> n")
    case True
    obtain es where es: "r = Ok (hash_of (rx V) Chunks (chunks_serialize es), length pt, hex_encode (sha256 (rx V) pt), sniff_prefix_of pt)"
        "frame Chunks (chunks_serialize es) \<in> set (puts s1)"
        "chunks_stored (rx V) ck (of_nat (length es)) (puts s1) 0 (byte_chunks n pt) es"
      using seal_chunked_ok [OF assms(1-8)] assms(9) True by (metis prod.inject seal_source_def)
    have sub: "set (puts s1) \<subseteq> set (puts s2)" using extends_puts [OF assms(11)] .
    have get: "disk_get (rx V) s2 (hash_of (rx V) Chunks (chunks_serialize es)) = Ok (Some (''chunks'', chunks_serialize es))"
      using disk_get_stored [OF assms(10) sha assms(12)] es(2) sub by fastforce
    have stored: "chunks_stored (rx V) ck (of_nat (length es)) (puts s2) 0 (byte_chunks n pt) es"
      using chunks_stored_mono [OF sub es(3)] .
    have "length es \<le> U32_MAX"
      using chunks_stored_length [OF es(3)] byte_chunks_count [OF assms(6)] assms(8) by simp
    then have "open_chunks V s2 ck (of_nat (length es)) 0 es [] = Ok pt"
      using open_chunks_ok [OF assms(10) sha assms(12) stored] chunks_stored_length [OF es(3)]
        byte_chunks_concat [OF assms(6)] by simp
    then show ?thesis
      using es(1) get \<open>length es \<le> U32_MAX\<close> chunks_parse_serialize [OF chunks_stored_wf [OF sha es(3)]]
      by (simp add: decrypt_source_def get_object_def)
  next
    case False
    then have "length pt \<le> AEAD_MAX" using assms(7) by simp
    then obtain ct where ct: "r = Ok (hash_of (rx V) Blob ct, length pt, sha256_hex (rx V) pt, sniff_prefix_of pt)"
        "puts s1 = frame Blob ct # puts s" "open_sealed (rx V) ck BLOB_AAD ct = Ok pt"
      using seal_single_ok [OF assms(1-5)] assms(9) False by (metis prod.inject seal_source_def)
    have "disk_get (rx V) s2 (hash_of (rx V) Blob ct) = Ok (Some (''blob'', ct))"
      using disk_get_stored [OF assms(10) sha assms(12)] ct(2) extends_puts [OF assms(11)] by fastforce
    then show ?thesis using ct(1,3) by (simp add: decrypt_source_def get_object_def sha256_hex_def)
  qed
qed

theorem decrypt_sealed_witness:
  "\<exists>h s1. seal_source plain_env ''secret'' (replicate 32 (CHR ''k'')) 16 fresh_disk =
      (Ok (h, length ''secret'', hex_encode (sha256 toy_ext ''secret''), sniff_prefix_of ''secret''), s1) \<and>
    decrypt_source plain_env s1 h (replicate 32 (CHR ''k'')) = Ok ''secret''"
proof -
  let ?k = "replicate 32 (CHR ''k'')"
  have rx: "rx plain_env = toy_ext" by (simp add: plain_env_def)
  have hyp: "disk_ok (rx plain_env) fresh_disk" "store_env (rx plain_env)" "aead_ok (rx plain_env)" "hkdf_ok (rx plain_env)"
      "length ?k = 32" "length ''secret'' \<le> AEAD_MAX" by (simp_all add: rx AEAD_MAX_def)
  obtain ct s1 r where s1: "seal_source plain_env ''secret'' ?k 16 fresh_disk = (r, s1)" "disk_ok toy_ext s1"
      "puts s1 = [frame Blob ct]" "length ct = 35"
    by (rule seal_single_ok [OF hyp]) (auto simp: seal_source_def rx)
  have "length (frame Blob ct) \<le> 50" using s1(4) by (simp add: frame_def show_nat.simps)
  then have "collision_free toy_ext s1" using s1(3) by (simp add: collision_free_def U64_MAX_def)
  then have "\<exists>h. r = Ok (h, length ''secret'', hex_encode (sha256 (rx plain_env) ''secret''), sniff_prefix_of ''secret'') \<and>
      decrypt_source plain_env s1 h ?k = Ok ''secret''"
    using decrypt_sealed [OF hyp(1-5) _ _ _ s1(1) _ extends_refl] s1(2) by (simp add: rx AEAD_MAX_def div_ceil_def U32_MAX_def)
  then show ?thesis using s1(1) by (simp add: rx)
qed

text \<open>
  A tenant that a share names gets the content key and the source it opens, whatever
  other recipients there are, provided the share reads back as written and each tenant
  is named once.
\<close>

lemma apply_put_share:
  assumes "disk_ok (rx V) s" "store_env (rx V)" "aead_ok (rx V)" "hkdf_ok (rx V)" "x25519_ok (rx V)" "length ck = 32"
    and "(tenant, x25519_public (rx V) priv, eph) \<in> set ts" "distinct (map fst ts)"
    and "\<And>b bs. share_serialize (rx V) b = Ok bs \<Longrightarrow> share_parse (rx V) bs = Ok b"
    and "put_share V h ck ts s = (Ok k, s1)" "collision_free (rx V) s1"
  shows "apply_share V s1 k tenant priv = Ok (h, ck)"
proof -
  obtain rs bs where rs: "try_map (wrap_for V ck) ts = Ok rs"
      "share_serialize (rx V) \<lparr>for_hash = h, granted_by = tenant_of V, granted_at = now V, recipients = rs\<rparr> = Ok bs"
      "disk_put (rx V) ''share'' bs s = (Ok k, s1)"
    using assms(10) by (auto simp: put_share_def bind_op_eq_Ok)
  obtain s' where "disk_put (rx V) ''share'' bs s = (Ok (hash_of (rx V) Share bs), s')" "disk_ok (rx V) s'"
      "puts s' = frame Share bs # puts s"
    using disk_put_ok [OF assms(1) store_envD [OF assms(2)], of Share bs] by auto
  then have s1: "k = hash_of (rx V) Share bs" "disk_ok (rx V) s1" "frame Share bs \<in> set (puts s1)" using rs(3) by auto
  have get: "disk_get (rx V) s1 k = Ok (Some (''share'', bs))"
    using disk_get_stored [OF s1(2) store_envD(1) [OF assms(2)] assms(11) s1(3)] s1(1) by simp
  obtain w where w: "wrap_to_recipient (rx V) eph ck (x25519_public (rx V) priv) = Ok w"
      "unwrap_from_stanza (rx V) w priv = Ok ck"
    using unwrap_wrap [OF assms(3-6)] by blast
  let ?r = "\<lparr>rc_tenant = tenant, rc_wrapped_key = hex_encode w, rc_alg = SHARE_ALG\<rparr>"
  have names: "list_all2 (\<lambda>t r. wrap_for V ck t = Ok r) ts rs" using rs(1) by (simp add: try_map_eq_Inr)
  have "find (\<lambda>r. rc_tenant r = tenant) rs = Some ?r"
    using names assms(7,8)
  proof (induction rule: list_all2_induct)
    case (Cons t ts r rs)
    then show ?case
      using w(1) by (cases "t = (tenant, x25519_public (rx V) priv, eph)")
        (force simp: wrap_for_def res_simps split: prod.splits)+
  qed simp
  then show ?thesis
    using get assms(9) [OF rs(2)] w(2) by (simp add: apply_share_def get_object_def recipient_for_def hex_decode_encode)
qed

end
