(* ===== verification/Omp_Open.thy ===== *)
theory Omp_Open
  imports Omp_Ingest
begin

text \<open>
  \<open>crates/omp-core/src/api.rs\<close>: how a repository is created and opened, with the starter pack
  of \<open>probes/starter.rs\<close>. The working tree is a map from paths to the contents of its files,
  in which writing succeeds; the files that the build embeds are an argument, by their names.
\<close>

type_synonym work = "str \<rightharpoonup> bytes"

type_synonym embedded = "str \<Rightarrow> bytes"

section \<open>The starter pack\<close>

record starter =
  st_name :: str
  st_namespace :: str
  st_basename :: str
  st_wasm :: bytes
  st_manifest :: bytes

definition starter_of :: "embedded \<Rightarrow> str \<Rightarrow> str \<Rightarrow> str \<Rightarrow> starter" where
  "starter_of emb name ns base =
     \<lparr>st_name = name, st_namespace = ns, st_basename = base, st_wasm = emb (''build/wasm/'' @ name @ ''.wasm''),
      st_manifest = emb (''starter-probes/'' @ name @ ''.probe.toml'')\<rparr>"

definition STARTER_PROBES :: "embedded \<Rightarrow> starter list" where
  "STARTER_PROBES emb =
     [starter_of emb ''file.size'' ''file'' ''size'', starter_of emb ''file.mime'' ''file'' ''mime'',
      starter_of emb ''file.sha256'' ''file'' ''sha256'', starter_of emb ''text.line_count'' ''text'' ''line_count'',
      starter_of emb ''image.dimensions'' ''image'' ''dimensions'',
      starter_of emb ''audio.duration_seconds'' ''audio'' ''duration_seconds'',
      starter_of emb ''video.duration_seconds'' ''video'' ''duration_seconds'',
      starter_of emb ''video.dimensions'' ''video'' ''dimensions'', starter_of emb ''pdf.page_count'' ''pdf'' ''page_count'']"

definition tree_path_dir :: "starter \<Rightarrow> str" where
  "tree_path_dir p = ''probes/'' @ st_namespace p @ ''/'' @ st_basename p"

definition tree_path_wasm :: "starter \<Rightarrow> str" where
  "tree_path_wasm p = tree_path_dir p @ ''/probe.wasm''"

definition tree_path_manifest :: "starter \<Rightarrow> str" where
  "tree_path_manifest p = tree_path_dir p @ ''/probe.toml''"

definition starter_schemas :: "embedded \<Rightarrow> (str \<times> bytes) list" where
  "starter_schemas emb =
     map (\<lambda>t. (''schemas/'' @ t @ ''/schema.toml'', emb (''starter-schemas/'' @ t @ ''/schema.toml'')))
       [''text'', ''markdown'', ''png'', ''jpeg'', ''mp3'', ''wav'', ''mp4'', ''pdf'']"

section \<open>Creating and opening\<close>

definition quoted_text :: "str \<Rightarrow> str" where
  "quoted_text s = CHR 0x22 # s @ [CHR 0x22]"

definition starter_config :: str where
  "starter_config = concat (map (\<lambda>l. l @ [LF])
     [''# OpenMemoryProtocol versioned config.'', ''# See docs/design/07-config.md.'', [],
      ''[ingest]'', ''default_schema_policy = '' @ quoted_text ''reject'', ''allow_blob_fallback = false'', [],
      ''[workdir]'', ''ignore = ['' @ quoted_text ''.git/'' @ '', '' @ quoted_text ''node_modules/'' @ '', '' @
        quoted_text ''*.log'' @ '', '' @ quoted_text ''*.tmp'' @ '', '' @ quoted_text ''__pycache__/'' @ '']'',
      ''follow_symlinks = false'', [],
      ''[probes]'', ''memory_mb = 64'', ''fuel = 1000000000'', ''wall_clock_s = 10''])"

definition write_new :: "work \<Rightarrow> str \<times> bytes \<Rightarrow> work" where
  "write_new w = (\<lambda>(p, b). if w p = None then w(p \<mapsto> b) else w)"

definition starter_files :: "embedded \<Rightarrow> (str \<times> bytes) list" where
  "starter_files emb =
     concat (map (\<lambda>p. [(tree_path_wasm p, st_wasm p), (tree_path_manifest p, st_manifest p)]) (STARTER_PROBES emb)) @
     starter_schemas emb @ [(''omp.toml'', starter_config)]"

definition repo_handle_of :: "repo_env \<Rightarrow> str \<Rightarrow> quotas \<Rightarrow> repo_env" where
  "repo_handle_of V tenant q = V\<lparr>tenant_of := tenant, quotas_of := q\<rparr>"

definition init_tenant ::
  "embedded \<Rightarrow> repo_env \<Rightarrow> str \<Rightarrow> quotas \<Rightarrow> disk \<times> work \<Rightarrow> repo_env result \<times> disk \<times> work"
where
  "init_tenant emb V tenant q = (\<lambda>(s, w).
     case bind_op disk_init (\<lambda>_. write_skeleton) s of
       (Inl e, s') \<Rightarrow> (Err e, s', w)
     | (Inr _, s') \<Rightarrow> (Ok (repo_handle_of V tenant q), s', foldl write_new w (starter_files emb)))"

definition open_tenant :: "repo_env \<Rightarrow> str \<Rightarrow> quotas \<Rightarrow> disk \<Rightarrow> repo_env result" where
  "open_tenant V tenant q s = bind_res (disk_open s) (\<lambda>_. Ok (repo_handle_of V tenant q))"

definition repo_init :: "embedded \<Rightarrow> repo_env \<Rightarrow> disk \<times> work \<Rightarrow> repo_env result \<times> disk \<times> work" where
  "repo_init emb V = init_tenant emb V ''_local'' unlimited"

definition repo_open :: "repo_env \<Rightarrow> disk \<Rightarrow> repo_env result" where
  "repo_open V = open_tenant V ''_local'' unlimited"

section \<open>Creating again\<close>

lemma write_new_get: "write_new w kv p = (if p = fst kv \<and> w p = None then Some (snd kv) else w p)"
  by (cases kv) (auto simp: write_new_def)

lemma write_new_all: "foldl write_new w fs p = (case w p of Some b \<Rightarrow> Some b | None \<Rightarrow> map_of fs p)"
proof (induction fs arbitrary: w)
  case (Cons kv fs)
  then show ?case by (cases kv; cases "w p") (auto simp: write_new_get)
qed (simp split: option.split)

lemma write_new_again: "(\<And>p b. (p, b) \<in> set fs \<Longrightarrow> w p \<noteq> None) \<Longrightarrow> foldl write_new w fs = w"
  by (induction fs) (fastforce simp: write_new_def)+

definition add_file :: "str \<Rightarrow> bytes \<Rightarrow> disk \<Rightarrow> disk" where
  "add_file n b s = (if path_exists s [n] then s else s\<lparr>files := (files s)([n] \<mapsto> b)\<rparr>)"

definition base_dirs :: "str list set" where
  "base_dirs = {[], [''objects''], [''refs''], [''refs'', ''heads'']}"

definition skeleton_of :: "disk \<Rightarrow> disk" where
  "skeleton_of s =
     add_file ''local.toml'' local_skeleton
       (add_file ''HEAD'' (''ref: refs/heads/main'' @ [LF]) (s\<lparr>dirs := dirs s \<union> base_dirs\<rparr>))"

definition places_free :: "disk \<Rightarrow> bool" where
  "places_free s \<longleftrightarrow> (\<forall>p \<in> base_dirs. files s p = None)"

lemma disk_init_run:
  "bind_op disk_init (\<lambda>_. write_skeleton) s = (r, s') \<Longrightarrow> (r = Ok () \<longleftrightarrow> places_free s) \<and> (r = Ok () \<longrightarrow> s' = skeleton_of s)"
  by (auto simp: disk_init_def write_skeleton_def bind_op_def create_dir_def write_atomic_def write_file_def places_free_def
      skeleton_of_def add_file_def base_dirs_def path_exists_def insert_commute split: if_splits)

lemma add_file_facts:
  "path_exists (add_file n b s) [n]" "dirs (add_file n b s) = dirs s" "puts (add_file n b s) = puts s"
  "path_exists s p \<Longrightarrow> path_exists (add_file n b s) p" "files s p = Some c \<Longrightarrow> files (add_file n b s) p = Some c"
  "files (add_file n b s) [] = files s []" "[n] \<noteq> p \<Longrightarrow> files (add_file n b s) p = files s p"
  by (auto simp: add_file_def path_exists_def)

lemma skeleton_facts:
  "base_dirs \<subseteq> dirs (skeleton_of s)" "puts (skeleton_of s) = puts s"
  "path_exists (skeleton_of s) [''HEAD'']" "path_exists (skeleton_of s) [''local.toml'']"
  "files s p = Some c \<Longrightarrow> files (skeleton_of s) p = Some c" "p \<in> base_dirs \<Longrightarrow> files (skeleton_of s) p = files s p"
  by (simp_all add: skeleton_of_def add_file_facts) (auto simp: base_dirs_def add_file_facts)

lemma skeleton_same:
  assumes "base_dirs \<subseteq> dirs s" "path_exists s [''HEAD'']" "path_exists s [''local.toml'']"
  shows "skeleton_of s = s"
proof -
  have "s\<lparr>dirs := dirs s \<union> base_dirs\<rparr> = s" using assms(1) by (simp add: Un_absorb2)
  then show ?thesis using assms(2,3) by (simp add: skeleton_of_def add_file_def)
qed

lemma skeleton_again: "places_free s \<Longrightarrow> places_free (skeleton_of s)" "skeleton_of (skeleton_of s) = skeleton_of s"
  by (simp_all add: places_free_def skeleton_facts skeleton_same)

text \<open>
  C15. Creating a repository is safe to repeat. It overwrites no file, of the working tree or
  of \<open>.omp/\<close>, forgets no object, leaves every starter file in place and a repository that
  opens; creating it again, for any tenant, changes nothing.
\<close>

theorem init_safe_to_rerun:
  assumes "init_tenant emb V tenant q (s, w) = (Ok V1, s1, w1)"
  shows "(\<forall>p b. w p = Some b \<longrightarrow> w1 p = Some b) \<and> (\<forall>p b. files s p = Some b \<longrightarrow> files s1 p = Some b) \<and> puts s1 = puts s \<and>
    (\<forall>(p, b) \<in> set (starter_files emb). w1 p \<noteq> None) \<and> open_tenant V tenant q s1 = Ok V1 \<and>
    init_tenant emb V tenant' q' (s1, w1) = (Ok (repo_handle_of V tenant' q'), s1, w1)"
proof -
  obtain s' where run: "bind_op disk_init (\<lambda>_. write_skeleton) s = (Ok (), s')"
      "V1 = repo_handle_of V tenant q" "s1 = s'" "w1 = foldl write_new w (starter_files emb)"
    using assms by (auto simp: init_tenant_def split: prod.splits sum.splits)
  then have free: "places_free s" and s1: "s1 = skeleton_of s" using disk_init_run by blast+
  have put: "w1 p = (case w p of Some b \<Rightarrow> Some b | None \<Rightarrow> map_of (starter_files emb) p)" for p
    by (simp add: run(4) write_new_all)
  have starters: "w1 p \<noteq> None" if "(p, b) \<in> set (starter_files emb)" for p b
    using weak_map_of_SomeI [OF that] put [of p] by (cases "w p") auto
  obtain r t where again: "bind_op disk_init (\<lambda>_. write_skeleton) s1 = (r, t)" by (cases "bind_op disk_init (\<lambda>_. write_skeleton) s1")
  then have "r = Ok ()" "t = s1" using disk_init_run [OF again] skeleton_again(1) [OF free] skeleton_again(2) [of s] s1 by auto
  then have "init_tenant emb V tenant' q' (s1, w1) = (Ok (repo_handle_of V tenant' q'), s1, w1)"
    using again starters by (simp add: init_tenant_def write_new_again)
  moreover have "disk_open s1 = Ok ()" using skeleton_facts(1) [of s] by (auto simp: s1 disk_open_def base_dirs_def)
  ultimately show ?thesis
    using put skeleton_facts(2,5) starters run(2) s1 by (auto simp: open_tenant_def)
qed

theorem init_safe_to_rerun_witness:
  "\<exists>s1 w1. init_tenant (\<lambda>n. n) plain_env ''a'' unlimited (empty_disk, [''omp.toml'' \<mapsto> ''mine'']) = (Ok (repo_handle_of plain_env ''a'' unlimited), s1, w1) \<and>
     w1 ''omp.toml'' = Some ''mine'' \<and>
     init_tenant (\<lambda>n. n) plain_env ''b'' unlimited (s1, w1) = (Ok (repo_handle_of plain_env ''b'' unlimited), s1, w1)"
proof -
  obtain r t where run: "bind_op disk_init (\<lambda>_. write_skeleton) empty_disk = (r, t)" by (cases "bind_op disk_init (\<lambda>_. write_skeleton) empty_disk")
  then have "r = Ok ()" using disk_init_run [OF run] by (simp add: places_free_def empty_disk_def)
  then have i: "init_tenant (\<lambda>n. n) plain_env ''a'' unlimited (empty_disk, [''omp.toml'' \<mapsto> ''mine'']) =
      (Ok (repo_handle_of plain_env ''a'' unlimited), t, foldl write_new [''omp.toml'' \<mapsto> ''mine''] (starter_files (\<lambda>n. n)))"
    using run by (simp add: init_tenant_def)
  show ?thesis using i init_safe_to_rerun [OF i, of "''b''" unlimited] by simp
qed

end
