(* ===== verification/Omp_Remote.thy ===== *)
theory Omp_Remote
  imports Listing
begin

text \<open>
  \<open>crates/omp-store\<close> and \<open>crates/omp-store-client\<close>: an object store behind gRPC. The service
  has one call for each method of the trait, and the client implements the trait by these
  calls, so that a repository can use it in the place of the disk store, which it does
  (\<open>remote_store_transparent\<close>): the client interprets the same locale.

  Messages are records of strings and bytes; their encoding is generated code and carried by
  tonic. What tonic does to one call is a value of \<open>delivery\<close>. Statuses are the two kinds the
  service makes, without their texts.
\<close>

section \<open>The service\<close>

datatype rpc_status = Status_Internal | Status_Invalid_Argument

record get_response =
  gr_found :: bool
  gr_type :: str
  gr_content :: bytes

record ref_response =
  rr_found :: bool
  rr_hash :: str

type_synonym 'r service = "disk \<Rightarrow> (rpc_status + 'r) \<times> disk"

definition rpc_map_err :: "'a op \<Rightarrow> ('a \<Rightarrow> 'r) \<Rightarrow> 'r service" where
  "rpc_map_err m f s = (case m s of (Inl _, s') \<Rightarrow> (Inl Status_Internal, s') | (Inr x, s') \<Rightarrow> (Inr (f x), s'))"

definition parse_hash :: "str \<Rightarrow> rpc_status + hash" where
  "parse_hash h = map_err (\<lambda>_. Status_Invalid_Argument) (hash_from_str h)"

definition with_hash :: "str \<Rightarrow> (hash \<Rightarrow> 'r service) \<Rightarrow> 'r service" where
  "with_hash h f s = (case parse_hash h of Inl e \<Rightarrow> (Inl e, s) | Inr k \<Rightarrow> f k s)"

definition service_put :: "ext \<Rightarrow> str \<Rightarrow> bytes \<Rightarrow> str service" where
  "service_put E ty content = rpc_map_err (disk_put E ty content) hash_hex"

definition service_get :: "ext \<Rightarrow> str \<Rightarrow> get_response service" where
  "service_get E h = with_hash h (\<lambda>k. rpc_map_err (reads (\<lambda>s. disk_get E s k)) (\<lambda>opt. case opt of
     Some (ty, content) \<Rightarrow> \<lparr>gr_found = True, gr_type = ty, gr_content = content\<rparr>
   | None \<Rightarrow> \<lparr>gr_found = False, gr_type = [], gr_content = []\<rparr>))"

definition service_has :: "str \<Rightarrow> bool service" where
  "service_has h = with_hash h (\<lambda>k. rpc_map_err (reads (\<lambda>s. disk_has s k)) id)"

definition service_read_ref :: "str \<Rightarrow> ref_response service" where
  "service_read_ref name = rpc_map_err (reads (\<lambda>s. read_ref s name)) (\<lambda>opt. case opt of
     Some k \<Rightarrow> \<lparr>rr_found = True, rr_hash = hash_hex k\<rparr>
   | None \<Rightarrow> \<lparr>rr_found = False, rr_hash = []\<rparr>)"

definition service_write_ref :: "str \<Rightarrow> str \<Rightarrow> unit service" where
  "service_write_ref name h = with_hash h (\<lambda>k. rpc_map_err (write_ref name k) id)"

definition service_delete_ref :: "str \<Rightarrow> unit service" where
  "service_delete_ref name = rpc_map_err (delete_ref name) id"

text \<open>The stream carries the pairs in the order the store lists them. \<open>refs\<close> is that list.\<close>

definition service_iter_refs :: "(disk \<Rightarrow> (str \<times> hash) list result) \<Rightarrow> (str \<times> str) list service" where
  "service_iter_refs refs = rpc_map_err (reads refs) (map (\<lambda>(n, k). (n, hash_hex k)))"

definition service_read_head :: "str service" where
  "service_read_head = rpc_map_err (reads read_head) id"

definition service_write_head :: "str \<Rightarrow> unit service" where
  "service_write_head value = rpc_map_err (write_head value) id"

section \<open>The client\<close>

text \<open>
  A call is answered, fails before the service has acted (no connection, a message above the
  limit of the receiver, 4 MB unless configured), or fails after it (a lost connection, an
  answer above the limit).
\<close>

datatype delivery = Answered | Unsent | Unanswered

definition rpc :: "delivery \<Rightarrow> 'r service \<Rightarrow> 'r op" where
  "rpc d srv s =
     (case d of
        Unsent \<Rightarrow> (Err (Internal ''rpc''), s)
      | Unanswered \<Rightarrow> (Err (Internal ''rpc''), snd (srv s))
      | Answered \<Rightarrow> (case srv s of (Inl _, s') \<Rightarrow> (Err (Internal ''rpc''), s') | (Inr r, s') \<Rightarrow> (Ok r, s')))"

definition server_hash :: "str \<Rightarrow> hash result" where
  "server_hash t = map_err (\<lambda>_. Internal ''server returned bad hash'') (hash_from_str t)"

definition remote_put :: "ext \<Rightarrow> delivery \<Rightarrow> str \<Rightarrow> bytes \<Rightarrow> hash op" where
  "remote_put E d ty content = bind_op (rpc d (service_put E ty content)) (\<lambda>t. lift_res (server_hash t))"

text \<open>The default method of the trait, which the client keeps.\<close>

definition remote_put_stream :: "ext \<Rightarrow> delivery \<Rightarrow> str \<Rightarrow> bytes list \<Rightarrow> nat \<Rightarrow> hash op" where
  "remote_put_stream E d ty pieces known_size =
     (let buf = concat pieces in
      if length buf \<noteq> known_size then raise (Internal ''put_stream: declared size != actual'') else remote_put E d ty buf)"

definition remote_get :: "ext \<Rightarrow> delivery \<Rightarrow> hash \<Rightarrow> (str \<times> bytes) option op" where
  "remote_get E d h = bind_op (rpc d (service_get E (hash_hex h))) (\<lambda>r.
     ret (if gr_found r then Some (gr_type r, gr_content r) else None))"

definition remote_has :: "delivery \<Rightarrow> hash \<Rightarrow> bool op" where
  "remote_has d h = rpc d (service_has (hash_hex h))"

definition remote_iter_refs :: "delivery \<Rightarrow> (disk \<Rightarrow> (str \<times> hash) list result) \<Rightarrow> (str \<times> hash) list op" where
  "remote_iter_refs d refs = bind_op (rpc d (service_iter_refs refs)) (\<lambda>items.
     lift_res (try_map (\<lambda>(n, t). bind_res (map_err (\<lambda>_. Internal ''invalid hash'') (hash_from_str t)) (\<lambda>k. Ok (n, k))) items))"

definition remote_read_ref :: "delivery \<Rightarrow> str \<Rightarrow> hash option op" where
  "remote_read_ref d name = bind_op (rpc d (service_read_ref name)) (\<lambda>r.
     if rr_found r then lift_res (bind_res (server_hash (rr_hash r)) (\<lambda>k. Ok (Some k))) else ret None)"

definition remote_write_ref :: "delivery \<Rightarrow> str \<Rightarrow> hash \<Rightarrow> unit op" where
  "remote_write_ref d name commit = rpc d (service_write_ref name (hash_hex commit))"

definition remote_delete_ref :: "delivery \<Rightarrow> str \<Rightarrow> unit op" where
  "remote_delete_ref d name = rpc d (service_delete_ref name)"

definition remote_read_head :: "delivery \<Rightarrow> str op" where
  "remote_read_head d = rpc d service_read_head"

definition remote_write_head :: "delivery \<Rightarrow> str \<Rightarrow> unit op" where
  "remote_write_head d value = rpc d (service_write_head value)"

section \<open>The client does what the store does\<close>

text \<open>The result of an operation as the client reports it: an error loses what it was.\<close>

definition through :: "'a op \<Rightarrow> 'a op" where
  "through m s = (map_err (\<lambda>_. Internal ''rpc'') (fst (m s)), snd (m s))"

lemma rpc_answered: "rpc Answered (rpc_map_err m f) s = bind_op (through m) (\<lambda>x. ret (f x)) s"
  by (auto simp: rpc_def rpc_map_err_def through_def bind_op_def ret_def map_err_def split: prod.split sum.split)

lemma rpc_answered_id: "rpc Answered (rpc_map_err m id) s = through m s"
  by (auto simp: rpc_def rpc_map_err_def through_def map_err_def split: prod.split sum.split)

lemma through_Ok: "through m s = (Ok x, s') \<longleftrightarrow> m s = (Ok x, s')"
  by (cases "m s") (auto simp: through_def map_err_def split: sum.splits)

lemma through_Err: "m s = (Inl e, s') \<Longrightarrow> through m s = (Err (Internal ''rpc''), s')"
  by (simp add: through_def map_err_def)

lemma hash_sent: "hash_wf h \<Longrightarrow> with_hash (hash_hex h) f = f h"
  by (rule ext) (simp add: with_hash_def parse_hash_def hash_from_str_hex map_err_def)

text \<open>A call whose answer is read back as it was sent.\<close>

lemma bind_through:
  assumes "\<And>x s'. m s = (Ok x, s') \<Longrightarrow> g (f x) s' = (Ok x, s')"
  shows "bind_op (rpc Answered (rpc_map_err m f)) g s = through m s"
proof (cases "m s")
  case (Pair r s')
  then show ?thesis
    using assms by (cases r) (simp_all add: bind_op_def rpc_def rpc_map_err_def through_def map_err_def)
qed

lemma remote_put_answered: "sha_ok E \<Longrightarrow> remote_put E Answered ty c s = through (disk_put E ty c) s"
proof -
  assume E: "sha_ok E"
  have "hash_wf h" if "disk_put E ty c s = (Ok h, s')" for h s'
    using that E by (auto simp: disk_put_def bind_op_eq_Ok Let_def split: if_splits)
  then show ?thesis
    unfolding remote_put_def service_put_def by (intro bind_through) (simp add: server_hash_def hash_from_str_hex map_err_def)
qed

lemma remote_get_answered: "hash_wf h \<Longrightarrow> remote_get E Answered h s = through (reads (\<lambda>s. disk_get E s h)) s"
  unfolding remote_get_def service_get_def by (simp only: hash_sent) (intro bind_through, auto split: option.split)

lemma remote_has_answered: "hash_wf h \<Longrightarrow> remote_has Answered h s = through (reads (\<lambda>s. disk_has s h)) s"
  by (simp add: remote_has_def service_has_def hash_sent rpc_answered_id)

lemma remote_read_ref_answered: "remote_read_ref Answered name s = through (reads (\<lambda>s. read_ref s name)) s"
  unfolding remote_read_ref_def service_read_ref_def
proof (rule bind_through)
  fix x s' assume "reads (\<lambda>s. read_ref s name) s = (Ok x, s')"
  then have "read_ref s name = Ok x" "s' = s" by auto
  then have "\<forall>k. x = Some k \<longrightarrow> hash_wf k"
    by (auto simp: read_ref_def bind_res_eq_Inr map_err_eq_Inr hash_from_str_wf split: option.splits)
  then show "(if rr_found (case x of Some k \<Rightarrow> \<lparr>rr_found = True, rr_hash = hash_hex k\<rparr> | None \<Rightarrow> \<lparr>rr_found = False, rr_hash = []\<rparr>)
      then lift_res (bind_res (server_hash (rr_hash (case x of Some k \<Rightarrow> \<lparr>rr_found = True, rr_hash = hash_hex k\<rparr> | None \<Rightarrow> \<lparr>rr_found = False, rr_hash = []\<rparr>)))
             (\<lambda>k. Ok (Some k))) else ret None) s' = (Ok x, s')"
    by (cases x) (simp_all add: server_hash_def hash_from_str_hex map_err_def)
qed

lemma remote_iter_refs_answered:
  assumes "\<And>out n k. refs s = Ok out \<Longrightarrow> (n, k) \<in> set out \<Longrightarrow> hash_wf k"
  shows "remote_iter_refs Answered refs s = through (reads refs) s"
  unfolding remote_iter_refs_def service_iter_refs_def
proof (rule bind_through)
  fix out s' assume "reads refs s = (Ok out, s')"
  then have out: "refs s = Ok out" by auto
  have "try_map (\<lambda>(n, t). bind_res (map_err (\<lambda>_. Internal ''invalid hash'') (hash_from_str t)) (\<lambda>k. Ok (n, k)))
      (map (\<lambda>(n, k). (n, hash_hex k)) xs) = Ok xs" if "set xs \<subseteq> set out" for xs
    using that by (induction xs) (auto simp: hash_from_str_hex assms [OF out] map_err_def)
  then show "lift_res (try_map (\<lambda>(n, t). bind_res (map_err (\<lambda>_. Internal ''invalid hash'') (hash_from_str t)) (\<lambda>k. Ok (n, k)))
      (map (\<lambda>(n, k). (n, hash_hex k)) out)) s' = (Ok out, s')" by simp
qed

lemma ref_entry_wf: "ref_entry s p = Ok (n, k) \<Longrightarrow> hash_wf k"
  by (auto simp: ref_entry_def Let_def bind_res_eq_Inr map_err_eq_Inr hash_from_str_wf split: if_splits)

lemma collected_wf:
  "collect_refs fuel ls s d out = Some (Ok out') \<Longrightarrow> \<forall>(n, k) \<in> set out. hash_wf k \<Longrightarrow> \<forall>(n, k) \<in> set out'. hash_wf k"
  "collect_entries fuel ls s d names out = Some (Ok out') \<Longrightarrow> \<forall>(n, k) \<in> set out. hash_wf k \<Longrightarrow> \<forall>(n, k) \<in> set out'. hash_wf k"
proof (induction fuel ls s d out and fuel ls s d names out arbitrary: out' and out' rule: collect_refs_collect_entries.induct)
  case (4 fuel ls s current name names out)
  show ?case
  proof (cases "current @ [name] \<in> dirs s")
    case True
    then show ?thesis using 4 by (auto simp: Let_def split: option.splits sum.splits)
  next
    case False
    then show ?thesis using 4 ref_entry_wf by (fastforce simp: Let_def split: if_splits sum.splits)
  qed
qed (auto split: if_splits)

lemma iter_refs_wf: "iter_refs fuel ls s = Some (Ok out) \<Longrightarrow> (n, k) \<in> set out \<Longrightarrow> hash_wf k"
  using collected_wf(1) [of fuel ls s "[''refs'']" "[]" out] by (auto simp: iter_refs_def)

lemma hash_sent_only: "hash_from_str (hash_hex h) = Ok k \<Longrightarrow> k = h"
proof -
  assume k: "hash_from_str (hash_hex h) = Ok k"
  then have "length (hash_hex h) = 64" by (auto simp: hash_from_str_def split: if_splits)
  then have "hash_wf h" by (simp add: hash_hex_eq hash_wf_def)
  then show "k = h" using k by (simp add: hash_from_str_hex)
qed

lemma remote_get_Some:
  "fst (remote_get E Answered h s) = Ok (Some x) \<longleftrightarrow> hash_wf h \<and> disk_get E s h = Ok (Some x)"
proof (cases "hash_from_str (hash_hex h)")
  case (Inl e)
  then have "\<not> hash_wf h" by (auto simp: hash_from_str_hex)
  moreover have "remote_get E Answered h s = (Err (Internal ''rpc''), s)"
    by (simp add: remote_get_def service_get_def with_hash_def parse_hash_def Inl map_err_def rpc_def bind_op_def)
  ultimately show ?thesis by simp
next
  case (Inr k)
  then have wf: "hash_wf h" using hash_sent_only hash_from_str_wf by blast
  show ?thesis using wf by (auto simp: remote_get_answered through_def map_err_def split: sum.splits)
qed

text \<open>What the layers above rely on holds of the remote store.\<close>

interpretation remote: object_store "remote_put E Answered" "\<lambda>s h. fst (remote_get E Answered h s)"
    "\<lambda>s. disk_ok E s \<and> store_env E" disk_storable "collision_free E" extends
  for E
proof (unfold_locales, goal_cases)
  case (1 s t c)
  then obtain h s' where "disk_put E t c s = (Ok h, s')" "disk_ok E s'" "extends s s'" using disk.put_total by blast
  then show ?case using 1 by (auto simp: remote_put_answered store_envD through_Ok)
next
  case (2 s t c h s')
  then have put: "disk_put E t c s = (Ok h, s')" by (simp add: remote_put_answered store_envD through_Ok)
  then have "hash_wf h" using 2 by (auto simp: disk_put_def bind_op_eq_Ok Let_def store_envD split: if_splits)
  then show ?case using disk.get_put [OF _ _ put] 2 by (simp add: remote_get_Some)
next
  case (3 s s' h x)
  then show ?case unfolding remote_get_Some using disk.get_later by blast
qed (use extends_trans collision_free_mono extends_refl in blast)+

section \<open>Properties\<close>

text \<open>
  Storing a stream through the client: the pieces are gathered and put. The disk store writes
  them to a temporary file, whose directory is the one trace the client does not leave.
\<close>

lemma remote_put_stream_answered:
  assumes "disk_ok E s" "store_env E"
    and "remote_put_stream E Answered ty pieces n s = (r, s1)" "disk_put_stream E ty pieces n s = (r', s2)"
  shows "files s1 = files s2 \<and> puts s1 = puts s2 \<and> (\<forall>k. r = Ok k \<longleftrightarrow> r' = Ok k) \<and>
    ((\<exists>t. type_parse ty = Ok t) \<longrightarrow> r = r')"
proof (cases "type_parse ty")
  case (Inl e)
  then have disk: "r' = Inl e" "s2 = s"
    using assms(4) by (simp_all add: disk_put_stream_def bind_op_def)
  have "disk_put E ty (concat pieces) s = (Inl e, s)" by (simp add: disk_put_def bind_op_def Inl)
  then have "remote_put E Answered ty (concat pieces) s = (Err (Internal ''rpc''), s)"
    by (simp add: remote_put_answered [OF store_envD(1) [OF assms(2)]] through_Err)
  then have "(\<exists>e. r = Inl e) \<and> s1 = s" using assms(3) by (auto simp: remote_put_stream_def Let_def split: if_splits)
  then show ?thesis using disk Inl by auto
next
  case (Inr t)
  then have ty: "ty = type_as_str t" by (rule type_parse_SomeD)
  let ?c = "concat pieces"
  note stream = put_stream_equals_put [OF assms(1,2), of t pieces]
  show ?thesis
  proof (cases "n = length ?c")
    case True
    obtain a b where ab: "disk_put_stream E (type_as_str t) pieces (length ?c) s = (Ok (hash_of E t ?c), a)"
        "disk_put E (type_as_str t) ?c s = (Ok (hash_of E t ?c), b)" "files a = files b" "puts a = puts b"
      using stream by blast
    then have "remote_put E Answered ty ?c s = (Ok (hash_of E t ?c), b)"
      by (simp add: ty remote_put_answered [OF store_envD(1) [OF assms(2)]] through_Ok)
    then show ?thesis using ab assms(3,4) True ty by (simp add: remote_put_stream_def)
  next
    case False
    then obtain a where "disk_put_stream E (type_as_str t) pieces n s = (Err (Internal ''put_stream: declared size != actual''), a)"
        "files a = files s" "puts a = puts s" using stream by blast
    then show ?thesis using assms(3,4) False ty by (simp add: remote_put_stream_def)
  qed
qed

text \<open>
  C7. A repository cannot tell a remote store from the disk store behind it. When its calls are
  answered, each of the ten methods of the client returns what the method of the disk store
  returns, of an error only that there was one, and changes the disk as that method does. One
  method leaves a trace less: of an object that arrives in pieces the disk store writes
  a temporary file, and so makes a directory \<open>tmp\<close>, while the client gathers the pieces;
  both leave the same files and, for a known type, answer the same, the error of a size that was
  declared wrong included.
\<close>
theorem remote_store_transparent:
  assumes "disk_ok E s" "store_env E" "hash_wf h" "iter_refs fuel ls s = Some refs"
    and "remote_put_stream E Answered ty pieces n s = (r, s1)" "disk_put_stream E ty pieces n s = (r', s2)"
  shows "remote_put E Answered ty c s = through (disk_put E ty c) s \<and>
    files s1 = files s2 \<and> puts s1 = puts s2 \<and> (\<forall>k. r = Ok k \<longleftrightarrow> r' = Ok k) \<and> ((\<exists>t. type_parse ty = Ok t) \<longrightarrow> r = r') \<and>
    remote_get E Answered h s = through (reads (\<lambda>s. disk_get E s h)) s \<and>
    remote_has Answered h s = through (reads (\<lambda>s. disk_has s h)) s \<and>
    remote_read_ref Answered name s = through (reads (\<lambda>s. read_ref s name)) s \<and>
    remote_write_ref Answered name h s = through (write_ref name h) s \<and>
    remote_delete_ref Answered name s = through (delete_ref name) s \<and>
    remote_iter_refs Answered (\<lambda>s. the (iter_refs fuel ls s)) s = through (lift_res refs) s \<and>
    remote_read_head Answered s = through (reads read_head) s \<and>
    remote_write_head Answered value s = through (write_head value) s"
proof (intro conjI)
  have "hash_wf k" if "the (iter_refs fuel ls s) = Ok out" "(n, k) \<in> set out" for out n k
    using that assms(4) iter_refs_wf by auto
  then have "remote_iter_refs Answered (\<lambda>s. the (iter_refs fuel ls s)) s = through (reads (\<lambda>s. the (iter_refs fuel ls s))) s"
    by (rule remote_iter_refs_answered)
  then show "remote_iter_refs Answered (\<lambda>s. the (iter_refs fuel ls s)) s = through (lift_res refs) s"
    by (simp add: assms(4) through_def)
qed (use remote_put_stream_answered [OF assms(1,2,5,6)] in \<open>simp_all add: assms(3) store_envD [OF assms(2)] remote_put_answered
    remote_get_answered remote_has_answered remote_read_ref_answered remote_write_ref_def service_write_ref_def
    remote_delete_ref_def service_delete_ref_def remote_read_head_def service_read_head_def
    remote_write_head_def service_write_head_def hash_sent rpc_answered_id\<close>)

lemma disk_put_again:
  assumes "disk_ok E s" "zlib_ok E" "disk_put E (type_as_str t) c s = (Ok h, s1)" "disk_ok E s1"
    and "disk_put E (type_as_str t) c s1 = (r, s2)"
  shows "files s2 = files s1"
proof -
  have "files s1 (object_path (hash_of E t c)) \<noteq> None"
  proof (cases "files s (object_path (hash_of E t c)) = None")
    case True
    then show ?thesis by (rule disk_put_new [OF assms(1,2)]) (use assms(3) in auto)
  next
    case False
    then show ?thesis using disk_put_dup [OF assms(1)] assms(3) by auto
  qed
  then show ?thesis using disk_put_dup [OF assms(4)] assms(5) by auto
qed

text \<open>
  C4. Storing an object again after a failed call is safe. Whether the first call was answered,
  lost on the way or answered in vain, a repeated call that is answered gives the name under
  which the object is then read, the name that the first call gave if it gave one, and leaves
  the files that a single call on the disk behind would have left.
\<close>
theorem remote_put_retry:
  assumes "disk_ok E s" "store_env E" "disk_storable ty c"
    and "remote_put E d ty c s = (r, s1)" "remote_put E Answered ty c s1 = (r', s2)" "collision_free E s2"
  shows "\<exists>h. r' = Ok h \<and> (r = Ok h \<or> r = Err (Internal ''rpc'')) \<and> fst (remote_get E Answered h s2) = Ok (Some (ty, c)) \<and>
    files s2 = files (snd (disk_put E ty c s))"
proof -
  obtain h s' where put: "remote_put E Answered ty c s = (Ok h, s')" "disk_ok E s'"
    using remote.put_total assms(1-3) by blast
  then have stored: "disk_put E ty c s = (Ok h, s')" using assms(2) by (simp add: remote_put_answered store_envD through_Ok)
  have first: "s1 = s \<and> r = Err (Internal ''rpc'') \<or> s1 = s' \<and> r \<in> {Ok h, Err (Internal ''rpc'')}"
  proof (cases d)
    case Answered
    then show ?thesis using put assms(4) by simp
  next
    case Unsent
    then show ?thesis using assms(4) by (simp add: remote_put_def rpc_def bind_op_def)
  next
    case Unanswered
    then show ?thesis using assms(4) stored by (simp add: remote_put_def rpc_def bind_op_def service_put_def rpc_map_err_def)
  qed
  then have ok: "disk_ok E s1" using assms(1) put(2) by blast
  then obtain k where k: "r' = Ok k" using remote.put_total [of E s1 ty c] assms(2,3,5) by auto
  have read: "fst (remote_get E Answered k s2) = Ok (Some (ty, c))"
    using remote.get_put [of E s1 ty c k s2] ok assms(2,3,5,6) k by simp
  have again: "disk_put E ty c s1 = (Ok k, s2)" using assms(2,5) k by (simp add: remote_put_answered store_envD through_Ok)
  then have "k = h" using stored by (auto simp: disk_put_def bind_op_eq_Ok Let_def split: if_splits)
  moreover have "files s2 = files s'" if "s1 = s'"
  proof -
    obtain t where "ty = type_as_str t" using assms(3) by (auto simp: disk_storable_def)
    then show ?thesis
      using disk_put_again [of E s t c h s' "Ok k" s2] assms(1,2) stored put(2) again that by (simp add: store_envD)
  qed
  moreover have "files s2 = files s'" if "s1 = s" using that stored again by simp
  ultimately show ?thesis using first read k stored by fastforce
qed

section \<open>Examples\<close>

text \<open>An object that comes in two pieces, and a second stream whose size was declared wrong.\<close>

theorem remote_store_transparent_witness:
  "\<exists>s1 s2. remote_put_stream toy_ext Answered ''blob'' [''h'', ''i''] 2 fresh_disk = (Ok (hash_of toy_ext Blob ''hi''), s1) \<and>
     disk_put_stream toy_ext ''blob'' [''h'', ''i''] 2 fresh_disk = (Ok (hash_of toy_ext Blob ''hi''), s2) \<and>
     files s1 = files s2 \<and> puts s1 = puts s2 \<and>
     fst (remote_put_stream toy_ext Answered ''blob'' [''h'', ''i''] 3 fresh_disk) = Err (Internal ''put_stream: declared size != actual'') \<and>
     remote_put toy_ext Answered ''blob'' ''x'' fresh_disk = through (disk_put toy_ext ''blob'' ''x'') fresh_disk"
proof -
  let ?d = "fresh_disk"
  have "[''refs''] \<in> dirs ?d" using fresh_disk_ok(1) [of toy_ext] by (simp add: disk_ok_def)
  then have refs: "iter_refs 3 (\<lambda>s d. []) ?d = Some (Ok [])" by (auto simp: iter_refs_def numeral_3_eq_3)
  have h: "hash_wf (hash_of_bytes toy_ext [])" by simp
  note transparent = remote_store_transparent [OF fresh_disk_ok(1) toy_store_env h refs]
  obtain s2 where s2: "disk_put_stream toy_ext ''blob'' [''h'', ''i''] 2 ?d = (Ok (hash_of toy_ext Blob ''hi''), s2)"
    using disk_put_stream_ok [OF fresh_disk_ok(1) store_envD [OF toy_store_env], of Blob "[''h'', ''i'']"]
    by (auto simp: numeral_2_eq_2)
  obtain r s1 where s1: "remote_put_stream toy_ext Answered ''blob'' [''h'', ''i''] 2 ?d = (r, s1)" by fastforce
  have two: "r = Ok (hash_of toy_ext Blob ''hi'')" "files s1 = files s2" "puts s1 = puts s2"
    using transparent [OF s1 s2] by auto
  obtain a where three: "disk_put_stream toy_ext ''blob'' [''h'', ''i''] 3 ?d = (Err (Internal ''put_stream: declared size != actual''), a)"
    using spec [OF conjunct2 [OF put_stream_equals_put [OF fresh_disk_ok(1) toy_store_env, of Blob "[''h'', ''i'']"]], of 3] by auto
  obtain r' b where remote: "remote_put_stream toy_ext Answered ''blob'' [''h'', ''i''] 3 ?d = (r', b)" by fastforce
  have "type_parse ''blob'' = Ok Blob" by (simp add: type_parse_def)
  then have "r' = Err (Internal ''put_stream: declared size != actual'')"
    using transparent [OF remote three] by auto
  moreover have "remote_put toy_ext Answered ''blob'' ''x'' ?d = through (disk_put toy_ext ''blob'' ''x'') ?d"
    by (rule conjunct1 [OF transparent [OF s1 s2]])
  ultimately show ?thesis using s1 s2 two remote by auto
qed

text \<open>The answer to the first call is lost.\<close>

theorem remote_put_retry_witness:
  "\<exists>s1 s2 h. remote_put toy_ext Unanswered ''blob'' ''hi'' fresh_disk = (Err (Internal ''rpc''), s1) \<and> puts s1 \<noteq> puts fresh_disk \<and>
     remote_put toy_ext Answered ''blob'' ''hi'' s1 = (Ok h, s2) \<and> fst (remote_get toy_ext Answered h s2) = Ok (Some (''blob'', ''hi'')) \<and>
     files s2 = files (snd (disk_put toy_ext ''blob'' ''hi'' fresh_disk))"
proof -
  note sha = store_envD [OF toy_store_env]
  obtain s1 where s1: "disk_put toy_ext (type_as_str Blob) ''hi'' fresh_disk = (Ok (hash_of toy_ext Blob ''hi''), s1)"
      "disk_ok toy_ext s1" "puts s1 = [frame Blob ''hi'']"
    using disk_put_ok [OF fresh_disk_ok(1) sha, of Blob "''hi''"] by auto
  obtain s2 where s2: "disk_put toy_ext (type_as_str Blob) ''hi'' s1 = (Ok (hash_of toy_ext Blob ''hi''), s2)"
      "puts s2 = [frame Blob ''hi'', frame Blob ''hi'']"
    using disk_put_ok [OF s1(2) sha, of Blob "''hi''"] s1(3) by auto
  have first: "remote_put toy_ext Unanswered ''blob'' ''hi'' fresh_disk = (Err (Internal ''rpc''), s1)"
    using s1(1) by (simp add: remote_put_def rpc_def bind_op_def service_put_def rpc_map_err_def)
  have again: "remote_put toy_ext Answered ''blob'' ''hi'' s1 = (Ok (hash_of toy_ext Blob ''hi''), s2)"
    using s2(1) by (simp add: remote_put_answered [OF sha(1)] through_Ok)
  have clash: "collision_free toy_ext s2"
    using s2(2) by (simp add: collision_free_def frame_def show_nat.simps U64_MAX_def)
  have "disk_storable ''blob'' ''hi''" unfolding disk_storable_def by (rule exI [of _ Blob]) simp
  from remote_put_retry [OF fresh_disk_ok(1) toy_store_env this first again clash]
  show ?thesis using first again s1(3) by auto
qed

end
