(* ===== verification/Cbor_Data.thy ===== *)
theory Cbor_Data
  imports Toml_Data Text "HOL-Library.Countable"
begin

text \<open>
  The values that pass between the program and the crate \<open>ciborium\<close>, and its encoder and
  decoder as a parameter. What the program relies on is that a value without floats
  whose integers are in the range of CBOR's major types decodes to itself.
\<close>

datatype cbor =
    CbInteger int
  | CbBytes bytes
  | CbFloat f64
  | CbText str
  | CbBool bool
  | CbNull
  | CbTag nat cbor
  | CbArray "cbor list"
  | CbMap "(cbor \<times> cbor) list"

record cbor_codec =
  cbor_encode :: "cbor \<Rightarrow> bytes"
  cbor_decode :: "bytes \<Rightarrow> str + cbor"

fun cbor_plain :: "cbor \<Rightarrow> bool" where
  "cbor_plain (CbInteger i) = (- (2 ^ 64) \<le> i \<and> i < 2 ^ 64)"
| "cbor_plain (CbText s) = utf8_valid s"
| "cbor_plain (CbFloat f) = False"
| "cbor_plain (CbTag n v) = False"
| "cbor_plain (CbArray vs) = list_all cbor_plain vs"
| "cbor_plain (CbMap kvs) = list_all (\<lambda>(k, v). cbor_plain k \<and> cbor_plain v) kvs"
| "cbor_plain v = True"

definition codec_ok :: "cbor_codec \<Rightarrow> bool" where
  "codec_ok C \<longleftrightarrow> (\<forall>v. cbor_plain v \<longrightarrow> cbor_decode C (cbor_encode C v) = Inr v)"

text \<open>The fields of a struct in a map: text keys, looked up by name.\<close>

definition cb_get :: "(cbor \<times> cbor) list \<Rightarrow> str \<Rightarrow> cbor option" where
  "cb_get kvs k = map_of kvs (CbText k)"

text \<open>A concrete codec: values are numbered, numbers written in unary.\<close>

instance cbor :: countable
  by countable_datatype

definition toy_codec :: cbor_codec where
  "toy_codec = \<lparr>cbor_encode = (\<lambda>v. replicate (to_nat v) NUL), cbor_decode = (\<lambda>b. Inr (from_nat (length b)))\<rparr>"

lemma toy_codec_ok [simp]: "codec_ok toy_codec"
  by (simp add: codec_ok_def toy_codec_def)

end
