(* ===== verification/Omp_Probe.thy ===== *)
theory Omp_Probe
  imports Omp_Engine Cbor_Data "HOL-Library.Word"
begin

text \<open>
  \<open>crates/omp-core/src/probes/cbor.rs\<close> and \<open>host.rs\<close>: the values that pass between the host
  and a probe, and one run of a probe. wasmtime is a parameter, the record \<open>wasmtime\<close>: what
  it makes of a module under the limits it was given, and what the exported functions do to
  the state of an instance, which may be anything. Fuel and the time limit are enforced by
  wasmtime; a run that exceeds them is a call that fails. A slice outside its bounds panics in
  Rust: what may panic answers an option, and \<open>None\<close> is the panic.

  Whatever a module does, the host does not panic, and answers with a failure that names the
  probe or with a well-formed value of a run that stayed within its limits
  (\<open>probe_contained\<close>); a value that a probe encodes the way the host does arrives as it is,
  dates as strings (\<open>probe_value_round_trip\<close>).
\<close>

section \<open>Values\<close>

fun field_to_cbor :: "field_value \<Rightarrow> cbor"
and fields_to_cbor :: "field_value list \<Rightarrow> cbor list"
and object_to_cbor :: "(str \<times> field_value) list \<Rightarrow> (cbor \<times> cbor) list"
where
  "field_to_cbor FNull = CbNull"
| "field_to_cbor (FString s) = CbText s"
| "field_to_cbor (FInt i) = CbInteger i"
| "field_to_cbor (FFloat f) = CbFloat f"
| "field_to_cbor (FBool b) = CbBool b"
| "field_to_cbor (FDatetime s) = CbText s"
| "field_to_cbor (FList items) = CbArray (fields_to_cbor items)"
| "field_to_cbor (FObject m) = CbMap (object_to_cbor m)"
| "fields_to_cbor [] = []"
| "fields_to_cbor (v # vs) = field_to_cbor v # fields_to_cbor vs"
| "object_to_cbor [] = []"
| "object_to_cbor ((k, v) # kvs) = (CbText k, field_to_cbor v) # object_to_cbor kvs"

text \<open>\<open>wr\<close> is \<open>ciborium::ser::into_writer\<close>, which may fail.\<close>

definition encode_input :: "(cbor \<Rightarrow> str + bytes) \<Rightarrow> bytes \<Rightarrow> (str, field_value) btree \<Rightarrow> bytes result" where
  "encode_input wr bs kwargs =
     map_err (\<lambda>e. Internal (''cbor encode input: '' @ e))
       (wr (CbMap [(CbText ''bytes'', CbBytes bs), (CbText ''kwargs'', CbMap (object_to_cbor kwargs))]))"

definition in_i64 :: "int \<Rightarrow> bool" where
  "in_i64 i \<longleftrightarrow> - (2 ^ 63) \<le> i \<and> i < 2 ^ 63"

text \<open>A failure of the output; the host puts the name of the probe in.\<close>

definition bad_output :: "str \<Rightarrow> omp_error" where
  "bad_output reason = ProbeFailed ''<output>'' reason"

definition output_key :: "cbor \<Rightarrow> str result" where
  "output_key k =
     (case k of
        CbText s \<Rightarrow> Ok s
      | CbInteger i \<Rightarrow> if in_i64 i then Ok (show_int i) else Err (bad_output ''map key integer out of range'')
      | _ \<Rightarrow> Err (bad_output ''map key is not string or integer''))"

fun cbor_to_field :: "cbor \<Rightarrow> field_value result"
and cbors_to_fields :: "cbor list \<Rightarrow> field_value list result"
and cbor_to_object :: "(cbor \<times> cbor) list \<Rightarrow> (str, field_value) btree \<Rightarrow> (str, field_value) btree result"
where
  "cbor_to_field CbNull = Ok FNull"
| "cbor_to_field (CbBool b) = Ok (FBool b)"
| "cbor_to_field (CbInteger i) = (if in_i64 i then Ok (FInt i) else Err (bad_output ''integer out of range: out of range integral type conversion attempted''))"
| "cbor_to_field (CbFloat f) = Ok (FFloat f)"
| "cbor_to_field (CbText s) = Ok (FString s)"
| "cbor_to_field (CbBytes b) = Ok (FString (hex_encode b))"
| "cbor_to_field (CbArray vs) = bind_res (cbors_to_fields vs) (\<lambda>out. Ok (FList out))"
| "cbor_to_field (CbMap kvs) = bind_res (cbor_to_object kvs []) (\<lambda>m. Ok (FObject m))"
| "cbor_to_field (CbTag _ v) = cbor_to_field v"
| "cbors_to_fields [] = Ok []"
| "cbors_to_fields (v # vs) = bind_res (cbor_to_field v) (\<lambda>x. bind_res (cbors_to_fields vs) (\<lambda>xs. Ok (x # xs)))"
| "cbor_to_object [] m = Ok m"
| "cbor_to_object ((k, v) # kvs) m =
     bind_res (output_key k) (\<lambda>key. bind_res (cbor_to_field v) (\<lambda>x. cbor_to_object kvs (bt_insert key x m)))"

definition decode_output :: "cbor_codec \<Rightarrow> bytes \<Rightarrow> field_value result" where
  "decode_output C bs =
     bind_res (map_err (\<lambda>e. bad_output (''decoding output: '' @ e)) (cbor_decode C bs)) cbor_to_field"

section \<open>The host\<close>

record 'm wasmtime =
  wt_engine :: "probe_limits \<Rightarrow> str option"
  wt_load :: "probe_limits \<Rightarrow> bytes \<Rightarrow> str + nat"
  wt_set_fuel :: "nat \<Rightarrow> str option"
  wt_instantiate :: "probe_limits \<Rightarrow> bytes \<Rightarrow> str + 'm"
  wt_func :: "bytes \<Rightarrow> str \<Rightarrow> str option"
  wt_memory :: "bytes \<Rightarrow> bool"
  wt_pages :: "'m \<Rightarrow> nat"
  wt_data :: "'m \<Rightarrow> bytes"
  wt_write :: "nat \<Rightarrow> bytes \<Rightarrow> 'm \<Rightarrow> str + 'm"
  wt_alloc :: "32 word \<Rightarrow> 'm \<Rightarrow> (str + 32 word) \<times> 'm"
  wt_run :: "32 word \<Rightarrow> 32 word \<Rightarrow> 'm \<Rightarrow> (str + 64 word) \<times> 'm"

text \<open>\<open>usize\<close> has 64 bits, so neither the ends nor the caps can overflow.\<close>

definition memory_cap :: "nat \<Rightarrow> nat" where
  "memory_cap mb = mb * 1024 * 1024"

definition write_memory :: "'m wasmtime \<Rightarrow> 32 word \<Rightarrow> bytes \<Rightarrow> nat \<Rightarrow> 'm \<Rightarrow> str + 'm" where
  "write_memory W ptr bs mb m =
     (if unat ptr + length bs > memory_cap mb then Err ''write past memory cap'' else wt_write W (unat ptr) bs m)"

text \<open>The slice \<open>xs[a..b]\<close>, which panics when it does not lie within \<open>xs\<close>.\<close>

definition slice_of :: "'a list \<Rightarrow> nat \<Rightarrow> nat \<Rightarrow> 'a list option" where
  "slice_of xs a b = (if a \<le> b \<and> b \<le> length xs then Some (take (b - a) (drop a xs)) else None)"

definition read_memory :: "'m wasmtime \<Rightarrow> 'm \<Rightarrow> 32 word \<Rightarrow> 32 word \<Rightarrow> nat \<Rightarrow> (str + bytes) option" where
  "read_memory W m ptr len mb =
     (let end' = unat ptr + unat len in
      if end' > memory_cap mb then Some (Err ''read past memory cap'')
      else if end' > length (wt_data W m)
      then Some (Err (''read past memory size ('' @ show_nat end' @ '' > '' @ show_nat (length (wt_data W m)) @ '')''))
      else map_option Inr (slice_of (wt_data W m) (unat ptr) end'))"

definition stage_err :: "str \<Rightarrow> str \<Rightarrow> str + 'a \<Rightarrow> 'a result" where
  "stage_err name stage r = map_err (\<lambda>e. ProbeFailed name (stage @ '': '' @ e)) r"

text \<open>\<open>as u32\<close> and the shift of an \<open>i64\<close>.\<close>

definition unpack :: "64 word \<Rightarrow> 32 word \<times> 32 word" where
  "unpack packed = (ucast (signed_drop_bit 32 packed), ucast packed)"

text \<open>\<open>?\<close> where the rest may panic.\<close>

definition then_may :: "'e + 'a \<Rightarrow> ('a \<Rightarrow> ('e + 'b) option) \<Rightarrow> ('e + 'b) option" where
  "then_may r f = (case r of Inl e \<Rightarrow> Some (Inl e) | Inr x \<Rightarrow> f x)"

text \<open>
  The calls into the instance. What \<open>free\<close> does afterwards is ignored by the code and happens
  to an instance that is dropped.
\<close>

definition call_probe ::
  "'m wasmtime \<Rightarrow> (cbor \<Rightarrow> str + bytes) \<Rightarrow> str \<Rightarrow> bytes \<Rightarrow> (str, field_value) btree \<Rightarrow> probe_limits \<Rightarrow> 'm \<Rightarrow>
     bytes result option"
where
  "call_probe W wr name bs kwargs cfg m =
     then_may (encode_input wr bs kwargs) (\<lambda>inp.
     let input_len = of_nat (length inp) :: 32 word in
     case wt_alloc W input_len m of (r, m1) \<Rightarrow>
     then_may (stage_err name ''alloc'' r) (\<lambda>in_ptr.
     then_may (stage_err name ''write input'' (write_memory W in_ptr inp (memory_mb cfg) m1)) (\<lambda>m2.
     case wt_run W in_ptr input_len m2 of (q, m3) \<Rightarrow>
     then_may (stage_err name ''run'' q) (\<lambda>packed.
     case unpack packed of (out_ptr, out_len) \<Rightarrow>
       map_option (stage_err name ''read output'') (read_memory W m3 out_ptr out_len (memory_mb cfg))))))"

definition probe_name :: "str \<Rightarrow> omp_error \<Rightarrow> omp_error" where
  "probe_name name e = (case e of ProbeFailed _ r \<Rightarrow> ProbeFailed name r | _ \<Rightarrow> e)"

definition host_run_probe ::
  "'m wasmtime \<Rightarrow> (cbor \<Rightarrow> str + bytes) \<Rightarrow> cbor_codec \<Rightarrow> str \<Rightarrow> bytes \<Rightarrow> bytes \<Rightarrow> (str, field_value) btree \<Rightarrow> probe_limits \<Rightarrow>
     field_value result option"
where
  "host_run_probe W wr C name wasm bs kwargs cfg =
     (case wt_engine W cfg of Some e \<Rightarrow> Some (Err (Internal (''wasmtime engine: '' @ e)))
      | None \<Rightarrow>
     then_may (stage_err name ''load'' (wt_load W cfg wasm)) (\<lambda>import_count.
     if import_count \<noteq> 0
     then Some (Err (ProbeFailed name (''module declares '' @ show_nat import_count @ '' host imports; zero allowed'')))
     else (case wt_set_fuel W (probe_fuel cfg) of Some e \<Rightarrow> Some (Err (ProbeFailed name (''set_fuel: '' @ e)))
      | None \<Rightarrow>
     then_may (stage_err name ''instantiate'' (wt_instantiate W cfg wasm)) (\<lambda>m.
     case wt_func W wasm ''alloc'' of Some e \<Rightarrow> Some (Err (ProbeFailed name (''missing alloc: '' @ e)))
      | None \<Rightarrow>
     (case wt_func W wasm ''free'' of Some e \<Rightarrow> Some (Err (ProbeFailed name (''missing free: '' @ e)))
      | None \<Rightarrow>
     (case wt_func W wasm ''probe_run'' of Some e \<Rightarrow> Some (Err (ProbeFailed name (''missing probe_run: '' @ e)))
      | None \<Rightarrow>
     if \<not> wt_memory W wasm
     then Some (Err (ProbeFailed name (''module has no exported '' @ CHR 0x27 # ''memory'' @ [CHR 0x27])))
     else if wt_pages W m > memory_mb cfg * 16 then
       Some (Err (ProbeFailed name (''initial memory '' @ show_nat (wt_pages W m) @ '' pages exceeds cap '' @ show_nat (memory_mb cfg * 16))))
     else (case call_probe W wr name bs kwargs cfg m of None \<Rightarrow> None
       | Some r \<Rightarrow> Some (bind_res r (\<lambda>out. map_err (probe_name name) (decode_output C out))))))))))"

section \<open>What comes out\<close>

text \<open>A value as the sources can hold it: integers of 64 bits, objects ordered by their keys.\<close>

fun field_in_range :: "field_value \<Rightarrow> bool" where
  "field_in_range (FInt i) = in_i64 i"
| "field_in_range (FList vs) = list_all field_in_range vs"
| "field_in_range (FObject m) = (bt_inv m \<and> list_all (\<lambda>(_, v). field_in_range v) m)"
| "field_in_range _ = True"

lemma in_range_insert:
  "list_all (\<lambda>(_, v). field_in_range v) m \<Longrightarrow> field_in_range x \<Longrightarrow> list_all (\<lambda>(_, v). field_in_range v) (bt_insert k x m)"
  using bt_set_insert [of k x m] by (auto simp: list_all_iff)

lemma cbor_to_field_range:
  "cbor_to_field c = Ok v \<Longrightarrow> field_in_range v"
  "cbors_to_fields cs = Ok vs \<Longrightarrow> list_all field_in_range vs"
  "cbor_to_object kvs m = Ok m' \<Longrightarrow> bt_inv m \<Longrightarrow> list_all (\<lambda>(_, v). field_in_range v) m \<Longrightarrow>
     bt_inv m' \<and> list_all (\<lambda>(_, v). field_in_range v) m'"
proof (induction c and cs and kvs m arbitrary: v and vs and m' rule: cbor_to_field_cbors_to_fields_cbor_to_object.induct)
  case (13 k v kvs m)
  then show ?case by (auto simp: bind_res_eq_Inr in_range_insert)
qed (auto simp: bind_res_eq_Inr split: if_splits)

definition output_error :: "omp_error \<Rightarrow> bool" where
  "output_error e \<longleftrightarrow> (\<exists>r. e = bad_output r)"

lemma cbor_to_field_error:
  "cbor_to_field c = Err e \<Longrightarrow> output_error e"
  "cbors_to_fields cs = Err e \<Longrightarrow> output_error e"
  "cbor_to_object kvs m = Err e \<Longrightarrow> output_error e"
  by (induction c and cs and kvs m rule: cbor_to_field_cbors_to_fields_cbor_to_object.induct)
    (auto simp: bind_res_eq_Inl output_key_def output_error_def split: if_splits cbor.splits)

lemma decode_output_error: "decode_output C b = Err e \<Longrightarrow> output_error e"
  by (auto simp: decode_output_def bind_res_eq_Inl output_error_def map_err_def cbor_to_field_error(1)[unfolded output_error_def]
      split: sum.splits)

lemma decode_output_range: "decode_output C b = Ok v \<Longrightarrow> field_in_range v"
  by (auto simp: decode_output_def bind_res_eq_Inr cbor_to_field_range(1))

text \<open>A run that goes through, step by step, inside its limits.\<close>

definition run_within_limits ::
  "'m wasmtime \<Rightarrow> (cbor \<Rightarrow> str + bytes) \<Rightarrow> bytes \<Rightarrow> bytes \<Rightarrow> (str, field_value) btree \<Rightarrow> probe_limits \<Rightarrow> bytes \<Rightarrow> bool"
where
  "run_within_limits W wr wasm bs kwargs cfg out \<longleftrightarrow>
     (\<exists>m inp in_ptr m1 m2 packed m3 out_ptr out_len.
        wt_load W cfg wasm = Inr 0 \<and> wt_set_fuel W (probe_fuel cfg) = None \<and> wt_instantiate W cfg wasm = Inr m \<and>
        wt_pages W m \<le> memory_mb cfg * 16 \<and>
        encode_input wr bs kwargs = Ok inp \<and> wt_alloc W (of_nat (length inp)) m = (Inr in_ptr, m1) \<and>
        unat in_ptr + length inp \<le> memory_cap (memory_mb cfg) \<and> wt_write W (unat in_ptr) inp m1 = Inr m2 \<and>
        wt_run W in_ptr (of_nat (length inp)) m2 = (Inr packed, m3) \<and> unpack packed = (out_ptr, out_len) \<and>
        unat out_ptr + unat out_len \<le> min (memory_cap (memory_mb cfg)) (length (wt_data W m3)) \<and>
        out = take (unat out_len) (drop (unat out_ptr) (wt_data W m3)))"

definition probe_failure :: "str \<Rightarrow> omp_error \<Rightarrow> bool" where
  "probe_failure name e \<longleftrightarrow> (\<exists>reason. e = ProbeFailed name reason)"

lemma then_may_cases:
  "then_may r f = x \<Longrightarrow> (\<And>e. r = Inl e \<Longrightarrow> x = Some (Inl e) \<Longrightarrow> P) \<Longrightarrow> (\<And>y. r = Inr y \<Longrightarrow> f y = x \<Longrightarrow> P) \<Longrightarrow> P"
  by (cases r) (auto simp: then_may_def)

lemma stage_err_failure: "stage_err name stage r = Inl e \<Longrightarrow> probe_failure name e"
  by (auto simp: stage_err_def map_err_def probe_failure_def split: sum.splits)

lemma stage_err_Inr [simp]: "stage_err name stage r = Inr x \<longleftrightarrow> r = Inr x"
  by (simp add: stage_err_def map_err_eq_Inr)

lemma stage_err_Ok [simp]: "stage_err name stage (Inr x) = Inr x"
  by (simp add: stage_err_def)

lemma read_memory_bounds:
  "\<exists>r. read_memory W m ptr len mb = Some r \<and>
     (\<forall>out. r = Inr out \<longrightarrow> unat ptr + unat len \<le> min (memory_cap mb) (length (wt_data W m)) \<and>
        out = take (unat len) (drop (unat ptr) (wt_data W m)))"
  by (simp add: read_memory_def slice_of_def Let_def)

lemma write_memory_bounds:
  "write_memory W ptr bs mb m = Inr m' \<longleftrightarrow> unat ptr + length bs \<le> memory_cap mb \<and> wt_write W (unat ptr) bs m = Inr m'"
  by (auto simp: write_memory_def)

lemma call_probe_cases:
  obtains (failure) e where "call_probe W wr name bs kwargs cfg m = Some (Inl e)"
      "probe_failure name e \<or> encode_input wr bs kwargs = Inl e"
  | (answer) out inp in_ptr m1 m2 packed m3 out_ptr out_len where "call_probe W wr name bs kwargs cfg m = Some (Inr out)"
      "encode_input wr bs kwargs = Ok inp" "wt_alloc W (of_nat (length inp)) m = (Inr in_ptr, m1)"
      "unat in_ptr + length inp \<le> memory_cap (memory_mb cfg)" "wt_write W (unat in_ptr) inp m1 = Inr m2"
      "wt_run W in_ptr (of_nat (length inp)) m2 = (Inr packed, m3)" "unpack packed = (out_ptr, out_len)"
      "unat out_ptr + unat out_len \<le> min (memory_cap (memory_mb cfg)) (length (wt_data W m3))"
      "out = take (unat out_len) (drop (unat out_ptr) (wt_data W m3))"
proof (cases "encode_input wr bs kwargs")
  case (Inl e)
  then show thesis by (intro failure [of e]) (simp_all add: call_probe_def then_may_def)
next
  case (Inr inp)
  obtain r m1 where al: "wt_alloc W (of_nat (length inp)) m = (r, m1)" by force
  show thesis
  proof (cases "stage_err name ''alloc'' r")
    case (Inl e)
    then show thesis using Inr al stage_err_failure [OF Inl] by (intro failure [of e]) (simp_all add: call_probe_def then_may_def Let_def)
  next
    case in_ptr: (Inr in_ptr)
    show thesis
    proof (cases "stage_err name ''write input'' (write_memory W in_ptr inp (memory_mb cfg) m1)")
      case (Inl e)
      then show thesis using Inr al in_ptr stage_err_failure [OF Inl]
        by (intro failure [of e]) (simp_all add: call_probe_def then_may_def Let_def)
    next
      case m2: (Inr m2)
      obtain q m3 where run: "wt_run W in_ptr (of_nat (length inp)) m2 = (q, m3)" by force
      show thesis
      proof (cases "stage_err name ''run'' q")
        case (Inl e)
        then show thesis using Inr al in_ptr m2 run stage_err_failure [OF Inl]
          by (intro failure [of e]) (simp_all add: call_probe_def then_may_def Let_def)
      next
        case packed: (Inr packed)
        obtain p l where u: "unpack packed = (p, l)" by force
        obtain o' where o': "read_memory W m3 p l (memory_mb cfg) = Some o'"
            "\<forall>out. o' = Inr out \<longrightarrow> unat p + unat l \<le> min (memory_cap (memory_mb cfg)) (length (wt_data W m3)) \<and>
               out = take (unat l) (drop (unat p) (wt_data W m3))" using read_memory_bounds [of W m3 p l "memory_mb cfg"] by (elim exE conjE)
        have call: "call_probe W wr name bs kwargs cfg m = Some (stage_err name ''read output'' o')"
          using Inr al in_ptr m2 run packed u o'(1) by (simp add: call_probe_def then_may_def Let_def)
        show thesis
        proof (cases "stage_err name ''read output'' o'")
          case (Inl e)
          then show thesis using call stage_err_failure [OF Inl] by (intro failure [of e]) simp_all
        next
          case out: (Inr out)
          then have "o' = Inr out" by simp
          then have b: "unat p + unat l \<le> min (memory_cap (memory_mb cfg)) (length (wt_data W m3))"
              "out = take (unat l) (drop (unat p) (wt_data W m3))" using o'(2) by blast+
          have w: "unat in_ptr + length inp \<le> memory_cap (memory_mb cfg)" "wt_write W (unat in_ptr) inp m1 = Inr m2"
            using m2 by (simp_all add: write_memory_bounds)
          have c: "call_probe W wr name bs kwargs cfg m = Some (Inr out)" using call out by simp
          have a: "wt_alloc W (of_nat (length inp)) m = (Inr in_ptr, m1)" using al in_ptr by simp
          have "wt_run W in_ptr (of_nat (length inp)) m2 = (Inr packed, m3)" using run packed by simp
          then show thesis by (rule answer [OF c Inr a w _ u b])
        qed
      qed
    qed
  qed
qed

lemma decode_failure: "map_err (probe_name name) (decode_output C b) = Inl e \<Longrightarrow> probe_failure name e"
  using decode_output_error [of C b]
  by (auto simp: probe_failure_def map_err_def output_error_def bad_output_def probe_name_def split: sum.splits)

lemma host_run_spec:
  assumes "wt_engine W cfg = None"
  shows "\<exists>r. host_run_probe W wr C name wasm bs kwargs cfg = Some r \<and>
    (\<forall>e. r = Inl e \<longrightarrow> probe_failure name e \<or> encode_input wr bs kwargs = Inl e) \<and>
    (\<forall>v. r = Inr v \<longrightarrow> (\<exists>out. run_within_limits W wr wasm bs kwargs cfg out \<and> decode_output C out = Ok v))"
proof -
  let ?h = "host_run_probe W wr C name wasm bs kwargs cfg"
  have fail: ?thesis if "?h = Some (Inl e)" "probe_failure name e \<or> encode_input wr bs kwargs = Inl e" for e
    using that by simp
  have failed: ?thesis if "?h = Some (Inl (ProbeFailed name x))" for x
    using that by (simp add: probe_failure_def)
  note host = host_run_probe_def then_may_def assms
  show ?thesis
  proof (cases "stage_err name ''load'' (wt_load W cfg wasm)")
    case (Inl e)
    then show ?thesis using stage_err_failure [OF Inl] by (intro fail [of e]) (simp_all add: host)
  next
    case load: (Inr n)
    show ?thesis
    proof (cases "n = 0 \<and> wt_set_fuel W (probe_fuel cfg) = None")
      case False
      then have "\<exists>x. ?h = Some (Inl (ProbeFailed name x))" using load by (auto simp: host)
      then show ?thesis using failed by blast
    next
      case fuel: True
      show ?thesis
      proof (cases "stage_err name ''instantiate'' (wt_instantiate W cfg wasm)")
        case (Inl e)
        then show ?thesis using load fuel stage_err_failure [OF Inl] by (intro fail [of e]) (simp_all add: host)
      next
        case inst: (Inr m)
        show ?thesis
        proof (cases "wt_func W wasm ''alloc'' = None \<and> wt_func W wasm ''free'' = None \<and> wt_func W wasm ''probe_run'' = None \<and>
            wt_memory W wasm \<and> wt_pages W m \<le> memory_mb cfg * 16")
          case False
          then have "\<exists>x. ?h = Some (Inl (ProbeFailed name x))" using load fuel inst
            by (cases "wt_func W wasm ''alloc''"; cases "wt_func W wasm ''free''"; cases "wt_func W wasm ''probe_run''"; cases "wt_memory W wasm")
              (auto simp: host not_less)
          then show ?thesis using failed by blast
        next
          case exports: True
          then have h: "?h = (case call_probe W wr name bs kwargs cfg m of None \<Rightarrow> None
              | Some r \<Rightarrow> Some (bind_res r (\<lambda>out. map_err (probe_name name) (decode_output C out))))"
            using load fuel inst by (simp add: host)
          show ?thesis
          proof (cases rule: call_probe_cases [where W = W and wr = wr and name = name and bs = bs and kwargs = kwargs and cfg = cfg and m = m])
            case (failure e)
            then show ?thesis using h by (intro fail [of e]) simp_all
          next
            case (answer out)
            then have "run_within_limits W wr wasm bs kwargs cfg out"
              using load fuel inst exports unfolding run_within_limits_def stage_err_Inr by blast
            moreover have "?h = Some (map_err (probe_name name) (decode_output C out))" using h answer(1) by simp
            ultimately show ?thesis using decode_failure [of name C out] by (auto simp: map_err_eq_Inr)
          qed
        qed
      qed
    qed
  qed
qed

text \<open>
  C34. A probe is contained. Whatever a module is and does, with any limits and any input, the
  host does not panic. When it answers with a value, the value is one the manifests can hold
  (integers of 64 bits, keys in order), and it is what the run left in memory: the module has
  no imports, its fuel was set, its memory was within the limit when it started, the input was
  written below the limit, and the output lies below the limit and inside the memory. Every
  other outcome is a failure that carries the name of the probe, except that an engine that
  cannot be built and an input that cannot be encoded are internal errors.
\<close>

theorem probe_contained:
  "\<exists>r. host_run_probe W wr C name wasm bs kwargs cfg = Some r \<and>
     (case r of
        Inl e \<Rightarrow> probe_failure name e \<or> encode_input wr bs kwargs = Inl e \<or>
          (\<exists>x. wt_engine W cfg = Some x \<and> e = Internal (''wasmtime engine: '' @ x))
      | Inr v \<Rightarrow> field_in_range v \<and>
          (\<exists>out. run_within_limits W wr wasm bs kwargs cfg out \<and> decode_output C out = Ok v))"
proof (cases "wt_engine W cfg")
  case None
  from host_run_spec [OF this] obtain r where r: "host_run_probe W wr C name wasm bs kwargs cfg = Some r"
      "\<forall>e. r = Inl e \<longrightarrow> probe_failure name e \<or> encode_input wr bs kwargs = Inl e"
      "\<forall>v. r = Inr v \<longrightarrow> (\<exists>out. run_within_limits W wr wasm bs kwargs cfg out \<and> decode_output C out = Ok v)" by blast
  show ?thesis
  proof (cases r)
    case (Inl e)
    then show ?thesis using r(1,2) by auto
  next
    case (Inr v)
    then show ?thesis using r(1,3) decode_output_range by auto
  qed
next
  case (Some a)
  then show ?thesis by (simp add: host_run_probe_def)
qed

text \<open>A probe that answers the number seven, from the one byte its memory holds.\<close>

definition seven_codec :: cbor_codec where
  "seven_codec = \<lparr>cbor_encode = (\<lambda>v. []), cbor_decode = (\<lambda>b. if b = ''z'' then Inr (CbInteger 7) else Inl ''eof'')\<rparr>"

definition seven_probe :: "bytes wasmtime" where
  "seven_probe = \<lparr>wt_engine = (\<lambda>_. None), wt_load = (\<lambda>_ w. if w = [] then Inl ''empty'' else Inr 0), wt_set_fuel = (\<lambda>_. None),
     wt_instantiate = (\<lambda>_ _. Inr ''abc''), wt_func = (\<lambda>_ _. None), wt_memory = (\<lambda>_. True), wt_pages = (\<lambda>_. 1), wt_data = (\<lambda>m. m),
     wt_write = (\<lambda>p b m. if p + length b \<le> length m then Inr (take p m @ b @ drop (p + length b) m) else Inl ''out of bounds''),
     wt_alloc = (\<lambda>_ m. (Inr 1, m)), wt_run = (\<lambda>_ _ m. (Inr (2 * 2 ^ 32 + 1), take 2 m @ ''z''))\<rparr>"

theorem probe_contained_witness:
  "\<exists>out. run_within_limits seven_probe (\<lambda>_. Inr ''i'') ''w'' ''hi'' [] \<lparr>memory_mb = 1, probe_fuel = 10, wall_clock_s = 1\<rparr> out \<and>
     host_run_probe seven_probe (\<lambda>_. Inr ''i'') seven_codec ''p'' ''w'' ''hi'' [] \<lparr>memory_mb = 1, probe_fuel = 10, wall_clock_s = 1\<rparr> =
       Some (Ok (FInt 7)) \<and> decode_output seven_codec out = Ok (FInt 7)"
proof -
  let ?cfg = "\<lparr>memory_mb = 1, probe_fuel = 10, wall_clock_s = 1\<rparr>"
  have u: "unpack (2 * 2 ^ 32 + 1) = (2, 1)" by (simp add: unpack_def)
  have run: "host_run_probe seven_probe (\<lambda>_. Inr ''i'') seven_codec ''p'' ''w'' ''hi'' [] ?cfg = Some (Ok (FInt 7))"
    using u by (simp add: host_run_probe_def seven_probe_def then_may_def stage_err_def call_probe_def encode_input_def
        write_memory_def read_memory_def memory_cap_def slice_of_def seven_codec_def decode_output_def in_i64_def)
  then show ?thesis
    using probe_contained [of seven_probe "\<lambda>_. Inr ''i''" seven_codec "''p''" "''w''" "''hi''" "[]" ?cfg] by auto
qed

section \<open>What arrives\<close>

fun field_plain :: "field_value \<Rightarrow> bool" where
  "field_plain (FString s) = utf8_valid s"
| "field_plain (FDatetime s) = utf8_valid s"
| "field_plain (FInt i) = in_i64 i"
| "field_plain (FFloat f) = False"
| "field_plain (FList vs) = list_all field_plain vs"
| "field_plain (FObject m) = (bt_inv m \<and> list_all (\<lambda>(k, v). utf8_valid k \<and> field_plain v) m)"
| "field_plain _ = True"

fun undate :: "field_value \<Rightarrow> field_value" where
  "undate (FDatetime s) = FString s"
| "undate (FList vs) = FList (map undate vs)"
| "undate (FObject m) = FObject (map (\<lambda>(k, v). (k, undate v)) m)"
| "undate v = v"

lemma field_to_cbor_plain:
  "field_plain v \<Longrightarrow> cbor_plain (field_to_cbor v)"
  "list_all field_plain vs \<Longrightarrow> list_all cbor_plain (fields_to_cbor vs)"
  "list_all (\<lambda>(k, v). utf8_valid k \<and> field_plain v) m \<Longrightarrow> list_all (\<lambda>(k, v). cbor_plain k \<and> cbor_plain v) (object_to_cbor m)"
  by (induction v and vs and m rule: field_to_cbor_fields_to_cbor_object_to_cbor.induct) (auto simp: in_i64_def)

lemma cbor_to_field_of_field:
  "field_plain v \<Longrightarrow> cbor_to_field (field_to_cbor v) = Ok (undate v)"
  "list_all field_plain vs \<Longrightarrow> cbors_to_fields (fields_to_cbor vs) = Ok (map undate vs)"
  "list_all (\<lambda>(k, v). utf8_valid k \<and> field_plain v) m \<Longrightarrow> bt_inv m \<Longrightarrow> (\<forall>k \<in> fst ` set acc. \<forall>l \<in> fst ` set m. k < l) \<Longrightarrow>
     cbor_to_object (object_to_cbor m) acc = Ok (acc @ map (\<lambda>(k, v). (k, undate v)) m)"
proof (induction v and vs and m arbitrary: and and acc rule: field_to_cbor_fields_to_cbor_object_to_cbor.induct)
  case (12 k v kvs)
  then have "bt_insert k (undate v) acc = acc @ [(k, undate v)]" by (intro bt_insert_snoc) auto
  with 12 show ?case by (auto simp: output_key_def)
qed auto

text \<open>
  What a probe answers is what the engine sees: a value that the probe writes in the
  encoding of the host (any value without floats, its strings well-formed, its integers of 64
  bits, its objects ordered by key) is decoded to the same value, except that CBOR has no
  datetimes and each arrives as the string it was written as.
\<close>

lemma probe_value_round_trip:
  assumes "codec_ok C" "field_plain v"
  shows "decode_output C (cbor_encode C (field_to_cbor v)) = Ok (undate v)"
proof -
  have "cbor_decode C (cbor_encode C (field_to_cbor v)) = Inr (field_to_cbor v)"
    using assms field_to_cbor_plain(1) by (simp add: codec_ok_def)
  then show ?thesis
    using cbor_to_field_of_field(1) [OF assms(2)] by (simp add: decode_output_def map_err_def)
qed

lemma probe_value_round_trip_witness:
  "let v = FObject [(''at'', FDatetime ''2024-01-02''), (''size'', FList [FInt 7, FNull])] in
     decode_output toy_codec (cbor_encode toy_codec (field_to_cbor v)) =
       Ok (FObject [(''at'', FString ''2024-01-02''), (''size'', FList [FInt 7, FNull])])"
  using probe_value_round_trip [OF toy_codec_ok,
      of "FObject [(''at'', FDatetime ''2024-01-02''), (''size'', FList [FInt 7, FNull])]"]
  by (simp add: in_i64_def is_ascii_def)

end
