(* ===== verification/Omp_Query.thy ===== *)
theory Omp_Query
  imports Omp_Manifest Float64
begin

text \<open>
  \<open>crates/omp-core/src/query.rs\<close>: the query language over manifests, from the text through
  tokens and expressions to the verdict, and the cursors of paged results.

  Every text gets an answer from the parser (\<open>query_parse_total\<close>), a printed expression is
  read back (\<open>query_round_trip\<close>), and integers are compared as floats
  (\<open>query_integers_rounded\<close>).

  The recursion of the parser is counted by fuel, four units per token; \<open>QFuel\<close> is the
  result when it runs out, which never happens.
\<close>

section \<open>Syntax\<close>

datatype op = Eq | Ne | Lt | Le | Gt | Ge | Contains | StartsWith

datatype literal = LString str | LInt int | LFloat f64 | LBool bool | LNull

type_synonym field_path = "str list"

datatype atom = Compare field_path op literal | Exists field_path

datatype expr = EAnd expr expr | EOr expr expr | ENot expr | EAtom atom

datatype query_error = QParse nat str | QTypeMismatch | QFuel

datatype tok =
    KIdent str | KStr str | KInt int | KFloat f64 | KBool bool | KNull
  | KAnd | KOr | KNot | KExists | KOp op | KLParen | KRParen | KDot | KComma

record token =
  kind :: tok
  byte_pos :: nat

section \<open>Tokens\<close>

abbreviation QUOTE1 :: char where "QUOTE1 \<equiv> CHR 0x27"

definition is_space :: "char \<Rightarrow> bool" where
  "is_space c \<longleftrightarrow> c = CHR '' '' \<or> c = TAB \<or> c = LF \<or> c = CHR 0x0C \<or> c = CR"

definition is_digit :: "char \<Rightarrow> bool" where
  "is_digit c \<longleftrightarrow> 48 \<le> byte_val c \<and> byte_val c \<le> 57"

definition is_ident_start :: "char \<Rightarrow> bool" where
  "is_ident_start c \<longleftrightarrow> 65 \<le> byte_val c \<and> byte_val c \<le> 90 \<or> 97 \<le> byte_val c \<and> byte_val c \<le> 122 \<or> c = CHR ''_''"

definition is_ident_cont :: "char \<Rightarrow> bool" where
  "is_ident_cont c \<longleftrightarrow> is_ident_start c \<or> is_digit c"

text \<open>\<open>buf.push(byte as char)\<close>: the byte is taken for a code point and encoded.\<close>

definition push_byte :: "char \<Rightarrow> str" where
  "push_byte c = (if byte_val c < 0x80 then [c]
                  else [char_of (0xC0 + byte_val c div 64), char_of (0x80 + byte_val c mod 64)])"

text \<open>The inside of a string literal and what follows its closing quote.\<close>

fun scan_string :: "char \<Rightarrow> bytes \<Rightarrow> (str \<times> bytes) option" where
  "scan_string q [] = None"
| "scan_string q [c] = (if c = q then Some ([], []) else None)"
| "scan_string q (c # d # s) =
     (if c = q then Some ([], d # s)
      else if c = BSL then map_option (\<lambda>(buf, r). (push_byte d @ buf, r)) (scan_string q s)
      else map_option (\<lambda>(buf, r). (push_byte c @ buf, r)) (scan_string q (d # s)))"

text \<open>The digits of a number, whether a decimal point was among them, and the rest.\<close>

fun scan_number :: "bytes \<Rightarrow> str \<times> bool \<times> bytes" where
  "scan_number [] = ([], False, [])"
| "scan_number (c # s) =
     (if is_digit c then (let (n, dot, r) = scan_number s in (c # n, dot, r))
      else if c = CHR ''.'' \<and> s \<noteq> [] \<and> is_digit (hd s) then (let (n, _, r) = scan_number s in (c # n, True, r))
      else ([], False, c # s))"

definition keyword :: "str \<Rightarrow> tok option" where
  "keyword w = map_of
     [(''and'', KAnd), (''or'', KOr), (''not'', KNot), (''exists'', KExists), (''true'', KBool True),
      (''false'', KBool False), (''null'', KNull), (''contains'', KOp Contains), (''starts_with'', KOp StartsWith)]
     (to_ascii_lowercase w)"

definition lex_string :: "nat \<Rightarrow> char \<Rightarrow> bytes \<Rightarrow> query_error + tok \<times> bytes" where
  "lex_string pos q s =
     (case scan_string q s of
        Some (buf, r) \<Rightarrow> Ok (KStr buf, r)
      | None \<Rightarrow> Err (QParse (pos + 1) ''unterminated string literal''))"

definition lex_number :: "ext \<Rightarrow> nat \<Rightarrow> char \<Rightarrow> bytes \<Rightarrow> query_error + tok \<times> bytes" where
  "lex_number E pos c s =
     (case (if c = CHR ''-'' then scan_number s else scan_number (c # s)) of (n, dot, r) \<Rightarrow>
        let num = (if c = CHR ''-'' then c # n else n) in
        if dot then
          (case parse_f64 E num of Some f \<Rightarrow> Ok (KFloat f, r) | None \<Rightarrow> Err (QParse pos (''bad float literal: '' @ num)))
        else
          (case parse_sint 64 num of Some i \<Rightarrow> Ok (KInt i, r) | None \<Rightarrow> Err (QParse pos (''bad int literal: '' @ num))))"

definition lex_word :: "char \<Rightarrow> bytes \<Rightarrow> tok \<times> bytes" where
  "lex_word c s =
     (let word = c # takeWhile is_ident_cont s in
      (case keyword word of Some k \<Rightarrow> k | None \<Rightarrow> KIdent word, dropWhile is_ident_cont s))"

text \<open>One round of the loop of \<open>tokenize\<close> for a byte that is no white space.\<close>

definition lex1 :: "ext \<Rightarrow> nat \<Rightarrow> char \<Rightarrow> bytes \<Rightarrow> query_error + tok \<times> bytes" where
  "lex1 E pos c s =
     (let followed = (s \<noteq> [] \<and> hd s = CHR ''='') in
      if c = CHR ''('' then Ok (KLParen, s)
      else if c = CHR '')'' then Ok (KRParen, s)
      else if c = CHR ''.'' then Ok (KDot, s)
      else if c = CHR '','' then Ok (KComma, s)
      else if c = CHR ''='' then Ok (KOp Eq, s)
      else if c = CHR ''!'' then
        (if followed then Ok (KOp Ne, tl s) else Err (QParse pos ''expected `!=`''))
      else if c = CHR ''<'' then (if followed then Ok (KOp Le, tl s) else Ok (KOp Lt, s))
      else if c = CHR ''>'' then (if followed then Ok (KOp Ge, tl s) else Ok (KOp Gt, s))
      else if c = DQ \<or> c = QUOTE1 then lex_string pos c s
      else if is_digit c \<or> c = CHR ''-'' then lex_number E pos c s
      else if is_ident_start c then Ok (lex_word c s)
      else Err (QParse pos ''unexpected character''))"

lemma scan_string_length: "scan_string q s = Some (buf, r) \<Longrightarrow> length r < length s"
proof (induction q s arbitrary: buf r rule: scan_string.induct)
  case (3 q c d s)
  then show ?case by (auto split: if_splits intro: less_SucI)
qed (auto split: if_splits)

lemma scan_number_length: "length (snd (snd (scan_number s))) \<le> length s"
proof (induction s rule: scan_number.induct)
  case (2 c s)
  then show ?case by (cases "is_digit c") (auto simp: Let_def split_beta intro: le_SucI)
qed simp

lemma lex_number_length:
  assumes "lex_number E pos c s = Ok (k, r)" "is_digit c \<or> c = CHR ''-''"
  shows "length r \<le> length s"
proof -
  obtain n dot r' where n: "(if c = CHR ''-'' then scan_number s else scan_number (c # s)) = (n, dot, r')"
    by (metis prod_cases3)
  then have "r = r'" using assms(1) by (auto simp: lex_number_def Let_def split: if_splits option.splits)
  moreover have "length r' \<le> length s"
    using n assms(2) scan_number_length [of s] by (auto split: if_splits prod.splits)
  ultimately show ?thesis by simp
qed

definition shrinks :: "bytes \<Rightarrow> query_error + tok \<times> bytes \<Rightarrow> bool" where
  "shrinks s x \<longleftrightarrow> (\<forall>k r. x = Ok (k, r) \<longrightarrow> length r \<le> length s)"

lemma shrinks_if: "(b \<Longrightarrow> shrinks s x) \<Longrightarrow> (\<not> b \<Longrightarrow> shrinks s y) \<Longrightarrow> shrinks s (if b then x else y)"
  by simp

lemma shrinks_lex:
  "shrinks s (lex_string pos c s)" "is_digit c \<or> c = CHR ''-'' \<Longrightarrow> shrinks s (lex_number E pos c s)"
  "shrinks s (Ok (lex_word c s))" "shrinks s (Ok (k, s))" "shrinks s (Ok (k, tl s))" "shrinks s (Err e)"
proof -
  show "shrinks s (lex_string pos c s)"
    using scan_string_length [of c s] by (auto simp: shrinks_def lex_string_def less_imp_le split: option.splits)
  show "is_digit c \<or> c = CHR ''-'' \<Longrightarrow> shrinks s (lex_number E pos c s)"
    using lex_number_length by (simp add: shrinks_def)
qed (simp_all add: shrinks_def lex_word_def Let_def length_dropWhile_le)

lemma lex1_length: "lex1 E pos c s = Ok (k, r) \<Longrightarrow> length r \<le> length s"
proof -
  have "shrinks s (lex1 E pos c s)"
    unfolding lex1_def Let_def by (intro shrinks_if shrinks_lex; assumption)
  then show "lex1 E pos c s = Ok (k, r) \<Longrightarrow> length r \<le> length s" by (simp add: shrinks_def)
qed

function tokenize_from :: "ext \<Rightarrow> nat \<Rightarrow> bytes \<Rightarrow> query_error + token list" where
  "tokenize_from E pos [] = Ok []"
| "tokenize_from E pos (c # s) =
     (if is_space c then tokenize_from E (pos + 1) s
      else bind_res (lex1 E pos c s) (\<lambda>kr.
        bind_res (tokenize_from E (pos + Suc (length s) - length (snd kr)) (snd kr)) (\<lambda>ts.
        Ok (\<lparr>kind = fst kr, byte_pos = pos\<rparr> # ts))))"
  by pat_completeness auto
termination
  by (relation "measure (\<lambda>(E, pos, s). length s)") (auto dest: lex1_length simp: less_Suc_eq_le)

definition tokenize :: "ext \<Rightarrow> str \<Rightarrow> query_error + token list" where
  "tokenize E input = tokenize_from E 0 input"

section \<open>The parser\<close>

definition expect :: "tok \<Rightarrow> token list \<Rightarrow> query_error + token list" where
  "expect want ts =
     (case ts of
        t # r \<Rightarrow> if kind t = want then Ok r else Err (QParse (byte_pos t) ''expected another token'')
      | [] \<Rightarrow> Err (QParse 0 ''expected a token, got end of input''))"

text \<open>\<open>matches!(self.peek(), Some(k))\<close>.\<close>

definition peek_is :: "tok \<Rightarrow> token list \<Rightarrow> bool" where
  "peek_is k ts \<longleftrightarrow> ts \<noteq> [] \<and> kind (hd ts) = k"

definition ident_of :: "str \<Rightarrow> token list \<Rightarrow> query_error + str \<times> token list" where
  "ident_of what ts =
     (case ts of
        t # r \<Rightarrow> (case kind t of KIdent s \<Rightarrow> Ok (s, r) | _ \<Rightarrow> Err (QParse (byte_pos t) (''expected '' @ what)))
      | [] \<Rightarrow> Err (QParse 0 (''expected '' @ what)))"

function path_loop :: "field_path \<Rightarrow> token list \<Rightarrow> query_error + field_path \<times> token list" where
  "path_loop path ts =
     (if peek_is KDot ts then
        bind_res (ident_of ''ident after `.`'' (tl ts)) (\<lambda>sr. path_loop (path @ [fst sr]) (snd sr))
      else Ok (path, ts))"
  by pat_completeness auto

lemma ident_of_length: "ident_of what ts = Ok (s, r) \<Longrightarrow> length r < length ts"
  by (auto simp: ident_of_def split: list.splits tok.splits)

lemma peek_is_length: "peek_is k ts \<Longrightarrow> length (tl ts) < length ts"
  by (simp add: peek_is_def)

termination path_loop
  by (relation "measure (\<lambda>(path, ts). length ts)")
    (auto dest!: ident_of_length peek_is_length intro: less_trans)

declare path_loop.simps [simp del]

definition parse_field_path :: "token list \<Rightarrow> query_error + field_path \<times> token list" where
  "parse_field_path ts = bind_res (ident_of ''field path'' ts) (\<lambda>sr. path_loop [fst sr] (snd sr))"

definition parse_literal :: "token list \<Rightarrow> query_error + literal \<times> token list" where
  "parse_literal ts =
     (case ts of
        t # r \<Rightarrow>
          (case kind t of
             KStr s \<Rightarrow> Ok (LString s, r)
           | KInt n \<Rightarrow> Ok (LInt n, r)
           | KFloat f \<Rightarrow> Ok (LFloat f, r)
           | KBool b \<Rightarrow> Ok (LBool b, r)
           | KNull \<Rightarrow> Ok (LNull, r)
           | _ \<Rightarrow> Err (QParse (byte_pos t) ''expected literal''))
      | [] \<Rightarrow> Err (QParse 0 ''expected literal, got end of input''))"

definition parse_op :: "token list \<Rightarrow> query_error + op \<times> token list" where
  "parse_op ts =
     (case ts of
        t # r \<Rightarrow> (case kind t of KOp o' \<Rightarrow> Ok (o', r) | _ \<Rightarrow> Err (QParse (byte_pos t) ''expected operator''))
      | [] \<Rightarrow> Err (QParse 0 ''expected operator, got end of input''))"

text \<open>The two forms of an atom.\<close>

definition parse_exists :: "token list \<Rightarrow> query_error + expr \<times> token list" where
  "parse_exists ts =
     bind_res (expect KLParen ts) (\<lambda>r.
     bind_res (parse_field_path r) (\<lambda>(path, r1).
     bind_res (expect KRParen r1) (\<lambda>r2. Ok (EAtom (Exists path), r2))))"

definition parse_compare :: "token list \<Rightarrow> query_error + expr \<times> token list" where
  "parse_compare ts =
     bind_res (parse_field_path ts) (\<lambda>(path, r1).
     bind_res (parse_op r1) (\<lambda>(o', r2).
     bind_res (parse_literal r2) (\<lambda>(lit, r3). Ok (EAtom (Compare path o' lit), r3))))"

function parse_or :: "nat \<Rightarrow> token list \<Rightarrow> query_error + expr \<times> token list"
and or_loop :: "nat \<Rightarrow> expr \<Rightarrow> token list \<Rightarrow> query_error + expr \<times> token list"
and parse_and :: "nat \<Rightarrow> token list \<Rightarrow> query_error + expr \<times> token list"
and and_loop :: "nat \<Rightarrow> expr \<Rightarrow> token list \<Rightarrow> query_error + expr \<times> token list"
and parse_not :: "nat \<Rightarrow> token list \<Rightarrow> query_error + expr \<times> token list"
and parse_primary :: "nat \<Rightarrow> token list \<Rightarrow> query_error + expr \<times> token list"
where
  "parse_or 0 ts = Err QFuel"
| "parse_or (Suc n) ts = bind_res (parse_and n ts) (\<lambda>(left, r). or_loop n left r)"
| "or_loop 0 left ts = Err QFuel"
| "or_loop (Suc n) left ts =
     (if peek_is KOr ts then bind_res (parse_and n (tl ts)) (\<lambda>(right, r). or_loop n (EOr left right) r)
      else Ok (left, ts))"
| "parse_and 0 ts = Err QFuel"
| "parse_and (Suc n) ts = bind_res (parse_not n ts) (\<lambda>(left, r). and_loop n left r)"
| "and_loop 0 left ts = Err QFuel"
| "and_loop (Suc n) left ts =
     (if peek_is KAnd ts then bind_res (parse_not n (tl ts)) (\<lambda>(right, r). and_loop n (EAnd left right) r)
      else Ok (left, ts))"
| "parse_not 0 ts = Err QFuel"
| "parse_not (Suc n) ts =
     (if peek_is KNot ts then bind_res (parse_not n (tl ts)) (\<lambda>(inner, r). Ok (ENot inner, r))
      else parse_primary n ts)"
| "parse_primary 0 ts = Err QFuel"
| "parse_primary (Suc n) ts =
     (if peek_is KLParen ts then
        bind_res (parse_or n (tl ts)) (\<lambda>(e, r). bind_res (expect KRParen r) (\<lambda>r'. Ok (e, r')))
      else if peek_is KExists ts then parse_exists (tl ts)
      else parse_compare ts)"
  by pat_completeness auto

fun parser_fuel where
  "parser_fuel (Inl (Inl (n, ts))) = (n :: nat)"
| "parser_fuel (Inl (Inr (Inl (n, l, ts)))) = n"
| "parser_fuel (Inl (Inr (Inr (n, ts)))) = n"
| "parser_fuel (Inr (Inl (n, l, ts))) = n"
| "parser_fuel (Inr (Inr (Inl (n, ts)))) = n"
| "parser_fuel (Inr (Inr (Inr (n, ts)))) = n"

termination parse_or
  by (relation "measure parser_fuel") auto

definition query_parse :: "ext \<Rightarrow> str \<Rightarrow> query_error + expr" where
  "query_parse E input =
     bind_res (tokenize E input) (\<lambda>ts.
     bind_res (parse_or (4 * length ts + 4) ts) (\<lambda>(e, r).
     case r of [] \<Rightarrow> Ok e | t # _ \<Rightarrow> Err (QParse (byte_pos t) ''unexpected token after expression'')))"

section \<open>Results and cursors\<close>

record query_match =
  qm_path :: str
  qm_manifest_hash :: hash
  qm_source_hash :: hash
  qm_file_type :: str
  qm_fields :: "(str, field_value) btree"

record query_result =
  qr_matches :: "query_match list"
  qr_next_cursor :: "str option"

definition encode_cursor :: "ext \<Rightarrow> str option \<Rightarrow> nat \<Rightarrow> str" where
  "encode_cursor E cm offset =
     b64_encode E (case cm of Some c \<Rightarrow> c @ ''|'' @ show_nat offset | None \<Rightarrow> ''|'' @ show_nat offset)"

definition decode_cursor :: "ext \<Rightarrow> str \<Rightarrow> (str option \<times> nat) result" where
  "decode_cursor E s =
     bind_res (map_err (\<lambda>e. InvalidPath (''bad cursor: '' @ e)) (b64_decode E s)) (\<lambda>raw.
     if \<not> utf8_valid raw then Err (InvalidPath ''bad cursor utf8'')
     else bind_res (ok_or (InvalidPath ''malformed cursor'') (split_once (CHR ''|'') raw)) (\<lambda>(cm, offset_str).
     bind_res (ok_or (InvalidPath ''bad cursor offset'') (parse_uint U64_MAX offset_str)) (\<lambda>offset.
     Ok (if cm = [] then None else Some cm, offset))))"

section \<open>Evaluation\<close>

definition get_ci :: "(str, 'v) btree \<Rightarrow> str \<Rightarrow> 'v option" where
  "get_ci m needle =
     (case bt_get m needle of
        Some v \<Rightarrow> Some v
      | None \<Rightarrow> map_option snd (find (\<lambda>(k, v). to_ascii_lowercase k = to_ascii_lowercase needle) m))"

fun descend :: "field_value \<Rightarrow> field_path \<Rightarrow> field_value option" where
  "descend cur [] = Some cur"
| "descend cur (seg # segs) =
     (case cur of
        FObject o' \<Rightarrow>
          (case get_ci o' (to_ascii_lowercase seg) of None \<Rightarrow> None | Some v \<Rightarrow> descend v segs)
      | _ \<Rightarrow> None)"

definition descend_fields :: "(str, field_value) btree \<Rightarrow> field_path \<Rightarrow> field_value option" where
  "descend_fields flds path =
     (case path of
        [] \<Rightarrow> None
      | seg # segs \<Rightarrow>
          (case get_ci flds (to_ascii_lowercase seg) of None \<Rightarrow> None | Some cur \<Rightarrow> descend cur segs))"

definition top_level :: "manifest \<Rightarrow> str \<Rightarrow> field_value option" where
  "top_level m key =
     (if key = ''file_type'' then Some (FString (m_file_type m))
      else if key = ''source_hash'' then Some (FString (hash_hex (m_source_hash m)))
      else if key = ''schema_hash'' then Some (FString (hash_hex (m_schema_hash m)))
      else if key = ''ingested_at'' then Some (FString (m_ingested_at m))
      else if key = ''ingester_version'' then Some (FString (m_ingester_version m))
      else None)"

definition resolve_path :: "manifest \<Rightarrow> field_path \<Rightarrow> field_value option" where
  "resolve_path m path =
     (case path of
        [] \<Rightarrow> None
      | seg # segs \<Rightarrow>
          let key = to_ascii_lowercase seg in
          if key = ''fields'' then descend_fields (m_fields m) segs
          else case top_level m key of
            Some v \<Rightarrow> if segs \<noteq> [] then None else Some v
          | None \<Rightarrow> descend_fields (m_fields m) path)"

fun cmp_str :: "str \<Rightarrow> op \<Rightarrow> str \<Rightarrow> bool" where
  "cmp_str s Eq t \<longleftrightarrow> s = t"
| "cmp_str s Ne t \<longleftrightarrow> s \<noteq> t"
| "cmp_str s Lt t \<longleftrightarrow> s < t"
| "cmp_str s Le t \<longleftrightarrow> s \<le> t"
| "cmp_str s Gt t \<longleftrightarrow> s > t"
| "cmp_str s Ge t \<longleftrightarrow> s \<ge> t"
| "cmp_str s Contains t \<longleftrightarrow> contains_str t s"
| "cmp_str s StartsWith t \<longleftrightarrow> starts_with t s"

fun cmp_num :: "f64 \<Rightarrow> op \<Rightarrow> f64 \<Rightarrow> bool" where
  "cmp_num a Eq b \<longleftrightarrow> f64_near a b"
| "cmp_num a Ne b \<longleftrightarrow> f64_apart a b"
| "cmp_num a Lt b \<longleftrightarrow> f64_lt a b"
| "cmp_num a Le b \<longleftrightarrow> f64_le a b"
| "cmp_num a Gt b \<longleftrightarrow> f64_lt b a"
| "cmp_num a Ge b \<longleftrightarrow> f64_le b a"
| "cmp_num a _ b \<longleftrightarrow> False"

fun member :: "field_value \<Rightarrow> literal \<Rightarrow> bool" where
  "member (FString s) (LString t) \<longleftrightarrow> s = t"
| "member (FInt n) (LInt m) \<longleftrightarrow> n = m"
| "member (FFloat n) (LFloat m) \<longleftrightarrow> f64_near n m"
| "member (FInt n) (LFloat m) \<longleftrightarrow> f64_near (f64_of_int n) m"
| "member (FFloat n) (LInt m) \<longleftrightarrow> f64_near n (f64_of_int m)"
| "member (FBool b) (LBool c) \<longleftrightarrow> b = c"
| "member _ _ \<longleftrightarrow> False"

fun compare :: "field_value \<Rightarrow> op \<Rightarrow> literal \<Rightarrow> bool" where
  "compare (FString s) p (LString t) \<longleftrightarrow> cmp_str s p t"
| "compare (FInt n) p (LInt m) \<longleftrightarrow> cmp_num (f64_of_int n) p (f64_of_int m)"
| "compare (FFloat n) p (LFloat m) \<longleftrightarrow> cmp_num n p m"
| "compare (FInt n) p (LFloat m) \<longleftrightarrow> cmp_num (f64_of_int n) p m"
| "compare (FFloat n) p (LInt m) \<longleftrightarrow> cmp_num n p (f64_of_int m)"
| "compare (FBool b) p (LBool c) \<longleftrightarrow> (p = Eq \<and> b = c) \<or> (p = Ne \<and> b \<noteq> c)"
| "compare (FList items) p lit \<longleftrightarrow> p = Contains \<and> list_ex (\<lambda>item. member item lit) items"
| "compare (FDatetime s) p (LString t) \<longleftrightarrow> cmp_str s p t"
| "compare FNull p LNull \<longleftrightarrow> p = Eq"
| "compare FNull p _ \<longleftrightarrow> p = Ne"
| "compare _ _ _ \<longleftrightarrow> False"

fun evaluate :: "expr \<Rightarrow> manifest \<Rightarrow> bool" where
  "evaluate (EAnd a b) m \<longleftrightarrow> evaluate a m \<and> evaluate b m"
| "evaluate (EOr a b) m \<longleftrightarrow> evaluate a m \<or> evaluate b m"
| "evaluate (ENot a) m \<longleftrightarrow> \<not> evaluate a m"
| "evaluate (EAtom (Exists path)) m \<longleftrightarrow> resolve_path m path \<noteq> None"
| "evaluate (EAtom (Compare path p value)) m \<longleftrightarrow>
     (case resolve_path m path of Some v \<Rightarrow> compare v p value | None \<Rightarrow> False)"

section \<open>The parser always answers\<close>

lemma expect_length: "expect k ts = Ok r \<Longrightarrow> length r < length ts"
  by (auto simp: expect_def split: list.splits if_splits)

lemma path_loop_length: "path_loop path ts = Ok (p, r) \<Longrightarrow> length r \<le> length ts"
proof (induction path ts rule: path_loop.induct)
  case (1 path ts)
  show ?case
  proof (cases "peek_is KDot ts")
    case True
    then obtain s r1 where s: "ident_of ''ident after `.`'' (tl ts) = Ok (s, r1)" "path_loop (path @ [s]) r1 = Ok (p, r)"
      using "1.prems" by (subst (asm) path_loop.simps) (auto simp: res_simps)
    have "length r \<le> length r1" using "1.IH" [OF True s(1)] s(2) by simp
    then show ?thesis using ident_of_length [OF s(1)] peek_is_length [OF True] by simp
  next
    case False
    then show ?thesis using "1.prems" by (subst (asm) path_loop.simps) simp
  qed
qed

text \<open>A parser that answers without running out, and leaves fewer tokens.\<close>

definition answers :: "nat \<Rightarrow> query_error + 'a \<times> token list \<Rightarrow> bool" where
  "answers n x \<longleftrightarrow> (case x of Inl e \<Rightarrow> e \<noteq> QFuel | Inr (a, r) \<Rightarrow> length r < n)"

lemma answers_mono: "answers n x \<Longrightarrow> n \<le> m \<Longrightarrow> answers m x"
  by (auto simp: answers_def split: sum.splits)

lemma answers_bind:
  "answers n x \<Longrightarrow> (\<And>a r. x = Ok (a, r) \<Longrightarrow> length r < n \<Longrightarrow> answers m (f (a, r))) \<Longrightarrow> answers m (bind_res x f)"
  by (cases x) (auto simp: answers_def)

lemma answers_Ok: "length r < n \<Longrightarrow> answers n (Ok (a, r))"
  by (simp add: answers_def)

lemma path_loop_no_fuel: "path_loop path ts \<noteq> Err QFuel"
proof (induction path ts rule: path_loop.induct)
  case (1 path ts)
  then show ?case
    by (subst path_loop.simps) (auto simp: res_simps ident_of_def split: list.splits tok.splits)
qed

lemma answers_field_path: "answers (length ts) (parse_field_path ts)"
  unfolding parse_field_path_def
proof (rule answers_bind [of "length ts"])
  show "answers (length ts) (ident_of ''field path'' ts)"
    by (auto simp: answers_def ident_of_def split: list.splits tok.splits)
  fix s and r :: "token list" assume "length r < length ts"
  moreover have "answers (Suc (length r)) (path_loop [s] r)"
    using path_loop_length [of "[s]" r] path_loop_no_fuel [of "[s]" r]
    by (auto simp: answers_def less_Suc_eq_le split: sum.splits)
  ultimately show "answers (length ts) (path_loop [fst (s, r)] (snd (s, r)))" by (auto intro: answers_mono)
qed

lemma answers_op: "answers (length ts) (parse_op ts)"
  by (auto simp: answers_def parse_op_def split: list.splits tok.splits)

lemma answers_literal: "answers (length ts) (parse_literal ts)"
  by (auto simp: answers_def parse_literal_def split: list.splits tok.splits)

lemma answers_expect:
  "(\<And>r. length r < length ts \<Longrightarrow> answers n (f r)) \<Longrightarrow> answers n (bind_res (expect k ts) f)"
  by (auto simp: answers_def expect_def split: list.splits)

lemma answers_compare: "answers (length ts) (parse_compare ts)"
  unfolding parse_compare_def
  by (rule answers_bind [OF answers_field_path], simp, rule answers_bind [OF answers_op], simp,
      rule answers_bind [OF answers_literal]) (simp add: answers_Ok)

lemma answers_exists: "answers (length ts) (parse_exists ts)"
  unfolding parse_exists_def
  by (rule answers_expect, rule answers_bind [OF answers_field_path], simp, rule answers_expect) (simp add: answers_Ok)

lemma parser_answers:
  "4 * length ts + 4 \<le> n \<Longrightarrow> answers (length ts) (parse_or n ts)"
  "4 * length ts + 4 \<le> n \<Longrightarrow> answers (Suc (length ts)) (or_loop n left ts)"
  "4 * length ts + 3 \<le> n \<Longrightarrow> answers (length ts) (parse_and n ts)"
  "4 * length ts + 3 \<le> n \<Longrightarrow> answers (Suc (length ts)) (and_loop n left ts)"
  "4 * length ts + 2 \<le> n \<Longrightarrow> answers (length ts) (parse_not n ts)"
  "4 * length ts + 1 \<le> n \<Longrightarrow> answers (length ts) (parse_primary n ts)"
proof (induction n ts and n left ts and n ts and n left ts and n ts and n ts
    rule: parse_or_or_loop_parse_and_and_loop_parse_not_parse_primary.induct)
  case (2 n ts)
  have "answers (length ts) (parse_and n ts)" using 2 by simp
  then show ?case
    unfolding parse_or.simps
  proof (rule answers_bind)
    fix e r assume r: "parse_and n ts = Ok (e, r)" "length r < length ts"
    then have "answers (Suc (length r)) (or_loop n e r)" using 2 by simp
    then show "answers (length ts) (case (e, r) of (left, r) \<Rightarrow> or_loop n left r)"
      using r(2) by (auto intro: answers_mono)
  qed
next
  case (4 n left ts)
  show ?case
  proof (cases "peek_is KOr ts")
    case True
    have "answers (length (tl ts)) (parse_and n (tl ts))" using 4 True peek_is_length [OF True] by simp
    then have "answers (Suc (length ts)) (bind_res (parse_and n (tl ts)) (\<lambda>(right, r). or_loop n (EOr left right) r))"
    proof (rule answers_bind)
      fix e r assume r: "parse_and n (tl ts) = Ok (e, r)" "length r < length (tl ts)"
      then have "answers (Suc (length r)) (or_loop n (EOr left e) r)" using 4 True by simp
      then show "answers (Suc (length ts)) (case (e, r) of (right, r) \<Rightarrow> or_loop n (EOr left right) r)"
        using r(2) by (auto intro: answers_mono)
    qed
    then show ?thesis using True by simp
  qed (simp add: answers_Ok)
next
  case (6 n ts)
  have "answers (length ts) (parse_not n ts)" using 6 by simp
  then show ?case
    unfolding parse_and.simps
  proof (rule answers_bind)
    fix e r assume r: "parse_not n ts = Ok (e, r)" "length r < length ts"
    then have "answers (Suc (length r)) (and_loop n e r)" using 6 by simp
    then show "answers (length ts) (case (e, r) of (left, r) \<Rightarrow> and_loop n left r)"
      using r(2) by (auto intro: answers_mono)
  qed
next
  case (8 n left ts)
  show ?case
  proof (cases "peek_is KAnd ts")
    case True
    have "answers (length (tl ts)) (parse_not n (tl ts))" using 8 True peek_is_length [OF True] by simp
    then have "answers (Suc (length ts)) (bind_res (parse_not n (tl ts)) (\<lambda>(right, r). and_loop n (EAnd left right) r))"
    proof (rule answers_bind)
      fix e r assume r: "parse_not n (tl ts) = Ok (e, r)" "length r < length (tl ts)"
      then have "answers (Suc (length r)) (and_loop n (EAnd left e) r)" using 8 True by simp
      then show "answers (Suc (length ts)) (case (e, r) of (right, r) \<Rightarrow> and_loop n (EAnd left right) r)"
        using r(2) by (auto intro: answers_mono)
    qed
    then show ?thesis using True by simp
  qed (simp add: answers_Ok)
next
  case (10 n ts)
  show ?case
  proof (cases "peek_is KNot ts")
    case True
    have "answers (length (tl ts)) (parse_not n (tl ts))" using 10 True peek_is_length [OF True] by simp
    then have "answers (length ts) (bind_res (parse_not n (tl ts)) (\<lambda>(inner, r). Ok (ENot inner, r)))"
      by (rule answers_bind) (use peek_is_length [OF True] in \<open>simp add: answers_Ok\<close>)
    then show ?thesis using True by simp
  qed (use 10 in simp)
next
  case (12 n ts)
  consider "peek_is KLParen ts" | "\<not> peek_is KLParen ts" "peek_is KExists ts"
    | "\<not> peek_is KLParen ts" "\<not> peek_is KExists ts" by blast
  then show ?case
  proof cases
    case paren: 1
    have "answers (length (tl ts)) (parse_or n (tl ts))" using 12 paren peek_is_length [OF paren] by simp
    then have "answers (length ts) (bind_res (parse_or n (tl ts)) (\<lambda>(e, r). bind_res (expect KRParen r) (\<lambda>r'. Ok (e, r'))))"
    proof (rule answers_bind)
      fix e and r :: "token list" assume "length r < length (tl ts)"
      then show "answers (length ts) (case (e, r) of (e, r) \<Rightarrow> bind_res (expect KRParen r) (\<lambda>r'. Ok (e, r')))"
        using answers_expect [of r "length ts" "\<lambda>r'. Ok (e, r')"] by (simp add: answers_Ok)
    qed
    then show ?thesis using paren by simp
  next
    case ex: 2
    then show ?thesis using answers_mono [OF answers_exists, of "tl ts" "length ts"] by simp
  next
    case 3
    then show ?thesis using answers_compare by simp
  qed
qed simp_all

section \<open>Printing expressions\<close>

fun path_toks :: "field_path \<Rightarrow> tok list" where
  "path_toks [] = []"
| "path_toks (a # p) = KIdent a # concat (map (\<lambda>s. [KDot, KIdent s]) p)"

fun lit_tok :: "literal \<Rightarrow> tok" where
  "lit_tok (LString s) = KStr s"
| "lit_tok (LInt n) = KInt n"
| "lit_tok (LFloat f) = KFloat f"
| "lit_tok (LBool b) = KBool b"
| "lit_tok LNull = KNull"

fun expr_toks :: "expr \<Rightarrow> tok list" where
  "expr_toks (EAnd a b) = KLParen # expr_toks a @ KAnd # expr_toks b @ [KRParen]"
| "expr_toks (EOr a b) = KLParen # expr_toks a @ KOr # expr_toks b @ [KRParen]"
| "expr_toks (ENot a) = KLParen # KNot # expr_toks a @ [KRParen]"
| "expr_toks (EAtom (Exists p)) = KExists # KLParen # path_toks p @ [KRParen]"
| "expr_toks (EAtom (Compare p o' l)) = path_toks p @ [KOp o', lit_tok l]"

text \<open>Every path of the expression has a segment.\<close>

fun paths_ok :: "(field_path \<Rightarrow> bool) \<Rightarrow> (literal \<Rightarrow> bool) \<Rightarrow> expr \<Rightarrow> bool" where
  "paths_ok P L (EAnd a b) \<longleftrightarrow> paths_ok P L a \<and> paths_ok P L b"
| "paths_ok P L (EOr a b) \<longleftrightarrow> paths_ok P L a \<and> paths_ok P L b"
| "paths_ok P L (ENot a) \<longleftrightarrow> paths_ok P L a"
| "paths_ok P L (EAtom (Exists p)) \<longleftrightarrow> p \<noteq> [] \<and> P p"
| "paths_ok P L (EAtom (Compare p o' l)) \<longleftrightarrow> p \<noteq> [] \<and> P p \<and> L l"

lemma peek_is_Cons [simp]: "peek_is k (t # ts) \<longleftrightarrow> kind t = k"
  by (simp add: peek_is_def)

lemma path_loop_reads:
  "map kind ts = concat (map (\<lambda>s. [KDot, KIdent s]) p) \<Longrightarrow> \<not> peek_is KDot rest \<Longrightarrow>
   path_loop acc (ts @ rest) = Ok (acc @ p, rest)"
proof (induction p arbitrary: ts acc)
  case Nil
  then show ?case by (subst path_loop.simps) simp
next
  case (Cons s p)
  then obtain d i ts' where ts: "ts = d # i # ts'" "kind d = KDot" "kind i = KIdent s"
    "map kind ts' = concat (map (\<lambda>s. [KDot, KIdent s]) p)"
    by (auto simp: map_eq_Cons_conv)
  then show ?case
    using Cons.IH [OF ts(4) Cons.prems(2), of "acc @ [s]"] by (subst path_loop.simps) (simp add: ident_of_def)
qed

lemma field_path_reads:
  assumes "map kind ts = path_toks p" "p \<noteq> []" "\<not> peek_is KDot rest"
  shows "parse_field_path (ts @ rest) = Ok (p, rest)"
proof -
  obtain a q where p: "p = a # q" using assms(2) by (cases p) auto
  then obtain t ts' where "ts = t # ts'" "kind t = KIdent a" "map kind ts' = concat (map (\<lambda>s. [KDot, KIdent s]) q)"
    using assms(1) by (auto simp: map_eq_Cons_conv)
  then show ?thesis
    using path_loop_reads [of ts' q rest "[a]"] assms(3) by (simp add: parse_field_path_def ident_of_def p)
qed

text \<open>With enough fuel an operand is read off the tokens.\<close>

definition reads :: "nat \<Rightarrow> token list \<Rightarrow> expr \<Rightarrow> token list \<Rightarrow> bool" where
  "reads N ts e rest \<longleftrightarrow> (\<forall>n \<ge> N. parse_primary n ts = Ok (e, rest)) \<and> \<not> peek_is KNot ts"

lemma reads_not: "reads N ts e rest \<Longrightarrow> Suc N \<le> n \<Longrightarrow> parse_not n ts = Ok (e, rest)"
  by (cases n) (simp_all add: reads_def)

lemma reads_paren:
  assumes "\<And>n. N \<le> n \<Longrightarrow> parse_or n ts = Ok (e, r # rest)" "kind l = KLParen" "kind r = KRParen"
  shows "reads (Suc N) (l # ts) e rest"
  unfolding reads_def
proof (intro conjI allI impI)
  fix n assume "Suc N \<le> n"
  then obtain m where "n = Suc m" "N \<le> m" by (cases n) auto
  then show "parse_primary n (l # ts) = Ok (e, rest)" using assms by (simp add: expect_def)
qed (use assms(2) in simp)

lemma reads_and:
  assumes "reads N ts a (m # us)" "reads N us b (r # rest)" "kind m = KAnd" "kind r = KRParen" "Suc (Suc (Suc (Suc N))) \<le> n"
  shows "parse_or n ts = Ok (EAnd a b, r # rest)"
proof -
  obtain k where n: "n = Suc (Suc (Suc k))" "Suc N \<le> k" using assms(5) by (metis Suc_le_D Suc_le_mono)
  then obtain j where "k = Suc j" by (cases k) auto
  then show ?thesis
    using reads_not [OF assms(1), of "Suc k"] reads_not [OF assms(2), of k] assms(3,4) n by simp
qed

lemma reads_or:
  assumes "reads N ts a (m # us)" "reads N us b (r # rest)" "kind m = KOr" "kind r = KRParen" "Suc (Suc (Suc (Suc N))) \<le> n"
  shows "parse_or n ts = Ok (EOr a b, r # rest)"
proof -
  obtain k where n: "n = Suc (Suc (Suc k))" "Suc N \<le> k" using assms(5) by (metis Suc_le_D Suc_le_mono)
  then obtain j where "k = Suc j" "N \<le> j" by (cases k) auto
  then show ?thesis
    using reads_not [OF assms(1), of "Suc k"] reads_not [OF assms(2), of k] assms(3,4) n by simp
qed

lemma reads_neg:
  assumes "reads N us a (r # rest)" "kind m = KNot" "kind r = KRParen" "Suc (Suc (Suc (Suc N))) \<le> n"
  shows "parse_or n (m # us) = Ok (ENot a, r # rest)"
proof -
  obtain k where n: "n = Suc (Suc (Suc k))" "Suc N \<le> k" using assms(4) by (metis Suc_le_D Suc_le_mono)
  then obtain j where "k = Suc j" "N \<le> j" by (cases k) auto
  then show ?thesis using reads_not [OF assms(1), of k] assms(2,3) n by simp
qed

lemma reads_mono: "reads N ts e rest \<Longrightarrow> N \<le> M \<Longrightarrow> reads M ts e rest"
  by (simp add: reads_def)

lemma expr_reads:
  "map kind ts = expr_toks e \<Longrightarrow> paths_ok P L e \<Longrightarrow> reads (4 * length ts + 1) (ts @ rest) e rest"
proof (induction e arbitrary: ts rest rule: expr_toks.induct)
  case (1 a b)
  from 1(3) obtain l ta m tb r where ts: "ts = l # ta @ m # tb @ [r]" "kind l = KLParen" "map kind ta = expr_toks a"
    "kind m = KAnd" "map kind tb = expr_toks b" "kind r = KRParen"
    by (auto simp: map_eq_Cons_conv map_eq_append_conv append_eq_map_conv Cons_eq_map_conv)
  let ?N = "4 * (length ta + length tb) + 4"
  have a: "reads ?N (ta @ m # tb @ r # rest) a (m # tb @ r # rest)"
    using reads_mono [OF 1(1) [OF ts(3)]] 1(4) by simp
  have b: "reads ?N (tb @ r # rest) b (r # rest)"
    using reads_mono [OF 1(2) [OF ts(5)]] 1(4) by simp
  have "reads (Suc (?N + 4)) (l # (ta @ m # tb @ r # rest)) (EAnd a b) rest"
    by (rule reads_paren [OF reads_and [OF a b ts(4,6)] ts(2,6)]) simp
  then have "reads (4 * length ts + 1) (l # (ta @ m # tb @ r # rest)) (EAnd a b) rest"
    by (rule reads_mono) (simp add: ts)
  then show ?case by (simp add: ts)
next
  case (2 a b)
  from 2(3) obtain l ta m tb r where ts: "ts = l # ta @ m # tb @ [r]" "kind l = KLParen" "map kind ta = expr_toks a"
    "kind m = KOr" "map kind tb = expr_toks b" "kind r = KRParen"
    by (auto simp: map_eq_Cons_conv map_eq_append_conv append_eq_map_conv Cons_eq_map_conv)
  let ?N = "4 * (length ta + length tb) + 4"
  have a: "reads ?N (ta @ m # tb @ r # rest) a (m # tb @ r # rest)"
    using reads_mono [OF 2(1) [OF ts(3)]] 2(4) by simp
  have b: "reads ?N (tb @ r # rest) b (r # rest)"
    using reads_mono [OF 2(2) [OF ts(5)]] 2(4) by simp
  have "reads (Suc (?N + 4)) (l # (ta @ m # tb @ r # rest)) (EOr a b) rest"
    by (rule reads_paren [OF reads_or [OF a b ts(4,6)] ts(2,6)]) simp
  then have "reads (4 * length ts + 1) (l # (ta @ m # tb @ r # rest)) (EOr a b) rest"
    by (rule reads_mono) (simp add: ts)
  then show ?case by (simp add: ts)
next
  case (3 a)
  from 3(2) obtain l m ta r where ts: "ts = l # m # ta @ [r]" "kind l = KLParen" "map kind ta = expr_toks a"
    "kind m = KNot" "kind r = KRParen"
    by (auto simp: map_eq_Cons_conv map_eq_append_conv append_eq_map_conv Cons_eq_map_conv)
  let ?N = "4 * length ta + 1"
  have "reads (Suc (?N + 4)) (l # (m # ta @ r # rest)) (ENot a) rest"
    by (rule reads_paren [OF reads_neg [OF 3(1) [OF ts(3)] ts(4,5)] ts(2,5)]) (use 3(3) in simp_all)
  then have "reads (4 * length ts + 1) (l # (m # ta @ r # rest)) (ENot a) rest"
    by (rule reads_mono) (simp add: ts)
  then show ?case by (simp add: ts)
next
  case (4 p)
  then obtain x l tp r where ts: "ts = x # l # tp @ [r]" "kind x = KExists" "kind l = KLParen"
    "map kind tp = path_toks p" "kind r = KRParen"
    by (auto simp: map_eq_Cons_conv map_eq_append_conv append_eq_map_conv Cons_eq_map_conv)
  have "parse_field_path (tp @ r # rest) = Ok (p, r # rest)"
    by (rule field_path_reads [OF ts(4)]) (use 4 ts(5) in simp_all)
  then have "parse_exists (l # tp @ r # rest) = Ok (EAtom (Exists p), rest)"
    using ts(3,5) by (simp add: parse_exists_def expect_def)
  then have "parse_primary n (x # l # tp @ r # rest) = Ok (EAtom (Exists p), rest)" if "n \<ge> 1" for n
    using that ts(2) by (cases n) simp_all
  then show ?case using ts(2) by (simp add: reads_def ts(1))
next
  case (5 p o' lit)
  then obtain tp x y where ts: "ts = tp @ [x, y]" "map kind tp = path_toks p" "kind x = KOp o'" "kind y = lit_tok lit"
    by (auto simp: map_eq_Cons_conv map_eq_append_conv append_eq_map_conv Cons_eq_map_conv)
  have p: "p \<noteq> []" using 5 by simp
  have "parse_field_path (tp @ x # y # rest) = Ok (p, x # y # rest)"
    by (rule field_path_reads [OF ts(2) p]) (simp add: ts(3))
  moreover have "parse_literal (y # rest) = Ok (lit, rest)" using ts(4) by (cases lit) (simp_all add: parse_literal_def)
  ultimately have cmp: "parse_compare (tp @ x # y # rest) = Ok (EAtom (Compare p o' lit), rest)"
    using ts(3) by (simp add: parse_compare_def parse_op_def)
  obtain t tp' a where t: "tp = t # tp'" "kind t = KIdent a"
    using ts(2) p by (cases p) (auto simp: map_eq_Cons_conv)
  have "parse_primary n (tp @ x # y # rest) = Ok (EAtom (Compare p o' lit), rest)" if "n \<ge> 1" for n
    using that cmp t by (cases n) simp_all
  then show ?case using t by (simp add: reads_def ts(1))
qed

section \<open>Tokens as text\<close>

definition escape_char :: "char \<Rightarrow> str" where
  "escape_char c = (if c = DQ \<or> c = BSL then [BSL, c] else [c])"

fun op_text :: "op \<Rightarrow> str" where
  "op_text Eq = ''=''" | "op_text Ne = ''!=''" | "op_text Lt = ''<''" | "op_text Le = ''<=''"
| "op_text Gt = ''>''" | "op_text Ge = ''>=''" | "op_text Contains = ''contains''" | "op_text StartsWith = ''starts_with''"

fun tok_text :: "tok \<Rightarrow> str" where
  "tok_text (KIdent s) = s"
| "tok_text (KStr s) = DQ # concat (map escape_char s) @ [DQ]"
| "tok_text (KInt n) = show_int n"
| "tok_text (KFloat f) = []"
| "tok_text (KBool b) = (if b then ''true'' else ''false'')"
| "tok_text KNull = ''null''"
| "tok_text KAnd = ''and''"
| "tok_text KOr = ''or''"
| "tok_text KNot = ''not''"
| "tok_text KExists = ''exists''"
| "tok_text (KOp o') = op_text o'"
| "tok_text KLParen = ''(''"
| "tok_text KRParen = '')''"
| "tok_text KDot = ''.''"
| "tok_text KComma = '',''"

definition ident_ok :: "str \<Rightarrow> bool" where
  "ident_ok s \<longleftrightarrow> s \<noteq> [] \<and> is_ident_start (hd s) \<and> list_all is_ident_cont s \<and> keyword s = None"

fun lit_ok :: "literal \<Rightarrow> bool" where
  "lit_ok (LString s) \<longleftrightarrow> list_all is_ascii s"
| "lit_ok (LInt n) \<longleftrightarrow> - (2 ^ 63) \<le> n \<and> n < 2 ^ 63"
| "lit_ok (LFloat f) \<longleftrightarrow> False"
| "lit_ok _ \<longleftrightarrow> True"

fun tok_ok :: "tok \<Rightarrow> bool" where
  "tok_ok (KIdent s) \<longleftrightarrow> ident_ok s"
| "tok_ok (KStr s) \<longleftrightarrow> list_all is_ascii s"
| "tok_ok (KInt n) \<longleftrightarrow> - (2 ^ 63) \<le> n \<and> n < 2 ^ 63"
| "tok_ok (KFloat f) \<longleftrightarrow> False"
| "tok_ok _ \<longleftrightarrow> True"

definition expr_ok :: "expr \<Rightarrow> bool" where
  "expr_ok e \<longleftrightarrow> paths_ok (list_all ident_ok) lit_ok e"

definition render :: "tok list \<Rightarrow> str" where
  "render ks = concat (map (\<lambda>k. tok_text k @ '' '') ks)"

lemma expr_toks_ok: "expr_ok e \<Longrightarrow> list_all tok_ok (expr_toks e)"
proof -
  have path: "list_all ident_ok p \<Longrightarrow> list_all tok_ok (path_toks p)" for p
    by (cases p) (auto simp: list_all_iff)
  have lit: "lit_ok l \<Longrightarrow> tok_ok (lit_tok l)" for l by (cases l) simp_all
  show "expr_ok e \<Longrightarrow> list_all tok_ok (expr_toks e)"
    unfolding expr_ok_def by (induction e rule: expr_toks.induct) (simp_all add: path lit)
qed

lemma scan_string_cons:
  "x \<noteq> [] \<Longrightarrow> c \<noteq> q \<Longrightarrow> c \<noteq> BSL \<Longrightarrow> scan_string q (c # x) = map_option (\<lambda>(buf, r). (push_byte c @ buf, r)) (scan_string q x)"
  by (cases x) simp_all

lemma scan_string_escape:
  "list_all is_ascii s \<Longrightarrow> scan_string DQ (concat (map escape_char s) @ DQ # r) = Some (s, r)"
proof (induction s)
  case Nil
  then show ?case by (cases r) simp_all
next
  case (Cons c s)
  then have p: "push_byte c = [c]" by (simp add: push_byte_def is_ascii_def)
  have "concat (map escape_char s) @ DQ # r \<noteq> []" by simp
  then show ?case using Cons p by (simp add: escape_char_def scan_string_cons)
qed

lemma scan_number_digits:
  "list_all is_digit n \<Longrightarrow> scan_number (n @ CHR '' '' # r) = (n, False, CHR '' '' # r)"
  by (induction n) (simp_all add: is_digit_def)

lemma show_nat_is_digit: "list_all is_digit (show_nat n)"
  using show_nat_bytes [of _ n] by (auto simp: list_all_iff is_digit_def)

lemma lex_word_text:
  "list_all is_ident_cont s \<Longrightarrow>
   lex_word c (s @ CHR '' '' # r) = (case keyword (c # s) of Some k \<Rightarrow> k | None \<Rightarrow> KIdent (c # s), CHR '' '' # r)"
proof -
  have sp: "\<not> is_ident_cont (CHR '' '')" by (simp add: is_ident_cont_def is_ident_start_def is_digit_def)
  assume "list_all is_ident_cont s"
  then have "\<forall>x \<in> set s. is_ident_cont x" by (simp add: list_all_iff)
  then have "takeWhile is_ident_cont (s @ CHR '' '' # r) = s" "dropWhile is_ident_cont (s @ CHR '' '' # r) = CHR '' '' # r"
    using sp by (simp_all add: takeWhile_append2 dropWhile_append2)
  then show ?thesis by (simp add: lex_word_def Let_def)
qed

lemma ident_start_other:
  "is_ident_start c \<Longrightarrow> \<not> is_digit c \<and> \<not> is_space c \<and>
     c \<notin> {CHR ''('', CHR '')'', CHR ''.'', CHR '','', CHR ''='', CHR ''!'', CHR ''<'', CHR ''>'', DQ, QUOTE1, CHR ''-''}"
  by (auto simp: is_ident_start_def is_digit_def is_space_def)

text \<open>A text that the lexer reads as one token, whatever comes after a blank.\<close>

definition lexes :: "str \<Rightarrow> tok \<Rightarrow> bool" where
  "lexes t k \<longleftrightarrow> (\<exists>c s. t = c # s \<and> \<not> is_space c \<and>
     (\<forall>E pos r. lex1 E pos c (s @ CHR '' '' # r) = Ok (k, CHR '' '' # r)))"

lemma lexes_word:
  assumes "t = c # s" "is_ident_start c" "list_all is_ident_cont s" "k = (case keyword t of Some k \<Rightarrow> k | None \<Rightarrow> KIdent t)"
  shows "lexes t k"
proof -
  have "lex1 E pos c (s @ CHR '' '' # r) = Ok (k, CHR '' '' # r)" for E pos r
    unfolding assms(4) unfolding assms(1)
    using ident_start_other [OF assms(2)] assms(2,3) by (simp add: lex1_def Let_def lex_word_text)
  then show ?thesis using ident_start_other [OF assms(2)] assms(1) by (auto simp: lexes_def)
qed

lemma lexes_int:
  assumes "- (2 ^ 63) \<le> i" "i < 2 ^ 63"
  shows "lexes (show_int i) (KInt i)"
proof -
  have parse: "parse_sint 64 (show_int i) = Some i" by (rule parse_sint_show_int) (use assms in simp_all)
  obtain c s where cs: "show_int i = c # s" by (cases "show_int i") (auto simp: show_int_def split: if_splits)
  have c: "is_digit c \<or> c = CHR ''-''" and s: "list_all is_digit s" and nn: "c = CHR ''-'' \<or> list_all is_digit (c # s)"
    using cs show_nat_is_digit [of "nat i"] show_nat_is_digit [of "nat (- i)"]
    by (auto simp: show_int_def split: if_splits)
  have num: "lex_number E pos c (s @ CHR '' '' # r) = Ok (KInt i, CHR '' '' # r)" for E pos r
  proof (cases "c = CHR ''-''")
    case True
    then show ?thesis using scan_number_digits [OF s, of r] parse cs by (simp add: lex_number_def)
  next
    case False
    then have "list_all is_digit (c # s)" using nn by blast
    from scan_number_digits [OF this, of r] show ?thesis using False parse cs by (simp add: lex_number_def del: scan_number.simps)
  qed
  have other: "\<not> is_space c"
    "c \<notin> {CHR ''('', CHR '')'', CHR ''.'', CHR '','', CHR ''='', CHR ''!'', CHR ''<'', CHR ''>'', DQ, QUOTE1}"
    using c by (auto simp: is_digit_def is_space_def)
  then have "lex1 E pos c (s @ CHR '' '' # r) = Ok (KInt i, CHR '' '' # r)" for E pos r
    using c num by (simp add: lex1_def Let_def)
  then show ?thesis using cs other(1) by (auto simp: lexes_def)
qed

lemmas word_defs = is_ident_cont_def is_ident_start_def keyword_def to_ascii_lowercase_def ascii_lower_def Let_def

lemma lexes_words:
  "lexes ''true'' (KBool True)" "lexes ''false'' (KBool False)" "lexes ''null'' KNull" "lexes ''and'' KAnd"
  "lexes ''or'' KOr" "lexes ''not'' KNot" "lexes ''exists'' KExists" "lexes ''contains'' (KOp Contains)"
  "lexes ''starts_with'' (KOp StartsWith)"
  by (rule lexes_word [OF refl]; simp add: word_defs)+

lemma lexes_signs:
  "lexes ''('' KLParen" "lexes '')'' KRParen" "lexes ''.'' KDot" "lexes '','' KComma" "lexes ''='' (KOp Eq)"
  "lexes ''!='' (KOp Ne)" "lexes ''<'' (KOp Lt)" "lexes ''<='' (KOp Le)" "lexes ''>'' (KOp Gt)" "lexes ''>='' (KOp Ge)"
  by (simp_all add: lexes_def is_space_def lex1_def)

lemma tok_lexes: "tok_ok k \<Longrightarrow> lexes (tok_text k) k"
proof (induction k rule: tok_text.induct)
  case (1 s)
  then obtain c t where "s = c # t" by (cases s) (auto simp: ident_ok_def)
  then show ?case using 1 lexes_word [of s c t] by (simp add: ident_ok_def)
next
  case (2 s)
  have "lex1 E pos DQ ((concat (map escape_char s) @ [DQ]) @ CHR '' '' # r) = Ok (KStr s, CHR '' '' # r)" for E pos r
    using scan_string_escape [of s "CHR '' '' # r"] 2 by (simp add: lex1_def lex_string_def Let_def)
  then show ?case unfolding lexes_def by (auto simp: is_space_def)
next
  case (3 n)
  then show ?case using lexes_int by simp
next
  case (11 o')
  then show ?case by (cases o') (simp_all add: lexes_words lexes_signs)
qed (simp_all add: lexes_words lexes_signs)

lemma tokenize_render:
  "list_all tok_ok ks \<Longrightarrow> \<exists>ts. tokenize_from E pos (render ks) = Ok ts \<and> map kind ts = ks"
proof (induction ks arbitrary: pos)
  case (Cons k ks)
  obtain c s where c: "tok_text k = c # s" "\<not> is_space c"
    "\<And>E pos r. lex1 E pos c (s @ CHR '' '' # r) = Ok (k, CHR '' '' # r)"
    using tok_lexes [of k] Cons.prems by (auto simp: lexes_def)
  have tx: "render (k # ks) = c # s @ CHR '' '' # render ks" by (simp add: render_def c(1))
  obtain ts where ts: "tokenize_from E (pos + Suc (length (s @ CHR '' '' # render ks)) - length (CHR '' '' # render ks) + 1)
      (render ks) = Ok ts" "map kind ts = ks" using Cons.IH Cons.prems by force
  have "is_space (CHR '' '')" by (simp add: is_space_def)
  then have "tokenize_from E pos (render (k # ks)) = Ok (\<lparr>kind = k, byte_pos = pos\<rparr> # ts)"
    using c(2,3) ts(1) by (simp add: tx)
  then show ?case using ts(2) by simp
qed (simp add: render_def)

lemma tokenize_no_fuel: "tokenize_from E pos s \<noteq> Err QFuel"
proof (induction E pos s rule: tokenize_from.induct)
  case (2 E pos c s)
  have "lex1 E pos c s \<noteq> Err QFuel"
    by (simp add: lex1_def lex_string_def lex_number_def Let_def split: option.splits prod.splits)
  then show ?case using 2 by (auto simp: res_simps)
qed simp

section \<open>Properties\<close>

text \<open>
  The parser answers every text, with an expression or a parse error: its recursion is
  bounded by the number of tokens.
\<close>

lemma query_parse_total: "query_parse E input \<noteq> Err QFuel"
proof (cases "tokenize E input")
  case (Inl e)
  then have "e \<noteq> QFuel" using tokenize_no_fuel by (auto simp: tokenize_def)
  then show ?thesis using Inl by (simp add: query_parse_def)
next
  case (Inr ts)
  have "answers (length ts) (parse_or (4 * length ts + 4) ts)" by (rule parser_answers) simp
  then show ?thesis
    using Inr by (auto simp: query_parse_def res_simps answers_def split: list.splits sum.splits)
qed

text \<open>
  C36. An expression written out in full, every operation in parentheses, is read back as
  the same expression: operators, nested negations, dotted paths, strings with quotes and
  backslashes, and every 64-bit integer.
\<close>

theorem query_round_trip:
  assumes "expr_ok e"
  shows "query_parse E (render (expr_toks e)) = Ok e"
proof -
  obtain ts where ts: "tokenize E (render (expr_toks e)) = Ok ts" "map kind ts = expr_toks e"
    using tokenize_render [OF expr_toks_ok [OF assms], of E 0] by (auto simp: tokenize_def)
  have r: "reads (4 * length ts + 1) ts e []"
    using expr_reads [OF ts(2), of _ _ "[]"] assms by (simp add: expr_ok_def)
  have "parse_or (4 * length ts + 4) ts = Ok (e, [])"
    using reads_not [OF r, of "4 * length ts + 2"] by (simp add: eval_nat_numeral peek_is_def)
  then show ?thesis by (simp add: query_parse_def ts(1))
qed

definition sample_query :: expr where
  "sample_query = EAnd (ENot (EAtom (Exists [''fields'', ''draft''])))
     (EOr (EAtom (Compare [''title''] Contains (LString [DQ, BSL]))) (EAtom (Compare [''n''] Ge (LInt (-7)))))"

theorem query_round_trip_witness: "query_parse toy_ext (render (expr_toks sample_query)) = Ok sample_query"
  by (rule query_round_trip)
    (simp add: expr_ok_def sample_query_def ident_ok_def is_ident_start_def is_ident_cont_def keyword_def
      to_ascii_lowercase_def ascii_lower_def is_ascii_def)

text \<open>
  Integers are compared after conversion to floats: two integers beyond \<open>2\<^sup>5\<^sup>3\<close> that
  differ by one are equal and not ordered, although membership in a list tells them apart.
\<close>

lemma query_integers_rounded:
  "compare (FInt 9007199254740992) Eq (LInt 9007199254740993) \<and>
   \<not> compare (FInt 9007199254740992) Lt (LInt 9007199254740993) \<and>
   \<not> compare (FList [FInt 9007199254740992]) Contains (LInt 9007199254740993)"
proof -
  have "f64_of_int 9007199254740993 = f64_of_int 9007199254740992" "f64_of_int 9007199254740992 = 0x4340000000000000"
    by (simp_all add: f64_of_int_def f64_of_nat_def msb_pos.simps)
  moreover have "is_finite 0x4340000000000000" by (simp add: is_finite_def)
  ultimately show ?thesis by (simp add: f64_near_def f64_lt_def)
qed

text \<open>
  The bytes of a string literal are taken for characters one by one: an accented
  letter, two bytes of UTF-8, is read as two other letters, four bytes, so the literal
  does not equal the text it was written as.
\<close>

lemma query_string_mangled:
  "tokenize E ([DQ, CHR 0xC3, CHR 0xA9, DQ]) =
     Ok [\<lparr>kind = KStr [CHR 0xC3, CHR 0x83, CHR 0xC2, CHR 0xA9], byte_pos = 0\<rparr>]"
  by (simp add: tokenize_def lex1_def lex_string_def is_space_def push_byte_def char_of_def bit_0)

section \<open>Cursors\<close>

lemma cursor_round_trip:
  assumes "b64_ok E" "offset \<le> U64_MAX"
    and "case cm of None \<Rightarrow> True | Some c \<Rightarrow> c \<noteq> [] \<and> CHR ''|'' \<notin> set c \<and> utf8_valid c"
  shows "decode_cursor E (encode_cursor E cm offset) = Ok (cm, offset)"
proof -
  define c where "c = (case cm of None \<Rightarrow> [] | Some c \<Rightarrow> c)"
  have enc: "encode_cursor E cm offset = b64_encode E (c @ CHR ''|'' # show_nat offset)"
    by (cases cm) (simp_all add: encode_cursor_def c_def)
  have c: "CHR ''|'' \<notin> set c" "utf8_valid c" "(if c = [] then None else Some c) = cm"
    using assms(3) by (cases cm; simp add: c_def)+
  have "utf8_valid (c @ CHR ''|'' # show_nat offset)"
    using c(2) utf8_valid_ascii [of "show_nat offset"] show_nat_ascii [of _ offset]
    by (simp add: utf8_valid_append is_ascii_def [of "CHR ''|''"])
  then show ?thesis
    using assms(1,2) c(1,3) by (simp add: decode_cursor_def enc b64_ok_def split_once_append parse_uint_show_nat)
qed

end
