(* ===== verification/Omp_Paging.thy ===== *)
theory Omp_Paging
  imports Omp_Staging Omp_Query
begin

text \<open>
  \<open>crates/omp-core/src/api.rs\<close>, fifth part: \<open>query\<close>, which answers the manifests that a
  predicate selects, page by page. A client that follows the cursors gets every match
  exactly once, in the order of the paths, also when \<open>HEAD\<close> moves between the pages
  (\<open>pages_complete\<close>).
\<close>

section \<open>Model\<close>

definition resolve_at :: "repo_env \<Rightarrow> disk \<Rightarrow> str option \<Rightarrow> str option result" where
  "resolve_at V s at =
     (case at of Some e \<Rightarrow> Ok (Some e)
      | None \<Rightarrow> bind_res (resolve_head (reader V s)) (\<lambda>ho. Ok (map_option hash_hex ho)))"

definition selected :: "leaf list \<Rightarrow> str option \<Rightarrow> leaf list" where
  "selected entries pfx =
     sort_key fst (filter (\<lambda>(p, _, _). case pfx of Some q \<Rightarrow> starts_with q p | None \<Rightarrow> True)
       (filter (\<lambda>(_, m, _). m = MManifest) entries))"

definition passes :: "expr option \<Rightarrow> manifest \<Rightarrow> bool" where
  "passes predicate m = (case predicate of None \<Rightarrow> True | Some e \<Rightarrow> evaluate e m)"

definition match_of :: "str \<Rightarrow> hash \<Rightarrow> manifest \<Rightarrow> query_match" where
  "match_of path h m = \<lparr>qm_path = path, qm_manifest_hash = h, qm_source_hash = m_source_hash m,
     qm_file_type = m_file_type m, qm_fields = m_fields m\<rparr>"

text \<open>
  The loop: the number of selected entries, the index of the next one, those left and the
  matches so far. It answers the matches and where the next page starts.
\<close>

fun page_loop ::
  "repo_env \<Rightarrow> disk \<Rightarrow> expr option \<Rightarrow> nat \<Rightarrow> nat \<Rightarrow> nat \<Rightarrow> leaf list \<Rightarrow> query_match list \<Rightarrow> (query_match list \<times> nat option) result"
where
  "page_loop V s predicate limit n idx [] matches = Ok (matches, None)"
| "page_loop V s predicate limit n idx ((path, _, h) # rest) matches =
     bind_res (get_object V s (NotFound (''manifest '' @ hash_hex h)) h) (\<lambda>(_, content).
     bind_res (manifest_parse (rx V) content) (\<lambda>m.
     if \<not> passes predicate m then page_loop V s predicate limit n (Suc idx) rest matches
     else let matches' = matches @ [match_of path h m] in
       if length matches' \<ge> limit then Ok (matches', if idx + 1 < n then Some (idx + 1) else None)
       else page_loop V s predicate limit n (Suc idx) rest matches'))"

definition clamp :: "nat \<Rightarrow> nat \<Rightarrow> nat \<Rightarrow> nat" where
  "clamp x lo hi = (if x < lo then lo else if x > hi then hi else x)"

definition query ::
  "repo_env \<Rightarrow> disk \<Rightarrow> str option \<Rightarrow> str option \<Rightarrow> expr option \<Rightarrow> str option \<Rightarrow> nat \<Rightarrow> query_result result"
where
  "query V s at pfx predicate cursor limit =
     bind_res (resolve_at V s at) (\<lambda>resolved_at.
     bind_res (case cursor of Some c \<Rightarrow> decode_cursor (rx V) c | None \<Rightarrow> Ok (resolved_at, 0)) (\<lambda>(cursor_commit, start).
     let effective_at = (case cursor_commit of Some c \<Rightarrow> Some c | None \<Rightarrow> resolved_at) in
     bind_res (root_tree V s effective_at) (\<lambda>ro. case ro of
       None \<Rightarrow> Ok \<lparr>qr_matches = [], qr_next_cursor = None\<rparr>
     | Some root \<Rightarrow>
         bind_res (walk_tree_at V None s root) (\<lambda>entries.
         let es = selected entries pfx in
         bind_res (page_loop V s predicate (clamp limit 1 1000) (length es) start (drop start es) []) (\<lambda>(ms, next).
         Ok \<lparr>qr_matches = ms, qr_next_cursor = map_option (encode_cursor (rx V) effective_at) next\<rparr>)))))"

text \<open>A client that asks for page after page; \<open>ss i\<close> is the state in which page \<open>i\<close> is answered.\<close>

fun query_pages ::
  "repo_env \<Rightarrow> (nat \<Rightarrow> disk) \<Rightarrow> str option \<Rightarrow> str option \<Rightarrow> expr option \<Rightarrow> nat \<Rightarrow> nat \<Rightarrow> nat \<Rightarrow> str option \<Rightarrow>
   query_match list result option"
where
  "query_pages V ss at pfx predicate limit 0 i cursor = None"
| "query_pages V ss at pfx predicate limit (Suc fuel) i cursor =
     (case query V (ss i) at pfx predicate cursor limit of
        Inl e \<Rightarrow> Some (Err e)
      | Inr r \<Rightarrow>
          (case qr_next_cursor r of
             None \<Rightarrow> Some (Ok (qr_matches r))
           | Some c \<Rightarrow> map_option (\<lambda>rest. bind_res rest (\<lambda>ms. Ok (qr_matches r @ ms)))
               (query_pages V ss at pfx predicate limit fuel (Suc i) (Some c))))"

section \<open>Pages\<close>

text \<open>A commit as every page sees it: its files, and the manifest of each.\<close>

definition snapshot :: "repo_env \<Rightarrow> disk \<Rightarrow> str \<Rightarrow> leaf list \<Rightarrow> (hash \<Rightarrow> manifest) \<Rightarrow> bool" where
  "snapshot V s c es M \<longleftrightarrow>
     (\<exists>root. root_tree V s (Some c) = Ok (Some root) \<and> walk_tree_at V None s root = Ok es) \<and>
     (\<forall>(p, m, h) \<in> set es. m = MManifest \<longrightarrow>
        (\<exists>ty content. disk_get (rx V) s h = Ok (Some (ty, content)) \<and> manifest_parse (rx V) content = Ok (M h)))"

definition all_matches :: "expr option \<Rightarrow> (hash \<Rightarrow> manifest) \<Rightarrow> leaf list \<Rightarrow> query_match list" where
  "all_matches predicate M es =
     concat (map (\<lambda>(p, m, h). if passes predicate (M h) then [match_of p h (M h)] else []) es)"

lemma all_matches_append: "all_matches p M (xs @ ys) = all_matches p M xs @ all_matches p M ys"
  by (simp add: all_matches_def)

lemma selected_manifest: "(p, m, h) \<in> set (selected es pfx) \<Longrightarrow> (p, m, h) \<in> set es \<and> m = MManifest"
  by (auto simp: selected_def)

lemma page_loop_spec:
  assumes "\<forall>(p, m, h) \<in> set es. \<exists>ty content. disk_get (rx V) s h = Ok (Some (ty, content)) \<and> manifest_parse (rx V) content = Ok (M h)"
    and "idx + length es = n" "length acc < limit"
  shows "\<exists>ms next. page_loop V s predicate limit n idx es acc = Ok (acc @ ms, next) \<and> length (acc @ ms) \<le> limit \<and>
    (case next of None \<Rightarrow> ms = all_matches predicate M es
     | Some j \<Rightarrow> idx < j \<and> j < n \<and> ms = all_matches predicate M (take (j - idx) es))"
  using assms
proof (induction es arbitrary: idx acc)
  case (Cons e es)
  obtain p m h where e: "e = (p, m, h)" by (cases e) auto
  obtain ty content where c: "disk_get (rx V) s h = Ok (Some (ty, content))" "manifest_parse (rx V) content = Ok (M h)"
    using Cons.prems(1) e by auto
  have IH: "length acc' < limit \<Longrightarrow> \<exists>ms next. page_loop V s predicate limit n (Suc idx) es acc' = Ok (acc' @ ms, next) \<and>
      length (acc' @ ms) \<le> limit \<and>
      (case next of None \<Rightarrow> ms = all_matches predicate M es
       | Some j \<Rightarrow> Suc idx < j \<and> j < n \<and> ms = all_matches predicate M (take (j - Suc idx) es))" for acc'
    using Cons.IH [of "Suc idx" acc'] Cons.prems(1,2) by simp
  have take: "take (j - idx) (e # es) = e # take (j - Suc idx) es" if "Suc idx < j" for j
    using that by (simp add: Suc_diff_Suc [symmetric])
  show ?case
  proof (cases "passes predicate (M h)")
    case False
    then show ?thesis
      using IH [OF Cons.prems(3)] e c take
      by (fastforce simp: get_object_def all_matches_def split: option.splits)
  next
    case True
    let ?acc = "acc @ [match_of p h (M h)]"
    show ?thesis
    proof (cases "length ?acc \<ge> limit")
      case full: True
      have "es = []" if "\<not> idx + 1 < n" using that Cons.prems(2) by (cases es) auto
      then show ?thesis
        using full True e c Cons.prems
        by (intro exI [of _ "[match_of p h (M h)]"]) (auto simp: get_object_def all_matches_def)
    next
      case False
      then obtain ms nxt where ms: "page_loop V s predicate limit n (Suc idx) es ?acc = Ok (?acc @ ms, nxt)"
          "length (?acc @ ms) \<le> limit" "case nxt of None \<Rightarrow> ms = all_matches predicate M es
            | Some j \<Rightarrow> Suc idx < j \<and> j < n \<and> ms = all_matches predicate M (take (j - Suc idx) es)"
        using IH [of ?acc] by auto
      have "page_loop V s predicate limit n idx (e # es) acc = Ok (acc @ match_of p h (M h) # ms, nxt)"
        using False True e c ms(1) by (simp add: get_object_def)
      moreover have "case nxt of None \<Rightarrow> match_of p h (M h) # ms = all_matches predicate M (e # es)
          | Some j \<Rightarrow> idx < j \<and> j < n \<and> match_of p h (M h) # ms = all_matches predicate M (take (j - idx) (e # es))"
        using ms(3) take True e by (auto simp: all_matches_def split: option.splits)
      ultimately show ?thesis using ms(2) by (intro exI [of _ "match_of p h (M h) # ms"]) auto
    qed
  qed
qed (simp add: all_matches_def)

lemma query_at_snapshot:
  assumes "snapshot V s c es M" "resolve_at V s at = Ok ra"
    and "case cursor of None \<Rightarrow> ra = Some c \<and> start = 0 | Some k \<Rightarrow> decode_cursor (rx V) k = Ok (Some c, start)"
    and "start \<le> length (selected es pfx)"
  shows "\<exists>ms next. query V s at pfx predicate cursor limit =
      Ok \<lparr>qr_matches = ms, qr_next_cursor = map_option (encode_cursor (rx V) (Some c)) next\<rparr> \<and> length ms \<le> clamp limit 1 1000 \<and>
    (case next of None \<Rightarrow> ms = all_matches predicate M (drop start (selected es pfx))
     | Some j \<Rightarrow> start < j \<and> j < length (selected es pfx) \<and>
         ms = all_matches predicate M (take (j - start) (drop start (selected es pfx))))"
proof -
  obtain root where root: "root_tree V s (Some c) = Ok (Some root)" "walk_tree_at V None s root = Ok es"
    using assms(1) by (auto simp: snapshot_def)
  have read: "\<forall>(p, m, h) \<in> set (drop start (selected es pfx)). \<exists>ty content.
      disk_get (rx V) s h = Ok (Some (ty, content)) \<and> manifest_parse (rx V) content = Ok (M h)"
    using assms(1) selected_manifest unfolding snapshot_def by (fastforce dest: in_set_dropD)
  have "0 < clamp limit 1 1000" by (simp add: clamp_def)
  then obtain ms nxt where ms: "page_loop V s predicate (clamp limit 1 1000) (length (selected es pfx)) start
        (drop start (selected es pfx)) [] = Ok (ms, nxt)" "length ms \<le> clamp limit 1 1000"
      "case nxt of None \<Rightarrow> ms = all_matches predicate M (drop start (selected es pfx))
       | Some j \<Rightarrow> start < j \<and> j < length (selected es pfx) \<and> ms = all_matches predicate M (take (j - start) (drop start (selected es pfx)))"
    using page_loop_spec [OF read, of start "length (selected es pfx)" "[]" "clamp limit 1 1000" predicate] assms(4) by auto
  have "query V s at pfx predicate cursor limit =
      Ok \<lparr>qr_matches = ms, qr_next_cursor = map_option (encode_cursor (rx V) (Some c)) nxt\<rparr>"
    using assms(2,3) root ms(1) by (cases cursor) (simp_all add: query_def Let_def)
  then show ?thesis using ms(2,3) by blast
qed

lemma query_pages_from:
  assumes "\<And>i. snapshot V (ss i) c es M" "\<And>i. \<exists>ra. resolve_at V (ss i) at = Ok ra" "b64_ok (rx V)"
    and "c \<noteq> []" "CHR ''|'' \<notin> set c" "utf8_valid c" "length (selected es pfx) \<le> U64_MAX"
    and "case cursor of None \<Rightarrow> resolve_at V (ss i) at = Ok (Some c) \<and> start = 0
         | Some k \<Rightarrow> decode_cursor (rx V) k = Ok (Some c, start)"
    and "start \<le> length (selected es pfx)" "length (selected es pfx) - start < fuel"
  shows "query_pages V ss at pfx predicate limit fuel i cursor = Some (Ok (all_matches predicate M (drop start (selected es pfx))))"
  using assms(8-)
proof (induction fuel arbitrary: i cursor start)
  case (Suc fuel)
  let ?n = "length (selected es pfx)"
  obtain ra where ra: "resolve_at V (ss i) at = Ok ra" using assms(2) by blast
  have cur: "case cursor of None \<Rightarrow> ra = Some c \<and> start = 0 | Some k \<Rightarrow> decode_cursor (rx V) k = Ok (Some c, start)"
    using Suc.prems(1) ra by (cases cursor) auto
  obtain ms nxt where ms: "query V (ss i) at pfx predicate cursor limit =
        Ok \<lparr>qr_matches = ms, qr_next_cursor = map_option (encode_cursor (rx V) (Some c)) nxt\<rparr>"
      "case nxt of None \<Rightarrow> ms = all_matches predicate M (drop start (selected es pfx))
       | Some j \<Rightarrow> start < j \<and> j < ?n \<and> ms = all_matches predicate M (take (j - start) (drop start (selected es pfx)))"
    using query_at_snapshot [OF assms(1) ra cur Suc.prems(2), of predicate limit] by blast
  show ?case
  proof (cases nxt)
    case None
    then show ?thesis using ms by simp
  next
    case (Some j)
    then have j: "start < j" "j < ?n" "ms = all_matches predicate M (take (j - start) (drop start (selected es pfx)))"
      using ms(2) by auto
    have "decode_cursor (rx V) (encode_cursor (rx V) (Some c) j) = Ok (Some c, j)"
      using cursor_round_trip [OF assms(3), of j "Some c"] assms(4-7) j(2) by simp
    then have pages: "query_pages V ss at pfx predicate limit fuel (Suc i) (Some (encode_cursor (rx V) (Some c) j)) =
        Some (Ok (all_matches predicate M (drop j (selected es pfx))))"
      using Suc.IH [where cursor = "Some (encode_cursor (rx V) (Some c) j)" and i = "Suc i" and start = j] j Suc.prems(3) by simp
    have "drop start (selected es pfx) = take (j - start) (drop start (selected es pfx)) @ drop j (selected es pfx)"
      using j(1) by (metis append_take_drop_id drop_drop le_add_diff_inverse2 less_imp_le)
    then have "all_matches predicate M (drop start (selected es pfx)) = ms @ all_matches predicate M (drop j (selected es pfx))"
      using all_matches_append [of predicate M] j(3) by metis
    then show ?thesis using ms(1) Some pages by simp
  qed
qed simp

section \<open>Properties\<close>

text \<open>
  C2. A client that starts at a commit, or at \<open>HEAD\<close>, and follows the cursors gets, after at
  most as many pages as there are selected files, the matches of that commit: each file
  below the prefix whose manifest passes, once, in the order of the paths. It does so for
  every page size, and although \<open>HEAD\<close> may have moved on for the later pages.
\<close>

theorem pages_complete:
  assumes "\<forall>i. snapshot V (ss i) c es M" "\<forall>i. \<exists>ra. resolve_at V (ss i) at = Ok ra"
    and "resolve_at V (ss 0) at = Ok (Some c)" "b64_ok (rx V)"
    and "c \<noteq> []" "CHR ''|'' \<notin> set c" "utf8_valid c" "length (selected es pfx) \<le> U64_MAX"
  shows "query_pages V ss at pfx predicate limit (length (selected es pfx) + 1) 0 None =
      Some (Ok (all_matches predicate M (selected es pfx)))"
  using query_pages_from [where ss = ss and c = c and cursor = None and i = 0 and start = 0 and fuel = "length (selected es pfx) + 1"]
    assms by simp

text \<open>The repository of one committed manifest; the pages hold one match each.\<close>

lemma doc_manifest: "utf8_valid bs \<Longrightarrow> manifest_parse doc_ext bs = Ok sample_manifest"
proof -
  have "manifest_ok toy_ext sample_manifest" by (simp add: manifest_ok_def sample_manifest_def hash_wf_def)
  then obtain d where "manifest_to_doc toy_ext sample_manifest = Ok d" "manifest_of_doc d = Ok sample_manifest"
    using manifest_codec.dec_enc by blast
  then show "utf8_valid bs \<Longrightarrow> ?thesis" by (simp add: manifest_parse_def doc_ext_def)
qed

lemma toy_snapshot:
  obtains h s where "head_commit (toy_env toy_index) s = Ok (Some h)" "hash_wf h"
    "snapshot (toy_env toy_index) s (hash_hex h) [(''notes.md'', MManifest, hash_of doc_ext Manifest ''hi'')] (\<lambda>_. sample_manifest)"
proof -
  let ?V = "toy_env toy_index" and ?t = "hash_of doc_ext Tree (tree_serialize toy_tree)"
  obtain h s cb where s: "collision_free doc_ext s" "disk_ok doc_ext s" "hash_wf h"
      "puts s = [frame Commit cb, frame Tree (tree_serialize toy_tree), frame Manifest ''hi'']"
      "head_commit ?V s = Ok (Some h)" "tree_of_commit ?V s h = Ok ?t"
    using toy_commit_run by metis
  have fits: "tree_fits None toy_tree"
    using sample_name_fits [of None] hash_of_wf [OF doc_ext_ok(1)] by (simp add: toy_tree_def tree_fits_def)
  have "disk_get doc_ext s ?t = Ok (Some (''tree'', tree_serialize toy_tree))"
    using disk_get_stored [OF s(2) doc_ext_ok(1) s(1), of Tree] s(4) by simp
  then have "load_tree_with_key doc_ext None s ?t = Ok toy_tree"
    using tree_parse_serialize_plain [OF fits] by (simp add: load_tree_with_key_def)
  then have walk: "walk_tree_at ?V None s ?t = Ok [(''notes.md'', MManifest, hash_of doc_ext Manifest ''hi'')]"
    using s(4) by (simp add: walk_tree_at_def walk_with_key_def toy_tree_def join_name_def)
  have "disk_get doc_ext s (hash_of doc_ext Manifest ''hi'') = Ok (Some (''manifest'', ''hi''))"
    using disk_get_stored [OF s(2) doc_ext_ok(1) s(1), of Manifest] s(4) by simp
  moreover have "manifest_parse doc_ext ''hi'' = Ok sample_manifest"
    by (rule doc_manifest) (simp add: utf8_valid_ascii is_ascii_def)
  moreover have "root_tree ?V s (Some (hash_hex h)) = Ok (Some ?t)"
    using s(6) resolve_hash [OF s(3)] by (simp add: root_tree_def)
  ultimately have "snapshot ?V s (hash_hex h) [(''notes.md'', MManifest, hash_of doc_ext Manifest ''hi'')] (\<lambda>_. sample_manifest)"
    using walk by (auto simp: snapshot_def)
  then show thesis using that s(3,5) by blast
qed

theorem pages_complete_witness:
  "\<exists>s. query_pages (toy_env toy_index) (\<lambda>_. s) None None None 1 2 0 None =
     Some (Ok [match_of ''notes.md'' (hash_of doc_ext Manifest ''hi'') sample_manifest])"
proof -
  let ?V = "toy_env toy_index" and ?es = "[(''notes.md'', MManifest, hash_of doc_ext Manifest ''hi'')]"
  obtain h s where s: "head_commit ?V s = Ok (Some h)" "hash_wf h" "snapshot ?V s (hash_hex h) ?es (\<lambda>_. sample_manifest)"
    by (rule toy_snapshot)
  have ra: "resolve_at ?V s None = Ok (Some (hash_hex h))" using s(1) by (simp add: resolve_at_def head_commit_def)
  have b64: "b64_ok (rx ?V)" using toy_b64_ok by (simp add: doc_ext_def b64_ok_def)
  have c: "hash_hex h \<noteq> []" "CHR ''|'' \<notin> set (hash_hex h)" "utf8_valid (hash_hex h)"
    using length_hash_hex [OF s(2)] hash_hex_notin [of "CHR ''|''" h] hash_line_valid
    by (auto simp: utf8_valid_ascii hash_hex_eq hex_ascii)
  have sel: "selected ?es None = ?es" by (simp add: selected_def)
  have "length (selected ?es None) \<le> U64_MAX" by (simp add: sel U64_MAX_def)
  from pages_complete [of ?V "\<lambda>_. s" "hash_hex h" ?es "\<lambda>_. sample_manifest" None, OF _ _ ra b64 c this, of None 1] s(3) ra sel
  show ?thesis by (auto simp: all_matches_def passes_def numeral_2_eq_2)
qed

end
