(* ===== verification/Omp_Audit.thy ===== *)
theory Omp_Audit
  imports Omp_Refs Ordered_Map Cbor_Data
begin

text \<open>
  \<open>crates/omp-core/src/audit.rs\<close>: the audit log of a tenant, a chain of objects that
  each name their predecessor, with its head at the reference \<open>refs/audit/HEAD\<close>.

  CBOR is a parameter; the map that serde derives for an entry is written out (a map
  with a repeated key, which the encoder never writes, is read by its first value).
  The walk over the whole chain has no bound of its own, so it is a partial function
  and \<open>None\<close> stands for not returning.
\<close>

section \<open>Entries\<close>

datatype audit_value = AVNull | AVString str | AVInt int | AVBool bool | AVList "audit_value list"

record audit_entry =
  ae_version :: nat
  ae_parent :: "hash option"
  ae_at :: str
  ae_tenant :: str
  ae_event :: str
  ae_actor :: str
  ae_details :: "(str, audit_value) btree"

definition AUDIT_HEAD_REF :: str where "AUDIT_HEAD_REF = ''refs/audit/HEAD''"

definition entry_new :: "str \<Rightarrow> str \<Rightarrow> str \<Rightarrow> str \<Rightarrow> audit_entry" where
  "entry_new now tenant event actor =
     \<lparr>ae_version = 1, ae_parent = None, ae_at = now, ae_tenant = tenant, ae_event = event,
      ae_actor = actor, ae_details = []\<rparr>"

definition with_detail :: "str \<Rightarrow> audit_value \<Rightarrow> audit_entry \<Rightarrow> audit_entry" where
  "with_detail key v e = e\<lparr>ae_details := bt_insert key v (ae_details e)\<rparr>"

fun value_to_cbor :: "audit_value \<Rightarrow> cbor" where
  "value_to_cbor AVNull = CbNull"
| "value_to_cbor (AVString s) = CbText s"
| "value_to_cbor (AVInt i) = CbInteger i"
| "value_to_cbor (AVBool b) = CbBool b"
| "value_to_cbor (AVList vs) = CbArray (map value_to_cbor vs)"

text \<open>The untagged representation: the first variant that fits.\<close>

fun value_of_cbor :: "cbor \<Rightarrow> audit_value option" where
  "value_of_cbor CbNull = Some AVNull"
| "value_of_cbor (CbText s) = Some (AVString s)"
| "value_of_cbor (CbInteger i) = (if - (2 ^ 63) \<le> i \<and> i < 2 ^ 63 then Some (AVInt i) else None)"
| "value_of_cbor (CbBool b) = Some (AVBool b)"
| "value_of_cbor (CbArray vs) = map_option AVList (those (map value_of_cbor vs))"
| "value_of_cbor _ = None"

definition entry_to_cbor :: "audit_entry \<Rightarrow> cbor" where
  "entry_to_cbor e = CbMap
     [(CbText ''version'', CbInteger (int (ae_version e))),
      (CbText ''parent'', case ae_parent e of None \<Rightarrow> CbNull | Some h \<Rightarrow> CbText (hash_hex h)),
      (CbText ''at'', CbText (ae_at e)),
      (CbText ''tenant'', CbText (ae_tenant e)),
      (CbText ''event'', CbText (ae_event e)),
      (CbText ''actor'', CbText (ae_actor e)),
      (CbText ''details'', CbMap (map (\<lambda>(k, v). (CbText k, value_to_cbor v)) (ae_details e)))]"

definition as_text :: "cbor \<Rightarrow> str option" where
  "as_text v = (case v of CbText s \<Rightarrow> Some s | _ \<Rightarrow> None)"

definition as_u32 :: "cbor \<Rightarrow> nat option" where
  "as_u32 v = (case v of CbInteger i \<Rightarrow> if 0 \<le> i \<and> i \<le> int U32_MAX then Some (nat i) else None | _ \<Rightarrow> None)"

definition as_parent :: "cbor option \<Rightarrow> hash option option" where
  "as_parent v =
     (case v of None \<Rightarrow> Some None | Some CbNull \<Rightarrow> Some None
      | Some (CbText s) \<Rightarrow> (case hash_from_str s of Inr h \<Rightarrow> Some (Some h) | Inl _ \<Rightarrow> None)
      | _ \<Rightarrow> None)"

definition as_details :: "cbor option \<Rightarrow> (str, audit_value) btree option" where
  "as_details v =
     (case v of None \<Rightarrow> Some []
      | Some (CbMap kvs) \<Rightarrow>
          map_option bt_of_list (those (map (\<lambda>(k, x). case (as_text k, value_of_cbor x) of
            (Some s, Some y) \<Rightarrow> Some (s, y) | _ \<Rightarrow> None) kvs))
      | _ \<Rightarrow> None)"

definition entry_of_cbor :: "cbor \<Rightarrow> audit_entry option" where
  "entry_of_cbor v =
     (case v of CbMap kvs \<Rightarrow>
        (case (Option.bind (cb_get kvs ''version'') as_u32, as_parent (cb_get kvs ''parent''),
               Option.bind (cb_get kvs ''at'') as_text, Option.bind (cb_get kvs ''tenant'') as_text,
               Option.bind (cb_get kvs ''event'') as_text,
               (case cb_get kvs ''actor'' of None \<Rightarrow> Some [] | Some x \<Rightarrow> as_text x),
               as_details (cb_get kvs ''details'')) of
           (Some n, Some p, Some a, Some t, Some ev, Some ac, Some d) \<Rightarrow>
             Some \<lparr>ae_version = n, ae_parent = p, ae_at = a, ae_tenant = t, ae_event = ev, ae_actor = ac, ae_details = d\<rparr>
         | _ \<Rightarrow> None)
      | _ \<Rightarrow> None)"

definition audit_encode :: "cbor_codec \<Rightarrow> audit_entry \<Rightarrow> bytes result" where
  "audit_encode C e = Ok (cbor_encode C (entry_to_cbor e))"

definition audit_decode :: "cbor_codec \<Rightarrow> bytes \<Rightarrow> audit_entry result" where
  "audit_decode C bs =
     bind_res (map_err (\<lambda>e. Internal (''audit cbor decode: '' @ e)) (cbor_decode C bs)) (\<lambda>v.
     ok_or (Internal ''audit cbor decode: invalid entry'') (entry_of_cbor v))"

section \<open>The chain\<close>

definition audit_append :: "ext \<Rightarrow> cbor_codec \<Rightarrow> audit_entry \<Rightarrow> hash op" where
  "audit_append E C e =
     bind_op (reads (\<lambda>s. read_ref s AUDIT_HEAD_REF)) (\<lambda>parent.
     bind_op (lift_res (audit_encode C (e\<lparr>ae_parent := parent\<rparr>))) (\<lambda>bs.
     bind_op (disk_put E (type_as_str Audit) bs) (\<lambda>h.
     bind_op (write_ref AUDIT_HEAD_REF h) (\<lambda>_. ret h))))"

definition get_entry :: "object_reader \<Rightarrow> hash \<Rightarrow> bytes result" where
  "get_entry r h =
     bind_res (get_obj r h) (\<lambda>v.
     bind_res (ok_or (NotFound (''audit entry '' @ hash_hex h)) v) (\<lambda>(ty, content).
     if ty \<noteq> type_as_str Audit then Err (Corrupt (''ref points at non-audit object '' @ hash_hex h))
     else Ok content))"

function read_chain_loop ::
  "cbor_codec \<Rightarrow> object_reader \<Rightarrow> nat \<Rightarrow> hash option \<Rightarrow> audit_entry list \<Rightarrow> audit_entry list result"
where
  "read_chain_loop C r limit None out = Ok out"
| "read_chain_loop C r limit (Some h) out =
     (if length out \<ge> limit then Ok out
      else bind_res (get_entry r h) (\<lambda>content.
        bind_res (audit_decode C content) (\<lambda>e.
        read_chain_loop C r limit (ae_parent e) (out @ [e]))))"
  by pat_completeness auto
termination
  by (relation "measure (\<lambda>(C, r, limit, nxt, out). limit - length out)") auto

definition read_chain :: "cbor_codec \<Rightarrow> object_reader \<Rightarrow> nat \<Rightarrow> audit_entry list result" where
  "read_chain C r limit =
     bind_res (get_ref r AUDIT_HEAD_REF) (\<lambda>nxt. read_chain_loop C r limit nxt [])"

partial_function (option) verified_loop ::
  "ext \<Rightarrow> cbor_codec \<Rightarrow> object_reader \<Rightarrow> nat \<Rightarrow> hash option \<Rightarrow> audit_entry list \<Rightarrow> bool \<Rightarrow>
   (audit_entry list \<times> bool) result option"
where
  "verified_loop E C r limit nxt out verified =
     (case nxt of None \<Rightarrow> Some (Ok (out, verified))
      | Some h \<Rightarrow>
          (case get_entry r h of Inl e \<Rightarrow> Some (Err e)
           | Inr content \<Rightarrow>
               (case audit_decode C content of Inl e \<Rightarrow> Some (Err e)
                | Inr e \<Rightarrow>
                    verified_loop E C r limit (ae_parent e)
                      (if length out < limit then out @ [e] else out)
                      (if hash_of E Audit content \<noteq> h then False else verified))))"

definition read_chain_verified ::
  "ext \<Rightarrow> cbor_codec \<Rightarrow> object_reader \<Rightarrow> nat \<Rightarrow> (audit_entry list \<times> bool) result option" where
  "read_chain_verified E C r limit =
     (case get_ref r AUDIT_HEAD_REF of Inl e \<Rightarrow> Some (Err e)
      | Inr nxt \<Rightarrow> verified_loop E C r limit nxt [] True)"

definition verify_chain :: "ext \<Rightarrow> cbor_codec \<Rightarrow> object_reader \<Rightarrow> bool result option" where
  "verify_chain E C r =
     map_option (\<lambda>v. bind_res v (\<lambda>(_, ok). Ok ok)) (read_chain_verified E C r U64_MAX)"

section \<open>Entries survive encoding\<close>

fun value_ok :: "audit_value \<Rightarrow> bool" where
  "value_ok (AVString s) = utf8_valid s"
| "value_ok (AVInt i) = (- (2 ^ 63) \<le> i \<and> i < 2 ^ 63)"
| "value_ok (AVList vs) = list_all value_ok vs"
| "value_ok _ = True"

text \<open>The entries a Rust value of the type can be: bounded integers, text, an ordered map.\<close>

definition entry_ok :: "audit_entry \<Rightarrow> bool" where
  "entry_ok e \<longleftrightarrow> ae_version e \<le> U32_MAX \<and> utf8_valid (ae_at e) \<and> utf8_valid (ae_tenant e) \<and>
     utf8_valid (ae_event e) \<and> utf8_valid (ae_actor e) \<and> bt_inv (ae_details e) \<and>
     list_all (\<lambda>(k, v). utf8_valid k \<and> value_ok v) (ae_details e)"

lemma value_to_cbor_plain: "value_ok v \<Longrightarrow> cbor_plain (value_to_cbor v)"
  by (induction v) (auto simp: list_all_iff)

lemma those_map_Some: "(\<And>x. x \<in> set xs \<Longrightarrow> f x = Some (g x)) \<Longrightarrow> those (map f xs) = Some (map g xs)"
  by (induction xs) simp_all

lemma value_of_to_cbor: "value_ok v \<Longrightarrow> value_of_cbor (value_to_cbor v) = Some v"
proof (induction v)
  case (AVList vs)
  then have "those (map (\<lambda>v. value_of_cbor (value_to_cbor v)) vs) = Some (map (\<lambda>v. v) vs)"
    by (intro those_map_Some) (auto simp: list_all_iff)
  then show ?case by (simp add: comp_def)
qed simp_all

lemma hash_hex_valid: "utf8_valid (hash_hex h)"
  by (rule utf8_valid_ascii) (auto simp: hash_hex_eq hex_ascii)

lemma entry_to_cbor_plain: "entry_ok e \<Longrightarrow> cbor_plain (entry_to_cbor e)"
  by (auto simp: entry_ok_def entry_to_cbor_def list_all_iff U32_MAX_def value_to_cbor_plain hash_hex_valid
      utf8_valid_ascii is_ascii_def split: option.splits)

lemma entry_of_to_cbor:
  assumes "entry_ok e" "\<And>h. ae_parent e = Some h \<Longrightarrow> hash_wf h"
  shows "entry_of_cbor (entry_to_cbor e) = Some e"
proof -
  have "those (map ((\<lambda>(k, x). case (as_text k, value_of_cbor x) of (Some s, Some y) \<Rightarrow> Some (s, y) | _ \<Rightarrow> None) \<circ>
      (\<lambda>(k, v). (CbText k, value_to_cbor v))) (ae_details e)) = Some (map (\<lambda>x. x) (ae_details e))"
    using assms(1) by (intro those_map_Some) (auto simp: as_text_def value_of_to_cbor entry_ok_def list_all_iff)
  moreover have "bt_of_list (ae_details e) = ae_details e"
    using assms(1) by (simp add: entry_ok_def bt_of_list_id)
  ultimately have details: "as_details (Some (CbMap (map (\<lambda>(k, v). (CbText k, value_to_cbor v)) (ae_details e)))) =
      Some (ae_details e)"
    by (simp add: as_details_def)
  have parent: "as_parent (Some (case ae_parent e of None \<Rightarrow> CbNull | Some h \<Rightarrow> CbText (hash_hex h))) = Some (ae_parent e)"
    using assms(2) by (auto simp: as_parent_def hash_from_str_hex split: option.splits)
  show ?thesis using assms(1) details parent
    by (simp add: entry_of_cbor_def entry_to_cbor_def cb_get_def as_u32_def as_text_def entry_ok_def)
qed

lemma audit_decode_encode:
  assumes "codec_ok C" "entry_ok e" "\<And>h. ae_parent e = Some h \<Longrightarrow> hash_wf h"
  shows "audit_decode C (cbor_encode C (entry_to_cbor e)) = Ok e"
  using assms entry_to_cbor_plain entry_of_to_cbor by (simp add: audit_decode_def codec_ok_def)

section \<open>Chains\<close>

inductive audit_chain :: "ext \<Rightarrow> cbor_codec \<Rightarrow> object_reader \<Rightarrow> hash option \<Rightarrow> audit_entry list \<Rightarrow> bool"
  for E C r
where
  chain_end: "audit_chain E C r None []"
| chain_link: "get_obj r h = Ok (Some (type_as_str Audit, content)) \<Longrightarrow> hash_of E Audit content = h \<Longrightarrow>
    audit_decode C content = Ok e \<Longrightarrow> audit_chain E C r (ae_parent e) es \<Longrightarrow> audit_chain E C r (Some h) (e # es)"

inductive_cases audit_chain_NoneE: "audit_chain E C r None es"
inductive_cases audit_chain_SomeE: "audit_chain E C r (Some h) es"

lemma get_entry_Ok: "get_entry r h = Ok content \<longleftrightarrow> get_obj r h = Ok (Some (type_as_str Audit, content))"
  by (auto simp: get_entry_def res_simps split: if_splits)

lemma verified_loop_chain:
  "audit_chain E C r nxt es \<Longrightarrow>
   verified_loop E C r limit nxt out v = Some (Ok (out @ take (limit - length out) es, v))"
proof (induction arbitrary: out rule: audit_chain.induct)
  case chain_end
  then show ?case by (simp add: verified_loop.simps)
next
  case (chain_link h content e es)
  have "get_entry r h = Ok content" using chain_link(1) by (simp add: get_entry_Ok)
  then show ?case using chain_link
    by (subst verified_loop.simps) (auto simp: take_Cons' not_less)
qed

lemma verified_loop_sound:
  assumes "verified_loop E C r limit nxt out v = Some res"
  shows "res = Ok (out', True) \<longrightarrow>
    v \<and> (\<exists>es. audit_chain E C r nxt es \<and> out' = out @ take (limit - length out) es)"
proof (rule verified_loop.raw_induct [where P = "\<lambda>E C r limit nxt out v res. res = Ok (out', True) \<longrightarrow>
    v \<and> (\<exists>es. audit_chain E C r nxt es \<and> out' = out @ take (limit - length out) es)", OF _ assms], rule impI)
  fix loop E C r limit nxt out v res
  assume IH: "\<And>E C r limit nxt out v res. loop E C r limit nxt out v = Some res \<Longrightarrow>
      res = Ok (out', True) \<longrightarrow> v \<and> (\<exists>es. audit_chain E C r nxt es \<and> out' = out @ take (limit - length out) es)"
    and body: "(case nxt of None \<Rightarrow> Some (Ok (out, v))
      | Some h \<Rightarrow> (case get_entry r h of Inl e \<Rightarrow> Some (Err e)
           | Inr content \<Rightarrow> (case audit_decode C content of Inl e \<Rightarrow> Some (Err e)
                | Inr e \<Rightarrow> loop E C r limit (ae_parent e) (if length out < limit then out @ [e] else out)
                      (if hash_of E Audit content \<noteq> h then False else v)))) = Some res"
    and res: "res = Ok (out', True)"
  show "v \<and> (\<exists>es. audit_chain E C r nxt es \<and> out' = out @ take (limit - length out) es)"
  proof (cases nxt)
    case None
    then show ?thesis using body res audit_chain.chain_end [of E C r] by (intro conjI exI [of _ "[]"]) simp_all
  next
    case (Some h)
    then obtain content e where ok: "get_entry r h = Ok content" "audit_decode C content = Ok e"
      "loop E C r limit (ae_parent e) (if length out < limit then out @ [e] else out)
         (if hash_of E Audit content \<noteq> h then False else v) = Some res"
      using body res by (auto split: sum.splits)
    from IH [OF ok(3)] res obtain es where es: "hash_of E Audit content = h" "v" "audit_chain E C r (ae_parent e) es"
      "out' = (if length out < limit then out @ [e] else out) @
         take (limit - length (if length out < limit then out @ [e] else out)) es"
      by (auto split: if_splits)
    have "audit_chain E C r (Some h) (e # es)"
      using ok(1) es(1) ok(2) es(3) by (intro audit_chain.chain_link) (simp_all add: get_entry_Ok)
    moreover have "out' = out @ take (limit - length out) (e # es)"
      using es(4) by (auto simp: take_Cons' not_less)
    ultimately show ?thesis using Some es(2) by blast
  qed
qed

lemma read_chain_verified_iff:
  assumes "get_ref r AUDIT_HEAD_REF = Ok nxt"
  shows "read_chain_verified E C r limit = Some (Ok (out, True)) \<longleftrightarrow>
    (\<exists>es. audit_chain E C r nxt es \<and> out = take limit es)"
  using verified_loop_sound [of E C r limit nxt "[]" True _ out] verified_loop_chain [of E C r nxt _ limit "[]" True] assms
  by (auto simp: read_chain_verified_def)

lemma read_chain_loop_chain:
  "audit_chain E C r nxt es \<Longrightarrow> read_chain_loop C r limit nxt out = Ok (out @ take (limit - length out) es)"
proof (induction arbitrary: out rule: audit_chain.induct)
  case (chain_link h content e es)
  have "get_entry r h = Ok content" using chain_link(1) by (simp add: get_entry_Ok)
  then show ?case using chain_link by (auto simp: take_Cons')
qed simp

text \<open>
  C40. The log shows tampering: of two stores with the same head, whatever their objects
  are, the entries are the same if both chains verify, unless two of the contents
  that were read are a collision of SHA-256.
\<close>

theorem audit_tamper_evident:
  assumes "get_ref r1 AUDIT_HEAD_REF = get_ref r2 AUDIT_HEAD_REF"
    and "read_chain_verified E C r1 limit = Some (Ok (es1, True))"
    and "read_chain_verified E C r2 limit = Some (Ok (es2, True))"
    and "inj_on (hash_of E Audit) {c. \<exists>h. get_obj r1 h = Ok (Some (type_as_str Audit, c)) \<or>
                                        get_obj r2 h = Ok (Some (type_as_str Audit, c))}"
  shows "es1 = es2"
proof -
  have unique: "audit_chain E C r1 nxt fs1 \<Longrightarrow> audit_chain E C r2 nxt fs2 \<Longrightarrow> fs1 = fs2" for nxt fs1 fs2
  proof (induction arbitrary: fs2 rule: audit_chain.induct)
    case chain_end
    then show ?case by (auto elim: audit_chain_NoneE)
  next
    case (chain_link h content e es)
    from chain_link.prems obtain content' e' es' where c': "fs2 = e' # es'"
      "get_obj r2 h = Ok (Some (type_as_str Audit, content'))" "hash_of E Audit content' = h"
      "audit_decode C content' = Ok e'" "audit_chain E C r2 (ae_parent e') es'"
      by (auto elim!: audit_chain_SomeE)
    have "content = content'"
      using inj_onD [OF assms(4), of content content'] chain_link.hyps(1,2) c'(2,3) by auto
    then show ?case using chain_link.hyps(3) chain_link.IH c' by auto
  qed
  obtain nxt where nxt: "get_ref r1 AUDIT_HEAD_REF = Ok nxt"
    using assms(2) by (auto simp: read_chain_verified_def split: sum.splits)
  then show ?thesis using assms(1-3) unique by (auto simp: read_chain_verified_iff)
qed

section \<open>Appending on disk\<close>

abbreviation audit_path :: "str list" where
  "audit_path \<equiv> [''refs'', ''audit'', ''HEAD'']"

lemma audit_ref_path: "ref_path AUDIT_HEAD_REF = Ok audit_path"
  by (simp add: ref_path_def ref_place_def path_join_def path_parts_def AUDIT_HEAD_REF_def starts_with_def)

text \<open>Nothing stands in the way of the reference, and it can be read.\<close>

definition audit_ready :: "disk \<Rightarrow> bool" where
  "audit_ready s \<longleftrightarrow> files s [''refs'', ''audit''] = None \<and> audit_path \<notin> dirs s \<and>
     (\<exists>nxt. read_ref s AUDIT_HEAD_REF = Ok nxt)"

definition audit_state :: "ext \<Rightarrow> cbor_codec \<Rightarrow> disk \<Rightarrow> audit_entry list \<Rightarrow> bool" where
  "audit_state E C s es \<longleftrightarrow>
     (\<exists>nxt. read_ref s AUDIT_HEAD_REF = Ok nxt \<and> audit_chain E C (disk_reader E s) nxt es)"

lemma audit_chain_mono:
  assumes "audit_chain E C r nxt es" "\<And>h x. get_obj r h = Ok (Some x) \<Longrightarrow> get_obj r' h = Ok (Some x)"
  shows "audit_chain E C r' nxt es"
  using assms(1)
proof induction
  case (chain_link h content e es)
  then show ?case using assms(2) by (intro audit_chain.chain_link [where content = content]) auto
qed (rule audit_chain.chain_end)

lemma disk_put_read_ref:
  assumes "disk_put E ty c s = (r, s')" "ref_path name = Ok p" "take 1 p = [''refs'']" "disk_ok E s" "disk_ok E s'"
  shows "read_ref s' name = read_ref s name"
proof (rule read_ref_cong [OF assms(2)])
  have p: "take 1 p \<noteq> [''objects'']" "p \<noteq> []" using assms(3) by auto
  show "files s' p = files s p" "p \<in> dirs s' \<longleftrightarrow> p \<in> dirs s" using disk_put_outside [OF assms(1) p] by simp_all
  fix q assume q: "prefix q (butlast p)"
  show "files s' q = files s q"
  proof (cases "q = []")
    case True
    then show ?thesis using assms(4,5) by (simp add: disk_ok_def fs_ok_def)
  next
    case False
    then have "take 1 q = [''refs'']" using q assms(3) by (cases q; cases p) (auto split: if_splits)
    then show ?thesis using disk_put_outside(1) [OF assms(1), of q] False by simp
  qed
qed

lemma audit_append_ok:
  assumes "disk_ok E s" "store_env E" "codec_ok C" "audit_ready s" "entry_ok e"
  shows "\<exists>h s' nxt. audit_append E C e s = (Ok h, s') \<and> disk_ok E s' \<and> audit_ready s' \<and> extends s s' \<and>
    read_ref s AUDIT_HEAD_REF = Ok nxt \<and>
    puts s' = frame Audit (cbor_encode C (entry_to_cbor (e\<lparr>ae_parent := nxt\<rparr>))) # puts s \<and>
    (\<forall>es. collision_free E s' \<longrightarrow> audit_state E C s es \<longrightarrow> audit_state E C s' (e\<lparr>ae_parent := nxt\<rparr> # es))"
proof -
  note env = store_envD [OF assms(2)]
  obtain nxt where nxt: "read_ref s AUDIT_HEAD_REF = Ok nxt"
    using assms(4) by (auto simp: audit_ready_def)
  let ?e = "e\<lparr>ae_parent := nxt\<rparr>"
  let ?b = "cbor_encode C (entry_to_cbor ?e)"
  let ?h = "hash_of E Audit ?b"
  obtain s1 where s1: "disk_put E (type_as_str Audit) ?b s = (Ok ?h, s1)" "disk_ok E s1" "puts s1 = frame Audit ?b # puts s"
    using disk_put_ok [OF assms(1) env, of Audit ?b] by blast
  have out: "files s1 p = files s p" "p \<in> dirs s1 \<longleftrightarrow> p \<in> dirs s" if "take 1 p = [''refs'']" for p
    using disk_put_outside [OF s1(1), of p] that by (cases p; simp)+
  have ready: "files s1 [''refs'', ''audit''] = None" "audit_path \<notin> dirs s1"
    using assms(4) out by (simp_all add: audit_ready_def)
  have parents: "files s1 [] = None" "files s1 [''refs''] = None"
    using s1(2) by (auto simp: disk_ok_def fs_ok_def)
  then obtain s2 where s2: "write_ref AUDIT_HEAD_REF ?h s1 = (Ok (), s2)"
    using ready by (simp add: write_ref_def audit_ref_path bind_op_def create_dir_def write_atomic_def)
  have p: "audit_path \<noteq> []" "take 1 audit_path \<noteq> [''objects'']" by simp_all
  note w = write_ref_ok [OF s1(2) audit_ref_path p s2]
  have run: "audit_append E C e s = (Ok ?h, s2)"
    using nxt s1(1) s2 by (simp add: audit_append_def bind_op_def audit_encode_def)
  have ext: "extends s s2" using s1(3) w(4) by (simp add: extends_put)
  have wf: "hash_wf ?h" using env(1) by (simp add: hash_of_def hash_of_bytes_def hash_wf_def sha_okD)
  have head: "read_ref s2 AUDIT_HEAD_REF = Ok (Some ?h)"
  proof (rule read_ref_written [OF _ audit_ref_path wf w(5)])
    show "fs_ok s2" using w(1) by (simp add: disk_ok_def)
    show "butlast audit_path \<in> dirs s2" by (simp add: w(3))
    show "files s2 audit_path = Some (hash_hex ?h @ [LF])" by (simp add: w(2))
  qed
  then have "audit_ready s2" using w(2,5) ready by (simp add: audit_ready_def)
  moreover have "audit_state E C s2 (?e # es)" if cf: "collision_free E s2" and st: "audit_state E C s es" for es
  proof -
    have chain: "audit_chain E C (disk_reader E s) nxt es" using st nxt by (auto simp: audit_state_def)
    have get: "disk_get E s2 ?h = Ok (Some (type_as_str Audit, ?b))"
      using disk_get_stored [OF w(1) env(1) cf] s1(3) w(4) by simp
    have dec: "audit_decode C ?b = Ok ?e"
    proof (rule audit_decode_encode [OF assms(3)])
      show "entry_ok ?e" using assms(5) by (simp add: entry_ok_def)
      show "hash_wf h" if "ae_parent ?e = Some h" for h using that nxt read_ref_wf by simp
    qed
    have "audit_chain E C (disk_reader E s2) nxt es"
    proof (rule audit_chain_mono [OF chain])
      fix h x assume "get_obj (disk_reader E s) h = Ok (Some x)"
      then show "get_obj (disk_reader E s2) h = Ok (Some x)"
        using disk_get_later [OF assms(1) w(1) env(1) cf ext] by (simp add: disk_reader_def)
    qed
    then have "audit_chain E C (disk_reader E s2) (Some ?h) (?e # es)"
      using get dec by (intro audit_chain.chain_link [where content = ?b]) (simp_all add: disk_reader_def)
    then show ?thesis using head by (auto simp: audit_state_def)
  qed
  moreover have "puts s2 = frame Audit ?b # puts s" using s1(3) w(4) by simp
  ultimately show ?thesis using run w(1) ext nxt by blast
qed

fun audit_appends :: "ext \<Rightarrow> cbor_codec \<Rightarrow> audit_entry list \<Rightarrow> unit op" where
  "audit_appends E C [] = ret ()"
| "audit_appends E C (e # es) = bind_op (audit_append E C e) (\<lambda>_. audit_appends E C es)"

definition unlinked :: "audit_entry \<Rightarrow> audit_entry" where
  "unlinked e = e\<lparr>ae_parent := None\<rparr>"

lemma audit_appends_ok:
  assumes "store_env E" "codec_ok C" "disk_ok E s" "audit_ready s" "list_all entry_ok es"
  shows "\<exists>s'. audit_appends E C es s = (Ok (), s') \<and> disk_ok E s' \<and> extends s s' \<and>
    (\<forall>fs. collision_free E s' \<longrightarrow> audit_state E C s fs \<longrightarrow>
       (\<exists>es'. audit_state E C s' (es' @ fs) \<and> map unlinked es' = rev (map unlinked es)))"
  using assms(3-)
proof (induction es arbitrary: s)
  case (Cons e es)
  obtain h s1 nxt where s1: "audit_append E C e s = (Ok h, s1)" "disk_ok E s1" "audit_ready s1" "extends s s1"
    "\<forall>fs. collision_free E s1 \<longrightarrow> audit_state E C s fs \<longrightarrow> audit_state E C s1 (e\<lparr>ae_parent := nxt\<rparr> # fs)"
    using audit_append_ok [OF Cons.prems(1) assms(1,2) Cons.prems(2), of e] Cons.prems(3) by (auto simp del: imp_disjL)
  obtain s2 where s2: "audit_appends E C es s1 = (Ok (), s2)" "disk_ok E s2" "extends s1 s2"
    "\<forall>fs. collision_free E s2 \<longrightarrow> audit_state E C s1 fs \<longrightarrow>
       (\<exists>es'. audit_state E C s2 (es' @ fs) \<and> map unlinked es' = rev (map unlinked es))"
    using Cons.IH [OF s1(2,3)] Cons.prems(3) by auto
  have "\<exists>es'. audit_state E C s2 (es' @ fs) \<and> map unlinked es' = rev (map unlinked (e # es))"
    if cf: "collision_free E s2" and st: "audit_state E C s fs" for fs
  proof -
    have "audit_state E C s1 (e\<lparr>ae_parent := nxt\<rparr> # fs)"
      using s1(5) cf st collision_free_mono [OF s2(3)] by blast
    then obtain es' where "audit_state E C s2 (es' @ e\<lparr>ae_parent := nxt\<rparr> # fs)" "map unlinked es' = rev (map unlinked es)"
      using s2(4) cf by blast
    then show ?thesis by (intro exI [of _ "es' @ [e\<lparr>ae_parent := nxt\<rparr>]"]) (simp add: unlinked_def)
  qed
  then show ?case using s1(1,4) s2 extends_trans by (auto simp: bind_op_def)
next
  case Nil
  then show ?case by (auto intro: exI [of _ "[]"])
qed

lemma read_chain_state:
  assumes "audit_state E C s es"
  shows "read_chain_verified E C (disk_reader E s) limit = Some (Ok (take limit es, True))"
    "read_chain C (disk_reader E s) limit = Ok (take limit es)"
  using assms read_chain_verified_iff [of "disk_reader E s"] read_chain_loop_chain [of E C "disk_reader E s" _ es limit "[]"]
  by (auto simp: audit_state_def disk_reader_def read_chain_def)

text \<open>
  C39. The log is complete: entries that are appended one after the other to a store
  without a log are all there afterwards, newest first, with nothing in between, and the
  chain verifies; a limit cuts off the oldest. The walk over the chain returns.
\<close>

theorem audit_log_complete:
  assumes "disk_ok E s" "store_env E" "codec_ok C" "audit_ready s" "read_ref s AUDIT_HEAD_REF = Ok None"
    and "list_all entry_ok es" "audit_appends E C es s = (r, s')" "collision_free E s'"
  shows "r = Ok () \<and> disk_ok E s' \<and> verify_chain E C (disk_reader E s') = Some (Ok True) \<and>
    (\<exists>es'. map unlinked es' = rev (map unlinked es) \<and>
       read_chain_verified E C (disk_reader E s') limit = Some (Ok (take limit es', True)) \<and>
       read_chain C (disk_reader E s') limit = Ok (take limit es'))"
proof -
  have "audit_state E C s []" using assms(5) audit_chain.chain_end by (auto simp: audit_state_def)
  then obtain es' where es': "r = Ok ()" "disk_ok E s'" "audit_state E C s' es'" "map unlinked es' = rev (map unlinked es)"
    using audit_appends_ok [OF assms(2,3,1,4,6)] assms(7,8) by fastforce
  then show ?thesis using read_chain_state [OF es'(3)] by (auto simp: verify_chain_def)
qed

definition sample_entry :: audit_entry where
  "sample_entry = entry_new ''2024'' ''alice'' ''commit.created'' ''token''"

text \<open>A codec that gives the sample a short form.\<close>

definition sample_codec :: cbor_codec where
  "sample_codec = \<lparr>
     cbor_encode = (\<lambda>v. if v = entry_to_cbor sample_entry then [] else replicate (Suc (to_nat v)) NUL),
     cbor_decode = (\<lambda>b. Inr (case b of [] \<Rightarrow> entry_to_cbor sample_entry | _ # b' \<Rightarrow> from_nat (length b')))\<rparr>"

lemma sample_codec_ok: "codec_ok sample_codec"
  by (simp add: codec_ok_def sample_codec_def)

lemma fresh_head: "read_ref fresh_disk AUDIT_HEAD_REF = Ok None"
  by (simp add: read_ref_def audit_ref_path read_to_string_def read_file_def fresh_disk_def disk_init_def bind_op_def
      create_dir_def write_atomic_def path_exists_def empty_disk_def)

lemma fresh_ready: "audit_ready fresh_disk"
  using fresh_head
  by (simp add: audit_ready_def fresh_disk_def disk_init_def bind_op_def
      create_dir_def write_atomic_def path_exists_def empty_disk_def)

lemma sample_entry_ok: "entry_ok sample_entry"
  by (simp add: entry_ok_def sample_entry_def entry_new_def U32_MAX_def is_ascii_def)

lemma sample_append:
  obtains s' where "audit_appends toy_ext sample_codec [sample_entry] fresh_disk = (Ok (), s')" "collision_free toy_ext s'"
proof -
  obtain h s1 where s1: "audit_append toy_ext sample_codec sample_entry fresh_disk = (Ok h, s1)"
    "puts s1 = [frame Audit (cbor_encode sample_codec (entry_to_cbor (sample_entry\<lparr>ae_parent := None\<rparr>)))]"
    using audit_append_ok [OF fresh_disk_ok(1) toy_store_env sample_codec_ok fresh_ready sample_entry_ok] fresh_head
    by auto
  have "sample_entry\<lparr>ae_parent := None\<rparr> = sample_entry" by (simp add: sample_entry_def entry_new_def)
  then have "collision_free toy_ext s1"
    using s1(2) by (simp add: collision_free_def sample_codec_def frame_def show_nat.simps U64_MAX_def)
  then show thesis using s1(1) that by (simp add: bind_op_def)
qed

theorem audit_log_complete_witness:
  "\<exists>s'. audit_appends toy_ext sample_codec [sample_entry] fresh_disk = (Ok (), s') \<and>
     verify_chain toy_ext sample_codec (disk_reader toy_ext s') = Some (Ok True)"
proof -
  obtain s' where s': "audit_appends toy_ext sample_codec [sample_entry] fresh_disk = (Ok (), s')" "collision_free toy_ext s'"
    by (rule sample_append)
  have "list_all entry_ok [sample_entry]" using sample_entry_ok by simp
  from audit_log_complete [OF fresh_disk_ok(1) toy_store_env sample_codec_ok fresh_ready fresh_head this s']
  show ?thesis using s' by blast
qed

text \<open>Two stores that hold the sample at the head of the chain and differ elsewhere.\<close>

definition one_entry :: "bytes \<Rightarrow> object_reader" where
  "one_entry other =
     \<lparr>get_obj = (\<lambda>h. if h = hash_of toy_ext Audit [] then Ok (Some (type_as_str Audit, []))
                     else Ok (Some (type_as_str Blob, other))),
      get_ref = (\<lambda>_. Ok (Some (hash_of toy_ext Audit []))), get_head = Ok []\<rparr>"

lemma one_entry_verified: "read_chain_verified toy_ext sample_codec (one_entry b) 1 = Some (Ok ([sample_entry], True))"
proof -
  have dec: "audit_decode sample_codec [] = Ok sample_entry"
    using entry_of_to_cbor [OF sample_entry_ok]
    by (simp add: audit_decode_def sample_codec_def sample_entry_def entry_new_def)
  have "audit_chain toy_ext sample_codec (one_entry b) (Some (hash_of toy_ext Audit [])) [sample_entry]"
  proof (rule audit_chain.chain_link [OF _ refl dec])
    show "audit_chain toy_ext sample_codec (one_entry b) (ae_parent sample_entry) []"
      using audit_chain.chain_end by (simp add: sample_entry_def entry_new_def)
  qed (simp add: one_entry_def)
  then show ?thesis
    using read_chain_verified_iff [of "one_entry b" "Some (hash_of toy_ext Audit [])"] by (force simp: one_entry_def)
qed

theorem audit_tamper_evident_witness:
  "\<exists>es1 es2. read_chain_verified toy_ext sample_codec (one_entry ''x'') 1 = Some (Ok (es1, True)) \<and>
     read_chain_verified toy_ext sample_codec (one_entry ''y'') 1 = Some (Ok (es2, True)) \<and> es1 = es2"
proof -
  obtain es1 es2 where es: "read_chain_verified toy_ext sample_codec (one_entry ''x'') 1 = Some (Ok (es1, True))"
    "read_chain_verified toy_ext sample_codec (one_entry ''y'') 1 = Some (Ok (es2, True))"
    using one_entry_verified by blast
  have "es1 = es2"
    by (rule audit_tamper_evident [OF _ es]) (auto simp: one_entry_def inj_on_def split: if_splits)
  then show ?thesis using es by blast
qed

end
