(* ===== verification/Omp_Json.thy ===== *)
theory Omp_Json
  imports Omp_Probe Omp_Paging Omp_Audit Omp_Reprobe "HOL-Library.Countable"
begin

text \<open>
  JSON as \<open>crates/omp-server/src/routes.rs\<close> uses it: the values of \<open>serde_json\<close> (an object is
  an ordered map, a number an integer or a finite float), the values that the derived
  \<open>Serialize\<close> instances make of the answers of the library, the views that leave hashes out,
  and \<open>json_to_field\<close>, which reads fields back. The text of a value is \<open>serde_json\<close>'s, a parameter.
\<close>

datatype jvalue =
    JNull
  | JBool bool
  | JInt int
  | JFloat f64
  | JString str
  | JArray "jvalue list"
  | JObject "(str \<times> jvalue) list"

definition jobj :: "(str \<times> jvalue) list \<Rightarrow> jvalue" where
  "jobj kvs = JObject (bt_of_list kvs)"

definition jopt :: "('a \<Rightarrow> jvalue) \<Rightarrow> 'a option \<Rightarrow> jvalue" where
  "jopt f x = (case x of Some y \<Rightarrow> f y | None \<Rightarrow> JNull)"

definition jhash :: "hash \<Rightarrow> jvalue" where
  "jhash h = JString (hash_hex h)"

section \<open>What the server answers\<close>

text \<open>\<open>#[serde(untagged)]\<close>: the bare value; \<open>serde_json\<close> writes a float that is not finite as null.\<close>

fun field_json :: "field_value \<Rightarrow> jvalue" where
  "field_json FNull = JNull"
| "field_json (FString s) = JString s"
| "field_json (FInt i) = JInt i"
| "field_json (FFloat f) = (if is_finite f then JFloat f else JNull)"
| "field_json (FBool b) = JBool b"
| "field_json (FDatetime s) = JString s"
| "field_json (FList vs) = JArray (map field_json vs)"
| "field_json (FObject m) = JObject (map (\<lambda>(k, v). (k, field_json v)) m)"

definition fields_json :: "(str, field_value) btree \<Rightarrow> jvalue" where
  "fields_json m = JObject (map (\<lambda>(k, v). (k, field_json v)) m)"

definition manifest_json :: "manifest \<Rightarrow> jvalue" where
  "manifest_json m = jobj
     [(''source_hash'', jhash (m_source_hash m)), (''file_type'', JString (m_file_type m)),
      (''schema_hash'', jhash (m_schema_hash m)), (''ingested_at'', JString (m_ingested_at m)),
      (''ingester_version'', JString (m_ingester_version m)),
      (''probe_hashes'', JObject (map (\<lambda>(k, h). (k, jhash h)) (m_probe_hashes m))),
      (''fields'', fields_json (m_fields m))]"

fun add_json :: "add_result \<Rightarrow> jvalue" where
  "add_json (AddManifest p mh sh) = jobj
     [(''kind'', JString ''manifest''), (''path'', JString p), (''manifest_hash'', jhash mh), (''source_hash'', jhash sh)]"
| "add_json (AddBlob p h n) = jobj
     [(''kind'', JString ''blob''), (''path'', JString p), (''blob_hash'', jhash h), (''size'', JInt (int n))]"

fun render_kind_name :: "render_kind \<Rightarrow> str" where
  "render_kind_name RText = ''text''"
| "render_kind_name RHex = ''hex''"
| "render_kind_name RImage = ''image''"
| "render_kind_name RMarkdown = ''markdown''"
| "render_kind_name RBinary = ''binary''"
| "render_kind_name RNone = ''none''"

definition render_json :: "render_hint \<Rightarrow> jvalue" where
  "render_json r = jobj ((''kind'', JString (render_kind_name (render_kind_of r))) #
     (case max_inline_bytes r of Some n \<Rightarrow> [(''max_inline_bytes'', JInt (int n))] | None \<Rightarrow> []))"

definition tree_entry_json :: "tree_entry_out \<Rightarrow> jvalue" where
  "tree_entry_json e = jobj
     [(''name'', JString (te_name e)), (''mode'', JString (te_mode e)), (''hash'', jhash (te_hash e))]"

definition listing_json :: "file_listing \<Rightarrow> jvalue" where
  "listing_json l = jobj
     [(''path'', JString (fl_path l)), (''manifest_hash'', jhash (fl_manifest_hash l)),
      (''source_hash'', jhash (fl_source_hash l)), (''file_type'', JString (fl_file_type l))]"

definition branch_json :: "branch_info \<Rightarrow> jvalue" where
  "branch_json b = jobj
     [(''name'', JString (bi_name b)), (''head'', jopt jhash (bi_head b)), (''is_current'', JBool (bi_is_current b))]"

definition change_json :: "staged_change \<Rightarrow> jvalue" where
  "change_json c = jobj
     [(''path'', JString (sc_path c)),
      (''kind'', JString (case sc_kind c of Upsert \<Rightarrow> ''upsert'' | Delete \<Rightarrow> ''delete'')),
      (''hash'', jopt jhash (sc_hash c))]"

definition status_json :: "repo_status \<Rightarrow> jvalue" where
  "status_json r = jobj
     [(''branch'', jopt JString (rs_branch r)), (''head'', jopt jhash (rs_head r)),
      (''staged'', JArray (map change_json (rs_staged r)))]"

definition commit_json :: "commit_view \<Rightarrow> jvalue" where
  "commit_json c = jobj
     [(''hash'', jhash (cv_hash c)), (''tree'', jhash (cv_tree c)), (''parents'', JArray (map jhash (cv_parents c))),
      (''author'', JString (cv_author c)), (''email'', JString (cv_email c)),
      (''timestamp'', JString (cv_timestamp c)), (''message'', JString (cv_message c))]"

definition diff_json :: "diff_entry \<Rightarrow> jvalue" where
  "diff_json d = jobj
     [(''path'', JString (de_path d)),
      (''status'', JString (case de_status d of Added \<Rightarrow> ''added'' | Removed \<Rightarrow> ''removed''
         | Modified \<Rightarrow> ''modified'' | Unchanged \<Rightarrow> ''unchanged'')),
      (''before'', jopt jhash (de_before d)), (''after'', jopt jhash (de_after d))]"

text \<open>The message about a skipped file is an argument.\<close>

definition summary_json :: "(skip_reason \<Rightarrow> str) \<Rightarrow> reprobe_summary \<Rightarrow> jvalue" where
  "summary_json msg r = jobj
     [(''file_type'', JString (rp_file_type r)), (''count'', JInt (int (rp_count r))),
      (''skipped'', JArray (map (\<lambda>k. jobj [(''path'', JString (rk_path k)), (''reason'', JString (msg (rk_reason k)))])
         (rp_skipped r)))]"

definition match_json :: "query_match \<Rightarrow> jvalue" where
  "match_json q = jobj
     [(''path'', JString (qm_path q)), (''manifest_hash'', jhash (qm_manifest_hash q)),
      (''source_hash'', jhash (qm_source_hash q)), (''file_type'', JString (qm_file_type q)),
      (''fields'', fields_json (qm_fields q))]"

definition query_json :: "query_result \<Rightarrow> jvalue" where
  "query_json r = jobj
     [(''matches'', JArray (map match_json (qr_matches r))), (''next_cursor'', jopt JString (qr_next_cursor r))]"

definition field_summary_json :: "field_summary \<Rightarrow> jvalue" where
  "field_summary_json f = jobj
     ([(''name'', JString (fs_name f)), (''type'', JString (fs_type f)), (''required'', JBool (fs_required f)),
       (''source'', JString (fs_source f))] @
      (case fs_description f of Some d \<Rightarrow> [(''description'', JString d)] | None \<Rightarrow> []) @
      (case fs_probe f of Some p \<Rightarrow> [(''probe'', JString p)] | None \<Rightarrow> []))"

definition schema_json :: "schema_summary \<Rightarrow> jvalue" where
  "schema_json s = jobj
     [(''file_type'', JString (ss_file_type s)), (''mime_patterns'', JArray (map JString (ss_mime_patterns s))),
      (''fields'', JArray (map field_summary_json (ss_fields s)))]"

fun audit_value_json :: "audit_value \<Rightarrow> jvalue" where
  "audit_value_json AVNull = JNull"
| "audit_value_json (AVString s) = JString s"
| "audit_value_json (AVInt i) = JInt i"
| "audit_value_json (AVBool b) = JBool b"
| "audit_value_json (AVList vs) = JArray (map audit_value_json vs)"

definition audit_json :: "audit_entry \<Rightarrow> jvalue" where
  "audit_json e = jobj
     [(''version'', JInt (int (ae_version e))), (''parent'', jopt jhash (ae_parent e)), (''at'', JString (ae_at e)),
      (''tenant'', JString (ae_tenant e)), (''event'', JString (ae_event e)), (''actor'', JString (ae_actor e)),
      (''details'', JObject (map (\<lambda>(k, v). (k, audit_value_json v)) (ae_details e)))]"

definition upload_json :: "upload_handle \<Rightarrow> jvalue" where
  "upload_json u = jobj [(''upload_id'', JString (upload_id u)), (''chunk_size_bytes'', JInt (int (uh_chunk_size u)))]"

section \<open>Views without hashes\<close>

definition strip_keys :: "str list \<Rightarrow> jvalue \<Rightarrow> jvalue" where
  "strip_keys keys v = (case v of JObject m \<Rightarrow> JObject (foldl (\<lambda>m k. bt_remove k m) m keys) | _ \<Rightarrow> v)"

definition strip_items :: "str list \<Rightarrow> jvalue \<Rightarrow> jvalue" where
  "strip_items keys v = (case v of JArray vs \<Rightarrow> JArray (map (strip_keys keys) vs) | _ \<Rightarrow> v)"

definition compact_manifest :: "jvalue \<Rightarrow> jvalue" where
  "compact_manifest = strip_keys [''source_hash'', ''schema_hash'', ''probe_hashes'', ''ingester_version'']"

definition compact_tree_entries :: "jvalue \<Rightarrow> jvalue" where
  "compact_tree_entries = strip_items [''hash'']"

definition compact_file_list :: "jvalue \<Rightarrow> jvalue" where
  "compact_file_list = strip_items [''manifest_hash'', ''source_hash'']"

definition compact_commit_list :: "jvalue \<Rightarrow> jvalue" where
  "compact_commit_list = strip_items [''tree'', ''parents'']"

section \<open>Fields from requests\<close>

text \<open>\<open>as_i64\<close> answers when the integer fits; a larger one has \<open>as_f64\<close>.\<close>

fun json_to_field :: "jvalue \<Rightarrow> field_value" where
  "json_to_field JNull = FNull"
| "json_to_field (JBool b) = FBool b"
| "json_to_field (JInt i) = (if in_i64 i then FInt i else FFloat (f64_of_int i))"
| "json_to_field (JFloat f) = FFloat f"
| "json_to_field (JString s) = FString s"
| "json_to_field (JArray vs) = FList (map json_to_field vs)"
| "json_to_field (JObject m) = FObject (bt_of_list (map (\<lambda>(k, v). (k, json_to_field v)) m))"

definition parse_scalar :: "ext \<Rightarrow> str \<Rightarrow> field_value" where
  "parse_scalar E v =
     (case parse_sint 64 v of Some i \<Rightarrow> FInt i
      | None \<Rightarrow> (case parse_f64 E v of Some f \<Rightarrow> FFloat f
          | None \<Rightarrow> if v = ''true'' then FBool True else if v = ''false'' then FBool False else FString v))"

definition patch_updates :: "(str \<times> jvalue) list \<Rightarrow> (str, field_value) btree" where
  "patch_updates body = bt_of_list (map (\<lambda>(k, v). (k, json_to_field v)) body)"

text \<open>
  Writing a value as text and reading it is \<open>serde_json\<close>'s work, a parameter, and so is the step
  of a request body from its bytes to a value.
\<close>

record json_lib =
  js_show :: "jvalue \<Rightarrow> bytes"
  js_read :: "bytes \<Rightarrow> jvalue option"

text \<open>The body of \<open>PATCH /files\<close>: a JSON object, each member of which is a field.\<close>

definition read_patch :: "json_lib \<Rightarrow> bytes \<Rightarrow> (str, field_value) btree option" where
  "read_patch J body = (case js_read J body of Some (JObject m) \<Rightarrow> Some (patch_updates m) | _ \<Rightarrow> None)"

section \<open>What survives\<close>

text \<open>
  What \<open>serde_json\<close> promises: a value with text in UTF-8, integers of 64 bits, ordered objects, no
  floats and less than 128 levels is read as it was written. Of floats it promises it only with the
  feature \<open>float_roundtrip\<close>, which the workspace does not enable.
\<close>

fun json_plain :: "jvalue \<Rightarrow> bool" where
  "json_plain (JInt i) = (- (2 ^ 63) \<le> i \<and> i < 2 ^ 64)"
| "json_plain (JFloat f) = False"
| "json_plain (JString s) = utf8_valid s"
| "json_plain (JArray vs) = list_all json_plain vs"
| "json_plain (JObject m) = (bt_inv m \<and> list_all (\<lambda>(k, v). utf8_valid k \<and> json_plain v) m)"
| "json_plain _ = True"

fun json_depth :: "jvalue \<Rightarrow> nat" where
  "json_depth (JArray vs) = Suc (fold max (map json_depth vs) 0)"
| "json_depth (JObject m) = Suc (fold max (map (\<lambda>(k, v). json_depth v) m) 0)"
| "json_depth _ = 0"

definition json_lib_ok :: "json_lib \<Rightarrow> bool" where
  "json_lib_ok J \<longleftrightarrow> (\<forall>v. json_plain v \<and> json_depth v < 128 \<longrightarrow> js_read J (js_show J v) = Some v)"

lemma json_to_field_shown:
  "field_plain v \<Longrightarrow> json_to_field (field_json v) = undate v"
proof (induction v rule: field_json.induct)
  case (7 vs)
  then show ?case by (auto simp: list_all_iff)
next
  case (8 m)
  let ?m = "map (\<lambda>(k, v). (k, undate v)) m"
  have each: "map (\<lambda>(k, v). (k, json_to_field v)) (map (\<lambda>(k, v). (k, field_json v)) m) = ?m"
    using 8 by (fastforce simp: list_all_iff)
  have "bt_inv ?m" using 8(2) by (simp add: bt_inv_def comp_def case_prod_beta)
  then have "bt_of_list ?m = ?m" by (rule bt_of_list_id)
  then show ?case by (simp only: field_json.simps json_to_field.simps undate.simps each)
qed auto

lemma field_json_plain: "field_plain v \<Longrightarrow> json_plain (field_json v)"
proof (induction v rule: field_json.induct)
  case (8 m)
  then have "bt_inv (map (\<lambda>(k, v). (k, field_json v)) m)" by (simp add: bt_inv_def comp_def case_prod_beta)
  then show ?case using 8 by (fastforce simp: list_all_iff)
qed (auto simp: list_all_iff in_i64_def)

lemma max_bound: "x \<in> set xs \<Longrightarrow> x \<le> fold max xs (a :: nat)" "a \<le> fold max xs a"
proof (induction xs arbitrary: a)
  case (Cons y ys)
  { case 1 then show ?case using Cons(1) Cons(2) [of "max y a"] by (auto intro: order_trans) }
  { case 2 show ?case using Cons(2) [of "max y a"] by simp }
qed simp_all

definition manifest_plain :: "manifest \<Rightarrow> bool" where
  "manifest_plain m \<longleftrightarrow> field_plain (FObject (m_fields m)) \<and> bt_inv (m_probe_hashes m) \<and>
     list_all (\<lambda>(k, h). utf8_valid k) (m_probe_hashes m) \<and>
     utf8_valid (m_file_type m) \<and> utf8_valid (m_ingested_at m) \<and> utf8_valid (m_ingester_version m)"

lemma jobj_plain:
  assumes "list_all (\<lambda>(k, v). utf8_valid k \<and> json_plain v) kvs"
  shows "json_plain (jobj kvs)"
proof -
  have "set (bt_of_list kvs) \<subseteq> set kvs"
  proof -
    have "set (foldl (\<lambda>m (k, v). bt_insert k v m) acc kvs) \<subseteq> set acc \<union> set kvs" for acc
    proof (induction kvs arbitrary: acc)
      case (Cons kv kvs)
      then show ?case using bt_set_insert [of "fst kv" "snd kv" acc] by (fastforce simp: case_prod_beta)
    qed simp
    from this [of "[]"] show ?thesis by (simp add: bt_of_list_def)
  qed
  then show ?thesis using assms by (auto simp: jobj_def list_all_iff)
qed

lemma jhash_plain: "json_plain (jhash h)"
  using hex_ascii by (auto simp: jhash_def hash_hex_eq intro: utf8_valid_ascii)

lemma fields_json_plain: "field_plain (FObject m) \<Longrightarrow> json_plain (fields_json m)"
  using field_json_plain [of "FObject m"] by (simp add: fields_json_def)

lemma manifest_json_plain:
  assumes "manifest_plain m"
  shows "json_plain (manifest_json m)"
  unfolding manifest_json_def
proof (rule jobj_plain)
  have "bt_inv (map (\<lambda>(k, h). (k, jhash h)) (m_probe_hashes m))"
    using assms by (simp add: manifest_plain_def bt_inv_def comp_def case_prod_beta)
  then have "json_plain (JObject (map (\<lambda>(k, h). (k, jhash h)) (m_probe_hashes m)))"
    using assms jhash_plain by (auto simp: manifest_plain_def list_all_iff)
  moreover have "json_plain (fields_json (m_fields m))" using assms by (intro fields_json_plain) (simp only: manifest_plain_def)
  moreover have "\<forall>k \<in> {''source_hash'', ''file_type'', ''schema_hash'', ''ingested_at'', ''ingester_version'', ''probe_hashes'', ''fields''}.
      utf8_valid k" by (auto simp: utf8_valid_ascii is_ascii_def)
  ultimately show "list_all (\<lambda>(k, v). utf8_valid k \<and> json_plain v)
     [(''source_hash'', jhash (m_source_hash m)), (''file_type'', JString (m_file_type m)),
      (''schema_hash'', jhash (m_schema_hash m)), (''ingested_at'', JString (m_ingested_at m)),
      (''ingester_version'', JString (m_ingester_version m)),
      (''probe_hashes'', JObject (map (\<lambda>(k, h). (k, jhash h)) (m_probe_hashes m))),
      (''fields'', fields_json (m_fields m))]"
    using assms jhash_plain by (simp del: json_plain.simps(5)) (simp add: manifest_plain_def)
qed

lemma member_depth:
  assumes "bt_inv m" "bt_get m k = Some v"
  shows "json_depth v < json_depth (JObject m)"
proof -
  have "(k, v) \<in> set m" using assms by (simp add: bt_get_iff)
  then have "json_depth v \<in> set (map (\<lambda>(k, v). json_depth v) m)" by force
  from max_bound(1) [OF this, of 0] show ?thesis by simp
qed

text \<open>
  C35. Fields survive the trip to a client and back, as text. When a client reads the manifest
  that the server shows and sends its \<open>fields\<close> back as the body of a patch, the patch has every field
  with the value it had (strings in UTF-8, integers of 64 bits, booleans, nulls, lists and
  ordered objects, fewer than 128 levels), except that JSON has no datetimes and each arrives as its string. Floats
  are left out: read by \<open>serde_json\<close> without \<open>float_roundtrip\<close> they need not be the same.
\<close>

theorem shown_fields_patch_back:
  assumes "json_lib_ok J" "manifest_plain m" "json_depth (manifest_json m) < 128"
  shows "\<exists>shown sent. js_read J (js_show J (manifest_json m)) = Some (JObject shown) \<and> bt_get shown ''fields'' = Some sent \<and>
    read_patch J (js_show J sent) = Some (map (\<lambda>(k, v). (k, undate v)) (m_fields m))"
proof -
  obtain shown where shown: "manifest_json m = JObject shown" "bt_inv shown" by (simp add: manifest_json_def jobj_def)
  have get: "bt_get shown ''fields'' = Some (fields_json (m_fields m))"
    using shown(1) by (auto simp: manifest_json_def jobj_def bt_get_of_list)
  have whole: "js_read J (js_show J (manifest_json m)) = Some (JObject shown)"
    using assms(1,3) manifest_json_plain [OF assms(2)] shown(1) by (simp add: json_lib_ok_def)
  have plain: "field_plain (FObject (m_fields m))" using assms(2) by (simp only: manifest_plain_def)
  have "json_depth (fields_json (m_fields m)) < 128"
    using member_depth [OF shown(2) get] assms(3) shown(1) by simp
  then have "js_read J (js_show J (fields_json (m_fields m))) = Some (fields_json (m_fields m))"
    using assms(1) fields_json_plain [OF plain] by (simp add: json_lib_ok_def)
  moreover have "FObject (patch_updates (map (\<lambda>(k, v). (k, field_json v)) (m_fields m))) = undate (FObject (m_fields m))"
    using json_to_field_shown [OF plain] by (simp add: patch_updates_def)
  ultimately have "read_patch J (js_show J (fields_json (m_fields m))) = Some (map (\<lambda>(k, v). (k, undate v)) (m_fields m))"
    by (simp add: read_patch_def fields_json_def)
  then show ?thesis using whole get by blast
qed

text \<open>A library that numbers the values and writes the number in unary.\<close>

instance jvalue :: countable
  by countable_datatype

definition unary_json :: json_lib where
  "unary_json = \<lparr>js_show = \<lambda>v. replicate (to_nat v) (CHR ''x''), js_read = \<lambda>b. Some (from_nat (length b))\<rparr>"

theorem shown_fields_patch_back_witness:
  "let m = sample_manifest\<lparr>m_fields := [(''at'', FDatetime ''2024-01-02''), (''tags'', FList [FString ''a'', FObject [(''n'', FInt 1), (''x'', FNull)]])]\<rparr>
   in \<exists>shown sent. js_read unary_json (js_show unary_json (manifest_json m)) = Some (JObject shown) \<and> bt_get shown ''fields'' = Some sent \<and>
    read_patch unary_json (js_show unary_json sent) =
      Some [(''at'', FString ''2024-01-02''), (''tags'', FList [FString ''a'', FObject [(''n'', FInt 1), (''x'', FNull)]])]"
proof -
  let ?m = "sample_manifest\<lparr>m_fields := [(''at'', FDatetime ''2024-01-02''), (''tags'', FList [FString ''a'', FObject [(''n'', FInt 1), (''x'', FNull)]])]\<rparr>"
  have "json_lib_ok unary_json" by (simp add: json_lib_ok_def unary_json_def)
  moreover have "manifest_plain ?m"
    by (simp add: manifest_plain_def sample_manifest_def in_i64_def utf8_valid_ascii is_ascii_def)
  moreover have "json_depth (manifest_json ?m) < 128"
    by (simp add: manifest_json_def jobj_def bt_of_list_def jhash_def fields_json_def sample_manifest_def)
  ultimately show ?thesis using shown_fields_patch_back [of unary_json ?m] by simp
qed

text \<open>The views keep every other member.\<close>

lemma bt_get_strip: "bt_inv m \<Longrightarrow> bt_inv (foldl (\<lambda>m k. bt_remove k m) m keys) \<and>
    bt_get (foldl (\<lambda>m k. bt_remove k m) m keys) k = (if k \<in> set keys then None else bt_get m k)"
  by (induction keys arbitrary: m) (auto simp: bt_get_remove)

lemma strip_keys_members:
  "bt_inv m \<Longrightarrow> strip_keys keys (JObject m) = JObject m' \<Longrightarrow> bt_get m' k = (if k \<in> set keys then None else bt_get m k)"
  using conjunct2 [OF bt_get_strip [of m keys k]] by (auto simp: strip_keys_def)

end
