(* ===== verification/Omp_Tenant_Ctx.thy ===== *)
theory Omp_Tenant_Ctx
  imports Omp_Hash Ordered_Map Cbor_Data
begin

text \<open>
  \<open>crates/omp-tenant-ctx\<close>: the signed statement of who a request is for, which the gateway
  sends to the services behind it.

  Ed25519, CBOR and base 64 are parameters; what serde derives for the structs is written
  out (unknown fields are ignored, a repeated key is read by its first value). Of Ed25519
  two things are used: that a signature of the key verifies, and, where a theorem says so,
  that nothing verifies that the key did not sign. The second is a statement about the
  messages a gateway has signed so far, \<open>only_signed\<close>.
\<close>

section \<open>Parameters\<close>

record signing =
  sx :: ext
  sx_codec :: cbor_codec
  std64_encode :: "bytes \<Rightarrow> str"
  std64_decode :: "str \<Rightarrow> str + bytes"
  ed_public :: "bytes \<Rightarrow> bytes"
  ed_sign :: "bytes \<Rightarrow> bytes \<Rightarrow> bytes"
  ed_verify :: "bytes \<Rightarrow> bytes \<Rightarrow> bytes \<Rightarrow> bool"

definition ed_ok :: "signing \<Rightarrow> bool" where
  "ed_ok G \<longleftrightarrow> (\<forall>sk m. length (ed_sign G sk m) = 64 \<and> ed_verify G (ed_public G sk) m (ed_sign G sk m))"

definition std64_ok :: "signing \<Rightarrow> bool" where
  "std64_ok G \<longleftrightarrow> (\<forall>b. std64_decode G (std64_encode G b) = Inr b)"

definition signing_ok :: "signing \<Rightarrow> bool" where
  "signing_ok G \<longleftrightarrow> ed_ok G \<and> std64_ok G \<and> codec_ok (sx_codec G) \<and> b64_ok (sx G)"

text \<open>The messages that verify under a key are among those of a set.\<close>

definition only_signed :: "signing \<Rightarrow> bytes \<Rightarrow> bytes set \<Rightarrow> bool" where
  "only_signed G vk msgs \<longleftrightarrow> (\<forall>m sig. ed_verify G vk m sig \<longrightarrow> m \<in> msgs)"

text \<open>\<open>Signature::from_slice\<close> and \<open>Verifier::verify\<close>.\<close>

definition signature_valid :: "signing \<Rightarrow> bytes \<Rightarrow> bytes \<Rightarrow> bytes \<Rightarrow> bool" where
  "signature_valid G vk m sig \<longleftrightarrow> length sig = 64 \<and> ed_verify G vk m sig"

section \<open>Reading CBOR structs\<close>

definition cb_text :: "cbor \<Rightarrow> str option" where
  "cb_text v = (case v of CbText s \<Rightarrow> Some s | _ \<Rightarrow> None)"

definition cb_i64 :: "cbor \<Rightarrow> int option" where
  "cb_i64 v = (case v of CbInteger i \<Rightarrow> if - (2 ^ 63) \<le> i \<and> i < 2 ^ 63 then Some i else None | _ \<Rightarrow> None)"

definition cb_u64 :: "cbor \<Rightarrow> nat option" where
  "cb_u64 v = (case v of CbInteger i \<Rightarrow> if 0 \<le> i \<and> i \<le> int U64_MAX then Some (nat i) else None | _ \<Rightarrow> None)"

definition cb_u8 :: "cbor \<Rightarrow> char option" where
  "cb_u8 v = (case v of CbInteger i \<Rightarrow> if 0 \<le> i \<and> i < 256 then Some (char_of (nat i)) else None | _ \<Rightarrow> None)"

text \<open>The visitor of \<open>serde_bytes\<close>: a byte string or an array of bytes.\<close>

definition cb_bytes :: "cbor \<Rightarrow> bytes option" where
  "cb_bytes v = (case v of CbBytes b \<Rightarrow> Some b | CbArray vs \<Rightarrow> those (map cb_u8 vs) | _ \<Rightarrow> None)"

definition cb_opt_text :: "cbor option \<Rightarrow> str option option" where
  "cb_opt_text v = (case v of None \<Rightarrow> Some None | Some CbNull \<Rightarrow> Some None | Some x \<Rightarrow> map_option Some (cb_text x))"

section \<open>Contexts\<close>

datatype ctx_error =
    CtxBase64 str | CtxCbor str | CtxCborEncode str | MissingSignature | CtxBadSignature
  | CtxExpired int int | EmptyTenant

record tenant_context =
  tc_tenant_id :: str
  tc_quotas_ref :: bytes
  tc_exp_unix :: int
  tc_sub :: "str option"
  tc_signature :: bytes

definition DEFAULT_EXTRA_LIFETIME_SECS :: int where "DEFAULT_EXTRA_LIFETIME_SECS = 30"

text \<open>The struct \<open>SignedBody\<close>; an absent user is left out.\<close>

definition signed_body :: "tenant_context \<Rightarrow> (cbor \<times> cbor) list" where
  "signed_body c =
     [(CbText ''tenant_id'', CbText (tc_tenant_id c)),
      (CbText ''quotas_ref'', CbBytes (tc_quotas_ref c)),
      (CbText ''exp_unix'', CbInteger (tc_exp_unix c))] @
     (case tc_sub c of Some u \<Rightarrow> [(CbText ''sub'', CbText u)] | None \<Rightarrow> [])"

definition canonical_signed_bytes :: "signing \<Rightarrow> tenant_context \<Rightarrow> ctx_error + bytes" where
  "canonical_signed_bytes G c = Inr (cbor_encode (sx_codec G) (CbMap (signed_body c)))"

definition issue_with_sub ::
  "signing \<Rightarrow> bytes \<Rightarrow> str \<Rightarrow> bytes \<Rightarrow> int \<Rightarrow> str option \<Rightarrow> ctx_error + tenant_context"
where
  "issue_with_sub G sk tenant_id quotas_ref exp_unix user =
     (if tenant_id = [] then Inl EmptyTenant
      else let c = \<lparr>tc_tenant_id = tenant_id, tc_quotas_ref = quotas_ref, tc_exp_unix = exp_unix,
                    tc_sub = user, tc_signature = []\<rparr> in
        bind_res (canonical_signed_bytes G c) (\<lambda>canonical.
        Inr (c\<lparr>tc_signature := ed_sign G sk canonical\<rparr>)))"

definition issue :: "signing \<Rightarrow> bytes \<Rightarrow> str \<Rightarrow> bytes \<Rightarrow> int \<Rightarrow> ctx_error + tenant_context" where
  "issue G sk tenant_id quotas_ref exp_unix = issue_with_sub G sk tenant_id quotas_ref exp_unix None"

definition issue_default_with_sub ::
  "signing \<Rightarrow> bytes \<Rightarrow> int \<Rightarrow> str \<Rightarrow> bytes \<Rightarrow> str option \<Rightarrow> ctx_error + tenant_context"
where
  "issue_default_with_sub G sk now_unix tenant_id quotas_ref user =
     issue_with_sub G sk tenant_id quotas_ref (now_unix + DEFAULT_EXTRA_LIFETIME_SECS) user"

definition context_encode :: "signing \<Rightarrow> tenant_context \<Rightarrow> ctx_error + str" where
  "context_encode G c =
     Inr (std64_encode G (cbor_encode (sx_codec G)
       (CbMap (signed_body c @ [(CbText ''signature'', CbBytes (tc_signature c))]))))"

definition context_of_cbor :: "cbor \<Rightarrow> tenant_context option" where
  "context_of_cbor v =
     (case v of CbMap kvs \<Rightarrow>
        (case (Option.bind (cb_get kvs ''tenant_id'') cb_text,
               (case cb_get kvs ''quotas_ref'' of None \<Rightarrow> Some [] | Some x \<Rightarrow> cb_bytes x),
               Option.bind (cb_get kvs ''exp_unix'') cb_i64,
               cb_opt_text (cb_get kvs ''sub''),
               (case cb_get kvs ''signature'' of None \<Rightarrow> Some [] | Some x \<Rightarrow> cb_bytes x)) of
           (Some t, Some q, Some e, Some u, Some sig) \<Rightarrow>
             Some \<lparr>tc_tenant_id = t, tc_quotas_ref = q, tc_exp_unix = e, tc_sub = u, tc_signature = sig\<rparr>
         | _ \<Rightarrow> None)
      | _ \<Rightarrow> None)"

definition decode_unverified :: "signing \<Rightarrow> str \<Rightarrow> ctx_error + tenant_context" where
  "decode_unverified G s =
     bind_res (map_err CtxBase64 (std64_decode G s)) (\<lambda>buf.
     bind_res (map_err CtxCbor (cbor_decode (sx_codec G) buf)) (\<lambda>v.
     ok_or (CtxCbor ''invalid context'') (context_of_cbor v)))"

definition verify_at :: "signing \<Rightarrow> str \<Rightarrow> bytes \<Rightarrow> int \<Rightarrow> ctx_error + tenant_context" where
  "verify_at G s vk now_unix =
     bind_res (decode_unverified G s) (\<lambda>c.
     if tc_signature c = [] then Inl MissingSignature
     else if tc_exp_unix c < now_unix then Inl (CtxExpired (tc_exp_unix c) now_unix)
     else bind_res (canonical_signed_bytes G c) (\<lambda>signed.
       if \<not> signature_valid G vk signed (tc_signature c) then Inl CtxBadSignature
       else Inr c))"

section \<open>Contexts on the wire\<close>

text \<open>What a Rust value of the type satisfies by its type.\<close>

definition context_ok :: "tenant_context \<Rightarrow> bool" where
  "context_ok c \<longleftrightarrow> utf8_valid (tc_tenant_id c) \<and> - (2 ^ 63) \<le> tc_exp_unix c \<and> tc_exp_unix c < 2 ^ 63 \<and>
     (\<forall>u. tc_sub c = Some u \<longrightarrow> utf8_valid u)"

lemma utf8_keys [simp]:
  "utf8_valid ''tenant_id''" "utf8_valid ''quotas_ref''" "utf8_valid ''exp_unix''" "utf8_valid ''sub''" "utf8_valid ''signature''"
  by (simp_all add: is_ascii_def)

lemma signed_body_plain: "context_ok c \<Longrightarrow> cbor_plain (CbMap (signed_body c))"
  by (auto simp: signed_body_def context_ok_def split: option.splits)

lemma context_of_signed_body:
  assumes "context_ok c"
  shows "context_of_cbor (CbMap (signed_body c @ [(CbText ''signature'', CbBytes (tc_signature c))])) = Some c"
    and "context_of_cbor (CbMap (signed_body c)) = Some (c\<lparr>tc_signature := []\<rparr>)"
  using assms
  by (cases "tc_sub c"; simp add: context_of_cbor_def signed_body_def cb_get_def cb_text_def cb_bytes_def cb_i64_def cb_opt_text_def context_ok_def)+

lemma decode_encode:
  assumes "codec_ok (sx_codec G)" "std64_ok G" "context_ok c" "context_encode G c = Inr wire"
  shows "decode_unverified G wire = Inr c"
proof -
  let ?v = "CbMap (signed_body c @ [(CbText ''signature'', CbBytes (tc_signature c))])"
  have "cbor_plain ?v" using signed_body_plain [OF assms(3)] by simp
  then have "cbor_decode (sx_codec G) (cbor_encode (sx_codec G) ?v) = Inr ?v" using assms(1) by (simp add: codec_ok_def)
  then show ?thesis
    using assms(2,4) context_of_signed_body(1) [OF assms(3)]
    by (auto simp: decode_unverified_def context_encode_def std64_ok_def)
qed

text \<open>Equal signed bytes come from equal statements.\<close>

lemma signed_bytes_inj:
  assumes "codec_ok (sx_codec G)" "context_ok c" "context_ok d"
    and "cbor_encode (sx_codec G) (CbMap (signed_body c)) = cbor_encode (sx_codec G) (CbMap (signed_body d))"
  shows "c\<lparr>tc_signature := []\<rparr> = d\<lparr>tc_signature := []\<rparr>"
proof -
  have "CbMap (signed_body c) = CbMap (signed_body d)"
    using assms signed_body_plain by (metis codec_ok_def sum.inject(2))
  then show ?thesis using context_of_signed_body(2) assms(2,3) by (metis option.inject)
qed

end
