(* ===== verification/Omp_Gateway.thy ===== *)
theory Omp_Gateway
  imports Omp_Tenant_Ctx
begin

text \<open>
  \<open>crates/omp-gateway\<close>: who a request is from (\<open>auth.rs\<close>: signed cookies, API keys with a
  cache of their validation; \<open>lib.rs\<close>: bearer tokens) and where it goes (\<open>proxy\<close>). The
  identity provider is a parameter, the answer it gives for a token at a time. Logging in
  is in \<open>Omp_Login\<close>; the transport of bodies is not modelled.
\<close>

section \<open>Headers\<close>

text \<open>A header map: names in lower case, several values for a name in order.\<close>

type_synonym headers = "(str \<times> bytes) list"

definition hdr_get :: "headers \<Rightarrow> str \<Rightarrow> bytes option" where
  "hdr_get hs n = map_of hs n"

definition hdr_remove :: "str \<Rightarrow> headers \<Rightarrow> headers" where
  "hdr_remove n hs = filter (\<lambda>(k, _). k \<noteq> n) hs"

definition hdr_insert :: "str \<Rightarrow> bytes \<Rightarrow> headers \<Rightarrow> headers" where
  "hdr_insert n v hs = hdr_remove n hs @ [(n, v)]"

definition visible :: "char \<Rightarrow> bool" where
  "visible c \<longleftrightarrow> 32 \<le> byte_val c \<and> byte_val c < 127 \<or> byte_val c = 9"

definition hdr_str :: "bytes \<Rightarrow> str option" where
  "hdr_str v = (if list_all visible v then Some v else None)"

section \<open>Signed cookies\<close>

definition SESSION_DOMAIN_TAG :: bytes where "SESSION_DOMAIN_TAG = ''omp_session'' @ [NUL] @ ''v1'' @ [NUL]"
definition STATE_DOMAIN_TAG :: bytes where "STATE_DOMAIN_TAG = ''omp_oidc_state'' @ [NUL] @ ''v1'' @ [NUL]"

datatype cookie_error = CookieBase64 str | CookieCbor str | CookieBadSignature | CookieExpired nat nat

record session_claims =
  sn_tenant :: str
  sn_sub :: str
  sn_workos_session_id :: str
  sn_issued_at :: nat
  sn_expires_at :: nat

record state_claims =
  st_id :: str
  st_pkce_verifier :: str
  st_nonce :: str
  st_return_to :: str
  st_expires_at :: nat

definition session_to_cbor :: "session_claims \<Rightarrow> cbor" where
  "session_to_cbor c = CbMap
     [(CbText ''tenant'', CbText (sn_tenant c)), (CbText ''sub'', CbText (sn_sub c)),
      (CbText ''workos_session_id'', CbText (sn_workos_session_id c)),
      (CbText ''issued_at'', CbInteger (int (sn_issued_at c))), (CbText ''expires_at'', CbInteger (int (sn_expires_at c)))]"

definition session_of_cbor :: "cbor \<Rightarrow> session_claims option" where
  "session_of_cbor v =
     (case v of CbMap kvs \<Rightarrow>
        (case (Option.bind (cb_get kvs ''tenant'') cb_text, Option.bind (cb_get kvs ''sub'') cb_text,
               Option.bind (cb_get kvs ''workos_session_id'') cb_text, Option.bind (cb_get kvs ''issued_at'') cb_u64,
               Option.bind (cb_get kvs ''expires_at'') cb_u64) of
           (Some t, Some u, Some w, Some i, Some e) \<Rightarrow>
             Some \<lparr>sn_tenant = t, sn_sub = u, sn_workos_session_id = w, sn_issued_at = i, sn_expires_at = e\<rparr>
         | _ \<Rightarrow> None)
      | _ \<Rightarrow> None)"

definition state_to_cbor :: "state_claims \<Rightarrow> cbor" where
  "state_to_cbor c = CbMap
     [(CbText ''id'', CbText (st_id c)), (CbText ''pkce_verifier'', CbText (st_pkce_verifier c)),
      (CbText ''nonce'', CbText (st_nonce c)), (CbText ''return_to'', CbText (st_return_to c)),
      (CbText ''expires_at'', CbInteger (int (st_expires_at c)))]"

definition state_of_cbor :: "cbor \<Rightarrow> state_claims option" where
  "state_of_cbor v =
     (case v of CbMap kvs \<Rightarrow>
        (case (Option.bind (cb_get kvs ''id'') cb_text, Option.bind (cb_get kvs ''pkce_verifier'') cb_text,
               Option.bind (cb_get kvs ''nonce'') cb_text, Option.bind (cb_get kvs ''return_to'') cb_text,
               Option.bind (cb_get kvs ''expires_at'') cb_u64) of
           (Some i, Some p, Some n, Some r, Some e) \<Rightarrow>
             Some \<lparr>st_id = i, st_pkce_verifier = p, st_nonce = n, st_return_to = r, st_expires_at = e\<rparr>
         | _ \<Rightarrow> None)
      | _ \<Rightarrow> None)"

text \<open>The struct \<open>Envelope\<close>.\<close>

definition envelope_cbor :: "bytes \<Rightarrow> bytes \<Rightarrow> cbor" where
  "envelope_cbor body sig = CbMap [(CbText ''body'', CbBytes body), (CbText ''sig'', CbBytes sig)]"

definition cookie_parts :: "cbor \<Rightarrow> (bytes \<times> bytes) option" where
  "cookie_parts v =
     (case v of CbMap kvs \<Rightarrow>
        (case (Option.bind (cb_get kvs ''body'') cb_bytes, Option.bind (cb_get kvs ''sig'') cb_bytes) of
           (Some b, Some g) \<Rightarrow> Some (b, g)
         | _ \<Rightarrow> None)
      | _ \<Rightarrow> None)"

definition signed_message :: "bytes \<Rightarrow> bytes \<Rightarrow> bytes" where
  "signed_message domain body = domain @ body"

definition encode_signed :: "signing \<Rightarrow> bytes \<Rightarrow> bytes \<Rightarrow> cbor \<Rightarrow> cookie_error + str" where
  "encode_signed G sk domain claims =
     (let body = cbor_encode (sx_codec G) claims;
          sig = ed_sign G sk (signed_message domain body) in
      Inr (b64_encode (sx G) (cbor_encode (sx_codec G) (envelope_cbor body sig))))"

definition decode_signed :: "signing \<Rightarrow> bytes \<Rightarrow> bytes \<Rightarrow> str \<Rightarrow> (cbor \<Rightarrow> 'c option) \<Rightarrow> cookie_error + 'c" where
  "decode_signed G vk domain wire of_cbor =
     bind_res (map_err CookieBase64 (b64_decode (sx G) wire)) (\<lambda>raw.
     bind_res (map_err CookieCbor (cbor_decode (sx_codec G) raw)) (\<lambda>v.
     bind_res (ok_or (CookieCbor ''invalid envelope'') (cookie_parts v)) (\<lambda>(body, sig).
     if \<not> signature_valid G vk (signed_message domain body) sig then Inl CookieBadSignature
     else bind_res (map_err CookieCbor (cbor_decode (sx_codec G) body)) (\<lambda>c.
       ok_or (CookieCbor ''invalid claims'') (of_cbor c)))))"

definition encode_session :: "signing \<Rightarrow> bytes \<Rightarrow> session_claims \<Rightarrow> cookie_error + str" where
  "encode_session G sk c = encode_signed G sk SESSION_DOMAIN_TAG (session_to_cbor c)"

definition decode_session :: "signing \<Rightarrow> bytes \<Rightarrow> str \<Rightarrow> nat \<Rightarrow> bool \<Rightarrow> cookie_error + session_claims" where
  "decode_session G vk wire now_unix allow_expired =
     bind_res (decode_signed G vk SESSION_DOMAIN_TAG wire session_of_cbor) (\<lambda>c.
     if \<not> allow_expired \<and> sn_expires_at c < now_unix then Inl (CookieExpired (sn_expires_at c) now_unix)
     else Inr c)"

definition encode_state :: "signing \<Rightarrow> bytes \<Rightarrow> state_claims \<Rightarrow> cookie_error + str" where
  "encode_state G sk c = encode_signed G sk STATE_DOMAIN_TAG (state_to_cbor c)"

definition decode_state :: "signing \<Rightarrow> bytes \<Rightarrow> str \<Rightarrow> cookie_error + state_claims" where
  "decode_state G vk wire = decode_signed G vk STATE_DOMAIN_TAG wire state_of_cbor"

fun cookie_value :: "str \<Rightarrow> str list \<Rightarrow> str option" where
  "cookie_value n [] = None"
| "cookie_value n (piece # ps) =
     (case strip_prefix (n @ ''='') (trim piece) of Some v \<Rightarrow> Some v | None \<Rightarrow> cookie_value n ps)"

definition parse_cookie :: "headers \<Rightarrow> str \<Rightarrow> str option" where
  "parse_cookie hs n =
     Option.bind (Option.bind (hdr_get hs ''cookie'') hdr_str) (\<lambda>h. cookie_value n (split_on (CHR '';'') h))"

definition resolve_session_cookie :: "signing \<Rightarrow> bytes \<Rightarrow> headers \<Rightarrow> nat \<Rightarrow> session_claims option" where
  "resolve_session_cookie G vk hs now_unix =
     Option.bind (parse_cookie hs ''omp_session'') (\<lambda>raw.
     case decode_session G vk raw now_unix False of Inr c \<Rightarrow> Some c | Inl _ \<Rightarrow> None)"

section \<open>The cache of validated API keys\<close>

record cached_validation =
  va_tenant :: str
  va_expires_at :: nat

type_synonym validation_cache = "(bytes, cached_validation) btree"

definition VALIDATION_CACHE_MAX_ENTRIES :: nat where "VALIDATION_CACHE_MAX_ENTRIES = 10000"

definition cache_get :: "nat \<Rightarrow> bytes \<Rightarrow> validation_cache \<Rightarrow> str option \<times> validation_cache" where
  "cache_get now_unix key m =
     (case bt_get m key of
        Some e \<Rightarrow> if va_expires_at e > now_unix then (Some (va_tenant e), m) else (None, bt_remove key m)
      | None \<Rightarrow> (None, m))"

definition live_entries :: "nat \<Rightarrow> validation_cache \<Rightarrow> validation_cache" where
  "live_entries now_unix m = filter (\<lambda>(_, v). va_expires_at v > now_unix) m"

definition make_room :: "nat \<Rightarrow> validation_cache \<Rightarrow> validation_cache" where
  "make_room now_unix m =
     (if length m \<ge> VALIDATION_CACHE_MAX_ENTRIES then
        (let kept = live_entries now_unix m in if length kept \<ge> VALIDATION_CACHE_MAX_ENTRIES then [] else kept)
      else m)"

definition cache_insert :: "nat \<Rightarrow> bytes \<Rightarrow> str \<Rightarrow> nat \<Rightarrow> validation_cache \<Rightarrow> validation_cache" where
  "cache_insert now_unix key tenant ttl_secs m =
     bt_insert key \<lparr>va_tenant = tenant, va_expires_at = (now_unix + ttl_secs) mod 2 ^ 64\<rparr> (make_room now_unix m)"

section \<open>Whom a request is from\<close>

record gateway_config =
  gc_shards :: "str list"
  gc_tokens :: "str \<rightharpoonup> str"
  gc_allow_dev_tokens :: bool
  gc_builder :: "str option"
  gc_marketplace :: "str option"

text \<open>The state of a gateway; \<open>gw_oidc\<close> is the lifetime of validations when an identity provider is configured.\<close>

record gateway =
  gw_config :: gateway_config
  gw_key :: bytes
  gw_oidc :: "nat option"

record principal =
  pr_tenant :: str
  pr_sub :: "str option"

definition extract_bearer :: "headers \<Rightarrow> str option" where
  "extract_bearer hs =
     Option.bind (Option.bind (hdr_get hs ''authorization'') hdr_str) (\<lambda>h.
     Option.bind (strip_prefix ''Bearer '' h) (\<lambda>r. if trim r = [] then None else Some (trim r)))"

definition hash_token :: "ext \<Rightarrow> str \<Rightarrow> str" where
  "hash_token E token = sha256_hex E token"

definition resolve_bearer_token :: "signing \<Rightarrow> gateway_config \<Rightarrow> headers \<Rightarrow> str option" where
  "resolve_bearer_token G cfg hs =
     Option.bind (extract_bearer hs) (\<lambda>token.
     case (if gc_allow_dev_tokens cfg then strip_prefix ''dev-'' token else None) of
       Some t \<Rightarrow> if t \<noteq> [] then Some t else gc_tokens cfg (hash_token (sx G) token)
     | None \<Rightarrow> gc_tokens cfg (hash_token (sx G) token))"

definition resolve_principal :: "signing \<Rightarrow> gateway \<Rightarrow> headers \<Rightarrow> nat \<Rightarrow> principal option" where
  "resolve_principal G gw hs now_unix =
     (case resolve_session_cookie G (ed_public G (gw_key gw)) hs now_unix of
        Some c \<Rightarrow> Some \<lparr>pr_tenant = sn_tenant c, pr_sub = Some (sn_sub c)\<rparr>
      | None \<Rightarrow> map_option (\<lambda>t. \<lparr>pr_tenant = t, pr_sub = None\<rparr>) (resolve_bearer_token G (gw_config gw) hs))"

definition resolve_principal_async ::
  "signing \<Rightarrow> gateway \<Rightarrow> (str \<Rightarrow> str option) \<Rightarrow> headers \<Rightarrow> nat \<Rightarrow> validation_cache \<Rightarrow> principal option \<times> validation_cache"
where
  "resolve_principal_async G gw validate_api_key hs now_unix m =
     (case resolve_principal G gw hs now_unix of
        Some p \<Rightarrow> (Some p, m)
      | None \<Rightarrow>
          (case (gw_oidc gw, extract_bearer hs) of
             (Some ttl, Some token) \<Rightarrow>
               (let key = sha256 (sx G) token in
                case cache_get now_unix key m of
                  (Some t, m') \<Rightarrow> (Some \<lparr>pr_tenant = t, pr_sub = None\<rparr>, m')
                | (None, m') \<Rightarrow>
                    (case validate_api_key token of
                       Some t \<Rightarrow> (Some \<lparr>pr_tenant = t, pr_sub = None\<rparr>, cache_insert now_unix key t ttl m')
                     | None \<Rightarrow> (None, m')))
           | _ \<Rightarrow> (None, m)))"

definition from_be_bytes :: "bytes \<Rightarrow> nat" where
  "from_be_bytes bs = foldl (\<lambda>n c. n * 256 + byte_val c) 0 bs"

definition shard_for :: "signing \<Rightarrow> gateway_config \<Rightarrow> str \<Rightarrow> str option" where
  "shard_for G cfg tenant =
     (if gc_shards cfg = [] then None
      else Some (gc_shards cfg ! (from_be_bytes (take 8 (sha256 (sx G) tenant)) mod length (gc_shards cfg))))"

section \<open>Where it goes\<close>

record request =
  rq_path :: str
  rq_path_and_query :: str
  rq_headers :: headers
  rq_body :: bytes

datatype proxied = Refused nat str | Forward (fw_url: str) (fw_headers: headers) (fw_body: bytes)

definition TENANT_CTX_HEADER :: str where "TENANT_CTX_HEADER = ''x-omp-tenant-context''"

definition upstream_base :: "signing \<Rightarrow> gateway_config \<Rightarrow> str \<Rightarrow> str \<Rightarrow> proxied + str" where
  "upstream_base G cfg path tenant =
     (if starts_with ''/probes/build'' path then ok_or (Refused 503 ''builder_unavailable'') (gc_builder cfg)
      else if starts_with ''/marketplace/'' path then ok_or (Refused 503 ''marketplace_unavailable'') (gc_marketplace cfg)
      else ok_or (Refused 503 ''no_shards'') (shard_for G cfg tenant))"

definition forwarded_headers :: "str \<Rightarrow> headers \<Rightarrow> headers" where
  "forwarded_headers ctx hs =
     (let hs' = (case hdr_str ctx of Some v \<Rightarrow> hdr_insert TENANT_CTX_HEADER v hs | None \<Rightarrow> hs) in
      hdr_remove ''upgrade'' (hdr_remove ''transfer-encoding'' (hdr_remove ''connection'' (hdr_remove ''host'' hs'))))"

definition proxy_request ::
  "signing \<Rightarrow> gateway \<Rightarrow> (str \<Rightarrow> str option) \<Rightarrow> request \<Rightarrow> nat \<Rightarrow> validation_cache \<Rightarrow> proxied \<times> validation_cache"
where
  "proxy_request G gw validate_api_key rq now_unix m =
     (case resolve_principal_async G gw validate_api_key (rq_headers rq) now_unix m of
        (None, m') \<Rightarrow> (Refused 401 ''unauthorized'', m')
      | (Some p, m') \<Rightarrow>
          (case upstream_base G (gw_config gw) (rq_path rq) (pr_tenant p) of
             Inl refused \<Rightarrow> (refused, m')
           | Inr base \<Rightarrow>
               (case issue_default_with_sub G (gw_key gw) (int now_unix) (pr_tenant p) [] (pr_sub p) of
                  Inl _ \<Rightarrow> (Refused 500 ''ctx_sign'', m')
                | Inr c \<Rightarrow>
                    (case context_encode G c of
                       Inl _ \<Rightarrow> (Refused 500 ''ctx_encode'', m')
                     | Inr wire \<Rightarrow>
                         if length (rq_body rq) > 32 * 1024 * 1024 then (Refused 400 ''body_read'', m')
                         else (Forward (trim_end_matches (CHR ''/'') base @ rq_path_and_query rq)
                                 (forwarded_headers wire (rq_headers rq)) (rq_body rq), m')))))"

text \<open>The answer: the status and the headers the client sees.\<close>

definition is_sse :: "headers \<Rightarrow> bool" where
  "is_sse hs =
     (case Option.bind (hdr_get hs ''content-type'') hdr_str of
        Some v \<Rightarrow> starts_with ''text/event-stream'' (trim_start v) | None \<Rightarrow> False)"

definition response_headers :: "headers \<Rightarrow> headers" where
  "response_headers hs =
     (let kept = filter (\<lambda>(k, _). k \<notin> set [''connection'', ''transfer-encoding'', ''content-length'']) hs;
          out = foldl (\<lambda>m (k, v). hdr_insert k v m) [] kept in
      if is_sse hs then hdr_insert ''cache-control'' ''no-cache'' (hdr_insert ''x-accel-buffering'' ''no'' out) else out)"

definition response_status :: "nat \<Rightarrow> nat" where
  "response_status status = (if status = 412 then 409 else status)"

section \<open>Contexts of requests\<close>

lemma issue_encode_verify:
  assumes "signing_ok G" "issue_with_sub G sk t q e u = Inr c" "context_encode G c = Inr wire" "context_ok c"
  shows "verify_at G wire (ed_public G sk) now_unix = (if e < now_unix then Inl (CtxExpired e now_unix) else Inr c)"
proof -
  let ?b = "\<lparr>tc_tenant_id = t, tc_quotas_ref = q, tc_exp_unix = e, tc_sub = u, tc_signature = []\<rparr>"
  let ?m = "cbor_encode (sx_codec G) (CbMap (signed_body ?b))"
  have c: "c = ?b\<lparr>tc_signature := ed_sign G sk ?m\<rparr>"
    using assms(2) by (simp add: issue_with_sub_def canonical_signed_bytes_def Let_def split: if_splits)
  have body: "signed_body c = signed_body ?b" by (simp add: c signed_body_def)
  have ed: "length (ed_sign G sk ?m) = 64" "ed_verify G (ed_public G sk) ?m (ed_sign G sk ?m)"
    using assms(1) by (auto simp: signing_ok_def ed_ok_def)
  have "decode_unverified G wire = Inr c"
    using decode_encode [OF _ _ assms(4,3)] assms(1) by (simp add: signing_ok_def)
  then show ?thesis
    using ed c body by (auto simp: verify_at_def canonical_signed_bytes_def signature_valid_def)
qed

lemma hdr_filter_insert: "filter (\<lambda>(k, _). k = n) (hdr_insert n v hs) = [(n, v)]"
  by (auto simp: hdr_insert_def hdr_remove_def filter_empty_conv)

lemma hdr_filter_remove: "n \<noteq> k \<Longrightarrow> filter (\<lambda>(k, _). k = n) (hdr_remove k hs) = filter (\<lambda>(k, _). k = n) hs"
  by (auto simp: hdr_remove_def intro: filter_cong)

lemma forwarded_context:
  "hdr_str ctx = Some ctx \<Longrightarrow> filter (\<lambda>(k, _). k = TENANT_CTX_HEADER) (forwarded_headers ctx hs) = [(TENANT_CTX_HEADER, ctx)]"
  by (simp add: forwarded_headers_def Let_def hdr_filter_remove hdr_filter_insert TENANT_CTX_HEADER_def)

lemma hdr_get_filter: "filter (\<lambda>(k, _). k = n) hs = (n, v) # rest \<Longrightarrow> hdr_get hs n = Some v"
  by (induction hs) (auto simp: hdr_get_def split: if_splits)

lemma upstream_refusal: "upstream_base G cfg path tenant \<noteq> Inl (Forward url hs body)"
  by (simp add: upstream_base_def ok_or_def split: option.splits)

section \<open>What is accepted was signed\<close>

definition session_ok :: "session_claims \<Rightarrow> bool" where
  "session_ok c \<longleftrightarrow> utf8_valid (sn_tenant c) \<and> utf8_valid (sn_sub c) \<and> utf8_valid (sn_workos_session_id c) \<and>
     sn_issued_at c \<le> U64_MAX \<and> sn_expires_at c \<le> U64_MAX"

definition state_ok :: "state_claims \<Rightarrow> bool" where
  "state_ok c \<longleftrightarrow> utf8_valid (st_id c) \<and> utf8_valid (st_pkce_verifier c) \<and> utf8_valid (st_nonce c) \<and>
     utf8_valid (st_return_to c) \<and> st_expires_at c \<le> U64_MAX"

text \<open>The initial byte of a CBOR map has major type 5.\<close>

definition maps_marked :: "cbor_codec \<Rightarrow> bool" where
  "maps_marked C \<longleftrightarrow> (\<forall>kvs. \<exists>b bs. cbor_encode C (CbMap kvs) = b # bs \<and> 0xA0 \<le> byte_val b)"

text \<open>Every message a gateway signs: contexts, session cookies and login states.\<close>

definition signed_messages :: "signing \<Rightarrow> tenant_context set \<Rightarrow> session_claims set \<Rightarrow> state_claims set \<Rightarrow> bytes set" where
  "signed_messages G cs ss ts =
     (\<lambda>c. cbor_encode (sx_codec G) (CbMap (signed_body c))) ` cs \<union>
     (\<lambda>c. signed_message SESSION_DOMAIN_TAG (cbor_encode (sx_codec G) (session_to_cbor c))) ` ss \<union>
     (\<lambda>c. signed_message STATE_DOMAIN_TAG (cbor_encode (sx_codec G) (state_to_cbor c))) ` ts"

lemma utf8_claim_keys [simp]:
  "utf8_valid ''tenant''" "utf8_valid ''workos_session_id''" "utf8_valid ''issued_at''" "utf8_valid ''expires_at''"
  "utf8_valid ''id''" "utf8_valid ''pkce_verifier''" "utf8_valid ''nonce''" "utf8_valid ''return_to''"
  by (simp_all add: is_ascii_def)

lemma session_codec: "session_ok c \<Longrightarrow> cbor_plain (session_to_cbor c) \<and> session_of_cbor (session_to_cbor c) = Some c"
  by (simp add: session_ok_def session_to_cbor_def session_of_cbor_def cb_get_def cb_text_def cb_u64_def U64_MAX_def)

lemma state_codec: "state_ok c \<Longrightarrow> cbor_plain (state_to_cbor c) \<and> state_of_cbor (state_to_cbor c) = Some c"
  by (simp add: state_ok_def state_to_cbor_def state_of_cbor_def cb_get_def cb_text_def cb_u64_def U64_MAX_def)

text \<open>The three kinds of message are told apart by how they begin.\<close>

lemma kinds_apart:
  assumes "maps_marked C"
  shows "cbor_encode C (CbMap kvs) \<noteq> signed_message SESSION_DOMAIN_TAG b"
    and "cbor_encode C (CbMap kvs) \<noteq> signed_message STATE_DOMAIN_TAG b"
    and "signed_message SESSION_DOMAIN_TAG b \<noteq> signed_message STATE_DOMAIN_TAG b'"
proof -
  obtain x xs where x: "cbor_encode C (CbMap kvs) = x # xs" "0xA0 \<le> byte_val x" using assms unfolding maps_marked_def by blast
  then have "x \<noteq> CHR ''o''" by auto
  then show "cbor_encode C (CbMap kvs) \<noteq> signed_message SESSION_DOMAIN_TAG b"
      "cbor_encode C (CbMap kvs) \<noteq> signed_message STATE_DOMAIN_TAG b"
    using x(1) by (simp_all add: signed_message_def SESSION_DOMAIN_TAG_def STATE_DOMAIN_TAG_def)
qed (simp add: signed_message_def SESSION_DOMAIN_TAG_def STATE_DOMAIN_TAG_def)

text \<open>The body and the signature a cookie carries.\<close>

definition presented :: "signing \<Rightarrow> str \<Rightarrow> bytes \<Rightarrow> bytes \<Rightarrow> bool" where
  "presented G wire body sig \<longleftrightarrow>
     (\<exists>raw v. b64_decode (sx G) wire = Inr raw \<and> cbor_decode (sx_codec G) raw = Inr v \<and> cookie_parts v = Some (body, sig))"

lemma decode_signed_message:
  assumes "decode_signed G vk domain wire f = Inr c"
  obtains body sig v where "ed_verify G vk (signed_message domain body) sig" "cbor_decode (sx_codec G) body = Inr v" "f v = Some c"
    "presented G wire body sig"
  using assms unfolding decode_signed_def bind_res_eq_Inr presented_def
  by (auto simp: bind_res_eq_Inr signature_valid_def ok_or_eq_Inr map_err_eq_Inr split: if_splits)

lemma session_from_signed:
  assumes "codec_ok (sx_codec G)" "maps_marked (sx_codec G)" "\<forall>c \<in> ss. session_ok c"
    and "signed_message SESSION_DOMAIN_TAG body \<in> signed_messages G cs ss ts"
    and "cbor_decode (sx_codec G) body = Inr v" "session_of_cbor v = Some c"
  shows "c \<in> ss"
proof -
  obtain d where d: "d \<in> ss" "body = cbor_encode (sx_codec G) (session_to_cbor d)"
    using assms(4) kinds_apart(1,3) [OF assms(2)] by (auto simp: signed_messages_def signed_message_def) (metis append.assoc)+
  then show ?thesis using session_codec assms(1,3,5,6) by (metis codec_ok_def option.inject sum.inject(2))
qed

lemma state_from_signed:
  assumes "codec_ok (sx_codec G)" "maps_marked (sx_codec G)" "\<forall>c \<in> ts. state_ok c"
    and "signed_message STATE_DOMAIN_TAG body \<in> signed_messages G cs ss ts"
    and "cbor_decode (sx_codec G) body = Inr v" "state_of_cbor v = Some c"
  shows "c \<in> ts"
proof -
  obtain d where d: "d \<in> ts" "body = cbor_encode (sx_codec G) (state_to_cbor d)"
    using assms(4) kinds_apart(2,3) [OF assms(2)] by (auto simp: signed_messages_def signed_message_def) (metis append.assoc)+
  then show ?thesis using state_codec assms(1,3,5,6) by (metis codec_ok_def option.inject sum.inject(2))
qed

lemma decode_session_signed: "decode_session G vk wire t b = Inr c \<Longrightarrow> decode_signed G vk SESSION_DOMAIN_TAG wire session_of_cbor = Inr c"
  by (auto simp: decode_session_def bind_res_eq_Inr split: if_splits)

section \<open>The cache over time\<close>

text \<open>A request at a time; the identity provider may answer differently at each time.\<close>

definition serve ::
  "signing \<Rightarrow> gateway \<Rightarrow> (nat \<Rightarrow> str \<Rightarrow> str option) \<Rightarrow> validation_cache \<Rightarrow> nat \<times> headers \<Rightarrow> validation_cache"
where
  "serve G gw provider m = (\<lambda>(t, hs). snd (resolve_principal_async G gw (provider t) hs t m))"

definition validated :: "signing \<Rightarrow> (nat \<Rightarrow> str \<Rightarrow> str option) \<Rightarrow> nat \<Rightarrow> nat \<Rightarrow> bytes \<Rightarrow> cached_validation \<Rightarrow> bool" where
  "validated G provider ttl t key e \<longleftrightarrow>
     (\<exists>\<tau> token. \<tau> \<le> t \<and> key = sha256 (sx G) token \<and> provider \<tau> token = Some (va_tenant e) \<and> va_expires_at e \<le> \<tau> + ttl)"

definition cache_inv :: "signing \<Rightarrow> (nat \<Rightarrow> str \<Rightarrow> str option) \<Rightarrow> nat \<Rightarrow> nat \<Rightarrow> validation_cache \<Rightarrow> bool" where
  "cache_inv G provider ttl t m \<longleftrightarrow>
     bt_inv m \<and> length m \<le> VALIDATION_CACHE_MAX_ENTRIES \<and> list_all (\<lambda>(k, e). validated G provider ttl t k e) m"

lemma validated_later: "validated G provider ttl t k e \<Longrightarrow> t \<le> t' \<Longrightarrow> validated G provider ttl t' k e"
  unfolding validated_def using le_trans [of _ t t'] by blast

lemma cache_inv_later: "cache_inv G provider ttl t m \<Longrightarrow> t \<le> t' \<Longrightarrow> cache_inv G provider ttl t' m"
  unfolding cache_inv_def by (auto simp: list_all_iff intro: validated_later)

lemma cache_inv_empty: "cache_inv G provider ttl t []"
  by (simp add: cache_inv_def)

lemma cache_inv_sub:
  "cache_inv G provider ttl t m \<Longrightarrow> set m' \<subseteq> set m \<Longrightarrow> length m' \<le> length m \<Longrightarrow> bt_inv m' \<Longrightarrow> cache_inv G provider ttl t m'"
  by (auto simp: cache_inv_def list_all_iff)

lemma bt_inv_filter: "bt_inv m \<Longrightarrow> bt_inv (filter P m)"
  by (simp add: bt_inv_def sorted_wrt_map sorted_wrt_filter)

lemma length_bt_insert: "length (bt_insert k v m) \<le> Suc (length m)"
  by (induction k v m rule: bt_insert.induct) auto

lemma length_bt_remove: "length (bt_remove k m) \<le> length m"
  by (induction k m rule: bt_remove.induct) auto

lemma cache_get_inv:
  assumes "cache_inv G provider ttl t m" "cache_get now_unix key m = (r, m')"
  shows "cache_inv G provider ttl t m'"
    and "r = Some tenant \<Longrightarrow> \<exists>e. validated G provider ttl t key e \<and> va_tenant e = tenant \<and> now_unix < va_expires_at e"
proof -
  have inv: "bt_inv m" using assms(1) by (simp add: cache_inv_def)
  have "cache_inv G provider ttl t (bt_remove key m)"
    using cache_inv_sub [OF assms(1) bt_set_remove length_bt_remove bt_inv_remove [OF inv]] .
  then show "cache_inv G provider ttl t m'" using assms by (auto simp: cache_get_def split: option.splits if_splits)
  assume "r = Some tenant"
  then obtain e where e: "bt_get m key = Some e" "va_tenant e = tenant" "now_unix < va_expires_at e"
    using assms(2) by (auto simp: cache_get_def split: option.splits if_splits)
  then have "(key, e) \<in> set m" using bt_get_iff [OF inv] by simp
  then show "\<exists>e. validated G provider ttl t key e \<and> va_tenant e = tenant \<and> now_unix < va_expires_at e"
    using e assms(1) by (auto simp: cache_inv_def list_all_iff)
qed

lemma make_room_inv:
  assumes "cache_inv G provider ttl t m"
  shows "cache_inv G provider ttl t (make_room now_unix m) \<and> length (make_room now_unix m) < VALIDATION_CACHE_MAX_ENTRIES"
proof -
  have "cache_inv G provider ttl t (live_entries now_unix m)" unfolding live_entries_def
    using assms by (intro cache_inv_sub [OF assms]) (auto simp: cache_inv_def bt_inv_filter)
  then show ?thesis
    using assms by (auto simp: make_room_def Let_def cache_inv_empty VALIDATION_CACHE_MAX_ENTRIES_def)
qed

lemma cache_insert_inv:
  assumes "cache_inv G provider ttl t m" "provider t token = Some tenant"
  shows "cache_inv G provider ttl t (cache_insert t (sha256 (sx G) token) tenant ttl m)"
proof -
  let ?e = "\<lparr>va_tenant = tenant, va_expires_at = (t + ttl) mod 2 ^ 64\<rparr>" and ?m = "make_room t m"
  have new: "validated G provider ttl t (sha256 (sx G) token) ?e"
    unfolding validated_def using assms(2) by (intro exI [of _ t] exI [of _ token]) simp
  have "bt_inv ?m" "length ?m < VALIDATION_CACHE_MAX_ENTRIES" "\<forall>(k, e) \<in> set ?m. validated G provider ttl t k e"
    using make_room_inv [OF assms(1)] by (auto simp: cache_inv_def list_all_iff)
  then show ?thesis
    using new bt_set_insert [of "sha256 (sx G) token" ?e ?m] length_bt_insert [of "sha256 (sx G) token" ?e ?m]
    by (fastforce simp: cache_inv_def cache_insert_def list_all_iff)
qed

lemma resolve_async_inv:
  assumes "gw_oidc gw = Some ttl" "cache_inv G provider ttl t m"
    and "resolve_principal_async G gw (provider t) hs t m = (r, m')"
  shows "cache_inv G provider ttl t m'"
    and "resolve_principal G gw hs t = None \<Longrightarrow> r = Some p \<Longrightarrow>
      \<exists>\<tau> token token'. extract_bearer hs = Some token \<and> sha256 (sx G) token' = sha256 (sx G) token \<and> \<tau> \<le> t \<and>
        provider \<tau> token' = Some (pr_tenant p) \<and> (\<tau> = t \<or> t < \<tau> + ttl)"
proof -
  obtain c m1 where g: "cache_get t (sha256 (sx G) (the (extract_bearer hs))) m = (c, m1)" by (metis surj_pair)
  note inv = cache_get_inv [OF assms(2) g]
  show "cache_inv G provider ttl t m'"
    using assms g inv(1) cache_insert_inv [of G provider ttl t m1]
    by (auto simp: resolve_principal_async_def Let_def split: option.splits)
  assume none: "resolve_principal G gw hs t = None" and r: "r = Some p"
  then obtain token where token: "extract_bearer hs = Some token"
    using assms(1,3) by (auto simp: resolve_principal_async_def split: option.splits)
  show "\<exists>\<tau> token token'. extract_bearer hs = Some token \<and> sha256 (sx G) token' = sha256 (sx G) token \<and> \<tau> \<le> t \<and>
      provider \<tau> token' = Some (pr_tenant p) \<and> (\<tau> = t \<or> t < \<tau> + ttl)"
  proof (cases c)
    case None
    then have "provider t token = Some (pr_tenant p)"
      using assms(1,3) none r token g by (auto simp: resolve_principal_async_def split: option.splits)
    then show ?thesis using token by blast
  next
    case (Some tenant)
    then have "pr_tenant p = tenant" using assms(1,3) none r token g by (auto simp: resolve_principal_async_def)
    then show ?thesis using inv(2) [OF Some] token by (fastforce simp: validated_def)
  qed
qed

lemma serve_all_inv:
  assumes "gw_oidc gw = Some ttl" "sorted (map fst rqs)" "\<forall>(t, hs) \<in> set rqs. t \<le> now_unix"
  shows "cache_inv G provider ttl now_unix (foldl (serve G gw provider) [] rqs)"
  using assms(2,3)
proof (induction rqs arbitrary: now_unix rule: rev_induct)
  case (snoc rq rqs)
  obtain t hs where rq: "rq = (t, hs)" by force
  have "cache_inv G provider ttl t (foldl (serve G gw provider) [] rqs)"
    using snoc.IH [of t] snoc.prems(1) by (auto simp: rq sorted_append case_prod_beta)
  then have "cache_inv G provider ttl t (serve G gw provider (foldl (serve G gw provider) [] rqs) rq)"
    using resolve_async_inv(1) [OF assms(1)] by (simp add: serve_def rq prod_eq_iff)
  then show ?case using snoc.prems(2) cache_inv_later by (auto simp: rq)
qed (simp add: cache_inv_empty)

lemma proxy_context:
  assumes "signing_ok G" "\<forall>b. list_all visible (std64_encode G b)" "int t + 30 < 2 ^ 63"
    and "resolve_principal_async G gw validate (rq_headers rq) t m = (Some p, m1)"
    and "utf8_valid (pr_tenant p)" "\<forall>u. pr_sub p = Some u \<longrightarrow> utf8_valid u"
    and "proxy_request G gw validate rq t m = (Forward url hs body, m2)"
  shows "body = rq_body rq \<and> (\<exists>wire c. filter (\<lambda>(k, _). k = TENANT_CTX_HEADER) hs = [(TENANT_CTX_HEADER, wire)] \<and> hdr_str wire = Some wire \<and>
    tc_tenant_id c = pr_tenant p \<and> tc_sub c = pr_sub p \<and>
    (\<forall>t'. verify_at G wire (ed_public G (gw_key gw)) t' =
       (if int t + 30 < t' then Inl (CtxExpired (int t + 30) t') else Inr c)))"
proof -
  obtain c wire where c: "issue_default_with_sub G (gw_key gw) (int t) (pr_tenant p) [] (pr_sub p) = Inr c"
      "context_encode G c = Inr wire" "hs = forwarded_headers wire (rq_headers rq)" "body = rq_body rq"
    using assms(4,7) upstream_refusal [of G "gw_config gw" "rq_path rq" "pr_tenant p"]
    by (auto simp: proxy_request_def split: sum.splits if_splits)
  have wire: "hdr_str wire = Some wire" using c(2) assms(2) by (auto simp: context_encode_def hdr_str_def)
  have fields: "tc_tenant_id c = pr_tenant p" "tc_sub c = pr_sub p" "tc_exp_unix c = int t + 30"
    using c(1)
    by (auto simp: issue_default_with_sub_def issue_with_sub_def canonical_signed_bytes_def Let_def
        DEFAULT_EXTRA_LIFETIME_SECS_def split: if_splits)
  then have "context_ok c" using assms(3,5,6) by (auto simp: context_ok_def)
  from issue_encode_verify [OF assms(1) c(1) [unfolded issue_default_with_sub_def] c(2) this]
  show ?thesis using c(3,4) forwarded_context [OF wire] fields wire by (auto simp: DEFAULT_EXTRA_LIFETIME_SECS_def)
qed

section \<open>Properties\<close>

text \<open>
  The context the gateway sends. Whatever headers the client sent, a forwarded request
  carries one context header; until thirty seconds after the request every service
  accepts it, as a statement of the tenant and the user the gateway found, and later
  every service refuses it as expired. The body is passed on unchanged.
\<close>

lemma proxy_sends_context:
  assumes "signing_ok G" "\<forall>b. list_all visible (std64_encode G b)" "int t + 30 < 2 ^ 63"
    and "resolve_principal_async G gw validate (rq_headers rq) t m = (Some p, m1)"
    and "utf8_valid (pr_tenant p)" "\<forall>u. pr_sub p = Some u \<longrightarrow> utf8_valid u"
    and "proxy_request G gw validate rq t m = (Forward url hs body, m2)"
  shows "body = rq_body rq \<and> (\<exists>wire c. filter (\<lambda>(k, _). k = TENANT_CTX_HEADER) hs = [(TENANT_CTX_HEADER, wire)] \<and>
    tc_tenant_id c = pr_tenant p \<and> tc_sub c = pr_sub p \<and>
    (\<forall>t'. verify_at G wire (ed_public G (gw_key gw)) t' =
       (if int t + 30 < t' then Inl (CtxExpired (int t + 30) t') else Inr c)))"
  using proxy_context [OF assms] by blast

text \<open>
  C16. What a service or the gateway accepts was signed for that purpose. If a verifying
  key accepts nothing but the contexts, session cookies and login states its owner has
  signed, a context that verifies is one of those contexts, a cookie that is accepted as
  a session is one of those sessions, and one accepted as a login state one of those
  states: none of the three passes for another.
\<close>

theorem accepted_was_signed:
  assumes "codec_ok (sx_codec G)" "maps_marked (sx_codec G)" "only_signed G vk (signed_messages G cs ss ts)"
    and "\<forall>c \<in> cs. context_ok c" "\<forall>c \<in> ss. session_ok c" "\<forall>c \<in> ts. state_ok c"
  shows "(\<forall>wire t c. verify_at G wire vk t = Inr c \<longrightarrow> context_ok c \<longrightarrow>
            (\<exists>d \<in> cs. c\<lparr>tc_signature := []\<rparr> = d\<lparr>tc_signature := []\<rparr>)) \<and>
         (\<forall>wire t b c. decode_session G vk wire t b = Inr c \<longrightarrow> c \<in> ss) \<and>
         (\<forall>wire c. decode_state G vk wire = Inr c \<longrightarrow> c \<in> ts)"
proof (intro conjI allI impI)
  fix wire t c assume ok: "verify_at G wire vk t = Inr c" "context_ok c"
  then have "cbor_encode (sx_codec G) (CbMap (signed_body c)) \<in> signed_messages G cs ss ts"
    using assms(3)
    by (auto simp: verify_at_def bind_res_eq_Inr canonical_signed_bytes_def signature_valid_def only_signed_def split: if_splits)
  then obtain d where "d \<in> cs" "cbor_encode (sx_codec G) (CbMap (signed_body c)) = cbor_encode (sx_codec G) (CbMap (signed_body d))"
    using kinds_apart(1,2) [OF assms(2)] by (auto simp: signed_messages_def)
  then show "\<exists>d \<in> cs. c\<lparr>tc_signature := []\<rparr> = d\<lparr>tc_signature := []\<rparr>"
    using signed_bytes_inj [OF assms(1) ok(2)] assms(4) by blast
next
  fix wire t b c assume "decode_session G vk wire t b = Inr c"
  then obtain body sig v where v: "ed_verify G vk (signed_message SESSION_DOMAIN_TAG body) sig"
      "cbor_decode (sx_codec G) body = Inr v" "session_of_cbor v = Some c"
    by (rule decode_signed_message [OF decode_session_signed])
  then show "c \<in> ss" using session_from_signed [OF assms(1,2,5)] assms(3) by (auto simp: only_signed_def)
next
  fix wire c assume "decode_state G vk wire = Inr c"
  then obtain body sig v where v: "ed_verify G vk (signed_message STATE_DOMAIN_TAG body) sig"
      "cbor_decode (sx_codec G) body = Inr v" "state_of_cbor v = Some c"
    unfolding decode_state_def by (rule decode_signed_message)
  then show "c \<in> ts" using state_from_signed [OF assms(1,2,6)] assms(3) by (auto simp: only_signed_def)
qed

text \<open>
  C23. How long a revoked API key works. After any sequence of requests in the order of
  their times the cache has at most ten thousand entries, and a request that is let
  through by its API key names a tenant that the identity provider gave, for a token with
  the same hash, at the time of the request or less than the configured lifetime before.
\<close>

theorem revocation_latency:
  assumes "gw_oidc gw = Some ttl" "sorted (map fst rqs)" "\<forall>(u, hs) \<in> set rqs. u \<le> t"
    and "resolve_principal G gw hs t = None"
    and "resolve_principal_async G gw (provider t) hs t (foldl (serve G gw provider) [] rqs) = (Some p, m)"
  shows "length m \<le> VALIDATION_CACHE_MAX_ENTRIES \<and>
    (\<exists>\<tau> token token'. extract_bearer hs = Some token \<and> sha256 (sx G) token' = sha256 (sx G) token \<and> \<tau> \<le> t \<and>
       provider \<tau> token' = Some (pr_tenant p) \<and> (\<tau> = t \<or> t < \<tau> + ttl))"
  using resolve_async_inv [OF assms(1) serve_all_inv [OF assms(1-3)] assms(5)] assms(4) by (simp add: cache_inv_def)

section \<open>Examples\<close>

text \<open>Toy primitives with the assumed laws: hexadecimal for base 64, a key that signs by name.\<close>

definition marked_codec :: cbor_codec where
  "marked_codec = \<lparr>cbor_encode = (\<lambda>v. (case v of CbMap _ \<Rightarrow> CHR 0xA0 | _ \<Rightarrow> NUL) # replicate (to_nat v) NUL),
     cbor_decode = (\<lambda>b. Inr (from_nat (length b - 1)))\<rparr>"

definition toy_signing :: signing where
  "toy_signing = \<lparr>sx = toy_ext, sx_codec = marked_codec, std64_encode = hex_encode,
     std64_decode = (\<lambda>s. map_err (\<lambda>_. ''hex'') (hex_decode s)), ed_public = (\<lambda>sk. sk), ed_sign = (\<lambda>sk m. pad_to 64 sk),
     ed_verify = (\<lambda>vk m sig. sig = pad_to 64 vk)\<rparr>"

lemma marked_codec_ok [simp]: "codec_ok marked_codec" "maps_marked marked_codec"
  by (simp_all add: codec_ok_def maps_marked_def marked_codec_def)

lemma toy_signing_ok [simp]: "signing_ok toy_signing" "list_all visible (std64_encode toy_signing b)"
proof -
  show "signing_ok toy_signing"
    by (simp add: signing_ok_def ed_ok_def std64_ok_def toy_signing_def hex_decode_encode)
  show "list_all visible (std64_encode toy_signing b)"
    using hex_chars_range by (fastforce simp: toy_signing_def list_all_iff visible_def)
qed

definition dev_gateway :: gateway where
  "dev_gateway = \<lparr>gw_config = \<lparr>gc_shards = [''http://shard/''], gc_tokens = Map.empty, gc_allow_dev_tokens = True,
     gc_builder = None, gc_marketplace = None\<rparr>, gw_key = ''k'', gw_oidc = Some 60\<rparr>"

definition dev_request :: request where
  "dev_request = \<lparr>rq_path = ''/files'', rq_path_and_query = ''/files'',
     rq_headers = [(''authorization'', ''Bearer dev-a''), (TENANT_CTX_HEADER, ''forged'')], rq_body = ''hi''\<rparr>"

lemma dev_principal:
  "resolve_principal_async toy_signing dev_gateway v (rq_headers dev_request) t m = (Some \<lparr>pr_tenant = ''a'', pr_sub = None\<rparr>, m)"
proof -
  have "trim ''dev-a'' = ''dev-a''" by (rule trim_ascii_id) (simp_all add: is_ascii_def ws1_def)
  then have b: "extract_bearer (rq_headers dev_request) = Some ''dev-a''"
    by (simp add: extract_bearer_def hdr_get_def hdr_str_def visible_def dev_request_def strip_prefix_def)
  have "resolve_session_cookie toy_signing ''k'' (rq_headers dev_request) t = None"
    by (simp add: resolve_session_cookie_def parse_cookie_def hdr_get_def dev_request_def TENANT_CTX_HEADER_def)
  then show ?thesis using b
    by (simp add: resolve_principal_async_def resolve_principal_def resolve_bearer_token_def dev_gateway_def strip_prefix_def toy_signing_def)
qed

text \<open>A key that has signed one session and nothing else.\<close>

definition one_session :: session_claims where
  "one_session = \<lparr>sn_tenant = ''a'', sn_sub = ''u'', sn_workos_session_id = ''w'', sn_issued_at = 1, sn_expires_at = 9\<rparr>"

definition one_session_signing :: signing where
  "one_session_signing = toy_signing\<lparr>ed_verify := (\<lambda>vk m sig.
     m = signed_message SESSION_DOMAIN_TAG (cbor_encode marked_codec (session_to_cbor one_session)))\<rparr>"

theorem accepted_was_signed_witness:
  "\<exists>wire. encode_session one_session_signing ''k'' one_session = Inr wire \<and>
     decode_session one_session_signing ''k'' wire 5 False = Inr one_session \<and>
     (\<forall>c. decode_state one_session_signing ''k'' wire \<noteq> Inr c)"
proof -
  let ?G = one_session_signing
  have G: "sx_codec ?G = marked_codec" "sx ?G = toy_ext" by (simp_all add: one_session_signing_def toy_signing_def)
  have ok: "session_ok one_session" by (simp add: session_ok_def one_session_def U64_MAX_def is_ascii_def)
  obtain wire where wire: "encode_session ?G ''k'' one_session = Inr wire" by (simp add: encode_session_def encode_signed_def Let_def)
  have "only_signed ?G ''k'' (signed_messages ?G {} {one_session} {})"
    by (simp add: only_signed_def signed_messages_def one_session_signing_def toy_signing_def)
  from accepted_was_signed [OF _ _ this] ok have "\<forall>c. decode_state ?G ''k'' wire \<noteq> Inr c" by (simp add: G)
  moreover have "decode_session ?G ''k'' wire 5 False = Inr one_session"
  proof -
    let ?b = "cbor_encode marked_codec (session_to_cbor one_session)"
    have d: "cbor_decode marked_codec (cbor_encode marked_codec v) = Inr v" for v by (simp add: marked_codec_def)
    have "wire = cbor_encode marked_codec (envelope_cbor ?b (pad_to 64 ''k''))"
      using wire by (simp add: encode_session_def encode_signed_def Let_def G toy_ext_def) (simp add: one_session_signing_def toy_signing_def)
    moreover have "signature_valid ?G ''k'' (signed_message SESSION_DOMAIN_TAG ?b) (pad_to 64 ''k'')"
      by (simp add: signature_valid_def one_session_signing_def toy_signing_def)
    ultimately show ?thesis
      using session_codec [OF ok]
      by (simp add: decode_session_def decode_signed_def G d toy_ext_def cookie_parts_def envelope_cbor_def cb_get_def cb_bytes_def)
        (simp add: one_session_def)
  qed
  ultimately show ?thesis using wire by blast
qed

theorem revocation_latency_witness:
  "\<exists>p m. resolve_principal_async toy_signing dev_gateway (\<lambda>_. Some ''a'') [(''authorization'', ''Bearer key'')] 7 [] = (Some p, m) \<and>
     pr_tenant p = ''a'' \<and> length m \<le> VALIDATION_CACHE_MAX_ENTRIES"
proof -
  let ?hs = "[(''authorization'', ''Bearer key'')]" and ?P = "\<lambda>_. Some ''a''"
  have "trim ''key'' = ''key''" by (rule trim_ascii_id) (simp_all add: is_ascii_def ws1_def)
  then have b: "extract_bearer ?hs = Some ''key''"
    by (simp add: extract_bearer_def hdr_get_def hdr_str_def visible_def strip_prefix_def)
  have none: "resolve_principal toy_signing dev_gateway ?hs 7 = None"
    using b by (simp add: resolve_principal_def resolve_session_cookie_def parse_cookie_def hdr_get_def
        resolve_bearer_token_def dev_gateway_def strip_prefix_def)
  obtain m where run: "resolve_principal_async toy_signing dev_gateway ?P ?hs 7 [] = (Some \<lparr>pr_tenant = ''a'', pr_sub = None\<rparr>, m)"
    using none b by (simp add: resolve_principal_async_def dev_gateway_def cache_get_def Let_def bt_get_def)
  have "gw_oidc dev_gateway = Some 60" by (simp add: dev_gateway_def)
  from revocation_latency [OF this, where rqs = "[]" and provider = "\<lambda>_. ?P", simplified, OF none run] show ?thesis
    using run by auto
qed

end
