(* ===== verification/Omp_Registry.thy ===== *)
theory Omp_Registry
  imports Omp_Config Omp_Gateway
begin

text \<open>
  \<open>crates/omp-core/src/registry.rs\<close>, the tenants of a server with the hashes of their
  tokens, and \<open>crates/omp-server/src/auth.rs\<close>, which finds the repository of a request.
  Random bytes are arguments; opening a repository is a parameter.
\<close>

section \<open>Entries\<close>

datatype encryption_mode = Plaintext | Encrypted bytes

definition is_encrypted :: "encryption_mode \<Rightarrow> bool" where
  "is_encrypted m = (case m of Encrypted _ \<Rightarrow> True | Plaintext \<Rightarrow> False)"

record tenant_entry =
  te_id :: str
  te_token_sha256 :: str
  te_quotas :: quotas
  te_encryption_mode :: encryption_mode

type_synonym registry = "tenant_entry list"

text \<open>\<open>constant_time_eq\<close> on bytes.\<close>

definition u8_of :: "char \<Rightarrow> 8 word" where
  "u8_of c = of_nat (byte_val c)"

definition constant_time_eq :: "str \<Rightarrow> str \<Rightarrow> bool" where
  "constant_time_eq a b =
     (if length a \<noteq> length b then False
      else foldl (\<lambda>d (x, y). d OR (u8_of x XOR u8_of y)) 0 (zip a b) = 0)"

definition by_id :: "registry \<Rightarrow> str \<Rightarrow> tenant_entry option" where
  "by_id reg i = find (\<lambda>e. te_id e = i) reg"

definition by_token :: "ext \<Rightarrow> registry \<Rightarrow> str \<Rightarrow> tenant_entry option" where
  "by_token E reg token = (let h = hash_token E token in find (\<lambda>e. constant_time_eq (te_token_sha256 e) h) reg)"

definition ALPHA :: str where
  "ALPHA = ''ABCDEFGHIJKLMNOPQRSTUVWXYZabcdefghijklmnopqrstuvwxyz0123456789''"

text \<open>Thirty-two random bytes, each reduced to one of 62 characters.\<close>

definition generate_token :: "bytes \<Rightarrow> str" where
  "generate_token rnd = map (\<lambda>b. ALPHA ! (byte_val b mod length ALPHA)) rnd"

definition create_with_mode ::
  "ext \<Rightarrow> bytes \<Rightarrow> registry \<Rightarrow> str \<Rightarrow> quotas \<Rightarrow> encryption_mode \<Rightarrow> (registry \<times> str) result"
where
  "create_with_mode E rnd reg i q mode =
     (if by_id reg i \<noteq> None then Err (Conflict (''tenant '' @ i @ '' already exists''))
      else let token = generate_token rnd in
        Ok (reg @ [\<lparr>te_id = i, te_token_sha256 = hash_token E token, te_quotas = q, te_encryption_mode = mode\<rparr>], token))"

definition registry_create :: "ext \<Rightarrow> bytes \<Rightarrow> registry \<Rightarrow> str \<Rightarrow> quotas \<Rightarrow> (registry \<times> str) result" where
  "registry_create E rnd reg i q = create_with_mode E rnd reg i q Plaintext"

definition create_encrypted :: "ext \<Rightarrow> bytes \<Rightarrow> registry \<Rightarrow> str \<Rightarrow> quotas \<Rightarrow> bytes \<Rightarrow> (registry \<times> str) result" where
  "create_encrypted E rnd reg i q identity_pub = create_with_mode E rnd reg i q (Encrypted identity_pub)"

definition registry_remove :: "registry \<Rightarrow> str \<Rightarrow> registry result" where
  "registry_remove reg i =
     (let reg' = filter (\<lambda>e. te_id e \<noteq> i) reg in
      if length reg' = length reg then Err (NotFound (''tenant '' @ i)) else Ok reg')"

fun set_quotas :: "registry \<Rightarrow> str \<Rightarrow> quotas \<Rightarrow> registry result" where
  "set_quotas [] i q = Err (NotFound (''tenant '' @ i))"
| "set_quotas (e # reg) i q =
     (if te_id e = i then Ok (e\<lparr>te_quotas := q\<rparr> # reg) else bind_res (set_quotas reg i q) (\<lambda>reg'. Ok (e # reg')))"

section \<open>The file\<close>

text \<open>
  \<open>tenants.toml\<close>. Absent limits are left out; TOML integers are 64 bits with a sign, so
  a larger limit cannot be written.
\<close>

definition limit_item :: "str \<Rightarrow> nat option \<Rightarrow> (str \<times> titem) list option" where
  "limit_item k v =
     (case v of None \<Rightarrow> Some [] | Some n \<Rightarrow> if n < 2 ^ 63 then Some [(k, IValue (TInteger (int n)))] else None)"

definition quotas_to_table :: "quotas \<Rightarrow> toml_table option" where
  "quotas_to_table q = map_option concat (those
     [limit_item ''bytes'' (q_bytes q), limit_item ''object_count'' (q_object_count q),
      limit_item ''probe_fuel_per_request'' (q_probe_fuel q), limit_item ''wall_clock_s_per_request'' (q_wall_clock_s q),
      limit_item ''concurrent_writes'' (q_concurrent_writes q)])"

definition mode_to_table :: "encryption_mode \<Rightarrow> toml_table" where
  "mode_to_table m =
     (case m of Plaintext \<Rightarrow> [(''kind'', IValue (TString ''plaintext''))]
      | Encrypted pub \<Rightarrow> [(''kind'', IValue (TString ''encrypted'')), (''identity_pub'', IValue (TString (hex_encode pub)))])"

definition entry_to_table :: "tenant_entry \<Rightarrow> toml_table option" where
  "entry_to_table e =
     map_option (\<lambda>q. [(''id'', IValue (TString (te_id e))), (''token_sha256'', IValue (TString (te_token_sha256 e))),
        (''quotas'', ITable q), (''encryption_mode'', ITable (mode_to_table (te_encryption_mode e)))])
       (quotas_to_table (te_quotas e))"

definition registry_to_doc :: "registry \<Rightarrow> toml_table option" where
  "registry_to_doc reg =
     (if reg = [] then Some [(''tenants'', IValue (TArray []))]
      else map_option (\<lambda>ts. [(''tenants'', IArrayOfTables ts)]) (those (map entry_to_table reg)))"

definition quotas_of_table :: "toml_table \<Rightarrow> quotas option" where
  "quotas_of_table t =
     (case (opt_uint U64_MAX t ''bytes'', opt_uint U64_MAX t ''object_count'', opt_uint U64_MAX t ''probe_fuel_per_request'',
            opt_uint U32_MAX t ''wall_clock_s_per_request'', opt_uint U32_MAX t ''concurrent_writes'') of
        (Some b, Some n, Some f, Some w, Some c) \<Rightarrow>
          Some \<lparr>q_bytes = b, q_object_count = n, q_probe_fuel = f, q_wall_clock_s = w, q_concurrent_writes = c\<rparr>
      | _ \<Rightarrow> None)"

definition mode_of_table :: "toml_table \<Rightarrow> encryption_mode option" where
  "mode_of_table t =
     (case opt_str t ''kind'' of
        Some (Some k) \<Rightarrow>
          if k = ''plaintext'' then Some Plaintext
          else if k = ''encrypted'' then
            (case opt_str t ''identity_pub'' of
               Some (Some s) \<Rightarrow> if length s \<noteq> 64 then None
                 else (case hex_decode s of Inr pub \<Rightarrow> Some (Encrypted pub) | Inl _ \<Rightarrow> None)
             | _ \<Rightarrow> None)
          else None
      | _ \<Rightarrow> None)"

definition entry_of_table :: "toml_table \<Rightarrow> tenant_entry option" where
  "entry_of_table t =
     (case (opt_str t ''id'', opt_str t ''token_sha256'',
            (case sect t ''quotas'' of Some None \<Rightarrow> Some unlimited | Some (Some q) \<Rightarrow> quotas_of_table q | None \<Rightarrow> None),
            (case sect t ''encryption_mode'' of Some None \<Rightarrow> Some Plaintext | Some (Some m) \<Rightarrow> mode_of_table m | None \<Rightarrow> None)) of
        (Some (Some i), Some (Some h), Some q, Some m) \<Rightarrow>
          Some \<lparr>te_id = i, te_token_sha256 = h, te_quotas = q, te_encryption_mode = m\<rparr>
      | _ \<Rightarrow> None)"

definition inline_entries :: "tvalue list \<Rightarrow> toml_table list option" where
  "inline_entries vs = those (map (\<lambda>v. case v of
     TInlineTable kvs \<Rightarrow> Some (map (\<lambda>(k, x). (k, IValue x)) kvs) | _ \<Rightarrow> None) vs)"

definition registry_of_doc :: "toml_table \<Rightarrow> registry option" where
  "registry_of_doc doc =
     (case map_of doc ''tenants'' of
        None \<Rightarrow> Some []
      | Some (IArrayOfTables ts) \<Rightarrow> those (map entry_of_table ts)
      | Some (IValue (TArray vs)) \<Rightarrow> Option.bind (inline_entries vs) (\<lambda>ts. those (map entry_of_table ts))
      | _ \<Rightarrow> None)"

text \<open>The text of the file, or none.\<close>

definition registry_load :: "ext \<Rightarrow> str option \<Rightarrow> registry result" where
  "registry_load E file =
     (case file of
        None \<Rightarrow> Ok []
      | Some txt \<Rightarrow>
          bind_res (map_err (\<lambda>e. SchemaValidation (''tenants.toml: '' @ e)) (toml_parse E txt)) (\<lambda>doc.
          ok_or (SchemaValidation ''tenants.toml: invalid'') (registry_of_doc doc)))"

definition registry_save :: "ext \<Rightarrow> registry \<Rightarrow> str result" where
  "registry_save E reg =
     bind_res (ok_or (Internal ''serialize registry: out of range'') (registry_to_doc reg)) (\<lambda>doc. Ok (toml_show E doc))"

section \<open>The repository of a request\<close>

definition server_extract_bearer :: "headers \<Rightarrow> str option" where
  "server_extract_bearer hs =
     Option.bind (Option.bind (hdr_get hs ''authorization'') hdr_str) (\<lambda>h. map_option trim (strip_prefix ''Bearer '' h))"

datatype 'r server_mode = NoAuth 'r | MultiTenant registry

text \<open>The handles opened so far, by tenant.\<close>

definition get_or_open ::
  "(str \<Rightarrow> quotas \<Rightarrow> 'r result) \<Rightarrow> str \<Rightarrow> quotas \<Rightarrow> (str \<rightharpoonup> 'r) \<Rightarrow> 'r result \<times> (str \<rightharpoonup> 'r)"
where
  "get_or_open open_repo i q repos =
     (case repos i of
        Some r \<Rightarrow> (Ok r, repos)
      | None \<Rightarrow> (case open_repo i q of
            Inl e \<Rightarrow> (Err e, repos)
          | Inr r \<Rightarrow> (Ok r, repos(i \<mapsto> r))))"

definition server_resolve ::
  "ext \<Rightarrow> (str \<Rightarrow> quotas \<Rightarrow> 'r result) \<Rightarrow> 'r server_mode \<Rightarrow> headers \<Rightarrow> (str \<rightharpoonup> 'r) \<Rightarrow>
   ('r \<times> encryption_mode) result \<times> (str \<rightharpoonup> 'r)"
where
  "server_resolve E open_repo mode hs repos =
     (case mode of
        NoAuth r \<Rightarrow> (Ok (r, Plaintext), repos)
      | MultiTenant reg \<Rightarrow>
          (case server_extract_bearer hs of
             None \<Rightarrow> (Err (Unauthorized ''missing or malformed Authorization header''), repos)
           | Some token \<Rightarrow>
               (case by_token E reg token of
                  None \<Rightarrow> (Err (Unauthorized ''invalid token''), repos)
                | Some e \<Rightarrow>
                    (case get_or_open open_repo (te_id e) (te_quotas e) repos of
                       (Inl x, repos') \<Rightarrow> (Err x, repos')
                     | (Inr r, repos') \<Rightarrow> (Ok (r, te_encryption_mode e), repos')))))"

section \<open>Comparison and lookup\<close>

lemma u8_xor_zero: "u8_of x XOR u8_of y = 0 \<longleftrightarrow> x = y"
proof -
  have "u8_of x = u8_of y \<longleftrightarrow> x = y"
  proof
    assume "u8_of x = u8_of y"
    then have "unat (u8_of x) = unat (u8_of y)" by simp
    moreover have "unat (u8_of c) = byte_val c" for c
      using byte_val_lt [of c] by (simp add: u8_of_def unat_of_nat)
    ultimately show "x = y" by simp
  qed simp
  moreover have "v XOR w = 0 \<longleftrightarrow> v = w" for v w :: "8 word" by (metis xor.assoc xor.right_neutral xor_self_eq)
  ultimately show ?thesis by simp
qed

lemma diff_fold_zero:
  "length a = length b \<Longrightarrow> foldl (\<lambda>d (x, y). d OR (u8_of x XOR u8_of y)) acc (zip a b) = 0 \<longleftrightarrow> acc = 0 \<and> a = b"
  by (induction a b arbitrary: acc rule: list_induct2) (auto simp: or_eq_0_iff u8_xor_zero)

lemma constant_time_eq_iff: "constant_time_eq a b \<longleftrightarrow> a = b"
  by (auto simp: constant_time_eq_def diff_fold_zero)

lemma find_map_of: "map_option f (find P xs) = map_of (map (\<lambda>x. (P x, f x)) xs) True"
  by (induction xs) auto

section \<open>Registries over time\<close>

text \<open>
  The registries that the operations lead to from the empty one, with the tenants that are
  registered and the token each was given.
\<close>

inductive registry_run :: "ext \<Rightarrow> registry \<Rightarrow> (str \<times> str) list \<Rightarrow> bool" for E where
  run_empty: "registry_run E [] []"
| run_create: "registry_run E reg issued \<Longrightarrow> create_with_mode E rnd reg i q mode = Ok (reg', token) \<Longrightarrow>
    registry_run E reg' (issued @ [(i, token)])"
| run_remove: "registry_run E reg issued \<Longrightarrow> registry_remove reg i = Ok reg' \<Longrightarrow>
    registry_run E reg' (filter (\<lambda>p. fst p \<noteq> i) issued)"
| run_quotas: "registry_run E reg issued \<Longrightarrow> set_quotas reg i q = Ok reg' \<Longrightarrow> registry_run E reg' issued"

lemma set_quotas_keys:
  "set_quotas reg i q = Ok reg' \<Longrightarrow>
     map (\<lambda>e. (te_id e, te_token_sha256 e)) reg' = map (\<lambda>e. (te_id e, te_token_sha256 e)) reg"
  by (induction reg arbitrary: reg') (auto simp: bind_res_eq_Inr split: if_splits)

lemma map_filter_fst: "map f (filter (\<lambda>x. fst (f x) \<noteq> i) xs) = filter (\<lambda>p. fst p \<noteq> i) (map f xs)"
  by (induction xs) auto

lemma registry_run_keys:
  "registry_run E reg issued \<Longrightarrow>
     map (\<lambda>e. (te_id e, te_token_sha256 e)) reg = map (\<lambda>p. (fst p, hash_token E (snd p))) issued \<and> distinct (map fst issued)"
proof (induction rule: registry_run.induct)
  case (run_create reg issued rnd i q mode reg' token)
  then have new: "by_id reg i = None" "reg' = reg @ [\<lparr>te_id = i, te_token_sha256 = hash_token E token, te_quotas = q, te_encryption_mode = mode\<rparr>]"
    by (auto simp: create_with_mode_def Let_def split: if_splits)
  have "i \<notin> fst ` set (map (\<lambda>e. (te_id e, te_token_sha256 e)) reg)" using new(1) by (auto simp: by_id_def find_None_iff)
  then have "i \<notin> fst ` set issued" using run_create.IH by (simp add: image_image)
  then show ?case using run_create.IH new(2) by simp
next
  case (run_remove reg issued i reg')
  then have "reg' = filter (\<lambda>e. te_id e \<noteq> i) reg" by (simp add: registry_remove_def Let_def split: if_splits)
  then show ?case
    using run_remove.IH map_filter_fst [of "\<lambda>e. (te_id e, te_token_sha256 e)" i reg]
      map_filter_fst [of "\<lambda>p. (fst p, hash_token E (snd p))" i issued]
    by (simp add: distinct_map_filter)
qed (auto dest: set_quotas_keys)

lemma registry_run_ids: "registry_run E reg issued \<Longrightarrow> map te_id reg = map fst issued"
  using arg_cong [where f = "map fst", OF conjunct1 [OF registry_run_keys]] by (simp add: comp_def)

lemma by_token_owner:
  assumes "registry_run E reg issued" "inj_on (sha256 E) (insert token (snd ` set issued))"
  shows "map_option te_id (by_token E reg token) = map_of (map (\<lambda>(i, t). (t, i)) issued) token"
proof -
  let ?keys = "map (\<lambda>e. (te_id e, te_token_sha256 e)) reg"
  have "map_option te_id (by_token E reg token) = map_of (map (\<lambda>(i, h). (h = hash_token E token, i)) ?keys) True"
    by (simp add: by_token_def find_map_of constant_time_eq_iff comp_def)
  also have "\<dots> = map_of (map (\<lambda>p. (hash_token E (snd p) = hash_token E token, fst p)) issued) True"
    using registry_run_keys [OF assms(1)] by (simp add: comp_def case_prod_beta)
  also have "\<dots> = map_of (map (\<lambda>p. (snd p = token, fst p)) issued) True"
  proof -
    have hex: "hex_encode x = hex_encode y \<longleftrightarrow> x = y" for x y using hex_decode_encode by (metis sum.inject(2))
    have "hash_token E t = hash_token E token \<longleftrightarrow> t = token" if "(i, t) \<in> set issued" for i t
    proof -
      have "t \<in> insert token (snd ` set issued)" using that by force
      then show ?thesis using inj_on_eq_iff [OF assms(2)] by (simp add: hash_token_def sha256_hex_def hex)
    qed
    then show ?thesis by (intro arg_cong [where f = "\<lambda>xs. map_of xs True"] map_cong) auto
  qed
  also have "\<dots> = map_of (map (\<lambda>(i, t). (t, i)) issued) token"
    by (induction issued) auto
  finally show ?thesis .
qed

text \<open>The handles of a server: each was opened for the tenant it is kept under.\<close>

definition repos_ok :: "(str \<Rightarrow> quotas \<Rightarrow> 'r result) \<Rightarrow> (str \<rightharpoonup> 'r) \<Rightarrow> bool" where
  "repos_ok open_repo repos \<longleftrightarrow> (\<forall>i r. repos i = Some r \<longrightarrow> (\<exists>q. open_repo i q = Ok r))"

lemma get_or_open_ok:
  assumes "repos_ok open_repo repos" "get_or_open open_repo i q repos = (x, repos')"
  shows "repos_ok open_repo repos'" and "x = Ok r \<Longrightarrow> \<exists>q. open_repo i q = Ok r"
  using assms by (auto simp: get_or_open_def repos_ok_def split: option.splits sum.splits if_splits)

lemma server_resolve_ok:
  assumes "repos_ok open_repo repos" "server_resolve E open_repo (MultiTenant reg) hs repos = (x, repos')"
  shows "repos_ok open_repo repos'"
    and "x = Ok (r, mode) \<Longrightarrow> \<exists>token e q. server_extract_bearer hs = Some token \<and> by_token E reg token = Some e \<and>
      open_repo (te_id e) q = Ok r \<and> mode = te_encryption_mode e"
  using assms get_or_open_ok [OF assms(1)]
  by (auto simp: server_resolve_def split: option.splits sum.splits prod.splits)

lemma repos_ok_requests:
  "repos_ok open_repo (foldl (\<lambda>repos hs. snd (server_resolve E open_repo (MultiTenant reg) hs repos)) Map.empty rqs)"
proof (induction rqs rule: rev_induct)
  case (snoc hs rqs)
  then show ?case using server_resolve_ok(1) [OF snoc] by (simp add: prod_eq_iff)
qed (simp add: repos_ok_def)

section \<open>Properties\<close>

text \<open>
  C22. Tenants are kept apart. In a registry that the operations lead to, no two tenants
  have the same name. After any requests, one that is answered carries a token that the
  registry gave to a tenant who is still registered, and the handle it gets was opened for
  that tenant's repository. Tokens with equal hashes are excluded by assumption.
\<close>

theorem requests_isolated:
  assumes "registry_run E reg issued" "inj_on (sha256 E) (insert token (snd ` set issued))"
    and "server_extract_bearer hs = Some token"
    and "server_resolve E open_repo (MultiTenant reg) hs
      (foldl (\<lambda>repos hs. snd (server_resolve E open_repo (MultiTenant reg) hs repos)) Map.empty rqs) = (Ok (r, mode), repos)"
  shows "distinct (map te_id reg) \<and> (\<exists>i q. (i, token) \<in> set issued \<and> open_repo i q = Ok r)"
proof
  show "distinct (map te_id reg)" using registry_run_ids [OF assms(1)] registry_run_keys [OF assms(1)] by simp
  obtain e q where e: "by_token E reg token = Some e" "open_repo (te_id e) q = Ok r"
    using server_resolve_ok(2) [OF repos_ok_requests assms(4)] assms(3) by auto
  then have "map_of (map (\<lambda>(i, t). (t, i)) issued) token = Some (te_id e)" using by_token_owner [OF assms(1,2)] by simp
  then have "(te_id e, token) \<in> set issued" by (auto dest: map_of_SomeD)
  then show "\<exists>i q. (i, token) \<in> set issued \<and> open_repo i q = Ok r" using e(2) by blast
qed

text \<open>One tenant, registered with the token of thirty-two zero bytes.\<close>

theorem requests_isolated_witness:
  "\<exists>reg token hs repos. create_with_mode toy_ext (replicate 32 NUL) [] ''ann'' unlimited Plaintext = Ok (reg, token) \<and>
     server_resolve toy_ext (\<lambda>i q. Ok i) (MultiTenant reg) hs Map.empty = (Ok (''ann'', Plaintext), repos)"
proof -
  let ?t = "replicate 32 (CHR ''A'')" and ?hs = "[(''authorization'', ''Bearer '' @ replicate 32 (CHR ''A''))]"
  let ?e = "\<lparr>te_id = ''ann'', te_token_sha256 = hash_token toy_ext ?t, te_quotas = unlimited, te_encryption_mode = Plaintext\<rparr>"
  have c: "create_with_mode toy_ext (replicate 32 NUL) [] ''ann'' unlimited Plaintext = Ok ([?e], ?t)"
    by (simp add: create_with_mode_def by_id_def generate_token_def ALPHA_def Let_def)
  then have run: "registry_run toy_ext [?e] [(''ann'', ?t)]" using run_create [OF run_empty] by fastforce
  have "trim ?t = ?t" by (rule trim_ascii_id) (simp add: is_ascii_def ws1_def)
  then have b: "server_extract_bearer ?hs = Some ?t"
    by (simp add: server_extract_bearer_def hdr_get_def hdr_str_def visible_def strip_prefix_def list_all_iff)
  have r: "server_resolve toy_ext (\<lambda>i q. Ok i) (MultiTenant [?e]) ?hs Map.empty = (Ok (''ann'', Plaintext), [''ann'' \<mapsto> ''ann''])"
    using b by (simp add: server_resolve_def by_token_def constant_time_eq_iff get_or_open_def)
  from requests_isolated [OF run _ b, where rqs = "[]" and open_repo = "\<lambda>i q. Ok i"] r
  have "distinct (map te_id [?e])" by simp
  then show ?thesis using c r by blast
qed

end
