(* ===== verification/Omp_Routes.thy ===== *)
theory Omp_Routes
  imports Omp_Json Omp_Registry
begin

text \<open>
  \<open>crates/omp-server/src/routes.rs\<close> and \<open>health.rs\<close>: the handlers of the HTTP server, each
  from the arguments that axum has decoded to the answer and the disk of the tenant; the
  envelope of \<open>crates/omp-events\<close> that a commit publishes; and the server, which finds the
  repository of a request and runs the handler on it.

  A request that is malformed is answered by axum before a handler runs. A handler that does
  not end (\<open>/audit\<close> on a chain with a cycle) has no answer. Each request reads the clock once.
\<close>

section \<open>Answers\<close>

datatype body = NoBody | JsonBody jvalue | BytesBody bytes | TextBody str

datatype reply = Reply (reply_status: nat) (reply_body: body)

fun error_text :: "omp_error \<Rightarrow> str" where
  "error_text (NotFound s) = ''not found: '' @ s"
| "error_text (SchemaValidation s) = ''schema validation failed: '' @ s"
| "error_text (IngestValidation s) = ''ingest validation failed: '' @ s"
| "error_text (ProbeFailed p r) = ''probe failed: '' @ p @ '': '' @ r"
| "error_text (Conflict s) = ''conflict: '' @ s"
| "error_text (InvalidPath s) = ''invalid path: '' @ s"
| "error_text (Unauthorized s) = ''unauthorized: '' @ s"
| "error_text (QuotaExceeded s) = ''quota exceeded: '' @ s"
| "error_text (EncryptionModeMismatch s) = ''encryption mode mismatch: '' @ s"
| "error_text (Io p s) = ''io error at '' @ p @ '': '' @ s"
| "error_text (Corrupt s) = ''corrupt object: '' @ s"
| "error_text (Internal s) = ''internal error: '' @ s"

definition error_body :: "str \<Rightarrow> str \<Rightarrow> jvalue" where
  "error_body c msg = jobj [(''error'', jobj [(''code'', JString c), (''message'', JString msg)])]"

definition to_response :: "omp_error \<Rightarrow> reply" where
  "to_response e = Reply (http_status (code e)) (JsonBody (error_body (code_as_str (code e)) (error_text e)))"

definition ok_json :: "jvalue \<Rightarrow> reply" where
  "ok_json v = Reply 200 (JsonBody v)"

definition ok_compact :: "bool \<Rightarrow> (jvalue \<Rightarrow> jvalue) \<Rightarrow> jvalue \<Rightarrow> reply" where
  "ok_compact verbose compact v = ok_json (if verbose then v else compact v)"

text \<open>An operation of the library (the query language has its own \<open>op\<close> and \<open>reads\<close>).\<close>

type_synonym 'a action = "'a Omp_Store.op"

abbreviation peek :: "(disk \<Rightarrow> 'a result) \<Rightarrow> 'a action" where
  "peek \<equiv> Omp_Store.reads"

definition answer :: "'a action \<Rightarrow> ('a \<Rightarrow> reply) \<Rightarrow> disk \<Rightarrow> reply \<times> disk" where
  "answer m f s = (case m s of (Inl e, s') \<Rightarrow> (to_response e, s') | (Inr x, s') \<Rightarrow> (f x, s'))"

definition require_plaintext_mode :: "encryption_mode \<Rightarrow> str \<Rightarrow> unit result" where
  "require_plaintext_mode mode endpoint =
     (if is_encrypted mode then Err (EncryptionModeMismatch (''endpoint '' @ endpoint @
        '' expects plaintext objects; this tenant is encrypted'')) else Ok ())"

section \<open>Requests\<close>

text \<open>
  A part of a multipart body: its name and its content as text and as bytes, none if reading
  it failed. The list ends where \<open>next_field\<close> first answers no part or an error.
\<close>

record part =
  pt_name :: "str option"
  pt_text :: "str option"
  pt_bytes :: "bytes option"

record at_query =
  aq_at :: "str option"
  aq_recursive :: bool
  aq_verbose :: bool
  aq_staged :: bool

text \<open>The routes that act on a repository, with what axum takes from the path, the query and the body.\<close>

datatype repo_call =
    Status
  | List_Files "str option" "str option" bool
  | Post_File "part list"
  | Get_File str at_query
  | Patch_Fields str "(str \<times> jvalue) list"
  | Delete_File str
  | Get_Bytes str at_query
  | Tree_Root at_query
  | Tree_Path str at_query
  | Commit_Route str "author_override option"
  | Log_Route "str option" nat bool
  | Diff_Route str str "str option"
  | List_Branches
  | Create_Branch str "str option"
  | Checkout_Route str
  | Test_Ingest "part list"
  | Query_Route "str option" "str option" "str option" "str option" nat
  | List_Schemas "str option"
  | Audit_Route nat
  | Post_Upload nat
  | Patch_Upload_Chunk str nat bytes
  | Post_Upload_Commit str str "str option" "(str \<times> jvalue) list option"
  | Delete_Upload str

datatype call = Healthz | Livez | Readyz | Startupz | Metrics | Watch | On_Repo repo_call

section \<open>Forms\<close>

text \<open>What a loop over the parts has collected; \<open>fm_extra\<close> is the type or the proposed schema.\<close>

record form =
  fm_path :: "str option"
  fm_file :: "bytes option"
  fm_extra :: "str option"
  fm_fields :: "(str, field_value) btree"

definition field_key :: "str \<Rightarrow> str option" where
  "field_key n =
     (if starts_with ''fields['' n \<and> ends_with '']'' n then Some (take (length n - 8) (drop 7 n)) else None)"

text \<open>
  \<open>unwrap_or_default\<close>: a part that cannot be read counts as an empty one. \<open>extra\<close> is the name
  of the part that the endpoint has besides, with the way it is read.
\<close>

definition form_part :: "ext \<Rightarrow> str \<Rightarrow> (part \<Rightarrow> str option) \<Rightarrow> form \<Rightarrow> part \<Rightarrow> form" where
  "form_part E extra content f p =
     (let n = given (pt_name p) [] in
      if n = ''path'' then f\<lparr>fm_path := Some (given (pt_text p) [])\<rparr>
      else if n = ''file'' then f\<lparr>fm_file := Some (given (pt_bytes p) [])\<rparr>
      else if n = extra then f\<lparr>fm_extra := Some (given (content p) [])\<rparr>
      else case field_key n of
          Some k \<Rightarrow> f\<lparr>fm_fields := bt_insert k (parse_scalar E (given (pt_text p) [])) (fm_fields f)\<rparr>
        | None \<Rightarrow> f)"

definition read_form :: "ext \<Rightarrow> str \<Rightarrow> (part \<Rightarrow> str option) \<Rightarrow> part list \<Rightarrow> form" where
  "read_form E extra content ps =
     foldl (form_part E extra content) \<lparr>fm_path = None, fm_file = None, fm_extra = None, fm_fields = []\<rparr> ps"

definition form_file :: "form \<Rightarrow> (str \<times> bytes) result" where
  "form_file f =
     bind_res (ok_or (InvalidPath ''missing path'') (fm_path f)) (\<lambda>path.
     bind_res (ok_or (InvalidPath ''missing file'') (fm_file f)) (\<lambda>bs. Ok (path, bs)))"

definition post_file :: "repo_env \<Rightarrow> encryption_mode \<Rightarrow> part list \<Rightarrow> disk \<Rightarrow> reply \<times> disk" where
  "post_file V mode ps =
     answer (bind_op (lift_res (require_plaintext_mode mode ''POST /files'')) (\<lambda>_.
       let f = read_form (rx V) ''file_type'' pt_text ps in
       bind_op (lift_res (form_file f)) (\<lambda>(path, bs). repo_add V path bs (Some (fm_fields f)) (fm_extra f))))
       (\<lambda>r. ok_json (add_json r))"

definition test_ingest_route :: "repo_env \<Rightarrow> encryption_mode \<Rightarrow> part list \<Rightarrow> disk \<Rightarrow> reply \<times> disk" where
  "test_ingest_route V mode ps =
     answer (bind_op (lift_res (require_plaintext_mode mode ''POST /test/ingest'')) (\<lambda>_.
       let f = read_form (rx V) ''proposed_schema'' pt_bytes ps in
       bind_op (lift_res (form_file f)) (\<lambda>(path, bs).
       peek (\<lambda>s. test_ingest V s path bs (Some (fm_fields f)) (fm_extra f)))))
       (\<lambda>m. ok_json (manifest_json m))"

section \<open>Handlers\<close>

definition list_files :: "repo_env \<Rightarrow> str option \<Rightarrow> str option \<Rightarrow> bool \<Rightarrow> disk \<Rightarrow> reply \<times> disk" where
  "list_files V at pfx verbose =
     answer (peek (\<lambda>s. repo_files V s at pfx)) (\<lambda>ls. ok_compact verbose compact_file_list (JArray (map listing_json ls)))"

text \<open>The render hint becomes a member of the object of the manifest.\<close>

definition with_member :: "str \<Rightarrow> jvalue \<Rightarrow> jvalue \<Rightarrow> jvalue" where
  "with_member k x v = (case v of JObject m \<Rightarrow> JObject (bt_insert k x m) | _ \<Rightarrow> v)"

definition show_reply :: "bool \<Rightarrow> show_result \<Rightarrow> reply" where
  "show_reply verbose r =
     (case r of
        ShowManifest _ m h \<Rightarrow>
          ok_json (with_member ''render'' (render_json h)
            (if verbose then manifest_json m else compact_manifest (manifest_json m)))
      | ShowBlob _ h n d \<Rightarrow>
          ok_json (jobj [(''kind'', JString ''blob''), (''hash'', jhash h), (''size'', JInt (int n)), (''render'', render_json d)])
      | ShowTree _ es \<Rightarrow> ok_compact verbose compact_tree_entries (JArray (map tree_entry_json es)))"

definition get_file :: "repo_env \<Rightarrow> str \<Rightarrow> at_query \<Rightarrow> disk \<Rightarrow> reply \<times> disk" where
  "get_file V path q =
     answer (peek (\<lambda>s. if aq_staged q then show_staged V s path else repo_show V s path (aq_at q))) (show_reply (aq_verbose q))"

definition get_bytes :: "repo_env \<Rightarrow> str \<Rightarrow> at_query \<Rightarrow> disk \<Rightarrow> reply \<times> disk" where
  "get_bytes V path q =
     answer (peek (\<lambda>s. if aq_staged q then bytes_of_staged V s path else bytes_of V s path (aq_at q)))
       (\<lambda>bs. Reply 200 (BytesBody bs))"

definition patch_route :: "repo_env \<Rightarrow> encryption_mode \<Rightarrow> str \<Rightarrow> (str \<times> jvalue) list \<Rightarrow> disk \<Rightarrow> reply \<times> disk" where
  "patch_route V mode path updates =
     answer (bind_op (lift_res (require_plaintext_mode mode ''PATCH /files/*path'')) (\<lambda>_.
       patch_fields V path (patch_updates updates)))
       (\<lambda>m. ok_json (manifest_json m))"

definition ok_true :: reply where
  "ok_true = ok_json (jobj [(''ok'', JBool True)])"

definition delete_file :: "repo_env \<Rightarrow> str \<Rightarrow> disk \<Rightarrow> reply \<times> disk" where
  "delete_file V path = answer (repo_remove V path) (\<lambda>_. ok_true)"

text \<open>The staged listing ignores the path.\<close>

definition tree_path :: "repo_env \<Rightarrow> str \<Rightarrow> at_query \<Rightarrow> disk \<Rightarrow> reply \<times> disk" where
  "tree_path V path q =
     answer (peek (\<lambda>s. if aq_staged q then ls_staged V s else repo_ls V s path (aq_at q) (aq_recursive q)))
       (\<lambda>es. ok_compact (aq_verbose q) compact_tree_entries (JArray (map tree_entry_json es)))"

definition tree_root :: "repo_env \<Rightarrow> at_query \<Rightarrow> disk \<Rightarrow> reply \<times> disk" where
  "tree_root V q = tree_path V [] q"

definition log_route :: "repo_env \<Rightarrow> nat \<Rightarrow> bool \<Rightarrow> disk \<Rightarrow> reply \<times> disk" where
  "log_route V max_n verbose =
     answer (peek (\<lambda>s. log_commits V s max_n)) (\<lambda>cs. ok_compact verbose compact_commit_list (JArray (map commit_json cs)))"

definition diff_route :: "repo_env \<Rightarrow> str \<Rightarrow> str \<Rightarrow> str option \<Rightarrow> disk \<Rightarrow> reply \<times> disk" where
  "diff_route V older newer path =
     answer (peek (\<lambda>s. repo_diff V s older newer path)) (\<lambda>ds. ok_json (JArray (map diff_json ds)))"

definition list_branches_route :: "nat \<Rightarrow> repo_env \<Rightarrow> disk \<Rightarrow> reply option" where
  "list_branches_route fuel V s =
     map_option (\<lambda>r. fst (answer (lift_res r) (\<lambda>bs. ok_json (JArray (map branch_json bs))) s)) (list_branches V fuel s)"

definition create_branch :: "repo_env \<Rightarrow> str \<Rightarrow> str option \<Rightarrow> disk \<Rightarrow> reply \<times> disk" where
  "create_branch V name start = answer (repo_branch V name start) (\<lambda>_. ok_true)"

definition checkout_route :: "repo_env \<Rightarrow> str \<Rightarrow> disk \<Rightarrow> reply \<times> disk" where
  "checkout_route V r = answer (checkout V r) (\<lambda>_. ok_true)"

text \<open>An empty predicate is none.\<close>

fun query_error_text :: "query_error \<Rightarrow> str" where
  "query_error_text (QParse pos msg) = ''parse error at byte '' @ show_nat pos @ '': '' @ msg"
| "query_error_text QTypeMismatch = ''unsupported operation between values''"
| "query_error_text QFuel = []"

definition query_route ::
  "repo_env \<Rightarrow> str option \<Rightarrow> str option \<Rightarrow> str option \<Rightarrow> str option \<Rightarrow> nat \<Rightarrow> disk \<Rightarrow> reply \<times> disk"
where
  "query_route V predicate pfx at cursor limit s =
     (case (case predicate of None \<Rightarrow> Ok None
            | Some p \<Rightarrow> if p = [] then Ok None else bind_res (query_parse (rx V) p) (\<lambda>e. Ok (Some e))) of
        Inl e \<Rightarrow> (Reply 400 (JsonBody (error_body ''bad_query'' (query_error_text e))), s)
      | Inr parsed \<Rightarrow>
          answer (peek (\<lambda>s. query V s at pfx parsed cursor limit)) (\<lambda>r. ok_json (query_json r)) s)"

definition list_schemas_route :: "repo_env \<Rightarrow> str option \<Rightarrow> disk \<Rightarrow> reply \<times> disk" where
  "list_schemas_route V at = answer (peek (\<lambda>s. list_schemas V s at)) (\<lambda>ss. ok_json (JArray (map schema_json ss)))"

definition audit_route :: "cbor_codec \<Rightarrow> repo_env \<Rightarrow> nat \<Rightarrow> disk \<Rightarrow> reply option" where
  "audit_route C V limit s =
     map_option (\<lambda>r. fst (answer (lift_res r) (\<lambda>(es, ok).
         ok_json (jobj [(''entries'', JArray (map audit_json es)), (''verified'', JBool ok)])) s))
       (read_chain_verified (rx V) C (reader V s) (clamp limit 1 1000))"

definition post_upload :: "repo_env \<Rightarrow> encryption_mode \<Rightarrow> bytes \<Rightarrow> nat \<Rightarrow> disk \<Rightarrow> reply \<times> disk" where
  "post_upload V mode rnd declared =
     answer (bind_op (lift_res (require_plaintext_mode mode ''POST /uploads'')) (\<lambda>_. repo_upload_open V rnd declared))
       (\<lambda>h. Reply 201 (JsonBody (upload_json h)))"

definition patch_upload_chunk :: "repo_env \<Rightarrow> str \<Rightarrow> nat \<Rightarrow> bytes \<Rightarrow> disk \<Rightarrow> reply \<times> disk" where
  "patch_upload_chunk V i off bs = answer (repo_upload_write V i off bs) (\<lambda>_. Reply 204 NoBody)"

definition post_upload_commit ::
  "repo_env \<Rightarrow> encryption_mode \<Rightarrow> str \<Rightarrow> str \<Rightarrow> str option \<Rightarrow> (str \<times> jvalue) list option \<Rightarrow> disk \<Rightarrow> reply \<times> disk"
where
  "post_upload_commit V mode i path file_type sent =
     answer (bind_op (lift_res (require_plaintext_mode mode ''POST /uploads/:id/commit'')) (\<lambda>_.
       upload_commit V i path (map_option patch_updates sent) file_type))
       (\<lambda>r. ok_json (add_json r))"

definition delete_upload :: "repo_env \<Rightarrow> str \<Rightarrow> disk \<Rightarrow> reply \<times> disk" where
  "delete_upload V i = answer (upload_abort V i) (\<lambda>_. Reply 204 NoBody)"

section \<open>Committing and events\<close>

text \<open>The payload \<open>commit.created\<close>, before it is encoded.\<close>

record commit_created =
  cc_branch :: str
  cc_commit_hash :: str
  cc_parent_hashes :: "str list"
  cc_paths_touched :: "str list"

record 'p bus_envelope =
  be_version :: nat
  be_type :: str
  be_tenant :: str
  be_occurred_at :: str
  be_trace_id :: str
  be_idempotency_key :: str
  be_payload :: 'p

definition envelope_for :: "str \<Rightarrow> str \<Rightarrow> str \<Rightarrow> str option \<Rightarrow> str option \<Rightarrow> 'p \<Rightarrow> 'p bus_envelope" where
  "envelope_for at event_type tenant trace_id idempotency_key payload =
     \<lparr>be_version = 1, be_type = event_type, be_tenant = tenant, be_occurred_at = at,
      be_trace_id = given trace_id [], be_idempotency_key = given idempotency_key [], be_payload = payload\<rparr>"

definition commit_event :: "repo_env \<Rightarrow> disk \<Rightarrow> hash \<Rightarrow> commit_created bus_envelope" where
  "commit_event V s h =
     envelope_for (now V) ''commit.created'' (tenant_of V) None None
       \<lparr>cc_branch = (case current_branch (reader V s) of Inr (Some b) \<Rightarrow> b | _ \<Rightarrow> []),
        cc_commit_hash = hash_hex h, cc_parent_hashes = [], cc_paths_touched = []\<rparr>"

definition commit_route ::
  "(skip_reason \<Rightarrow> str) \<Rightarrow> repo_env \<Rightarrow> str \<Rightarrow> author_override option \<Rightarrow> disk \<Rightarrow>
   reply \<times> disk \<times> commit_created bus_envelope list"
where
  "commit_route msg V message author s =
     (case commit_with_keys V message author None s of
        (Inl e, s') \<Rightarrow> (to_response e, s', [])
      | (Inr (h, reprobed), s') \<Rightarrow>
          (ok_json (jobj ((''hash'', jhash h) #
             (if reprobed = [] then [] else [(''reprobed'', JArray (map (summary_json msg) reprobed))]))),
           s', [commit_event V s' h]))"

text \<open>What \<open>/watch\<close> sends for an event.\<close>

definition watch_event :: "'p bus_envelope \<Rightarrow> str \<times> jvalue" where
  "watch_event v =
     (be_type v, jobj [(''type'', JString (be_type v)), (''tenant'', JString (be_tenant v)),
       (''occurred_at'', JString (be_occurred_at v)), (''trace_id'', JString (be_trace_id v))])"

section \<open>The server\<close>

record route_env =
  re_codec :: cbor_codec
  re_fuel :: nat
  re_message :: "skip_reason \<Rightarrow> str"
  re_base_error :: "str option"
  re_metrics :: str

type_synonym handled = "reply option \<times> disk \<times> commit_created bus_envelope list"

definition done_with :: "reply \<times> disk \<Rightarrow> handled" where
  "done_with = (\<lambda>(r, s). (Some r, s, []))"

definition only_read :: "disk \<Rightarrow> reply option \<Rightarrow> handled" where
  "only_read s r = (r, s, [])"

fun handle :: "route_env \<Rightarrow> repo_env \<Rightarrow> encryption_mode \<Rightarrow> bytes \<Rightarrow> repo_call \<Rightarrow> disk \<Rightarrow> handled" where
  "handle R V mode rnd Status s = done_with (answer (peek (status_of V)) (\<lambda>r. ok_json (status_json r)) s)"
| "handle R V mode rnd (List_Files at pfx verbose) s = done_with (list_files V at pfx verbose s)"
| "handle R V mode rnd (Post_File ps) s = done_with (post_file V mode ps s)"
| "handle R V mode rnd (Get_File path q) s = done_with (get_file V path q s)"
| "handle R V mode rnd (Patch_Fields path updates) s = done_with (patch_route V mode path updates s)"
| "handle R V mode rnd (Delete_File path) s = done_with (delete_file V path s)"
| "handle R V mode rnd (Get_Bytes path q) s = done_with (get_bytes V path q s)"
| "handle R V mode rnd (Tree_Root q) s = done_with (tree_root V q s)"
| "handle R V mode rnd (Tree_Path path q) s = done_with (tree_path V path q s)"
| "handle R V mode rnd (Commit_Route message author) s =
     (case commit_route (re_message R) V message author s of (r, s', es) \<Rightarrow> (Some r, s', es))"
| "handle R V mode rnd (Log_Route path max_n verbose) s = done_with (log_route V max_n verbose s)"
| "handle R V mode rnd (Diff_Route older newer path) s = done_with (diff_route V older newer path s)"
| "handle R V mode rnd List_Branches s = only_read s (list_branches_route (re_fuel R) V s)"
| "handle R V mode rnd (Create_Branch name start) s = done_with (create_branch V name start s)"
| "handle R V mode rnd (Checkout_Route r) s = done_with (checkout_route V r s)"
| "handle R V mode rnd (Test_Ingest ps) s = done_with (test_ingest_route V mode ps s)"
| "handle R V mode rnd (Query_Route predicate pfx at cursor limit) s =
     done_with (query_route V predicate pfx at cursor limit s)"
| "handle R V mode rnd (List_Schemas at) s = done_with (list_schemas_route V at s)"
| "handle R V mode rnd (Audit_Route limit) s = only_read s (audit_route (re_codec R) V limit s)"
| "handle R V mode rnd (Post_Upload declared) s = done_with (post_upload V mode rnd declared s)"
| "handle R V mode rnd (Patch_Upload_Chunk i off bs) s = done_with (patch_upload_chunk V i off bs s)"
| "handle R V mode rnd (Post_Upload_Commit i path ft sent) s = done_with (post_upload_commit V mode i path ft sent s)"
| "handle R V mode rnd (Delete_Upload i) s = done_with (delete_upload V i s)"

text \<open>
  A handle is the tenant and the environment of its repository; the disks are those of all
  tenants. \<open>/watch\<close> answers a stream, whose events \<open>watch_stream\<close> gives.
\<close>

type_synonym repo_handle = "str \<times> repo_env"

record served =
  sv_repos :: "str \<rightharpoonup> repo_handle"
  sv_disks :: "str \<Rightarrow> disk"
  sv_events :: "commit_created bus_envelope list"

definition readyz :: "route_env \<Rightarrow> repo_handle server_mode \<Rightarrow> served \<Rightarrow> reply" where
  "readyz R mode sv =
     (let (check, failed) = (case mode of
         NoAuth (i, V) \<Rightarrow> (''store'', case read_head (sv_disks sv i) of Inl e \<Rightarrow> Some (error_text e) | Inr _ \<Rightarrow> None)
       | MultiTenant _ \<Rightarrow> (''tenants_base'', re_base_error R)) in
      case failed of
        None \<Rightarrow> Reply 200 (JsonBody (jobj [(''ok'', JBool True), (''checks'', jobj [(check, jobj [(''ok'', JBool True)])])]))
      | Some e \<Rightarrow> Reply 503 (JsonBody (jobj [(''ok'', JBool False),
          (''checks'', jobj [(check, jobj [(''ok'', JBool False), (''error'', JString e)])])])))"

definition serve_repo ::
  "route_env \<Rightarrow> ext \<Rightarrow> (str \<Rightarrow> quotas \<Rightarrow> repo_env result) \<Rightarrow> repo_handle server_mode \<Rightarrow> headers \<Rightarrow> str \<Rightarrow> bytes \<Rightarrow>
   repo_call \<Rightarrow> served \<Rightarrow> reply option \<times> served"
where
  "serve_repo R E open_env mode hs at rnd c sv =
     (case server_resolve E (\<lambda>i q. bind_res (open_env i q) (\<lambda>V. Ok (i, V))) mode hs (sv_repos sv) of
        (Inl e, repos) \<Rightarrow> (Some (to_response e), sv\<lparr>sv_repos := repos\<rparr>)
      | (Inr ((i, V), m), repos) \<Rightarrow>
          (case handle R (V\<lparr>now := at\<rparr>) m rnd c (sv_disks sv i) of (r, s', es) \<Rightarrow>
             (r, sv\<lparr>sv_repos := repos, sv_disks := (sv_disks sv)(i := s'), sv_events := sv_events sv @ es\<rparr>)))"

record served_request =
  sq_headers :: headers
  sq_at :: str
  sq_random :: bytes
  sq_call :: call

definition serve ::
  "route_env \<Rightarrow> ext \<Rightarrow> (str \<Rightarrow> quotas \<Rightarrow> repo_env result) \<Rightarrow> repo_handle server_mode \<Rightarrow> served_request \<Rightarrow> served \<Rightarrow>
   reply option \<times> served"
where
  "serve R E open_env mode q sv =
     (case sq_call q of
        Healthz \<Rightarrow> (Some ok_true, sv)
      | Livez \<Rightarrow> (Some (ok_json (jobj [(''ok'', JBool True), (''check'', JString ''livez'')])), sv)
      | Readyz \<Rightarrow> (Some (readyz R mode sv), sv)
      | Startupz \<Rightarrow> (Some (readyz R mode sv), sv)
      | Metrics \<Rightarrow> (Some (Reply 200 (TextBody (re_metrics R))), sv)
      | Watch \<Rightarrow> (Some (Reply 200 NoBody), sv)
      | On_Repo c \<Rightarrow> serve_repo R E open_env mode (sq_headers q) (sq_at q) (sq_random q) c sv)"

text \<open>What a watcher is sent that subscribed in the first state and keeps up until the second.\<close>

definition watch_stream :: "served \<Rightarrow> served \<Rightarrow> (str \<times> jvalue) list" where
  "watch_stream sv sv' = map watch_event (drop (length (sv_events sv)) (sv_events sv'))"

section \<open>What was staged is read back\<close>

lemma stage_upsert_ok:
  assumes "disk_ok (rx V) s" "[''index.json''] \<notin> dirs s" "\<forall>idx. json_reads V idx"
    and "stage_upsert V path h s = (Ok (), s')"
  shows "disk_ok (rx V) s'" "puts s' = puts s" "staged_hash V s' path = Ok h"
proof -
  obtain idx where idx: "load_index V s = Ok idx"
      "save_index V (index_insert path \<lparr>sc_path = path, sc_kind = Upsert, sc_hash = Some h\<rparr> idx) s = (Ok (), s')"
    using assms(4) by (auto simp: stage_upsert_def stage_def bind_op_eq_Ok)
  obtain t i where t: "save_index V (index_insert path \<lparr>sc_path = path, sc_kind = Upsert, sc_hash = Some h\<rparr> idx) s = (Ok (), t)"
      "disk_ok (rx V) t" "puts t = puts s" "load_index V t = Ok i"
      "map_of i = map_of (index_insert path \<lparr>sc_path = path, sc_kind = Upsert, sc_hash = Some h\<rparr> idx)"
    using save_index_ok [OF assms(1,2)] assms(3) by metis
  then have "t = s'" using idx(2) by simp
  then show "disk_ok (rx V) s'" "puts s' = puts s" "staged_hash V s' path = Ok h"
    using t by (simp_all add: staged_hash_def index_insert_get ok_or_def)
qed

lemma put_ok:
  assumes "disk_ok E s" "store_env E" "disk_put E (type_as_str t) c s = (Ok h, s')"
  shows "h = hash_of E t c" "disk_ok E s'" "puts s' = frame t c # puts s" "[n] \<in> dirs s' \<Longrightarrow> n \<noteq> ''objects'' \<Longrightarrow> [n] \<in> dirs s"
proof -
  obtain t' where "disk_put E (type_as_str t) c s = (Ok (hash_of E t c), t')" "disk_ok E t'" "puts t' = frame t c # puts s"
    using disk_put_ok [OF assms(1) store_envD [OF assms(2)]] by blast
  then show "h = hash_of E t c" "disk_ok E s'" "puts s' = frame t c # puts s" using assms(3) by auto
  show "[n] \<in> dirs s' \<Longrightarrow> n \<noteq> ''objects'' \<Longrightarrow> [n] \<in> dirs s"
    using disk_put_same [OF assms(3)] by (auto simp: same_outside_def)
qed

text \<open>A manifest that was written is read back with its source.\<close>

definition source_read :: "ext \<Rightarrow> manifest \<Rightarrow> bool" where
  "source_read E m \<longleftrightarrow> (\<forall>mb. manifest_serialize E m = Ok mb \<longrightarrow>
     (\<exists>m'. manifest_parse E mb = Ok m' \<and> m_source_hash m' = m_source_hash m))"

lemma built_source:
  "build_manifest V s path bs user ft prop at = Ok m \<Longrightarrow> m_source_hash m = hash_of (rx V) Blob bs"
  by (auto simp: build_manifest_def build_manifest_with_def bind_res_eq_Inr ingest_def ingest_with_cache_def
      ingest_input_of_def source_hash_of_def)

lemma add_blob_staged:
  assumes "disk_ok (rx V) s" "store_env (rx V)" "[''index.json''] \<notin> dirs s" "\<forall>idx. json_reads V idx"
    and "add_blob V path bs s = (Ok r, s1)" "collision_free (rx V) s1"
  shows "bytes_of_staged V s1 path = Ok bs"
proof -
  obtain h s2 where run: "disk_put (rx V) (type_as_str Blob) bs s = (Ok h, s2)" "stage_upsert V path h s2 = (Ok (), s1)"
    using assms(5) by (auto simp: add_blob_def bind_op_eq_Ok)
  note s2 = put_ok [OF assms(1,2) run(1)]
  note s1 = stage_upsert_ok [OF s2(2) _ assms(4) run(2)]
  have "[''index.json''] \<notin> dirs s2" using s2(4) assms(3) by auto
  then have "disk_ok (rx V) s1" "frame Blob bs \<in> set (puts s1)" "staged_hash V s1 path = Ok (hash_of (rx V) Blob bs)"
    using s1 s2 by simp_all
  then show ?thesis
    using disk_get_stored [OF _ store_envD(1) [OF assms(2)] assms(6)] by (simp add: bytes_of_staged_def get_object_def ok_or_def)
qed

lemma add_single_staged:
  assumes "disk_ok (rx V) s" "store_env (rx V)" "[''index.json''] \<notin> dirs s" "\<forall>idx. json_reads V idx"
    and "\<And>m. build_manifest V s path bs (given user []) ft None (now V) = Ok m \<Longrightarrow> source_read (rx V) m"
    and "add_single V path bs user ft s = (Ok r, s1)" "collision_free (rx V) s1"
  shows "bytes_of_staged V s1 path = Ok bs"
proof -
  obtain m h s2 mb mh s3 where run: "build_manifest V s path bs (given user []) ft None (now V) = Ok m"
      "disk_put (rx V) (type_as_str Blob) bs s = (Ok h, s2)" "manifest_serialize (rx V) m = Ok mb"
      "disk_put (rx V) (type_as_str Manifest) mb s2 = (Ok mh, s3)" "stage_upsert V path mh s3 = (Ok (), s1)"
    using assms(6) by (auto simp: add_single_def put_manifest_def bind_op_eq_Ok)
  note s2 = put_ok [OF assms(1,2) run(2)]
  note s3 = put_ok [OF s2(2) assms(2) run(4)]
  note s1 = stage_upsert_ok [OF s3(2) _ assms(4) run(5)]
  have "[''index.json''] \<notin> dirs s3" using s2(4) s3(4) assms(3) by auto
  then have ok: "disk_ok (rx V) s1" and stored: "frame Blob bs \<in> set (puts s1)" "frame Manifest mb \<in> set (puts s1)"
    and staged: "staged_hash V s1 path = Ok (hash_of (rx V) Manifest mb)"
    using s1 s2 s3 by simp_all
  obtain m' where "manifest_parse (rx V) mb = Ok m'" "m_source_hash m' = hash_of (rx V) Blob bs"
    using assms(5) [OF run(1)] run(3) built_source [OF run(1)] unfolding source_read_def by metis
  then show ?thesis
    using staged disk_get_stored [OF ok store_envD(1) [OF assms(2)] assms(7) stored(1)]
      disk_get_stored [OF ok store_envD(1) [OF assms(2)] assms(7) stored(2)]
    by (simp add: bytes_of_staged_def get_object_def ok_or_def)
qed

lemma classify_cases: "classify_path path = MBlob \<or> classify_path path = MManifest"
  by (simp add: classify_path_def Let_def)

lemma add_staged:
  assumes "disk_ok (rx V) s" "store_env (rx V)" "[''index.json''] \<notin> dirs s" "\<forall>idx. json_reads V idx"
    and "\<And>m. classify_path path = MManifest \<Longrightarrow> build_manifest V s path bs (given user []) ft None (now V) = Ok m \<Longrightarrow> source_read (rx V) m"
    and "classify_path path = MBlob \<or> (\<forall>cfg. current_repo_config V None s = Ok cfg \<longrightarrow> length bs < cfg_chunk_size cfg)"
    and "repo_add V path bs user ft s = (Ok r, s1)" "collision_free (rx V) s1"
  shows "bytes_of_staged V s1 path = Ok bs"
proof (cases "classify_path path = MBlob")
  case True
  then show ?thesis
    using assms(7) add_blob_staged [OF assms(1-4) _ assms(8)] by (auto simp: repo_add_def bind_op_eq_Ok)
next
  case False
  then have "add_single V path bs user ft s = (Ok r, s1)"
    using assms(6,7) by (auto simp: repo_add_def bind_op_eq_Ok split: if_splits)
  then show ?thesis using add_single_staged [OF assms(1-4) assms(5) _ assms(8)] False classify_cases by blast
qed

text \<open>The last part of a name, and a form whose path and file can be read.\<close>

definition part_of :: "str \<Rightarrow> part list \<Rightarrow> part option" where
  "part_of n ps = find (\<lambda>p. pt_name p = Some n) (rev ps)"

definition form_sends :: "part list \<Rightarrow> str \<Rightarrow> bytes \<Rightarrow> bool" where
  "form_sends ps path bs \<longleftrightarrow>
     Option.bind (part_of ''path'' ps) pt_text = Some path \<and> Option.bind (part_of ''file'' ps) pt_bytes = Some bs"

lemma part_of_snoc: "part_of n (ps @ [p]) = (if pt_name p = Some n then Some p else part_of n ps)"
  by (simp add: part_of_def)

lemma form_sends_read:
  assumes "form_sends ps path bs"
  shows "fm_path (read_form E ''file_type'' pt_text ps) = Some path" "fm_file (read_form E ''file_type'' pt_text ps) = Some bs"
proof -
  have "fm_path (read_form E ''file_type'' pt_text ps) = map_option (\<lambda>p. given (pt_text p) []) (part_of ''path'' ps) \<and>
      fm_file (read_form E ''file_type'' pt_text ps) = map_option (\<lambda>p. given (pt_bytes p) []) (part_of ''file'' ps)"
  proof (induction ps rule: rev_induct)
    case (snoc p ps)
    obtain n where "pt_name p = n" by simp
    then show ?case using snoc
      by (cases n) (auto simp: read_form_def form_part_def part_of_snoc Let_def given_def split: option.split)
  qed (simp add: read_form_def part_of_def)
  then show "fm_path (read_form E ''file_type'' pt_text ps) = Some path" "fm_file (read_form E ''file_type'' pt_text ps) = Some bs"
    using assms by (auto simp: form_sends_def given_def bind_eq_Some_conv)
qed

section \<open>Tenants\<close>

text \<open>The tenant whose token a request on a repository carries.\<close>

definition tenant_of_request :: "ext \<Rightarrow> registry \<Rightarrow> served_request \<Rightarrow> str option" where
  "tenant_of_request E reg q =
     (case sq_call q of
        On_Repo _ \<Rightarrow> Option.bind (server_extract_bearer (sq_headers q)) (\<lambda>t. map_option te_id (by_token E reg t))
      | _ \<Rightarrow> None)"

text \<open>The answers that a tenant gets from a sequence of requests, and its disk afterwards.\<close>

fun tenant_answers ::
  "route_env \<Rightarrow> ext \<Rightarrow> (str \<Rightarrow> quotas \<Rightarrow> repo_env result) \<Rightarrow> registry \<Rightarrow> str \<Rightarrow> served_request list \<Rightarrow> served \<Rightarrow>
   reply option list \<times> disk"
where
  "tenant_answers R E open_env reg i [] sv = ([], sv_disks sv i)"
| "tenant_answers R E open_env reg i (q # qs) sv =
     (case serve R E open_env (MultiTenant reg) q sv of (r, sv') \<Rightarrow>
      case tenant_answers R E open_env reg i qs sv' of (rs, d) \<Rightarrow>
        (if tenant_of_request E reg q = Some i then r # rs else rs, d))"

definition started :: "(str \<Rightarrow> disk) \<Rightarrow> served" where
  "started disks = \<lparr>sv_repos = Map.empty, sv_disks = disks, sv_events = []\<rparr>"

text \<open>Handles are kept under their tenant; two states agree on a tenant if its handle and disk do.\<close>

definition handles_ok :: "served \<Rightarrow> bool" where
  "handles_ok sv \<longleftrightarrow> (\<forall>i h. sv_repos sv i = Some h \<longrightarrow> fst h = i)"

definition agree_on :: "str \<Rightarrow> served \<Rightarrow> served \<Rightarrow> bool" where
  "agree_on i sv sv' \<longleftrightarrow> sv_repos sv i = sv_repos sv' i \<and> sv_disks sv i = sv_disks sv' i"

lemma serve_repo_none:
  assumes "tenant_of_request E reg q = None" "sq_call q = On_Repo c"
  shows "snd (serve_repo R E open_env (MultiTenant reg) (sq_headers q) at rnd c sv) = sv"
  using assms by (auto simp: tenant_of_request_def serve_repo_def server_resolve_def split: option.splits)

text \<open>A request of a tenant: the handle is the one kept or a new one, and the handler runs on its disk.\<close>

definition own_handle :: "(str \<Rightarrow> quotas \<Rightarrow> repo_env result) \<Rightarrow> tenant_entry \<Rightarrow> repo_handle option \<Rightarrow> repo_env result" where
  "own_handle open_env e h = (case h of Some (_, V) \<Rightarrow> Ok V | None \<Rightarrow> open_env (te_id e) (te_quotas e))"

lemma serve_repo_own:
  assumes "handles_ok sv" "server_extract_bearer hs = Some t" "by_token E reg t = Some e"
  shows "serve_repo R E open_env (MultiTenant reg) hs at rnd c sv =
    (case own_handle open_env e (sv_repos sv (te_id e)) of
       Inl x \<Rightarrow> (Some (to_response x), sv)
     | Inr V \<Rightarrow> (case handle R (V\<lparr>now := at\<rparr>) (te_encryption_mode e) rnd c (sv_disks sv (te_id e)) of (r, s', es) \<Rightarrow>
         (r, sv\<lparr>sv_repos := (sv_repos sv)(te_id e \<mapsto> (te_id e, V)), sv_disks := (sv_disks sv)(te_id e := s'),
                sv_events := sv_events sv @ es\<rparr>)))"
proof (cases "sv_repos sv (te_id e)")
  case None
  then show ?thesis using assms(2,3)
    by (cases "open_env (te_id e) (te_quotas e)") (simp_all add: serve_repo_def server_resolve_def get_or_open_def own_handle_def)
next
  case (Some h)
  then obtain V where h: "h = (te_id e, V)" using assms(1) by (cases h) (auto simp: handles_ok_def)
  have "(sv_repos sv)(te_id e \<mapsto> (te_id e, V)) = sv_repos sv" using Some h by auto
  then show ?thesis using assms(2,3) Some h by (simp add: serve_repo_def server_resolve_def get_or_open_def own_handle_def)
qed

lemma tenant_of_request_Some:
  "tenant_of_request E reg q = Some i \<longleftrightarrow>
     (\<exists>c t e. sq_call q = On_Repo c \<and> server_extract_bearer (sq_headers q) = Some t \<and> by_token E reg t = Some e \<and> te_id e = i)"
  by (auto simp: tenant_of_request_def bind_eq_Some_conv split: call.splits)

lemma serve_public: "\<nexists>c. sq_call q = On_Repo c \<Longrightarrow> snd (serve R E open_env mode q sv) = sv"
  by (cases "sq_call q") (simp_all add: serve_def)

lemma serve_own:
  assumes "tenant_of_request E reg q = Some i" "handles_ok sv" "handles_ok sv'" "agree_on i sv sv'"
  shows "fst (serve R E open_env (MultiTenant reg) q sv) = fst (serve R E open_env (MultiTenant reg) q sv')"
    and "agree_on i (snd (serve R E open_env (MultiTenant reg) q sv)) (snd (serve R E open_env (MultiTenant reg) q sv'))"
    and "handles_ok (snd (serve R E open_env (MultiTenant reg) q sv))"
proof -
  obtain c t e where q: "sq_call q = On_Repo c" "server_extract_bearer (sq_headers q) = Some t" "by_token E reg t = Some e" "te_id e = i"
    using assms(1) by (auto simp: tenant_of_request_Some)
  note run = serve_repo_own [OF assms(2) q(2,3)] serve_repo_own [OF assms(3) q(2,3)]
  have same: "sv_repos sv' (te_id e) = sv_repos sv (te_id e)" "sv_disks sv' (te_id e) = sv_disks sv (te_id e)"
    using assms(4) q(4) by (simp_all add: agree_on_def)
  show "fst (serve R E open_env (MultiTenant reg) q sv) = fst (serve R E open_env (MultiTenant reg) q sv')"
    and "agree_on i (snd (serve R E open_env (MultiTenant reg) q sv)) (snd (serve R E open_env (MultiTenant reg) q sv'))"
    and "handles_ok (snd (serve R E open_env (MultiTenant reg) q sv))"
    using assms(2,4) q(4)
    by (simp_all add: serve_def q(1) run same agree_on_def handles_ok_def split: sum.split prod.split)
qed

lemma serve_other:
  assumes "tenant_of_request E reg q \<noteq> Some i" "handles_ok sv"
  shows "agree_on i (snd (serve R E open_env (MultiTenant reg) q sv)) sv"
    and "handles_ok (snd (serve R E open_env (MultiTenant reg) q sv))"
proof -
  have "agree_on i (snd (serve R E open_env (MultiTenant reg) q sv)) sv \<and> handles_ok (snd (serve R E open_env (MultiTenant reg) q sv))"
  proof (cases "tenant_of_request E reg q")
    case None
    then have "snd (serve R E open_env (MultiTenant reg) q sv) = sv"
      using serve_public serve_repo_none [OF None] by (cases "sq_call q") (simp_all add: serve_def)
    then show ?thesis using assms(2) by (simp add: agree_on_def)
  next
    case (Some j)
    then obtain c t e where q: "sq_call q = On_Repo c" "server_extract_bearer (sq_headers q) = Some t" "by_token E reg t = Some e" "te_id e = j"
      by (auto simp: tenant_of_request_Some)
    have "j \<noteq> i" using Some assms(1) by blast
    then show ?thesis
      using assms(2) q(4)
      by (simp add: serve_def q(1) serve_repo_own [OF assms(2) q(2,3)] agree_on_def handles_ok_def split: sum.split prod.split)
  qed
  then show "agree_on i (snd (serve R E open_env (MultiTenant reg) q sv)) sv"
    and "handles_ok (snd (serve R E open_env (MultiTenant reg) q sv))" by simp_all
qed

lemma tenant_answers_purged:
  assumes "handles_ok sv" "handles_ok sv'" "agree_on i sv sv'"
  shows "tenant_answers R E open_env reg i qs sv =
    tenant_answers R E open_env reg i (filter (\<lambda>q. tenant_of_request E reg q = Some i) qs) sv'"
  using assms
proof (induction qs arbitrary: sv sv')
  case (Cons q qs)
  show ?case
  proof (cases "tenant_of_request E reg q = Some i")
    case True
    note own = serve_own [OF True Cons.prems] and ok' = serve_own(3) [OF True Cons.prems(2,1)]
    have "agree_on i sv' sv" using Cons.prems(3) by (simp add: agree_on_def)
    from Cons.IH [OF own(3) ok' [OF this] own(2)] show ?thesis
      using own(1) True by (simp add: case_prod_beta)
  next
    case False
    note other = serve_other [OF False Cons.prems(1)]
    have "agree_on i (snd (serve R E open_env (MultiTenant reg) q sv)) sv'"
      using other(1) Cons.prems(3) by (simp add: agree_on_def)
    from Cons.IH [OF other(2) Cons.prems(2) this] show ?thesis using False by (simp add: case_prod_beta)
  qed
qed (simp add: agree_on_def)

section \<open>Properties\<close>

text \<open>
  What the registry gives a tenant is its own repository: on a server that answers whatever
  requests, a tenant gets the answers and is left with the repository that it would have with
  its own requests alone. The tenants' disks are separate here, so this says that no handler
  is run with another tenant's handle; it does not cover an upload identifier that climbs out of the
  tenant's directory on the one disk that tenants share in truth.
\<close>

lemma tenants_do_not_interfere:
  "tenant_answers R E open_env reg i qs (started disks) =
     tenant_answers R E open_env reg i (filter (\<lambda>q. tenant_of_request E reg q = Some i) qs) (started (\<lambda>_. disks i))"
  by (rule tenant_answers_purged) (simp_all add: handles_ok_def agree_on_def started_def)

text \<open>
  Events are the exception: a watcher needs no token and is told of the commits of every
  tenant.
\<close>

lemma watch_sees_all_tenants:
  assumes "server_resolve E (\<lambda>i q. bind_res (open_env i q) (\<lambda>V. Ok (i, V))) mode hs (sv_repos sv) = (Ok ((i, V), m), repos)"
    and "serve_repo R E open_env mode hs at rnd (Commit_Route message author) sv = (Some r, sv')" "reply_status r = 200"
  shows "serve R E open_env mode \<lparr>sq_headers = [], sq_at = at, sq_random = [], sq_call = Watch\<rparr> sv = (Some (Reply 200 NoBody), sv)"
    and "watch_stream sv sv' = [(''commit.created'', jobj [(''type'', JString ''commit.created''),
        (''tenant'', JString (tenant_of V)), (''occurred_at'', JString at), (''trace_id'', JString [])])]"
proof -
  show "serve R E open_env mode \<lparr>sq_headers = [], sq_at = at, sq_random = [], sq_call = Watch\<rparr> sv = (Some (Reply 200 NoBody), sv)"
    by (simp add: serve_def)
  have no: "reply_status (to_response e) \<noteq> 200" for e by (cases e) (simp_all add: to_response_def)
  obtain h' sums s' where c: "commit_with_keys (V\<lparr>now := at\<rparr>) message author None (sv_disks sv i) = (Inr (h', sums), s')"
    using assms no by (auto simp: serve_repo_def commit_route_def split: prod.splits sum.splits)
  then have "sv_events sv' = sv_events sv @ [commit_event (V\<lparr>now := at\<rparr>) s' h']"
    using assms(1,2) by (auto simp: serve_repo_def commit_route_def)
  then show "watch_stream sv sv' = [(''commit.created'', jobj [(''type'', JString ''commit.created''),
        (''tenant'', JString (tenant_of V)), (''occurred_at'', JString at), (''trace_id'', JString [])])]"
    by (simp add: watch_stream_def watch_event_def commit_event_def envelope_for_def given_def)
qed

text \<open>
  C3. A file that a client uploads is staged with the bytes it sent. When \<open>POST /files\<close> with
  a path and a file, both in parts that can be read, is answered 200, and the file is shorter than a
  chunk of the configuration in force or its path is one of the repository's own
  (schemas, probes), then \<open>GET /bytes\<close> for the staged path answers these bytes. Of the TOML
  crate it takes that the manifest, where one is written, is read back with its source.
\<close>

theorem posted_file_staged:
  assumes "disk_ok (rx V) s" "store_env (rx V)" "[''index.json''] \<notin> dirs s" "\<forall>idx. json_reads V idx"
    and "\<And>m user ft. classify_path path = MManifest \<Longrightarrow> build_manifest V s path bs user ft None (now V) = Ok m \<Longrightarrow> source_read (rx V) m"
    and "form_sends ps path bs"
    and "classify_path path = MBlob \<or> (\<forall>cfg. current_repo_config V None s = Ok cfg \<longrightarrow> length bs < cfg_chunk_size cfg)"
    and "handle R V mode rnd (Post_File ps) s = (Some r, s1, es)" "reply_status r = 200" "collision_free (rx V) s1"
  shows "handle R V mode rnd' (Get_Bytes path \<lparr>aq_at = at, aq_recursive = rec, aq_verbose = verbose, aq_staged = True\<rparr>) s1 =
    (Some (Reply 200 (BytesBody bs)), s1, [])"
proof -
  have no: "reply_status (to_response e) \<noteq> 200" for e by (cases e) (simp_all add: to_response_def)
  let ?f = "read_form (rx V) ''file_type'' pt_text ps"
  have "require_plaintext_mode mode ''POST /files'' = Ok ()"
    using assms(8,9) no by (auto simp: post_file_def done_with_def answer_def bind_op_def require_plaintext_mode_def split: if_splits)
  moreover have "form_file ?f = Ok (path, bs)" using form_sends_read [OF assms(6)] by (simp add: form_file_def ok_or_def)
  ultimately have "answer (repo_add V path bs (Some (fm_fields ?f)) (fm_extra ?f)) (\<lambda>r. ok_json (add_json r)) s = (r, s1)"
    using assms(8) by (simp add: post_file_def done_with_def answer_def bind_op_def Let_def split: prod.splits)
  then obtain x where "repo_add V path bs (Some (fm_fields ?f)) (fm_extra ?f) s = (Ok x, s1)"
    using assms(9) no by (auto simp: answer_def split: prod.splits sum.splits)
  from add_staged [OF assms(1-5,7) this assms(10)]
  show ?thesis by (simp add: get_bytes_def done_with_def answer_def)
qed

text \<open>
  A part that cannot be read counts as an empty one: a file whose upload fails is stored
  empty, and the answer is that of a success.
\<close>

lemma unread_file_stored_empty:
  "post_file V Plaintext [\<lparr>pt_name = Some ''path'', pt_text = Some path, pt_bytes = None\<rparr>,
      \<lparr>pt_name = Some ''file'', pt_text = None, pt_bytes = None\<rparr>] =
   answer (repo_add V path [] (Some []) None) (\<lambda>r. ok_json (add_json r))"
  by (rule ext) (simp add: post_file_def read_form_def form_part_def form_file_def ok_or_def given_def Let_def
      require_plaintext_mode_def is_encrypted_def answer_def bind_op_def)

text \<open>The endpoints that ingest in plain text refuse an encrypted tenant before they do anything.\<close>

lemma encrypted_tenant_refused:
  assumes "c \<in> {Post_File ps, Test_Ingest ps, Patch_Fields path updates, Post_Upload n, Post_Upload_Commit i path ft sent}"
  shows "\<exists>r. handle R V (Encrypted pub) rnd c s = (Some r, s, []) \<and> reply_status r = 409"
  using assms
  by (auto simp: post_file_def test_ingest_route_def patch_route_def post_upload_def post_upload_commit_def
      done_with_def answer_def bind_op_def require_plaintext_mode_def is_encrypted_def to_response_def)

section \<open>Examples\<close>

text \<open>An index codec: an index is numbered and its number written in unary; keys count once.\<close>

definition change_code :: "str \<times> staged_change \<Rightarrow> str \<times> str \<times> bool \<times> bytes option" where
  "change_code = (\<lambda>(k, c). (k, sc_path c, sc_kind c = Upsert, map_option hash_bytes (sc_hash c)))"

definition change_of_code :: "str \<times> str \<times> bool \<times> bytes option \<Rightarrow> str \<times> staged_change" where
  "change_of_code = (\<lambda>(k, p, u, h). (k, \<lparr>sc_path = p, sc_kind = (if u then Upsert else Delete), sc_hash = map_option Hash h\<rparr>))"

lemma change_of_code_code [simp]: "change_of_code (change_code kc) = kc"
  by (cases kc) (auto simp: change_of_code_def change_code_def option.map_comp comp_def option.map_ident staged_kind.exhaust
      intro: staged_kind.exhaust)

fun first_keys :: "index \<Rightarrow> index" where
  "first_keys [] = []"
| "first_keys (kc # idx) = kc # filter (\<lambda>x. fst x \<noteq> fst kc) (first_keys idx)"

lemma first_keys_map: "map_of (first_keys idx) = map_of idx"
proof (induction idx)
  case (Cons kc idx)
  have "map_of (filter (\<lambda>x. fst x \<noteq> k) m) = (map_of m)(k := None)" for k and m :: index
    by (induction m) (auto simp: fun_eq_iff)
  then show ?case using Cons by (cases kc) (auto simp: fun_eq_iff)
qed simp

lemma first_keys_distinct: "distinct (map fst (first_keys idx))"
  by (induction idx) (auto simp: distinct_map_filter)

definition coded_env :: repo_env where
  "coded_env = plain_env\<lparr>index_show := \<lambda>idx. replicate (to_nat (map change_code idx)) (CHR ''x''),
     index_read := \<lambda>t. Inr (first_keys (map change_of_code (from_nat (length t))))\<rparr>"

lemma coded_env_reads: "json_reads coded_env idx"
proof -
  have "utf8_valid (replicate n (CHR ''x''))" for n by (induction n) (simp_all add: is_ascii_def)
  then show ?thesis by (simp add: json_reads_def coded_env_def first_keys_map first_keys_distinct comp_def)
qed

text \<open>A repository with one schema, for notes with a title, which the client gives.\<close>

definition note_text :: bytes where "note_text = ''file_type''"

definition note_raw :: raw_schema where
  "note_raw = \<lparr>rs_file_type = ''note'', rs_mime_patterns = [''text/plain''], rs_allow_extra_fields = None,
     rs_fields = [(''title'', RawField ''user_provided'' (Some ''string'') (Some True) None None None None None None None)], rs_render = None\<rparr>"

definition note_schema :: schema where
  "note_schema = \<lparr>s_file_type = ''note'', s_mime_patterns = [''text/plain''], s_allow_extra_fields = False,
     s_fields = [Field ''title'' SUserProvided TyString True None None], s_render = None\<rparr>"

definition note_manifest :: manifest where
  "note_manifest = \<lparr>m_source_hash = hash_of toy_ext Blob ''hi'', m_file_type = ''note'', m_schema_hash = hash_of toy_ext Blob note_text,
     m_ingested_at = ''2024-01-01T00:00:00Z'', m_ingester_version = ''0.1.0'', m_probe_hashes = [], m_fields = [(''title'', FString ''T'')]\<rparr>"

definition note_doc :: toml_table where
  "note_doc = (case manifest_to_doc toy_ext note_manifest of Inr d \<Rightarrow> d | Inl _ \<Rightarrow> [])"

definition note_ext :: ext where
  "note_ext = toy_ext\<lparr>toml_parse := \<lambda>t. Inr (if t = note_text then [] else note_doc), toml_show := \<lambda>d. ''manifest''\<rparr>"

definition note_env :: repo_env where
  "note_env = coded_env\<lparr>rx := note_ext, raw_schema_of := \<lambda>d. if d = [] then Inr note_raw else Inl ''no schema'',
     work_file := [''schemas/note/schema.toml'' \<mapsto> note_text], work_schemas := [(''note'', note_text)]\<rparr>"

lemma note_ext_ok [simp]: "sha_ok note_ext" "zlib_ok note_ext" "store_env note_ext"
  using toy_sha_ok toy_zlib_ok by (simp_all add: note_ext_def sha_ok_def zlib_ok_def store_env_def)

lemma note_hash: "hash_of note_ext t c = hash_of toy_ext t c"
  by (simp add: hash_of_def hash_of_bytes_def note_ext_def)

lemma note_rx [simp]: "rx note_env = note_ext" "quotas_of note_env = unlimited" "work_schemas note_env = [(''note'', note_text)]"
  "work_file note_env = [''schemas/note/schema.toml'' \<mapsto> note_text]" "starter_probes note_env = []" "infer_mime note_env bs = None"
  "now note_env = ''2024-01-01T00:00:00Z''" by (simp_all add: note_env_def coded_env_def plain_env_def)

lemma note_reads: "json_reads note_env idx"
  using coded_env_reads [of idx] by (simp add: json_reads_def note_env_def)

lemma note_parses: "parse_schema note_env note_text ''note'' = Ok note_schema"
  by (simp add: schema_parse_def note_env_def note_ext_def note_text_def schema_of_raw_def note_raw_def note_schema_def
      convert_field_def convert_source_def field_type_parse_def topo_sort_def field_from_def indeg_of_def deps_of_def Let_def
      utf8_valid_ascii is_ascii_def f_source_def)

lemma note_doc: "manifest_to_doc toy_ext note_manifest = Ok note_doc" "manifest_of_doc note_doc = Ok note_manifest"
proof -
  have "manifest_ok toy_ext note_manifest"
    using hash_of_wf [OF toy_sha_ok] by (simp add: manifest_ok_def note_manifest_def)
  then obtain d where "manifest_to_doc toy_ext note_manifest = Ok d" "manifest_of_doc d = Ok note_manifest"
    using manifest_doc_round_trip by blast
  then show "manifest_to_doc toy_ext note_manifest = Ok note_doc" "manifest_of_doc note_doc = Ok note_manifest"
    by (simp_all add: note_doc_def)
qed

lemma note_doc_eq:
  "note_doc = [(''source_hash'', IValue (TString (hash_hex (hash_of toy_ext Blob ''hi'')))), (''file_type'', IValue (TString ''note'')),
     (''schema_hash'', IValue (TString (hash_hex (hash_of toy_ext Blob note_text)))),
     (''ingested_at'', IValue (TString ''2024-01-01T00:00:00Z'')), (''ingester_version'', IValue (TString ''0.1.0'')),
     (''probe_hashes'', ITable []), (''fields'', ITable [(''title'', IValue (TString ''T''))])]"
  by (simp add: note_doc_def manifest_to_doc_def note_manifest_def)

lemma quote_ascii:
  assumes "\<forall>c \<in> set s. is_ascii c"
  shows "\<forall>c \<in> set (quote_string s). is_ascii c"
proof -
  have "is_ascii d" if "is_ascii c" "d \<in> set (quote_char c)" for c d
  proof -
    have "n < 10 \<Longrightarrow> is_ascii (upper_hex_digit n)" "\<not> n < 10 \<Longrightarrow> n < 16 \<Longrightarrow> is_ascii (upper_hex_digit n)" for n
      by (simp_all add: upper_hex_digit_def is_ascii_def)
    then have "n < 16 \<Longrightarrow> is_ascii (upper_hex_digit n)" for n by (cases "n < 10") simp_all
    moreover have "byte_val c < 32 \<Longrightarrow> byte_val c div 16 < 16" by simp
    ultimately show ?thesis using that by (simp add: quote_char_def split: if_splits) (auto simp: is_ascii_def)
  qed
  moreover have "is_ascii DQ" by (simp add: is_ascii_def)
  ultimately show ?thesis using assms by (auto simp: quote_string_def)
qed

lemma note_keys:
  "k \<in> {''source_hash'', ''file_type'', ''schema_hash'', ''ingested_at'', ''ingester_version'', ''title'', ''fields'', ''probe_hashes''} \<Longrightarrow>
     quote_key k = k"
  by (elim insertE emptyE; simp add: quote_key_def is_ascii_alphanumeric_def)

lemma quote_hex: "quote_string (hash_hex h) = DQ # hash_hex h @ [DQ]"
proof -
  have "quote_char c = [c]" if "c \<in> set (hash_hex h)" for c
  proof -
    from that have "(0x30 \<le> byte_val c \<and> byte_val c \<le> 0x39) \<or> (0x61 \<le> byte_val c \<and> byte_val c \<le> 0x66)"
      unfolding hash_hex_eq by (rule hex_chars_range)
    then have "byte_val c \<noteq> byte_val d" if "byte_val d < 0x30 \<or> byte_val d = 0x5C" for d using that by linarith
    from this [of DQ] this [of BSL] this [of LF] this [of CR] this [of TAB] this [of "CHR 0x08"] this [of "CHR 0x0C"]
    have "c \<noteq> DQ" "c \<noteq> BSL" "c \<noteq> LF" "c \<noteq> CR" "c \<noteq> TAB" "c \<noteq> CHR 0x08" "c \<noteq> CHR 0x0C" by auto
    moreover have "\<not> byte_val c < 0x20"
      using \<open>(0x30 \<le> byte_val c \<and> byte_val c \<le> 0x39) \<or> (0x61 \<le> byte_val c \<and> byte_val c \<le> 0x66)\<close> by linarith
    ultimately show ?thesis by (simp add: quote_char_def)
  qed
  moreover have "concat (map quote_char xs) = xs" if "\<forall>c \<in> set xs. quote_char c = [c]" for xs
    using that by (induction xs) auto
  ultimately have "concat (map quote_char (hash_hex h)) = hash_hex h" by blast
  then show ?thesis by (simp add: quote_string_def)
qed

lemma note_emit: "\<exists>t. emit_table note_ext note_doc [] = Ok t \<and> (\<forall>c \<in> set t. is_ascii c) \<and> t \<noteq> note_text \<and>
   t \<noteq> [] \<and> last t = LF \<and> length t \<le> 1000"
proof -
  have wf: "hash_wf (hash_of toy_ext Blob c)" for c by (rule hash_of_wf [OF toy_sha_ok])
  let ?a = "hash_hex (hash_of toy_ext Blob ''hi'')" and ?b = "hash_hex (hash_of toy_ext Blob note_text)"
  have sorted: "sort_key fst note_doc = [(''fields'', ITable [(''title'', IValue (TString ''T''))]),
      (''file_type'', IValue (TString ''note'')), (''ingested_at'', IValue (TString ''2024-01-01T00:00:00Z'')),
      (''ingester_version'', IValue (TString ''0.1.0'')), (''probe_hashes'', ITable []),
      (''schema_hash'', IValue (TString ?b)), (''source_hash'', IValue (TString ?a))]"
    by (simp add: note_doc_eq)
  let ?t = "''file_type = '' @ quote_string ''note'' @ [LF] @ ''ingested_at = '' @ quote_string ''2024-01-01T00:00:00Z'' @ [LF] @
      ''ingester_version = '' @ quote_string ''0.1.0'' @ [LF] @ ''schema_hash = '' @ quote_string ?b @ [LF] @
      ''source_hash = '' @ quote_string ?a @ [LF]"
  have pairs: "emit_pairs note_ext (sort_key fst note_doc) = Ok ?t"
    unfolding sorted by (simp add: is_inline_def emit_pair_def note_keys)
  have subs: "emit_subs note_ext (sort_key fst note_doc) [] False =
      Ok (''[fields]'' @ [LF] @ ''title = '' @ quote_string ''T'' @ [LF] @ [LF] @ ''[probe_hashes]'' @ [LF])"
    unfolding sorted
    by (simp add: has_any_inline_def has_subtables_def is_inline_def is_subtable_def emit_pair_def note_keys str_join_def Let_def)
  have "emit_table note_ext note_doc [] = Ok (?t @ ''[fields]'' @ [LF] @ ''title = '' @ quote_string ''T'' @ [LF] @ [LF] @ ''[probe_hashes]'' @ [LF])"
    using pairs subs by (simp add: emit_table.simps [of note_ext note_doc])
  moreover have "\<forall>c \<in> set (quote_string ?a) \<union> set (quote_string ?b). is_ascii c"
    using quote_ascii [of ?a] quote_ascii [of ?b] hex_ascii by (auto simp: hash_hex_eq)
  moreover have "\<forall>c \<in> set (quote_string ''note'') \<union> set (quote_string ''2024-01-01T00:00:00Z'') \<union> set (quote_string ''0.1.0'') \<union>
      set (quote_string ''T''). is_ascii c"
    using quote_ascii [of "''note''"] quote_ascii [of "''2024-01-01T00:00:00Z''"] quote_ascii [of "''0.1.0''"] quote_ascii [of "''T''"]
    by (auto simp: is_ascii_def)
  moreover have "length (quote_string ?a) = 66" "length (quote_string ?b) = 66"
    using length_hash_hex [OF wf] by (simp_all add: quote_hex)
  moreover have "length (quote_string ''note'') \<le> 50" "length (quote_string ''2024-01-01T00:00:00Z'') \<le> 50"
    "length (quote_string ''0.1.0'') \<le> 50" "length (quote_string ''T'') \<le> 50"
    by (simp_all add: quote_string_def quote_char_def)
  ultimately show ?thesis by (auto simp: note_text_def is_ascii_def)
qed

lemma note_written: "manifest_serialize note_ext m = Ok mb \<Longrightarrow> manifest_parse note_ext mb = Ok note_manifest"
proof -
  assume "manifest_serialize note_ext m = Ok mb"
  then have "emit_table note_ext note_doc [] = Ok mb"
    by (auto simp: manifest_serialize_def canonicalize_def note_ext_def note_text_def bind_res_eq_Inr)
  then have "utf8_valid mb" "mb \<noteq> note_text" using note_emit by (auto intro: utf8_valid_ascii)
  then show ?thesis using note_doc(2) by (simp add: manifest_parse_def note_ext_def)
qed

lemma note_mb:
  obtains mb where "manifest_serialize note_ext note_manifest = Ok mb" "last (frame Manifest mb) = LF" "length mb \<le> 1000"
proof -
  obtain mb where mb: "emit_table note_ext note_doc [] = Ok mb" "mb \<noteq> []" "last mb = LF" "length mb \<le> 1000" using note_emit by blast
  have "manifest_to_doc note_ext note_manifest = Ok note_doc"
    by (simp add: manifest_to_doc_def note_manifest_def note_doc_eq)
  then have "manifest_serialize note_ext note_manifest = Ok mb"
    using mb(1) by (simp add: manifest_serialize_def canonicalize_def note_ext_def note_text_def)
  then show thesis using that mb(2-4) by (simp add: frame_def)
qed

lemma note_read: "build_manifest note_env s path ''hi'' user ft None at = Ok m \<Longrightarrow> source_read note_ext m"
  using built_source [of note_env s path "''hi''" user ft None at m] note_written
  by (auto simp: source_read_def note_hash note_manifest_def)

text \<open>The file is ingested: its schema is found by its type, and the client's title is kept.\<close>

lemma note_head: "head_tree note_env fresh_disk = Ok None"
proof -
  have b: "branch_name ''main''" by (simp add: branch_name_def starts_with_def)
  have "read_ref fresh_disk (branch_ref ''main'') = Ok None"
    using ref_path_branch [OF b] by (simp add: read_ref_def read_to_string_def read_file_def fresh_disk_dirs fresh_disk_files)
  then show ?thesis
    using head_on_resolve [OF fresh_head_on] by (simp add: head_tree_def)
qed

lemma note_config: "current_repo_config note_env None fresh_disk = Ok default_config"
  by (simp add: current_repo_config_def note_head config_from_work_def)

lemma note_build:
  "build_manifest note_env fresh_disk ''a.txt'' ''hi'' [(''title'', FString ''T'')] None None (now note_env) = Ok note_manifest"
proof -
  note head = note_head and config = note_config
  have probes: "current_probes note_env fresh_disk = Ok Map.empty"
    by (simp add: current_probes_def root_tree_def head)
  have schemas: "load_all_schemas note_env None fresh_disk = Ok [(''note'', note_schema)]"
    using note_parses by (simp add: load_all_schemas_def head schemas_of_tree_def work_schema_def note_schema_def)
  have mime: "mime_of_ingest note_env ''hi'' NotChunked = ''text/plain''"
    by (simp add: mime_of_ingest_def sniff_mime_def looks_like_text_def printable_def flip: numeral_2_eq_2)
  have found: "detect_file_type None ''text/plain'' [(''note'', note_schema)] = Some note_schema"
    by (simp add: detect_file_type_def note_schema_def mime_matches_def glob_match_def to_ascii_lowercase_def ascii_lower_def
        is_continuation_def)
  have "schema_bytes_at_head note_env None fresh_disk (s_file_type note_schema) = Ok (Some note_text)"
    by (simp add: schema_bytes_at_head_def head note_schema_def schema_path_def)
  then have "choose_schema note_env None fresh_disk default_config ''text/plain'' None None = Ok (note_schema, note_text)"
    by (simp add: choose_schema_def schemas found detected_schema_def ok_or_def)
  then show ?thesis
    by (simp add: build_manifest_def build_manifest_with_def config mime probes validate_probe_refs_def note_schema_def
        ingest_def ingest_with_cache_def ingest_field_def resolve_source_def ingest_input_of_def is_null_def add_extras_def
        bt_get_def normalize_value_def Let_def note_manifest_def source_hash_of_def schema_hash_def note_hash INGESTER_VERSION_def)
qed

lemma short_number: "length (show_nat n) \<le> Suc n"
proof (induction n rule: show_nat.induct)
  case (1 n)
  then show ?case by (cases "n < 10") (auto simp: show_nat.simps [of n])
qed

theorem posted_file_staged_witness:
  "\<exists>r s1. \<forall>R. handle R note_env Plaintext [] (Post_File
       [\<lparr>pt_name = Some ''path'', pt_text = Some ''a.txt'', pt_bytes = None\<rparr>,
        \<lparr>pt_name = Some ''fields[title]'', pt_text = Some ''T'', pt_bytes = None\<rparr>,
        \<lparr>pt_name = Some ''file'', pt_text = None, pt_bytes = Some ''hi''\<rparr>]) fresh_disk = (Some r, s1, []) \<and> reply_status r = 200 \<and>
     stored_mode note_env s1 (projr (staged_hash note_env s1 ''a.txt'')) = Ok MManifest \<and>
     handle R note_env Plaintext [] (Get_Bytes ''a.txt''
       \<lparr>aq_at = None, aq_recursive = False, aq_verbose = False, aq_staged = True\<rparr>) s1 = (Some (Reply 200 (BytesBody ''hi'')), s1, [])"
proof -
  let ?ps = "[\<lparr>pt_name = Some ''path'', pt_text = Some ''a.txt'', pt_bytes = None\<rparr>,
        \<lparr>pt_name = Some ''fields[title]'', pt_text = Some ''T'', pt_bytes = None\<rparr>,
        \<lparr>pt_name = Some ''file'', pt_text = None, pt_bytes = Some ''hi''\<rparr>]"
  let ?path = "''a.txt''" and ?V = note_env
  have scalar: "parse_scalar note_ext ''T'' = FString ''T''" 
    by (simp add: parse_scalar_def parse_sint_def parse_uint_def digit_val_def note_ext_def toy_ext_def)
  have form: "read_form note_ext ''file_type'' pt_text ?ps = \<lparr>fm_path = Some ?path, fm_file = Some ''hi'', fm_extra = None, fm_fields = [(''title'', FString ''T'')]\<rparr>"
    by (simp add: read_form_def form_part_def given_def Let_def field_key_def starts_with_def ends_with_def scalar)
  have valid: "validate_path ?path = Ok ()"
    by (simp add: validate_path_def starts_with_def split_path_def trim_matches_def trim_start_matches_def trim_end_matches_def)
  have mode: "classify_path ?path = MManifest" by (simp add: classify_path_def to_slash_def starts_with_def)
  obtain mb where mb: "manifest_serialize note_ext note_manifest = Ok mb" "last (frame Manifest mb) = LF" "length mb \<le> 1000"
    by (rule note_mb)
  obtain s2 where s2: "disk_put note_ext (type_as_str Blob) ''hi'' fresh_disk = (Ok (hash_of note_ext Blob ''hi''), s2)"
      "disk_ok note_ext s2" "puts s2 = [frame Blob ''hi'']"
    using disk_put_ok [of note_ext fresh_disk Blob "''hi''"] by auto
  obtain s3 where s3: "disk_put note_ext (type_as_str Manifest) mb s2 = (Ok (hash_of note_ext Manifest mb), s3)"
      "disk_ok note_ext s3" "puts s3 = [frame Manifest mb, frame Blob ''hi'']"
    using disk_put_ok [of note_ext s2 Manifest mb] s2(2,3) by auto
  have free: "[''index.json''] \<notin> dirs fresh_disk" by (simp add: fresh_disk_dirs)
  have free2: "[''index.json''] \<notin> dirs s2"
    using put_ok(4) [OF _ note_ext_ok(3) s2(1), where n = "''index.json''"] free by auto
  have free3: "[''index.json''] \<notin> dirs s3"
    using put_ok(4) [OF s2(2) note_ext_ok(3) s3(1), where n = "''index.json''"] free2 by auto
  have none: "files s3 [''index.json''] = None"
    using disk_put_same [OF s2(1)] disk_put_same [OF s3(1)] by (simp add: same_outside_def fresh_disk_files)
  let ?c = "\<lparr>sc_path = ?path, sc_kind = Upsert, sc_hash = Some (hash_of note_ext Manifest mb)\<rparr>"
  obtain s1 where s1: "save_index ?V [(?path, ?c)] s3 = (Ok (), s1)" "puts s1 = puts s3"
    using save_index_ok [OF s3(2) free3 note_reads [of "[(?path, ?c)]"]] by metis
  have staged: "stage_upsert ?V ?path (hash_of note_ext Manifest mb) s3 = (Ok (), s1)"
    using s1(1) none free3 by (simp add: stage_upsert_def stage_def load_index_def path_exists_def bind_op_def)
  note up = stage_upsert_ok [of ?V, unfolded note_rx, OF s3(2) free3 allI [OF note_reads] staged]
  have "add_single ?V ?path ''hi'' (Some [(''title'', FString ''T'')]) None fresh_disk =
      (Ok (AddManifest ?path (hash_of note_ext Manifest mb) (hash_of note_ext Blob ''hi'')), s1)"
    using s2(1) s3(1) staged note_build mb(1) by (simp add: add_single_def put_manifest_def bind_op_def given_def)
  then have "repo_add ?V ?path ''hi'' (Some [(''title'', FString ''T'')]) None fresh_disk =
      (Ok (AddManifest ?path (hash_of note_ext Manifest mb) (hash_of note_ext Blob ''hi'')), s1)"
    using valid mode note_config
    by (simp add: repo_add_def check_quota_for_write_def unlimited_def bind_op_def default_config_def)
  then have post: "handle R ?V Plaintext [] (Post_File ?ps) fresh_disk =
      (Some (ok_json (add_json (AddManifest ?path (hash_of note_ext Manifest mb) (hash_of note_ext Blob ''hi'')))), s1, [])" for R
    by (simp add: post_file_def form form_file_def ok_or_def require_plaintext_mode_def is_encrypted_def
        done_with_def answer_def bind_op_def)
  have ends: "hd (rev (frame Manifest mb)) = LF" "hd (rev (frame Blob ''hi'')) = CHR ''i''"
    using mb(2) by (simp_all only: hd_rev) (simp add: frame_def)
  have "hd (sha256 note_ext f) = hd (rev f)" if "f \<noteq> []" for f
    using that by (simp add: note_ext_def toy_ext_def pad_to_def hd_append)
  from this [of "frame Manifest mb"] this [of "frame Blob ''hi''"] ends
  have "sha256 note_ext (frame Manifest mb) \<noteq> sha256 note_ext (frame Blob ''hi'')" by (auto simp: frame_def)
  moreover have "length (frame Manifest mb) \<le> 3000" "length (frame Blob ''hi'') \<le> 3000"
    using mb(3) short_number [of "length mb"] short_number [of "Suc (Suc 0)"] by (simp_all add: frame_def)
  ultimately have clash: "collision_free note_ext s1"
    using s1(2) s3(3) by (auto simp: collision_free_def U64_MAX_def)
  have "stored_mode ?V s1 (hash_of note_ext Manifest mb) = Ok MManifest"
    using stored_mode_of [of ?V s1 Manifest mb MManifest] up(1) clash s1(2) s3(3) by simp
  moreover have "handle R ?V Plaintext [] (Get_Bytes ?path
       \<lparr>aq_at = None, aq_recursive = False, aq_verbose = False, aq_staged = True\<rparr>) s1 = (Some (Reply 200 (BytesBody ''hi'')), s1, [])" for R
    by (rule posted_file_staged [OF _ _ free _ _ _ _ post])
      (simp_all add: note_reads note_read clash ok_json_def note_config default_config_def form_sends_def part_of_def)
  ultimately show ?thesis using post up(3)
    by (intro exI [of _ "ok_json (add_json (AddManifest ?path (hash_of note_ext Manifest mb) (hash_of note_ext Blob ''hi'')))"] exI [of _ s1])
      (simp add: ok_json_def)
qed

end
