(* ===== verification/Omp_Calendar.thy ===== *)
theory Omp_Calendar
  imports Text
begin

text \<open>
  The dates of \<open>crates/omp-builder/src/jobs.rs\<close>: seconds since 1970 as a UTC time stamp.
  The function counts in years that begin in March. It is compared with the definition of
  the Gregorian calendar by the lengths of the months: the day after a date. Years are
  \<open>i32\<close> in the code; the arithmetic wraps there as it does in a release build.
\<close>

section \<open>The code\<close>

definition as_i32 :: "int \<Rightarrow> int" where
  "as_i32 x = (x + 2 ^ 31) mod 2 ^ 32 - 2 ^ 31"

definition year_of_era :: "int \<Rightarrow> int" where
  "year_of_era doe = (doe - doe div 1460 + doe div 36524 - doe div 146096) div 365"

definition day_of_year :: "int \<Rightarrow> int \<Rightarrow> int" where
  "day_of_year doe yoe = doe - (365 * yoe + yoe div 4 - yoe div 100)"

definition days_since_epoch_to_ymd :: "int \<Rightarrow> int \<times> int \<times> int" where
  "days_since_epoch_to_ymd days0 =
     (let days = days0 + 719468;
          era = days div 146097;
          doe = days mod 146097;
          yoe = year_of_era doe;
          y = as_i32 (yoe + as_i32 (as_i32 era * 400));
          doy = day_of_year doe yoe;
          mp = (5 * doy + 2) div 153;
          d = doy - (153 * mp + 2) div 5 + 1;
          m = (if mp < 10 then mp + 3 else mp - 9);
          y = (if m \<le> 2 then as_i32 (y + 1) else y)
      in (y, m, d))"

text \<open>\<open>{:04}\<close> and \<open>{:02}\<close>: zeros after the sign up to the width.\<close>

definition show_padded :: "nat \<Rightarrow> int \<Rightarrow> str" where
  "show_padded w x =
     (if x < 0 then let s = show_nat (nat (- x)) in ''-'' @ replicate (w - 1 - length s) (CHR ''0'') @ s
      else let s = show_nat (nat x) in replicate (w - length s) (CHR ''0'') @ s)"

definition chrono_secs_to_iso :: "int \<Rightarrow> str" where
  "chrono_secs_to_iso secs =
     (let days = secs div 86400;
          secs_of_day = secs mod 86400;
          h = secs_of_day div 3600;
          m = (secs_of_day mod 3600) div 60;
          s = secs_of_day mod 60;
          (y, mo, d) = days_since_epoch_to_ymd days
      in show_padded 4 y @ ''-'' @ show_padded 2 mo @ ''-'' @ show_padded 2 d @ ''T'' @
         show_padded 2 h @ '':'' @ show_padded 2 m @ '':'' @ show_padded 2 s @ ''Z'')"

section \<open>The calendar\<close>

definition leap :: "int \<Rightarrow> bool" where
  "leap y \<longleftrightarrow> 4 dvd y \<and> (\<not> 100 dvd y \<or> 400 dvd y)"

definition month_days :: "int \<Rightarrow> int \<Rightarrow> int" where
  "month_days y m = (if m = 2 then if leap y then 29 else 28 else if m \<in> {4, 6, 9, 11} then 30 else 31)"

fun next_day :: "int \<times> int \<times> int \<Rightarrow> int \<times> int \<times> int" where
  "next_day (y, m, d) =
     (if d < month_days y m then (y, m, d + 1) else if m < 12 then (y, m + 1, 1) else (y + 1, 1, 1))"

section \<open>Years of an era\<close>

text \<open>The day of the era on which a year starts; an era has 400 years.\<close>

definition year_start :: "int \<Rightarrow> int" where
  "year_start y = 365 * y + y div 4 - y div 100 + y div 400"

definition ramp :: "int \<Rightarrow> int" where
  "ramp doe = doe - doe div 1460 + doe div 36524 - doe div 146096"

lemma minus_div_mono: "(a::int) \<le> b \<Longrightarrow> 0 < k \<Longrightarrow> a - a div k \<le> b - b div k"
proof -
  assume "a \<le> b" "0 < k"
  have "b div k = (a + (b - a)) div k" by simp
  also have "\<dots> \<le> (a + (b - a) * k) div k" 
    using \<open>a \<le> b\<close> \<open>0 < k\<close> mult_left_mono [of 1 k "b - a"] by (intro zdiv_mono1) (auto simp: algebra_simps)
  also have "\<dots> = a div k + (b - a)" using \<open>0 < k\<close> by simp
  finally show ?thesis by simp
qed

lemma ramp_mono: "a \<le> b \<Longrightarrow> ramp a \<le> ramp b"
proof -
  assume "a \<le> b"
  have q: "x div 146096 = x div 36524 div 4" for x :: int by (simp add: zdiv_zmult2_eq [symmetric])
  have "a div 36524 \<le> b div 36524" using \<open>a \<le> b\<close> by (simp add: zdiv_mono1)
  from minus_div_mono [OF this, of 4] minus_div_mono [OF \<open>a \<le> b\<close>, of 1460] show ?thesis by (simp add: ramp_def q)
qed

text \<open>The ramp rises by 365 from the start of a year to the start of the next.\<close>

lemma ramp_start:
  assumes "0 \<le> y" "y < 400"
  shows "ramp (year_start y) = 365 * y"
proof -
  define a r b z where "a = y div 4" "r = y mod 4" "b = y div 100" "z = y mod 100"
  note d = this
  have y: "y = 4 * a + r" "y = 100 * b + z" "y div 400 = 0" "0 \<le> r" "r < 4" "0 \<le> z" "z < 100" "0 \<le> b" "b < 4" "b \<le> a" "a < 100"
    using assms by (auto simp: d)
  have a: "a = 25 * b + z div 4" using y(2) by (simp add: d(1))
  have "year_start y div 1460 = a"
    by (rule int_div_pos_eq [where r = "365 * r + a - b"]) (use y in \<open>auto simp: year_start_def d [symmetric]\<close>)
  moreover have "year_start y div 36524 = b"
    by (rule int_div_pos_eq [where r = "365 * z + z div 4"]) (use y a in \<open>auto simp: year_start_def d [symmetric]\<close>)
  moreover have "year_start y div 146096 = 0" using y by (simp add: year_start_def d [symmetric])
  ultimately show ?thesis by (simp add: ramp_def year_start_def d [symmetric] y(3))
qed

lemma ramp_end:
  assumes "0 < y" "y \<le> 400"
  shows "365 * y - 2 \<le> ramp (year_start y - 1) \<and> ramp (year_start y - 1) < 365 * y"
proof -
  define a r b z where "a = y div 4" "r = y mod 4" "b = y div 100" "z = y mod 100"
  note d = this
  show ?thesis
  proof (cases "y = 400")
    case False
    then have y: "y = 4 * a + r" "y = 100 * b + z" "y div 400 = 0" "0 \<le> r" "r < 4" "0 \<le> z" "z < 100" "0 \<le> b" "b < 4" "b \<le> a" "a < 100"
      using assms by (auto simp: d)
    have a: "a = 25 * b + z div 4" using y(2) by (simp add: d(1))
    have "0 \<le> 365 * r + a - b - 1" using y a assms(1) by (cases "r = 0") auto
    then have "(year_start y - 1) div 1460 = a"
      by (intro int_div_pos_eq [where r = "365 * r + a - b - 1"]) (use y in \<open>auto simp: year_start_def d [symmetric]\<close>)
    moreover have "(year_start y - 1) div 36524 = (if z = 0 then b - 1 else b)"
    proof (cases "z = 0")
      case True
      then show ?thesis
        by (simp, intro int_div_pos_eq [where r = "36523"]) (use y a in \<open>auto simp: year_start_def d [symmetric]\<close>)
    next
      case False
      then show ?thesis
        by (simp, intro int_div_pos_eq [where r = "365 * z + z div 4 - 1"]) (use y a in \<open>auto simp: year_start_def d [symmetric]\<close>)
    qed
    moreover have "(year_start y - 1) div 146096 = 0" using y assms(1) by (simp add: year_start_def d [symmetric])
    ultimately have "ramp (year_start y - 1) = 365 * y - (if z = 0 then 2 else 1)"
      by (simp add: ramp_def year_start_def d [symmetric] y(3))
    then show ?thesis by auto
  qed (simp_all add: ramp_def year_start_def)
qed

lemma year_of_era_unique:
  assumes "0 \<le> y" "y < 400" "year_start y \<le> doe" "doe < year_start (y + 1)"
  shows "year_of_era doe = y"
proof -
  have "ramp (year_start y) div 365 = y" "ramp (year_start (y + 1) - 1) div 365 = y"
    using ramp_start [OF assms(1,2)] ramp_end [of "y + 1"] assms(1,2) by auto
  moreover have "ramp (year_start y) div 365 \<le> ramp doe div 365" "ramp doe div 365 \<le> ramp (year_start (y + 1) - 1) div 365"
    using assms(3,4) by (auto intro!: zdiv_mono1 ramp_mono)
  ultimately have "ramp doe div 365 = y" by linarith
  then show ?thesis by (simp only: year_of_era_def ramp_def)
qed

lemma year_exists: "0 \<le> doe \<Longrightarrow> doe < year_start (int n) \<Longrightarrow> \<exists>y. 0 \<le> y \<and> y < int n \<and> year_start y \<le> doe \<and> doe < year_start (y + 1)"
proof (induction n)
  case (Suc n)
  show ?case
  proof (cases "doe < year_start (int n)")
    case True
    then show ?thesis using Suc.IH Suc.prems(1) by fastforce
  next
    case False
    then show ?thesis using Suc.prems by (intro exI [of _ "int n"]) (auto simp: add.commute)
  qed
qed (simp add: year_start_def)

lemma div_next: "0 < k \<Longrightarrow> (y + 1) div k - y div k = (if k dvd y + 1 then 1 else 0)" for y k :: int
proof -
  assume k: "0 < k"
  have y: "y = k * (y div k) + y mod k" by simp
  show ?thesis
  proof (cases "y mod k = k - 1")
    case True
    then have y1: "y + 1 = k * (y div k + 1)" using y by (metis add.assoc add.commute diff_add_cancel distrib_left mult.right_neutral)
    then have "k dvd y + 1" by (metis dvd_triv_left)
    moreover have "(y + 1) div k = y div k + 1" using k by (subst y1) simp
    ultimately show ?thesis by simp
  next
    case False
    then have m: "y mod k + 1 < k" "0 \<le> y mod k" using pos_mod_bound [OF k, of y] pos_mod_sign [OF k, of y] by auto
    have "y + 1 = k * (y div k) + (y mod k + 1)" using y by linarith
    then have "(y + 1) div k = y div k" "(y + 1) mod k = y mod k + 1"
      using m int_div_pos_eq [of "y + 1" k "y div k" "y mod k + 1"] int_mod_pos_eq [of "y + 1" k "y div k" "y mod k + 1"]
      by auto
    then show ?thesis using m by (simp add: dvd_eq_mod_eq_0)
  qed
qed

lemma year_length: "year_start (y + 1) - year_start y = (if leap (y + 1) then 366 else 365)"
proof -
  have "100 dvd y + 1 \<Longrightarrow> 4 dvd y + 1" by (rule dvd_trans [of _ 100]) simp_all
  moreover have "400 dvd y + 1 \<Longrightarrow> 100 dvd y + 1" by (rule dvd_trans [of _ 400]) simp_all
  moreover have "year_start (y + 1) - year_start y =
      365 + (if 4 dvd y + 1 then 1 else 0) - (if 100 dvd y + 1 then 1 else 0) + (if 400 dvd y + 1 then 1 else 0)"
  proof -
    have "(y + 1) div 4 = y div 4 + (if 4 dvd y + 1 then 1 else 0)" "(y + 1) div 100 = y div 100 + (if 100 dvd y + 1 then 1 else 0)"
      "(y + 1) div 400 = y div 400 + (if 400 dvd y + 1 then 1 else 0)"
      using div_next [of 4 y] div_next [of 100 y] div_next [of 400 y] by simp_all
    then show ?thesis by (simp only: year_start_def) simp
  qed
  ultimately show ?thesis
    by (cases "4 dvd y + 1"; cases "100 dvd y + 1"; cases "400 dvd y + 1"; simp add: leap_def)
qed

section \<open>Days of a year\<close>

text \<open>The date of a day of the year that begins in March of the year \<open>y\<close>.\<close>

definition date_of :: "int \<Rightarrow> int \<Rightarrow> int \<times> int \<times> int" where
  "date_of y doy =
     (let mp = (5 * doy + 2) div 153; m = (if mp < 10 then mp + 3 else mp - 9)
      in (if m \<le> 2 then y + 1 else y, m, doy - (153 * mp + 2) div 5 + 1))"

definition date_in :: "int \<Rightarrow> int \<Rightarrow> int \<Rightarrow> int \<times> int \<times> int" where
  "date_in y mp doy =
     (let m = (if mp < 10 then mp + 3 else mp - 9) in (if m \<le> 2 then y + 1 else y, m, doy - (153 * mp + 2) div 5 + 1))"

lemma date_in_month: "153 * k \<le> 5 * doy + 2 \<Longrightarrow> 5 * doy + 2 < 153 * k + 153 \<Longrightarrow> date_of y doy = date_in y k doy"
proof -
  assume "153 * k \<le> 5 * doy + 2" "5 * doy + 2 < 153 * k + 153"
  then have "(5 * doy + 2) div 153 = k" by (intro int_div_pos_eq [where r = "5 * doy + 2 - 153 * k"]) auto
  then show ?thesis by (simp add: date_of_def date_in_def)
qed

lemma month_index:
  assumes "0 \<le> doy" "doy \<le> (365::int)"
  obtains k where "k \<in> {0, 1, 2, 3, 4, 5, 6, 7, 8, 9, 10, 11}" "153 * k \<le> 5 * doy + 2" "5 * doy + 2 < 153 * k + 153"
proof -
  define k where "k = (5 * doy + 2) div 153"
  have b: "153 * k \<le> 5 * doy + 2" "5 * doy + 2 < 153 * k + 153"
    using pos_mod_bound [of 153 "5 * doy + 2"] pos_mod_sign [of 153 "5 * doy + 2"] mult_div_mod_eq [of 153 "5 * doy + 2"]
    unfolding k_def by linarith+
  then have "0 \<le> k" "k \<le> 11" using assms by linarith+
  then have "k = 0 \<or> k = 1 \<or> k = 2 \<or> k = 3 \<or> k = 4 \<or> k = 5 \<or> k = 6 \<or> k = 7 \<or> k = 8 \<or> k = 9 \<or> k = 10 \<or> k = 11"
    by presburger
  then have "k \<in> {0, 1, 2, 3, 4, 5, 6, 7, 8, 9, 10, 11}" by simp
  then show thesis using that b by blast
qed

lemma date_next:
  assumes "0 \<le> doy" "doy + 1 < (if leap (y + 1) then 366 else 365)"
  shows "next_day (date_of y doy) = date_of y (doy + 1)"
proof -
  have doy: "doy \<le> 364" "\<not> leap (y + 1) \<Longrightarrow> doy \<le> 363" using assms by (auto split: if_splits)
  then have "doy \<le> 365" by simp
  from month_index [OF assms(1) this] obtain k where
    k: "k \<in> {0, 1, 2, 3, 4, 5, 6, 7, 8, 9, 10, 11}" "153 * k \<le> 5 * doy + 2" "5 * doy + 2 < 153 * k + 153" by metis
  note now = date_in_month [OF k(2,3), of y]
  show ?thesis
  proof (cases "5 * doy + 7 < 153 * k + 153")
    case True
    then have "date_of y (doy + 1) = date_in y k (doy + 1)" using k(2) by (intro date_in_month) auto
    then show ?thesis using k True doy unfolding now by (auto simp: date_in_def month_days_def)
  next
    case False
    then have next': "date_of y (doy + 1) = date_in y (k + 1) (doy + 1)" using k(3) by (intro date_in_month) auto
    have d: "doy = (153 * k + 150) div 5" using False k(3) by linarith
    have "next_day (date_in y k doy) = date_in y (k + 1) (doy + 1)"
      using k(1) doy(1) unfolding d by (elim insertE emptyE) (simp_all add: date_in_def month_days_def)
    then show ?thesis by (simp only: now next')
  qed
qed

lemma date_last:
  assumes "doy + 1 = (if leap (y + 1) then 366 else 365)"
  shows "next_day (date_of y doy) = date_of (y + 1) 0"
proof -
  have "date_of y doy = date_in y 11 doy" using assms by (intro date_in_month) (auto split: if_splits)
  moreover have "date_of (y + 1) 0 = date_in (y + 1) 0 0" by (intro date_in_month) auto
  ultimately show ?thesis using assms by (auto simp: date_in_def month_days_def split: if_splits)
qed

section \<open>The code computes the calendar\<close>

definition in_range :: "int \<Rightarrow> bool" where
  "in_range days \<longleftrightarrow> - 700000000000 \<le> days \<and> days \<le> 700000000000"

lemma as_i32_id: "- (2 ^ 31) \<le> x \<Longrightarrow> x < 2 ^ 31 \<Longrightarrow> as_i32 x = x"
  by (simp add: as_i32_def)

lemma leap_era: "leap (400 * e + y) = leap y"
proof -
  have "(k::int) dvd 400 * e + y \<longleftrightarrow> k dvd y" if "k dvd 400" for k
    using that by (intro dvd_add_right_iff) simp
  then show ?thesis by (simp add: leap_def)
qed

text \<open>A day is an era, a year of it and a day of the year.\<close>

definition day_at :: "int \<Rightarrow> int \<Rightarrow> int \<Rightarrow> int \<Rightarrow> bool" where
  "day_at days e y doy \<longleftrightarrow> days + 719468 = 146097 * e + year_start y + doy \<and> 0 \<le> y \<and> y < 400 \<and>
     0 \<le> doy \<and> doy < (if leap (y + 1) then 366 else 365)"

lemma day_at_exists: obtains e y doy where "day_at days e y doy"
proof -
  let ?e = "(days + 719468) div 146097" and ?doe = "(days + 719468) mod 146097"
  have "year_start (int 400) = 146097" by (simp add: year_start_def)
  then obtain y where y: "0 \<le> y" "y < 400" "year_start y \<le> ?doe" "?doe < year_start (y + 1)"
    using year_exists [of ?doe 400] by auto
  have "days + 719468 = 146097 * ?e + ?doe" by simp
  then have "day_at days ?e y (?doe - year_start y)"
    unfolding day_at_def using y year_length [of y] by linarith
  then show thesis by (rule that)
qed

lemma year_start_bound: "0 \<le> y \<Longrightarrow> y < 400 \<Longrightarrow> 0 \<le> year_start y \<and> year_start (y + 1) \<le> 146097"
proof -
  assume y: "0 \<le> y" "y < 400"
  then have "0 \<le> y div 4" "0 \<le> y div 400" "y div 100 \<le> y" by (auto simp: div_le_dividend)
  then have "0 \<le> year_start y" using y unfolding year_start_def by linarith
  moreover have "year_start (y + 1) \<le> 146097"
  proof (cases "y = 399")
    case False
    then have b: "(y + 1) div 4 \<le> 99" "0 \<le> (y + 1) div 100" "(y + 1) div 400 \<le> 0" "365 * (y + 1) \<le> 145635" using y by auto
    have "365 * (y + 1) + p - q + r \<le> 146097" if "p \<le> 99" "0 \<le> q" "r \<le> 0" for p q r
      using that b(4) by simp
    from this [OF b(1-3)] show ?thesis by (simp only: year_start_def)
  qed (simp add: year_start_def)
  ultimately show ?thesis by blast
qed

lemma ymd_of_day:
  assumes "day_at days e y doy" "in_range days"
  shows "days_since_epoch_to_ymd days = date_of (400 * e + y) doy"
proof -
  have y: "0 \<le> y" "y < 400" "year_start y \<le> year_start y + doy" "year_start y + doy < year_start (y + 1)" "0 \<le> doy"
    using assms(1) year_length [of y] by (auto simp: day_at_def)
  have z: "days + 719468 = 146097 * e + (year_start y + doy)" using assms(1) by (simp add: day_at_def)
  have b: "0 \<le> year_start y + doy" "year_start y + doy < 146097" using y year_start_bound [OF y(1,2)] by linarith+
  have era: "(days + 719468) div 146097 = e" "(days + 719468) mod 146097 = year_start y + doy"
    using int_div_pos_eq [OF z b] int_mod_pos_eq [OF z b] by simp_all
  have yoe: "year_of_era (year_start y + doy) = y" by (rule year_of_era_unique [OF y(1-4)])
  have "y div 400 = 0" using y(1,2) by simp
  then have doy: "day_of_year (year_start y + doy) y = doy" by (simp add: day_of_year_def year_start_def)
  have e: "- 4800000 \<le> e" "e \<le> 4800000" using z b assms(2) by (auto simp: in_range_def)
  then have i: "as_i32 e = e" "as_i32 (e * 400) = e * 400" "as_i32 (y + e * 400) = y + e * 400" "as_i32 (y + e * 400 + 1) = y + e * 400 + 1"
    using y(1,2) by (auto intro!: as_i32_id)
  show ?thesis
    unfolding days_since_epoch_to_ymd_def Let_def era yoe doy i
    by (simp add: date_of_def Let_def i add.commute mult.commute)
qed

lemma ymd_next:
  assumes "in_range days" "in_range (days + 1)"
  shows "days_since_epoch_to_ymd (days + 1) = next_day (days_since_epoch_to_ymd days)"
proof -
  obtain e y doy where at: "day_at days e y doy" by (rule day_at_exists)
  note now = ymd_of_day [OF at assms(1)]
  let ?len = "if leap (y + 1) then 366 else 365 :: int"
  have l: "leap (400 * e + y + 1) = leap (y + 1)" using leap_era [of e "y + 1"] by (simp add: add.assoc)
  show ?thesis
  proof (cases "doy + 1 < ?len")
    case True
    then have "day_at (days + 1) e y (doy + 1)" using at by (auto simp: day_at_def)
    moreover have "next_day (date_of (400 * e + y) doy) = date_of (400 * e + y) (doy + 1)"
      using date_next [of doy "400 * e + y"] True at by (simp add: l day_at_def)
    ultimately show ?thesis using ymd_of_day [OF _ assms(2)] now by simp
  next
    case False
    then have last: "doy + 1 = ?len" using at by (auto simp: day_at_def split: if_splits)
    then have step: "next_day (date_of (400 * e + y) doy) = date_of (400 * e + y + 1) 0"
      using date_last [of doy "400 * e + y"] by (simp add: l)
    have start: "days + 1 + 719468 = 146097 * e + year_start (y + 1)" using at last year_length [of y] by (auto simp: day_at_def)
    show ?thesis
    proof (cases "y + 1 < 400")
      case True
      then have "day_at (days + 1) e (y + 1) 0" using at start by (auto simp: day_at_def)
      then show ?thesis using ymd_of_day [OF _ assms(2)] now step by (simp add: add.assoc)
    next
      case False
      then have "y = 399" using at by (simp add: day_at_def)
      moreover from this have "day_at (days + 1) (e + 1) 0 0" using start by (auto simp: day_at_def year_start_def)
      ultimately show ?thesis using ymd_of_day [OF _ assms(2)] now step by (simp add: distrib_left add.assoc)
    qed
  qed
qed

section \<open>Properties\<close>

text \<open>
  C26. The dates are those of the Gregorian calendar. Day 0 is the first of January 1970,
  and the date of each next day is the day after: the next day of the month, or the first
  of the next month, or the first of January, with the leap years of the calendar. It
  holds forwards and backwards for more than a thousand million years, which is where the
  \<open>i32\<close> of the code still holds the year.
\<close>

theorem ymd_is_gregorian:
  assumes "in_range days" "in_range (days + 1)"
  shows "days_since_epoch_to_ymd 0 = (1970, 1, 1) \<and>
    days_since_epoch_to_ymd (days + 1) = next_day (days_since_epoch_to_ymd days)"
proof -
  have "day_at 0 4 369 306" by (simp add: day_at_def year_start_def)
  then have "days_since_epoch_to_ymd 0 = date_of (400 * 4 + 369) 306" by (rule ymd_of_day) (simp add: in_range_def)
  also have "\<dots> = (1970, 1, 1)" using date_in_month [of 10 306] by (simp add: date_in_def)
  finally show ?thesis using ymd_next [OF assms] by simp
qed

theorem ymd_is_gregorian_witness:
  "days_since_epoch_to_ymd 19782 = (2024, 2, 29) \<and> days_since_epoch_to_ymd (19782 + 1) = (2024, 3, 1)"
proof -
  have "leap 24" by (simp add: leap_def)
  then have "day_at 19782 5 23 365" by (simp add: day_at_def year_start_def)
  then have "days_since_epoch_to_ymd 19782 = date_of (400 * 5 + 23) 365" by (rule ymd_of_day) (simp add: in_range_def)
  also have "\<dots> = (2024, 2, 29)" using date_in_month [of 11 365] by (simp add: date_in_def)
  finally have "days_since_epoch_to_ymd 19782 = (2024, 2, 29)" .
  moreover have "leap 2024" by (simp add: leap_def)
  ultimately show ?thesis
    using ymd_is_gregorian [of 19782] by (simp add: in_range_def month_days_def)
qed

end
