(* ===== verification/Omp_Builder.thy ===== *)
theory Omp_Builder
  imports Omp_Calendar Omp_Gateway
begin

text \<open>
  \<open>crates/omp-builder\<close>: the table of build jobs (\<open>jobs.rs\<close>), the handlers that create, show
  and delete them (\<open>router.rs\<close>) and the task that runs a build (\<open>builder.rs\<close>).

  A task runs beside the handlers and takes the lock of the table for each change, so a
  build is a sequence of small steps between which anything else may happen: a step
  relation over the table and the tasks. What cargo and the file system answer is any
  outcome. Identifiers of jobs are arguments; a new one is not in use. The broadcast of
  log lines to subscribers is not modelled, the buffer they replay is.
\<close>

section \<open>Jobs\<close>

datatype job_state = Queued | Building | JobOk | JobFailed | Cancelled

record artifact =
  af_path :: str
  af_bytes_b64 :: str

record job =
  jb_id :: str
  jb_tenant :: str
  jb_namespace :: str
  jb_name :: str
  jb_state :: job_state
  jb_artifacts :: "artifact list option"
  jb_error :: "str option"
  jb_created_at :: str
  jb_updated_at :: str
  jb_log :: "str list"

record job_view =
  jv_id :: str
  jv_tenant :: str
  jv_state :: job_state
  jv_namespace :: str
  jv_name :: str
  jv_artifacts :: "artifact list option"
  jv_error :: "str option"
  jv_created_at :: str
  jv_updated_at :: str

definition view_of_job :: "job \<Rightarrow> job_view" where
  "view_of_job j = \<lparr>jv_id = jb_id j, jv_tenant = jb_tenant j, jv_state = jb_state j, jv_namespace = jb_namespace j,
     jv_name = jb_name j, jv_artifacts = jb_artifacts j, jv_error = jb_error j, jv_created_at = jb_created_at j,
     jv_updated_at = jb_updated_at j\<rparr>"

type_synonym jobs_table = "str \<rightharpoonup> job"

definition jobs_create :: "str \<Rightarrow> int \<Rightarrow> str \<Rightarrow> str \<Rightarrow> str \<Rightarrow> jobs_table \<Rightarrow> jobs_table" where
  "jobs_create i secs tenant namespace nm t =
     (let now = chrono_secs_to_iso secs in
      t(i \<mapsto> \<lparr>jb_id = i, jb_tenant = tenant, jb_namespace = namespace, jb_name = nm, jb_state = Queued, jb_artifacts = None,
         jb_error = None, jb_created_at = now, jb_updated_at = now, jb_log = []\<rparr>))"

definition jobs_view :: "jobs_table \<Rightarrow> str \<Rightarrow> str \<Rightarrow> job_view option" where
  "jobs_view t i tenant =
     (case t i of None \<Rightarrow> None | Some j \<Rightarrow> if jb_tenant j \<noteq> tenant then None else Some (view_of_job j))"

definition jobs_update :: "int \<Rightarrow> str \<Rightarrow> (job \<Rightarrow> job) \<Rightarrow> jobs_table \<Rightarrow> jobs_table" where
  "jobs_update secs i f t =
     (case t i of None \<Rightarrow> t | Some j \<Rightarrow> t(i \<mapsto> (f j)\<lparr>jb_updated_at := chrono_secs_to_iso secs\<rparr>))"

definition append_log :: "str \<Rightarrow> str \<Rightarrow> jobs_table \<Rightarrow> jobs_table" where
  "append_log i line t =
     (case t i of None \<Rightarrow> t | Some j \<Rightarrow> t(i \<mapsto> j\<lparr>jb_log := jb_log j @ [line]\<rparr>))"

definition log_replay :: "jobs_table \<Rightarrow> str \<Rightarrow> str \<Rightarrow> str list option" where
  "log_replay t i tenant =
     (case t i of None \<Rightarrow> None | Some j \<Rightarrow> if jb_tenant j \<noteq> tenant then None else Some (jb_log j))"

definition jobs_delete :: "jobs_table \<Rightarrow> str \<Rightarrow> str \<Rightarrow> bool \<times> jobs_table" where
  "jobs_delete t i tenant =
     (case t i of None \<Rightarrow> (False, t)
      | Some j \<Rightarrow> if jb_tenant j \<noteq> tenant then (False, t) else (True, t(i := None)))"

section \<open>Building\<close>

record build_request =
  br_tenant :: str
  br_namespace :: str
  br_name :: str
  br_lib_rs :: str
  br_probe_toml :: str

definition build_artifacts :: "signing \<Rightarrow> build_request \<Rightarrow> bytes \<Rightarrow> artifact list" where
  "build_artifacts G rq wasm =
     (let dir = ''probes/'' @ br_namespace rq @ ''/'' @ br_name rq in
      [\<lparr>af_path = dir @ ''/probe.wasm'', af_bytes_b64 = std64_encode G wasm\<rparr>,
       \<lparr>af_path = dir @ ''/probe.toml'', af_bytes_b64 = std64_encode G (br_probe_toml rq)\<rparr>,
       \<lparr>af_path = dir @ ''/source/lib.rs'', af_bytes_b64 = std64_encode G (br_lib_rs rq)\<rparr>])"

text \<open>Where a task stands: between two changes of the table.\<close>

datatype phase = Waiting | Starting | Preparing | Stamping | Compiling | Collecting | Announcing | Failing str | Finished

definition mark_failed :: "str \<Rightarrow> job \<Rightarrow> job" where
  "mark_failed reason j = j\<lparr>jb_state := JobFailed, jb_error := Some reason\<rparr>"

text \<open>One step of \<open>run_build\<close>; \<open>fail\<close> is two steps, a line of the log and the change of state.\<close>

inductive build_step :: "signing \<Rightarrow> int \<Rightarrow> str \<Rightarrow> build_request \<Rightarrow> phase \<times> jobs_table \<Rightarrow> phase \<times> jobs_table \<Rightarrow> bool"
  for G secs i rq where
  no_permit: "build_step G secs i rq (Waiting, t) (Finished, jobs_update secs i (mark_failed ''builder shutting down'') t)"
| permit: "build_step G secs i rq (Waiting, t) (Starting, jobs_update secs i (\<lambda>j. j\<lparr>jb_state := Building\<rparr>) t)"
| log_start: "build_step G secs i rq (Starting, t) (Preparing, append_log i (''[builder] preparing scratch dir for '' @ i) t)"
| no_dir: "build_step G secs i rq (Preparing, t)
    (Failing (''create scratch dir: '' @ e), append_log i (''[builder] FAILED: create scratch dir: '' @ e) t)"
| dir: "build_step G secs i rq (Preparing, t) (Stamping, t)"
| no_stamp: "build_step G secs i rq (Stamping, t)
    (Failing (''stamp skeleton: '' @ e), append_log i (''[builder] FAILED: stamp skeleton: '' @ e) t)"
| stamp: "build_step G secs i rq (Stamping, t) (Compiling, append_log i ''[builder] running cargo build --release ...'' t)"
| cargo_line: "build_step G secs i rq (Compiling, t) (Compiling, append_log i line t)"
| cargo_failed: "build_step G secs i rq (Compiling, t) (Failing e, append_log i (''[builder] FAILED: '' @ e) t)"
| cargo_ok: "build_step G secs i rq (Compiling, t) (Collecting, t)"
| no_artifacts: "build_step G secs i rq (Collecting, t)
    (Failing (''read artifacts: '' @ e), append_log i (''[builder] FAILED: read artifacts: '' @ e) t)"
| artifacts: "build_step G secs i rq (Collecting, t)
    (Announcing, jobs_update secs i (\<lambda>j. j\<lparr>jb_state := JobOk, jb_artifacts := Some (build_artifacts G rq wasm)\<rparr>) t)"
| announce: "build_step G secs i rq (Announcing, t) (Finished, append_log i (''[builder] OK '' @ [CHR 0xE2, CHR 0x80, CHR 0x94] @ '' artifacts ready'') t)"
| failing: "build_step G secs i rq (Failing e, t) (Finished, jobs_update secs i (mark_failed e) t)"

inductive_cases build_stepE: "build_step G secs i rq (ph, t) s'"

section \<open>Handlers\<close>

text \<open>
  \<open>resolve_tenant\<close> of \<open>router.rs\<close>. The builder trusts the header without verifying the
  signature, and in its absence a plain header.
\<close>

definition builder_resolve_tenant :: "signing \<Rightarrow> headers \<Rightarrow> str option" where
  "builder_resolve_tenant G hs =
     (let plain = (case Option.bind (hdr_get hs ''x-omp-tenant'') hdr_str of
            Some v \<Rightarrow> if trim v = [] then None else Some (trim v) | None \<Rightarrow> None) in
      case Option.bind (hdr_get hs TENANT_CTX_HEADER) hdr_str of
        Some s \<Rightarrow> (case decode_unverified G s of Inr c \<Rightarrow> Some (tc_tenant_id c) | Inl _ \<Rightarrow> plain)
      | None \<Rightarrow> plain)"

definition ident_char :: "char \<Rightarrow> bool" where
  "ident_char c \<longleftrightarrow> 0x61 \<le> byte_val c \<and> byte_val c \<le> 0x7A \<or> 0x30 \<le> byte_val c \<and> byte_val c \<le> 0x39 \<or> c = CHR ''_'' \<or> c = CHR ''-''"

definition is_simple_ident :: "str \<Rightarrow> bool" where
  "is_simple_ident s \<longleftrightarrow> s \<noteq> [] \<and> list_all ident_char s"

record build_body =
  bb_namespace :: str
  bb_name :: str
  bb_lib_rs :: str
  bb_probe_toml :: str

definition validate_build :: "build_body \<Rightarrow> str + unit" where
  "validate_build b =
     (if bb_namespace b = [] \<or> bb_name b = [] then Inl ''namespace and name are required''
      else if \<not> is_simple_ident (bb_namespace b) then Inl ''namespace must be [a-z0-9_-]+''
      else if \<not> is_simple_ident (bb_name b) then Inl ''name must be [a-z0-9_-]+''
      else if length (bb_lib_rs b) > 1024 * 1024 then Inl ''lib.rs exceeds 1048576 bytes''
      else if length (bb_probe_toml b) > 16 * 1024 then Inl ''probe.toml exceeds 16 KiB''
      else Inr ())"

record builder =
  bd_jobs :: jobs_table
  bd_tasks :: "str \<rightharpoonup> phase \<times> build_request"

definition post_build :: "signing \<Rightarrow> str \<Rightarrow> int \<Rightarrow> headers \<Rightarrow> build_body \<Rightarrow> builder \<Rightarrow> nat \<times> builder" where
  "post_build G i secs hs b s =
     (case builder_resolve_tenant G hs of
        None \<Rightarrow> (401, s)
      | Some tenant \<Rightarrow>
          (case validate_build b of
             Inl _ \<Rightarrow> (400, s)
           | Inr _ \<Rightarrow>
               (202, s\<lparr>bd_jobs := jobs_create i secs tenant (bb_namespace b) (bb_name b) (bd_jobs s),
                       bd_tasks := (bd_tasks s)(i \<mapsto> (Waiting,
                         \<lparr>br_tenant = tenant, br_namespace = bb_namespace b, br_name = bb_name b,
                          br_lib_rs = bb_lib_rs b, br_probe_toml = bb_probe_toml b\<rparr>))\<rparr>)))"

definition get_build :: "signing \<Rightarrow> headers \<Rightarrow> str \<Rightarrow> builder \<Rightarrow> nat \<times> job_view option" where
  "get_build G hs i s =
     (case builder_resolve_tenant G hs of
        None \<Rightarrow> (401, None)
      | Some tenant \<Rightarrow> (case jobs_view (bd_jobs s) i tenant of Some v \<Rightarrow> (200, Some v) | None \<Rightarrow> (404, None)))"

definition get_build_log :: "signing \<Rightarrow> headers \<Rightarrow> str \<Rightarrow> builder \<Rightarrow> nat \<times> str list option" where
  "get_build_log G hs i s =
     (case builder_resolve_tenant G hs of
        None \<Rightarrow> (401, None)
      | Some tenant \<Rightarrow> (case log_replay (bd_jobs s) i tenant of Some l \<Rightarrow> (200, Some l) | None \<Rightarrow> (404, None)))"

definition delete_build :: "signing \<Rightarrow> headers \<Rightarrow> str \<Rightarrow> builder \<Rightarrow> nat \<times> builder" where
  "delete_build G hs i s =
     (case builder_resolve_tenant G hs of
        None \<Rightarrow> (401, s)
      | Some tenant \<Rightarrow> (case jobs_delete (bd_jobs s) i tenant of
            (True, t) \<Rightarrow> (204, s\<lparr>bd_jobs := t\<rparr>)
          | (False, _) \<Rightarrow> (404, s)))"

section \<open>The running service\<close>

inductive builder_step :: "signing \<Rightarrow> builder \<Rightarrow> builder \<Rightarrow> bool" for G where
  posted: "bd_tasks s i = None \<Longrightarrow> builder_step G s (snd (post_build G i secs hs b s))"
| worked: "bd_tasks s i = Some (ph, rq) \<Longrightarrow> build_step G secs i rq (ph, bd_jobs s) (ph', t') \<Longrightarrow>
    builder_step G s (s\<lparr>bd_jobs := t', bd_tasks := (bd_tasks s)(i \<mapsto> (ph', rq))\<rparr>)"
| deleted: "builder_step G s (snd (delete_build G hs i s))"

definition builder_start :: builder where
  "builder_start = \<lparr>bd_jobs = Map.empty, bd_tasks = Map.empty\<rparr>"

inductive builder_run :: "signing \<Rightarrow> builder \<Rightarrow> builder \<Rightarrow> bool" for G where
  run_none: "builder_run G s s"
| run_more: "builder_run G s s' \<Longrightarrow> builder_step G s' s'' \<Longrightarrow> builder_run G s s''"

section \<open>The invariant\<close>

definition valid_request :: "build_request \<Rightarrow> bool" where
  "valid_request rq \<longleftrightarrow> is_simple_ident (br_namespace rq) \<and> is_simple_ident (br_name rq)"

definition of_request :: "build_request \<Rightarrow> job \<Rightarrow> bool" where
  "of_request rq j \<longleftrightarrow> jb_tenant j = br_tenant rq \<and> jb_namespace j = br_namespace rq \<and> jb_name j = br_name rq"

definition succeeded :: "signing \<Rightarrow> build_request \<Rightarrow> job \<Rightarrow> bool" where
  "succeeded G rq j \<longleftrightarrow> jb_state j = JobOk \<and> jb_error j = None \<and> (\<exists>wasm. jb_artifacts j = Some (build_artifacts G rq wasm))"

definition failed :: "job \<Rightarrow> bool" where
  "failed j \<longleftrightarrow> jb_state j = JobFailed \<and> jb_artifacts j = None \<and> jb_error j \<noteq> None"

definition pending :: "job_state \<Rightarrow> job \<Rightarrow> bool" where
  "pending st j \<longleftrightarrow> jb_state j = st \<and> jb_artifacts j = None \<and> jb_error j = None"

text \<open>What a job looks like while its task stands at a phase.\<close>

fun job_fits :: "signing \<Rightarrow> build_request \<Rightarrow> phase \<Rightarrow> job \<Rightarrow> bool" where
  "job_fits G rq Waiting j = pending Queued j"
| "job_fits G rq Announcing j = succeeded G rq j"
| "job_fits G rq Finished j = (succeeded G rq j \<or> failed j)"
| "job_fits G rq _ j = pending Building j"

definition task_fits :: "signing \<Rightarrow> jobs_table \<Rightarrow> str \<Rightarrow> phase \<Rightarrow> build_request \<Rightarrow> bool" where
  "task_fits G t i ph rq \<longleftrightarrow> valid_request rq \<and>
     (case t i of None \<Rightarrow> True | Some j \<Rightarrow> jb_id j = i \<and> of_request rq j \<and> job_fits G rq ph j)"

definition builder_inv :: "signing \<Rightarrow> builder \<Rightarrow> bool" where
  "builder_inv G s \<longleftrightarrow> dom (bd_jobs s) \<subseteq> dom (bd_tasks s) \<and>
     (\<forall>i ph rq. bd_tasks s i = Some (ph, rq) \<longrightarrow> task_fits G (bd_jobs s) i ph rq)"

lemmas job_state_defs = job_fits.simps pending_def succeeded_def failed_def of_request_def mark_failed_def

text \<open>A job that has ended stays as it is, but for its log, until it is deleted.\<close>

definition ended :: "job \<Rightarrow> bool" where
  "ended j \<longleftrightarrow> jb_state j \<in> {JobOk, JobFailed}"

definition same_end :: "job \<Rightarrow> job \<Rightarrow> bool" where
  "same_end j j' \<longleftrightarrow> (\<exists>more. j' = j\<lparr>jb_log := jb_log j @ more\<rparr>)"

lemma same_end_refl: "same_end j j"
  by (simp add: same_end_def) (metis append_Nil2 job.surjective job.update_convs(10))

lemma same_end_log: "same_end j (j\<lparr>jb_log := jb_log j @ [line]\<rparr>)"
  unfolding same_end_def by blast

lemma same_end_trans: "same_end j j' \<Longrightarrow> same_end j' j'' \<Longrightarrow> same_end j j''"
  by (auto simp: same_end_def)

lemma same_end_ended: "same_end j j' \<Longrightarrow> ended j' = ended j \<and> jb_tenant j' = jb_tenant j"
  by (auto simp: same_end_def ended_def)

text \<open>Some request of a tenant deletes a job.\<close>

definition owner_deletes :: "signing \<Rightarrow> str \<Rightarrow> str \<Rightarrow> builder \<Rightarrow> builder \<Rightarrow> bool" where
  "owner_deletes G i tenant s s' \<longleftrightarrow>
     (\<exists>hs. builder_resolve_tenant G hs = Some tenant \<and> delete_build G hs i s = (204, s'))"

text \<open>The service runs on, and no request of the tenant deletes the job.\<close>

inductive builder_run_keeping :: "signing \<Rightarrow> str \<Rightarrow> str \<Rightarrow> builder \<Rightarrow> builder \<Rightarrow> bool" for G i tenant where
  keeping_none: "builder_run_keeping G i tenant s s"
| keeping_more: "builder_run_keeping G i tenant s s' \<Longrightarrow> builder_step G s' s'' \<Longrightarrow> \<not> owner_deletes G i tenant s' s'' \<Longrightarrow>
    builder_run_keeping G i tenant s s''"

text \<open>Each change of the table is at the job of the task.\<close>

lemma jobs_update_at [simp]:
  "jobs_update secs i f t k = (if k = i then map_option (\<lambda>j. (f j)\<lparr>jb_updated_at := chrono_secs_to_iso secs\<rparr>) (t i) else t k)"
  by (simp add: jobs_update_def split: option.split)

lemma append_log_at [simp]:
  "append_log i line t k = (if k = i then map_option (\<lambda>j. j\<lparr>jb_log := jb_log j @ [line]\<rparr>) (t i) else t k)"
  by (simp add: append_log_def split: option.split)

lemma build_step_other: "build_step G secs i rq (ph, t) (ph', t') \<Longrightarrow> k \<noteq> i \<Longrightarrow> t' k = t k"
  by (erule build_stepE) simp_all

lemma build_step_none: "build_step G secs i rq (ph, t) (ph', t') \<Longrightarrow> (t' k = None) = (t k = None)"
  by (erule build_stepE) simp_all

lemma build_step_job:
  assumes "build_step G secs i rq (ph, t) (ph', t')" "t i = Some j" "jb_id j = i" "of_request rq j" "job_fits G rq ph j"
  shows "\<exists>j'. t' i = Some j' \<and> jb_id j' = i \<and> of_request rq j' \<and> job_fits G rq ph' j'"
  using assms(1)
  by (rule build_stepE) (use assms(2-) in \<open>force simp: job_state_defs\<close>)+

lemma build_step_ended:
  assumes "build_step G secs i rq (ph, t) (ph', t')" "t i = Some j" "job_fits G rq ph j" "ended j"
  shows "\<exists>j'. t' i = Some j' \<and> same_end j j'"
proof -
  have "ph = Announcing \<or> ph = Finished" using assms(3,4) by (cases ph) (simp_all add: ended_def pending_def)
  then show ?thesis
    by (rule disjE) (use assms(1,2) in \<open>auto elim!: build_stepE simp: same_end_log\<close>)
qed

lemma build_step_fits:
  assumes "build_step G secs i rq (ph, t) (ph', t')" "task_fits G t i ph rq"
  shows "task_fits G t' i ph' rq"
proof (cases "t i")
  case None
  then have "t' i = None" using build_step_none [OF assms(1), of i] by simp
  then show ?thesis using assms(2) by (simp add: task_fits_def)
next
  case (Some j)
  then have "jb_id j = i" "of_request rq j" "job_fits G rq ph j" using assms(2) by (simp_all add: task_fits_def)
  from build_step_job [OF assms(1) Some this] obtain j' where "t' i = Some j'" "jb_id j' = i" "of_request rq j'" "job_fits G rq ph' j'"
    by blast
  then show ?thesis using assms(2) by (simp add: task_fits_def)
qed

lemma task_fits_other: "t' i = t i \<Longrightarrow> task_fits G t' i ph rq = task_fits G t i ph rq"
  by (simp add: task_fits_def)

lemma post_build_inv:
  assumes "builder_inv G s" "bd_tasks s i = None"
  shows "builder_inv G (snd (post_build G i secs hs b s))"
proof (cases "fst (post_build G i secs hs b s) = 202")
  case True
  then obtain tenant where t: "builder_resolve_tenant G hs = Some tenant" "validate_build b = Inr ()"
    by (auto simp: post_build_def split: option.splits sum.splits)
  have v: "is_simple_ident (bb_namespace b)" "is_simple_ident (bb_name b)"
    using t(2) by (auto simp: validate_build_def split: if_splits)
  show ?thesis
    using assms t v
    by (auto simp: post_build_def builder_inv_def jobs_create_def Let_def task_fits_def valid_request_def of_request_def pending_def)
next
  case False
  then have "snd (post_build G i secs hs b s) = s" by (auto simp: post_build_def split: option.splits sum.splits)
  then show ?thesis using assms(1) by simp
qed

lemma delete_build_inv:
  assumes "builder_inv G s"
  shows "builder_inv G (snd (delete_build G hs i s))"
  using assms by (auto simp: delete_build_def jobs_delete_def builder_inv_def task_fits_def split: option.splits)

lemma builder_step_inv: "builder_step G s s' \<Longrightarrow> builder_inv G s \<Longrightarrow> builder_inv G s'"
proof (induction rule: builder_step.induct)
  case (worked s i ph rq secs ph' t')
  let ?s = "s\<lparr>bd_jobs := t', bd_tasks := (bd_tasks s)(i \<mapsto> (ph', rq))\<rparr>"
  have fits: "task_fits G t' i ph' rq"
    using build_step_fits [OF worked(2)] worked(1,3) by (simp add: builder_inv_def)
  have "task_fits G t' k p r" if "bd_tasks ?s k = Some (p, r)" for k p r
  proof (cases "k = i")
    case True
    then show ?thesis using that fits by simp
  next
    case False
    then have "task_fits G (bd_jobs s) k p r" using that worked(3) by (simp add: builder_inv_def)
    then show ?thesis using task_fits_other [where t = "bd_jobs s" and t' = t' and i = k, OF build_step_other [OF worked(2) False]] by simp
  qed
  moreover have "dom t' = dom (bd_jobs s)" unfolding dom_def using build_step_none [OF worked(2)] by simp
  then have "dom t' \<subseteq> dom (bd_tasks ?s)" using worked(3) by (simp add: builder_inv_def subset_insertI2)
  ultimately show ?case by (simp add: builder_inv_def)
qed (auto intro: post_build_inv delete_build_inv)

lemma builder_inv_task: "builder_inv G s \<Longrightarrow> bd_tasks s i = Some (ph, rq) \<Longrightarrow> task_fits G (bd_jobs s) i ph rq"
  by (simp add: builder_inv_def)

lemma builder_run_inv: "builder_run G s s' \<Longrightarrow> builder_inv G s \<Longrightarrow> builder_inv G s'"
  by (induction rule: builder_run.induct) (auto intro: builder_step_inv)

lemma builder_start_inv: "builder_inv G builder_start"
  by (simp add: builder_inv_def builder_start_def)

lemma builder_step_end:
  assumes "builder_step G s s'" "builder_inv G s" "bd_jobs s i = Some j" "ended j" "\<not> owner_deletes G i (jb_tenant j) s s'"
  shows "\<exists>j'. bd_jobs s' i = Some j' \<and> same_end j j'"
proof -
  have "i \<in> dom (bd_tasks s)" using assms(2,3) by (auto simp: builder_inv_def)
  then obtain ph rq where task: "bd_tasks s i = Some (ph, rq)" by auto
  have fit: "task_fits G (bd_jobs s) k p r" if "bd_tasks s k = Some (p, r)" for k p r
    using assms(2) that by (simp add: builder_inv_def)
  from assms(1) show ?thesis
  proof cases
    case (posted k secs hs b)
    have "k \<noteq> i" using posted(2) task by auto
    then have "bd_jobs s' i = bd_jobs s i" unfolding posted(1)
      by (simp add: post_build_def jobs_create_def Let_def split: option.split sum.split)
    then show ?thesis using assms(3) same_end_refl by simp
  next
    case (worked k p r secs p' t')
    show ?thesis
    proof (cases "k = i")
      case True
      have "jb_id j = i" "of_request r j" "job_fits G r p j"
        using fit [OF worked(2)] assms(3) True by (simp_all add: task_fits_def)
      from build_step_ended [OF worked(3) [unfolded True] assms(3) this(3) assms(4)]
      show ?thesis using worked(1) by simp
    next
      case False
      then show ?thesis using build_step_other [OF worked(3), of i] worked(1) assms(3) same_end_refl by simp
    qed
  next
    case (deleted hs k)
    show ?thesis
    proof (cases "k = i \<and> builder_resolve_tenant G hs = Some (jb_tenant j)")
      case True
      then have "delete_build G hs i s = (204, s')" using assms(3) deleted by (simp add: delete_build_def jobs_delete_def)
      then show ?thesis using assms(5) True by (auto simp: owner_deletes_def)
    next
      case False
      then have "bd_jobs s' i = bd_jobs s i" using assms(3) unfolding deleted
        by (auto simp: delete_build_def jobs_delete_def split: option.split prod.split)
      then show ?thesis using assms(3) same_end_refl by simp
    qed
  qed
qed

lemma job_fits_ends:
  "job_fits G rq ph j \<Longrightarrow> jb_state j \<noteq> Cancelled \<and> (jb_error j \<noteq> None) = (jb_state j = JobFailed) \<and>
     (case jb_artifacts j of None \<Rightarrow> jb_state j \<noteq> JobOk | Some as \<Rightarrow> jb_state j = JobOk \<and> (\<exists>wasm. as = build_artifacts G rq wasm))"
  by (cases ph) (auto simp: job_state_defs)

lemma started_inv: "builder_run G builder_start s \<Longrightarrow> builder_inv G s"
  using builder_run_inv builder_start_inv by blast

lemma builder_run_end:
  assumes "builder_run_keeping G i (jb_tenant j) s s'" "builder_inv G s" "bd_jobs s i = Some j" "ended j"
  shows "builder_inv G s' \<and> (\<exists>j'. bd_jobs s' i = Some j' \<and> same_end j j')"
  using assms
proof (induction rule: builder_run_keeping.induct)
  case (keeping_more s s' s'')
  then obtain j' where IH: "bd_jobs s' i = Some j'" "same_end j j'" and inv: "builder_inv G s'" by blast
  have "ended j'" "\<not> owner_deletes G i (jb_tenant j') s' s''"
    using same_end_ended [OF IH(2)] keeping_more(3,7) by simp_all
  from builder_step_end [OF keeping_more(2) inv IH(1) this] show ?case
    using same_end_trans [OF IH(2)] builder_step_inv [OF keeping_more(2) inv] by blast
qed (simp add: same_end_refl)

section \<open>What a build promises\<close>

text \<open>
  C24. Soundness of the table of jobs. In every state the service can reach, whatever the
  requests, their order and the outcome of each build, a job belongs to a task whose
  namespace and name were validated; it is never \<open>Cancelled\<close>; it has an error exactly when
  it failed and artifacts exactly when it succeeded, and the artifacts are the built module,
  the manifest and the source of the request, under the probe's own directory.
\<close>
theorem jobs_sound:
  assumes "builder_run G builder_start s" "bd_jobs s i = Some j"
  shows "\<exists>ph rq. bd_tasks s i = Some (ph, rq) \<and> jb_id j = i \<and> of_request rq j \<and>
    is_simple_ident (jb_namespace j) \<and> is_simple_ident (jb_name j) \<and>
    jb_state j \<noteq> Cancelled \<and> (jb_error j \<noteq> None) = (jb_state j = JobFailed) \<and>
    (case jb_artifacts j of None \<Rightarrow> jb_state j \<noteq> JobOk
     | Some as \<Rightarrow> jb_state j = JobOk \<and> (\<exists>wasm. as = build_artifacts G rq wasm))"
proof -
  have inv: "builder_inv G s" by (rule started_inv [OF assms(1)])
  then have "i \<in> dom (bd_tasks s)" using assms(2) by (auto simp: builder_inv_def)
  then obtain ph rq where t: "bd_tasks s i = Some (ph, rq)" by auto
  then have f: "valid_request rq" "jb_id j = i" "of_request rq j" "job_fits G rq ph j"
    using builder_inv_task [OF inv t] assms(2) by (simp_all add: task_fits_def)
  show ?thesis using t f job_fits_ends [OF f(4)] unfolding valid_request_def of_request_def by auto
qed

definition ann_headers :: headers where
  "ann_headers = [(''x-omp-tenant'', ''ann'')]"

definition ann_build :: build_body where
  "ann_build = \<lparr>bb_namespace = ''n'', bb_name = ''p'', bb_lib_rs = ''r'', bb_probe_toml = ''t''\<rparr>"

definition ann_posted :: builder where
  "ann_posted = snd (post_build toy_signing ''1'' 0 ann_headers ann_build builder_start)"

lemma ann_posted_run: "builder_run toy_signing builder_start ann_posted"
  unfolding ann_posted_def by (rule run_more [OF run_none posted]) (simp add: builder_start_def)

lemma ann_tenant: "builder_resolve_tenant toy_signing ann_headers = Some ''ann''"
proof -
  have "trim ''ann'' = ''ann''" by (rule trim_ascii_id) (simp_all add: is_ascii_def ws1_def)
  then show ?thesis
    by (simp add: builder_resolve_tenant_def ann_headers_def hdr_get_def hdr_str_def visible_def TENANT_CTX_HEADER_def)
qed

lemma ann_posted_eq:
  "bd_jobs ann_posted = jobs_create ''1'' 0 ''ann'' ''n'' ''p'' Map.empty"
  "bd_tasks ann_posted = [''1'' \<mapsto> (Waiting, \<lparr>br_tenant = ''ann'', br_namespace = ''n'', br_name = ''p'', br_lib_rs = ''r'', br_probe_toml = ''t''\<rparr>)]"
proof -
  have "validate_build ann_build = Inr ()"
    by (simp add: validate_build_def ann_build_def is_simple_ident_def ident_char_def)
  then show "bd_jobs ann_posted = jobs_create ''1'' 0 ''ann'' ''n'' ''p'' Map.empty"
      "bd_tasks ann_posted = [''1'' \<mapsto> (Waiting, \<lparr>br_tenant = ''ann'', br_namespace = ''n'', br_name = ''p'', br_lib_rs = ''r'', br_probe_toml = ''t''\<rparr>)]"
    by (simp_all add: ann_posted_def post_build_def ann_tenant ann_build_def builder_start_def)
qed

theorem jobs_sound_witness:
  "\<exists>s j. builder_run toy_signing builder_start s \<and> bd_jobs s ''1'' = Some j \<and> jb_tenant j = ''ann'' \<and> jb_state j \<noteq> Cancelled"
proof -
  obtain j where j: "bd_jobs ann_posted ''1'' = Some j" "jb_tenant j = ''ann''"
    by (simp add: ann_posted_eq jobs_create_def Let_def)
  from jobs_sound [OF ann_posted_run j(1)] j ann_posted_run show ?thesis by auto
qed

text \<open>
  C25. A build that has ended is settled. Once a job succeeded or failed, nothing that may
  happen afterwards, in any order, short of a request of its own tenant that deletes it,
  removes it or changes anything but its log, and the log only grows. A request of another
  tenant can neither see the job nor its log nor delete it; a request of its own tenant to
  delete it does.
\<close>
theorem ended_jobs_stay:
  assumes "builder_run G builder_start s" "bd_jobs s i = Some j" "ended j" "builder_run_keeping G i (jb_tenant j) s s'"
  shows "(\<exists>more. bd_jobs s' i = Some (j\<lparr>jb_log := jb_log j @ more\<rparr>)) \<and>
    (\<forall>hs. if builder_resolve_tenant G hs = Some (jb_tenant j)
      then fst (get_build G hs i s') = 200 \<and> fst (delete_build G hs i s') = 204 \<and> bd_jobs (snd (delete_build G hs i s')) i = None
      else fst (get_build G hs i s') \<in> {401, 404} \<and> fst (get_build_log G hs i s') \<in> {401, 404} \<and>
        snd (delete_build G hs i s') = s')"
proof -
  obtain more where "bd_jobs s' i = Some (j\<lparr>jb_log := jb_log j @ more\<rparr>)"
    using builder_run_end [OF assms(4) started_inv [OF assms(1)] assms(2,3)] by (auto simp: same_end_def)
  then show ?thesis
    by (auto simp: get_build_def get_build_log_def delete_build_def jobs_view_def log_replay_def jobs_delete_def
        split: option.splits)
qed

theorem ended_jobs_stay_witness:
  "\<exists>s j s'. builder_run toy_signing builder_start s \<and> bd_jobs s ''1'' = Some j \<and> jb_state j = JobFailed \<and>
     builder_run_keeping toy_signing ''1'' ''ann'' s s' \<and> (\<exists>more. bd_jobs s' ''1'' = Some (j\<lparr>jb_log := jb_log j @ more\<rparr>)) \<and>
     fst (get_build toy_signing [(''x-omp-tenant'', ''bob'')] ''1'' s') \<noteq> 200 \<and>
     fst (delete_build toy_signing ann_headers ''1'' s') = 204"
proof -
  let ?G = toy_signing and ?rq = "\<lparr>br_tenant = ''ann'', br_namespace = ''n'', br_name = ''p'', br_lib_rs = ''r'', br_probe_toml = ''t''\<rparr>"
  let ?t = "jobs_update 1 ''1'' (mark_failed ''builder shutting down'') (bd_jobs ann_posted)"
  let ?s = "ann_posted\<lparr>bd_jobs := ?t, bd_tasks := (bd_tasks ann_posted)(''1'' \<mapsto> (Finished, ?rq))\<rparr>"
  obtain s where s: "s = ?s" by simp
  let ?s' = "snd (delete_build ?G [(''x-omp-tenant'', ''bob'')] ''1'' s)"
  have "builder_step ?G ann_posted s" unfolding s
    by (rule worked [where secs = 1, OF _ no_permit]) (simp add: ann_posted_eq)
  then have run: "builder_run ?G builder_start s" by (rule run_more [OF ann_posted_run])
  obtain j where j: "bd_jobs s ''1'' = Some j" "jb_state j = JobFailed" "jb_tenant j = ''ann''"
    by (simp add: s ann_posted_eq jobs_create_def Let_def mark_failed_def)
  have "trim ''bob'' = ''bob''" by (rule trim_ascii_id) (simp_all add: is_ascii_def ws1_def)
  then have bob: "builder_resolve_tenant ?G [(''x-omp-tenant'', ''bob'')] = Some ''bob''"
    by (simp add: builder_resolve_tenant_def hdr_get_def hdr_str_def visible_def TENANT_CTX_HEADER_def)
  then have same: "?s' = s" using j(1,3) by (simp add: delete_build_def jobs_delete_def)
  have "\<not> owner_deletes ?G ''1'' ''ann'' s ?s'"
    using j(1,3) unfolding same by (auto simp: owner_deletes_def delete_build_def jobs_delete_def dest: arg_cong [where f = "\<lambda>s. bd_jobs s ''1''"])
  then have run': "builder_run_keeping ?G ''1'' (jb_tenant j) s ?s'"
    unfolding j(3) by (rule keeping_more [OF keeping_none deleted])
  have e: "ended j" using j(2) by (simp add: ended_def)
  have all: "(\<exists>more. bd_jobs ?s' ''1'' = Some (j\<lparr>jb_log := jb_log j @ more\<rparr>))"
    "fst (get_build ?G [(''x-omp-tenant'', ''bob'')] ''1'' ?s') \<noteq> 200" "fst (delete_build ?G ann_headers ''1'' ?s') = 204"
    using ended_jobs_stay [OF run j(1) e run', THEN conjunct1]
      ended_jobs_stay [OF run j(1) e run', THEN conjunct2, THEN spec, of "[(''x-omp-tenant'', ''bob'')]"]
      ended_jobs_stay [OF run j(1) e run', THEN conjunct2, THEN spec, of ann_headers] bob ann_tenant j(3) by auto
  show ?thesis
    by (rule exI [of _ s], rule exI [of _ j], rule exI [of _ ?s']) (use run j run' all in simp)
qed

end
