(* ===== verification/Omp_Catalog.thy ===== *)
theory Omp_Catalog
  imports Omp_Hash "HOL-Library.Countable_Set"
begin

text \<open>
  \<open>crates/omp-marketplace/src/blobs.rs\<close> and \<open>catalog.rs\<close>: the files of the marketplace that
  are named by the hash of their content, and a catalog of entries that is kept in memory
  and written to one JSON file after each change. The catalog of schemas in \<open>schemas.rs\<close>
  repeats the code of \<open>catalog.rs\<close> for entries of another type.

  Each attempt to write or read a file may fail: the argument \<open>io\<close> gives the error, if any.
  A file is written under another name and renamed, so a failed attempt leaves the file as
  it was. \<open>serde_json\<close> is a parameter: a writer and a reader of maps of entries, with the
  law that the reader inverts the writer.

  The last part is what the catalogs promise, stated once for both: entries of a publisher
  change only by a request of that publisher, and the files they name are there.
\<close>

section \<open>Blobs\<close>

type_synonym blob_files = "(str \<times> str) \<rightharpoonup> bytes"

text \<open>Directory and name; the slices are of ASCII text wherever the code calls this.\<close>

definition path_for :: "str \<Rightarrow> str \<times> str" where
  "path_for h = (if length h \<ge> 2 then (take 2 h, drop 2 h) else (''00'', h))"

definition blob_put :: "(str \<times> str \<Rightarrow> str option) \<Rightarrow> str \<Rightarrow> bytes \<Rightarrow> blob_files \<Rightarrow> str + blob_files" where
  "blob_put io h bs m =
     (let p = path_for h in
      if m p \<noteq> None then Ok m
      else case io p of Some e \<Rightarrow> Err e | None \<Rightarrow> Ok (m(p \<mapsto> bs)))"

definition blob_get :: "(str \<times> str \<Rightarrow> str option) \<Rightarrow> str \<Rightarrow> blob_files \<Rightarrow> str + bytes option" where
  "blob_get io h m =
     (let p = path_for h in
      case m p of None \<Rightarrow> Ok None
      | Some b \<Rightarrow> (case io p of Some e \<Rightarrow> Err e | None \<Rightarrow> Ok (Some b)))"

text \<open>The puts of one publication, one after the other; the files written before a failure stay.\<close>

fun blob_puts :: "(str \<times> str \<Rightarrow> str option) \<Rightarrow> (str \<times> bytes) list \<Rightarrow> blob_files \<Rightarrow> (str + unit) \<times> blob_files" where
  "blob_puts io [] m = (Ok (), m)"
| "blob_puts io ((h, bs) # rest) m =
     (case blob_put io h bs m of Inl e \<Rightarrow> (Err e, m) | Inr m' \<Rightarrow> blob_puts io rest m')"

section \<open>Catalogs\<close>

record 'e json =
  js_write :: "(str \<rightharpoonup> 'e) \<Rightarrow> bytes"
  js_read :: "bytes \<Rightarrow> str + (str \<rightharpoonup> 'e)"

definition json_ok :: "'e json \<Rightarrow> bool" where
  "json_ok J \<longleftrightarrow> (\<forall>m. finite (dom m) \<longrightarrow> js_write J m \<noteq> [] \<and> js_read J (js_write J m) = Inr m)"

text \<open>The entries in memory and the content of the file.\<close>

record 'e catalog =
  ct_entries :: "str \<rightharpoonup> 'e"
  ct_file :: "bytes option"

definition catalog_open :: "'e json \<Rightarrow> bytes option \<Rightarrow> str + 'e catalog" where
  "catalog_open J file =
     bind_res (case file of None \<Rightarrow> Ok Map.empty
               | Some b \<Rightarrow> if b = [] then Ok Map.empty else js_read J b)
       (\<lambda>es. Ok \<lparr>ct_entries = es, ct_file = file\<rparr>)"

definition catalog_flush :: "'e json \<Rightarrow> str option \<Rightarrow> 'e catalog \<Rightarrow> (str + unit) \<times> 'e catalog" where
  "catalog_flush J io c =
     (case io of Some e \<Rightarrow> (Err e, c) | None \<Rightarrow> (Ok (), c\<lparr>ct_file := Some (js_write J (ct_entries c))\<rparr>))"

definition catalog_upsert :: "'e json \<Rightarrow> ('e \<Rightarrow> str) \<Rightarrow> str option \<Rightarrow> 'e \<Rightarrow> 'e catalog \<Rightarrow> (str + unit) \<times> 'e catalog" where
  "catalog_upsert J key io e c = catalog_flush J io (c\<lparr>ct_entries := (ct_entries c)(key e \<mapsto> e)\<rparr>)"

section \<open>What a catalog promises\<close>

text \<open>
  The view of one catalog with the shared files. Its entries have an identifier, which is
  the hash of a text that names the publisher, and the hashes of files. A change is by an
  actor or by no one: files are added, an entry of the actor is put in, the service stops
  and opens the file again.
\<close>

record 'e shelf =
  sh_json :: "'e json"
  sh_key :: "'e \<Rightarrow> str"
  sh_text :: "'e \<Rightarrow> bytes"
  sh_owner :: "'e \<Rightarrow> str"
  sh_hashes :: "'e \<Rightarrow> str set"
  sh_valid :: "'e \<Rightarrow> bool"

definition held :: "ext \<Rightarrow> blob_files \<Rightarrow> str \<Rightarrow> bool" where
  "held E m h \<longleftrightarrow> (\<exists>b. h = sha256_hex E b \<and> m (path_for h) = Some b)"

definition entry_held :: "ext \<Rightarrow> 'e shelf \<Rightarrow> blob_files \<Rightarrow> 'e \<Rightarrow> bool" where
  "entry_held E S m e \<longleftrightarrow> sh_valid S e \<and> sh_key S e = sha256_hex E (sh_text S e) \<and> (\<forall>h \<in> sh_hashes S e. held E m h)"

inductive shelf_step ::
  "ext \<Rightarrow> 'e shelf \<Rightarrow> 'e option \<Rightarrow> 'e catalog \<times> blob_files \<Rightarrow> 'e catalog \<times> blob_files \<Rightarrow> bool"
  for E S where
  idle: "shelf_step E S None (c, m) (c, m)"
| stored: "blob_put io (sha256_hex E b) b m = Inr m' \<Longrightarrow> shelf_step E S None (c, m) (c, m')"
| upserted: "entry_held E S m e \<Longrightarrow> shelf_step E S (Some e) (c, m) (snd (catalog_upsert (sh_json S) (sh_key S) io e c), m)"
| reopened: "catalog_open (sh_json S) (ct_file c) = Inr c' \<Longrightarrow> shelf_step E S None (c, m) (c', m)"

inductive shelf_run :: "ext \<Rightarrow> 'e shelf \<Rightarrow> 'e catalog \<times> blob_files \<Rightarrow> 'e list \<Rightarrow> 'e catalog \<times> blob_files \<Rightarrow> bool" for E S where
  shelf_none: "shelf_run E S x [] x"
| shelf_quiet: "shelf_run E S x es y \<Longrightarrow> shelf_step E S None y z \<Longrightarrow> shelf_run E S x es z"
| shelf_act: "shelf_run E S x es y \<Longrightarrow> shelf_step E S (Some e) y z \<Longrightarrow> shelf_run E S x (es @ [e]) z"

text \<open>What was written at last, as the file gives it back.\<close>

definition saved :: "'e json \<Rightarrow> 'e catalog \<Rightarrow> (str \<rightharpoonup> 'e) \<Rightarrow> bool" where
  "saved J c es \<longleftrightarrow> ct_file c = None \<and> es = Map.empty \<or> ct_file c = Some (js_write J es)"

text \<open>Every file has the name of its content.\<close>

definition blobs_ok :: "ext \<Rightarrow> blob_files \<Rightarrow> bool" where
  "blobs_ok E m \<longleftrightarrow> (\<forall>p b. m p = Some b \<longrightarrow> p = path_for (sha256_hex E b))"

definition entries_held :: "ext \<Rightarrow> 'e shelf \<Rightarrow> 'e set \<Rightarrow> blob_files \<Rightarrow> (str \<rightharpoonup> 'e) \<Rightarrow> bool" where
  "entries_held E S P m es \<longleftrightarrow> finite (dom es) \<and> (\<forall>i e. es i = Some e \<longrightarrow> sh_key S e = i \<and> e \<in> P \<and> entry_held E S m e)"

definition shelf_inv :: "ext \<Rightarrow> 'e shelf \<Rightarrow> 'e set \<Rightarrow> 'e catalog \<times> blob_files \<Rightarrow> bool" where
  "shelf_inv E S P x \<longleftrightarrow> blobs_ok E (snd x) \<and> entries_held E S P (snd x) (ct_entries (fst x)) \<and>
     (\<exists>es. saved (sh_json S) (fst x) es \<and> entries_held E S P (snd x) es)"

definition shelf_start :: "'e catalog" where
  "shelf_start = \<lparr>ct_entries = Map.empty, ct_file = None\<rparr>"

text \<open>An entry that is in memory and in the file.\<close>

definition settled :: "'e shelf \<Rightarrow> str \<Rightarrow> 'e \<Rightarrow> 'e catalog \<Rightarrow> bool" where
  "settled S i e c \<longleftrightarrow> ct_entries c i = Some e \<and> (\<exists>es. saved (sh_json S) c es \<and> finite (dom es) \<and> es i = Some e)"

section \<open>Files stay\<close>

lemma path_for_inj: "path_for h = path_for h' \<Longrightarrow> length h \<ge> 2 \<Longrightarrow> length h' \<ge> 2 \<Longrightarrow> h = h'"
  by (metis append_take_drop_id path_for_def prod.inject)

lemma sha256_hex_inj: "sha256_hex E a = sha256_hex E b \<Longrightarrow> sha256 E a = sha256 E b"
  unfolding sha256_hex_def by (metis hex_decode_encode sum.inject(2))

lemma sha256_hex_length: "sha_ok E \<Longrightarrow> length (sha256_hex E b) = 64"
  by (simp add: sha256_hex_def sha_ok_def)

lemma blob_put_keeps:
  assumes "blob_put io h b m = Inr m'"
  shows "m p = Some x \<Longrightarrow> m' p = Some x" and "m' p = Some x \<Longrightarrow> m p = Some x \<or> p = path_for h \<and> x = b"
  using assms by (auto simp: blob_put_def Let_def split: if_splits option.splits)

lemma blob_put_held:
  assumes "sha_ok E" "blobs_ok E m" "blob_put io (sha256_hex E b) b m = Inr m'"
  shows "blobs_ok E m'" and "held E m' (sha256_hex E b)" and "held E m h \<Longrightarrow> held E m' h"
proof -
  show "blobs_ok E m'" using assms(2) blob_put_keeps(2) [OF assms(3)] unfolding blobs_ok_def by blast
  show "held E m h \<Longrightarrow> held E m' h" using blob_put_keeps(1) [OF assms(3)] unfolding held_def by metis
  show "held E m' (sha256_hex E b)"
  proof (cases "m (path_for (sha256_hex E b))")
    case None
    then have "m' (path_for (sha256_hex E b)) = Some b"
      using assms(3) by (auto simp: blob_put_def Let_def split: option.splits)
    then show ?thesis by (auto simp: held_def)
  next
    case (Some x)
    then have "path_for (sha256_hex E b) = path_for (sha256_hex E x)"
      using assms(2) unfolding blobs_ok_def by blast
    then have "sha256_hex E b = sha256_hex E x"
      using path_for_inj sha256_hex_length [OF assms(1)] by simp
    then show ?thesis using Some blob_put_keeps(1) [OF assms(3) Some] by (auto simp: held_def)
  qed
qed

lemma blob_get_held: "held E m h \<Longrightarrow> \<exists>b. blob_get (\<lambda>_. None) h m = Ok (Some b) \<and> sha256_hex E b = h"
  by (auto simp: held_def blob_get_def Let_def)

section \<open>Entries\<close>

lemma entry_held_stored:
  assumes "sha_ok E" "blobs_ok E m" "blob_put io (sha256_hex E b) b m = Inr m'" "entry_held E S m e"
  shows "entry_held E S m' e"
  using assms(4) blob_put_held(3) [OF assms(1-3)] by (auto simp: entry_held_def)

lemma entry_held_key: "entry_held E S m e \<Longrightarrow> sh_key S e = sha256_hex E (sh_text S e)"
  and entry_held_valid: "entry_held E S m e \<Longrightarrow> sh_valid S e"
  by (simp_all add: entry_held_def)

lemma upsert_entries [simp]: "ct_entries (snd (catalog_upsert J key io e c)) = (ct_entries c)(key e \<mapsto> e)"
  by (simp add: catalog_upsert_def catalog_flush_def split: option.split)

lemma upsert_saved:
  "saved J c es \<Longrightarrow> saved J (snd (catalog_upsert J key io e c)) (if io = None then (ct_entries c)(key e \<mapsto> e) else es)"
  by (auto simp: saved_def catalog_upsert_def catalog_flush_def split: option.splits)

lemma open_saved:
  assumes "json_ok J" "catalog_open J (ct_file c) = Inr c'" "saved J c es" "finite (dom es)"
  shows "ct_entries c' = es" "saved J c' es"
  using assms by (auto simp: catalog_open_def bind_res_def saved_def json_ok_def split: option.splits if_splits sum.splits)

lemma entries_held_mono:
  "entries_held E S P m es \<Longrightarrow> P \<subseteq> Q \<Longrightarrow> (\<And>e. entry_held E S m e \<Longrightarrow> entry_held E S m' e) \<Longrightarrow> entries_held E S Q m' es"
  unfolding entries_held_def by blast

lemma entries_held_finite: "entries_held E S P m es \<Longrightarrow> finite (dom es)"
  by (simp add: entries_held_def)

lemma entries_heldD:
  "entries_held E S P m es \<Longrightarrow> es i = Some e \<Longrightarrow> sh_key S e = i \<and> e \<in> P \<and> entry_held E S m e"
  by (simp add: entries_held_def)

lemma entries_held_upd:
  "entries_held E S P m es \<Longrightarrow> entry_held E S m e \<Longrightarrow> entries_held E S (insert e P) m (es(sh_key S e \<mapsto> e))"
  by (auto simp: entries_held_def)

lemma shelf_step_inv:
  assumes "shelf_step E S a x y" "sha_ok E" "json_ok (sh_json S)" "shelf_inv E S P x"
  shows "shelf_inv E S (P \<union> set_option a) y"
  using assms
proof (induction rule: shelf_step.induct)
  case (stored io b m m' c)
  then have ok: "blobs_ok E m" by (simp add: shelf_inv_def)
  note keep = entry_held_stored [OF stored(2) ok stored(1)]
  obtain es where es: "saved (sh_json S) c es" "entries_held E S P m es" using stored(4) by (auto simp: shelf_inv_def)
  have "entries_held E S P m' (ct_entries c)" "entries_held E S P m' es"
    using stored(4) es(2) by (auto simp: shelf_inv_def intro: entries_held_mono [OF _ order_refl keep])
  then show ?case using es(1) blob_put_held(1) [OF stored(2) ok stored(1)] by (auto simp: shelf_inv_def)
next
  case (upserted m e c io)
  let ?c = "snd (catalog_upsert (sh_json S) (sh_key S) io e c)"
  obtain es where es: "saved (sh_json S) c es" "entries_held E S P m es" using upserted(4) by (auto simp: shelf_inv_def)
  have new: "entries_held E S (insert e P) m (ct_entries ?c)"
    using entries_held_upd [of E S P m "ct_entries c" e] upserted(1,4) by (simp add: shelf_inv_def)
  have "entries_held E S (insert e P) m es" by (rule entries_held_mono [OF es(2)]) auto
  then have "entries_held E S (insert e P) m (if io = None then (ct_entries c)(sh_key S e \<mapsto> e) else es)" using new by simp
  moreover note upsert_saved [OF es(1), of "sh_key S" io e]
  moreover have "blobs_ok E m" using upserted(4) by (simp add: shelf_inv_def)
  ultimately show ?case using new unfolding shelf_inv_def fst_conv snd_conv by auto
next
  case (reopened c c' m)
  then obtain es where es: "saved (sh_json S) c es" "entries_held E S P m es" by (auto simp: shelf_inv_def)
  with open_saved [OF reopened(3,1) es(1) entries_held_finite [OF es(2)]] reopened(4) show ?case by (auto simp: shelf_inv_def)
qed simp

lemma shelf_run_inv:
  "shelf_run E S x es y \<Longrightarrow> sha_ok E \<Longrightarrow> json_ok (sh_json S) \<Longrightarrow> shelf_inv E S P x \<Longrightarrow> shelf_inv E S (P \<union> set es) y"
proof (induction rule: shelf_run.induct)
  case (shelf_quiet x es y z)
  then show ?case using shelf_step_inv [OF shelf_quiet(2)] by fastforce
next
  case (shelf_act x es y e z)
  then show ?case using shelf_step_inv [OF shelf_act(2)] by fastforce
qed simp

lemma shelf_start_inv: "shelf_inv E S {} (shelf_start, Map.empty)"
  by (auto simp: shelf_inv_def shelf_start_def blobs_ok_def saved_def entries_held_def)

section \<open>Runs\<close>

lemma shelf_run_trans: "shelf_run E S y bs z \<Longrightarrow> shelf_run E S x as y \<Longrightarrow> shelf_run E S x (as @ bs) z"
proof (induction rule: shelf_run.induct)
  case (shelf_act y es z e w)
  then show ?case using shelf_run.shelf_act [of E S x "as @ es" z e w] by simp
qed (auto intro: shelf_run.intros)

lemma shelf_run_one: "shelf_step E S (Some e) x y \<Longrightarrow> shelf_run E S x [e] y"
  using shelf_act [OF shelf_none] by fastforce

lemma shelf_run_quiet: "shelf_step E S None x y \<Longrightarrow> shelf_run E S x [] y"
  by (rule shelf_quiet [OF shelf_none])

lemma shelf_inv_mono: "shelf_inv E S P x \<Longrightarrow> P \<subseteq> Q \<Longrightarrow> shelf_inv E S Q x"
  unfolding shelf_inv_def by (meson entries_held_mono)

text \<open>Files that are written under the hash of their content.\<close>

definition blobs_step :: "ext \<Rightarrow> blob_files \<Rightarrow> blob_files \<Rightarrow> bool" where
  "blobs_step E m m' \<longleftrightarrow> (\<exists>io b. blob_put io (sha256_hex E b) b m = Inr m')"

lemma blobs_run_shelf: "(blobs_step E)\<^sup>*\<^sup>* m m' \<Longrightarrow> shelf_run E S (c, m) [] (c, m')"
proof (induction rule: rtranclp_induct)
  case (step y z)
  then show ?case unfolding blobs_step_def using shelf_quiet stored by metis
qed (rule shelf_none)

lemma blobs_run_held:
  "(blobs_step E)\<^sup>*\<^sup>* m m' \<Longrightarrow> sha_ok E \<Longrightarrow> blobs_ok E m \<Longrightarrow> blobs_ok E m' \<and> (\<forall>h. held E m h \<longrightarrow> held E m' h)"
proof (induction rule: rtranclp_induct)
  case (step y z)
  then show ?case unfolding blobs_step_def using blob_put_held(1,3) by metis
qed simp

lemma blob_puts_run:
  assumes "blob_puts io (map (\<lambda>b. (sha256_hex E b, b)) bs) m = (r, m')"
  shows "(blobs_step E)\<^sup>*\<^sup>* m m'"
    and "sha_ok E \<Longrightarrow> blobs_ok E m \<Longrightarrow> r = Inr () \<Longrightarrow> b \<in> set bs \<Longrightarrow> held E m' (sha256_hex E b)"
  using assms
proof (induction bs arbitrary: m)
  case (Cons x xs)
  { case 1
    then show ?case
    proof (cases "blob_put io (sha256_hex E x) x m")
      case (Inr n)
      then have "blobs_step E m n" by (auto simp: blobs_step_def)
      then show ?thesis using 1 Inr Cons.IH(1) [of n] by (auto intro: converse_rtranclp_into_rtranclp)
    qed simp
  next
    case 2
    then obtain n where n: "blob_put io (sha256_hex E x) x m = Inr n" by (auto split: sum.splits)
    then have rest: "blob_puts io (map (\<lambda>b. (sha256_hex E b, b)) xs) n = (r, m')" using 2 by simp
    note put = blob_put_held [OF 2(1,2) n]
    show ?case
    proof (cases "b \<in> set xs")
      case True
      then show ?thesis using Cons.IH(2) [OF 2(1) put(1) 2(3) _ rest] by blast
    next
      case False
      then show ?thesis using blobs_run_held [OF Cons.IH(1) [OF rest] 2(1) put(1)] put(2) 2(4) by auto
    qed
  }
qed auto

section \<open>The interface of a catalog\<close>

text \<open>The text an identifier is the hash of names the publisher.\<close>

locale owned_shelf =
  fixes S :: "'e shelf"
  assumes owner_of_text: "sh_valid S x \<Longrightarrow> sh_valid S y \<Longrightarrow> sh_text S x = sh_text S y \<Longrightarrow> sh_owner S x = sh_owner S y"
begin

lemma same_key_same_owner:
  assumes "entry_held E S m x" "entry_held E S m y" "sh_key S x = sh_key S y" "inj_on (sha256 E) {sh_text S x, sh_text S y}"
  shows "sh_owner S x = sh_owner S y"
proof -
  have k: "sh_key S x = sha256_hex E (sh_text S x)" "sh_key S y = sha256_hex E (sh_text S y)"
    by (rule entry_held_key [OF assms(1)], rule entry_held_key [OF assms(2)])
  have "sha256_hex E (sh_text S x) = sha256_hex E (sh_text S y)" by (rule trans [OF k(1) [symmetric] trans [OF assms(3) k(2)]])
  then have "sha256 E (sh_text S x) = sha256 E (sh_text S y)" by (rule sha256_hex_inj)
  then have "sh_text S x = sh_text S y" by (rule inj_onD [OF assms(4)]) simp_all
  moreover have "sh_valid S x" "sh_valid S y" by (rule entry_held_valid [OF assms(1)], rule entry_held_valid [OF assms(2)])
  ultimately show ?thesis using owner_of_text by blast
qed

lemma settled_step:
  assumes "shelf_step E S a (c, m) (c', m')" "json_ok (sh_json S)" "shelf_inv E S P (c, m)" "settled S i e c"
    and "\<forall>x \<in> set_option a. sh_owner S x \<noteq> sh_owner S e" "inj_on (sha256 E) (sh_text S ` (P \<union> set_option a))"
  shows "settled S i e c'"
  using assms(1)
proof cases
  case (upserted x io)
  have e: "sh_key S e = i" "e \<in> P" "entry_held E S m e"
    using assms(3,4) entries_heldD [of E S P m "ct_entries c" i e] by (simp_all add: shelf_inv_def settled_def)
  have "inj_on (sha256 E) {sh_text S x, sh_text S e}" using assms(6) e(2) upserted by (auto intro: inj_on_subset)
  then have "sh_key S x \<noteq> i" using same_key_same_owner [OF upserted(4) e(3)] e(1) assms(5) upserted by auto
  moreover obtain es where "saved (sh_json S) c es" "finite (dom es)" "es i = Some e" using assms(4) by (auto simp: settled_def)
  moreover have "finite (dom (ct_entries c))" using assms(3) entries_held_finite by (auto simp: shelf_inv_def)
  ultimately show ?thesis using upsert_saved [of "sh_json S" c es "sh_key S" io x] assms(4) upserted
    unfolding settled_def by (cases io) auto
next
  case reopened
  obtain es where "saved (sh_json S) c es" "finite (dom es)" "es i = Some e" using assms(4) by (auto simp: settled_def)
  then show ?thesis using open_saved [OF assms(2) reopened(3)] by (auto simp: settled_def)
qed (use assms(4) in auto)

lemma settled_run:
  assumes "shelf_run E S x es y" "sha_ok E" "json_ok (sh_json S)" "shelf_inv E S P x" "settled S i e (fst x)"
    and "\<forall>z \<in> set es. sh_owner S z \<noteq> sh_owner S e" "inj_on (sha256 E) (sh_text S ` (P \<union> set es))"
  shows "settled S i e (fst y)"
  using assms
proof (induction rule: shelf_run.induct)
  case (shelf_quiet x es y z)
  have "shelf_inv E S (P \<union> set es) y" using shelf_run_inv shelf_quiet by blast
  then show ?case
    using settled_step [of E None "fst y" "snd y" "fst z" "snd z"] shelf_quiet by (simp add: prod_eq_iff)
next
  case (shelf_act x es y v z)
  have "inj_on (sha256 E) (sh_text S ` (P \<union> set es))"
    by (rule inj_on_subset [OF shelf_act(9)]) auto
  then have "settled S i e (fst y)" using shelf_act by simp
  moreover have "shelf_inv E S (P \<union> set es) y" using shelf_run_inv shelf_act by blast
  ultimately show ?case
    using settled_step [of E "Some v" "fst y" "snd y" "fst z" "snd z" "P \<union> set es"] shelf_act by (simp add: prod_eq_iff)
qed simp

end

section \<open>An example\<close>

text \<open>A writer and reader with the assumed law, for entries that can be numbered.\<close>

definition toy_json :: "'e json" where
  "toy_json =
     (let S = {m. finite (dom m)} in
      \<lparr>js_write = (\<lambda>m. replicate (Suc (to_nat_on S m)) NUL), js_read = (\<lambda>b. Inr (from_nat_into S (length b - 1)))\<rparr>)"

lemma countable_entries:
  assumes "inj (f :: 'e \<Rightarrow> nat)"
  shows "countable {m :: str \<rightharpoonup> 'e. finite (dom m)}"
proof (rule countableI')
  let ?g = "\<lambda>m :: str \<rightharpoonup> 'e. {(i, f y) | i y. m i = Some y}"
  have mem: "(i, f y) \<in> ?g m \<longleftrightarrow> m i = Some y" for i y m using injD [OF assms] by auto
  have fin: "finite (?g m)" if "finite (dom m)" for m
    by (rule finite_subset [OF _ finite_imageI [OF that, of "\<lambda>i. (i, f (the (m i)))"]]) force
  show "inj_on (to_nat_on (Collect finite) \<circ> ?g) {m. finite (dom m)}"
  proof (rule comp_inj_on)
    show "inj_on ?g {m. finite (dom m)}"
    proof (rule inj_onI)
      fix m n assume eq: "?g m = ?g n"
      have same: "m i = Some y \<longleftrightarrow> n i = Some y" for i y
        by (rule trans [OF mem [symmetric] trans [OF arg_cong [OF eq, of "\<lambda>G. (i, f y) \<in> G"] mem]])
      have "m i = n i" for i
      proof (cases "m i")
        case None
        show ?thesis
        proof (cases "n i")
          case (Some y)
          then have "m i = Some y" by (rule iffD2 [OF same])
          then show ?thesis using None by simp
        qed (simp add: None)
      next
        case (Some y)
        then have "n i = Some y" by (rule iffD1 [OF same])
        then show ?thesis using Some by simp
      qed
      then show "m = n" by (rule ext)
    qed
    show "inj_on (to_nat_on (Collect finite)) (?g ` {m. finite (dom m)})"
      by (rule inj_on_subset [OF inj_on_to_nat_on [OF countable_Collect_finite]]) (use fin in blast)
  qed
qed

lemma toy_json_ok: "inj (f :: 'e \<Rightarrow> nat) \<Longrightarrow> json_ok (toy_json :: 'e json)"
  using countable_entries [of f] by (simp add: json_ok_def toy_json_def Let_def)

end
