(* ===== verification/Omp_Marketplace.thy ===== *)
theory Omp_Marketplace
  imports Omp_Catalog Omp_Gateway
begin

text \<open>
  \<open>crates/omp-marketplace/src/lib.rs\<close>: publishing probes, listing, reading, editing and
  yanking them, and reading their files. What cargo answers, whether a file can be written
  and the fields of a form are arguments. A publication checks the catalog, builds with the
  catalog unlocked, stores its files and then enters the probe: each of the three is one
  definition, since other requests run between them.
\<close>

section \<open>State\<close>

record probe_entry =
  pe_id :: str
  pe_publisher_sub :: str
  pe_namespace :: str
  pe_name :: str
  pe_version :: str
  pe_description :: "str option"
  pe_wasm_hash :: str
  pe_manifest_hash :: str
  pe_readme_hash :: "str option"
  pe_source_hash :: "str option"
  pe_published_at :: nat
  pe_yanked_at :: "nat option"
  pe_downloads :: nat

text \<open>The parameters of a marketplace: the primitives, the key contexts are verified with, the JSON of the catalog.\<close>

record market_env =
  mv_signing :: signing
  mv_verifier :: "bytes option"
  mv_json :: "probe_entry json"

abbreviation mv_ext :: "('a) market_env_scheme \<Rightarrow> ext" where "mv_ext V \<equiv> sx (mv_signing V)"

text \<open>Status and code of an answer that is an error.\<close>

type_synonym refusal = "nat \<times> str"

section \<open>Who publishes\<close>

definition require_authed_publisher :: "signing \<Rightarrow> bytes option \<Rightarrow> int \<Rightarrow> headers \<Rightarrow> refusal + str \<times> str" where
  "require_authed_publisher G verifier now_unix hs =
     (case hdr_get hs TENANT_CTX_HEADER of
        None \<Rightarrow> Err (401, ''missing_context'')
      | Some v \<Rightarrow>
          bind_res (ok_or (401, ''bad_context'') (hdr_str v)) (\<lambda>raw.
          bind_res (case verifier of
              Some vk \<Rightarrow> map_err (\<lambda>_. (401, ''bad_context'')) (verify_at G raw vk now_unix)
            | None \<Rightarrow> map_err (\<lambda>_. (400, ''bad_context'')) (decode_unverified G raw)) (\<lambda>c.
          case tc_sub c of
            Some u \<Rightarrow> if u \<noteq> [] then Ok (tc_tenant_id c, u) else Err (403, ''no_sub'')
          | None \<Rightarrow> Err (403, ''no_sub''))))"

section \<open>Reading\<close>

record list_query =
  lq_namespace :: "str option"
  lq_name :: "str option"
  lq_publisher_sub :: "str option"
  lq_q :: "str option"
  lq_limit :: nat

definition wanted :: "str option \<Rightarrow> str \<Rightarrow> bool" where
  "wanted w x \<longleftrightarrow> (case w of None \<Rightarrow> True | Some n \<Rightarrow> x = n)"

definition mentions :: "str \<Rightarrow> str \<Rightarrow> bool" where
  "mentions needle x \<longleftrightarrow> contains_str (to_ascii_lowercase needle) (to_ascii_lowercase x)"

definition probe_listed :: "list_query \<Rightarrow> probe_entry \<Rightarrow> bool" where
  "probe_listed q e \<longleftrightarrow> pe_yanked_at e = None \<and> wanted (lq_namespace q) (pe_namespace e) \<and> wanted (lq_name q) (pe_name e) \<and>
     wanted (lq_publisher_sub q) (pe_publisher_sub e) \<and>
     (case lq_q q of None \<Rightarrow> True
      | Some needle \<Rightarrow> (case pe_description e of Some d \<Rightarrow> mentions needle d | None \<Rightarrow> False) \<or>
          mentions needle (pe_name e) \<or> mentions needle (pe_namespace e))"

text \<open>The entries in the order of the hash map; the sort is stable.\<close>

definition list_probes :: "list_query \<Rightarrow> probe_entry list \<Rightarrow> probe_entry list" where
  "list_probes q es =
     take (lq_limit q) (sort_key (\<lambda>e. - int (pe_published_at e)) (filter (probe_listed q) es))"

definition get_probe ::
  "(str \<times> str \<Rightarrow> str option) \<Rightarrow> str \<Rightarrow> probe_entry catalog \<Rightarrow> blob_files \<Rightarrow> refusal + probe_entry \<times> str option"
where
  "get_probe io i c m =
     (case ct_entries c i of
        Some e \<Rightarrow>
          if pe_yanked_at e = None then
            Ok (e, case blob_get io (pe_manifest_hash e) m of
                     Inr (Some b) \<Rightarrow> if utf8_valid b then Some b else None
                   | _ \<Rightarrow> None)
          else Err (410, ''yanked'')
      | None \<Rightarrow> Err (404, ''not_found''))"

definition probe_hashes :: "probe_entry \<Rightarrow> str set" where
  "probe_hashes e = {pe_wasm_hash e, pe_manifest_hash e} \<union> set_option (pe_readme_hash e) \<union> set_option (pe_source_hash e)"

definition get_blob ::
  "(str \<times> str \<Rightarrow> str option) \<Rightarrow> str \<Rightarrow> str \<Rightarrow> probe_entry catalog \<Rightarrow> blob_files \<Rightarrow> refusal + bytes"
where
  "get_blob io i h c m =
     (case ct_entries c i of
        None \<Rightarrow> Err (404, ''not_found'')
      | Some e \<Rightarrow>
          if pe_wasm_hash e \<noteq> h \<and> pe_manifest_hash e \<noteq> h \<and> pe_readme_hash e \<noteq> Some h \<and> pe_source_hash e \<noteq> Some h
          then Err (404, ''blob_not_part_of_probe'')
          else (case blob_get io h m of
                  Inr (Some b) \<Rightarrow> Ok b
                | Inr None \<Rightarrow> Err (404, ''blob_missing'')
                | Inl _ \<Rightarrow> Err (500, ''blob_io'')))"

section \<open>Publishing\<close>

text \<open>A field of a multipart form: its name and what reading it as text and as bytes gives.\<close>

record form_field =
  fd_name :: "str option"
  fd_text :: "str option"
  fd_bytes :: "bytes option"

record probe_form =
  pf_namespace :: str
  pf_name :: str
  pf_version :: str
  pf_description :: "str option"
  pf_manifest :: "bytes option"
  pf_readme :: "bytes option"
  pf_source :: "bytes option"
  pf_got_wasm :: bool

definition text_or_empty :: "form_field \<Rightarrow> str" where
  "text_or_empty f = (case fd_text f of Some t \<Rightarrow> t | None \<Rightarrow> [])"

definition text_nonempty :: "form_field \<Rightarrow> str option" where
  "text_nonempty f = (case fd_text f of Some t \<Rightarrow> if t \<noteq> [] then Some t else None | None \<Rightarrow> None)"

definition form_step :: "form_field \<Rightarrow> probe_form \<Rightarrow> probe_form" where
  "form_step f p =
     (case fd_name f of None \<Rightarrow> p
      | Some n \<Rightarrow>
          if n = ''namespace'' then p\<lparr>pf_namespace := text_or_empty f\<rparr>
          else if n = ''name'' then p\<lparr>pf_name := text_or_empty f\<rparr>
          else if n = ''version'' then p\<lparr>pf_version := text_or_empty f\<rparr>
          else if n = ''description'' then p\<lparr>pf_description := text_nonempty f\<rparr>
          else if n = ''manifest'' then p\<lparr>pf_manifest := fd_bytes f\<rparr>
          else if n = ''readme'' then p\<lparr>pf_readme := fd_bytes f\<rparr>
          else if n = ''source'' then p\<lparr>pf_source := fd_bytes f\<rparr>
          else if n = ''wasm'' then p\<lparr>pf_got_wasm := True\<rparr>
          else p)"

definition read_form :: "form_field list \<Rightarrow> probe_form" where
  "read_form fs = fold form_step fs
     \<lparr>pf_namespace = [], pf_name = [], pf_version = [], pf_description = None, pf_manifest = None, pf_readme = None,
      pf_source = None, pf_got_wasm = False\<rparr>"

definition alphanumeric :: "char \<Rightarrow> bool" where
  "alphanumeric c \<longleftrightarrow> 0x30 \<le> byte_val c \<and> byte_val c \<le> 0x39 \<or> 0x41 \<le> byte_val c \<and> byte_val c \<le> 0x5A \<or>
     0x61 \<le> byte_val c \<and> byte_val c \<le> 0x7A"

definition is_safe_ident :: "str \<Rightarrow> bool" where
  "is_safe_ident s \<longleftrightarrow> s \<noteq> [] \<and> length s \<le> 64 \<and> list_all (\<lambda>c. alphanumeric c \<or> c \<in> {CHR ''.'', CHR ''_'', CHR ''-''}) s"

definition entry_text :: "str \<Rightarrow> str \<Rightarrow> str \<Rightarrow> str \<Rightarrow> bytes" where
  "entry_text publisher_sub namespace nm version =
     publisher_sub @ [NUL] @ namespace @ [NUL] @ nm @ [NUL] @ version"

definition entry_id :: "ext \<Rightarrow> str \<Rightarrow> str \<Rightarrow> str \<Rightarrow> str \<Rightarrow> str" where
  "entry_id E publisher_sub namespace nm version = sha256_hex E (entry_text publisher_sub namespace nm version)"

text \<open>What the checks let through.\<close>

record publication =
  pb_sub :: str
  pb_namespace :: str
  pb_name :: str
  pb_version :: str
  pb_description :: "str option"
  pb_source :: bytes
  pb_manifest :: bytes
  pb_readme :: "bytes option"

definition pb_id :: "ext \<Rightarrow> publication \<Rightarrow> str" where
  "pb_id E p = entry_id E (pb_sub p) (pb_namespace p) (pb_name p) (pb_version p)"

definition check_form :: "str \<Rightarrow> probe_form \<Rightarrow> refusal + publication" where
  "check_form publisher_sub f =
     (if pf_got_wasm f then Err (400, ''wasm_upload_forbidden'')
      else if pf_namespace f = [] \<or> pf_name f = [] \<or> pf_version f = [] then Err (400, ''missing_fields'')
      else if \<not> is_safe_ident (pf_namespace f) \<or> \<not> is_safe_ident (pf_name f) \<or> \<not> is_safe_ident (pf_version f)
      then Err (400, ''bad_ident'')
      else (case pf_source f of None \<Rightarrow> Err (400, ''missing_source'')
      | Some source \<Rightarrow> if source = [] then Err (400, ''missing_source'')
      else (case pf_manifest f of None \<Rightarrow> Err (400, ''missing_manifest'')
      | Some manifest \<Rightarrow> if manifest = [] then Err (400, ''missing_manifest'')
      else if length source \<ge> 4 \<and> take 4 source = NUL # ''asm'' then Err (400, ''wasm_upload_forbidden'')
      else if \<not> utf8_valid source then Err (400, ''bad_source'')
      else if \<not> utf8_valid manifest then Err (400, ''bad_manifest'')
      else Ok \<lparr>pb_sub = publisher_sub, pb_namespace = pf_namespace f, pb_name = pf_name f, pb_version = pf_version f,
               pb_description = pf_description f, pb_source = source, pb_manifest = manifest, pb_readme = pf_readme f\<rparr>)))"

definition publish_check :: "'v market_env_scheme \<Rightarrow> int \<Rightarrow> headers \<Rightarrow> form_field list \<Rightarrow> probe_entry catalog \<Rightarrow> refusal + publication" where
  "publish_check V now_unix hs form c =
     bind_res (require_authed_publisher (mv_signing V) (mv_verifier V) now_unix hs) (\<lambda>(_, publisher_sub).
     bind_res (check_form publisher_sub (read_form form)) (\<lambda>p.
     case ct_entries c (pb_id (mv_ext V) p) of
       Some existing \<Rightarrow> if pe_yanked_at existing = None then Err (409, ''version_exists'') else Ok p
     | None \<Rightarrow> Ok p))"

definition publish_files :: "ext \<Rightarrow> publication \<Rightarrow> bytes \<Rightarrow> (str \<times> bytes) list" where
  "publish_files E p wasm =
     [(sha256_hex E wasm, wasm), (sha256_hex E (pb_manifest p), pb_manifest p)] @
     (case pb_readme p of Some b \<Rightarrow> [(sha256_hex E b, b)] | None \<Rightarrow> []) @
     [(sha256_hex E (pb_source p), pb_source p)]"

definition publish_store ::
  "ext \<Rightarrow> (str \<times> str \<Rightarrow> str option) \<Rightarrow> publication \<Rightarrow> str + bytes \<Rightarrow> blob_files \<Rightarrow> (refusal + bytes) \<times> blob_files"
where
  "publish_store E io p built m =
     (case built of
        Inl reason \<Rightarrow> (Err (422, ''build_failed''), m)
      | Inr wasm \<Rightarrow>
          (case blob_puts io (publish_files E p wasm) m of
             (Inl e, m') \<Rightarrow> (Err (500, ''blob_put''), m')
           | (Inr _, m') \<Rightarrow> (Ok wasm, m')))"

definition probe_of :: "ext \<Rightarrow> publication \<Rightarrow> bytes \<Rightarrow> nat \<Rightarrow> probe_entry" where
  "probe_of E p wasm now_unix =
     \<lparr>pe_id = pb_id E p, pe_publisher_sub = pb_sub p, pe_namespace = pb_namespace p, pe_name = pb_name p, pe_version = pb_version p,
      pe_description = pb_description p, pe_wasm_hash = sha256_hex E wasm, pe_manifest_hash = sha256_hex E (pb_manifest p),
      pe_readme_hash = map_option (sha256_hex E) (pb_readme p), pe_source_hash = Some (sha256_hex E (pb_source p)),
      pe_published_at = now_unix, pe_yanked_at = None, pe_downloads = 0\<rparr>"

definition enter :: "'v market_env_scheme \<Rightarrow> str option \<Rightarrow> probe_entry \<Rightarrow> probe_entry catalog \<Rightarrow> (refusal + probe_entry) \<times> probe_entry catalog" where
  "enter V io e c =
     (case catalog_upsert (mv_json V) pe_id io e c of
        (Inl _, c') \<Rightarrow> (Err (500, ''catalog_io''), c')
      | (Inr _, c') \<Rightarrow> (Ok e, c'))"

definition publish_finish ::
  "'v market_env_scheme \<Rightarrow> str option \<Rightarrow> nat \<Rightarrow> publication \<Rightarrow> bytes \<Rightarrow> probe_entry catalog \<Rightarrow> (refusal + probe_entry) \<times> probe_entry catalog"
where
  "publish_finish V io now_unix p wasm c = enter V io (probe_of (mv_ext V) p wasm now_unix) c"

text \<open>The whole request when nothing runs between its parts.\<close>

definition publish_probe ::
  "'v market_env_scheme \<Rightarrow> (str \<times> str \<Rightarrow> str option) \<Rightarrow> str option \<Rightarrow> nat \<Rightarrow> headers \<Rightarrow> form_field list \<Rightarrow> (bytes \<Rightarrow> str + bytes) \<Rightarrow>
   probe_entry catalog \<Rightarrow> blob_files \<Rightarrow> (refusal + probe_entry) \<times> probe_entry catalog \<times> blob_files"
where
  "publish_probe V io ioc now_unix hs form build c m =
     (case publish_check V (int now_unix) hs form c of
        Inl r \<Rightarrow> (Err r, c, m)
      | Inr p \<Rightarrow>
          (case publish_store (mv_ext V) io p (build (pb_source p)) m of
             (Inl r, m') \<Rightarrow> (Err r, c, m')
           | (Inr wasm, m') \<Rightarrow>
               (case publish_finish V ioc now_unix p wasm c of (r, c') \<Rightarrow> (r, c', m'))))"

section \<open>Editing and yanking\<close>

record probe_patch =
  pp_description :: "str option"
  pp_readme :: "str option"

definition own_entry :: "'v market_env_scheme \<Rightarrow> int \<Rightarrow> headers \<Rightarrow> str \<Rightarrow> probe_entry catalog \<Rightarrow> refusal + probe_entry" where
  "own_entry V now_unix hs i c =
     bind_res (require_authed_publisher (mv_signing V) (mv_verifier V) now_unix hs) (\<lambda>(_, u).
     bind_res (ok_or (404, ''not_found'') (ct_entries c i)) (\<lambda>e.
     if pe_publisher_sub e \<noteq> u then Err (403, ''not_publisher'') else Ok e))"

definition patch_description :: "str option \<Rightarrow> str option \<Rightarrow> str option" where
  "patch_description d old = (case d of None \<Rightarrow> old | Some t \<Rightarrow> if t = [] then None else Some t)"

definition patch_readme ::
  "ext \<Rightarrow> (str \<times> str \<Rightarrow> str option) \<Rightarrow> str option \<Rightarrow> str option \<Rightarrow> blob_files \<Rightarrow> refusal + str option \<times> blob_files"
where
  "patch_readme E io r old m =
     (case r of None \<Rightarrow> Ok (old, m)
      | Some t \<Rightarrow> if t = [] then Ok (None, m)
          else (case blob_put io (sha256_hex E t) t m of
                  Inl _ \<Rightarrow> Err (500, ''blob_put'')
                | Inr m' \<Rightarrow> Ok (Some (sha256_hex E t), m')))"

definition patch_probe ::
  "'v market_env_scheme \<Rightarrow> (str \<times> str \<Rightarrow> str option) \<Rightarrow> str option \<Rightarrow> int \<Rightarrow> headers \<Rightarrow> str \<Rightarrow> probe_patch \<Rightarrow>
   probe_entry catalog \<Rightarrow> blob_files \<Rightarrow> (refusal + probe_entry) \<times> probe_entry catalog \<times> blob_files"
where
  "patch_probe V io ioc now_unix hs i patch c m =
     (case own_entry V now_unix hs i c of
        Inl r \<Rightarrow> (Err r, c, m)
      | Inr e \<Rightarrow>
          (case patch_readme (mv_ext V) io (pp_readme patch) (pe_readme_hash e) m of
             Inl r \<Rightarrow> (Err r, c, m)
           | Inr (readme, m') \<Rightarrow>
               (case enter V ioc (e\<lparr>pe_description := patch_description (pp_description patch) (pe_description e),
                                   pe_readme_hash := readme\<rparr>) c of (r, c') \<Rightarrow> (r, c', m'))))"

text \<open>The answer says whether the probe was yanked before.\<close>

definition yank_probe ::
  "'v market_env_scheme \<Rightarrow> str option \<Rightarrow> nat \<Rightarrow> headers \<Rightarrow> str \<Rightarrow> probe_entry catalog \<Rightarrow> (refusal + bool) \<times> probe_entry catalog"
where
  "yank_probe V ioc now_unix hs i c =
     (case own_entry V (int now_unix) hs i c of
        Inl r \<Rightarrow> (Err r, c)
      | Inr e \<Rightarrow>
          if pe_yanked_at e \<noteq> None then (Ok True, c)
          else (case enter V ioc (e\<lparr>pe_yanked_at := Some now_unix\<rparr>) c of
                  (Inl r, c') \<Rightarrow> (Err r, c')
                | (Inr _, c') \<Rightarrow> (Ok False, c')))"

end
