(* ===== verification/Omp_Market_Schemas.thy ===== *)
theory Omp_Market_Schemas
  imports Omp_Marketplace Omp_Config
begin

text \<open>
  \<open>crates/omp-marketplace/src/schemas.rs\<close>: the same service for schemas. A schema is
  published as it is, after a check that it is TOML with a file type and patterns; there is
  no build, so a publication has two parts: the check with the catalog locked, and the
  storing of the files, after which the entry is made.
\<close>

record schema_entry =
  se_id :: str
  se_publisher_sub :: str
  se_file_type :: str
  se_version :: str
  se_description :: "str option"
  se_schema_hash :: str
  se_readme_hash :: "str option"
  se_published_at :: nat
  se_yanked_at :: "nat option"

text \<open>The parameters of the service with those of its catalog of schemas.\<close>

record schema_env = market_env +
  mv_schema_json :: "schema_entry json"

definition schema_catalog_open :: "schema_entry json \<Rightarrow> bytes option \<Rightarrow> str + schema_entry catalog" where
  "schema_catalog_open J file = catalog_open J file"

definition schema_flush :: "schema_entry json \<Rightarrow> str option \<Rightarrow> schema_entry catalog \<Rightarrow> (str + unit) \<times> schema_entry catalog" where
  "schema_flush J io c = catalog_flush J io c"

definition schema_upsert :: "schema_entry json \<Rightarrow> str option \<Rightarrow> schema_entry \<Rightarrow> schema_entry catalog \<Rightarrow> (str + unit) \<times> schema_entry catalog" where
  "schema_upsert J io e c = schema_flush J io (c\<lparr>ct_entries := (ct_entries c)(se_id e \<mapsto> e)\<rparr>)"

section \<open>Reading\<close>

record schema_query =
  sq_file_type :: "str option"
  sq_publisher_sub :: "str option"
  sq_q :: "str option"
  sq_limit :: nat

definition schema_listed :: "schema_query \<Rightarrow> schema_entry \<Rightarrow> bool" where
  "schema_listed q e \<longleftrightarrow> se_yanked_at e = None \<and> wanted (sq_file_type q) (se_file_type e) \<and>
     wanted (sq_publisher_sub q) (se_publisher_sub e) \<and>
     (case sq_q q of None \<Rightarrow> True
      | Some needle \<Rightarrow> mentions needle (se_file_type e) \<or>
          (case se_description e of Some d \<Rightarrow> mentions needle d | None \<Rightarrow> False))"

definition market_list_schemas :: "schema_query \<Rightarrow> schema_entry list \<Rightarrow> schema_entry list" where
  "market_list_schemas q es =
     take (sq_limit q) (sort_key (\<lambda>e. - int (se_published_at e)) (filter (schema_listed q) es))"

definition get_schema ::
  "(str \<times> str \<Rightarrow> str option) \<Rightarrow> str \<Rightarrow> schema_entry catalog \<Rightarrow> blob_files \<Rightarrow> refusal + schema_entry \<times> str option"
where
  "get_schema io i c m =
     (case ct_entries c i of
        Some e \<Rightarrow>
          if se_yanked_at e = None then
            Ok (e, case blob_get io (se_schema_hash e) m of
                     Inr (Some b) \<Rightarrow> if utf8_valid b then Some b else None
                   | _ \<Rightarrow> None)
          else Err (410, ''yanked'')
      | None \<Rightarrow> Err (404, ''not_found''))"

definition schema_hashes :: "schema_entry \<Rightarrow> str set" where
  "schema_hashes e = insert (se_schema_hash e) (set_option (se_readme_hash e))"

definition get_schema_blob ::
  "(str \<times> str \<Rightarrow> str option) \<Rightarrow> str \<Rightarrow> str \<Rightarrow> schema_entry catalog \<Rightarrow> blob_files \<Rightarrow> refusal + bytes"
where
  "get_schema_blob io i h c m =
     (case ct_entries c i of
        None \<Rightarrow> Err (404, ''not_found'')
      | Some e \<Rightarrow>
          if se_schema_hash e \<noteq> h \<and> se_readme_hash e \<noteq> Some h then Err (404, ''blob_not_part_of_schema'')
          else (case blob_get io h m of
                  Inr (Some b) \<Rightarrow> Ok b
                | Inr None \<Rightarrow> Err (404, ''blob_missing'')
                | Inl _ \<Rightarrow> Err (500, ''blob_io'')))"

section \<open>Publishing\<close>

text \<open>The TOML of a schema, read into \<open>MinimalSchema\<close>.\<close>

definition validate_schema_toml :: "ext \<Rightarrow> bytes \<Rightarrow> str + str" where
  "validate_schema_toml E bs =
     (if \<not> utf8_valid bs then Err ''schema must be UTF-8''
      else bind_res (map_err (\<lambda>e. ''schema TOML: '' @ e) (toml_parse E bs)) (\<lambda>doc.
        case (opt_str doc ''file_type'', opt_strs doc ''mime_patterns'') of
          (Some (Some file_type), Some (Some mime_patterns)) \<Rightarrow>
            if file_type = [] then Err ''schema: file_type must be non-empty''
            else if \<not> is_safe_ident file_type then Err ''schema: file_type must be [a-zA-Z0-9._-]+ and at most 64 chars''
            else if mime_patterns = [] then Err ''schema: mime_patterns must be non-empty''
            else Ok file_type
        | _ \<Rightarrow> Err ''schema TOML: missing or invalid field''))"

record schema_form =
  sf_version :: str
  sf_description :: "str option"
  sf_schema :: "bytes option"
  sf_readme :: "bytes option"

definition schema_form_step :: "form_field \<Rightarrow> schema_form \<Rightarrow> schema_form" where
  "schema_form_step f p =
     (case fd_name f of None \<Rightarrow> p
      | Some n \<Rightarrow>
          if n = ''version'' then p\<lparr>sf_version := text_or_empty f\<rparr>
          else if n = ''description'' then p\<lparr>sf_description := text_nonempty f\<rparr>
          else if n = ''schema'' then p\<lparr>sf_schema := fd_bytes f\<rparr>
          else if n = ''readme'' then p\<lparr>sf_readme := fd_bytes f\<rparr>
          else p)"

definition read_schema_form :: "form_field list \<Rightarrow> schema_form" where
  "read_schema_form fs = fold schema_form_step fs \<lparr>sf_version = [], sf_description = None, sf_schema = None, sf_readme = None\<rparr>"

definition schema_entry_text :: "str \<Rightarrow> str \<Rightarrow> str \<Rightarrow> bytes" where
  "schema_entry_text publisher_sub file_type version =
     publisher_sub @ [NUL] @ ''schema'' @ [NUL] @ file_type @ [NUL] @ version"

definition schema_entry_id :: "ext \<Rightarrow> str \<Rightarrow> str \<Rightarrow> str \<Rightarrow> str" where
  "schema_entry_id E publisher_sub file_type version = sha256_hex E (schema_entry_text publisher_sub file_type version)"

record schema_publication =
  sb_sub :: str
  sb_file_type :: str
  sb_version :: str
  sb_description :: "str option"
  sb_schema :: bytes
  sb_readme :: "bytes option"

definition sb_id :: "ext \<Rightarrow> schema_publication \<Rightarrow> str" where
  "sb_id E p = schema_entry_id E (sb_sub p) (sb_file_type p) (sb_version p)"

definition check_schema_form :: "ext \<Rightarrow> str \<Rightarrow> schema_form \<Rightarrow> refusal + schema_publication" where
  "check_schema_form E publisher_sub f =
     (if sf_version f = [] then Err (400, ''missing_fields'')
      else if \<not> is_safe_ident (sf_version f) then Err (400, ''bad_ident'')
      else (case sf_schema f of None \<Rightarrow> Err (400, ''missing_schema'')
      | Some schema \<Rightarrow> if schema = [] then Err (400, ''missing_schema'')
      else bind_res (map_err (\<lambda>_. (400, ''bad_schema'')) (validate_schema_toml E schema)) (\<lambda>file_type.
        Ok \<lparr>sb_sub = publisher_sub, sb_file_type = file_type, sb_version = sf_version f, sb_description = sf_description f,
            sb_schema = schema, sb_readme = sf_readme f\<rparr>)))"

definition publish_schema_check ::
  "schema_env \<Rightarrow> int \<Rightarrow> headers \<Rightarrow> form_field list \<Rightarrow> schema_entry catalog \<Rightarrow> refusal + schema_publication"
where
  "publish_schema_check V now_unix hs form c =
     bind_res (require_authed_publisher (mv_signing V) (mv_verifier V) now_unix hs) (\<lambda>(_, publisher_sub).
     bind_res (check_schema_form (mv_ext V) publisher_sub (read_schema_form form)) (\<lambda>p.
     case ct_entries c (sb_id (mv_ext V) p) of
       Some existing \<Rightarrow> if se_yanked_at existing = None then Err (409, ''version_exists'') else Ok p
     | None \<Rightarrow> Ok p))"

definition schema_files :: "ext \<Rightarrow> schema_publication \<Rightarrow> (str \<times> bytes) list" where
  "schema_files E p =
     (sha256_hex E (sb_schema p), sb_schema p) #
     (case sb_readme p of Some b \<Rightarrow> [(sha256_hex E b, b)] | None \<Rightarrow> [])"

definition publish_schema_store ::
  "ext \<Rightarrow> (str \<times> str \<Rightarrow> str option) \<Rightarrow> schema_publication \<Rightarrow> blob_files \<Rightarrow> (refusal + unit) \<times> blob_files"
where
  "publish_schema_store E io p m =
     (case blob_puts io (schema_files E p) m of
        (Inl e, m') \<Rightarrow> (Err (500, ''blob_put''), m')
      | (Inr _, m') \<Rightarrow> (Ok (), m'))"

definition schema_of :: "ext \<Rightarrow> schema_publication \<Rightarrow> nat \<Rightarrow> schema_entry" where
  "schema_of E p now_unix =
     \<lparr>se_id = sb_id E p, se_publisher_sub = sb_sub p, se_file_type = sb_file_type p, se_version = sb_version p,
      se_description = sb_description p, se_schema_hash = sha256_hex E (sb_schema p),
      se_readme_hash = map_option (sha256_hex E) (sb_readme p), se_published_at = now_unix, se_yanked_at = None\<rparr>"

definition enter_schema ::
  "schema_env \<Rightarrow> str option \<Rightarrow> schema_entry \<Rightarrow> schema_entry catalog \<Rightarrow> (refusal + schema_entry) \<times> schema_entry catalog"
where
  "enter_schema V io e c =
     (case schema_upsert (mv_schema_json V) io e c of
        (Inl _, c') \<Rightarrow> (Err (500, ''catalog_io''), c')
      | (Inr _, c') \<Rightarrow> (Ok e, c'))"

definition publish_schema_finish ::
  "schema_env \<Rightarrow> str option \<Rightarrow> nat \<Rightarrow> schema_publication \<Rightarrow> schema_entry catalog \<Rightarrow> (refusal + schema_entry) \<times> schema_entry catalog"
where
  "publish_schema_finish V io now_unix p c = enter_schema V io (schema_of (mv_ext V) p now_unix) c"

definition publish_schema ::
  "schema_env \<Rightarrow> (str \<times> str \<Rightarrow> str option) \<Rightarrow> str option \<Rightarrow> nat \<Rightarrow> headers \<Rightarrow> form_field list \<Rightarrow>
   schema_entry catalog \<Rightarrow> blob_files \<Rightarrow> (refusal + schema_entry) \<times> schema_entry catalog \<times> blob_files"
where
  "publish_schema V io ioc now_unix hs form c m =
     (case publish_schema_check V (int now_unix) hs form c of
        Inl r \<Rightarrow> (Err r, c, m)
      | Inr p \<Rightarrow>
          (case publish_schema_store (mv_ext V) io p m of
             (Inl r, m') \<Rightarrow> (Err r, c, m')
           | (Inr _, m') \<Rightarrow>
               (case publish_schema_finish V ioc now_unix p c of (r, c') \<Rightarrow> (r, c', m'))))"

section \<open>Editing and yanking\<close>

record schema_patch =
  sp_description :: "str option"
  sp_readme :: "str option"

definition own_schema :: "schema_env \<Rightarrow> int \<Rightarrow> headers \<Rightarrow> str \<Rightarrow> schema_entry catalog \<Rightarrow> refusal + schema_entry" where
  "own_schema V now_unix hs i c =
     bind_res (require_authed_publisher (mv_signing V) (mv_verifier V) now_unix hs) (\<lambda>(_, u).
     bind_res (ok_or (404, ''not_found'') (ct_entries c i)) (\<lambda>e.
     if se_publisher_sub e \<noteq> u then Err (403, ''not_publisher'') else Ok e))"

definition patch_schema ::
  "schema_env \<Rightarrow> (str \<times> str \<Rightarrow> str option) \<Rightarrow> str option \<Rightarrow> int \<Rightarrow> headers \<Rightarrow> str \<Rightarrow> schema_patch \<Rightarrow>
   schema_entry catalog \<Rightarrow> blob_files \<Rightarrow> (refusal + schema_entry) \<times> schema_entry catalog \<times> blob_files"
where
  "patch_schema V io ioc now_unix hs i patch c m =
     (case own_schema V now_unix hs i c of
        Inl r \<Rightarrow> (Err r, c, m)
      | Inr e \<Rightarrow>
          (case patch_readme (mv_ext V) io (sp_readme patch) (se_readme_hash e) m of
             Inl r \<Rightarrow> (Err r, c, m)
           | Inr (readme, m') \<Rightarrow>
               (case enter_schema V ioc (e\<lparr>se_description := patch_description (sp_description patch) (se_description e),
                                          se_readme_hash := readme\<rparr>) c of (r, c') \<Rightarrow> (r, c', m'))))"

definition yank_schema ::
  "schema_env \<Rightarrow> str option \<Rightarrow> nat \<Rightarrow> headers \<Rightarrow> str \<Rightarrow> schema_entry catalog \<Rightarrow> (refusal + bool) \<times> schema_entry catalog"
where
  "yank_schema V ioc now_unix hs i c =
     (case own_schema V (int now_unix) hs i c of
        Inl r \<Rightarrow> (Err r, c)
      | Inr e \<Rightarrow>
          if se_yanked_at e \<noteq> None then (Ok True, c)
          else (case enter_schema V ioc (e\<lparr>se_yanked_at := Some now_unix\<rparr>) c of
                  (Inl r, c') \<Rightarrow> (Err r, c')
                | (Inr _, c') \<Rightarrow> (Ok False, c')))"

end
