(* ===== verification/Omp_Market.thy ===== *)
theory Omp_Market
  imports Omp_Market_Schemas
begin

text \<open>
  The marketplace as it runs: both catalogs over one directory of files, requests that are
  served beside each other, publications that go on while others are served, failures of
  any attempt to write, and restarts. The theorems say what publishers and consumers may
  rely on.
\<close>

section \<open>The running service\<close>

datatype task =
    Checked publication
  | Stored publication bytes
  | Schema_Checked schema_publication
  | Schema_Stored schema_publication

record market =
  mk_probes :: "probe_entry catalog"
  mk_schemas :: "schema_entry catalog"
  mk_blobs :: blob_files
  mk_running :: "task list"

text \<open>What is seen of a step: a publication that passed the checks, or an entry being changed on behalf of a publisher.\<close>

datatype event = Begun publication | Schema_Begun schema_publication | On_Behalf str | Quiet

definition requester :: "'v market_env_scheme \<Rightarrow> int \<Rightarrow> headers \<Rightarrow> event" where
  "requester V now_unix hs =
     (case require_authed_publisher (mv_signing V) (mv_verifier V) now_unix hs of
        Inr (_, u) \<Rightarrow> On_Behalf u | Inl _ \<Rightarrow> Quiet)"

inductive market_step :: "schema_env \<Rightarrow> event \<Rightarrow> market \<Rightarrow> market \<Rightarrow> bool" for V where
  publish_begins: "publish_check V t hs form (mk_probes s) = Inr p \<Longrightarrow>
    market_step V (Begun p) s (s\<lparr>mk_running := mk_running s @ [Checked p]\<rparr>)"
| publish_stores: "mk_running s = xs @ Checked p # ys \<Longrightarrow> publish_store (mv_ext V) io p built (mk_blobs s) = (r, m) \<Longrightarrow>
    market_step V Quiet s (s\<lparr>mk_blobs := m,
      mk_running := xs @ (case r of Inr wasm \<Rightarrow> [Stored p wasm] | Inl _ \<Rightarrow> []) @ ys\<rparr>)"
| publish_ends: "mk_running s = xs @ Stored p wasm # ys \<Longrightarrow> publish_finish V ioc now_unix p wasm (mk_probes s) = (r, c) \<Longrightarrow>
    market_step V (On_Behalf (pb_sub p)) s (s\<lparr>mk_probes := c, mk_running := xs @ ys\<rparr>)"
| patched: "patch_probe V io ioc t hs i patch (mk_probes s) (mk_blobs s) = (r, c, m) \<Longrightarrow>
    market_step V (requester V t hs) s (s\<lparr>mk_probes := c, mk_blobs := m\<rparr>)"
| yanked: "yank_probe V ioc now_unix hs i (mk_probes s) = (r', c) \<Longrightarrow>
    market_step V (requester V (int now_unix) hs) s (s\<lparr>mk_probes := c\<rparr>)"
| schema_begins: "publish_schema_check V t hs form (mk_schemas s) = Inr q \<Longrightarrow>
    market_step V (Schema_Begun q) s (s\<lparr>mk_running := mk_running s @ [Schema_Checked q]\<rparr>)"
| schema_stores: "mk_running s = xs @ Schema_Checked q # ys \<Longrightarrow> publish_schema_store (mv_ext V) io q (mk_blobs s) = (ru, m) \<Longrightarrow>
    market_step V Quiet s (s\<lparr>mk_blobs := m,
      mk_running := xs @ (case ru of Inr _ \<Rightarrow> [Schema_Stored q] | Inl _ \<Rightarrow> []) @ ys\<rparr>)"
| schema_ends: "mk_running s = xs @ Schema_Stored q # ys \<Longrightarrow> publish_schema_finish V ioc now_unix q (mk_schemas s) = (rs, d) \<Longrightarrow>
    market_step V (On_Behalf (sb_sub q)) s (s\<lparr>mk_schemas := d, mk_running := xs @ ys\<rparr>)"
| schema_patched: "patch_schema V io ioc t hs i spatch (mk_schemas s) (mk_blobs s) = (rs, d, m) \<Longrightarrow>
    market_step V (requester V t hs) s (s\<lparr>mk_schemas := d, mk_blobs := m\<rparr>)"
| schema_yanked: "yank_schema V ioc now_unix hs i (mk_schemas s) = (r', d) \<Longrightarrow>
    market_step V (requester V (int now_unix) hs) s (s\<lparr>mk_schemas := d\<rparr>)"
| restarted: "catalog_open (mv_json V) (ct_file (mk_probes s)) = Inr c \<Longrightarrow>
    schema_catalog_open (mv_schema_json V) (ct_file (mk_schemas s)) = Inr d \<Longrightarrow>
    market_step V Quiet s (s\<lparr>mk_probes := c, mk_schemas := d, mk_running := []\<rparr>)"

inductive market_run :: "schema_env \<Rightarrow> market \<Rightarrow> event list \<Rightarrow> market \<Rightarrow> bool" for V where
  market_idle: "market_run V s [] s"
| market_more: "market_run V s es s' \<Longrightarrow> market_step V ev s' s'' \<Longrightarrow> market_run V s (es @ [ev]) s''"

definition market_start :: market where
  "market_start = \<lparr>mk_probes = shelf_start, mk_schemas = shelf_start, mk_blobs = Map.empty, mk_running = []\<rparr>"

section \<open>The two catalogs as shelves\<close>

definition probe_text :: "probe_entry \<Rightarrow> bytes" where
  "probe_text e = entry_text (pe_publisher_sub e) (pe_namespace e) (pe_name e) (pe_version e)"

definition probe_shelf :: "schema_env \<Rightarrow> probe_entry shelf" where
  "probe_shelf V = \<lparr>sh_json = mv_json V, sh_key = pe_id, sh_text = probe_text, sh_owner = pe_publisher_sub, sh_hashes = probe_hashes,
     sh_valid = (\<lambda>e. is_safe_ident (pe_namespace e) \<and> is_safe_ident (pe_name e) \<and> is_safe_ident (pe_version e))\<rparr>"

definition schema_text :: "schema_entry \<Rightarrow> bytes" where
  "schema_text e = schema_entry_text (se_publisher_sub e) (se_file_type e) (se_version e)"

definition schema_shelf :: "schema_env \<Rightarrow> schema_entry shelf" where
  "schema_shelf V = \<lparr>sh_json = mv_schema_json V, sh_key = se_id, sh_text = schema_text, sh_owner = se_publisher_sub,
     sh_hashes = schema_hashes, sh_valid = (\<lambda>e. is_safe_ident (se_file_type e) \<and> is_safe_ident (se_version e))\<rparr>"

lemma safe_ident_no_NUL: "is_safe_ident s \<Longrightarrow> NUL \<notin> set s"
  by (auto simp: is_safe_ident_def alphanumeric_def list_all_iff)

lemma entry_text_inj:
  assumes "entry_text u a b c = entry_text u' a' b' c'"
    and "NUL \<notin> set a" "NUL \<notin> set b" "NUL \<notin> set c" "NUL \<notin> set a'" "NUL \<notin> set b'" "NUL \<notin> set c'"
  shows "u = u' \<and> a = a' \<and> b = b' \<and> c = c'"
proof -
  have last: "x = y \<and> v = w" if "x @ NUL # v = y @ NUL # w" "NUL \<notin> set v" "NUL \<notin> set w" for x y v w :: str
  proof -
    have "rsplit_once NUL (x @ NUL # v) = rsplit_once NUL (y @ NUL # w)" by (rule arg_cong [OF that(1)])
    then show ?thesis unfolding rsplit_once_append [OF that(2)] rsplit_once_append [OF that(3)] by simp
  qed
  have "(u @ NUL # a @ NUL # b) @ NUL # c = (u' @ NUL # a' @ NUL # b') @ NUL # c'" using assms(1) by (simp add: entry_text_def)
  then have c: "u @ NUL # a @ NUL # b = u' @ NUL # a' @ NUL # b'" "c = c'" using last assms(4,7) by blast+
  then have "(u @ NUL # a) @ NUL # b = (u' @ NUL # a') @ NUL # b'" by simp
  then have "u @ NUL # a = u' @ NUL # a'" "b = b'" using last assms(3,6) by blast+
  then show ?thesis using last assms(2,5) c(2) by blast
qed

lemma schema_text_eq: "schema_entry_text u f v = entry_text u ''schema'' f v"
  by (simp add: schema_entry_text_def entry_text_def)

lemma probe_shelf_sel [simp]:
  "sh_json (probe_shelf V) = mv_json V" "sh_key (probe_shelf V) = pe_id" "sh_text (probe_shelf V) = probe_text"
  "sh_owner (probe_shelf V) = pe_publisher_sub" "sh_hashes (probe_shelf V) = probe_hashes"
  by (simp_all add: probe_shelf_def)

lemma probe_valid_iff [simp]:
  "sh_valid (probe_shelf V) e \<longleftrightarrow> is_safe_ident (pe_namespace e) \<and> is_safe_ident (pe_name e) \<and> is_safe_ident (pe_version e)"
  by (simp add: probe_shelf_def)

lemma schema_shelf_sel [simp]:
  "sh_json (schema_shelf V) = mv_schema_json V" "sh_key (schema_shelf V) = se_id" "sh_text (schema_shelf V) = schema_text"
  "sh_owner (schema_shelf V) = se_publisher_sub" "sh_hashes (schema_shelf V) = schema_hashes"
  by (simp_all add: schema_shelf_def)

lemma schema_valid_iff [simp]:
  "sh_valid (schema_shelf V) e \<longleftrightarrow> is_safe_ident (se_file_type e) \<and> is_safe_ident (se_version e)"
  by (simp add: schema_shelf_def)

interpretation probes: owned_shelf "probe_shelf V" for V
proof (unfold_locales, unfold probe_shelf_sel probe_valid_iff probe_text_def)
  fix x y
  assume v: "is_safe_ident (pe_namespace x) \<and> is_safe_ident (pe_name x) \<and> is_safe_ident (pe_version x)"
      "is_safe_ident (pe_namespace y) \<and> is_safe_ident (pe_name y) \<and> is_safe_ident (pe_version y)"
    and eq: "entry_text (pe_publisher_sub x) (pe_namespace x) (pe_name x) (pe_version x) =
      entry_text (pe_publisher_sub y) (pe_namespace y) (pe_name y) (pe_version y)"
  show "pe_publisher_sub x = pe_publisher_sub y" using entry_text_inj [OF eq] v safe_ident_no_NUL by blast
qed

interpretation schemas: owned_shelf "schema_shelf V" for V
proof (unfold_locales, unfold schema_shelf_sel schema_valid_iff schema_text_def schema_text_eq)
  fix x y
  assume v: "is_safe_ident (se_file_type x) \<and> is_safe_ident (se_version x)" "is_safe_ident (se_file_type y) \<and> is_safe_ident (se_version y)"
    and eq: "entry_text (se_publisher_sub x) ''schema'' (se_file_type x) (se_version x) =
      entry_text (se_publisher_sub y) ''schema'' (se_file_type y) (se_version y)"
  have "NUL \<notin> set ''schema''" by simp
  then show "se_publisher_sub x = se_publisher_sub y" using entry_text_inj [OF eq] v safe_ident_no_NUL by blast
qed

section \<open>Requests as steps of a shelf\<close>

definition safe_publication :: "publication \<Rightarrow> bool" where
  "safe_publication p \<longleftrightarrow> is_safe_ident (pb_namespace p) \<and> is_safe_ident (pb_name p) \<and> is_safe_ident (pb_version p)"

definition safe_schema :: "schema_publication \<Rightarrow> bool" where
  "safe_schema q \<longleftrightarrow> is_safe_ident (sb_file_type q) \<and> is_safe_ident (sb_version q)"

lemma publish_check_safe: "publish_check V t hs form c = Inr p \<Longrightarrow> safe_publication p"
  by (auto simp: publish_check_def check_form_def safe_publication_def bind_res_def
      split: sum.splits prod.splits if_splits option.splits)

lemma schema_check_safe: "publish_schema_check V t hs form c = Inr q \<Longrightarrow> safe_schema q"
  by (auto simp: publish_schema_check_def check_schema_form_def validate_schema_toml_def safe_schema_def bind_res_def map_err_def
      split: sum.splits prod.splits if_splits option.splits)

lemma publication_hashes:
  "probe_hashes (probe_of E p wasm t) =
     sha256_hex E ` set ([wasm, pb_manifest p] @ (case pb_readme p of Some b \<Rightarrow> [b] | None \<Rightarrow> []) @ [pb_source p])"
  by (cases "pb_readme p") (simp_all add: probe_hashes_def probe_of_def insert_commute)

lemma schema_publication_hashes:
  "schema_hashes (schema_of E q t) = sha256_hex E ` set (sb_schema q # (case sb_readme q of Some b \<Rightarrow> [b] | None \<Rightarrow> []))"
  by (cases "sb_readme q") (simp_all add: schema_hashes_def schema_of_def insert_commute)

lemma publish_files_map:
  "publish_files E p wasm = map (\<lambda>b. (sha256_hex E b, b))
     ([wasm, pb_manifest p] @ (case pb_readme p of Some b \<Rightarrow> [b] | None \<Rightarrow> []) @ [pb_source p])"
  by (simp add: publish_files_def split: option.split)

lemma schema_files_map:
  "schema_files E q = map (\<lambda>b. (sha256_hex E b, b)) (sb_schema q # (case sb_readme q of Some b \<Rightarrow> [b] | None \<Rightarrow> []))"
  by (simp add: schema_files_def split: option.split)

definition probe_files_held :: "ext \<Rightarrow> blob_files \<Rightarrow> publication \<Rightarrow> bytes \<Rightarrow> bool" where
  "probe_files_held E m p wasm \<longleftrightarrow> (\<forall>h \<in> probe_hashes (probe_of E p wasm 0). held E m h)"

definition schema_files_held :: "ext \<Rightarrow> blob_files \<Rightarrow> schema_publication \<Rightarrow> bool" where
  "schema_files_held E m q \<longleftrightarrow> (\<forall>h \<in> schema_hashes (schema_of E q 0). held E m h)"

lemma publish_store_run:
  assumes "publish_store E io p built m = (r, m')"
  shows "(blobs_step E)\<^sup>*\<^sup>* m m'" and "sha_ok E \<Longrightarrow> blobs_ok E m \<Longrightarrow> r = Inr wasm \<Longrightarrow> probe_files_held E m' p wasm"
proof -
  show "(blobs_step E)\<^sup>*\<^sup>* m m'"
  proof (cases built)
    case (Inr w)
    then obtain r' where "blob_puts io (publish_files E p w) m = (r', m')"
      using assms by (auto simp: publish_store_def split: sum.splits prod.splits)
    then show ?thesis unfolding publish_files_map by (rule blob_puts_run(1))
  qed (use assms in \<open>simp add: publish_store_def\<close>)
  assume ok: "sha_ok E" "blobs_ok E m" "r = Inr wasm"
  then have put: "blob_puts io (publish_files E p wasm) m = (Inr (), m')"
    using assms by (auto simp: publish_store_def split: sum.splits prod.splits)
  note held = blob_puts_run(2) [OF put [unfolded publish_files_map] ok(1,2) refl]
  show "probe_files_held E m' p wasm"
    unfolding probe_files_held_def publication_hashes by (rule ballI) (erule imageE, simp only: held)
qed

lemma schema_store_run:
  assumes "publish_schema_store E io q m = (r, m')"
  shows "(blobs_step E)\<^sup>*\<^sup>* m m'" and "sha_ok E \<Longrightarrow> blobs_ok E m \<Longrightarrow> r = Inr () \<Longrightarrow> schema_files_held E m' q"
proof -
  obtain r' where put: "blob_puts io (schema_files E q) m = (r', m')" "r = Inr () \<Longrightarrow> r' = Inr ()"
    using assms by (auto simp: publish_schema_store_def split: sum.splits prod.splits)
  show "(blobs_step E)\<^sup>*\<^sup>* m m'" by (rule blob_puts_run(1) [OF put(1) [unfolded schema_files_map]])
  assume ok: "sha_ok E" "blobs_ok E m" "r = Inr ()"
  note held = blob_puts_run(2) [OF put(1) [unfolded schema_files_map] ok(1,2) put(2) [OF ok(3)]]
  show "schema_files_held E m' q"
    unfolding schema_files_held_def schema_publication_hashes by (rule ballI) (erule imageE, simp only: held)
qed

lemma patch_readme_run:
  assumes "patch_readme E io r old m = Inr (h, m')" "sha_ok E" "blobs_ok E m" "\<forall>x \<in> set_option old. held E m x"
  shows "(blobs_step E)\<^sup>*\<^sup>* m m'" and "\<forall>x \<in> set_option h. held E m' x"
proof -
  have "(blobs_step E)\<^sup>*\<^sup>* m m' \<and> (\<forall>x \<in> set_option h. held E m' x)"
  proof (cases "r = None \<or> r = Some []")
    case True
    then show ?thesis using assms(1,4) by (auto simp: patch_readme_def)
  next
    case False
    then obtain t where t: "r = Some t" "t \<noteq> []" by auto
    then have "blob_put io (sha256_hex E t) t m = Inr m'" "h = Some (sha256_hex E t)"
      using assms(1) by (auto simp: patch_readme_def split: sum.splits)
    moreover from this have "blobs_step E m m'" by (auto simp: blobs_step_def)
    ultimately show ?thesis using blob_put_held(2) [OF assms(2,3)] by auto
  qed
  then show "(blobs_step E)\<^sup>*\<^sup>* m m'" and "\<forall>x \<in> set_option h. held E m' x" by blast+
qed

lemma own_entryD:
  "own_entry V t hs i c = Inr e \<Longrightarrow> ct_entries c i = Some e \<and> requester V t hs = On_Behalf (pe_publisher_sub e)"
  by (auto simp: own_entry_def requester_def bind_res_def ok_or_def split: sum.splits prod.splits option.splits if_splits)

lemma own_schemaD:
  "own_schema V t hs i c = Inr e \<Longrightarrow> ct_entries c i = Some e \<and> requester V t hs = On_Behalf (se_publisher_sub e)"
  by (auto simp: own_schema_def requester_def bind_res_def ok_or_def split: sum.splits prod.splits option.splits if_splits)

lemma enter_eq: "snd (enter V io e c) = snd (catalog_upsert (mv_json V) pe_id io e c)"
  by (simp add: enter_def split: sum.split prod.split)

lemma enter_schema_eq: "snd (enter_schema V io e c) = snd (catalog_upsert (mv_schema_json V) se_id io e c)"
  by (simp add: enter_schema_def schema_upsert_def schema_flush_def catalog_upsert_def split: sum.split prod.split)

lemma enter_run:
  "entry_held E (probe_shelf V) m e \<Longrightarrow> shelf_run E (probe_shelf V) (c, m) [e] (snd (enter V io e c), m)"
  using shelf_run_one [OF upserted, of E "probe_shelf V" m e c io] by (simp add: enter_eq)

lemma enter_schema_run:
  "entry_held E (schema_shelf V) m e \<Longrightarrow> shelf_run E (schema_shelf V) (c, m) [e] (snd (enter_schema V io e c), m)"
  using shelf_run_one [OF upserted, of E "schema_shelf V" m e c io] by (simp add: enter_schema_eq)

text \<open>Entries put in on behalf of a requester keep the text of an entry that is there.\<close>

definition probe_edits :: "event \<Rightarrow> probe_entry set \<Rightarrow> probe_entry list \<Rightarrow> bool" where
  "probe_edits ev P as \<longleftrightarrow> (\<forall>e \<in> set as. ev = On_Behalf (pe_publisher_sub e) \<and> probe_text e \<in> probe_text ` P)"

definition schema_edits :: "event \<Rightarrow> schema_entry set \<Rightarrow> schema_entry list \<Rightarrow> bool" where
  "schema_edits ev P as \<longleftrightarrow> (\<forall>e \<in> set as. ev = On_Behalf (se_publisher_sub e) \<and> schema_text e \<in> schema_text ` P)"

lemma edits_none [simp]: "probe_edits ev P []" "schema_edits ev Q []"
  by (simp_all add: probe_edits_def schema_edits_def)

lemma own_entry_held:
  assumes "own_entry V t hs i c = Inr e" "shelf_inv E (probe_shelf V) P (c, m)"
  shows "e \<in> P" "entry_held E (probe_shelf V) m e" "requester V t hs = On_Behalf (pe_publisher_sub e)"
  using own_entryD [OF assms(1)] assms(2) entries_heldD [of E "probe_shelf V" P m "ct_entries c" i e] by (auto simp: shelf_inv_def)

lemma own_schema_held:
  assumes "own_schema V t hs i c = Inr e" "shelf_inv E (schema_shelf V) P (c, m)"
  shows "e \<in> P" "entry_held E (schema_shelf V) m e" "requester V t hs = On_Behalf (se_publisher_sub e)"
  using own_schemaD [OF assms(1)] assms(2) entries_heldD [of E "schema_shelf V" P m "ct_entries c" i e] by (auto simp: shelf_inv_def)

lemma patched_held:
  assumes "entry_held E (probe_shelf V) m e" "\<And>h. held E m h \<Longrightarrow> held E m' h" "\<forall>x \<in> set_option h. held E m' x"
  shows "entry_held E (probe_shelf V) m' (e\<lparr>pe_description := d, pe_readme_hash := h\<rparr>)"
  using assms by (auto simp: entry_held_def probe_hashes_def probe_text_def)

lemma schema_patched_held:
  assumes "entry_held E (schema_shelf V) m e" "\<And>h. held E m h \<Longrightarrow> held E m' h" "\<forall>x \<in> set_option h. held E m' x"
  shows "entry_held E (schema_shelf V) m' (e\<lparr>se_description := d, se_readme_hash := h\<rparr>)"
  using assms by (auto simp: entry_held_def schema_hashes_def schema_text_def)

lemma patch_probe_run:
  assumes "patch_probe V io ioc t hs i patch c m = (r, c', m')" "sha_ok (mv_ext V)" "shelf_inv (mv_ext V) (probe_shelf V) P (c, m)"
  shows "(blobs_step (mv_ext V))\<^sup>*\<^sup>* m m' \<and>
    (\<exists>as. shelf_run (mv_ext V) (probe_shelf V) (c, m) as (c', m') \<and> probe_edits (requester V t hs) P as)"
proof (cases "own_entry V t hs i c")
  case (Inl x)
  then show ?thesis using assms(1) by (auto simp: patch_probe_def intro: shelf_none exI [of _ "[]"])
next
  case own: (Inr e)
  note e = own_entry_held [OF own assms(3)]
  show ?thesis
  proof (cases "patch_readme (mv_ext V) io (pp_readme patch) (pe_readme_hash e) m")
    case (Inl x)
    then show ?thesis using own assms(1) by (auto simp: patch_probe_def intro: shelf_none exI [of _ "[]"])
  next
    case (Inr hm)
    obtain h m'' where "hm = (h, m'')" by (cases hm)
    let ?e = "e\<lparr>pe_description := patch_description (pp_description patch) (pe_description e), pe_readme_hash := h\<rparr>"
    have eq: "m'' = m'" "c' = snd (enter V ioc ?e c)" using own Inr \<open>hm = (h, m'')\<close> assms(1)
      by (auto simp: patch_probe_def split: prod.splits)
    have ok: "blobs_ok (mv_ext V) m" using assms(3) by (simp add: shelf_inv_def)
    have old: "\<forall>x \<in> set_option (pe_readme_hash e). held (mv_ext V) m x" using e(2) by (auto simp: entry_held_def probe_hashes_def)
    note patch = patch_readme_run [OF Inr [unfolded \<open>hm = (h, m'')\<close> eq(1)] assms(2) ok old]
    have "entry_held (mv_ext V) (probe_shelf V) m' ?e"
      using patched_held [OF e(2) _ patch(2)] blobs_run_held [OF patch(1) assms(2) ok] by blast
    from shelf_run_trans [OF enter_run [OF this, of c ioc] blobs_run_shelf [OF patch(1)]]
    have "shelf_run (mv_ext V) (probe_shelf V) (c, m) [?e] (c', m')" by (simp add: eq(2))
    moreover have "probe_edits (requester V t hs) P [?e]" using e(1,3) by (auto simp: probe_edits_def probe_text_def)
    ultimately show ?thesis using patch(1) by blast
  qed
qed

lemma patch_schema_run:
  assumes "patch_schema V io ioc t hs i patch c m = (r, c', m')" "sha_ok (mv_ext V)" "shelf_inv (mv_ext V) (schema_shelf V) P (c, m)"
  shows "(blobs_step (mv_ext V))\<^sup>*\<^sup>* m m' \<and>
    (\<exists>as. shelf_run (mv_ext V) (schema_shelf V) (c, m) as (c', m') \<and> schema_edits (requester V t hs) P as)"
proof (cases "own_schema V t hs i c")
  case (Inl x)
  then show ?thesis using assms(1) by (auto simp: patch_schema_def intro: shelf_none exI [of _ "[]"])
next
  case own: (Inr e)
  note e = own_schema_held [OF own assms(3)]
  show ?thesis
  proof (cases "patch_readme (mv_ext V) io (sp_readme patch) (se_readme_hash e) m")
    case (Inl x)
    then show ?thesis using own assms(1) by (auto simp: patch_schema_def intro: shelf_none exI [of _ "[]"])
  next
    case (Inr hm)
    obtain h m'' where "hm = (h, m'')" by (cases hm)
    let ?e = "e\<lparr>se_description := patch_description (sp_description patch) (se_description e), se_readme_hash := h\<rparr>"
    have eq: "m'' = m'" "c' = snd (enter_schema V ioc ?e c)" using own Inr \<open>hm = (h, m'')\<close> assms(1)
      by (auto simp: patch_schema_def split: prod.splits)
    have ok: "blobs_ok (mv_ext V) m" using assms(3) by (simp add: shelf_inv_def)
    have old: "\<forall>x \<in> set_option (se_readme_hash e). held (mv_ext V) m x" using e(2) by (auto simp: entry_held_def schema_hashes_def)
    note patch = patch_readme_run [OF Inr [unfolded \<open>hm = (h, m'')\<close> eq(1)] assms(2) ok old]
    have "entry_held (mv_ext V) (schema_shelf V) m' ?e"
      using schema_patched_held [OF e(2) _ patch(2)] blobs_run_held [OF patch(1) assms(2) ok] by blast
    from shelf_run_trans [OF enter_schema_run [OF this, of c ioc] blobs_run_shelf [OF patch(1)]]
    have "shelf_run (mv_ext V) (schema_shelf V) (c, m) [?e] (c', m')" by (simp add: eq(2))
    moreover have "schema_edits (requester V t hs) P [?e]" using e(1,3) by (auto simp: schema_edits_def schema_text_def)
    ultimately show ?thesis using patch(1) by blast
  qed
qed

lemma yank_probe_run:
  assumes "yank_probe V ioc now_unix hs i c = (r, c')" "shelf_inv E (probe_shelf V) P (c, m)"
  shows "\<exists>as. shelf_run E (probe_shelf V) (c, m) as (c', m) \<and> probe_edits (requester V (int now_unix) hs) P as"
proof (cases "\<exists>e. own_entry V (int now_unix) hs i c = Inr e \<and> pe_yanked_at e = None")
  case True
  then obtain e where own: "own_entry V (int now_unix) hs i c = Inr e" "pe_yanked_at e = None" by blast
  note e = own_entry_held [OF own(1) assms(2)]
  let ?e = "e\<lparr>pe_yanked_at := Some now_unix\<rparr>"
  have "c' = snd (enter V ioc ?e c)" using own assms(1) by (auto simp: yank_probe_def split: prod.splits sum.splits)
  moreover have "entry_held E (probe_shelf V) m ?e" using e(2) by (simp add: entry_held_def probe_hashes_def probe_text_def)
  ultimately have "shelf_run E (probe_shelf V) (c, m) [?e] (c', m)" using enter_run by simp
  moreover have "probe_edits (requester V (int now_unix) hs) P [?e]" using e(1,3) by (auto simp: probe_edits_def probe_text_def)
  ultimately show ?thesis by blast
next
  case False
  then have "c' = c" using assms(1) by (auto simp: yank_probe_def split: sum.splits if_splits)
  then show ?thesis by (auto intro: shelf_none exI [of _ "[]"])
qed

lemma yank_schema_run:
  assumes "yank_schema V ioc now_unix hs i c = (r, c')" "shelf_inv E (schema_shelf V) P (c, m)"
  shows "\<exists>as. shelf_run E (schema_shelf V) (c, m) as (c', m) \<and> schema_edits (requester V (int now_unix) hs) P as"
proof (cases "\<exists>e. own_schema V (int now_unix) hs i c = Inr e \<and> se_yanked_at e = None")
  case True
  then obtain e where own: "own_schema V (int now_unix) hs i c = Inr e" "se_yanked_at e = None" by blast
  note e = own_schema_held [OF own(1) assms(2)]
  let ?e = "e\<lparr>se_yanked_at := Some now_unix\<rparr>"
  have "c' = snd (enter_schema V ioc ?e c)" using own assms(1) by (auto simp: yank_schema_def split: prod.splits sum.splits)
  moreover have "entry_held E (schema_shelf V) m ?e" using e(2) by (simp add: entry_held_def schema_hashes_def schema_text_def)
  ultimately have "shelf_run E (schema_shelf V) (c, m) [?e] (c', m)" using enter_schema_run by simp
  moreover have "schema_edits (requester V (int now_unix) hs) P [?e]" using e(1,3) by (auto simp: schema_edits_def schema_text_def)
  ultimately show ?thesis by blast
next
  case False
  then have "c' = c" using assms(1) by (auto simp: yank_schema_def split: sum.splits if_splits)
  then show ?thesis by (auto intro: shelf_none exI [of _ "[]"])
qed

section \<open>The invariant of the service\<close>

text \<open>Entries of publications that passed the checks, and tasks whose files are stored as far as they went.\<close>

definition pub_text :: "publication \<Rightarrow> bytes" where
  "pub_text p = entry_text (pb_sub p) (pb_namespace p) (pb_name p) (pb_version p)"

definition schema_pub_text :: "schema_publication \<Rightarrow> bytes" where
  "schema_pub_text q = schema_entry_text (sb_sub q) (sb_file_type q) (sb_version q)"

definition known_probes :: "event set \<Rightarrow> probe_entry set" where
  "known_probes T = {e. \<exists>p. Begun p \<in> T \<and> probe_text e = pub_text p}"

definition known_schemas :: "event set \<Rightarrow> schema_entry set" where
  "known_schemas T = {e. \<exists>q. Schema_Begun q \<in> T \<and> schema_text e = schema_pub_text q}"

fun task_ok :: "ext \<Rightarrow> event set \<Rightarrow> blob_files \<Rightarrow> task \<Rightarrow> bool" where
  "task_ok E T m (Checked p) = (Begun p \<in> T \<and> safe_publication p)"
| "task_ok E T m (Stored p wasm) = (Begun p \<in> T \<and> safe_publication p \<and> probe_files_held E m p wasm)"
| "task_ok E T m (Schema_Checked q) = (Schema_Begun q \<in> T \<and> safe_schema q)"
| "task_ok E T m (Schema_Stored q) = (Schema_Begun q \<in> T \<and> safe_schema q \<and> schema_files_held E m q)"

definition market_inv :: "schema_env \<Rightarrow> event set \<Rightarrow> market \<Rightarrow> bool" where
  "market_inv V T s \<longleftrightarrow>
     shelf_inv (mv_ext V) (probe_shelf V) (known_probes T) (mk_probes s, mk_blobs s) \<and>
     shelf_inv (mv_ext V) (schema_shelf V) (known_schemas T) (mk_schemas s, mk_blobs s) \<and>
     (\<forall>t \<in> set (mk_running s). task_ok (mv_ext V) T (mk_blobs s) t)"

text \<open>A step of the service is a run of both shelves, on behalf of the publisher it is labelled with.\<close>

definition market_sim :: "schema_env \<Rightarrow> event set \<Rightarrow> event \<Rightarrow> market \<Rightarrow> market \<Rightarrow> bool" where
  "market_sim V T ev s s' \<longleftrightarrow>
     (\<exists>as. shelf_run (mv_ext V) (probe_shelf V) (mk_probes s, mk_blobs s) as (mk_probes s', mk_blobs s') \<and>
        probe_edits ev (known_probes T) as) \<and>
     (\<exists>bs. shelf_run (mv_ext V) (schema_shelf V) (mk_schemas s, mk_blobs s) bs (mk_schemas s', mk_blobs s') \<and>
        schema_edits ev (known_schemas T) bs) \<and>
     (\<forall>t \<in> set (mk_running s'). task_ok (mv_ext V) (insert ev T) (mk_blobs s') t)"

lemma task_ok_grows:
  assumes "task_ok E T m t" "T \<subseteq> T'" "\<And>h. held E m h \<Longrightarrow> held E m' h"
  shows "task_ok E T' m' t"
  using assms by (cases t) (auto simp: probe_files_held_def schema_files_held_def)

lemma tasks_ok_blobs:
  assumes "market_inv V T s" "(blobs_step (mv_ext V))\<^sup>*\<^sup>* (mk_blobs s) m" "sha_ok (mv_ext V)" "t \<in> set (mk_running s)"
  shows "task_ok (mv_ext V) (insert ev T) m t"
proof (rule task_ok_grows)
  show "task_ok (mv_ext V) T (mk_blobs s) t" using assms(1,4) by (simp add: market_inv_def)
  have "blobs_ok (mv_ext V) (mk_blobs s)" using assms(1) by (simp add: market_inv_def shelf_inv_def)
  then show "held (mv_ext V) (mk_blobs s) h \<Longrightarrow> held (mv_ext V) m h" for h using blobs_run_held [OF assms(2,3)] by blast
qed blast

lemma probe_of_held:
  assumes "safe_publication p" "probe_files_held (mv_ext V) m p wasm"
  shows "entry_held (mv_ext V) (probe_shelf V) m (probe_of (mv_ext V) p wasm now_unix)"
  using assms by (simp add: entry_held_def safe_publication_def probe_files_held_def probe_of_def probe_hashes_def pb_id_def
      entry_id_def probe_text_def)

lemma schema_of_held:
  assumes "safe_schema q" "schema_files_held (mv_ext V) m q"
  shows "entry_held (mv_ext V) (schema_shelf V) m (schema_of (mv_ext V) q now_unix)"
  using assms by (simp add: entry_held_def safe_schema_def schema_files_held_def schema_of_def schema_hashes_def sb_id_def
      schema_entry_id_def schema_text_def)

lemma probe_of_known:
  assumes "Begun p \<in> T"
  shows "probe_edits (On_Behalf (pb_sub p)) (known_probes T) [probe_of E p wasm now_unix]"
proof -
  have e: "probe_text (probe_of E p wasm now_unix) = pub_text p" "pe_publisher_sub (probe_of E p wasm now_unix) = pb_sub p"
    by (simp_all add: probe_of_def probe_text_def pub_text_def)
  then have "probe_of E p wasm now_unix \<in> known_probes T" using assms unfolding known_probes_def by blast
  then show ?thesis using e(2) by (auto simp: probe_edits_def)
qed

lemma schema_of_known:
  assumes "Schema_Begun q \<in> T"
  shows "schema_edits (On_Behalf (sb_sub q)) (known_schemas T) [schema_of E q now_unix]"
proof -
  have e: "schema_text (schema_of E q now_unix) = schema_pub_text q" "se_publisher_sub (schema_of E q now_unix) = sb_sub q"
    by (simp_all add: schema_of_def schema_text_def schema_pub_text_def)
  then have "schema_of E q now_unix \<in> known_schemas T" using assms unfolding known_schemas_def by blast
  then show ?thesis using e(2) by (auto simp: schema_edits_def)
qed

text \<open>A step that changes files and tasks only.\<close>

lemma market_sim_files:
  assumes "market_inv V T s" "(blobs_step (mv_ext V))\<^sup>*\<^sup>* (mk_blobs s) (mk_blobs s')" "sha_ok (mv_ext V)"
    and "mk_probes s' = mk_probes s" "mk_schemas s' = mk_schemas s"
    and "\<forall>t \<in> set (mk_running s'). t \<in> set (mk_running s) \<or> task_ok (mv_ext V) (insert ev T) (mk_blobs s') t"
  shows "market_sim V T ev s s'"
proof (unfold market_sim_def assms(4,5), intro conjI exI)
  show "shelf_run (mv_ext V) (probe_shelf V) (mk_probes s, mk_blobs s) [] (mk_probes s, mk_blobs s')"
    and "shelf_run (mv_ext V) (schema_shelf V) (mk_schemas s, mk_blobs s) [] (mk_schemas s, mk_blobs s')"
    by (rule blobs_run_shelf [OF assms(2)])+
qed (use tasks_ok_blobs [OF assms(1-3)] assms(6) in auto)

text \<open>A step in which one catalog runs and the other sees its files.\<close>

lemma market_sim_probes:
  assumes "market_inv V T s" "(blobs_step (mv_ext V))\<^sup>*\<^sup>* (mk_blobs s) (mk_blobs s')" "sha_ok (mv_ext V)"
    and "\<exists>as. shelf_run (mv_ext V) (probe_shelf V) (mk_probes s, mk_blobs s) as (mk_probes s', mk_blobs s') \<and>
        probe_edits ev (known_probes T) as"
    and "mk_schemas s' = mk_schemas s" "set (mk_running s') \<subseteq> set (mk_running s)"
  shows "market_sim V T ev s s'"
proof (unfold market_sim_def assms(5), intro conjI, rule assms(4), intro exI conjI)
  show "shelf_run (mv_ext V) (schema_shelf V) (mk_schemas s, mk_blobs s) [] (mk_schemas s, mk_blobs s')"
    by (rule blobs_run_shelf [OF assms(2)])
qed (use tasks_ok_blobs [OF assms(1-3)] assms(6) in auto)

lemma market_sim_schemas:
  assumes "market_inv V T s" "(blobs_step (mv_ext V))\<^sup>*\<^sup>* (mk_blobs s) (mk_blobs s')" "sha_ok (mv_ext V)"
    and "\<exists>bs. shelf_run (mv_ext V) (schema_shelf V) (mk_schemas s, mk_blobs s) bs (mk_schemas s', mk_blobs s') \<and>
        schema_edits ev (known_schemas T) bs"
    and "mk_probes s' = mk_probes s" "set (mk_running s') \<subseteq> set (mk_running s)"
  shows "market_sim V T ev s s'"
proof (unfold market_sim_def assms(5), intro conjI, intro exI conjI)
  show "shelf_run (mv_ext V) (probe_shelf V) (mk_probes s, mk_blobs s) [] (mk_probes s, mk_blobs s')"
    by (rule blobs_run_shelf [OF assms(2)])
qed (use tasks_ok_blobs [OF assms(1-3)] assms(4,6) in auto)

lemma market_step_sim:
  assumes "market_step V ev s s'" "market_inv V T s" "sha_ok (mv_ext V)"
  shows "market_sim V T ev s s'"
  using assms(1)
proof cases
  case (publish_begins t hs form p)
  then show ?thesis using publish_check_safe [OF publish_begins(3)] by (intro market_sim_files [OF assms(2) _ assms(3)]) auto
next
  case (schema_begins t hs form q)
  then show ?thesis using schema_check_safe [OF schema_begins(3)] by (intro market_sim_files [OF assms(2) _ assms(3)]) auto
next
  case (publish_stores xs p ys io built r m)
  have p: "Begun p \<in> T" "safe_publication p" "blobs_ok (mv_ext V) (mk_blobs s)"
    using assms(2) publish_stores(3) by (auto simp: market_inv_def shelf_inv_def)
  note run = publish_store_run(1) [OF publish_stores(4)]
  note held = publish_store_run(2) [OF publish_stores(4) assms(3) p(3)]
  show ?thesis by (rule market_sim_files [OF assms(2) _ assms(3)])
    (use publish_stores p run held in \<open>auto split: sum.splits\<close>)
next
  case (schema_stores xs q ys io ru m)
  have q: "Schema_Begun q \<in> T" "safe_schema q" "blobs_ok (mv_ext V) (mk_blobs s)"
    using assms(2) schema_stores(3) by (auto simp: market_inv_def shelf_inv_def)
  note run = schema_store_run(1) [OF schema_stores(4)]
  note held = schema_store_run(2) [OF schema_stores(4) assms(3) q(3)]
  show ?thesis by (rule market_sim_files [OF assms(2) _ assms(3)])
    (use schema_stores q run held in \<open>auto split: sum.splits\<close>)
next
  case (publish_ends xs p wasm ys ioc now_unix r c)
  have p: "Begun p \<in> T" "safe_publication p" "probe_files_held (mv_ext V) (mk_blobs s) p wasm"
    using assms(2) publish_ends(3) by (auto simp: market_inv_def)
  have "c = snd (enter V ioc (probe_of (mv_ext V) p wasm now_unix) (mk_probes s))"
    using publish_ends(4) by (simp add: publish_finish_def)
  then have "\<exists>as. shelf_run (mv_ext V) (probe_shelf V) (mk_probes s, mk_blobs s) as (c, mk_blobs s) \<and> probe_edits ev (known_probes T) as"
    using enter_run [OF probe_of_held [OF p(2,3)]] probe_of_known [OF p(1)] publish_ends(1) by blast
  then show ?thesis using publish_ends by (intro market_sim_probes [OF assms(2) _ assms(3)]) auto
next
  case (schema_ends xs q ys ioc now_unix rs d)
  have q: "Schema_Begun q \<in> T" "safe_schema q" "schema_files_held (mv_ext V) (mk_blobs s) q"
    using assms(2) schema_ends(3) by (auto simp: market_inv_def)
  have "d = snd (enter_schema V ioc (schema_of (mv_ext V) q now_unix) (mk_schemas s))"
    using schema_ends(4) by (simp add: publish_schema_finish_def)
  then have "\<exists>bs. shelf_run (mv_ext V) (schema_shelf V) (mk_schemas s, mk_blobs s) bs (d, mk_blobs s) \<and> schema_edits ev (known_schemas T) bs"
    using enter_schema_run [OF schema_of_held [OF q(2,3)]] schema_of_known [OF q(1)] schema_ends(1) by blast
  then show ?thesis using schema_ends by (intro market_sim_schemas [OF assms(2) _ assms(3)]) auto
next
  case (patched io ioc t hs i patch r c m)
  have "shelf_inv (mv_ext V) (probe_shelf V) (known_probes T) (mk_probes s, mk_blobs s)" using assms(2) by (simp add: market_inv_def)
  from patch_probe_run [OF patched(3) assms(3) this] show ?thesis using patched
    by (intro market_sim_probes [OF assms(2) _ assms(3)]) auto
next
  case (schema_patched io ioc t hs i spatch rs d m)
  have "shelf_inv (mv_ext V) (schema_shelf V) (known_schemas T) (mk_schemas s, mk_blobs s)" using assms(2) by (simp add: market_inv_def)
  from patch_schema_run [OF schema_patched(3) assms(3) this] show ?thesis using schema_patched
    by (intro market_sim_schemas [OF assms(2) _ assms(3)]) auto
next
  case (yanked ioc now_unix hs i r' c)
  have "shelf_inv (mv_ext V) (probe_shelf V) (known_probes T) (mk_probes s, mk_blobs s)" using assms(2) by (simp add: market_inv_def)
  from yank_probe_run [OF yanked(3) this] show ?thesis using yanked
    by (intro market_sim_probes [OF assms(2) _ assms(3)]) auto
next
  case (schema_yanked ioc now_unix hs i r' d)
  have "shelf_inv (mv_ext V) (schema_shelf V) (known_schemas T) (mk_schemas s, mk_blobs s)" using assms(2) by (simp add: market_inv_def)
  from yank_schema_run [OF schema_yanked(3) this] show ?thesis using schema_yanked
    by (intro market_sim_schemas [OF assms(2) _ assms(3)]) auto
next
  case (restarted c d)
  have "shelf_run (mv_ext V) (probe_shelf V) (mk_probes s, mk_blobs s) [] (c, mk_blobs s)"
    by (rule shelf_run_quiet [OF reopened]) (simp add: restarted(3))
  moreover have "shelf_run (mv_ext V) (schema_shelf V) (mk_schemas s, mk_blobs s) [] (d, mk_blobs s)"
    by (rule shelf_run_quiet [OF reopened]) (use restarted(4) in \<open>simp add: schema_catalog_open_def\<close>)
  ultimately show ?thesis using restarted edits_none by (fastforce simp: market_sim_def)
qed

lemma known_mono: "T \<subseteq> T' \<Longrightarrow> known_probes T \<subseteq> known_probes T'" "T \<subseteq> T' \<Longrightarrow> known_schemas T \<subseteq> known_schemas T'"
  by (auto simp: known_probes_def known_schemas_def)

lemma edits_known:
  "probe_edits ev (known_probes T) as \<Longrightarrow> set as \<subseteq> known_probes T"
  "schema_edits ev (known_schemas T) bs \<Longrightarrow> set bs \<subseteq> known_schemas T"
proof -
  have "probe_text x = probe_text e \<Longrightarrow> e \<in> known_probes T \<Longrightarrow> x \<in> known_probes T" for x e by (simp add: known_probes_def)
  then show "probe_edits ev (known_probes T) as \<Longrightarrow> set as \<subseteq> known_probes T" unfolding probe_edits_def by blast
  have "schema_text x = schema_text e \<Longrightarrow> e \<in> known_schemas T \<Longrightarrow> x \<in> known_schemas T" for x e by (simp add: known_schemas_def)
  then show "schema_edits ev (known_schemas T) bs \<Longrightarrow> set bs \<subseteq> known_schemas T" unfolding schema_edits_def by blast
qed

definition market_json_ok :: "schema_env \<Rightarrow> bool" where
  "market_json_ok V \<longleftrightarrow> sha_ok (mv_ext V) \<and> json_ok (mv_json V) \<and> json_ok (mv_schema_json V)"

lemma market_step_inv:
  assumes "market_step V ev s s'" "market_inv V T s" "market_json_ok V"
  shows "market_inv V (insert ev T) s'"
proof -
  have ok: "sha_ok (mv_ext V)" "json_ok (sh_json (probe_shelf V))" "json_ok (sh_json (schema_shelf V))"
    using assms(3) by (simp_all add: market_json_ok_def)
  from market_step_sim [OF assms(1,2) ok(1)] obtain as bs where
    as: "shelf_run (mv_ext V) (probe_shelf V) (mk_probes s, mk_blobs s) as (mk_probes s', mk_blobs s')" "probe_edits ev (known_probes T) as"
    and bs: "shelf_run (mv_ext V) (schema_shelf V) (mk_schemas s, mk_blobs s) bs (mk_schemas s', mk_blobs s')"
      "schema_edits ev (known_schemas T) bs"
    and tasks: "\<forall>t \<in> set (mk_running s'). task_ok (mv_ext V) (insert ev T) (mk_blobs s') t"
    unfolding market_sim_def by blast
  have p: "shelf_inv (mv_ext V) (probe_shelf V) (known_probes T) (mk_probes s, mk_blobs s)"
    and q: "shelf_inv (mv_ext V) (schema_shelf V) (known_schemas T) (mk_schemas s, mk_blobs s)"
    using assms(2) by (simp_all add: market_inv_def)
  have sub: "known_probes T \<union> set as \<subseteq> known_probes (insert ev T)" "known_schemas T \<union> set bs \<subseteq> known_schemas (insert ev T)"
    using edits_known(1) [OF as(2)] edits_known(2) [OF bs(2)] known_mono [OF subset_insertI, of T ev] by blast+
  show ?thesis unfolding market_inv_def
    using shelf_inv_mono [OF shelf_run_inv [OF as(1) ok(1,2) p] sub(1)]
      shelf_inv_mono [OF shelf_run_inv [OF bs(1) ok(1,3) q] sub(2)] tasks by blast
qed

lemma market_run_inv:
  "market_run V s es s' \<Longrightarrow> market_json_ok V \<Longrightarrow> market_inv V T s \<Longrightarrow> market_inv V (T \<union> set es) s'"
proof (induction rule: market_run.induct)
  case (market_more s es s' ev s'')
  then show ?case using market_step_inv [OF market_more(2), of "T \<union> set es"] by simp
qed simp

lemma market_start_inv: "market_inv V {} market_start"
  by (auto simp: market_inv_def market_start_def intro: shelf_inv_mono [OF shelf_start_inv])

lemma started_market_inv: "market_run V market_start es s \<Longrightarrow> market_json_ok V \<Longrightarrow> market_inv V (set es) s"
  using market_run_inv [OF _ _ market_start_inv] by fastforce

text \<open>What publishers may rely on, in one step and in a run.\<close>

lemma probe_settled_step:
  assumes "market_step V ev s s'" "market_inv V T s" "market_json_ok V"
    and "settled (probe_shelf V) i e (mk_probes s)" "ev \<noteq> On_Behalf (pe_publisher_sub e)"
    and "inj_on (sha256 (mv_ext V)) (pub_text ` {p. Begun p \<in> T})"
  shows "settled (probe_shelf V) i e (mk_probes s')"
proof -
  have ok: "sha_ok (mv_ext V)" "json_ok (sh_json (probe_shelf V))" using assms(3) by (simp_all add: market_json_ok_def)
  from market_step_sim [OF assms(1,2) ok(1)] obtain as where
    as: "shelf_run (mv_ext V) (probe_shelf V) (mk_probes s, mk_blobs s) as (mk_probes s', mk_blobs s')" "probe_edits ev (known_probes T) as"
    unfolding market_sim_def by blast
  have inv: "shelf_inv (mv_ext V) (probe_shelf V) (known_probes T) (mk_probes s, mk_blobs s)" using assms(2) by (simp add: market_inv_def)
  have "probe_text ` (known_probes T \<union> set as) \<subseteq> pub_text ` {p. Begun p \<in> T}"
    using edits_known(1) [OF as(2)] by (auto simp: known_probes_def)
  then have "inj_on (sha256 (mv_ext V)) (sh_text (probe_shelf V) ` (known_probes T \<union> set as))"
    using inj_on_subset [OF assms(6)] by simp
  moreover have "\<forall>z \<in> set as. sh_owner (probe_shelf V) z \<noteq> sh_owner (probe_shelf V) e"
    using as(2) assms(5) by (auto simp: probe_edits_def)
  ultimately show ?thesis using probes.settled_run [OF as(1) ok inv] assms(4) by simp
qed

lemma schema_settled_step:
  assumes "market_step V ev s s'" "market_inv V T s" "market_json_ok V"
    and "settled (schema_shelf V) i e (mk_schemas s)" "ev \<noteq> On_Behalf (se_publisher_sub e)"
    and "inj_on (sha256 (mv_ext V)) (schema_pub_text ` {q. Schema_Begun q \<in> T})"
  shows "settled (schema_shelf V) i e (mk_schemas s')"
proof -
  have ok: "sha_ok (mv_ext V)" "json_ok (sh_json (schema_shelf V))" using assms(3) by (simp_all add: market_json_ok_def)
  from market_step_sim [OF assms(1,2) ok(1)] obtain as where
    as: "shelf_run (mv_ext V) (schema_shelf V) (mk_schemas s, mk_blobs s) as (mk_schemas s', mk_blobs s')" "schema_edits ev (known_schemas T) as"
    unfolding market_sim_def by blast
  have inv: "shelf_inv (mv_ext V) (schema_shelf V) (known_schemas T) (mk_schemas s, mk_blobs s)" using assms(2) by (simp add: market_inv_def)
  have "schema_text ` (known_schemas T \<union> set as) \<subseteq> schema_pub_text ` {q. Schema_Begun q \<in> T}"
    using edits_known(2) [OF as(2)] by (auto simp: known_schemas_def)
  then have "inj_on (sha256 (mv_ext V)) (sh_text (schema_shelf V) ` (known_schemas T \<union> set as))"
    using inj_on_subset [OF assms(6)] by simp
  moreover have "\<forall>z \<in> set as. sh_owner (schema_shelf V) z \<noteq> sh_owner (schema_shelf V) e"
    using as(2) assms(5) by (auto simp: schema_edits_def)
  ultimately show ?thesis using schemas.settled_run [OF as(1) ok inv] assms(4) by simp
qed

lemma probe_settled_run:
  assumes "market_run V s es s'" "market_inv V T s" "market_json_ok V"
    and "settled (probe_shelf V) i e (mk_probes s)" "On_Behalf (pe_publisher_sub e) \<notin> set es"
    and "inj_on (sha256 (mv_ext V)) (pub_text ` {p. Begun p \<in> T \<union> set es})"
  shows "settled (probe_shelf V) i e (mk_probes s')"
  using assms
proof (induction rule: market_run.induct)
  case (market_more s es s' ev s'')
  have "inj_on (sha256 (mv_ext V)) (pub_text ` {p. Begun p \<in> T \<union> set es})"
    by (rule inj_on_subset [OF market_more(8)]) auto
  then show ?case
    using market_more market_run_inv [OF market_more(1,5,4)] probe_settled_step [OF market_more(2), of "T \<union> set es"] by auto
qed

lemma enter_settles:
  "enter V io e c = (Inr e', c') \<Longrightarrow> finite (dom (ct_entries c)) \<Longrightarrow> settled (probe_shelf V) (pe_id e) e c' \<and> e' = e"
  by (auto simp: enter_def catalog_upsert_def catalog_flush_def settled_def saved_def split: option.splits sum.splits prod.splits)

text \<open>What a consumer may rely on.\<close>

lemma get_blob_held:
  assumes "ct_entries c i = Some e" "h \<in> probe_hashes e" "held E m h"
  shows "\<exists>b. get_blob (\<lambda>_. None) i h c m = Ok b \<and> sha256_hex E b = h"
proof -
  obtain b where b: "blob_get (\<lambda>_. None) h m = Ok (Some b)" "sha256_hex E b = h" using blob_get_held [OF assms(3)] by blast
  have "get_blob (\<lambda>_. None) i h c m = Ok b" using assms(1,2) b(1) by (auto simp: get_blob_def probe_hashes_def)
  then show ?thesis using b(2) by blast
qed

lemma get_schema_blob_held:
  assumes "ct_entries c i = Some e" "h \<in> schema_hashes e" "held E m h"
  shows "\<exists>b. get_schema_blob (\<lambda>_. None) i h c m = Ok b \<and> sha256_hex E b = h"
proof -
  obtain b where b: "blob_get (\<lambda>_. None) h m = Ok (Some b)" "sha256_hex E b = h" using blob_get_held [OF assms(3)] by blast
  have "get_schema_blob (\<lambda>_. None) i h c m = Ok b" using assms(1,2) b(1) by (auto simp: get_schema_blob_def schema_hashes_def)
  then show ?thesis using b(2) by blast
qed

lemma market_inv_probe:
  assumes "market_inv V T s" "ct_entries (mk_probes s) i = Some e"
  shows "i = entry_id (mv_ext V) (pe_publisher_sub e) (pe_namespace e) (pe_name e) (pe_version e)"
    and "\<forall>h \<in> probe_hashes e. \<exists>b. get_blob (\<lambda>_. None) i h (mk_probes s) (mk_blobs s) = Ok b \<and> sha256_hex (mv_ext V) b = h"
proof -
  have e: "pe_id e = i" "entry_held (mv_ext V) (probe_shelf V) (mk_blobs s) e"
    using assms entries_heldD [of "mv_ext V" "probe_shelf V" "known_probes T" "mk_blobs s" "ct_entries (mk_probes s)" i e]
    by (auto simp: market_inv_def shelf_inv_def)
  show "i = entry_id (mv_ext V) (pe_publisher_sub e) (pe_namespace e) (pe_name e) (pe_version e)"
    using entry_held_key [OF e(2)] e(1) by (simp add: entry_id_def probe_text_def)
  show "\<forall>h \<in> probe_hashes e. \<exists>b. get_blob (\<lambda>_. None) i h (mk_probes s) (mk_blobs s) = Ok b \<and> sha256_hex (mv_ext V) b = h"
    using e(2) get_blob_held [OF assms(2)] by (auto simp: entry_held_def)
qed

lemma market_inv_schema:
  assumes "market_inv V T s" "ct_entries (mk_schemas s) i = Some e"
  shows "i = schema_entry_id (mv_ext V) (se_publisher_sub e) (se_file_type e) (se_version e)"
    and "\<forall>h \<in> schema_hashes e. \<exists>b. get_schema_blob (\<lambda>_. None) i h (mk_schemas s) (mk_blobs s) = Ok b \<and> sha256_hex (mv_ext V) b = h"
proof -
  have e: "se_id e = i" "entry_held (mv_ext V) (schema_shelf V) (mk_blobs s) e"
    using assms entries_heldD [of "mv_ext V" "schema_shelf V" "known_schemas T" "mk_blobs s" "ct_entries (mk_schemas s)" i e]
    by (auto simp: market_inv_def shelf_inv_def)
  show "i = schema_entry_id (mv_ext V) (se_publisher_sub e) (se_file_type e) (se_version e)"
    using entry_held_key [OF e(2)] e(1) by (simp add: schema_entry_id_def schema_text_def)
  show "\<forall>h \<in> schema_hashes e. \<exists>b. get_schema_blob (\<lambda>_. None) i h (mk_schemas s) (mk_blobs s) = Ok b \<and> sha256_hex (mv_ext V) b = h"
    using e(2) get_schema_blob_held [OF assms(2)] by (auto simp: entry_held_def)
qed

section \<open>An example\<close>

lemma probe_entry_numbered:
  "inj (\<lambda>e :: probe_entry. to_nat ((pe_id e, pe_publisher_sub e, pe_namespace e, pe_name e, pe_version e, pe_description e),
     (pe_wasm_hash e, pe_manifest_hash e, pe_readme_hash e, pe_source_hash e, pe_published_at e, pe_yanked_at e, pe_downloads e)))"
  by (rule injI) (simp add: probe_entry.equality)

lemma schema_entry_numbered:
  "inj (\<lambda>e :: schema_entry. to_nat ((se_id e, se_publisher_sub e, se_file_type e, se_version e, se_description e),
     (se_schema_hash e, se_readme_hash e, se_published_at e, se_yanked_at e)))"
  by (rule injI) (simp add: schema_entry.equality)

text \<open>A marketplace without a key, and \<open>u\<close>, who publishes the probe \<open>p\<close>.\<close>

definition toy_market :: schema_env where
  "toy_market = \<lparr>mv_signing = toy_signing, mv_verifier = None, mv_json = toy_json, mv_schema_json = toy_json\<rparr>"

lemma toy_market_ok: "market_json_ok toy_market"
  using toy_json_ok [OF probe_entry_numbered] toy_json_ok [OF schema_entry_numbered]
  by (simp add: market_json_ok_def toy_market_def toy_signing_def)

definition u_context :: tenant_context where
  "u_context = \<lparr>tc_tenant_id = ''a'', tc_quotas_ref = [], tc_exp_unix = 0, tc_sub = Some ''u'', tc_signature = []\<rparr>"

definition u_headers :: headers where
  "u_headers = [(TENANT_CTX_HEADER, case context_encode toy_signing u_context of Inr w \<Rightarrow> w | Inl _ \<Rightarrow> [])]"

lemma u_authed: "require_authed_publisher (mv_signing toy_market) (mv_verifier toy_market) t u_headers = Ok (''a'', ''u'')"
proof -
  obtain w where w: "context_encode toy_signing u_context = Inr w" "hdr_str w = Some w"
    by (simp add: context_encode_def hdr_str_def)
  have ok: "codec_ok (sx_codec toy_signing)" "std64_ok toy_signing" using toy_signing_ok(1) by (simp_all add: signing_ok_def)
  have "decode_unverified toy_signing w = Inr u_context"
    by (rule decode_encode [OF ok _ w(1)]) (simp add: context_ok_def u_context_def is_ascii_def)
  then show ?thesis
    using w by (simp add: require_authed_publisher_def u_headers_def hdr_get_def toy_market_def bind_res_def ok_or_def map_err_def u_context_def)
qed

definition u_form :: "form_field list" where
  "u_form = map (\<lambda>(n, t). \<lparr>fd_name = Some n, fd_text = Some t, fd_bytes = Some t\<rparr>)
     [(''namespace'', ''n''), (''name'', ''p''), (''version'', ''1''), (''source'', ''r''), (''manifest'', ''m'')]"

definition u_publication :: publication where
  "u_publication = \<lparr>pb_sub = ''u'', pb_namespace = ''n'', pb_name = ''p'', pb_version = ''1'', pb_description = None,
     pb_source = ''r'', pb_manifest = ''m'', pb_readme = None\<rparr>"

lemma u_check: "publish_check toy_market t u_headers u_form (mk_probes market_start) = Inr u_publication"
proof -
  have "read_form u_form = \<lparr>pf_namespace = ''n'', pf_name = ''p'', pf_version = ''1'', pf_description = None, pf_manifest = Some ''m'',
      pf_readme = None, pf_source = Some ''r'', pf_got_wasm = False\<rparr>"
    by (simp add: read_form_def u_form_def form_step_def text_or_empty_def)
  moreover have "is_safe_ident ''n''" "is_safe_ident ''p''" "is_safe_ident ''1''"
    by (simp_all add: is_safe_ident_def alphanumeric_def)
  ultimately have "check_form ''u'' (read_form u_form) = Ok u_publication"
    by (simp add: check_form_def u_publication_def is_ascii_def)
  then show ?thesis by (simp add: publish_check_def u_authed market_start_def shelf_start_def bind_res_def)
qed

lemma blob_puts_ok: "fst (blob_puts (\<lambda>_. None) l m) = Ok ()"
  by (induction l arbitrary: m) (auto simp: blob_put_def Let_def split: prod.split)

text \<open>The state in which the files of the publication are stored, and the catalog after it is entered.\<close>

definition u_stored :: "blob_files \<Rightarrow> market" where
  "u_stored m = market_start\<lparr>mk_blobs := m, mk_running := [Stored u_publication ''w'']\<rparr>"

definition u_files :: blob_files where
  "u_files = snd (publish_store (mv_ext toy_market) (\<lambda>_. None) u_publication (Ok ''w'') Map.empty)"

lemma u_stored_run: "market_run toy_market market_start [Begun u_publication, Quiet] (u_stored u_files)"
proof -
  let ?s = "market_start\<lparr>mk_running := mk_running market_start @ [Checked u_publication]\<rparr>"
  have "market_run toy_market market_start [Begun u_publication] ?s"
    using market_more [OF market_idle publish_begins [OF u_check]] by simp
  moreover have "publish_store (mv_ext toy_market) (\<lambda>_. None) u_publication (Ok ''w'') (mk_blobs ?s) = (Ok ''w'', u_files)"
  proof -
    obtain m where "blob_puts (\<lambda>_. None) (publish_files (mv_ext toy_market) u_publication ''w'') Map.empty = (Ok (), m)"
      using blob_puts_ok by (metis prod.collapse)
    then show ?thesis by (simp add: u_files_def publish_store_def market_start_def)
  qed
  then have "market_step toy_market Quiet ?s (u_stored u_files)"
    using publish_stores [of ?s "[]" u_publication "[]"] by (fastforce simp: u_stored_def market_start_def)
  ultimately show ?thesis using market_more by fastforce
qed

lemma u_finish:
  "publish_finish V None now_unix p w shelf_start = (Ok (probe_of (mv_ext V) p w now_unix),
     \<lparr>ct_entries = [pb_id (mv_ext V) p \<mapsto> probe_of (mv_ext V) p w now_unix],
      ct_file = Some (js_write (mv_json V) [pb_id (mv_ext V) p \<mapsto> probe_of (mv_ext V) p w now_unix])\<rparr>)"
  by (simp add: publish_finish_def enter_def catalog_upsert_def catalog_flush_def shelf_start_def probe_of_def)

lemma u_entered:
  "\<exists>s. market_run toy_market market_start [Begun u_publication, Quiet, On_Behalf ''u''] s \<and>
     ct_entries (mk_probes s) (pb_id (mv_ext toy_market) u_publication) = Some (probe_of (mv_ext toy_market) u_publication ''w'' 0)"
proof -
  let ?i = "pb_id (mv_ext toy_market) u_publication" and ?e = "probe_of (mv_ext toy_market) u_publication ''w'' 0"
  obtain c where fin: "publish_finish toy_market None 0 u_publication ''w'' (mk_probes (u_stored u_files)) = (Ok ?e, c)"
      "ct_entries c ?i = Some ?e"
    using u_finish [of toy_market] by (simp add: u_stored_def market_start_def)
  let ?s = "u_stored u_files\<lparr>mk_probes := c, mk_running := []\<rparr>"
  have "market_step toy_market (On_Behalf ''u'') (u_stored u_files) ?s"
    using publish_ends [OF _ fin(1), of "[]" "[]"] by (simp add: u_stored_def u_publication_def)
  then have "market_run toy_market market_start [Begun u_publication, Quiet, On_Behalf ''u''] ?s"
    using market_more [OF u_stored_run] by fastforce
  moreover have "ct_entries (mk_probes ?s) ?i = Some ?e" using fin(2) by simp
  ultimately show ?thesis by blast
qed

section \<open>Properties\<close>

text \<open>
  C20. What the marketplace lists can be fetched. After any requests, in any interleaving
  with publications under way, with any attempts to write that failed and any restarts,
  every entry of either catalog, yanked or not, is filed under the hash of its publisher
  and name, and each file it names is served with content of that hash.
\<close>
theorem market_serves:
  assumes "market_run V market_start es s" "market_json_ok V"
  shows "(\<forall>i e. ct_entries (mk_probes s) i = Some e \<longrightarrow>
       i = entry_id (mv_ext V) (pe_publisher_sub e) (pe_namespace e) (pe_name e) (pe_version e) \<and>
       (\<forall>h \<in> probe_hashes e. \<exists>b. get_blob (\<lambda>_. None) i h (mk_probes s) (mk_blobs s) = Ok b \<and> sha256_hex (mv_ext V) b = h)) \<and>
    (\<forall>i e. ct_entries (mk_schemas s) i = Some e \<longrightarrow>
       i = schema_entry_id (mv_ext V) (se_publisher_sub e) (se_file_type e) (se_version e) \<and>
       (\<forall>h \<in> schema_hashes e. \<exists>b. get_schema_blob (\<lambda>_. None) i h (mk_schemas s) (mk_blobs s) = Ok b \<and> sha256_hex (mv_ext V) b = h))"
  using market_inv_probe [OF started_market_inv [OF assms]] market_inv_schema [OF started_market_inv [OF assms]] by blast

theorem market_serves_witness:
  "\<exists>s e. market_run toy_market market_start [Begun u_publication, Quiet, On_Behalf ''u''] s \<and>
     ct_entries (mk_probes s) (pb_id (mv_ext toy_market) u_publication) = Some e \<and>
     (\<exists>b. get_blob (\<lambda>_. None) (pb_id (mv_ext toy_market) u_publication) (pe_wasm_hash e) (mk_probes s) (mk_blobs s) = Ok b)"
proof -
  obtain s e where run: "market_run toy_market market_start [Begun u_publication, Quiet, On_Behalf ''u''] s"
      "ct_entries (mk_probes s) (pb_id (mv_ext toy_market) u_publication) = Some e"
    using u_entered by blast
  then show ?thesis using market_serves [OF run(1) toy_market_ok] unfolding probe_hashes_def by blast
qed

text \<open>
  C21. A publication that was acknowledged lasts. When the marketplace has answered that a
  probe is published, then, as long as nothing is done on behalf of its publisher, it is
  shown as it was entered and its files are served, whatever other publishers do, whatever
  fails and however often the service restarts. Publications with equal hashes of their
  names are excluded by assumption.
\<close>
theorem acknowledged_stays:
  assumes "market_json_ok V" "market_run V market_start es s" "mk_running s = xs @ Stored p wasm # ys"
    and "publish_finish V ioc now_unix p wasm (mk_probes s) = (Ok e, c)"
    and "market_run V (s\<lparr>mk_probes := c, mk_running := xs @ ys\<rparr>) es' s'" "On_Behalf (pb_sub p) \<notin> set es'"
    and "inj_on (sha256 (mv_ext V)) (pub_text ` {q. Begun q \<in> set (es @ es')})"
  shows "e = probe_of (mv_ext V) p wasm now_unix \<and>
    (\<exists>preview. get_probe (\<lambda>_. None) (pb_id (mv_ext V) p) (mk_probes s') (mk_blobs s') = Ok (e, preview)) \<and>
    (\<forall>h \<in> probe_hashes e. \<exists>b. get_blob (\<lambda>_. None) (pb_id (mv_ext V) p) h (mk_probes s') (mk_blobs s') = Ok b \<and>
       sha256_hex (mv_ext V) b = h)"
proof -
  let ?i = "pb_id (mv_ext V) p" and ?s = "s\<lparr>mk_probes := c, mk_running := xs @ ys\<rparr>"
  have inv: "market_inv V (set es) s" by (rule started_market_inv [OF assms(2,1)])
  then have "finite (dom (ct_entries (mk_probes s)))" using entries_held_finite by (fastforce simp: market_inv_def shelf_inv_def)
  from enter_settles [OF assms(4) [unfolded publish_finish_def] this]
  have e: "e = probe_of (mv_ext V) p wasm now_unix" and set: "settled (probe_shelf V) ?i e (mk_probes ?s)"
    by (simp_all add: probe_of_def)
  have sub: "pe_publisher_sub e = pb_sub p" "pe_yanked_at e = None" by (simp_all add: e probe_of_def)
  have "market_inv V (insert (On_Behalf (pb_sub p)) (set es)) ?s"
    by (rule market_step_inv [OF publish_ends [OF assms(3,4)] inv assms(1)])
  then have inv': "market_inv V (set es \<union> {On_Behalf (pb_sub p)}) ?s" by simp
  have "inj_on (sha256 (mv_ext V)) (pub_text ` {q. Begun q \<in> (set es \<union> {On_Behalf (pb_sub p)}) \<union> set es'})"
    by (rule inj_on_subset [OF assms(7)]) auto
  from probe_settled_run [OF assms(5) inv' assms(1) set _ this] assms(6) sub(1)
  have "ct_entries (mk_probes s') ?i = Some e" by (simp add: settled_def)
  with market_inv_probe(2) [OF market_run_inv [OF assms(5,1) inv'] this] show ?thesis
    using e sub(2) by (auto simp: get_probe_def)
qed

text \<open>A restart after the publication.\<close>

theorem acknowledged_stays_witness:
  "\<exists>s c s'. publish_finish toy_market None 5 u_publication ''w'' (mk_probes s) = (Ok (probe_of (mv_ext toy_market) u_publication ''w'' 5), c) \<and>
     market_run toy_market (s\<lparr>mk_probes := c, mk_running := []\<rparr>) [Quiet] s' \<and>
     (\<exists>preview. get_probe (\<lambda>_. None) (pb_id (mv_ext toy_market) u_publication) (mk_probes s') (mk_blobs s') =
        Ok (probe_of (mv_ext toy_market) u_publication ''w'' 5, preview))"
proof -
  let ?s = "u_stored u_files" and ?E = "mv_ext toy_market"
  let ?e = "probe_of ?E u_publication ''w'' 5" and ?es = "[pb_id (mv_ext toy_market) u_publication \<mapsto> probe_of (mv_ext toy_market) u_publication ''w'' 5]"
  let ?c = "\<lparr>ct_entries = ?es, ct_file = Some (js_write (mv_json toy_market) ?es)\<rparr>"
  let ?t = "?s\<lparr>mk_probes := ?c, mk_running := [] @ []\<rparr>"
  let ?u = "?t\<lparr>mk_probes := ?c, mk_schemas := shelf_start, mk_running := []\<rparr>"
  have fin: "publish_finish toy_market None 5 u_publication ''w'' (mk_probes ?s) = (Ok ?e, ?c)"
    using u_finish by (simp add: u_stored_def market_start_def)
  have "json_ok (mv_json toy_market)" using toy_market_ok by (simp add: market_json_ok_def)
  then have "catalog_open (mv_json toy_market) (ct_file (mk_probes ?t)) = Inr ?c" by (simp add: catalog_open_def bind_res_def json_ok_def)
  moreover have "schema_catalog_open (mv_schema_json toy_market) (ct_file (mk_schemas ?t)) = Inr shelf_start"
    by (simp add: schema_catalog_open_def catalog_open_def bind_res_def u_stored_def market_start_def shelf_start_def)
  ultimately have run: "market_run toy_market ?t [Quiet] ?u"
    using market_more [OF market_idle restarted, of toy_market ?t ?c shelf_start] by simp
  have "{q. Begun q \<in> set ([Begun u_publication, Quiet] @ [Quiet])} = {u_publication}" by auto
  then have inj: "inj_on (sha256 ?E) (pub_text ` {q. Begun q \<in> set ([Begun u_publication, Quiet] @ [Quiet])})" by simp
  have "mk_running ?s = [] @ Stored u_publication ''w'' # []" by (simp add: u_stored_def)
  from acknowledged_stays [OF toy_market_ok u_stored_run this fin run _ inj]
  have "\<exists>preview. get_probe (\<lambda>_. None) (pb_id ?E u_publication) (mk_probes ?u) (mk_blobs ?u) = Ok (?e, preview)" by simp
  moreover have "market_run toy_market (?s\<lparr>mk_probes := ?c, mk_running := []\<rparr>) [Quiet] ?u" using run by simp
  ultimately show ?thesis using fin by blast
qed

end
