(* ===== verification/Omp_Install.thy ===== *)
theory Omp_Install
  imports Omp_Market
begin

text \<open>
  \<open>crates/omp-gateway/src/lib.rs\<close>, \<open>install_from_marketplace\<close>: the gateway fetches the files of
  a published probe and stages them in the repository of the tenant, one upload each. What
  a request to the marketplace or to the shard answers is an argument; an answer of the
  shard may depend on the uploads it got before.
\<close>

section \<open>Requests to other services\<close>

text \<open>What a request gives: no answer, a status of 400 or more, a body that cannot be read, or the body.\<close>

datatype 'a fetched = Unreachable | Bad_Status nat | Unreadable | Fetched 'a

text \<open>The strings of the catalog entry in the answer of the marketplace, where they are strings.\<close>

record listed_entry =
  le_namespace :: "str option"
  le_name :: "str option"
  le_wasm_hash :: "str option"
  le_manifest_hash :: "str option"
  le_readme_hash :: "str option"

record upload =
  up_url :: str
  up_context :: str
  up_path :: str
  up_filename :: str
  up_bytes :: bytes

text \<open>The shard accepts an upload, with a body that is JSON or not, refuses it or gives no answer.\<close>

datatype 'j uploaded = Accepted "'j option" | Rejected nat | Lost

text \<open>The answer to an install that went through.\<close>

record 'j installed =
  in_namespace :: str
  in_name :: str
  in_staged :: "'j list"

section \<open>Installing\<close>

definition str_or_empty :: "str option \<Rightarrow> str" where
  "str_or_empty x = (case x of Some s \<Rightarrow> s | None \<Rightarrow> [])"

text \<open>The files of a probe: their names and hashes.\<close>

definition install_files :: "listed_entry \<Rightarrow> (str \<times> str) list" where
  "install_files e =
     [(''probe.wasm'', str_or_empty (le_wasm_hash e)), (''probe.toml'', str_or_empty (le_manifest_hash e))] @
     (case le_readme_hash e of Some h \<Rightarrow> if h \<noteq> [] then [(''README.md'', h)] else [] | None \<Rightarrow> [])"

definition staged_path :: "listed_entry \<Rightarrow> str \<Rightarrow> str" where
  "staged_path e filename = ''probes/'' @ str_or_empty (le_namespace e) @ ''/'' @ str_or_empty (le_name e) @ ''/'' @ filename"

text \<open>The answer and the uploads that were sent, with the bodies the shard answered.\<close>

fun stage_blobs ::
  "(str \<Rightarrow> bytes fetched) \<Rightarrow> (upload list \<Rightarrow> upload \<Rightarrow> 'j uploaded) \<Rightarrow> (str \<Rightarrow> bytes \<Rightarrow> upload) \<Rightarrow> (str \<times> str) list \<Rightarrow>
   upload list \<Rightarrow> 'j list \<Rightarrow> (refusal + 'j list) \<times> upload list"
where
  "stage_blobs blob shard mk [] sent staged = (Ok staged, sent)"
| "stage_blobs blob shard mk ((filename, h) # fs) sent staged =
     (case blob h of
        Unreachable \<Rightarrow> (Err (502, ''blob_unreachable''), sent)
      | Bad_Status _ \<Rightarrow> (Err (502, ''blob_status''), sent)
      | Unreadable \<Rightarrow> (Err (502, ''blob_read''), sent)
      | Fetched bytes \<Rightarrow>
          (let u = mk filename bytes in
           case shard sent u of
             Lost \<Rightarrow> (Err (502, ''shard_unreachable''), sent @ [u])
           | Rejected _ \<Rightarrow> (Err (502, ''shard_stage''), sent @ [u])
           | Accepted j \<Rightarrow> stage_blobs blob shard mk fs (sent @ [u]) (staged @ (case j of Some x \<Rightarrow> [x] | None \<Rightarrow> []))))"

definition install_entry ::
  "signing \<Rightarrow> gateway \<Rightarrow> principal \<Rightarrow> nat \<Rightarrow> str \<Rightarrow> (str \<Rightarrow> bytes fetched) \<Rightarrow> (upload list \<Rightarrow> upload \<Rightarrow> 'j uploaded) \<Rightarrow> listed_entry \<Rightarrow>
   (refusal + 'j installed) \<times> upload list"
where
  "install_entry G gw p now_unix shard_base blob shard e =
     (if str_or_empty (le_namespace e) = [] \<or> str_or_empty (le_name e) = [] \<or>
         str_or_empty (le_wasm_hash e) = [] \<or> str_or_empty (le_manifest_hash e) = []
      then (Err (502, ''marketplace_shape''), [])
      else (case issue_default_with_sub G (gw_key gw) (int now_unix) (pr_tenant p) [] (pr_sub p) of
              Inl _ \<Rightarrow> (Err (500, ''ctx_sign''), [])
            | Inr c \<Rightarrow>
                (case context_encode G c of
                   Inl _ \<Rightarrow> (Err (500, ''ctx_encode''), [])
                 | Inr ctx \<Rightarrow>
                     (case stage_blobs blob shard
                         (\<lambda>filename bytes. \<lparr>up_url = shard_base @ ''/files'', up_context = ctx, up_path = staged_path e filename,
                                            up_filename = filename, up_bytes = bytes\<rparr>)
                         (install_files e) [] [] of (r, us) \<Rightarrow>
                       (bind_res r (\<lambda>staged. Ok \<lparr>in_namespace = str_or_empty (le_namespace e), in_name = str_or_empty (le_name e),
                          in_staged = staged\<rparr>), us)))))"

definition install_from_marketplace ::
  "signing \<Rightarrow> gateway \<Rightarrow> (str \<Rightarrow> str option) \<Rightarrow> headers \<Rightarrow> nat \<Rightarrow> validation_cache \<Rightarrow> (str \<Rightarrow> listed_entry option fetched) \<Rightarrow>
   (str \<Rightarrow> bytes fetched) \<Rightarrow> (upload list \<Rightarrow> upload \<Rightarrow> 'j uploaded) \<Rightarrow> str \<Rightarrow>
   ((refusal + 'j installed) \<times> upload list) \<times> validation_cache"
where
  "install_from_marketplace G gw validate_api_key hs now_unix m entry_at blob_at shard i =
     (case resolve_principal_async G gw validate_api_key hs now_unix m of
        (None, m') \<Rightarrow> ((Err (401, ''unauthorized''), []), m')
      | (Some p, m') \<Rightarrow>
          (case gc_marketplace (gw_config gw) of
             None \<Rightarrow> ((Err (503, ''marketplace_unavailable''), []), m')
           | Some url \<Rightarrow>
               (case shard_for G (gw_config gw) (pr_tenant p) of
                  None \<Rightarrow> ((Err (503, ''no_shards''), []), m')
                | Some base \<Rightarrow>
                    (let probe_url = trim_end_matches (CHR ''/'') url @ ''/marketplace/probes/'' @ i in
                     (case entry_at probe_url of
                        Unreachable \<Rightarrow> (Err (502, ''marketplace_unreachable''), [])
                      | Bad_Status st \<Rightarrow> (Err (502, if st = 404 then ''not_found'' else ''marketplace_status''), [])
                      | Unreadable \<Rightarrow> (Err (502, ''marketplace_decode''), [])
                      | Fetched None \<Rightarrow> (Err (502, ''marketplace_shape''), [])
                      | Fetched (Some e) \<Rightarrow>
                          install_entry G gw p now_unix (trim_end_matches (CHR ''/'') base)
                            (\<lambda>h. blob_at (probe_url @ ''/blobs/'' @ h)) shard e, m')))))"

section \<open>The marketplace at the other end\<close>

text \<open>What the gateway reads of the answers of the marketplace.\<close>

definition listed_of :: "probe_entry \<Rightarrow> listed_entry" where
  "listed_of e = \<lparr>le_namespace = Some (pe_namespace e), le_name = Some (pe_name e), le_wasm_hash = Some (pe_wasm_hash e),
     le_manifest_hash = Some (pe_manifest_hash e), le_readme_hash = pe_readme_hash e\<rparr>"

definition fetched_of :: "('a \<Rightarrow> 'b) \<Rightarrow> refusal + 'a \<Rightarrow> 'b fetched" where
  "fetched_of f r = (case r of Inr x \<Rightarrow> Fetched (f x) | Inl (st, _) \<Rightarrow> Bad_Status st)"

text \<open>The requests for the probe \<open>i\<close> reach a marketplace that is in one state while they are made.\<close>

definition reaches_market ::
  "str \<Rightarrow> market \<Rightarrow> str \<Rightarrow> (str \<Rightarrow> listed_entry option fetched) \<Rightarrow> (str \<Rightarrow> bytes fetched) \<Rightarrow> bool"
where
  "reaches_market url s i entry_at blob_at \<longleftrightarrow>
     (let probe_url = trim_end_matches (CHR ''/'') url @ ''/marketplace/probes/'' @ i in
      entry_at probe_url = fetched_of (\<lambda>(e, _). Some (listed_of e)) (get_probe (\<lambda>_. None) i (mk_probes s) (mk_blobs s)) \<and>
      (\<forall>h. blob_at (probe_url @ ''/blobs/'' @ h) = fetched_of id (get_blob (\<lambda>_. None) i h (mk_probes s) (mk_blobs s))))"

fun accepted :: "'j uploaded \<Rightarrow> bool" where
  "accepted (Accepted _) = True"
| "accepted _ = False"

text \<open>The bodies that the shard answered to a run of uploads it accepted, where they were JSON.\<close>

definition answers_of :: "(upload list \<Rightarrow> upload \<Rightarrow> 'j uploaded) \<Rightarrow> upload list \<Rightarrow> upload list \<Rightarrow> 'j list" where
  "answers_of shard sent us =
     concat (map (\<lambda>k. case shard (sent @ take k us) (us ! k) of Accepted (Some j) \<Rightarrow> [j] | _ \<Rightarrow> []) [0..<length us])"

text \<open>
  What a run of uploads is: one upload for each file of a prefix of the files. A success has
  all files, each accepted, and the answers in their order; a failure has the last upload
  refused or lost, says which, and every upload before it accepted.
\<close>

definition staging_of ::
  "(upload list \<Rightarrow> upload \<Rightarrow> 'j uploaded) \<Rightarrow> (str \<times> str \<Rightarrow> upload \<Rightarrow> bool) \<Rightarrow> (str \<times> str) list \<Rightarrow> refusal + 'j list \<Rightarrow>
   upload list \<Rightarrow> upload list \<Rightarrow> bool"
where
  "staging_of shard ok fs r sent us \<longleftrightarrow>
     length us \<le> length fs \<and> list_all2 ok (take (length us) fs) us \<and>
     (case r of
        Inr js \<Rightarrow> length us = length fs \<and> (\<forall>k < length us. accepted (shard (sent @ take k us) (us ! k))) \<and> js = answers_of shard sent us
      | Inl x \<Rightarrow> (\<exists>vs u. us = vs @ [u] \<and> (\<forall>k < length vs. accepted (shard (sent @ take k vs) (vs ! k))) \<and>
          (case shard (sent @ vs) u of
             Accepted _ \<Rightarrow> False
           | Rejected _ \<Rightarrow> x = (502, ''shard_stage'')
           | Lost \<Rightarrow> x = (502, ''shard_unreachable''))))"

definition body_of :: "'j uploaded \<Rightarrow> 'j list" where
  "body_of a = (case a of Accepted (Some j) \<Rightarrow> [j] | _ \<Rightarrow> [])"

lemma answers_of_Cons: "answers_of shard sent (u # us) = body_of (shard sent u) @ answers_of shard (sent @ [u]) us"
proof -
  have "[0..<length (u # us)] = 0 # map Suc [0..<length us]" by (simp add: map_Suc_upt upt_conv_Cons del: upt_Suc)
  then show ?thesis by (simp add: answers_of_def body_of_def comp_def)
qed

lemma staging_more:
  assumes "staging_of shard ok fs r (sent @ [u]) us" "ok f u" "accepted (shard sent u)"
  shows "staging_of shard ok (f # fs) (bind_res r (\<lambda>js. Ok (body_of (shard sent u) @ js))) sent (u # us)"
proof -
  have shift: "(\<forall>k < length (u # vs). accepted (shard (sent @ take k (u # vs)) ((u # vs) ! k)))"
    if "\<forall>k < length vs. accepted (shard ((sent @ [u]) @ take k vs) (vs ! k))" for vs
    using that assms(3) by (auto simp: nth_Cons less_Suc_eq_0_disj split: nat.split)
  show ?thesis
  proof (cases r)
    case (Inr j)
    then show ?thesis using assms(1,2) shift [of us] by (auto simp: staging_of_def answers_of_Cons)
  next
    case (Inl x)
    then obtain vs v where vs: "us = vs @ [v]" "\<forall>k < length vs. accepted (shard ((sent @ [u]) @ take k vs) (vs ! k))"
        "case shard ((sent @ [u]) @ vs) v of Accepted _ \<Rightarrow> False | Rejected _ \<Rightarrow> x = (502, ''shard_stage'')
         | Lost \<Rightarrow> x = (502, ''shard_unreachable'')"
      using assms(1) by (auto simp: staging_of_def)
    have "\<exists>ws w. u # us = ws @ [w] \<and> (\<forall>k < length ws. accepted (shard (sent @ take k ws) (ws ! k))) \<and>
        (case shard (sent @ ws) w of Accepted _ \<Rightarrow> False | Rejected _ \<Rightarrow> x = (502, ''shard_stage'')
         | Lost \<Rightarrow> x = (502, ''shard_unreachable''))"
      by (rule exI [of _ "u # vs"], rule exI [of _ v]) (use vs shift [OF vs(2)] in simp)
    then show ?thesis using assms(1,2) Inl by (simp add: staging_of_def)
  qed
qed

lemma stage_blobs_staging:
  assumes "\<forall>(n, h) \<in> set fs. \<exists>b. blob h = Fetched b \<and> ok (n, h) (mk n b)"
    and "stage_blobs blob shard mk fs sent staged = (r, us)"
  shows "\<exists>vs r'. us = sent @ vs \<and> staging_of shard ok fs r' sent vs \<and> r = bind_res r' (\<lambda>js. Ok (staged @ js))"
  using assms
proof (induction fs arbitrary: sent staged)
  case Nil
  then show ?case by (intro exI [of _ "[]"] exI [of _ "Inr []"]) (auto simp: staging_of_def answers_of_def)
next
  case (Cons f fs)
  obtain n h where f: "f = (n, h)" by fastforce
  obtain b where b: "blob h = Fetched b" "ok f (mk n b)" using Cons.prems(1) f by auto
  let ?u = "mk n b"
  show ?case
  proof (cases "shard sent ?u")
    case (Accepted j)
    have j: "(case j of Some x \<Rightarrow> [x] | None \<Rightarrow> []) = body_of (shard sent ?u)" using Accepted by (simp add: body_of_def split: option.split)
    have "stage_blobs blob shard mk fs (sent @ [?u]) (staged @ body_of (shard sent ?u)) = (r, us)"
      using Cons.prems(2) Accepted b(1) j by (simp add: f)
    with Cons.IH [OF _ this] Cons.prems(1) obtain vs r' where vs: "us = (sent @ [?u]) @ vs" "staging_of shard ok fs r' (sent @ [?u]) vs"
        "r = bind_res r' (\<lambda>js. Ok ((staged @ body_of (shard sent ?u)) @ js))"
      by auto
    have "staging_of shard ok (f # fs) (bind_res r' (\<lambda>js. Ok (body_of (shard sent ?u) @ js))) sent (?u # vs)"
      using staging_more [OF vs(2) b(2)] Accepted by simp
    moreover have "r = bind_res (bind_res r' (\<lambda>js. Ok (body_of (shard sent ?u) @ js))) (\<lambda>js. Ok (staged @ js))"
      using vs(3) by (cases r') simp_all
    ultimately show ?thesis using vs(1) by (metis append.assoc append_Cons append_Nil)
  next
    case (Rejected st)
    then have "r = Inl (502, ''shard_stage'')" "us = sent @ [?u]" using Cons.prems(2) b by (auto simp: f)
    then show ?thesis using Rejected b(2)
      by (intro exI [of _ "[?u]"] exI [of _ "Inl (502, ''shard_stage'')"]) (auto simp: staging_of_def intro: exI [of _ "[]"])
  next
    case Lost
    then have "r = Inl (502, ''shard_unreachable'')" "us = sent @ [?u]" using Cons.prems(2) b by (auto simp: f)
    then show ?thesis using Lost b(2)
      by (intro exI [of _ "[?u]"] exI [of _ "Inl (502, ''shard_unreachable'')"]) (auto simp: staging_of_def intro: exI [of _ "[]"])
  qed
qed

section \<open>What is installed\<close>

text \<open>A context that every service takes as a statement of the principal until it expires.\<close>

definition speaks_for :: "signing \<Rightarrow> gateway \<Rightarrow> principal \<Rightarrow> nat \<Rightarrow> str \<Rightarrow> bool" where
  "speaks_for G gw p t wire \<longleftrightarrow> (\<exists>c. tc_tenant_id c = pr_tenant p \<and> tc_sub c = pr_sub p \<and>
     (\<forall>t'. verify_at G wire (ed_public G (gw_key gw)) t' =
        (if int t + 30 < t' then Inl (CtxExpired (int t + 30) t') else Inr c)))"

lemma issued_speaks_for:
  assumes "signing_ok G" "int t + 30 < 2 ^ 63" "utf8_valid (pr_tenant p)" "\<forall>u. pr_sub p = Some u \<longrightarrow> utf8_valid u"
    and "issue_default_with_sub G (gw_key gw) (int t) (pr_tenant p) [] (pr_sub p) = Inr c" "context_encode G c = Inr wire"
  shows "speaks_for G gw p t wire"
proof -
  have fields: "tc_tenant_id c = pr_tenant p" "tc_sub c = pr_sub p" "tc_exp_unix c = int t + 30"
    using assms(5)
    by (auto simp: issue_default_with_sub_def issue_with_sub_def canonical_signed_bytes_def Let_def
        DEFAULT_EXTRA_LIFETIME_SECS_def split: if_splits)
  then have "context_ok c" using assms(2-4) by (auto simp: context_ok_def)
  from issue_encode_verify [OF assms(1) assms(5) [unfolded issue_default_with_sub_def] assms(6) this]
  show ?thesis using fields by (auto simp: speaks_for_def DEFAULT_EXTRA_LIFETIME_SECS_def)
qed

lemma get_probe_entry: "get_probe io i c m = Ok (e, preview) \<Longrightarrow> ct_entries c i = Some e"
  by (auto simp: get_probe_def split: option.splits if_splits)

lemma sha256_hex_not_Nil: "sha_ok E \<Longrightarrow> sha256_hex E b \<noteq> []"
  using sha256_hex_length [of E b] by (cases "sha256_hex E b") auto

text \<open>An entry of the catalog is complete, and its files are served with the content they were entered for.\<close>

lemma market_entry:
  assumes "market_inv V T s" "sha_ok (mv_ext V)" "ct_entries (mk_probes s) i = Some e"
  shows "pe_namespace e \<noteq> []" "pe_name e \<noteq> []"
    and "h \<in> probe_hashes e \<Longrightarrow> h \<noteq> [] \<and> (\<exists>b. get_blob (\<lambda>_. None) i h (mk_probes s) (mk_blobs s) = Ok b \<and> sha256_hex (mv_ext V) b = h)"
proof -
  have "sh_valid (probe_shelf V) e"
    using assms(1,3) entries_heldD [of "mv_ext V" "probe_shelf V" "known_probes T" "mk_blobs s" "ct_entries (mk_probes s)" i e]
    by (auto simp: market_inv_def shelf_inv_def entry_held_def)
  then show "pe_namespace e \<noteq> []" "pe_name e \<noteq> []" by (auto simp: is_safe_ident_def)
  assume "h \<in> probe_hashes e"
  then obtain b where b: "get_blob (\<lambda>_. None) i h (mk_probes s) (mk_blobs s) = Ok b" "sha256_hex (mv_ext V) b = h"
    using market_inv_probe(2) [OF assms(1,3)] by blast
  then show "h \<noteq> [] \<and> (\<exists>b. get_blob (\<lambda>_. None) i h (mk_probes s) (mk_blobs s) = Ok b \<and> sha256_hex (mv_ext V) b = h)"
    using sha256_hex_not_Nil [OF assms(2), of b] by metis
qed

definition probe_files :: "probe_entry \<Rightarrow> (str \<times> str) list" where
  "probe_files e = [(''probe.wasm'', pe_wasm_hash e), (''probe.toml'', pe_manifest_hash e)] @
     (case pe_readme_hash e of Some h \<Rightarrow> [(''README.md'', h)] | None \<Rightarrow> [])"

lemma install_files_listed: "(\<And>h. h \<in> probe_hashes e \<Longrightarrow> h \<noteq> []) \<Longrightarrow> install_files (listed_of e) = probe_files e"
  by (auto simp: install_files_def listed_of_def probe_files_def str_or_empty_def probe_hashes_def split: option.splits)

lemma probe_files_hashes: "(n, h) \<in> set (probe_files e) \<Longrightarrow> h \<in> probe_hashes e"
  by (auto simp: probe_files_def probe_hashes_def split: option.splits)

text \<open>One upload of an install: where it goes, its place there, its content and in whose name.\<close>

definition delivers :: "ext \<Rightarrow> str \<Rightarrow> (str \<Rightarrow> bool) \<Rightarrow> probe_entry \<Rightarrow> str \<times> str \<Rightarrow> upload \<Rightarrow> bool" where
  "delivers E url ctx_ok e f u \<longleftrightarrow> up_url u = url \<and> up_path u = ''probes/'' @ pe_namespace e @ ''/'' @ pe_name e @ ''/'' @ fst f \<and>
     up_filename u = fst f \<and> sha256_hex E (up_bytes u) = snd f \<and> ctx_ok (up_context u)"

lemma install_entry_delivers:
  assumes "market_inv V T s" "sha_ok (mv_ext V)" "ct_entries (mk_probes s) i = Some e"
    and "signing_ok G" "int t + 30 < 2 ^ 63" "pr_tenant p \<noteq> []" "utf8_valid (pr_tenant p)" "\<forall>u. pr_sub p = Some u \<longrightarrow> utf8_valid u"
    and "\<And>h. blob h = fetched_of id (get_blob (\<lambda>_. None) i h (mk_probes s) (mk_blobs s))"
    and "install_entry G gw p t base blob shard (listed_of e) = (r, us)"
  shows "\<exists>r'. staging_of shard (delivers (mv_ext V) (base @ ''/files'') (speaks_for G gw p t) e) (probe_files e) r' [] us \<and>
    r = bind_res r' (\<lambda>js. Ok \<lparr>in_namespace = pe_namespace e, in_name = pe_name e, in_staged = js\<rparr>)"
proof -
  note entry = market_entry [OF assms(1-3)]
  obtain c where c: "issue_default_with_sub G (gw_key gw) (int t) (pr_tenant p) [] (pr_sub p) = Inr c"
    using assms(6) by (simp add: issue_default_with_sub_def issue_with_sub_def canonical_signed_bytes_def Let_def)
  obtain ctx where ctx: "context_encode G c = Inr ctx" by (simp add: context_encode_def)
  have speaks: "speaks_for G gw p t ctx" by (rule issued_speaks_for [OF assms(4,5,7,8) c ctx])
  let ?mk = "\<lambda>n b. \<lparr>up_url = base @ ''/files'', up_context = ctx, up_path = staged_path (listed_of e) n, up_filename = n, up_bytes = b\<rparr>"
  have named: "pe_wasm_hash e \<noteq> []" "pe_manifest_hash e \<noteq> []" using entry(3) by (auto simp: probe_hashes_def)
  have files: "install_files (listed_of e) = probe_files e" by (rule install_files_listed) (use entry(3) in blast)
  obtain r1 where run: "stage_blobs blob shard ?mk (probe_files e) [] [] = (r1, us)"
      "r = bind_res r1 (\<lambda>js. Ok \<lparr>in_namespace = pe_namespace e, in_name = pe_name e, in_staged = js\<rparr>)"
    using assms(10) entry(1,2) named c ctx files
    by (auto simp: install_entry_def listed_of_def str_or_empty_def split: prod.splits)
  have "\<forall>(n, h) \<in> set (probe_files e). \<exists>b. blob h = Fetched b \<and> delivers (mv_ext V) (base @ ''/files'') (speaks_for G gw p t) e (n, h) (?mk n b)"
  proof clarify
    fix n h assume "(n, h) \<in> set (probe_files e)"
    then obtain b where b: "get_blob (\<lambda>_. None) i h (mk_probes s) (mk_blobs s) = Ok b" "sha256_hex (mv_ext V) b = h"
      using entry(3) [OF probe_files_hashes] by blast
    then have "blob h = Fetched b" using assms(9) [of h] by (simp add: fetched_of_def)
    then show "\<exists>b. blob h = Fetched b \<and> delivers (mv_ext V) (base @ ''/files'') (speaks_for G gw p t) e (n, h) (?mk n b)"
      using b(2) speaks by (simp add: delivers_def staged_path_def listed_of_def str_or_empty_def)
  qed
  from stage_blobs_staging [where ok = "delivers (mv_ext V) (base @ ''/files'') (speaks_for G gw p t) e", OF this run(1)]
  obtain r' where r': "staging_of shard (delivers (mv_ext V) (base @ ''/files'') (speaks_for G gw p t) e) (probe_files e) r' [] us"
      "r1 = bind_res r' (\<lambda>js. Ok ([] @ js))" by auto
  then have "r1 = r'" by (cases r') simp_all
  then show ?thesis using r'(1) run(2) by blast
qed

end
