(* ===== verification/Omp_Login.thy ===== *)
theory Omp_Login
  imports Omp_Gateway
begin

text \<open>
  \<open>crates/omp-gateway/src/auth.rs\<close>: logging in at an identity provider. The gateway keeps no
  state: what it must remember between the redirect to the provider and the return from it
  is in a signed cookie, and so is the session that comes of it.

  The provider is a parameter: what its endpoints answer, and whether it still knows a
  session. Random strings and the clock are arguments. The \<open>url\<close>
  crate, which appends the query to an endpoint, is a parameter as well.
\<close>

section \<open>Configuration\<close>

datatype auth_provider = Workos | Oidc

record workos_config =
  wc_client_id :: str
  wc_client_secret :: str
  wc_issuer_url :: str
  wc_redirect_uri :: str
  wc_session_ttl_seconds :: nat
  wc_refresh_grace_seconds :: nat
  wc_validation_cache_ttl_seconds :: nat

record oidc_runtime =
  oi_provider :: auth_provider
  oi_config :: workos_config
  oi_authorization_endpoint :: str
  oi_token_endpoint :: str
  oi_userinfo_endpoint :: str
  oi_end_session_endpoint :: "str option"

abbreviation oi_client_id :: "oidc_runtime \<Rightarrow> str" where "oi_client_id oi \<equiv> wc_client_id (oi_config oi)"
abbreviation oi_client_secret :: "oidc_runtime \<Rightarrow> str" where "oi_client_secret oi \<equiv> wc_client_secret (oi_config oi)"
abbreviation oi_redirect_uri :: "oidc_runtime \<Rightarrow> str" where "oi_redirect_uri oi \<equiv> wc_redirect_uri (oi_config oi)"
abbreviation oi_session_ttl :: "oidc_runtime \<Rightarrow> nat" where "oi_session_ttl oi \<equiv> wc_session_ttl_seconds (oi_config oi)"
abbreviation oi_refresh_grace :: "oidc_runtime \<Rightarrow> nat" where "oi_refresh_grace oi \<equiv> wc_refresh_grace_seconds (oi_config oi)"

text \<open>What a request to the provider gives: no reply, or a status and a text.\<close>

datatype reply = No_reply str | Reply nat str

text \<open>\<open>error_for_status\<close> and the reading of a body; \<open>w\<close> is what was asked for. A status is shown without its phrase.\<close>

definition reply_json :: "str \<Rightarrow> (str \<Rightarrow> str + 'a) \<Rightarrow> reply \<Rightarrow> str + 'a" where
  "reply_json w read r =
     (case r of
        No_reply e \<Rightarrow> Err (w @ ''_send: '' @ e)
      | Reply st t \<Rightarrow>
          if 400 \<le> st \<and> st < 600 then Err (w @ ''_status: '' @ show_nat st) else map_err (\<lambda>e. w @ ''_json: '' @ e) (read t))"

text \<open>The other way the code reads a body: any status but success is an error.\<close>

definition success_json :: "str \<Rightarrow> (str \<Rightarrow> str + 'a) \<Rightarrow> reply \<Rightarrow> str + 'a" where
  "success_json w read r =
     (case r of
        No_reply e \<Rightarrow> Err (w @ ''_send: '' @ e)
      | Reply st t \<Rightarrow>
          if \<not> (200 \<le> st \<and> st < 300) then Err (w @ ''_status '' @ show_nat st @ '': '' @ t) else map_err (\<lambda>e. w @ ''_json: '' @ e) (read t))"

record discovery_document =
  dd_authorization_endpoint :: str
  dd_token_endpoint :: str
  dd_userinfo_endpoint :: str
  dd_end_session_endpoint :: "str option"

definition discover :: "(str \<Rightarrow> reply) \<Rightarrow> (str \<Rightarrow> str + discovery_document) \<Rightarrow> workos_config \<Rightarrow> str + oidc_runtime" where
  "discover get read config =
     (let trimmed = trim_end_matches (CHR ''/'') (wc_issuer_url config) in
      if trimmed = ''https://api.workos.com'' then
        Ok \<lparr>oi_provider = Workos, oi_config = config,
            oi_authorization_endpoint = ''https://api.workos.com/user_management/authorize'',
            oi_token_endpoint = ''https://api.workos.com/user_management/authenticate'', oi_userinfo_endpoint = [],
            oi_end_session_endpoint = Some ''https://api.workos.com/user_management/sessions/logout''\<rparr>
      else bind_res (reply_json ''discovery'' read (get (trimmed @ ''/.well-known/openid-configuration''))) (\<lambda>doc.
        Ok \<lparr>oi_provider = Oidc, oi_config = config, oi_authorization_endpoint = dd_authorization_endpoint doc,
            oi_token_endpoint = dd_token_endpoint doc, oi_userinfo_endpoint = dd_userinfo_endpoint doc,
            oi_end_session_endpoint = dd_end_session_endpoint doc\<rparr>))"

text \<open>
  The validation of an API key: the URL, the secret it is asked with and the key. The reader
  gives the organization of the key, if the answer has a key and the key an organization.
\<close>

definition validate_api_key ::
  "(str \<Rightarrow> str \<Rightarrow> str \<Rightarrow> reply) \<Rightarrow> (str \<Rightarrow> str + str option option) \<Rightarrow> oidc_runtime \<Rightarrow> str \<Rightarrow> str option"
where
  "validate_api_key post read oi token =
     (case success_json ''workos'' read
        (post (trim_end_matches (CHR ''/'') (wc_issuer_url (oi_config oi)) @ ''/user_management/api_keys/validate'') (oi_client_secret oi) token) of
        Inl _ \<Rightarrow> None
      | Inr None \<Rightarrow> None
      | Inr (Some organization) \<Rightarrow> (case organization of Some org \<Rightarrow> if org \<noteq> [] then Some org else None | None \<Rightarrow> None))"

definition STATE_COOKIE_PREFIX :: str where "STATE_COOKIE_PREFIX = ''omp_oidc_state_''"

definition STATE_COOKIE_TTL_SECS :: nat where "STATE_COOKIE_TTL_SECS = 15 * 60"

section \<open>Cookies\<close>

definition build_cookie :: "str \<Rightarrow> str \<Rightarrow> int \<Rightarrow> str \<Rightarrow> bool \<Rightarrow> str" where
  "build_cookie n v max_age_secs path secure =
     n @ ''='' @ v @ ''; Path='' @ path @ ''; Max-Age='' @ show_int max_age_secs @ ''; HttpOnly'' @
     (if secure then ''; Secure'' else []) @ ''; SameSite=Lax''"

definition build_presence_cookie :: "int \<Rightarrow> bool \<Rightarrow> str" where
  "build_presence_cookie max_age_secs secure =
     ''omp_signed_in=1; Path=/; Max-Age='' @ show_int max_age_secs @ (if secure then ''; Secure'' else []) @ ''; SameSite=Lax''"

definition cleared_presence_cookie :: "bool \<Rightarrow> str" where
  "cleared_presence_cookie secure =
     ''omp_signed_in=; Path=/; Max-Age=0'' @ (if secure then ''; Secure'' else []) @ ''; SameSite=Lax''"

definition cleared_cookie :: "str \<Rightarrow> str \<Rightarrow> bool \<Rightarrow> str" where
  "cleared_cookie n path secure = build_cookie n [] 0 path secure"

definition cookies_secure :: "str \<Rightarrow> bool" where
  "cookies_secure redirect_uri = starts_with ''https://'' redirect_uri"

text \<open>\<open>HeaderValue::from_str\<close> refuses control characters.\<close>

definition header_value :: "str \<Rightarrow> bool" where
  "header_value s \<longleftrightarrow> list_all (\<lambda>c. 32 \<le> byte_val c \<and> byte_val c \<noteq> 127 \<or> c = TAB) s"

text \<open>
  An answer: a redirect with the cookies it sets, an error, or a panic, which
  \<open>Redirect::to\<close> raises when its target is not the value of a header.
\<close>

datatype answer = Redirected str "str list" | Failed nat str | Panicked

definition redirect_to :: "str \<Rightarrow> str list \<Rightarrow> answer" where
  "redirect_to target cookies = (if header_value target then Redirected target (filter header_value cookies) else Panicked)"

text \<open>The format \<open>{:02X}\<close>.\<close>

definition hex_byte_upper :: "char \<Rightarrow> str" where
  "hex_byte_upper c = map (\<lambda>x. if 0x61 \<le> byte_val x then char_of (byte_val x - 32) else x) (hex_byte c)"

definition url_escape :: "str \<Rightarrow> str" where
  "url_escape s = concat (map (\<lambda>c.
     if 0x41 \<le> byte_val c \<and> byte_val c \<le> 0x5A \<or> 0x61 \<le> byte_val c \<and> byte_val c \<le> 0x7A \<or>
        0x30 \<le> byte_val c \<and> byte_val c \<le> 0x39 \<or> c \<in> {CHR ''-'', CHR ''_'', CHR ''.'', CHR ''~'', CHR ''/''}
     then [c] else CHR ''%'' # hex_byte_upper c) s)"

section \<open>Login\<close>

definition pkce_challenge_s256 :: "signing \<Rightarrow> str \<Rightarrow> str" where
  "pkce_challenge_s256 G verifier = b64_encode (sx G) (sha256 (sx G) verifier)"

definition u64_add :: "nat \<Rightarrow> nat \<Rightarrow> nat" where
  "u64_add a b = (a + b) mod 2 ^ 64"

definition authorize_query :: "signing \<Rightarrow> oidc_runtime \<Rightarrow> state_claims \<Rightarrow> (str \<times> str) list" where
  "authorize_query G oi c =
     [(''response_type'', ''code''), (''client_id'', oi_client_id oi), (''redirect_uri'', oi_redirect_uri oi),
      (''state'', st_id c), (''code_challenge'', pkce_challenge_s256 G (st_pkce_verifier c)), (''code_challenge_method'', ''S256'')] @
     (case oi_provider oi of
        Workos \<Rightarrow> [(''provider'', ''authkit'')]
      | Oidc \<Rightarrow> [(''scope'', ''openid profile email''), (''nonce'', st_nonce c)])"

text \<open>The answer and the claims that were signed.\<close>

definition login ::
  "signing \<Rightarrow> bytes \<Rightarrow> (str \<Rightarrow> (str \<times> str) list \<Rightarrow> str + str) \<Rightarrow> oidc_runtime option \<Rightarrow> str \<times> str \<times> str \<Rightarrow> nat \<Rightarrow> str option \<Rightarrow>
   answer \<times> state_claims option"
where
  "login G sk url oidc rnd now_unix return_to =
     (case oidc of None \<Rightarrow> (Failed 404 ''workos_disabled'', None)
      | Some oi \<Rightarrow>
          (case rnd of (i, pkce_verifier, nonce) \<Rightarrow>
           let c = \<lparr>st_id = i, st_pkce_verifier = pkce_verifier, st_nonce = nonce,
                    st_return_to = (case return_to of Some r \<Rightarrow> r | None \<Rightarrow> ''/ui/''),
                    st_expires_at = u64_add now_unix STATE_COOKIE_TTL_SECS\<rparr> in
           (case encode_state G sk c of
              Inl _ \<Rightarrow> (Failed 500 ''state'', None)
            | Inr v \<Rightarrow>
                (case url (oi_authorization_endpoint oi) (authorize_query G oi c) of
                   Inl e \<Rightarrow> (Failed 500 e, Some c)
                 | Inr target \<Rightarrow>
                     (redirect_to target
                        [build_cookie (STATE_COOKIE_PREFIX @ i) v (int STATE_COOKIE_TTL_SECS) ''/'' (cookies_secure (oi_redirect_uri oi))],
                      Some c)))))"

section \<open>Callback\<close>

record callback_params =
  cp_code :: "str option"
  cp_state :: "str option"
  cp_error :: "str option"
  cp_error_description :: "str option"

text \<open>What the provider says of a user: the user, the organization and the session, if any.\<close>

record identity =
  id_sub :: str
  id_organization :: "str option"
  id_sid :: "str option"

text \<open>
  The token and userinfo endpoints. The readers of the JSON texts are \<open>serde_json\<close>'s, for the
  fields the code declares: of WorkOS the user, the organization and the access token, of
  other providers the access token and the identity, of the payload of an access token the
  session.
\<close>

record idp =
  ip_token :: "(str \<times> str) list \<Rightarrow> reply"
  ip_userinfo :: "str \<Rightarrow> reply"
  ip_workos_json :: "str \<Rightarrow> str + str \<times> str option \<times> str option"
  ip_token_json :: "str \<Rightarrow> str + str"
  ip_userinfo_json :: "str \<Rightarrow> str + identity"
  ip_claims_json :: "bytes \<Rightarrow> str + str option"

definition extract_jwt_sid :: "signing \<Rightarrow> idp \<Rightarrow> str \<Rightarrow> str option" where
  "extract_jwt_sid G P jwt =
     (case split_on (CHR ''.'') jwt of
        _ # payload # _ \<Rightarrow>
          (case b64_decode (sx G) payload of
             Inl _ \<Rightarrow> None
           | Inr bytes \<Rightarrow> (case ip_claims_json P bytes of Inl _ \<Rightarrow> None | Inr sid \<Rightarrow> sid))
      | _ \<Rightarrow> None)"

definition exchange_code :: "signing \<Rightarrow> idp \<Rightarrow> oidc_runtime \<Rightarrow> str \<Rightarrow> str \<Rightarrow> str + identity" where
  "exchange_code G P oi auth_code pkce_verifier =
     (case oi_provider oi of
        Workos \<Rightarrow>
          bind_res (success_json ''authenticate'' (ip_workos_json P)
            (ip_token P [(''grant_type'', ''authorization_code''), (''code'', auth_code), (''client_id'', oi_client_id oi),
                         (''client_secret'', oi_client_secret oi), (''code_verifier'', pkce_verifier)]))
            (\<lambda>(user, organization, access_token).
               Ok \<lparr>id_sub = user, id_organization = organization, id_sid = Option.bind access_token (extract_jwt_sid G P)\<rparr>)
      | Oidc \<Rightarrow>
          bind_res (reply_json ''token'' (ip_token_json P)
            (ip_token P [(''grant_type'', ''authorization_code''), (''code'', auth_code), (''redirect_uri'', oi_redirect_uri oi),
                         (''client_id'', oi_client_id oi), (''client_secret'', oi_client_secret oi), (''code_verifier'', pkce_verifier)]))
            (\<lambda>access_token. reply_json ''userinfo'' (ip_userinfo_json P) (ip_userinfo P access_token)))"

definition restart_login :: answer where
  "restart_login = redirect_to ''/auth/login?return_to=%2Fui%2F'' []"

definition tenant_of_identity :: "identity \<Rightarrow> str" where
  "tenant_of_identity u =
     (case id_organization u of Some org \<Rightarrow> if org \<noteq> [] then org else ''user_'' @ id_sub u | None \<Rightarrow> ''user_'' @ id_sub u)"

definition session_of_identity :: "oidc_runtime \<Rightarrow> nat \<Rightarrow> identity \<Rightarrow> session_claims" where
  "session_of_identity oi now_unix u =
     \<lparr>sn_tenant = tenant_of_identity u, sn_sub = id_sub u, sn_workos_session_id = (case id_sid u of Some x \<Rightarrow> x | None \<Rightarrow> []),
      sn_issued_at = now_unix, sn_expires_at = u64_add now_unix (oi_session_ttl oi)\<rparr>"

text \<open>A number of seconds cast to \<open>i64\<close>.\<close>

definition as_i64 :: "nat \<Rightarrow> int" where
  "as_i64 n = (int n + 2 ^ 63) mod 2 ^ 64 - 2 ^ 63"

definition session_cookies :: "oidc_runtime \<Rightarrow> str \<Rightarrow> str list" where
  "session_cookies oi v =
     (let secure = cookies_secure (oi_redirect_uri oi); ttl = as_i64 (oi_session_ttl oi) in
      [build_cookie ''omp_session'' v ttl ''/'' secure, build_presence_cookie ttl secure])"

text \<open>The login state of a callback: the cookie named by the state of the query, with that state inside and not too old.\<close>

definition callback_state :: "signing \<Rightarrow> bytes \<Rightarrow> headers \<Rightarrow> str \<Rightarrow> nat \<Rightarrow> state_claims option" where
  "callback_state G vk hs state_id now_unix =
     Option.bind (parse_cookie hs (STATE_COOKIE_PREFIX @ state_id)) (\<lambda>raw.
     case decode_state G vk raw of
       Inl _ \<Rightarrow> None
     | Inr c \<Rightarrow> if st_id c \<noteq> state_id then None else if st_expires_at c < now_unix then None else Some c)"

definition callback ::
  "signing \<Rightarrow> bytes \<Rightarrow> idp \<Rightarrow> oidc_runtime option \<Rightarrow> callback_params \<Rightarrow> headers \<Rightarrow> nat \<Rightarrow>
   answer \<times> session_claims option"
where
  "callback G sk P oidc ps hs now_unix =
     (case oidc of None \<Rightarrow> (Failed 404 ''workos_disabled'', None)
      | Some oi \<Rightarrow>
          if cp_error ps \<noteq> None then
            (Failed 400 (''oidc_error: '' @ the (cp_error ps) @ '': '' @ (case cp_error_description ps of Some d \<Rightarrow> d | None \<Rightarrow> [])), None)
          else (case cp_code ps of None \<Rightarrow> (Failed 400 ''missing_code'', None)
      | Some auth_code \<Rightarrow> (case cp_state ps of None \<Rightarrow> (Failed 400 ''missing_state'', None)
      | Some state_id \<Rightarrow>
          (case callback_state G (ed_public G sk) hs state_id now_unix of
             None \<Rightarrow> (restart_login, None)
           | Some st \<Rightarrow>
               (case exchange_code G P oi auth_code (st_pkce_verifier st) of
                  Inl e \<Rightarrow> (Failed 502 e, None)
                | Inr u \<Rightarrow>
                    let c = session_of_identity oi now_unix u in
                    (case encode_session G sk c of
                       Inl _ \<Rightarrow> (Failed 500 ''session'', None)
                     | Inr v \<Rightarrow>
                         (redirect_to (st_return_to st)
                            (session_cookies oi v @
                             [cleared_cookie (STATE_COOKIE_PREFIX @ state_id) ''/'' (cookies_secure (oi_redirect_uri oi))]),
                          Some c)))))))"

section \<open>Refresh\<close>

definition login_again :: "str \<Rightarrow> answer" where
  "login_again return_to = redirect_to (''/auth/login?return_to='' @ url_escape return_to) []"

definition refresh ::
  "signing \<Rightarrow> bytes \<Rightarrow> (str \<Rightarrow> bool) \<Rightarrow> oidc_runtime option \<Rightarrow> str option \<Rightarrow> headers \<Rightarrow> nat \<Rightarrow> answer \<times> session_claims option"
where
  "refresh G sk authenticate oidc return_to_param hs now_unix =
     (case oidc of None \<Rightarrow> (Failed 404 ''workos_disabled'', None)
      | Some oi \<Rightarrow>
          let return_to = (case return_to_param of Some r \<Rightarrow> r | None \<Rightarrow> ''/ui/'') in
          (case parse_cookie hs ''omp_session'' of
             None \<Rightarrow> (login_again return_to, None)
           | Some raw \<Rightarrow>
               (case decode_session G (ed_public G sk) raw now_unix True of
                  Inl _ \<Rightarrow> (login_again return_to, None)
                | Inr c \<Rightarrow>
                    if u64_add (sn_expires_at c) (oi_refresh_grace oi) < now_unix then (login_again return_to, None)
                    else if sn_workos_session_id c \<noteq> [] \<and> \<not> authenticate (sn_workos_session_id c) then (login_again return_to, None)
                    else let c' = c\<lparr>sn_issued_at := now_unix, sn_expires_at := u64_add now_unix (oi_session_ttl oi)\<rparr> in
                      (case encode_session G sk c' of
                         Inl _ \<Rightarrow> (Failed 500 ''session'', None)
                       | Inr v \<Rightarrow> (redirect_to return_to (session_cookies oi v), Some c')))))"

section \<open>Profile and widget\<close>

record user_detail =
  ud_email :: "str option"
  ud_email_verified :: "bool option"
  ud_first_name :: "str option"
  ud_last_name :: "str option"
  ud_profile_picture_url :: "str option"

text \<open>The tenant, the user and what WorkOS knows of the user; other providers are not asked.\<close>

definition me ::
  "signing \<Rightarrow> bytes \<Rightarrow> (str \<Rightarrow> reply) \<Rightarrow> (str \<Rightarrow> str + user_detail) \<Rightarrow> oidc_runtime option \<Rightarrow> headers \<Rightarrow> nat \<Rightarrow>
   (nat \<times> str) + str \<times> str \<times> user_detail option"
where
  "me G vk get read oidc hs now_unix =
     (case oidc of None \<Rightarrow> Err (404, ''workos_disabled'')
      | Some oi \<Rightarrow>
          (case resolve_session_cookie G vk hs now_unix of
             None \<Rightarrow> Err (401, ''no_session'')
           | Some c \<Rightarrow>
               if oi_provider oi \<noteq> Workos then Ok (sn_tenant c, sn_sub c, None)
               else bind_res (map_err (Pair 502) (success_json ''workos'' read
                 (get (trim_end_matches (CHR ''/'') (wc_issuer_url (oi_config oi)) @ ''/user_management/users/'' @ sn_sub c))))
                 (\<lambda>detail. Ok (sn_tenant c, sn_sub c, Some detail))))"

text \<open>The token and the organization; the request names the URL, the organization and the user.\<close>

definition widget_token ::
  "signing \<Rightarrow> bytes \<Rightarrow> (str \<Rightarrow> str \<Rightarrow> str \<Rightarrow> reply) \<Rightarrow> (str \<Rightarrow> str + str) \<Rightarrow> oidc_runtime option \<Rightarrow> headers \<Rightarrow> nat \<Rightarrow>
   (nat \<times> str) + str \<times> str"
where
  "widget_token G vk post read oidc hs now_unix =
     (case oidc of None \<Rightarrow> Err (404, ''workos_disabled'')
      | Some oi \<Rightarrow>
          if oi_provider oi \<noteq> Workos then Err (404, ''widget_unavailable'')
          else (case resolve_session_cookie G vk hs now_unix of
             None \<Rightarrow> Err (401, ''no_session'')
           | Some c \<Rightarrow>
               if starts_with ''user_'' (sn_tenant c) then Err (403, ''no_organization'')
               else bind_res (map_err (Pair 502) (success_json ''workos'' read
                 (post (trim_end_matches (CHR ''/'') (wc_issuer_url (oi_config oi)) @ ''/widgets/token'') (sn_tenant c) (sn_sub c))))
                 (\<lambda>token. Ok (token, sn_tenant c))))"

section \<open>Logout\<close>

definition logout_session_id :: "signing \<Rightarrow> bytes \<Rightarrow> headers \<Rightarrow> nat \<Rightarrow> str option" where
  "logout_session_id G vk hs now_unix =
     Option.bind (parse_cookie hs ''omp_session'') (\<lambda>raw.
     case decode_session G vk raw now_unix True of
       Inl _ \<Rightarrow> None
     | Inr c \<Rightarrow> if sn_workos_session_id c \<noteq> [] then Some (sn_workos_session_id c) else None)"

definition logout_query :: "oidc_runtime \<Rightarrow> str \<Rightarrow> (str \<times> str) list" where
  "logout_query oi sid =
     (case oi_provider oi of
        Workos \<Rightarrow> [(''session_id'', sid),
          (''return_to'', case strip_suffix ''/auth/callback'' (oi_redirect_uri oi) of Some base \<Rightarrow> base @ ''/ui/'' | None \<Rightarrow> ''/ui/'')]
      | Oidc \<Rightarrow> [(''client_id'', oi_client_id oi), (''post_logout_redirect_uri'', ''/ui/'')])"

definition logout_target ::
  "(str \<Rightarrow> (str \<times> str) list \<Rightarrow> str + str) \<Rightarrow> oidc_runtime option \<Rightarrow> str option \<Rightarrow> str"
where
  "logout_target url oidc sid =
     (case (oidc, sid) of
        (Some oi, Some x) \<Rightarrow>
          (case oi_end_session_endpoint oi of
             Some endpoint \<Rightarrow> (case url endpoint (logout_query oi x) of Inr target \<Rightarrow> target | Inl _ \<Rightarrow> ''/ui/'')
           | None \<Rightarrow> ''/ui/'')
      | _ \<Rightarrow> ''/ui/'')"

definition logout ::
  "signing \<Rightarrow> bytes \<Rightarrow> (str \<Rightarrow> (str \<times> str) list \<Rightarrow> str + str) \<Rightarrow> oidc_runtime option \<Rightarrow> headers \<Rightarrow> nat \<Rightarrow> answer"
where
  "logout G vk url oidc hs now_unix =
     (let secure = (case oidc of Some oi \<Rightarrow> cookies_secure (oi_redirect_uri oi) | None \<Rightarrow> True) in
      redirect_to (logout_target url oidc (logout_session_id G vk hs now_unix))
        [cleared_cookie ''omp_session'' ''/'' secure, cleared_presence_cookie secure])"

section \<open>Where sessions come from\<close>

text \<open>
  Requests are served one after the other, with any headers. The state is what was signed:
  login states and sessions. A signature that a request presents in a cookie verifies only
  for a message that was signed by then; contexts of forwarded requests count among them.
\<close>

record signed_so_far =
  so_states :: "state_claims set"
  so_sessions :: "session_claims set"

definition unforged :: "signing \<Rightarrow> bytes \<Rightarrow> tenant_context set \<Rightarrow> signed_so_far \<Rightarrow> headers \<Rightarrow> bool" where
  "unforged G vk cs s hs \<longleftrightarrow> (\<forall>n raw body sig m. parse_cookie hs n = Some raw \<longrightarrow> presented G raw body sig \<longrightarrow>
     ed_verify G vk m sig \<longrightarrow> m \<in> signed_messages G cs (so_sessions s) (so_states s))"

text \<open>A provider whose answers, at any time, are strings that Rust can hold.\<close>

definition provider_ok :: "signing \<Rightarrow> (nat \<Rightarrow> idp) \<Rightarrow> oidc_runtime \<Rightarrow> bool" where
  "provider_ok G provider oi \<longleftrightarrow> (\<forall>t auth_code v u. exchange_code G (provider t) oi auth_code v = Inr u \<longrightarrow>
     utf8_valid (id_sub u) \<and> (\<forall>x. id_organization u = Some x \<or> id_sid u = Some x \<longrightarrow> utf8_valid x))"

inductive login_step ::
  "signing \<Rightarrow> bytes \<Rightarrow> tenant_context set \<Rightarrow> oidc_runtime \<Rightarrow> (nat \<Rightarrow> idp) \<Rightarrow> signed_so_far \<Rightarrow> signed_so_far \<Rightarrow> bool"
  for G sk cs oi provider where
  logged_in: "login G sk url (Some oi) rnd t return_to = (a, Some c) \<Longrightarrow> state_ok c \<Longrightarrow>
    login_step G sk cs oi provider s (s\<lparr>so_states := insert c (so_states s)\<rparr>)"
| called_back: "unforged G (ed_public G sk) cs s hs \<Longrightarrow> t < 2 ^ 64 \<Longrightarrow>
    callback G sk (provider t) (Some oi) ps hs t = (a, Some c) \<Longrightarrow>
    login_step G sk cs oi provider s (s\<lparr>so_sessions := insert c (so_sessions s)\<rparr>)"
| refreshed: "unforged G (ed_public G sk) cs s hs \<Longrightarrow> t < 2 ^ 64 \<Longrightarrow>
    refresh G sk known (Some oi) r hs t = (a, Some c) \<Longrightarrow>
    login_step G sk cs oi provider s (s\<lparr>so_sessions := insert c (so_sessions s)\<rparr>)"

definition login_start :: signed_so_far where
  "login_start = \<lparr>so_states = {}, so_sessions = {}\<rparr>"

text \<open>A session that says what the provider said when a login that the gateway began was completed in time.\<close>

definition from_provider :: "signing \<Rightarrow> (nat \<Rightarrow> idp) \<Rightarrow> oidc_runtime \<Rightarrow> state_claims set \<Rightarrow> session_claims \<Rightarrow> bool" where
  "from_provider G provider oi states c \<longleftrightarrow>
     (\<exists>t auth_code st u. st \<in> states \<and> t \<le> st_expires_at st \<and> exchange_code G (provider t) oi auth_code (st_pkce_verifier st) = Inr u \<and>
        sn_sub c = id_sub u \<and> sn_tenant c = tenant_of_identity u \<and>
        sn_workos_session_id c = (case id_sid u of Some x \<Rightarrow> x | None \<Rightarrow> []))"

definition login_inv :: "signing \<Rightarrow> (nat \<Rightarrow> idp) \<Rightarrow> oidc_runtime \<Rightarrow> signed_so_far \<Rightarrow> bool" where
  "login_inv G provider oi s \<longleftrightarrow> (\<forall>c \<in> so_states s. state_ok c) \<and>
     (\<forall>c \<in> so_sessions s. session_ok c \<and> from_provider G provider oi (so_states s) c)"

lemma callback_state_signed:
  assumes "callback_state G vk hs i t = Some st" "unforged G vk cs s hs" "login_inv G provider oi s"
    and "codec_ok (sx_codec G)" "maps_marked (sx_codec G)"
  shows "st \<in> so_states s \<and> t \<le> st_expires_at st"
proof -
  obtain raw where raw: "parse_cookie hs (STATE_COOKIE_PREFIX @ i) = Some raw" "decode_state G vk raw = Inr st" "t \<le> st_expires_at st"
    using assms(1) by (auto simp: callback_state_def split: sum.splits if_splits Option.bind_splits)
  from decode_signed_message [OF raw(2) [unfolded decode_state_def]] obtain body sig v where
    v: "ed_verify G vk (signed_message STATE_DOMAIN_TAG body) sig" "cbor_decode (sx_codec G) body = Inr v" "state_of_cbor v = Some st"
      "presented G raw body sig" .
  have "signed_message STATE_DOMAIN_TAG body \<in> signed_messages G cs (so_sessions s) (so_states s)"
    using assms(2) raw(1) v(1,4) unfolding unforged_def by blast
  moreover have "\<forall>c \<in> so_states s. state_ok c" using assms(3) by (simp add: login_inv_def)
  ultimately show ?thesis using state_from_signed [OF assms(4,5)] v(2,3) raw(3) by blast
qed

lemma session_cookie_signed:
  assumes "parse_cookie hs n = Some raw" "decode_session G vk raw t b = Inr c" "unforged G vk cs s hs" "login_inv G provider oi s"
    and "codec_ok (sx_codec G)" "maps_marked (sx_codec G)"
  shows "c \<in> so_sessions s"
proof -
  from decode_signed_message [OF decode_session_signed [OF assms(2)]] obtain body sig v where
    v: "ed_verify G vk (signed_message SESSION_DOMAIN_TAG body) sig" "cbor_decode (sx_codec G) body = Inr v" "session_of_cbor v = Some c"
      "presented G raw body sig" .
  have "signed_message SESSION_DOMAIN_TAG body \<in> signed_messages G cs (so_sessions s) (so_states s)"
    using assms(1,3) v(1,4) unfolding unforged_def by blast
  moreover have "\<forall>c \<in> so_sessions s. session_ok c" using assms(4) by (simp add: login_inv_def)
  ultimately show ?thesis using session_from_signed [OF assms(5,6)] v(2,3) by blast
qed

lemma from_provider_mono: "from_provider G provider oi A c \<Longrightarrow> A \<subseteq> B \<Longrightarrow> from_provider G provider oi B c"
  unfolding from_provider_def by blast

lemma callback_signs:
  assumes "callback G sk P (Some oi) ps hs t = (a, Some c)"
  obtains i st auth_code u where "callback_state G (ed_public G sk) hs i t = Some st"
    "exchange_code G P oi auth_code (st_pkce_verifier st) = Inr u" "c = session_of_identity oi t u"
  using assms by (auto simp: callback_def Let_def split: option.splits sum.splits if_splits)

lemma refresh_signs:
  assumes "refresh G sk known (Some oi) r hs t = (a, Some c)"
  obtains raw d where "parse_cookie hs ''omp_session'' = Some raw" "decode_session G (ed_public G sk) raw t True = Inr d"
    "c = d\<lparr>sn_issued_at := t, sn_expires_at := u64_add t (oi_session_ttl oi)\<rparr>"
  using assms by (auto simp: refresh_def Let_def split: option.splits sum.splits if_splits)

lemma session_of_identity_ok:
  assumes "provider_ok G provider oi" "exchange_code G (provider t) oi auth_code v = Inr u" "t < 2 ^ 64"
  shows "session_ok (session_of_identity oi t u)"
proof -
  have u: "utf8_valid (id_sub u)" "\<And>x. id_organization u = Some x \<or> id_sid u = Some x \<Longrightarrow> utf8_valid x"
    using assms(1,2) unfolding provider_ok_def by blast+
  have "utf8_valid (''user_'' @ id_sub u)" using u(1) by (simp add: is_ascii_def)
  then show ?thesis
    using u assms(3)
    by (auto simp: session_ok_def session_of_identity_def tenant_of_identity_def u64_add_def U64_MAX_def split: option.splits)
qed

lemma login_step_inv:
  assumes "login_step G sk cs oi provider s s'" "login_inv G provider oi s" "provider_ok G provider oi"
    and "codec_ok (sx_codec G)" "maps_marked (sx_codec G)"
  shows "login_inv G provider oi s'"
  using assms(1)
proof cases
  case (logged_in url rnd t r a c)
  then show ?thesis
    using assms(2) from_provider_mono [OF _ subset_insertI] by (auto simp: login_inv_def)
next
  case (called_back hs t ps a c)
  from callback_signs [OF called_back(4)] obtain i st auth_code u where
    c: "callback_state G (ed_public G sk) hs i t = Some st" "exchange_code G (provider t) oi auth_code (st_pkce_verifier st) = Inr u"
      "c = session_of_identity oi t u" .
  from callback_state_signed [OF c(1) called_back(2) assms(2,4,5)] c(2)
  have "from_provider G provider oi (so_states s) c"
    unfolding from_provider_def c(3) by (auto simp: session_of_identity_def)
  moreover have "session_ok c" using session_of_identity_ok [OF assms(3) c(2) called_back(3)] c(3) by simp
  ultimately show ?thesis using assms(2) called_back(1) by (simp add: login_inv_def)
next
  case (refreshed hs t known r a c)
  from refresh_signs [OF refreshed(4)] obtain raw d where
    c: "parse_cookie hs ''omp_session'' = Some raw" "decode_session G (ed_public G sk) raw t True = Inr d"
      "c = d\<lparr>sn_issued_at := t, sn_expires_at := u64_add t (oi_session_ttl oi)\<rparr>" .
  have "d \<in> so_sessions s" by (rule session_cookie_signed [OF c(1,2) refreshed(2) assms(2,4,5)])
  then have "session_ok d" "from_provider G provider oi (so_states s) d" using assms(2) by (auto simp: login_inv_def)
  then have "session_ok c" "from_provider G provider oi (so_states s) c"
    using refreshed(3) by (simp_all add: c(3) session_ok_def from_provider_def u64_add_def U64_MAX_def)
  then show ?thesis using assms(2) refreshed(1) by (simp add: login_inv_def)
qed

text \<open>
  Two facts on tenants: a validated API key is of a named organization, and an organization
  that is called as the tenant of a user without one shares the tenant of that user.
\<close>

lemma validated_key_names_organization: "validate_api_key post read oi token = Some t \<Longrightarrow> t \<noteq> []"
  by (auto simp: validate_api_key_def split: sum.splits option.splits if_splits)

lemma organization_shares_user_tenant:
  "id_organization u = Some (''user_'' @ id_sub v) \<Longrightarrow> id_organization v = None \<Longrightarrow> tenant_of_identity u = tenant_of_identity v"
  by (simp add: tenant_of_identity_def)

text \<open>
  C17. A session means that the provider vouched for the user. After any sequence of logins,
  callbacks and refreshes, with any headers and queries but no forged signature, a request
  whose session cookie is accepted has a session that has not expired and whose user, tenant
  and provider session are the provider's answer to a code that was presented, with the
  verifier of a login that the gateway had begun, before that login was too old. Refreshing
  a session never changes who it is for.
\<close>

theorem sessions_from_provider:
  assumes "codec_ok (sx_codec G)" "maps_marked (sx_codec G)" "provider_ok G provider oi"
    and "(login_step G sk cs oi provider)\<^sup>*\<^sup>* login_start s" "unforged G (ed_public G sk) cs s hs"
    and "resolve_session_cookie G (ed_public G sk) hs t = Some c"
  shows "t \<le> sn_expires_at c \<and>
    (\<exists>t' auth_code st u. st \<in> so_states s \<and> t' \<le> st_expires_at st \<and>
       exchange_code G (provider t') oi auth_code (st_pkce_verifier st) = Inr u \<and>
       sn_sub c = id_sub u \<and> sn_tenant c = tenant_of_identity u \<and>
       sn_workos_session_id c = (case id_sid u of Some x \<Rightarrow> x | None \<Rightarrow> []))"
proof -
  have inv: "login_inv G provider oi s"
    using assms(4)
  proof induction
    case base show ?case by (simp add: login_inv_def login_start_def)
  next
    case (step a b) show ?case by (rule login_step_inv [OF step(2,3) assms(3,1,2)])
  qed
  obtain raw where raw: "parse_cookie hs ''omp_session'' = Some raw" "decode_session G (ed_public G sk) raw t False = Inr c"
    using assms(6) by (auto simp: resolve_session_cookie_def split: sum.splits Option.bind_splits)
  have "t \<le> sn_expires_at c" using raw(2) by (auto simp: decode_session_def bind_res_eq_Inr split: if_splits)
  moreover have "c \<in> so_sessions s" by (rule session_cookie_signed [OF raw assms(5) inv assms(1,2)])
  ultimately show ?thesis using inv by (auto simp: login_inv_def from_provider_def)
qed

section \<open>Examples\<close>

text \<open>One login, completed; two signatures, two cookie texts.\<close>

definition one_login :: state_claims where
  "one_login = \<lparr>st_id = ''s'', st_pkce_verifier = ''v'', st_nonce = ''n'', st_return_to = ''/ui/'', st_expires_at = 903\<rparr>"

definition one_identity :: identity where
  "one_identity = \<lparr>id_sub = ''u'', id_organization = Some ''a'', id_sid = None\<rparr>"

definition toy_oidc :: oidc_runtime where
  "toy_oidc = \<lparr>oi_provider = Workos,
     oi_config = \<lparr>wc_client_id = ''c'', wc_client_secret = ''x'', wc_issuer_url = ''http://p'', wc_redirect_uri = ''http://a/auth/callback'',
       wc_session_ttl_seconds = 60, wc_refresh_grace_seconds = 30, wc_validation_cache_ttl_seconds = 60\<rparr>,
     oi_authorization_endpoint = ''http://p/a'', oi_token_endpoint = ''http://p/t'', oi_userinfo_endpoint = [],
     oi_end_session_endpoint = None\<rparr>"

definition toy_idp :: idp where
  "toy_idp = \<lparr>ip_token = (\<lambda>_. Reply 200 ''j''), ip_userinfo = (\<lambda>_. No_reply ''down''),
     ip_workos_json = (\<lambda>_. Inr (''u'', Some ''a'', None)), ip_token_json = (\<lambda>_. Inl ''none''),
     ip_userinfo_json = (\<lambda>_. Inl ''none''), ip_claims_json = (\<lambda>_. Inl ''none'')\<rparr>"

lemma toy_exchange: "exchange_code G toy_idp toy_oidc auth_code v = Inr one_identity"
  by (simp add: exchange_code_def success_json_def toy_idp_def toy_oidc_def one_identity_def)

definition gained :: session_claims where "gained = session_of_identity toy_oidc 5 one_identity"

definition state_body :: bytes where "state_body = cbor_encode marked_codec (state_to_cbor one_login)"
definition gained_body :: bytes where "gained_body = cbor_encode marked_codec (session_to_cbor gained)"

definition flow_sig :: "bytes \<Rightarrow> bytes" where
  "flow_sig m = pad_to 64 (if m = signed_message STATE_DOMAIN_TAG state_body then ''s'' else ''t'')"

definition state_raw :: bytes where
  "state_raw = cbor_encode marked_codec (envelope_cbor state_body (pad_to 64 ''s''))"
definition gained_raw :: bytes where
  "gained_raw = cbor_encode marked_codec (envelope_cbor gained_body (pad_to 64 ''t''))"

definition flow_ext :: ext where
  "flow_ext = toy_ext\<lparr>b64_encode := (\<lambda>b. if b = state_raw then ''A'' else ''B''),
     b64_decode := (\<lambda>s. if s = ''A'' then Inr state_raw else if s = ''B'' then Inr gained_raw else Inl ''text'')\<rparr>"

definition flow_signing :: signing where
  "flow_signing = toy_signing\<lparr>sx := flow_ext, ed_sign := (\<lambda>sk. flow_sig),
     ed_verify := (\<lambda>vk m sig. (m = signed_message STATE_DOMAIN_TAG state_body \<or> m = signed_message SESSION_DOMAIN_TAG gained_body) \<and>
       sig = flow_sig m)\<rparr>"

lemma flow_simps:
  "sx_codec flow_signing = marked_codec" "b64_encode (sx flow_signing) b = (if b = state_raw then ''A'' else ''B'')"
  "b64_decode (sx flow_signing) w = (if w = ''A'' then Inr state_raw else if w = ''B'' then Inr gained_raw else Inl ''text'')"
  "ed_sign flow_signing sk m = flow_sig m" "ed_public flow_signing k = k"
  "ed_verify flow_signing vk m sig \<longleftrightarrow>
     (m = signed_message STATE_DOMAIN_TAG state_body \<or> m = signed_message SESSION_DOMAIN_TAG gained_body) \<and> sig = flow_sig m"
  by (simp_all add: flow_signing_def flow_ext_def toy_signing_def)

lemma marked_decodes: "cbor_decode marked_codec (cbor_encode marked_codec v) = Inr v"
  by (simp add: marked_codec_def)

lemma flow_messages: "signed_message SESSION_DOMAIN_TAG b \<noteq> signed_message STATE_DOMAIN_TAG b'"
  by (simp add: signed_message_def SESSION_DOMAIN_TAG_def STATE_DOMAIN_TAG_def)

lemma flow_sigs: "flow_sig (signed_message STATE_DOMAIN_TAG state_body) = pad_to 64 ''s''"
  "flow_sig (signed_message SESSION_DOMAIN_TAG b) = pad_to 64 ''t''"
  using flow_messages by (simp_all add: flow_sig_def)

lemma flow_parts:
  "cbor_decode marked_codec state_raw = Inr (envelope_cbor state_body (pad_to 64 ''s''))"
  "cbor_decode marked_codec gained_raw = Inr (envelope_cbor gained_body (pad_to 64 ''t''))"
  by (simp_all only: state_raw_def gained_raw_def marked_decodes)

lemma envelope_parts: "cookie_parts (envelope_cbor b sig) = Some (b, sig)"
  by (simp add: cookie_parts_def envelope_cbor_def cb_get_def cb_bytes_def)

lemma flow_valid:
  "signature_valid flow_signing k (signed_message STATE_DOMAIN_TAG state_body) (pad_to 64 ''s'')"
  "signature_valid flow_signing k (signed_message SESSION_DOMAIN_TAG gained_body) (pad_to 64 ''t'')"
  by (simp_all add: signature_valid_def flow_simps flow_sigs)

lemma flow_bodies:
  "cbor_decode marked_codec state_body = Inr (state_to_cbor one_login)"
  "cbor_decode marked_codec gained_body = Inr (session_to_cbor gained)"
  by (simp_all only: state_body_def gained_body_def marked_decodes)

lemma one_login_ok: "state_ok one_login"
  by (simp add: one_login_def state_ok_def U64_MAX_def is_ascii_def)

lemma gained_ok: "session_ok gained"
  by (simp add: gained_def session_of_identity_def session_ok_def tenant_of_identity_def one_identity_def toy_oidc_def
      u64_add_def U64_MAX_def is_ascii_def)

lemma gained_expires: "sn_expires_at gained = 65"
  by (simp add: gained_def session_of_identity_def toy_oidc_def u64_add_def)

lemma state_sent: "encode_state flow_signing k one_login = Inr ''A''"
  by (simp add: encode_state_def encode_signed_def Let_def flow_simps flow_sigs state_raw_def state_body_def [symmetric])

lemma state_read: "decode_state flow_signing k ''A'' = Inr one_login"
  using state_codec [OF one_login_ok]
  by (simp add: decode_state_def decode_signed_def flow_simps flow_parts envelope_parts flow_valid flow_bodies)

lemma gained_read: "decode_session flow_signing k ''B'' 5 False = Inr gained"
  using session_codec [OF gained_ok] gained_expires
  by (simp add: decode_session_def decode_signed_def flow_simps flow_parts envelope_parts flow_valid flow_bodies)

lemma flow_presented: "presented flow_signing w body sig \<Longrightarrow>
    w = ''A'' \<and> body = state_body \<and> sig = pad_to 64 ''s'' \<or> w = ''B'' \<and> body = gained_body \<and> sig = pad_to 64 ''t''"
  by (auto simp: presented_def flow_simps flow_parts envelope_parts split: if_splits)

lemma flow_sig_message:
  "ed_verify flow_signing k m sig \<Longrightarrow> m = signed_message STATE_DOMAIN_TAG state_body \<and> sig = pad_to 64 ''s'' \<or>
     m = signed_message SESSION_DOMAIN_TAG gained_body \<and> sig = pad_to 64 ''t''"
  by (auto simp: flow_simps flow_sigs)

lemma state_cookie: "parse_cookie [(''cookie'', ''omp_oidc_state_s=A'')] ''omp_oidc_state_s'' = Some ''A''"
  "parse_cookie [(''cookie'', ''omp_oidc_state_s=A'')] n \<noteq> Some ''B''"
proof -
  have "trim ''omp_oidc_state_s=A'' = ''omp_oidc_state_s=A''" by (rule trim_ascii_id) (simp_all add: is_ascii_def ws1_def)
  moreover have "strip_prefix (n @ ''='') ''omp_oidc_state_s=A'' \<noteq> Some ''B''"
  proof
    assume "strip_prefix (n @ ''='') ''omp_oidc_state_s=A'' = Some ''B''"
    then have "''omp_oidc_state_s=A'' = (n @ ''='') @ ''B''" by (rule strip_prefix_SomeD)
    then have "last ''omp_oidc_state_s=A'' = last ((n @ ''='') @ ''B'')" by (rule arg_cong)
    then show False by simp
  qed
  ultimately show "parse_cookie [(''cookie'', ''omp_oidc_state_s=A'')] ''omp_oidc_state_s'' = Some ''A''"
    "parse_cookie [(''cookie'', ''omp_oidc_state_s=A'')] n \<noteq> Some ''B''"
    by (simp add: parse_cookie_def hdr_get_def hdr_str_def visible_def strip_prefix_def,
        auto simp: parse_cookie_def hdr_get_def hdr_str_def visible_def split: option.splits)
qed

text \<open>The login, its callback and a request with the session.\<close>

lemma toy_oidc_url: "starts_with ''https://'' (oi_redirect_uri toy_oidc) = False"
  by (simp add: toy_oidc_def starts_with_def)

lemma flow_login: "\<exists>a. login flow_signing ''k'' (\<lambda>e q. Inr e) (Some toy_oidc) (''s'', ''v'', ''n'') 3 None = (a, Some one_login)"
  using state_sent [of "''k''"]
  by (simp add: login_def Let_def u64_add_def STATE_COOKIE_TTL_SECS_def one_login_def)

lemma flow_callback:
  "\<exists>a. callback flow_signing ''k'' toy_idp (Some toy_oidc)
     \<lparr>cp_code = Some ''c'', cp_state = Some ''s'', cp_error = None, cp_error_description = None\<rparr>
     [(''cookie'', ''omp_oidc_state_s=A'')] 5 = (a, Some gained)"
proof -
  obtain w where w: "encode_session flow_signing ''k'' gained = Inr w" by (simp add: encode_session_def encode_signed_def Let_def)
  have "callback_state flow_signing ''k'' [(''cookie'', ''omp_oidc_state_s=A'')] ''s'' 5 = Some one_login"
    using state_cookie(1) state_read [of "''k''"] by (simp add: callback_state_def STATE_COOKIE_PREFIX_def) (simp add: one_login_def)
  then show ?thesis using w by (simp add: callback_def Let_def flow_simps gained_def toy_exchange)
qed

lemma session_cookie_read: "parse_cookie [(''cookie'', ''omp_session=B'')] ''omp_session'' = Some ''B''"
proof -
  have "trim ''omp_session=B'' = ''omp_session=B''" by (rule trim_ascii_id) (simp_all add: is_ascii_def ws1_def)
  then show ?thesis by (simp add: parse_cookie_def hdr_get_def hdr_str_def visible_def strip_prefix_def)
qed

theorem sessions_from_provider_witness:
  "\<exists>s. (login_step flow_signing ''k'' {} toy_oidc (\<lambda>_. toy_idp))\<^sup>*\<^sup>* login_start s \<and>
     resolve_session_cookie flow_signing ''k'' [(''cookie'', ''omp_session=B'')] 5 = Some gained \<and>
     (\<exists>st \<in> so_states s. \<exists>t. t \<le> st_expires_at st) \<and> sn_sub gained = ''u'' \<and> sn_tenant gained = ''a''"
proof -
  let ?step = "login_step flow_signing ''k'' {} toy_oidc (\<lambda>_. toy_idp)"
  let ?hs = "[(''cookie'', ''omp_oidc_state_s=A'')]" and ?hs' = "[(''cookie'', ''omp_session=B'')]"
  define s1 where "s1 = login_start\<lparr>so_states := {one_login}\<rparr>"
  define s2 where "s2 = s1\<lparr>so_sessions := {gained}\<rparr>"
  have signed: "signed_message STATE_DOMAIN_TAG state_body \<in> signed_messages flow_signing {} ss {one_login}"
    "signed_message SESSION_DOMAIN_TAG gained_body \<in> signed_messages flow_signing {} {gained} ts" for ss ts
    by (simp_all add: signed_messages_def flow_simps state_body_def gained_body_def)
  have sigs: "pad_to 64 ''s'' \<noteq> pad_to 64 ''t''" by (simp add: pad_to_def)
  obtain a where a: "login flow_signing ''k'' (\<lambda>e q. Inr e) (Some toy_oidc) (''s'', ''v'', ''n'') 3 None = (a, Some one_login)"
    using flow_login by blast
  have "?step login_start s1"
    using login_step.logged_in [OF a one_login_ok, where s = login_start] by (simp add: s1_def login_start_def)
  moreover have "unforged flow_signing (ed_public flow_signing ''k'') {} s1 ?hs"
    unfolding unforged_def
  proof (intro allI impI)
    fix n raw body sig m
    assume raw: "parse_cookie ?hs n = Some raw" "presented flow_signing raw body sig"
      "ed_verify flow_signing (ed_public flow_signing ''k'') m sig"
    have "raw \<noteq> ''B''" using raw(1) state_cookie(2) [of n] by metis
    then have "m = signed_message STATE_DOMAIN_TAG state_body"
      using flow_presented [OF raw(2)] flow_sig_message [OF raw(3)] sigs by blast
    then show "m \<in> signed_messages flow_signing {} (so_sessions s1) (so_states s1)" using signed(1) by (simp add: s1_def)
  qed
  then have "?step s1 s2"
    using flow_callback login_step.called_back [where G = flow_signing and sk = "''k''" and cs = "{}" and s = s1 and hs = ?hs
        and t = 5 and oi = toy_oidc and provider = "\<lambda>_. toy_idp" and c = gained]
    by (fastforce simp: s2_def s1_def login_start_def)
  ultimately have run: "?step\<^sup>*\<^sup>* login_start s2" by (meson rtranclp.rtrancl_into_rtrancl rtranclp.rtrancl_refl)
  have "unforged flow_signing (ed_public flow_signing ''k'') {} s2 ?hs'"
    using flow_sig_message [where k = "ed_public flow_signing ''k''"] signed by (auto simp: unforged_def s2_def s1_def)
  moreover have session: "resolve_session_cookie flow_signing (ed_public flow_signing ''k'') ?hs' 5 = Some gained"
    using gained_read by (simp add: resolve_session_cookie_def session_cookie_read)
  moreover have "provider_ok flow_signing (\<lambda>_. toy_idp) toy_oidc" by (auto simp: provider_ok_def toy_exchange one_identity_def is_ascii_def)
  ultimately have "\<exists>t' auth_code st u. st \<in> so_states s2 \<and> t' \<le> st_expires_at st \<and> Inr one_identity = (Inr u :: str + identity) \<and>
       sn_sub gained = id_sub u \<and> sn_tenant gained = tenant_of_identity u"
    using sessions_from_provider [OF _ _ _ run, where hs = ?hs' and t = 5 and c = gained] by (simp add: flow_simps toy_exchange) blast
  then show ?thesis
    using run session by (auto simp: flow_simps one_identity_def tenant_of_identity_def)
qed

end
