(* ===== verification/Spec2Isabelle.thy ===== *)
theory Spec2Isabelle
  imports Omp_Chunks Omp_Gc Omp_Diff Omp_Encrypted Omp_Open Omp_Remote Omp_Routes Omp_Builder Omp_Install Omp_Login
begin

text \<open>
  OpenMemoryProtocol keeps the files of an agent's memory in repositories shaped like Git's:
  content-addressed objects, trees, commits and branches, and beside each file a manifest of
  typed fields that a schema declares and that WebAssembly probes or the user fill in. Around
  the library \<open>crates/omp-core\<close> stand services: \<open>omp-server\<close> serves repositories to tenants,
  \<open>omp-gateway\<close> authenticates requests and forwards them with a signed context,
  \<open>omp-builder\<close> compiles probes, and \<open>omp-marketplace\<close> publishes probes and schemas. This
  development models the library and the state and decisions of the services.

  \<^bold>\<open>How the code is modelled.\<close> A byte is a \<open>char\<close>, a \<open>str\<close> a list of them that passes
  \<open>utf8_valid\<close>; a \<open>Result\<close> is a sum, \<open>?\<close> is \<open>bind_res\<close>; a \<open>BTreeMap\<close> is the ordered
  association list of \<open>Ordered_Map\<close>; a \<open>HashMap\<close> is a map, or a list where its iteration
  order can be seen. Widths are kept where they matter: \<open>u64\<close> as a 64-bit word or as a number
  with its bound checked where the code checks it, \<open>u32\<close> indices as 32-bit words, floats as
  bit patterns. State is passed explicitly: the disk of a repository, the cache of the
  gateway, the tables of the builder and the marketplace. What runs concurrently (builds,
  publications, logins) is a step relation whose steps are what the code does while it holds
  a lock. Messages of errors are shortened where nothing reads them: values printed with
  \<open>Debug\<close> and texts of other crates are left out. Names are the program's, with a prefix
  where they would clash.

  \<^bold>\<open>What is a parameter.\<close> SHA-256, zlib, ChaCha20-Poly1305, HKDF, Argon2, X25519, base 64, the
  TOML parser and the float printer are fields of \<open>ext\<close> (\<open>External\<close>); CBOR is \<open>cbor_codec\<close>
  (\<open>Cbor_Data\<close>), Ed25519 is in \<open>signing\<close> (\<open>Omp_Tenant_Ctx\<close>), JSON texts have a reader and a
  writer. What the program relies on of them is a named predicate of documented behaviour,
  with a concrete instance (\<open>toy_ext\<close>, \<open>toy_signing\<close>, \<open>toy_json\<close>) that satisfies it. That
  SHA-256 does not collide is assumed of the objects or names at hand only, that signatures
  are not forged of the messages signed so far only. Random bytes, clocks, the listing order
  of directories, wasmtime, MIME detection, the identity provider, cargo, the delivery of
  remote calls and the answers of other services are arguments. The engine takes the run of a
  probe as an argument as well, of which \<open>Omp_Probe\<close> is the model.

  \<^bold>\<open>Theories.\<close> Shared: \<open>Prelude\<close> (results, strings, bytes), \<open>Text\<close> (UTF-8, trimming, decimals),
  \<open>Codec\<close> (the contract of a wire format, interpreted by every component that has one),
  \<open>Ordered_Map\<close>, \<open>Float64\<close>, \<open>Toml_Data\<close>, \<open>Cbor_Data\<close>, \<open>External\<close>, \<open>Listing\<close>.

  Of \<open>crates/omp-core/src\<close> and \<open>crates/omp-crypto/src\<close>, in the order in which they rest on
  each other:
  \<^item> \<open>Omp_Error\<close> (\<open>error.rs\<close>), \<open>Omp_Hash\<close> (\<open>hash.rs\<close>, \<open>hex.rs\<close>), \<open>Omp_Object\<close> (\<open>object.rs\<close>),
    \<open>Omp_Chunks\<close> (\<open>chunks.rs\<close>), \<open>Omp_Crypto\<close> (\<open>omp-crypto\<close>, \<open>keys.rs\<close>): names of objects
    determine them, sealed data are read back with their keys.
  \<^item> \<open>Omp_Store\<close> (\<open>store/mod.rs\<close>, \<open>store/disk.rs\<close>): the disk store implements a map from
    names to objects, references stay within \<open>.omp/\<close>. The locale \<open>object_store\<close> is the
    interface the rest relies on; the store behind gRPC in \<open>Omp_Remote\<close> (\<open>omp-store\<close>,
    \<open>omp-store-client\<close>) interprets it too.
  \<^item> \<open>Omp_Tree\<close> (\<open>tree.rs\<close>), \<open>Omp_Paths\<close> (\<open>paths.rs\<close>): \<open>get_at\<close>, \<open>put_at\<close>, \<open>delete_at\<close> and \<open>walk\<close>
    implement lookup, update, deletion and listing of a map from paths to files; roots of the
    past stay readable.
  \<^item> \<open>Omp_Commit\<close> (\<open>commit.rs\<close>), \<open>Omp_Refs\<close> (\<open>refs.rs\<close>), \<open>Omp_Gc\<close> (\<open>gc.rs\<close>), \<open>Omp_Audit\<close>
    (\<open>audit.rs\<close>): histories, reachability (the locale \<open>graph_walk\<close>), the chain of the audit log.
  \<^item> \<open>Omp_Toml\<close> (\<open>toml_canonical.rs\<close>), \<open>Omp_Manifest\<close> (\<open>manifest.rs\<close>), \<open>Omp_Share\<close>
    (\<open>tenant.rs\<close>, \<open>encrypted_manifest.rs\<close>, \<open>share.rs\<close>): the documents that are hashed.
  \<^item> \<open>Omp_Schema\<close> (\<open>schema.rs\<close>), \<open>Omp_Engine\<close> (\<open>engine.rs\<close>), \<open>Omp_Query\<close> (\<open>query.rs\<close>): fields
    in an order that respects their dependencies, manifests of the declared types, the
    language that selects them. \<open>Omp_Probe\<close> (\<open>probes/host.rs\<close>, \<open>probes/cbor.rs\<close>): one run of
    a probe, whose outcome is a value in range or an error, never the panic that a slice out of
    bounds would be (\<open>None\<close>).
  \<^item> \<open>Omp_Uploads\<close> (\<open>uploads.rs\<close>), \<open>Omp_Config\<close> (\<open>config.rs\<close>, \<open>probes/manifest.rs\<close>, the rules
    of \<open>walker.rs\<close>), \<open>Omp_Registry\<close> (\<open>registry.rs\<close>, \<open>omp-server/src/auth.rs\<close>).
  \<^item> \<open>Omp_Repo\<close>, \<open>Omp_Ingest\<close>, \<open>Omp_Reprobe\<close>, \<open>Omp_Encrypted\<close>, \<open>Omp_Paging\<close> model \<open>api.rs\<close> in
    this order of its operations; \<open>Omp_Staging\<close> and \<open>Omp_Diff\<close> prove what \<open>commit\<close> and \<open>diff\<close>
    do to the files of a repository; \<open>Omp_Open\<close> creates and opens it.

  Of the services:
  \<^item> \<open>Omp_Json\<close> and \<open>Omp_Routes\<close> (\<open>omp-server/src/routes.rs\<close>, \<open>health.rs\<close>, the envelope of
    \<open>omp-events\<close>): the JSON of answers and patches, a handler per route, and the server that
    runs them on the repositories of its tenants. Each tenant has a disk of its own here: an upload
    identifier with \<open>..\<close> is followed within it (\<open>session_dir\<close>), and one that climbs out of
    it, which the code allows, leads to no modelled place.
  \<^item> \<open>Omp_Tenant_Ctx\<close> (\<open>omp-tenant-ctx\<close>): the signed context of a request.
  \<^item> \<open>Omp_Gateway\<close> and \<open>Omp_Login\<close> (\<open>omp-gateway/src/auth.rs\<close>, \<open>lib.rs\<close>): whom a request is from,
    the cache of API keys, where a request is forwarded; logging in, refreshing and logging
    out, with the cookies they sign.
  \<^item> \<open>Omp_Calendar\<close> and \<open>Omp_Builder\<close> (\<open>omp-builder\<close>): dates, and the table of builds beside
    the tasks that run them.
  \<^item> \<open>Omp_Catalog\<close> (\<open>omp-marketplace/src/blobs.rs\<close>, \<open>catalog.rs\<close>), \<open>Omp_Marketplace\<close> (\<open>lib.rs\<close>),
    \<open>Omp_Market_Schemas\<close> (\<open>schemas.rs\<close>), \<open>Omp_Market\<close>: the handlers and the running service.
    What a catalog promises its publishers and consumers is proved once, in the locale
    \<open>owned_shelf\<close>, which both catalogs interpret.
  \<^item> \<open>Omp_Install\<close> (\<open>install_from_marketplace\<close> in \<open>omp-gateway/src/lib.rs\<close>) joins the gateway,
    the marketplace and a shard.

  This theory holds the properties that span services: every service sees the principal the
  gateway resolved, and an install delivers the files that were published.

  \<^bold>\<open>Recursion.\<close> Loops over input are structural or have a termination proof. Where the recursion
  follows the contents of a store or the depth of a text, the model has fuel, and running out
  of it is a result of its own that the program does not have: \<open>walk_complete\<close> and
  \<open>gc_walk_ends\<close> show that enough fuel exists on every store that the operations build,
  \<open>query_parse_total\<close> that four units per token suffice for the parser. The walks over the
  history and the audit chain end by what they have seen, or are \<open>partial_function\<close>s whose
  termination is proved for chains that were appended.

  \<^bold>\<open>Not modelled.\<close>
  \<^item> Device failures, limits of the operating system and the temporary files of atomic writes,
    except in the marketplace, where any attempt to write may fail.
  \<^item> The recursion of \<open>walker.rs\<close> over the directories of the host, which only tests call.
  \<^item> What fuel and the time limit of a probe mean inside wasmtime, the watchdog thread and the
    starter probes, which are binaries.
  \<^item> The decoding of requests by axum (but for the body of a patch) and the routing of paths, the metrics, and the command line, which decodes arguments, calls the operations modelled here
    and prints their results.
  \<^item> The messages, connection and context header of the remote store, the channel that carries
    events to watchers that lag, and the payloads, which are generated code.
  \<^item> The cargo process of a build and its limits, the live stream of log lines, the embedded
    user interface, the transport of HTTP bodies.
  \<^item> Wiping keys from memory.
\<close>

section \<open>Properties that span components\<close>

text \<open>
  C18. The services see who the gateway saw. When the gateway forwards a request, whatever
  headers the client sent, the builder takes it as a request of the tenant of the principal
  that the gateway resolved. The marketplace, verifying with the key of the gateway, takes
  it for thirty seconds as one of that tenant and user when the principal is a user, and
  afterwards answers 401; it never takes it as one of another tenant or user.
\<close>

theorem services_see_principal:
  assumes "signing_ok G" "\<forall>b. list_all visible (std64_encode G b)" "int t + 30 < 2 ^ 63"
    and "resolve_principal_async G gw validate (rq_headers rq) t m = (Some p, m1)"
    and "utf8_valid (pr_tenant p)" "\<forall>u. pr_sub p = Some u \<longrightarrow> utf8_valid u"
    and "proxy_request G gw validate rq t m = (Forward url hs body, m2)"
  defines "seen \<equiv> \<lambda>now_unix. require_authed_publisher G (Some (ed_public G (gw_key gw))) now_unix hs"
  shows "builder_resolve_tenant G hs = Some (pr_tenant p) \<and>
    (\<forall>now_unix u. pr_sub p = Some u \<and> u \<noteq> [] \<and> now_unix \<le> int t + 30 \<longrightarrow> seen now_unix = Ok (pr_tenant p, u)) \<and>
    (\<forall>now_unix. int t + 30 < now_unix \<longrightarrow> seen now_unix = Err (401, ''bad_context'')) \<and>
    (\<forall>now_unix tenant u. seen now_unix = Ok (tenant, u) \<longrightarrow> tenant = pr_tenant p \<and> pr_sub p = Some u)"
proof -
  from proxy_context [OF assms(1-7)] obtain wire c where
    w: "filter (\<lambda>(k, _). k = TENANT_CTX_HEADER) hs = [(TENANT_CTX_HEADER, wire)]" "hdr_str wire = Some wire"
      "tc_tenant_id c = pr_tenant p" "tc_sub c = pr_sub p"
      "\<And>t'. verify_at G wire (ed_public G (gw_key gw)) t' = (if int t + 30 < t' then Inl (CtxExpired (int t + 30) t') else Inr c)"
    by blast
  have get: "hdr_get hs TENANT_CTX_HEADER = Some wire" using w(1) by (rule hdr_get_filter)
  have "decode_unverified G wire = Inr c"
    using w(5) [of "int t"] by (auto simp: verify_at_def bind_res_eq_Inr split: if_splits)
  then have tenant: "builder_resolve_tenant G hs = Some (pr_tenant p)" using get w(2,3) by (simp add: builder_resolve_tenant_def)
  have "seen now_unix = (if int t + 30 < now_unix then Err (401, ''bad_context'')
      else case pr_sub p of Some u \<Rightarrow> if u \<noteq> [] then Ok (pr_tenant p, u) else Err (403, ''no_sub'')
           | None \<Rightarrow> Err (403, ''no_sub''))" for now_unix
    unfolding seen_def using get w(2-5) by (auto simp: require_authed_publisher_def ok_or_def split: option.splits)
  then show ?thesis using tenant by (auto split: option.splits if_splits)
qed

text \<open>A user with a session cookie, whose request carries a forged context.\<close>

definition session_raw :: bytes where
  "session_raw = cbor_encode marked_codec
     (envelope_cbor (cbor_encode marked_codec (session_to_cbor one_session)) (pad_to 64 ''k''))"

definition user_signing :: signing where
  "user_signing = toy_signing\<lparr>sx := toy_ext\<lparr>b64_encode := (\<lambda>b. if b = session_raw then ''S'' else CHR ''T'' # b),
     b64_decode := (\<lambda>w. if w = ''S'' then Inr session_raw else Inr (tl w))\<rparr>\<rparr>"

lemma user_signing_ok: "signing_ok user_signing" "list_all visible (std64_encode user_signing b)"
  using toy_signing_ok
  by (simp_all add: signing_ok_def user_signing_def b64_ok_def ed_ok_def std64_ok_def toy_signing_def)

definition user_request :: request where
  "user_request = dev_request\<lparr>rq_headers := [(''cookie'', ''omp_session=S''), (TENANT_CTX_HEADER, ''forged'')]\<rparr>"

lemma user_principal:
  "resolve_principal_async user_signing dev_gateway v (rq_headers user_request) 7 m = (Some \<lparr>pr_tenant = ''a'', pr_sub = Some ''u''\<rparr>, m)"
proof -
  have "trim ''omp_session=S'' = ''omp_session=S''" by (rule trim_ascii_id) (simp_all add: is_ascii_def ws1_def)
  then have cookie: "parse_cookie (rq_headers user_request) ''omp_session'' = Some ''S''"
    by (simp add: parse_cookie_def hdr_get_def hdr_str_def visible_def strip_prefix_def user_request_def)
  let ?b = "cbor_encode marked_codec (session_to_cbor one_session)"
  have d: "cbor_decode marked_codec (cbor_encode marked_codec v) = Inr v" for v by (simp add: marked_codec_def)
  have G: "sx_codec user_signing = marked_codec" "b64_decode (sx user_signing) ''S'' = Inr session_raw"
    by (simp_all add: user_signing_def toy_signing_def)
  have "signature_valid user_signing ''k'' (signed_message SESSION_DOMAIN_TAG ?b) (pad_to 64 ''k'')"
    by (simp add: signature_valid_def user_signing_def toy_signing_def)
  moreover have "session_ok one_session" by (simp add: session_ok_def one_session_def U64_MAX_def is_ascii_def)
  ultimately have "decode_session user_signing ''k'' ''S'' 7 False = Inr one_session"
    using session_codec [of one_session]
    by (simp add: decode_session_def decode_signed_def G d session_raw_def cookie_parts_def envelope_cbor_def cb_get_def cb_bytes_def)
      (simp add: one_session_def)
  moreover have "ed_public user_signing (gw_key dev_gateway) = ''k''" by (simp add: user_signing_def toy_signing_def dev_gateway_def)
  ultimately show ?thesis
    using cookie by (simp add: resolve_principal_async_def resolve_principal_def resolve_session_cookie_def) (simp add: one_session_def)
qed

theorem services_see_principal_witness:
  "\<exists>url hs m. proxy_request user_signing dev_gateway (\<lambda>_. None) user_request 7 [] = (Forward url hs ''hi'', m) \<and>
     builder_resolve_tenant user_signing hs = Some ''a'' \<and>
     require_authed_publisher user_signing (Some ''k'') 37 hs = Ok (''a'', ''u'') \<and>
     require_authed_publisher user_signing (Some ''k'') 38 hs = Err (401, ''bad_context'')"
proof -
  note p = user_principal [of "\<lambda>_. None" "[]"]
  obtain url hs m where run: "proxy_request user_signing dev_gateway (\<lambda>_. None) user_request 7 [] = (Forward url hs ''hi'', m)"
    using p
    by (simp add: proxy_request_def upstream_base_def shard_for_def issue_default_with_sub_def issue_with_sub_def
        canonical_signed_bytes_def context_encode_def Let_def dev_gateway_def user_request_def dev_request_def starts_with_def)
  have k: "ed_public user_signing (gw_key dev_gateway) = ''k''" by (simp add: user_signing_def toy_signing_def dev_gateway_def)
  note seen = services_see_principal [OF user_signing_ok(1) _ _ p _ _ run, unfolded k]
  show ?thesis using run seen user_signing_ok(2) by (auto simp: is_ascii_def)
qed

text \<open>
  C19. What an install stages. When the marketplace, in any state it can be in, shows a probe
  and serves the requests of an install of it, the uploads that the gateway sends go to the
  shard of the tenant, the one its other requests are forwarded to. They are, in this order,
  the code, the manifest and the readme of the probe, each with the content its entry names
  by hash, at the path of the probe, in a context that speaks for the principal of the
  request. The answer is a success exactly when the shard accepted all of them, and then names
  the probe and lists what the shard answered, in order; otherwise it is an error after the
  first upload that was refused (\<open>shard_stage\<close>) or lost (\<open>shard_unreachable\<close>), and the
  uploads before it stay accepted.
\<close>

theorem install_delivers:
  assumes "market_run V market_start es s" "market_json_ok V"
    and "get_probe (\<lambda>_. None) i (mk_probes s) (mk_blobs s) = Ok (e, preview)"
    and "signing_ok G" "int t + 30 < 2 ^ 63"
    and "resolve_principal_async G gw validate hs t m = (Some p, m1)"
    and "pr_tenant p \<noteq> []" "utf8_valid (pr_tenant p)" "\<forall>u. pr_sub p = Some u \<longrightarrow> utf8_valid u"
    and "gc_marketplace (gw_config gw) = Some url" "gc_shards (gw_config gw) \<noteq> []"
    and "reaches_market url s i entry_at blob_at"
    and "install_from_marketplace G gw validate hs t m entry_at blob_at shard i = ((r, us), m2)"
  shows "\<exists>base r'. shard_for G (gw_config gw) (pr_tenant p) = Some base \<and>
    staging_of shard (delivers (mv_ext V) (trim_end_matches (CHR ''/'') base @ ''/files'') (speaks_for G gw p t) e) (probe_files e) r' [] us \<and>
    r = bind_res r' (\<lambda>js. Ok \<lparr>in_namespace = pe_namespace e, in_name = pe_name e, in_staged = js\<rparr>)"
proof -
  obtain base where base: "shard_for G (gw_config gw) (pr_tenant p) = Some base" using assms(11) by (simp add: shard_for_def)
  let ?url = "trim_end_matches (CHR ''/'') url @ ''/marketplace/probes/'' @ i"
  have "entry_at ?url = Fetched (Some (listed_of e))" and blobs:
    "\<And>h. blob_at (?url @ ''/blobs/'' @ h) = fetched_of id (get_blob (\<lambda>_. None) i h (mk_probes s) (mk_blobs s))"
    using assms(3,12) by (simp_all add: reaches_market_def Let_def fetched_of_def)
  then have run: "install_entry G gw p t (trim_end_matches (CHR ''/'') base) (\<lambda>h. blob_at (?url @ ''/blobs/'' @ h)) shard (listed_of e) = (r, us)"
    using assms(6,10,13) base by (simp add: install_from_marketplace_def Let_def)
  have "sha_ok (mv_ext V)" using assms(2) by (simp add: market_json_ok_def)
  from install_entry_delivers [OF started_market_inv [OF assms(1,2)] this get_probe_entry [OF assms(3)] assms(4,5,7-9) blobs run]
  show ?thesis using base by blast
qed

section \<open>Examples\<close>

definition market_gateway :: gateway where
  "market_gateway = dev_gateway\<lparr>gw_config := (gw_config dev_gateway)\<lparr>gc_marketplace := Some ''http://m''\<rparr>\<rparr>"

lemma market_gateway_principal:
  "resolve_principal_async toy_signing market_gateway v (rq_headers dev_request) t m = (Some \<lparr>pr_tenant = ''a'', pr_sub = None\<rparr>, m)"
proof -
  have same: "gw_key market_gateway = gw_key dev_gateway" "gw_oidc market_gateway = gw_oidc dev_gateway"
    "resolve_bearer_token toy_signing (gw_config market_gateway) hs = resolve_bearer_token toy_signing (gw_config dev_gateway) hs" for hs
    by (simp_all add: market_gateway_def resolve_bearer_token_def cong: option.case_cong if_cong)
  show ?thesis using dev_principal [of v t m] unfolding resolve_principal_async_def resolve_principal_def same .
qed

text \<open>A shard that answers every upload with its path.\<close>

theorem install_delivers_witness:
  "\<exists>s entry_at blob_at us m. market_run toy_market market_start [Begun u_publication, Quiet, On_Behalf ''u''] s \<and>
     reaches_market ''http://m'' s (pb_id (mv_ext toy_market) u_publication) entry_at blob_at \<and>
     install_from_marketplace toy_signing market_gateway (\<lambda>_. None) (rq_headers dev_request) 7 [] entry_at blob_at
       (\<lambda>_ u. Accepted (Some (up_path u))) (pb_id (mv_ext toy_market) u_publication) =
         ((Ok \<lparr>in_namespace = ''n'', in_name = ''p'', in_staged = [''probes/n/p/probe.wasm'', ''probes/n/p/probe.toml'']\<rparr>, us), m) \<and>
     map up_url us = [''http://shard/files'', ''http://shard/files''] \<and>
     map up_path us = [''probes/n/p/probe.wasm'', ''probes/n/p/probe.toml''] \<and>
     map (\<lambda>u. sha256_hex (mv_ext toy_market) (up_bytes u)) us = map (sha256_hex (mv_ext toy_market)) [''w'', ''m'']"
proof -
  let ?i = "pb_id (mv_ext toy_market) u_publication" and ?e = "probe_of (mv_ext toy_market) u_publication ''w'' 0"
  let ?shard = "\<lambda>(_ :: upload list) u. Accepted (Some (up_path u))"
  obtain s where s: "market_run toy_market market_start [Begun u_publication, Quiet, On_Behalf ''u''] s"
      "ct_entries (mk_probes s) ?i = Some ?e"
    using u_entered by blast
  have "pe_yanked_at ?e = None" by (simp add: probe_of_def)
  then obtain preview where shown: "get_probe (\<lambda>_. None) ?i (mk_probes s) (mk_blobs s) = Ok (?e, preview)"
    using s(2) by (simp add: get_probe_def)
  define entry_at where "entry_at = (\<lambda>_ :: str. fetched_of (\<lambda>(e, _). Some (listed_of e)) (get_probe (\<lambda>_. None) ?i (mk_probes s) (mk_blobs s)))"
  define blob_at where "blob_at = (\<lambda>u. fetched_of id (get_blob (\<lambda>_. None) ?i
      (drop (length (''http://m'' @ ''/marketplace/probes/'' @ ?i @ ''/blobs/'')) u) (mk_probes s) (mk_blobs s)))"
  have "trim_end_matches (CHR ''/'') ''http://m'' = ''http://m''" by (rule trim_end_matches_id) simp
  then have reach: "reaches_market ''http://m'' s ?i entry_at blob_at"
    by (simp add: reaches_market_def entry_at_def blob_at_def)
  obtain r us m where run: "install_from_marketplace toy_signing market_gateway (\<lambda>_. None) (rq_headers dev_request) 7 [] entry_at blob_at
      ?shard ?i = ((r, us), m)" by (metis prod.collapse)
  have gw: "gc_marketplace (gw_config market_gateway) = Some ''http://m''" "gc_shards (gw_config market_gateway) \<noteq> []"
    by (simp_all add: market_gateway_def dev_gateway_def)
  let ?speaks = "speaks_for toy_signing market_gateway \<lparr>pr_tenant = ''a'', pr_sub = None\<rparr> 7"
  have shard: "shard_for toy_signing (gw_config market_gateway) ''a'' = Some ''http://shard/''"
    by (simp add: shard_for_def market_gateway_def dev_gateway_def)
  have trim: "trim_end_matches (CHR ''/'') ''http://shard/'' = ''http://shard''" by (simp add: trim_end_matches_def)
  from install_delivers [OF s(1) toy_market_ok shown toy_signing_ok(1) _ market_gateway_principal _ _ _ gw reach run] shard trim
  obtain r' where d: "staging_of ?shard (delivers (mv_ext toy_market) ''http://shard/files'' ?speaks ?e)
      [(''probe.wasm'', sha256_hex (mv_ext toy_market) ''w''), (''probe.toml'', sha256_hex (mv_ext toy_market) ''m'')] r' [] us"
      "r = bind_res r' (\<lambda>js. Ok \<lparr>in_namespace = ''n'', in_name = ''p'', in_staged = js\<rparr>)"
    by (auto simp: is_ascii_def probe_files_def probe_of_def u_publication_def)
  then obtain js where r': "r' = Ok js" by (cases r') (auto simp: staging_of_def)
  then have "length us = 2" and js: "js = answers_of ?shard [] us" using d(1) by (simp_all add: staging_of_def)
  then obtain x y where us: "us = [x, y]" by (auto simp: numeral_2_eq_2 length_Suc_conv)
  have "delivers (mv_ext toy_market) ''http://shard/files'' ?speaks ?e (''probe.wasm'', sha256_hex (mv_ext toy_market) ''w'') x"
    "delivers (mv_ext toy_market) ''http://shard/files'' ?speaks ?e (''probe.toml'', sha256_hex (mv_ext toy_market) ''m'') y"
    using d us by (simp_all add: staging_of_def)
  then have files: "map up_url us = [''http://shard/files'', ''http://shard/files'']"
    "map up_path us = [''probes/n/p/probe.wasm'', ''probes/n/p/probe.toml'']"
    "map (\<lambda>u. sha256_hex (mv_ext toy_market) (up_bytes u)) us = map (sha256_hex (mv_ext toy_market)) [''w'', ''m'']"
    by (simp_all add: us delivers_def probe_of_def u_publication_def)
  then have "js = [''probes/n/p/probe.wasm'', ''probes/n/p/probe.toml'']" using js us by (simp add: answers_of_Cons body_of_def) (simp add: answers_of_def)
  then have "install_from_marketplace toy_signing market_gateway (\<lambda>_. None) (rq_headers dev_request) 7 [] entry_at blob_at ?shard ?i =
      ((Ok \<lparr>in_namespace = ''n'', in_name = ''p'', in_staged = [''probes/n/p/probe.wasm'', ''probes/n/p/probe.toml'']\<rparr>, us), m)"
    using run r' d(2) by simp
  then show ?thesis
    using s(1) reach files by (intro exI [of _ s] exI [of _ entry_at] exI [of _ blob_at] exI [of _ us] exI [of _ m] conjI)
qed

end
